(* ===== verification/Prelude.thy ===== *)
theory Prelude
  imports Complex_Main "HOL-Library.Word"
begin

text \<open>
  Shared vocabulary of the development: the integer widths the firmware uses, addresses of
  statically allocated blocks, and generic facts on lists, words and options that several
  components need.  Facts that describe how a component looks up its records are collected in
  \<open>lookup_simps\<close>, facts about what its invariant keeps in \<open>inv_intros\<close>.
\<close>

unbundle bit_operations_syntax

named_theorems lookup_simps \<open>lookups after updates\<close>
named_theorems inv_intros \<open>preservation of component invariants\<close>

type_synonym u8 = "8 word"
type_synonym u16 = "16 word"
type_synonym u32 = "32 word"
type_synonym addr = nat
type_synonym ipaddr = "u8 list"
type_synonym eui64 = "u8 list"

text \<open>Linear scans: \<open>List.find\<close> is the loop \<open>for (it = head; it; it = next) if (p) return it\<close>.\<close>

lemma find_SomeD: "List.find P xs = Some x \<Longrightarrow> x \<in> set xs \<and> P x"
  by (induction xs) (auto split: if_splits)

lemma find_None_iff_Ball: "List.find P xs = None \<longleftrightarrow> (\<forall>x\<in>set xs. \<not> P x)"
  by (auto simp: find_None_iff)

lemma find_unique:
  assumes "x \<in> set xs" "P x" "\<And>y. \<lbrakk>y \<in> set xs; P y\<rbrakk> \<Longrightarrow> y = x"
  shows "List.find P xs = Some x"
proof (cases "List.find P xs")
  case None
  with assms(1,2) show ?thesis by (auto simp: find_None_iff)
next
  case (Some y)
  with find_SomeD [OF Some] assms(3) show ?thesis by simp
qed

lemma find_cong_set:
  "(\<And>x. x \<in> set xs \<Longrightarrow> P x = Q x) \<Longrightarrow> List.find P xs = List.find Q xs"
  by (induction xs) auto

lemma find_filter: "List.find P (filter Q xs) = List.find (\<lambda>x. P x \<and> Q x) xs"
  by (induction xs) auto

lemma find_append:
  "List.find P (xs @ ys) = (case List.find P xs of None \<Rightarrow> List.find P ys | Some x \<Rightarrow> Some x)"
  by (induction xs) auto

text \<open>Lists of block addresses without repetition.\<close>

lemma distinct_card_le:
  "\<lbrakk>distinct xs; set xs \<subseteq> {..<n}\<rbrakk> \<Longrightarrow> length xs \<le> n"
  by (metis card_lessThan card_mono distinct_card finite_lessThan)

lemma length_remove1_le: "length (remove1 x xs) \<le> length xs"
  by (simp add: length_remove1)

text \<open>A table filled by index: later writes to other positions leave an entry alone.\<close>

lemma length_fold_list_update [simp]:
  "length (fold (\<lambda>i t. t[f i := g i]) is t) = length t"
  by (induction "is" arbitrary: t) auto

lemma fold_list_update_other:
  "k \<notin> f ` set is \<Longrightarrow> fold (\<lambda>i t. t[f i := g i]) is t ! k = t ! k"
  by (induction "is" arbitrary: t) auto

lemma fold_list_update_nth:
  "\<lbrakk>distinct is; inj_on f (set is); j \<in> set is; f j < length t\<rbrakk> \<Longrightarrow>
    fold (\<lambda>i t. t[f i := g i]) is t ! f j = g j"
proof (induction "is" arbitrary: t)
  case (Cons i "is")
  show ?case
  proof (cases "j = i")
    case True
    with Cons.prems have "f j \<notin> f ` set is" by auto
    with True Cons.prems show ?thesis by (simp add: fold_list_update_other)
  next
    case False
    with Cons show ?thesis by simp
  qed
qed simp

text \<open>Low-bit masks written as literals.\<close>

lemma mask_literals:
  "(0x3 :: 8 word) = mask 2" "(0xF :: 8 word) = mask 4" "(0x3F :: 8 word) = mask 6"
  by (simp_all add: mask_numeral numeral_eq_Suc mask_Suc_double)

lemma unat_and_mask_less: "unat ((w :: 'a::len word) AND mask n) < 2 ^ n"
  by (simp add: unsigned_take_bit_eq flip: take_bit_eq_mask)

text \<open>Bytes are equal when their eight bits are.\<close>

lemma u8_bit_high: "8 \<le> n \<Longrightarrow> \<not> bit (b :: u8) n"
  using bit_imp_le_length [of b n] by auto

lemma u8_eqI:
  fixes a b :: u8
  assumes "bit a 0 = bit b 0" "bit a 1 = bit b 1" "bit a 2 = bit b 2" "bit a 3 = bit b 3"
    "bit a 4 = bit b 4" "bit a 5 = bit b 5" "bit a 6 = bit b 6" "bit a 7 = bit b 7"
  shows "a = b"
proof (rule bit_word_eqI)
  fix n assume "n < LENGTH(8)"
  then have "n \<in> {0, 1, 2, 3, 4, 5, 6, 7}" by auto
  with assms show "bit a n = bit b n" by auto
qed

text \<open>Single flag bits of a 32-bit flag word.\<close>

lemma word_and_not_and_same [simp]: "((w :: 'a::len word) AND NOT m) AND m = 0"
  by (rule bit_word_eqI) (auto simp: bit_simps)

lemma word_or_and_same [simp]: "((w :: 'a::len word) OR m) AND m = m"
  by (rule bit_word_eqI) (auto simp: bit_simps)

text \<open>
  C strings in fixed buffers: \<open>strncpy\<close> copies at most \<open>n\<close> characters and fills up with NUL, and the rest
  of the buffer stays; \<open>cstr\<close> is the string the library functions read from a buffer.
\<close>

definition NUL :: char where
  "NUL = CHR 0x00"

definition cstr :: "char list \<Rightarrow> string" where
  "cstr buf = takeWhile (\<lambda>c. c \<noteq> NUL) buf"

definition strncpy :: "char list \<Rightarrow> string \<Rightarrow> nat \<Rightarrow> char list" where
  "strncpy buf s n = take n (cstr s) @ replicate (n - length (cstr s)) NUL @ drop n buf"

lemma length_strncpy [simp]: "n \<le> length buf \<Longrightarrow> length (strncpy buf s n) = length buf"
  by (simp add: strncpy_def)

lemma cstr_strncpy:
  assumes "n < length buf" "buf ! n = NUL"
  shows "cstr (strncpy buf s n) = take n (cstr s)"
proof -
  have d: "drop n buf = NUL # drop (Suc n) buf" using assms by (metis Cons_nth_drop_Suc)
  have t: "takeWhile (\<lambda>c. c \<noteq> NUL) (replicate k NUL @ NUL # xs) = []" for k xs
    by (cases k) auto
  have "\<forall>x\<in>set (take n (cstr s)). x \<noteq> NUL"
    unfolding cstr_def by (auto dest: in_set_takeD set_takeWhileD)
  then show ?thesis unfolding strncpy_def cstr_def [of "_ @ _"]
    by (simp add: takeWhile_append2 d t)
qed

lemma nth_strncpy: "\<lbrakk>n \<le> length buf; n \<le> i\<rbrakk> \<Longrightarrow> strncpy buf s n ! i = buf ! i"
  by (auto simp: strncpy_def nth_append min_def)

end
