(* ===== verification/Base64.thy ===== *)
theory Base64
  imports Prelude
begin

text \<open>
  \<open>src/wsn/common/base64.c\<close>: the encoder and decoder.  \<open>size_t\<close> is 32 bits wide on both targets.
  The encoder's result \<open>Some s\<close> means the call returned true, wrote the characters \<open>s\<close> and a
  terminating NUL, and set \<open>*out_len\<close> to \<open>length s\<close>; \<open>None\<close> means it returned false.
\<close>

definition base64_table :: string where
  "base64_table = ''ABCDEFGHIJKLMNOPQRSTUVWXYZabcdefghijklmnopqrstuvwxyz0123456789+/''"

definition b64_char :: "u8 \<Rightarrow> char" where
  "b64_char w = base64_table ! unat w"

text \<open>The block loop and the tail of one or two bytes.\<close>

fun base64_encode_loop :: "u8 list \<Rightarrow> string" where
  "base64_encode_loop (a # b # c # src) =
     b64_char (drop_bit 2 a) #
     b64_char (push_bit 4 (a AND 0x03) OR drop_bit 4 b) #
     b64_char (push_bit 2 (b AND 0x0F) OR drop_bit 6 c) #
     b64_char (c AND 0x3F) # base64_encode_loop src"
| "base64_encode_loop [a] =
     [b64_char (drop_bit 2 a), b64_char (push_bit 4 (a AND 0x03)), CHR ''='', CHR ''='']"
| "base64_encode_loop [a, b] =
     [b64_char (drop_bit 2 a), b64_char (push_bit 4 (a AND 0x03) OR drop_bit 4 b),
      b64_char (push_bit 2 (b AND 0x0F)), CHR ''='']"
| "base64_encode_loop [] = []"

definition base64_olen :: "u32 \<Rightarrow> u32" where
  "base64_olen len = len * 4 div 3 + 4 + 1"

definition base64_encode :: "u8 list \<Rightarrow> u32 \<Rightarrow> u32 \<Rightarrow> string option" where
  "base64_encode src len out_len =
     (let olen = base64_olen len in
      if olen < len then None
      else if out_len < olen then None
      else Some (base64_encode_loop (take (unat len) src)))"

text \<open>The decoder's lookup table, built as the code builds it.\<close>

definition dtable :: "u8 list" where
  "dtable = (fold (\<lambda>i t. t[of_char (base64_table ! i) := word_of_nat i]) [0..<64]
               (replicate 256 0x80)) [of_char CHR ''='' := 0]"

definition dlookup :: "char \<Rightarrow> u8" where
  "dlookup c = dtable ! of_char c"

text \<open>
  The second loop.  \<open>block\<close> holds the \<open>count\<close> sextets collected so far, \<open>out\<close> what lies before
  \<open>pos\<close>.  \<open>None\<close> is the early \<open>return false\<close> on invalid padding; after a padded block the loop is left.
\<close>

fun base64_decode_loop :: "string \<Rightarrow> u8 list \<Rightarrow> nat \<Rightarrow> u8 list \<Rightarrow> u8 list option" where
  "base64_decode_loop [] block pad out = Some out"
| "base64_decode_loop (c # src) block pad out =
     (let tmp = dlookup c in
      if tmp = 0x80 then base64_decode_loop src block pad out else
      let pad = (if c = CHR ''='' then Suc pad else pad);
          block = block @ [tmp]
      in if length block = 4 then
           let out = out @ [push_bit 2 (block ! 0) OR drop_bit 4 (block ! 1),
                            push_bit 4 (block ! 1) OR drop_bit 2 (block ! 2),
                            push_bit 6 (block ! 2) OR block ! 3]
           in if pad = 0 then base64_decode_loop src [] pad out
              else if pad = 1 then Some (take (length out - 1) out)
              else if pad = 2 then Some (take (length out - 2) out)
              else None
         else base64_decode_loop src block pad out)"

definition base64_decode :: "string \<Rightarrow> nat \<Rightarrow> u8 list option" where
  "base64_decode source out_len =
     (let count = length (filter (\<lambda>c. dlookup c \<noteq> 0x80) source) in
      if count = 0 \<or> count mod 4 \<noteq> 0 then None
      else if out_len < count div 4 * 3 then None
      else base64_decode_loop source [] 0 [])"

text \<open>Facts about the table.\<close>

lemma base64_table_props [simp]: "length base64_table = 64" "distinct base64_table"
    "CHR ''='' \<notin> set base64_table"
  by (simp_all add: base64_table_def)

lemma of_char_less_256 [simp]: "(of_char c :: nat) < 256"
  by (metis nat_of_char_less_256)

lemma inj_on_table: "inj_on (\<lambda>i. of_char (base64_table ! i) :: nat) (set [0..<64])"
  by (auto simp: inj_on_def nth_eq_iff_index_eq)

lemma table_not_pad: "n < 64 \<Longrightarrow> base64_table ! n \<noteq> CHR ''=''"
  using nth_mem [of n base64_table] base64_table_props by force

lemma dlookup_table:
  assumes "n < 64"
  shows "dlookup (base64_table ! n) = word_of_nat n"
proof -
  have "(of_char (base64_table ! n) :: nat) \<noteq> of_char CHR ''=''"
    using table_not_pad [OF assms] of_char_eq_iff by blast
  then show ?thesis
    unfolding dlookup_def dtable_def
    using assms fold_list_update_nth [OF _ inj_on_table, of n "replicate 256 0x80" word_of_nat]
    by (simp only: nth_list_update_neq length_replicate distinct_upt set_upt atLeastLessThan_iff)
      simp
qed

lemma dlookup_pad [simp]: "dlookup CHR ''='' = 0"
  by (simp add: dlookup_def dtable_def)

lemma dlookup_b64_char:
  assumes "unat w < 64"
  shows "dlookup (b64_char w) = w" "b64_char w \<noteq> CHR ''=''" "w \<noteq> 0x80"
  using dlookup_table [OF assms] table_not_pad [OF assms] assms by (auto simp: b64_char_def)


text \<open>The sextets of a block are below 64, and the decoder's shifts undo the encoder's.\<close>

lemmas bit_pushes = push_bit_and push_bit_or drop_bit_and drop_bit_or

lemma sextetI: "w AND mask 6 = (w :: u8) \<Longrightarrow> unat w < 64"
  using unat_and_mask_less [of w 6] by simp

lemma sextet_bounds:
  fixes a b :: u8
  shows "unat (drop_bit 2 a) < 64" "unat (push_bit 4 (a AND mask 2) OR drop_bit 4 b) < 64"
    "unat (push_bit 2 (a AND mask 4) OR drop_bit 6 b) < 64" "unat (a AND mask 6) < 64"
    "unat (push_bit 4 (a AND mask 2)) < 64" "unat (push_bit 2 (a AND mask 4)) < 64"
  by (rule sextetI, rule bit_word_eqI, auto simp: bit_simps simp del: bit_pushes dest: bit_imp_le_length)+

lemma sextet_join:
  fixes a b c :: u8
  shows "push_bit 2 (drop_bit 2 a) OR drop_bit 4 (push_bit 4 (a AND mask 2) OR drop_bit 4 b) = a"
    "push_bit 4 (push_bit 4 (a AND mask 2) OR drop_bit 4 b) OR
       drop_bit 2 (push_bit 2 (b AND mask 4) OR drop_bit 6 c) = b"
    "push_bit 6 (push_bit 2 (b AND mask 4) OR drop_bit 6 c) OR c AND mask 6 = c"
    "push_bit 2 (drop_bit 2 a) OR drop_bit 4 (push_bit 4 (a AND mask 2)) = a"
    "push_bit 4 (push_bit 4 (a AND mask 2) OR drop_bit 4 b) OR drop_bit 2 (push_bit 2 (b AND mask 4)) = b"
  by (rule u8_eqI; simp add: bit_simps u8_bit_high del: bit_pushes)+

lemmas sextet_decode [simp] =
  sextet_bounds [THEN dlookup_b64_char(1)] sextet_bounds [THEN dlookup_b64_char(2)]
  sextet_bounds [THEN dlookup_b64_char(3)]

lemma base64_loops: "base64_decode_loop (base64_encode_loop src) [] 0 out = Some (out @ src)"
proof (induction src arbitrary: out rule: base64_encode_loop.induct)
  case (1 a b c src)
  then show ?case by (simp add: mask_literals Let_def sextet_join del: bit_pushes)
next
  case (2 a)
  show ?case by (simp add: mask_literals Let_def sextet_join del: bit_pushes)
next
  case (3 a b)
  show ?case by (simp add: mask_literals Let_def sextet_join del: bit_pushes)
next
  case 4
  show ?case by simp
qed

lemma length_base64_encode_loop: "length (base64_encode_loop src) = 4 * ((length src + 2) div 3)"
proof (induction src rule: base64_encode_loop.induct)
  case (1 a b c src)
  have "length (a # b # c # src) + 2 = length src + 2 + 3" by simp
  then have "(length (a # b # c # src) + 2) div 3 = (length src + 2) div 3 + 1"
    by (simp only: div_add_self2)
  with 1 show ?case by simp
qed simp_all

lemma base64_encode_loop_no_junk:
  "filter (\<lambda>c. dlookup c \<noteq> 0x80) (base64_encode_loop src) = base64_encode_loop src"
  by (induction src rule: base64_encode_loop.induct) (simp_all add: mask_literals del: bit_pushes)

lemma base64_olen_no_wrap:
  assumes "\<not> base64_olen len < len"
  shows "unat (base64_olen len) = unat len * 4 div 3 + 5"
proof -
  define n where "n = unat len"
  have n: "n < 2 ^ 32" using unsigned_less [of len, where 'a = nat] by (simp add: n_def)
  have ol: "unat (base64_olen len) = (n * 4 mod 2 ^ 32) div 3 + 5"
    by (simp add: base64_olen_def unat_word_ariths n_def mod_mult_left_eq unat_div)
  with assms have "n \<le> (n * 4 mod 2 ^ 32) div 3 + 5"
    by (simp add: word_less_nat_alt n_def)
  then have "3 * n \<le> n * 4 mod 4294967296 + 15" by simp
  moreover have "n * 4 mod 4294967296 = n * 4 - (n * 4 div 4294967296) * 4294967296"
    by (rule minus_div_mult_eq_mod [symmetric])
  moreover have "(n * 4 div 4294967296) * 4294967296 \<le> n * 4"
    "n * 4 < 4294967296 + (n * 4 div 4294967296) * 4294967296"
    by (rule div_times_less_eq_dividend, rule dividend_less_div_times) simp
  ultimately have "n * 4 div 4294967296 = 0" using n by simp
  then have "n * 4 mod 2 ^ 32 = n * 4" by simp
  with ol show ?thesis by (simp add: n_def)
qed

text \<open>
  Whatever sizes the caller passes, a successful encode writes at most \<open>*out_len\<close>
  characters including the terminating NUL: the overflow test on the computed length catches
  every wrap-around of the 32-bit multiplication.
\<close>

theorem base64_encode_in_bounds:
  assumes "base64_encode src len out_len = Some s" "length src = unat len"
  shows "length s + 1 \<le> unat out_len \<and> length s = 4 * ((length src + 2) div 3)"
proof -
  from assms(1) have ok: "\<not> base64_olen len < len" "\<not> out_len < base64_olen len"
    and s: "s = base64_encode_loop src"
    using assms(2) by (auto simp: base64_encode_def Let_def split: if_splits)
  have "unat len * 4 div 3 + 5 \<le> unat out_len"
    using ok base64_olen_no_wrap by (simp add: word_less_nat_alt)
  moreover have "length s = 4 * ((unat len + 2) div 3)"
    by (simp add: s length_base64_encode_loop assms(2))
  ultimately show ?thesis using assms(2) by presburger
qed

theorem base64_encode_in_bounds_witness:
  "base64_encode [0x4D, 0x61] 2 16 = Some ''TWE='' \<and> length ''TWE='' + 1 \<le> unat (16 :: u32)"
proof -
  have e: "base64_encode [0x4D, 0x61] 2 16 = Some ''TWE=''" by code_simp
  with base64_encode_in_bounds [OF e] show ?thesis by simp
qed

text \<open>
  C40: decoding what the encoder produced gives the bytes back, provided there is at least one
  byte (the decoder refuses empty input) and room for whole three-byte blocks.
\<close>

theorem base64_roundtrip:
  assumes "base64_encode src len out_len = Some s" "length src = unat len" "src \<noteq> []"
    "3 * ((length src + 2) div 3) \<le> out_len2"
  shows "base64_decode s out_len2 = Some src"
proof -
  have s: "s = base64_encode_loop src"
    using assms(1,2) by (auto simp: base64_encode_def Let_def split: if_splits)
  have "0 < (length src + 2) div 3"
    using assms(3) by (cases src) auto
  with assms(4) show ?thesis
    by (simp add: base64_decode_def s base64_encode_loop_no_junk length_base64_encode_loop base64_loops)
qed

theorem base64_roundtrip_witness:
  "base64_decode ''TWE='' 3 = Some [0x4D, 0x61]"
proof -
  have e: "base64_encode [0x4D, 0x61] 2 16 = Some ''TWE=''" by code_simp
  show ?thesis by (rule base64_roundtrip [OF e]) simp_all
qed

end
