(* ===== verification/Random_Helpers.thy ===== *)
theory Random_Helpers
  imports Prelude
begin

text \<open>
  \<open>src/wsn/common/random-helpers.c\<close>.  The generator \<open>random_rand\<close> and its bound
  \<open>RANDOM_RAND_MAX\<close> belong to Contiki-NG: the generator is the argument \<open>rand\<close>, the sequence of the
  numbers it will return, read from position \<open>k\<close> on, and the bound is the argument \<open>rmax\<close>.  A result
  carries the position after the call.  \<open>None\<close> is a call that has no result: a division by zero,
  or a rejection loop that never accepts.
\<close>

definition random_in_range :: "(nat \<Rightarrow> u16) \<Rightarrow> nat \<Rightarrow> u16 \<Rightarrow> u16 \<Rightarrow> (u16 \<times> nat) option" where
  "random_in_range rand k mn mx =
     (let n = mx - mn + 1 in
      if n = 0 then None else Some (mn + rand k mod n, Suc k))"

partial_function (option) rejection_loop :: "(nat \<Rightarrow> u16) \<Rightarrow> nat \<Rightarrow> nat \<Rightarrow> (u16 \<times> nat) option" where
  "rejection_loop rand limit k =
     (if limit \<le> unat (rand k) then rejection_loop rand limit (Suc k)
      else Some (rand k, Suc k))"

definition random_in_range_unbiased ::
  "u16 \<Rightarrow> (nat \<Rightarrow> u16) \<Rightarrow> nat \<Rightarrow> u16 \<Rightarrow> u16 \<Rightarrow> (u16 \<times> nat) option" where
  "random_in_range_unbiased rmax rand k mn mx =
     (let n = mx - mn + 1 in
      if n = 0 then None else
      let rest = rmax mod n in
      map_option (map_prod (\<lambda>x. mn + x mod n) id) (rejection_loop rand (unat rmax - unat rest) k))"

text \<open>The loop returns the first accepted number, if the generator ever produces one.\<close>

lemma rejection_loop_first:
  "\<lbrakk>unat (rand (k + d)) < limit; \<forall>i<d. limit \<le> unat (rand (k + i))\<rbrakk> \<Longrightarrow>
    rejection_loop rand limit k = Some (rand (k + d), Suc (k + d))"
proof (induction d arbitrary: k)
  case 0
  then show ?case by (simp add: rejection_loop.simps)
next
  case (Suc d)
  have "limit \<le> unat (rand k)" using Suc.prems(2) by (metis add_0_right zero_less_Suc)
  moreover have "rejection_loop rand limit (Suc k) = Some (rand (Suc k + d), Suc (Suc k + d))"
    using Suc.prems by (intro Suc.IH) (auto simp: less_Suc_eq_0_disj)
  ultimately show ?case by (simp add: rejection_loop.simps [of rand limit k])
qed

lemma rejection_loop_total:
  assumes "\<exists>j\<ge>k. unat (rand j) < limit"
  shows "\<exists>d. rejection_loop rand limit k = Some (rand (k + d), Suc (k + d)) \<and> unat (rand (k + d)) < limit"
proof -
  let ?P = "\<lambda>d. unat (rand (k + d)) < limit"
  from assms obtain j where "k \<le> j" "unat (rand j) < limit" by auto
  then have "?P (j - k)" by simp
  then have "?P (LEAST d. ?P d)" "\<forall>i<(LEAST d. ?P d). \<not> ?P i"
    by (auto intro: LeastI dest: not_less_Least)
  then show ?thesis
    using rejection_loop_first [of rand k "LEAST d. ?P d" limit] by (auto simp: not_less)
qed

lemma rejection_loop_SomeD:
  assumes "rejection_loop rand limit k = Some r"
  shows "unat (fst r) < limit"
proof (rule rejection_loop.raw_induct [where P = "\<lambda>rand limit k r. unat (fst r) < limit", OF _ assms])
  fix f rand limit k r
  assume "\<And>rand limit k r. f rand limit k = Some r \<Longrightarrow> unat (fst r) < limit"
    and "(if limit \<le> unat (rand k) then f rand limit (Suc k) else Some (rand k, Suc k)) = Some r"
  then show "unat (fst r) < limit" by (auto split: if_splits)
qed

lemma rejection_loop_const:
  "rejection_loop (\<lambda>_. x) limit 0 = (if unat x < limit then Some (x, 1) else None)"
proof (cases "unat x < limit")
  case True
  then show ?thesis by (simp add: rejection_loop.simps)
next
  case False
  have "fst r = x" if "rejection_loop rand limit k = Some r" "rand = (\<lambda>_. x)" for rand k r
  proof -
    have "rand = (\<lambda>_. x) \<longrightarrow> fst r = x"
      by (rule rejection_loop.raw_induct [where P = "\<lambda>rand limit k r. rand = (\<lambda>_. x) \<longrightarrow> fst r = x", OF _ that(1)])
        (auto split: if_splits)
    with that(2) show ?thesis by simp
  qed
  with False rejection_loop_SomeD show ?thesis by (cases "rejection_loop (\<lambda>_. x) limit 0") fastforce+
qed

lemma range_no_wrap:
  fixes mn mx :: u16
  assumes "mn \<le> mx" "mx - mn + 1 \<noteq> 0"
  shows "unat (mx - mn + 1) = unat mx - unat mn + 1" "0 < unat (mx - mn + 1)"
proof -
  have "unat (mx - mn) = unat mx - unat mn" using assms(1) by (simp add: unat_sub word_le_nat_alt)
  with assms(2) show "unat (mx - mn + 1) = unat mx - unat mn + 1"
    by (metis add.commute unatSuc Suc_eq_plus1)
  then show "0 < unat (mx - mn + 1)" by simp
qed

lemma offset_in_range:
  fixes mn mx x :: u16
  assumes "mn \<le> mx" "mx - mn + 1 \<noteq> 0"
  shows "unat (mn + x mod (mx - mn + 1)) = unat mn + unat x mod (unat mx - unat mn + 1)"
    and "unat x mod (unat mx - unat mn + 1) \<le> unat mx - unat mn"
proof -
  note n = range_no_wrap [OF assms]
  have m: "unat (x mod (mx - mn + 1)) = unat x mod (unat mx - unat mn + 1)"
    by (simp only: unat_mod n(1))
  show le: "unat x mod (unat mx - unat mn + 1) \<le> unat mx - unat mn"
    using mod_less_divisor [of "unat mx - unat mn + 1" "unat x"] by simp
  then have "unat mn + unat (x mod (mx - mn + 1)) \<le> unat mx"
    using assms(1) unfolding m word_le_nat_alt by linarith
  also have "\<dots> < 2 ^ LENGTH(16)" by (rule unsigned_less)
  finally show "unat (mn + x mod (mx - mn + 1)) = unat mn + unat x mod (unat mx - unat mn + 1)"
    by (simp only: unat_plus_simple unat_word_ariths(1) mod_less m)
qed

lemma random_unbiased_returns:
  assumes "mn \<le> mx" "mx - mn + 1 \<noteq> 0"
    "\<exists>j\<ge>k. unat (rand j) < unat rmax - unat rmax mod unat (mx - mn + 1)"
  shows "\<exists>v k'. random_in_range_unbiased rmax rand k mn mx = Some (v, k') \<and> mn \<le> v \<and> v \<le> mx \<and> k < k'"
proof -
  obtain d where d: "rejection_loop rand (unat rmax - unat (rmax mod (mx - mn + 1))) k =
      Some (rand (k + d), Suc (k + d))"
    using rejection_loop_total [of k rand] assms(3) by (auto simp: unat_mod)
  let ?v = "mn + rand (k + d) mod (mx - mn + 1)"
  have "mn \<le> ?v \<and> ?v \<le> mx"
    using offset_in_range [OF assms(1,2), of "rand (k + d)"] assms(1)
    unfolding word_le_nat_alt by linarith
  with d assms(2) show ?thesis by (simp add: random_in_range_unbiased_def Let_def)
qed

text \<open>
  For a range that is not the whole 16-bit range, and a generator that at some point yields
  a number below the rejection limit, the call returns and its value lies in the range.
\<close>

theorem random_in_range_unbiased_in_range:
  assumes "mn \<le> mx" "mx - mn + 1 \<noteq> 0"
    "\<exists>j\<ge>k. unat (rand j) < unat rmax - unat rmax mod unat (mx - mn + 1)"
  shows "\<exists>v k'. random_in_range_unbiased rmax rand k mn mx = Some (v, k') \<and> mn \<le> v \<and> v \<le> mx \<and> k < k'"
  using assms by (rule random_unbiased_returns)

theorem random_in_range_unbiased_in_range_witness:
  "\<exists>v k'. random_in_range_unbiased 65535 (\<lambda>i. if i = 0 then 65535 else 8) 0 0 2 = Some (v, k') \<and>
     0 \<le> v \<and> v \<le> 2 \<and> 0 < k'"
  by (rule random_in_range_unbiased_in_range) (simp_all, rule exI [of _ 1], simp)

text \<open>Counting residues below a multiple of \<open>n\<close>.\<close>

lemma card_residue_below:
  fixes n q r :: nat
  assumes "r < n"
  shows "card {x. x < q * n \<and> x mod n = r} = q"
proof -
  have "{x. x < q * n \<and> x mod n = r} = (\<lambda>i. i * n + r) ` {..<q}"
  proof (intro set_eqI iffI)
    fix x assume "x \<in> {x. x < q * n \<and> x mod n = r}"
    then have x: "x < q * n" "x mod n = r" by auto
    then have "x = (x div n) * n + r" by (metis div_mult_mod_eq)
    moreover have "x div n < q" using x(1) assms by (simp add: less_mult_imp_div_less)
    ultimately show "x \<in> (\<lambda>i. i * n + r) ` {..<q}" by blast
  next
    fix x assume "x \<in> (\<lambda>i. i * n + r) ` {..<q}"
    then obtain i where i: "i < q" "x = i * n + r" by auto
    have "i * n + r < i * n + n" using assms by simp
    also have "\<dots> \<le> q * n" using i(1) by (metis Suc_leI mult_Suc mult_le_mono1 add.commute)
    finally show "x \<in> {x. x < q * n \<and> x mod n = r}" using i assms by simp
  qed
  moreover have "inj_on (\<lambda>i. i * n + r) {..<q}" using assms by (auto simp: inj_on_def)
  ultimately show ?thesis by (simp add: card_image)
qed

text \<open>
  C39: no value of the range is favoured.  Every value \<open>v\<close> of the range is the image of
  the same number of accepted generator outputs, \<open>rmax div n\<close>.
\<close>

theorem random_in_range_unbiased_uniform:
  fixes mn mx v rmax :: u16
  assumes "mn \<le> mx" "mx - mn + 1 \<noteq> 0" "mn \<le> v" "v \<le> mx"
  shows "card {x :: u16. random_in_range_unbiased rmax (\<lambda>_. x) 0 mn mx = Some (v, 1)} =
    unat rmax div unat (mx - mn + 1)"
proof -
  let ?n = "unat mx - unat mn + 1" and ?r = "unat v - unat mn"
  define q where "q = unat rmax div ?n"
  note n = range_no_wrap [OF assms(1,2)]
  have lim: "unat rmax - unat (rmax mod (mx - mn + 1)) = q * ?n"
    unfolding unat_mod n(1) q_def by (simp only: minus_mod_eq_div_mult)
  have eq: "mn + x mod (mx - mn + 1) = v \<longleftrightarrow> unat x mod ?n = ?r" for x
    using offset_in_range [OF assms(1,2), of x] assms(3)
    unfolding word_unat_eq_iff word_le_nat_alt by linarith
  define A where "A = {x :: u16. unat x < q * ?n \<and> unat x mod ?n = ?r}"
  have set_eq: "{x. random_in_range_unbiased rmax (\<lambda>_. x) 0 mn mx = Some (v, 1)} = A"
    unfolding A_def
    using assms(2) by (simp only: random_in_range_unbiased_def Let_def lim rejection_loop_const eq [symmetric])
      (auto split: if_splits)
  have "card A = card (unat ` A)"
    by (rule card_image [symmetric]) (auto simp: inj_on_def word_unat_eq_iff)
  also have "unat ` A = {y. y < q * ?n \<and> y mod ?n = ?r}"
  proof -
    have "q * ?n \<le> unat rmax" unfolding q_def by (rule div_times_less_eq_dividend)
    also have "\<dots> < 2 ^ LENGTH(16)" by (rule unsigned_less)
    finally have y: "unat (word_of_nat y :: u16) = y" if "y < q * ?n" for y
      using that by (simp add: unsigned_of_nat take_bit_nat_eq_self)
    show ?thesis
    proof (intro set_eqI iffI)
      fix z assume z: "z \<in> {y. y < q * ?n \<and> y mod ?n = ?r}"
      then have "unat (word_of_nat z :: u16) = z" using y by blast
      with z show "z \<in> unat ` A"
        unfolding A_def by (intro image_eqI [of _ _ "word_of_nat z"]) simp_all
    qed (auto simp: A_def)
  qed
  also have "card {y. y < q * ?n \<and> y mod ?n = ?r} = q"
    using assms(3,4) by (intro card_residue_below) (simp add: word_le_nat_alt)
  finally show ?thesis unfolding set_eq n(1) q_def .
qed

theorem random_in_range_unbiased_uniform_witness:
  "card {x :: u16. random_in_range_unbiased 65535 (\<lambda>_. x) 0 0 2 = Some (1, 1)} = 21845"
  using random_in_range_unbiased_uniform [of 0 2 1 65535] by simp

end
