(* ===== verification/Interaction_History.thy ===== *)
theory Interaction_History
  imports Prelude
begin

text \<open>
  \<open>src/wsn/common/trust/interaction-history.{h,c}\<close>: the ring buffer of the last
  \<open>INTERACTION_HISTORY_SIZE\<close> observations of an edge.  Pointers into the array are its indices.
  The locale \<open>bounded_history\<close> is what the hidden Markov trust model needs from it: a push keeps
  the latest observations, oldest first.
\<close>

definition INTERACTION_HISTORY_SIZE :: nat where "INTERACTION_HISTORY_SIZE = 8"

record interaction_history =
  interactions :: "u8 list"
  head :: u8
  tail :: u8
  count :: u8

definition interaction_history_init :: "interaction_history \<Rightarrow> interaction_history" where
  "interaction_history_init hist = hist\<lparr>tail := 0, head := 0, count := 0\<rparr>"

definition interaction_history_push :: "interaction_history \<Rightarrow> u8 \<Rightarrow> interaction_history" where
  "interaction_history_push hist interaction =
     (let n = word_of_nat INTERACTION_HISTORY_SIZE;
          hist = (if count hist = n
                  then hist\<lparr>head := (head hist + 1) mod n, count := count hist - 1\<rparr>
                  else hist);
          hist = hist\<lparr>interactions := (interactions hist)[unat (tail hist) := interaction]\<rparr>;
          hist = hist\<lparr>tail := (tail hist + 1) mod n\<rparr>
      in hist\<lparr>count := count hist + 1\<rparr>)"

definition interaction_history_iter :: "interaction_history \<Rightarrow> nat option" where
  "interaction_history_iter hist =
     (if count hist = 0 then None else Some (unat (head hist)))"

definition interaction_history_next :: "interaction_history \<Rightarrow> nat \<Rightarrow> nat option" where
  "interaction_history_next hist it =
     (let it = Suc it;
          it = (if it = INTERACTION_HISTORY_SIZE then 0 else it)
      in if it = unat (tail hist) then None else Some it)"

text \<open>The loop of \<open>interaction_history_print\<close>: the values printed, or \<open>None\<close> when the fuel runs out.\<close>

fun print_loop :: "nat \<Rightarrow> interaction_history \<Rightarrow> nat option \<Rightarrow> u8 list option" where
  "print_loop fuel hist None = Some []"
| "print_loop 0 hist (Some it) = None"
| "print_loop (Suc fuel) hist (Some it) =
     map_option (\<lambda>r. interactions hist ! it # r) (print_loop fuel hist (interaction_history_next hist it))"

definition interaction_history_print :: "nat \<Rightarrow> interaction_history \<Rightarrow> u8 list option" where
  "interaction_history_print fuel hist = print_loop fuel hist (interaction_history_iter hist)"

subsection \<open>The interface the trust model uses\<close>

locale bounded_history =
  fixes init :: "'h \<Rightarrow> 'h" and push :: "'h \<Rightarrow> 'a \<Rightarrow> 'h"
    and contents :: "'h \<Rightarrow> 'a list" and raw ok :: "'h \<Rightarrow> bool" and cap :: nat
  assumes init_ok: "raw h \<Longrightarrow> ok (init h)"
    and init_contents: "raw h \<Longrightarrow> contents (init h) = []"
    and push_ok: "ok h \<Longrightarrow> ok (push h x)"
    and push_contents: "ok h \<Longrightarrow> contents (push h x) = drop (Suc (length (contents h)) - cap) (contents h @ [x])"
begin

lemma pushes_ok: "ok h \<Longrightarrow> ok (foldl push h xs)"
  by (induction xs arbitrary: h) (auto simp: push_ok)

lemma pushes_contents:
  assumes "raw h"
  shows "contents (foldl push (init h) xs) = drop (length xs - cap) xs"
proof (induction xs rule: rev_induct)
  case Nil
  then show ?case by (simp add: init_contents assms)
next
  case (snoc x xs)
  have "ok (foldl push (init h) xs)" by (simp add: pushes_ok init_ok assms)
  then have "contents (foldl push (init h) (xs @ [x])) =
      drop (Suc (length xs - (length xs - cap)) - cap) (drop (length xs - cap) xs @ [x])"
    by (simp add: push_contents snoc.IH)
  then show ?case by (cases "length xs < cap") (simp_all add: Suc_diff_le add.commute)
qed

end

subsection \<open>The ring buffer implements it\<close>

definition hist_raw :: "interaction_history \<Rightarrow> bool" where
  "hist_raw h \<longleftrightarrow> length (interactions h) = INTERACTION_HISTORY_SIZE"

definition hist_ok :: "interaction_history \<Rightarrow> bool" where
  "hist_ok h \<longleftrightarrow> length (interactions h) = 8 \<and> unat (head h) < 8 \<and> unat (count h) \<le> 8 \<and>
     unat (tail h) = (unat (head h) + unat (count h)) mod 8"

definition hist_list :: "interaction_history \<Rightarrow> u8 list" where
  "hist_list h = map (\<lambda>i. interactions h ! ((unat (head h) + i) mod 8)) [0..<unat (count h)]"

lemma length_hist_list [simp]: "length (hist_list h) = unat (count h)"
  by (simp add: hist_list_def)

lemma unat_succ_mod8: "unat (w :: u8) < 8 \<Longrightarrow> unat ((w + 1) mod 8) = (unat w + 1) mod 8"
  by (simp add: unat_mod unat_word_ariths)

lemma slot_neq_tail:
  assumes "i < c" "c < (8::nat)"
  shows "(h + i) mod 8 \<noteq> (h + c) mod 8"
proof
  assume "(h + i) mod 8 = (h + c) mod 8"
  then have "8 dvd c - i" using assms(1) by (simp add: mod_eq_dvd_iff_nat [of "h + i" "h + c"] eq_commute)
  then have "8 \<le> c - i" using assms(1) by (intro dvd_imp_le) simp_all
  with assms show False by simp
qed

lemma hist_list_push_room:
  assumes "hist_ok h" "unat (count h) < 8"
  shows "hist_ok (interaction_history_push h x) \<and>
    hist_list (interaction_history_push h x) = hist_list h @ [x]"
proof -
  have c: "count h \<noteq> 8" using assms(2) by auto
  have uc: "unat (count h + 1) = Suc (unat (count h))"
    using assms(2) by (simp add: unat_word_ariths)
  have t: "unat (tail h) < 8" "unat (tail h) = (unat (head h) + unat (count h)) mod 8"
    using assms(1) by (auto simp: hist_ok_def)
  have "(interactions h)[unat (tail h) := x] ! ((unat (head h) + i) mod 8) =
      interactions h ! ((unat (head h) + i) mod 8)" if "i < unat (count h)" for i
    using slot_neq_tail [OF that assms(2), of "unat (head h)"] t(2) by simp
  moreover have "unat ((tail h + 1) mod 8) = (unat (head h) + Suc (unat (count h))) mod 8"
    using t by (simp add: unat_succ_mod8 mod_Suc_eq)
  ultimately show ?thesis
    using assms c uc t
    by (auto simp: interaction_history_push_def INTERACTION_HISTORY_SIZE_def hist_ok_def hist_list_def Let_def)
qed

lemma hist_list_push_full:
  assumes "hist_ok h" "unat (count h) = 8"
  shows "hist_ok (interaction_history_push h x) \<and>
    hist_list (interaction_history_push h x) = tl (hist_list h) @ [x]"
proof -
  let ?g = "h\<lparr>head := (head h + 1) mod 8, count := count h - 1\<rparr>"
  have c: "count h = 8" using assms(2) by (simp add: word_unat_eq_iff)
  have ok: "hist_ok ?g" and cg: "unat (count ?g) = 7"
    using assms by (auto simp: hist_ok_def c unat_succ_mod8 mod_Suc_eq) presburger+
  have "interaction_history_push h x = interaction_history_push ?g x"
    by (simp add: interaction_history_push_def INTERACTION_HISTORY_SIZE_def c Let_def)
  moreover have "hist_list ?g = tl (hist_list h)"
  proof -
    have "tl [0..<8] = map Suc [0..<7]" by (simp add: upt_rec)
    then show ?thesis using assms
      by (simp add: hist_list_def c map_tl [symmetric] unat_succ_mod8 hist_ok_def mod_simps)
  qed
  ultimately show ?thesis using hist_list_push_room [OF ok, of x] cg by simp
qed

lemma hist_push_spec:
  assumes "hist_ok h"
  shows "hist_ok (interaction_history_push h x)"
    and "hist_list (interaction_history_push h x) =
      drop (Suc (length (hist_list h)) - INTERACTION_HISTORY_SIZE) (hist_list h @ [x])"
proof -
  consider "unat (count h) < 8" | "unat (count h) = 8"
    using assms by (fastforce simp: hist_ok_def)
  then have "hist_ok (interaction_history_push h x) \<and> hist_list (interaction_history_push h x) =
      drop (Suc (length (hist_list h)) - INTERACTION_HISTORY_SIZE) (hist_list h @ [x])"
  proof cases
    case 1
    with hist_list_push_room [OF assms 1, of x] show ?thesis by (simp add: INTERACTION_HISTORY_SIZE_def)
  next
    case 2
    with hist_list_push_full [OF assms 2, of x] show ?thesis
      by (simp add: INTERACTION_HISTORY_SIZE_def drop_Suc)
  qed
  then show "hist_ok (interaction_history_push h x)"
    "hist_list (interaction_history_push h x) =
      drop (Suc (length (hist_list h)) - INTERACTION_HISTORY_SIZE) (hist_list h @ [x])"
    by simp_all
qed

lemma hist_init_spec:
  "hist_raw h \<Longrightarrow> hist_ok (interaction_history_init h)"
  "hist_list (interaction_history_init h) = []"
  by (simp_all add: hist_raw_def hist_ok_def hist_list_def interaction_history_init_def
      INTERACTION_HISTORY_SIZE_def)

interpretation ring: bounded_history interaction_history_init interaction_history_push hist_list
  hist_raw hist_ok INTERACTION_HISTORY_SIZE
  by unfold_locales (simp_all add: hist_init_spec hist_push_spec)

text \<open>
  C38: after any sequence of observations the buffer holds exactly the last eight of them,
  oldest first, and stays well formed.
\<close>

theorem interaction_history_keeps_latest:
  assumes "hist_raw h"
  shows "hist_list (foldl interaction_history_push (interaction_history_init h) xs) =
      drop (length xs - INTERACTION_HISTORY_SIZE) xs \<and>
    hist_ok (foldl interaction_history_push (interaction_history_init h) xs)"
  using ring.pushes_contents [OF assms] ring.pushes_ok ring.init_ok [OF assms] by blast

theorem interaction_history_keeps_latest_witness:
  "hist_list (foldl interaction_history_push
      (interaction_history_init \<lparr>interactions = replicate 8 0, head = 3, tail = 9, count = 7\<rparr>)
      [1, 2, 3, 0, 1, 2, 3, 0, 3, 3]) = [3, 0, 1, 2, 3, 0, 3, 3]"
  using interaction_history_keeps_latest
    [of "\<lparr>interactions = replicate 8 0, head = 3, tail = 9, count = 7\<rparr>" "[1, 2, 3, 0, 1, 2, 3, 0, 3, 3]"]
  by (simp add: hist_raw_def INTERACTION_HISTORY_SIZE_def)

subsection \<open>Iteration\<close>

lemma next_slot:
  assumes "hist_ok h" "i < unat (count h)"
  shows "interaction_history_next h ((unat (head h) + i) mod 8) =
    (if Suc i = unat (count h) then None else Some ((unat (head h) + Suc i) mod 8))"
proof -
  let ?j = "(unat (head h) + Suc i) mod 8"
  have step: "(if Suc ((unat (head h) + i) mod 8) = 8 then 0 else Suc ((unat (head h) + i) mod 8)) = ?j"
    by (simp add: mod_Suc)
  have tl: "unat (tail h) = (unat (head h) + unat (count h)) mod 8" "unat (count h) \<le> 8"
    using assms(1) by (simp_all add: hist_ok_def)
  have "?j = unat (tail h) \<longleftrightarrow> Suc i = unat (count h)"
  proof (cases "Suc i = unat (count h)")
    case False
    with assms(2) have lt: "Suc i < unat (count h)" by simp
    have "(unat (head h) + Suc i) mod 8 \<noteq> (unat (head h) + unat (count h)) mod 8"
    proof (cases "unat (count h) = 8")
      case True
      with slot_neq_tail [of "0" "Suc i" "unat (head h)"] lt show ?thesis by simp
    next
      case False
      with tl(2) slot_neq_tail [OF lt] show ?thesis by simp
    qed
    with False tl show ?thesis by simp
  qed (simp add: tl)
  then show ?thesis
    unfolding interaction_history_next_def INTERACTION_HISTORY_SIZE_def Let_def step by simp
qed

lemma print_loop_from:
  assumes "hist_ok h" "i < unat (count h)" "unat (count h) - i \<le> fuel"
  shows "print_loop fuel h (Some ((unat (head h) + i) mod 8)) = Some (drop i (hist_list h))"
  using assms(2,3)
proof (induction "unat (count h) - i" arbitrary: i fuel)
  case 0
  then show ?case by simp
next
  case (Suc d)
  then obtain f where f: "fuel = Suc f" by (cases fuel) auto
  have dr: "drop i (hist_list h) = interactions h ! ((unat (head h) + i) mod 8) # drop (Suc i) (hist_list h)"
    using Suc.prems(1) by (simp add: Cons_nth_drop_Suc [symmetric]) (simp add: hist_list_def)
  show ?case
  proof (cases "Suc i = unat (count h)")
    case True
    then show ?thesis by (simp add: f next_slot [OF assms(1) Suc.prems(1)] dr)
  next
    case False
    with Suc.prems have "print_loop f h (Some ((unat (head h) + Suc i) mod 8)) = Some (drop (Suc i) (hist_list h))"
      using f Suc.hyps(2) by (intro Suc.hyps(1)) auto
    with False show ?thesis by (simp add: f next_slot [OF assms(1) Suc.prems(1)] dr)
  qed
qed

text \<open>
  Iterating a well-formed history from \<open>interaction_history_iter\<close> with
  \<open>interaction_history_next\<close> ends within eight steps and visits exactly the stored observations in order.
\<close>

theorem interaction_history_iteration:
  assumes "hist_ok h"
  shows "interaction_history_print INTERACTION_HISTORY_SIZE h = Some (hist_list h)"
proof (cases "count h = 0")
  case True
  then show ?thesis by (simp add: interaction_history_print_def interaction_history_iter_def hist_list_def)
next
  case False
  then have "0 < unat (count h)" by (simp add: unat_gt_0)
  with print_loop_from [OF assms, of 0 INTERACTION_HISTORY_SIZE] assms False show ?thesis
    by (simp add: interaction_history_print_def interaction_history_iter_def hist_ok_def
        INTERACTION_HISTORY_SIZE_def)
qed

theorem interaction_history_iteration_witness:
  "interaction_history_print 8 \<lparr>interactions = [5, 6, 7, 0, 0, 0, 3, 4], head = 6, tail = 3, count = 5\<rparr> =
     Some [3, 4, 5, 6, 7]"
  using interaction_history_iteration
    [of "\<lparr>interactions = [5, 6, 7, 0, 0, 0, 3, 4], head = 6, tail = 3, count = 5\<rparr>"]
  by (simp add: hist_ok_def hist_list_def INTERACTION_HISTORY_SIZE_def upt_rec)

end
