(* ===== verification/Cfloat.thy ===== *)
theory Cfloat
  imports Prelude
begin

text \<open>
  C floating point.  A value is a finite real, an infinity or NaN; there is one zero.  The
  rounding of a format is an argument: a record with the rounding function of its unbounded-exponent
  format and its largest finite value, so that every operation is the IEEE-754 one, the exact
  result rounded once and replaced by an infinity when it is too large.  Single precision and
  double precision are two such records.  \<open>ffmt_ok\<close> states what IEEE-754 says about rounding to nearest;
  nothing else about it is used.
\<close>

datatype cfloat = Fin real | PInf | NInf | NaN

record ffmt =
  rnd :: "real \<Rightarrow> real"
  fmax :: real

definition ffmt_ok :: "ffmt \<Rightarrow> bool" where
  "ffmt_ok F \<longleftrightarrow> mono (rnd F) \<and> (\<forall>x. rnd F (rnd F x) = rnd F x) \<and> (\<forall>x. rnd F (- x) = - rnd F x) \<and>
     (\<forall>n::int. \<bar>n\<bar> \<le> 2 ^ 24 \<longrightarrow> rnd F (of_int n) = of_int n) \<and>
     (\<forall>k\<le>127. rnd F (2 ^ k) = 2 ^ k) \<and> 2 ^ 127 \<le> fmax F"

text \<open>Exact arithmetic, an instance of the laws.\<close>

definition exact_fmt :: ffmt where
  "exact_fmt = \<lparr>rnd = (\<lambda>x. x), fmax = 2 ^ 128\<rparr>"

definition fl :: "ffmt \<Rightarrow> real \<Rightarrow> cfloat" where
  "fl F x = (let y = rnd F x in
     if \<bar>y\<bar> \<le> fmax F then Fin y else if y < 0 then NInf else PInf)"

fun fneg :: "cfloat \<Rightarrow> cfloat" where
  "fneg (Fin a) = Fin (- a)"
| "fneg PInf = NInf"
| "fneg NInf = PInf"
| "fneg NaN = NaN"

fun fadd :: "ffmt \<Rightarrow> cfloat \<Rightarrow> cfloat \<Rightarrow> cfloat" where
  "fadd F (Fin a) (Fin b) = fl F (a + b)"
| "fadd F (Fin a) b = b"
| "fadd F a (Fin b) = a"
| "fadd F PInf PInf = PInf"
| "fadd F NInf NInf = NInf"
| "fadd F a b = NaN"

definition fsub :: "ffmt \<Rightarrow> cfloat \<Rightarrow> cfloat \<Rightarrow> cfloat" where
  "fsub F a b = fadd F a (fneg b)"

definition inf_of_sign :: "real \<Rightarrow> cfloat" where
  "inf_of_sign x = (if x > 0 then PInf else if x < 0 then NInf else NaN)"

fun fmul :: "ffmt \<Rightarrow> cfloat \<Rightarrow> cfloat \<Rightarrow> cfloat" where
  "fmul F (Fin a) (Fin b) = fl F (a * b)"
| "fmul F (Fin a) PInf = inf_of_sign a"
| "fmul F (Fin a) NInf = inf_of_sign (- a)"
| "fmul F PInf (Fin b) = inf_of_sign b"
| "fmul F NInf (Fin b) = inf_of_sign (- b)"
| "fmul F PInf PInf = PInf"
| "fmul F NInf NInf = PInf"
| "fmul F PInf NInf = NInf"
| "fmul F NInf PInf = NInf"
| "fmul F a b = NaN"

fun fdiv :: "ffmt \<Rightarrow> cfloat \<Rightarrow> cfloat \<Rightarrow> cfloat" where
  "fdiv F (Fin a) (Fin b) = (if b = 0 then inf_of_sign a else fl F (a / b))"
| "fdiv F (Fin a) PInf = Fin 0"
| "fdiv F (Fin a) NInf = Fin 0"
| "fdiv F PInf (Fin b) = (if b < 0 then NInf else PInf)"
| "fdiv F NInf (Fin b) = (if b < 0 then PInf else NInf)"
| "fdiv F a b = NaN"

text \<open>Comparisons: every comparison with NaN is false.\<close>

fun fless :: "cfloat \<Rightarrow> cfloat \<Rightarrow> bool" where
  "fless (Fin a) (Fin b) = (a < b)"
| "fless NInf (Fin b) = True"
| "fless NInf PInf = True"
| "fless (Fin a) PInf = True"
| "fless a b = False"

fun fleq :: "cfloat \<Rightarrow> cfloat \<Rightarrow> bool" where
  "fleq (Fin a) (Fin b) = (a \<le> b)"
| "fleq PInf PInf = True"
| "fleq NInf NInf = True"
| "fleq a b = fless a b"

fun ffabs :: "cfloat \<Rightarrow> cfloat" where
  "ffabs (Fin a) = Fin \<bar>a\<bar>"
| "ffabs NInf = PInf"
| "ffabs a = a"

text \<open>Conversions to a format: of an unsigned integer, of a value of another format.\<close>

definition of_u32 :: "ffmt \<Rightarrow> u32 \<Rightarrow> cfloat" where
  "of_u32 F w = fl F (real (unat w))"

fun fconv :: "ffmt \<Rightarrow> cfloat \<Rightarrow> cfloat" where
  "fconv F (Fin a) = fl F a"
| "fconv F a = a"

text \<open>\<open>src/wsn/common/float-helpers.c\<close>; \<open>fabs\<close> and the comparisons of its results work on doubles, which hold
  the single-precision values exactly.\<close>

definition isclose :: "ffmt \<Rightarrow> cfloat \<Rightarrow> cfloat \<Rightarrow> bool" where
  "isclose F a b =
     (let rel_tol = fl F (25 / 100000);
          comp = (if fless (ffabs a) (ffabs b) then ffabs b else ffabs a)
      in fleq (ffabs (fsub F a b)) (fmul F rel_tol comp))"

subsection \<open>Rounding\<close>

lemma exact_fmt_ok [simp]: "ffmt_ok exact_fmt"
  by (simp add: ffmt_ok_def exact_fmt_def mono_def)

lemma fl_exact [simp]: "\<bar>x\<bar> \<le> 2 ^ 128 \<Longrightarrow> fl exact_fmt x = Fin x"
  by (simp add: fl_def exact_fmt_def Let_def)

lemma rnd_mono: "\<lbrakk>ffmt_ok F; x \<le> y\<rbrakk> \<Longrightarrow> rnd F x \<le> rnd F y"
  by (simp add: ffmt_ok_def mono_def)

lemma rnd_idem: "ffmt_ok F \<Longrightarrow> rnd F (rnd F x) = rnd F x"
  by (simp add: ffmt_ok_def)

lemma rnd_minus: "ffmt_ok F \<Longrightarrow> rnd F (- x) = - rnd F x"
  by (simp add: ffmt_ok_def)

lemma rnd_int: "\<lbrakk>ffmt_ok F; \<bar>n\<bar> \<le> 2 ^ 24\<rbrakk> \<Longrightarrow> rnd F (of_int n) = of_int n"
  by (simp add: ffmt_ok_def)

lemma rnd_nat: "\<lbrakk>ffmt_ok F; n \<le> 2 ^ 24\<rbrakk> \<Longrightarrow> rnd F (real n) = real n"
  using rnd_int [of F "int n"] by simp

lemma rnd_0 [simp]: "ffmt_ok F \<Longrightarrow> rnd F 0 = 0"
  using rnd_nat [of F 0] by simp

lemma rnd_1 [simp]: "ffmt_ok F \<Longrightarrow> rnd F 1 = 1"
  using rnd_nat [of F 1] by simp

lemma rnd_nonneg: "\<lbrakk>ffmt_ok F; 0 \<le> x\<rbrakk> \<Longrightarrow> 0 \<le> rnd F x"
  using rnd_mono [of F 0 x] by simp

lemma rnd_le_1: "\<lbrakk>ffmt_ok F; x \<le> 1\<rbrakk> \<Longrightarrow> rnd F x \<le> 1"
  using rnd_mono [of F x 1] by simp

lemma rnd_pow2: "\<lbrakk>ffmt_ok F; k \<le> 127\<rbrakk> \<Longrightarrow> rnd F (2 ^ k) = 2 ^ k"
  unfolding ffmt_ok_def by blast

lemma fl_Fin:
  assumes "ffmt_ok F" "\<bar>x\<bar> \<le> 2 ^ 127"
  shows "fl F x = Fin (rnd F x)"
proof -
  have p: "rnd F (2 ^ 127) = 2 ^ 127" by (rule rnd_pow2 [OF assms(1)]) simp
  have q: "2 ^ 127 \<le> fmax F" using assms(1) unfolding ffmt_ok_def by blast
  have "rnd F x \<le> 2 ^ 127" "rnd F (- x) \<le> 2 ^ 127"
    using assms rnd_mono [OF assms(1), of x "2 ^ 127"] rnd_mono [OF assms(1), of "- x" "2 ^ 127"] p
    by (simp_all only: abs_le_iff)
  then have "\<bar>rnd F x\<bar> \<le> fmax F" using q assms(1) by (simp add: rnd_minus abs_le_iff)
  then show ?thesis by (simp add: fl_def)
qed

text \<open>The finite values of a format, and those of them in the unit interval.\<close>

definition is_float :: "ffmt \<Rightarrow> real \<Rightarrow> bool" where
  "is_float F x \<longleftrightarrow> rnd F x = x"

definition unit_float :: "ffmt \<Rightarrow> cfloat \<Rightarrow> bool" where
  "unit_float F c \<longleftrightarrow> (\<exists>x. c = Fin x \<and> 0 \<le> x \<and> x \<le> 1 \<and> is_float F x)"

lemma exact_unit: "unit_float exact_fmt (Fin x) \<longleftrightarrow> 0 \<le> x \<and> x \<le> 1"
  by (simp add: unit_float_def is_float_def exact_fmt_def)

lemma is_float_rnd [simp]: "ffmt_ok F \<Longrightarrow> is_float F (rnd F x)"
  by (simp add: is_float_def rnd_idem)

lemma is_float_0_1 [simp]: "ffmt_ok F \<Longrightarrow> is_float F 0" "ffmt_ok F \<Longrightarrow> is_float F 1"
  by (simp_all add: is_float_def)

lemma rnd_ge_float: "\<lbrakk>ffmt_ok F; is_float F a; a \<le> x\<rbrakk> \<Longrightarrow> a \<le> rnd F x"
  using rnd_mono [of F a x] by (simp add: is_float_def)

lemma rnd_le_float: "\<lbrakk>ffmt_ok F; is_float F a; x \<le> a\<rbrakk> \<Longrightarrow> rnd F x \<le> a"
  using rnd_mono [of F x a] by (simp add: is_float_def)

lemma unit_interval_bound: "\<lbrakk>0 \<le> x; x \<le> (1::real)\<rbrakk> \<Longrightarrow> \<bar>x\<bar> \<le> 2 ^ 127"
  by simp

lemma fl_unit: "\<lbrakk>ffmt_ok F; 0 \<le> x; x \<le> 1\<rbrakk> \<Longrightarrow> fl F x = Fin (rnd F x) \<and> unit_float F (fl F x)"
  by (auto simp: fl_Fin unit_float_def rnd_nonneg rnd_le_1)

lemma unit_float_mult:
  assumes "ffmt_ok F" "unit_float F a" "unit_float F b"
  shows "unit_float F (fmul F a b)"
proof -
  obtain x y where "a = Fin x" "0 \<le> x" "x \<le> 1" "b = Fin y" "0 \<le> y" "y \<le> 1"
    using assms(2,3) by (auto simp: unit_float_def)
  then show ?thesis using fl_unit [OF assms(1), of "x * y"] by (metis fmul.simps(1) mult_le_one mult_nonneg_nonneg)
qed

text \<open>Small counters are converted exactly.\<close>

lemma of_u32_Fin:
  assumes "ffmt_ok F"
  shows "of_u32 F w = Fin (rnd F (real (unat w)))"
proof -
  have "unat w \<le> 2 ^ 32" using unsigned_less [of w, where 'a = nat] by simp
  then have "real (unat w) \<le> 2 ^ 32" by (metis of_nat_le_iff of_nat_numeral of_nat_power)
  then show ?thesis unfolding of_u32_def by (intro fl_Fin assms) (simp del: of_nat_unat)
qed

lemma of_u32_small: "\<lbrakk>ffmt_ok F; unat w \<le> 2 ^ 24\<rbrakk> \<Longrightarrow> of_u32 F w = Fin (real (unat w))"
  by (simp add: of_u32_Fin rnd_nat del: of_nat_unat)

text \<open>\<open>isclose\<close> accepts equal numbers and is symmetric.\<close>

lemma isclose_refl_exact: "\<bar>x\<bar> \<le> 1 \<Longrightarrow> isclose exact_fmt (Fin x) (Fin x)"
  by (simp add: isclose_def fsub_def Let_def)

end
