(* ===== verification/Cbor.thy ===== *)
theory Cbor
  imports Cfloat
begin

text \<open>
  CBOR encoding.  The encoder and decoder of NanoCBOR are not part of the repository: their calls are
  the fields of the record \<open>nanocbor\<close> over unknown encoder states \<open>'en\<close> and decoder positions
  \<open>'de\<close>, and \<open>nanocbor_ok\<close> states what the library documents, through the tokens an encoder has
  written and those a decoder position has still to read.  \<open>encoder_init\<close> takes the size of the buffer and
  \<open>enc_buffer\<close> is the buffer's contents; nothing is assumed about the bytes.  \<open>src/wsn/common/nanocbor/config/nanocbor-helper.{h,c}\<close> is
  modelled here: the macro \<open>NANOCBOR_CHECK\<close> is \<open>checks\<close>, which runs calls in order and returns the first
  negative result.
\<close>

datatype token = TArray nat | TMap nat | TUint nat | TFloat cfloat | TBool bool | TNull | TBstr "u8 list" | TTstr string

record ('en, 'de) nanocbor =
  fmt_array :: "'en \<Rightarrow> nat \<Rightarrow> int \<times> 'en"
  fmt_uint :: "'en \<Rightarrow> nat \<Rightarrow> int \<times> 'en"
  fmt_float :: "'en \<Rightarrow> cfloat \<Rightarrow> int \<times> 'en"
  fmt_bool :: "'en \<Rightarrow> bool \<Rightarrow> int \<times> 'en"
  fmt_null :: "'en \<Rightarrow> int \<times> 'en"
  put_bstr :: "'en \<Rightarrow> u8 list \<Rightarrow> int \<times> 'en"
  fmt_map :: "'en \<Rightarrow> nat \<Rightarrow> int \<times> 'en"
  put_tstr :: "'en \<Rightarrow> string \<Rightarrow> int \<times> 'en"
  encoder_init :: "nat \<Rightarrow> 'en"
  encoded_len :: "'en \<Rightarrow> nat"
  enc_buffer :: "'en \<Rightarrow> u8 list"
  decoder_init :: "u8 list \<Rightarrow> 'de"
  enter_array :: "'de \<Rightarrow> int \<times> 'de"
  leave_container :: "'de \<Rightarrow> 'de \<Rightarrow> 'de"
  at_end :: "'de \<Rightarrow> bool"
  get_uint32 :: "'de \<Rightarrow> int \<times> u32 \<times> 'de"
  get_uint8 :: "'de \<Rightarrow> int \<times> u8 \<times> 'de"
  get_float :: "'de \<Rightarrow> int \<times> cfloat \<times> 'de"
  get_bool :: "'de \<Rightarrow> int \<times> bool \<times> 'de"
  get_null :: "'de \<Rightarrow> int \<times> 'de"
  get_bstr :: "'de \<Rightarrow> int \<times> u8 list \<times> 'de"
  enter_map :: "'de \<Rightarrow> int \<times> 'de"
  get_tstr :: "'de \<Rightarrow> int \<times> string \<times> 'de"
  skip :: "'de \<Rightarrow> int \<times> 'de"
  err_end :: int
  err_overflow :: int
  err_too_small :: int

text \<open>\<open>NANOCBOR_CHECK\<close> of a sequence of calls, then \<open>return NANOCBOR_OK\<close>.\<close>

fun checks :: "('s \<Rightarrow> int \<times> 's) list \<Rightarrow> 's \<Rightarrow> int \<times> 's" where
  "checks [] s = (0, s)"
| "checks (f # fs) s = (let (r, s') = f s in if r < 0 then (r, s') else checks fs s')"

text \<open>Reading an item into a field: nothing is stored when the call fails.\<close>

definition into :: "('de \<Rightarrow> int \<times> 'v \<times> 'de) \<Rightarrow> ('v \<Rightarrow> 'x \<Rightarrow> 'x) \<Rightarrow> 'de \<times> 'x \<Rightarrow> int \<times> 'de \<times> 'x" where
  "into get put = (\<lambda>(de, x). let (r, v, de') = get de in (r, de', if r < 0 then x else put v x))"

text \<open>
  The frame all the array readers share: enter the array, read its items with \<open>body\<close>, fail with
  \<open>NANOCBOR_ERR_END\<close> when items are left, leave the array.
\<close>

definition in_array ::
  "('en, 'de) nanocbor \<Rightarrow> ('de \<times> 'x \<Rightarrow> int \<times> 'de \<times> 'x) \<Rightarrow> 'de \<times> 'x \<Rightarrow> int \<times> 'de \<times> 'x" where
  "in_array NC body = (\<lambda>(dec, x).
     let (r, arr) = enter_array NC dec in
     if r < 0 then (r, dec, x)
     else let (r, arr, x) = body (arr, x) in
       if r < 0 then (r, dec, x)
       else if \<not> at_end NC arr then (err_end NC, dec, x)
       else (0, leave_container NC dec arr, x))"

definition nanocbor_fmt_ipaddr :: "('en, 'de) nanocbor \<Rightarrow> 'en \<Rightarrow> ipaddr \<Rightarrow> int \<times> 'en" where
  "nanocbor_fmt_ipaddr NC enc a = put_bstr NC enc a"

text \<open>\<open>NANOCBOR_GET_OBJECT\<close> for an object of \<open>n\<close> bytes.\<close>

definition NANOCBOR_GET_OBJECT :: "('en, 'de) nanocbor \<Rightarrow> nat \<Rightarrow> 'de \<Rightarrow> int \<times> u8 list \<times> 'de" where
  "NANOCBOR_GET_OBJECT NC n dec =
     (let (r, obj, dec) = get_bstr NC dec in
      if r < 0 then (r, obj, dec) else if length obj \<noteq> n then (- 1, obj, dec) else (r, obj, dec))"

definition nanocbor_get_ipaddr :: "('en, 'de) nanocbor \<Rightarrow> 'de \<Rightarrow> int \<times> ipaddr \<times> 'de" where
  "nanocbor_get_ipaddr NC dec =
     (let (r, a, dec) = NANOCBOR_GET_OBJECT NC 16 dec in if r < 0 then (r, a, dec) else (0, a, dec))"

definition nanocbor_get_bstr_of_len :: "('en, 'de) nanocbor \<Rightarrow> nat \<Rightarrow> 'de \<Rightarrow> int \<times> u8 list \<times> 'de" where
  "nanocbor_get_bstr_of_len NC len dec =
     (let (r, buf, dec) = get_bstr NC dec in
      if r < 0 then (r, buf, dec)
      else if len < length buf then (err_overflow NC, buf, dec)
      else if length buf < len then (err_too_small NC, buf, dec)
      else (0, buf, dec))"

subsection \<open>The documented behaviour\<close>

text \<open>
  A formatting call writes its token or reports an error.  A reading call at an item of its type,
  inside an array with items left or outside any array, returns the item and moves past it;
  otherwise it reports an error.  \<open>view\<close> gives the tokens ahead and the number of items left
  in the array the position is in.
\<close>

type_synonym 'de view = "'de \<Rightarrow> token list \<times> nat option"

definition fmt_law :: "('en \<Rightarrow> token list) \<Rightarrow> ('en \<Rightarrow> int \<times> 'en) \<Rightarrow> token \<Rightarrow> bool" where
  "fmt_law written f t \<longleftrightarrow> (\<forall>en. case f en of (r, en') \<Rightarrow> 0 \<le> r \<longrightarrow> written en' = written en @ [t])"

definition has_more :: "nat option \<Rightarrow> bool" where
  "has_more left \<longleftrightarrow> left \<noteq> Some 0"

definition pass :: "nat option \<Rightarrow> nat option" where
  "pass left = map_option (\<lambda>n. n - 1) left"

definition get_law :: "'de view \<Rightarrow> ('de \<Rightarrow> int \<times> 'v \<times> 'de) \<Rightarrow> (token \<Rightarrow> 'v option) \<Rightarrow> bool" where
  "get_law view get val \<longleftrightarrow> (\<forall>de.
     case get de of (r, v, de') \<Rightarrow>
       (case view de of
          (t # ts, left) \<Rightarrow>
            if has_more left \<and> val t \<noteq> None then 0 \<le> r \<and> val t = Some v \<and> view de' = (ts, pass left) else r < 0
        | ([], left) \<Rightarrow> r < 0))"

fun uint_val :: "token \<Rightarrow> ('a::len word) option" where
  "uint_val (TUint n) = (if n < 2 ^ LENGTH('a) then Some (word_of_nat n) else None)"
| "uint_val _ = None"

fun float_val :: "token \<Rightarrow> cfloat option" where
  "float_val (TFloat x) = Some x"
| "float_val _ = None"

fun bool_val :: "token \<Rightarrow> bool option" where
  "bool_val (TBool b) = Some b"
| "bool_val _ = None"

fun null_val :: "token \<Rightarrow> unit option" where
  "null_val TNull = Some ()"
| "null_val _ = None"

fun bstr_val :: "token \<Rightarrow> u8 list option" where
  "bstr_val (TBstr b) = Some b"
| "bstr_val _ = None"

fun tstr_val :: "token \<Rightarrow> string option" where
  "tstr_val (TTstr b) = Some b"
| "tstr_val _ = None"

definition array_law :: "'de view \<Rightarrow> ('en, 'de) nanocbor \<Rightarrow> bool" where
  "array_law view NC \<longleftrightarrow>
     (\<forall>de. case enter_array NC de of (r, arr) \<Rightarrow>
        (case view de of
           (TArray n # ts, left) \<Rightarrow> if has_more left then 0 \<le> r \<and> view arr = (ts, Some n) else r < 0
         | _ \<Rightarrow> r < 0)) \<and>
     (\<forall>de ts n. view de = (ts, Some n) \<longrightarrow> (n = 0 \<longrightarrow> at_end NC de) \<and> (at_end NC de \<longrightarrow> n = 0 \<or> ts = [])) \<and>
     (\<forall>de arr. view (leave_container NC de arr) = (fst (view arr), pass (snd (view de))))"

text \<open>
  Maps hold keys and values in turn.  \<open>skip\<close> passes one item with all it contains, or refuses it, for example when it is nested too deeply.
\<close>

fun children :: "token \<Rightarrow> nat" where
  "children (TArray n) = n"
| "children (TMap n) = 2 * n"
| "children _ = 0"

fun skip_items :: "nat \<Rightarrow> token list \<Rightarrow> token list option" where
  "skip_items 0 ts = Some ts"
| "skip_items (Suc k) [] = None"
| "skip_items (Suc k) (t # ts) = skip_items (children t + k) ts"

definition map_law :: "'de view \<Rightarrow> ('en, 'de) nanocbor \<Rightarrow> bool" where
  "map_law view NC \<longleftrightarrow>
     (\<forall>de. case enter_map NC de of (r, m) \<Rightarrow>
        (case view de of
           (TMap n # ts, left) \<Rightarrow> if has_more left then 0 \<le> r \<and> view m = (ts, Some (2 * n)) else r < 0
         | _ \<Rightarrow> r < 0)) \<and>
     (\<forall>de. case skip NC de of (r, de') \<Rightarrow> 0 \<le> r \<longrightarrow>
        has_more (snd (view de)) \<and> skip_items 1 (fst (view de)) = Some (fst (view de')) \<and> snd (view de') = pass (snd (view de)))"

definition nanocbor_ok :: "('en \<Rightarrow> token list) \<Rightarrow> 'de view \<Rightarrow> ('en, 'de) nanocbor \<Rightarrow> bool" where
  "nanocbor_ok written view NC \<longleftrightarrow>
     (\<forall>n. fmt_law written (\<lambda>en. fmt_array NC en n) (TArray n)) \<and>
     (\<forall>n. fmt_law written (\<lambda>en. fmt_uint NC en n) (TUint n)) \<and>
     (\<forall>x. fmt_law written (\<lambda>en. fmt_float NC en x) (TFloat x)) \<and>
     (\<forall>b. fmt_law written (\<lambda>en. fmt_bool NC en b) (TBool b)) \<and>
     fmt_law written (fmt_null NC) TNull \<and>
     (\<forall>b. fmt_law written (\<lambda>en. put_bstr NC en b) (TBstr b)) \<and>
     get_law view (get_uint32 NC) uint_val \<and> get_law view (get_uint8 NC) uint_val \<and>
     get_law view (get_float NC) float_val \<and> get_law view (get_bool NC) bool_val \<and>
     get_law view (\<lambda>de. case get_null NC de of (r, de') \<Rightarrow> (r, (), de')) null_val \<and>
     get_law view (get_bstr NC) bstr_val \<and> array_law view NC \<and>
     (\<forall>n. fmt_law written (\<lambda>en. fmt_map NC en n) (TMap n)) \<and> (\<forall>b. fmt_law written (\<lambda>en. put_tstr NC en b) (TTstr b)) \<and>
     get_law view (get_tstr NC) tstr_val \<and> map_law view NC \<and>
     err_end NC < 0 \<and> err_overflow NC < 0 \<and> err_too_small NC < 0"

subsection \<open>What encoders write and decoders read\<close>

definition emits :: "('en \<Rightarrow> token list) \<Rightarrow> ('en \<Rightarrow> int \<times> 'en) \<Rightarrow> token list \<Rightarrow> bool" where
  "emits written f ts \<longleftrightarrow> (\<forall>en. case f en of (r, en') \<Rightarrow> 0 \<le> r \<longrightarrow> written en' = written en @ ts)"

text \<open>\<open>f\<close> reads the tokens \<open>ts\<close>, which are \<open>k\<close> items, and turns the value \<open>x\<close> into \<open>x'\<close>.\<close>

definition reads :: "'de view \<Rightarrow> ('de \<times> 'x \<Rightarrow> int \<times> 'de \<times> 'x) \<Rightarrow> token list \<Rightarrow> nat \<Rightarrow> 'x \<Rightarrow> 'x \<Rightarrow> bool" where
  "reads view f ts k x x' \<longleftrightarrow>
     (\<forall>de rest left. view de = (ts @ rest, left) \<and> (\<forall>n. left = Some n \<longrightarrow> k \<le> n) \<longrightarrow>
        (\<exists>r de'. f (de, x) = (r, de', x') \<and> 0 \<le> r \<and> view de' = (rest, map_option (\<lambda>n. n - k) left)))"

lemma emits_Nil: "emits written (checks []) []"
  by (simp add: emits_def)

lemma emits_sub:
  "\<lbrakk>emits written f ts; emits written (checks fs) us\<rbrakk> \<Longrightarrow> emits written (checks (f # fs)) (ts @ us)"
  unfolding emits_def by (simp add: split: prod.splits) (metis append_assoc not_le)

lemma emits_fmt:
  assumes "nanocbor_ok written view NC"
  shows "emits written (\<lambda>en. fmt_array NC en n) [TArray n]" "emits written (\<lambda>en. fmt_uint NC en n) [TUint n]"
    "emits written (\<lambda>en. fmt_float NC en x) [TFloat x]" "emits written (\<lambda>en. fmt_bool NC en b) [TBool b]"
    "emits written (fmt_null NC) [TNull]" "emits written (\<lambda>en. put_bstr NC en bs) [TBstr bs]"
    "emits written (\<lambda>en. fmt_map NC en n) [TMap n]" "emits written (\<lambda>en. put_tstr NC en str) [TTstr str]"
  using assms by (simp_all add: nanocbor_ok_def fmt_law_def emits_def)

lemma emits_tok:
  assumes "nanocbor_ok written view NC" "emits written (checks fs) us"
  shows "emits written (checks ((\<lambda>en. fmt_array NC en n) # fs)) (TArray n # us)"
    "emits written (checks ((\<lambda>en. fmt_uint NC en n) # fs)) (TUint n # us)"
    "emits written (checks ((\<lambda>en. fmt_float NC en x) # fs)) (TFloat x # us)"
    "emits written (checks ((\<lambda>en. fmt_bool NC en b) # fs)) (TBool b # us)"
    "emits written (checks (fmt_null NC # fs)) (TNull # us)"
    "emits written (checks ((\<lambda>en. put_bstr NC en bs) # fs)) (TBstr bs # us)"
  using emits_sub [OF emits_fmt(1) assms(2)] emits_sub [OF emits_fmt(2) assms(2)] emits_sub [OF emits_fmt(3) assms(2)]
    emits_sub [OF emits_fmt(4) assms(2)] emits_sub [OF emits_fmt(5) assms(2)] emits_sub [OF emits_fmt(6) assms(2)] assms(1)
  by (metis append_Cons append_Nil)+

lemma reads_into:
  assumes "get_law view get val" "val t = Some v" "x' = put v x"
  shows "reads view (into get put) [t] 1 x x'"
  unfolding reads_def
proof (intro allI impI, elim conjE)
  fix de rest left
  assume v: "view de = ([t] @ rest, left)" and l: "\<forall>n. left = Some n \<longrightarrow> 1 \<le> n"
  obtain r w de' where g: "get de = (r, w, de')" by (cases "get de")
  have "has_more left" using l by (auto simp: has_more_def)
  then have "0 \<le> r \<and> Some v = Some w \<and> view de' = (rest, pass left)"
    using assms(1,2) v g unfolding get_law_def by (auto dest!: spec [of _ de] split: if_splits)
  then show "\<exists>r de'. into get put (de, x) = (r, de', x') \<and> 0 \<le> r \<and> view de' = (rest, map_option (\<lambda>n. n - 1) left)"
    using g assms(3) by (simp add: into_def pass_def)
qed

lemma reads_Nil: "reads view (checks []) [] 0 x x"
  by (simp add: reads_def option.map_ident)

lemma reads_Cons:
  assumes "reads view f ts k x y" "reads view (checks fs) us m y z"
  shows "reads view (checks (f # fs)) (ts @ us) (k + m) x z"
  unfolding reads_def
proof (intro allI impI, elim conjE)
  fix de rest left
  assume v: "view de = ((ts @ us) @ rest, left)" and l: "\<forall>n. left = Some n \<longrightarrow> k + m \<le> n"
  then have "\<exists>r de'. f (de, x) = (r, de', y) \<and> 0 \<le> r \<and> view de' = (us @ rest, map_option (\<lambda>n. n - k) left)"
    using assms(1) unfolding reads_def by fastforce
  then obtain r de' where f: "f (de, x) = (r, de', y)" "0 \<le> r" "view de' = (us @ rest, map_option (\<lambda>n. n - k) left)" by blast
  have "\<exists>r de''. checks fs (de', y) = (r, de'', z) \<and> 0 \<le> r \<and>
      view de'' = (rest, map_option (\<lambda>n. n - m) (map_option (\<lambda>n. n - k) left))"
    using assms(2) f(3) l unfolding reads_def by (auto elim!: allE [of _ de'])
  then show "\<exists>r de'. checks (f # fs) (de, x) = (r, de', z) \<and> 0 \<le> r \<and> view de' = (rest, map_option (\<lambda>n. n - (k + m)) left)"
    using f by (auto simp: option.map_comp o_def)
qed

lemma reads_sub:
  "\<lbrakk>reads view f ts 1 x y; reads view (checks fs) us m y z\<rbrakk> \<Longrightarrow> reads view (checks (f # fs)) (ts @ us) (Suc m) x z"
  using reads_Cons [of view f ts 1] by simp

lemma reads_tok:
  "\<lbrakk>get_law view get val; val t = Some v; reads view (checks fs) us m (put v x) z\<rbrakk> \<Longrightarrow>
    reads view (checks (into get put # fs)) (t # us) (Suc m) x z"
  using reads_sub [OF reads_into [OF _ _ refl]] by fastforce

lemma uint_val_unat [simp]: "uint_val (TUint (unat w)) = Some (w :: 'a::len word)"
  by simp

lemma reads_item:
  assumes "nanocbor_ok written view NC"
  shows "reads view (checks fs) us m (put w x) z \<Longrightarrow>
      reads view (checks (into (get_uint32 NC) put # fs)) (TUint (unat w) # us) (Suc m) x z"
    "reads view (checks fs) us m (put8 w8 x) z \<Longrightarrow>
      reads view (checks (into (get_uint8 NC) put8 # fs)) (TUint (unat w8) # us) (Suc m) x z"
    "reads view (checks fs) us m (putf f x) z \<Longrightarrow>
      reads view (checks (into (get_float NC) putf # fs)) (TFloat f # us) (Suc m) x z"
    "reads view (checks fs) us m (putb b x) z \<Longrightarrow>
      reads view (checks (into (get_bool NC) putb # fs)) (TBool b # us) (Suc m) x z"
proof -
  have g: "get_law view (get_uint32 NC) uint_val" "get_law view (get_uint8 NC) uint_val"
      "get_law view (get_float NC) float_val" "get_law view (get_bool NC) bool_val"
    using assms by (simp_all add: nanocbor_ok_def)
  show "reads view (checks fs) us m (put w x) z \<Longrightarrow>
      reads view (checks (into (get_uint32 NC) put # fs)) (TUint (unat w) # us) (Suc m) x z"
    by (rule reads_tok [OF g(1) uint_val_unat])
  show "reads view (checks fs) us m (put8 w8 x) z \<Longrightarrow>
      reads view (checks (into (get_uint8 NC) put8 # fs)) (TUint (unat w8) # us) (Suc m) x z"
    by (rule reads_tok [OF g(2) uint_val_unat])
  show "reads view (checks fs) us m (putf f x) z \<Longrightarrow>
      reads view (checks (into (get_float NC) putf # fs)) (TFloat f # us) (Suc m) x z"
    by (rule reads_tok [OF g(3) float_val.simps(1)])
  show "reads view (checks fs) us m (putb b x) z \<Longrightarrow>
      reads view (checks (into (get_bool NC) putb # fs)) (TBool b # us) (Suc m) x z"
    by (rule reads_tok [OF g(4) bool_val.simps(1)])
qed

lemma reads_in_array:
  assumes "nanocbor_ok written view NC" "reads view body ts m x x'" "n = m"
  shows "reads view (in_array NC body) (TArray n # ts) 1 x x'"
  unfolding reads_def
proof (intro allI impI, elim conjE)
  fix de rest left
  assume v: "view de = ((TArray n # ts) @ rest, left)" and l: "\<forall>n. left = Some n \<longrightarrow> 1 \<le> n"
  have arr: "array_law view NC" using assms(1) by (simp add: nanocbor_ok_def)
  obtain r a where e: "enter_array NC de = (r, a)" by (cases "enter_array NC de")
  have "has_more left" using l by (auto simp: has_more_def)
  then have a: "0 \<le> r" "view a = (ts @ rest, Some n)"
    using arr v e unfolding array_law_def by (auto dest!: spec [of _ de])
  then obtain r' a' where b: "body (a, x) = (r', a', x')" "0 \<le> r'" "view a' = (rest, Some 0)"
    using assms(2,3) unfolding reads_def by (auto elim!: allE [of _ a])
  have "at_end NC a'" using arr b(3) by (auto simp: array_law_def)
  moreover have "view (leave_container NC de a') = (rest, pass left)"
    using arr b(3) v by (simp add: array_law_def)
  ultimately show "\<exists>r de'. in_array NC body (de, x) = (r, de', x') \<and> 0 \<le> r \<and> view de' = (rest, map_option (\<lambda>n. n - 1) left)"
    using e a(1) b by (simp add: in_array_def pass_def)
qed

text \<open>Reading into a component of a structure.\<close>

definition on_field ::
  "('x \<Rightarrow> 'v) \<Rightarrow> ('v \<Rightarrow> 'x \<Rightarrow> 'x) \<Rightarrow> ('de \<times> 'v \<Rightarrow> int \<times> 'de \<times> 'v) \<Rightarrow> 'de \<times> 'x \<Rightarrow> int \<times> 'de \<times> 'x" where
  "on_field get put f = (\<lambda>(de, x). let (r, de, v) = f (de, get x) in (r, de, put v x))"

lemma reads_on_field: "reads view f ts k (get x) v \<Longrightarrow> reads view (on_field get put f) ts k x (put v x)"
  unfolding reads_def on_field_def by fastforce

lemma reads_field:
  "\<lbrakk>reads view f ts 1 (get x) v; reads view (checks fs) us m (put v x) z\<rbrakk> \<Longrightarrow>
    reads view (checks (on_field get put f # fs)) (ts @ us) (Suc m) x z"
  by (rule reads_sub [OF reads_on_field])

text \<open>A reader accepts what a writer wrote.\<close>

definition roundtrip ::
  "('en \<Rightarrow> token list) \<Rightarrow> 'de view \<Rightarrow> ('en \<Rightarrow> int \<times> 'en) \<Rightarrow> ('de \<times> 'x \<Rightarrow> int \<times> 'de \<times> 'x) \<Rightarrow> 'x \<Rightarrow> 'x \<Rightarrow> bool" where
  "roundtrip written view ser de_ser x0 x \<longleftrightarrow>
     (\<forall>en de rest. case ser en of (r, en') \<Rightarrow> 0 \<le> r \<longrightarrow>
        (\<exists>ts. written en' = written en @ ts \<and>
          (view de = (ts @ rest, None) \<longrightarrow>
            (\<exists>q de'. de_ser (de, x0) = (q, de', x) \<and> 0 \<le> q \<and> view de' = (rest, None)))))"

lemma roundtripI:
  assumes "emits written ser ts" "reads view de_ser ts k x0 x"
  shows "roundtrip written view ser de_ser x0 x"
  unfolding roundtrip_def
proof (intro allI)
  fix en de rest
  show "case ser en of (r, en') \<Rightarrow> 0 \<le> r \<longrightarrow> (\<exists>ts. written en' = written en @ ts \<and>
      (view de = (ts @ rest, None) \<longrightarrow> (\<exists>q de'. de_ser (de, x0) = (q, de', x) \<and> 0 \<le> q \<and> view de' = (rest, None))))"
    using assms(1) assms(2) [unfolded reads_def, rule_format, of de rest None]
    unfolding emits_def by (auto dest!: spec [of _ en] split: prod.splits)
qed

text \<open>One item, read at its place.\<close>

lemma get_tok:
  assumes "get_law view get val" "view de = (t # ts, left)" "has_more left" "val t = Some v"
  shows "\<exists>r de'. get de = (r, v, de') \<and> 0 \<le> r \<and> view de' = (ts, pass left)"
proof -
  obtain r w de' where g: "get de = (r, w, de')" by (metis prod_cases3)
  then show ?thesis using assms unfolding get_law_def by (auto dest!: spec [of _ de])
qed

text \<open>The documented behaviour has an implementation, on token lists.\<close>

definition ref_get :: "(token \<Rightarrow> 'v option) \<Rightarrow> 'v \<Rightarrow> token list \<times> nat option \<Rightarrow> int \<times> 'v \<times> token list \<times> nat option" where
  "ref_get val v0 = (\<lambda>(ts, left). case ts of
      [] \<Rightarrow> (- 1, v0, ts, left)
    | t # ts' \<Rightarrow> (case val t of
        Some v \<Rightarrow> if has_more left then (1, v, ts', pass left) else (- 1, v0, ts, left)
      | None \<Rightarrow> (- 1, v0, ts, left)))"

definition ref_nanocbor :: "(token list, token list \<times> nat option) nanocbor" where
  "ref_nanocbor = \<lparr>
     fmt_array = (\<lambda>en n. (1, en @ [TArray n])), fmt_uint = (\<lambda>en n. (1, en @ [TUint n])),
     fmt_float = (\<lambda>en x. (1, en @ [TFloat x])), fmt_bool = (\<lambda>en b. (1, en @ [TBool b])),
     fmt_null = (\<lambda>en. (1, en @ [TNull])), put_bstr = (\<lambda>en b. (1, en @ [TBstr b])),
     fmt_map = (\<lambda>en n. (1, en @ [TMap n])), put_tstr = (\<lambda>en b. (1, en @ [TTstr b])),
     encoder_init = (\<lambda>_. []), encoded_len = length, enc_buffer = (\<lambda>en. replicate (length en) 0), decoder_init = (\<lambda>_. ([], None)),
     enter_array = (\<lambda>(ts, left). case ts of TArray n # ts' \<Rightarrow> if has_more left then (1, ts', Some n) else (- 1, ts, left)
       | _ \<Rightarrow> (- 1, ts, left)),
     leave_container = (\<lambda>(_, left) (ts, _). (ts, pass left)),
     at_end = (\<lambda>(ts, left). case left of None \<Rightarrow> ts = [] | Some n \<Rightarrow> n = 0),
     get_uint32 = ref_get uint_val 0, get_uint8 = ref_get uint_val 0, get_float = ref_get float_val (Fin 0),
     get_bool = ref_get bool_val False,
     get_null = (\<lambda>de. case ref_get null_val () de of (r, _, de') \<Rightarrow> (r, de')),
     get_bstr = ref_get bstr_val [],
     enter_map = (\<lambda>(ts, left). case ts of TMap n # ts' \<Rightarrow> if has_more left then (1, ts', Some (2 * n)) else (- 1, ts, left)
       | _ \<Rightarrow> (- 1, ts, left)),
     get_tstr = ref_get tstr_val [],
     skip = (\<lambda>(ts, left). case skip_items 1 ts of Some ts' \<Rightarrow> if has_more left then (1, ts', pass left) else (- 1, ts, left)
       | None \<Rightarrow> (- 1, ts, left)), err_end = - 2, err_overflow = - 3, err_too_small = - 4\<rparr>"

lemma ref_get_law: "get_law (\<lambda>de. de) (ref_get val v0) val"
  by (auto simp: get_law_def ref_get_def split: list.split option.split)

lemma ref_nanocbor_ok [simp]: "nanocbor_ok (\<lambda>en. en) (\<lambda>de. de) ref_nanocbor"
proof -
  have "get_law (\<lambda>de. de) (\<lambda>de. case get_null ref_nanocbor de of (r, de') \<Rightarrow> (r, (), de')) null_val"
  proof -
    have "(\<lambda>de. case get_null ref_nanocbor de of (r, de') \<Rightarrow> (r, (), de')) = ref_get null_val ()"
      by (rule ext) (simp add: ref_nanocbor_def split: prod.splits)
    then show ?thesis by (simp only: ref_get_law)
  qed
  moreover have "array_law (\<lambda>de. de) ref_nanocbor"
    by (auto simp: array_law_def ref_nanocbor_def split: list.split token.split)
  moreover have "map_law (\<lambda>de. de) ref_nanocbor"
    by (auto simp: map_law_def ref_nanocbor_def split: list.split token.split option.split)
  moreover have "get_law (\<lambda>de. de) (get_tstr ref_nanocbor) tstr_val" by (simp add: ref_nanocbor_def ref_get_law)
  moreover have "get_law (\<lambda>de. de) (get_uint32 ref_nanocbor) uint_val" "get_law (\<lambda>de. de) (get_uint8 ref_nanocbor) uint_val"
      "get_law (\<lambda>de. de) (get_float ref_nanocbor) float_val" "get_law (\<lambda>de. de) (get_bool ref_nanocbor) bool_val"
      "get_law (\<lambda>de. de) (get_bstr ref_nanocbor) bstr_val"
    by (simp_all add: ref_nanocbor_def ref_get_law)
  ultimately show ?thesis
    unfolding nanocbor_ok_def by (simp add: fmt_law_def) (simp add: ref_nanocbor_def)
qed

end
