(* ===== verification/Distributions.thy ===== *)
theory Distributions
  imports Cbor
begin

text \<open>
  \<open>src/wsn/common/trust/distributions.{h,c}\<close>: the distributions a trust model keeps about an edge.
  Counters are 32-bit words and wrap; \<open>F\<close> is the single-precision format.  An assertion that fails
  makes the result \<open>None\<close>.  The serialisers use the calls of NanoCBOR \<open>NC\<close>.
\<close>

record beta_dist =
  alpha :: u32
  beta :: u32

definition beta_dist_init :: "u32 \<Rightarrow> u32 \<Rightarrow> beta_dist option" where
  "beta_dist_init a b = (if a > 0 \<and> b > 0 then Some \<lparr>alpha = a, beta = b\<rparr> else None)"

definition beta_dist_expected :: "ffmt \<Rightarrow> beta_dist \<Rightarrow> cfloat" where
  "beta_dist_expected F d =
     (let a = of_u32 F (alpha d); b = of_u32 F (beta d) in fdiv F a (fadd F a b))"

definition beta_dist_variance :: "ffmt \<Rightarrow> beta_dist \<Rightarrow> cfloat" where
  "beta_dist_variance F d =
     (let a = of_u32 F (alpha d); b = of_u32 F (beta d) in
      fdiv F (fmul F a b)
        (fadd F (fmul F (fadd F a b) (fadd F a b)) (fadd F (fadd F a b) (Fin 1))))"

definition beta_dist_add_good :: "beta_dist \<Rightarrow> beta_dist" where
  "beta_dist_add_good d = d\<lparr>alpha := alpha d + 1\<rparr>"

definition beta_dist_add_bad :: "beta_dist \<Rightarrow> beta_dist" where
  "beta_dist_add_bad d = d\<lparr>beta := beta d + 1\<rparr>"

definition beta_dist_combine :: "beta_dist \<Rightarrow> beta_dist option \<Rightarrow> beta_dist" where
  "beta_dist_combine a bo =
     (case bo of None \<Rightarrow> a
      | Some b \<Rightarrow> \<lparr>alpha = alpha a - 1 + alpha b, beta = beta a - 1 + beta b\<rparr>)"

record gaussian_dist =
  mean :: cfloat
  variance :: cfloat
  gcount :: u32

definition gaussian_dist_init :: "cfloat \<Rightarrow> cfloat \<Rightarrow> gaussian_dist" where
  "gaussian_dist_init m v = \<lparr>mean = m, variance = v, gcount = 1\<rparr>"

definition gaussian_dist_init_empty :: gaussian_dist where
  "gaussian_dist_init_empty = \<lparr>mean = Fin 0, variance = Fin 0, gcount = 0\<rparr>"

definition gaussian_dist_update :: "ffmt \<Rightarrow> gaussian_dist \<Rightarrow> cfloat \<Rightarrow> gaussian_dist" where
  "gaussian_dist_update F d value =
     (if gcount d = 0 then d\<lparr>mean := value, variance := Fin 0, gcount := 1\<rparr>
      else
        let new_count = gcount d + 1;
            n = of_u32 F new_count;
            delta = fsub F value (mean d);
            new_mean = fadd F (mean d) (fdiv F delta n);
            new_variance = fadd F
              (fmul F (variance d) (fdiv F (fsub F n (Fin 2)) (fsub F n (Fin 1))))
              (fdiv F (fmul F delta delta) n)
        in d\<lparr>mean := new_mean, variance := new_variance, gcount := new_count\<rparr>)"

record poisson_dist =
  lambda :: u32

definition poisson_dist_init :: "u32 \<Rightarrow> poisson_dist" where
  "poisson_dist_init l = \<lparr>lambda = l\<rparr>"

definition poisson_dist_expected :: "poisson_dist \<Rightarrow> u32" where
  "poisson_dist_expected d = lambda d"

definition poisson_dist_variance :: "poisson_dist \<Rightarrow> u32" where
  "poisson_dist_variance d = lambda d"

record poisson_observation =
  observations :: u32

definition poisson_observation_init :: poisson_observation where
  "poisson_observation_init = \<lparr>observations = 0\<rparr>"

definition poisson_observation_add :: "poisson_observation \<Rightarrow> poisson_observation" where
  "poisson_observation_add obs = obs\<lparr>observations := observations obs + 1\<rparr>"

definition poisson_observation_reset :: "poisson_observation \<Rightarrow> poisson_observation" where
  "poisson_observation_reset obs = obs\<lparr>observations := 0\<rparr>"

definition beta_dist_serialise :: "('en, 'de) nanocbor \<Rightarrow> beta_dist \<Rightarrow> 'en \<Rightarrow> int \<times> 'en" where
  "beta_dist_serialise NC d =
     checks [\<lambda>en. fmt_array NC en 2, \<lambda>en. fmt_uint NC en (unat (alpha d)), \<lambda>en. fmt_uint NC en (unat (beta d))]"

definition beta_dist_deserialise :: "('en, 'de) nanocbor \<Rightarrow> 'de \<times> beta_dist \<Rightarrow> int \<times> 'de \<times> beta_dist" where
  "beta_dist_deserialise NC =
     in_array NC (checks
       [into (get_uint32 NC) (\<lambda>v d. d\<lparr>alpha := v\<rparr>), into (get_uint32 NC) (\<lambda>v d. d\<lparr>beta := v\<rparr>)])"

definition gaussian_dist_serialise :: "('en, 'de) nanocbor \<Rightarrow> gaussian_dist \<Rightarrow> 'en \<Rightarrow> int \<times> 'en" where
  "gaussian_dist_serialise NC d =
     checks [\<lambda>en. fmt_array NC en 3, \<lambda>en. fmt_float NC en (mean d), \<lambda>en. fmt_float NC en (variance d),
       \<lambda>en. fmt_uint NC en (unat (gcount d))]"

definition gaussian_dist_deserialise :: "('en, 'de) nanocbor \<Rightarrow> 'de \<times> gaussian_dist \<Rightarrow> int \<times> 'de \<times> gaussian_dist" where
  "gaussian_dist_deserialise NC =
     in_array NC (checks
       [into (get_float NC) (\<lambda>v d. d\<lparr>mean := v\<rparr>), into (get_float NC) (\<lambda>v d. d\<lparr>variance := v\<rparr>),
        into (get_uint32 NC) (\<lambda>v d. d\<lparr>gcount := v\<rparr>)])"

definition poisson_dist_serialise :: "('en, 'de) nanocbor \<Rightarrow> poisson_dist \<Rightarrow> 'en \<Rightarrow> int \<times> 'en" where
  "poisson_dist_serialise NC d = checks [\<lambda>en. fmt_uint NC en (unat (lambda d))]"

definition poisson_dist_deserialise :: "('en, 'de) nanocbor \<Rightarrow> 'de \<times> poisson_dist \<Rightarrow> int \<times> 'de \<times> poisson_dist" where
  "poisson_dist_deserialise NC = checks [into (get_uint32 NC) (\<lambda>v d. d\<lparr>lambda := v\<rparr>)]"

definition poisson_observation_serialise :: "('en, 'de) nanocbor \<Rightarrow> poisson_observation \<Rightarrow> 'en \<Rightarrow> int \<times> 'en" where
  "poisson_observation_serialise NC d = checks [\<lambda>en. fmt_uint NC en (unat (observations d))]"

definition poisson_observation_deserialise ::
  "('en, 'de) nanocbor \<Rightarrow> 'de \<times> poisson_observation \<Rightarrow> int \<times> 'de \<times> poisson_observation" where
  "poisson_observation_deserialise NC = checks [into (get_uint32 NC) (\<lambda>v d. d\<lparr>observations := v\<rparr>)]"

subsection \<open>Beta distributions\<close>

text \<open>A distribution in use has seen at least one event; both counters zero only after a wrap-around.\<close>

definition beta_ok :: "beta_dist \<Rightarrow> bool" where
  "beta_ok d \<longleftrightarrow> alpha d \<noteq> 0 \<or> beta d \<noteq> 0"

lemma u32_real_le: "real (unat (w :: u32)) \<le> 2 ^ 32"
proof -
  have "unat w \<le> 2 ^ 32" using unsigned_less [of w, where 'a = nat] by simp
  then show ?thesis by (metis of_nat_le_iff of_nat_numeral of_nat_power)
qed

lemma rnd_u32_bounds:
  assumes "ffmt_ok F"
  shows "0 \<le> rnd F (real (unat (w :: u32)))" "rnd F (real (unat w)) \<le> 2 ^ 32"
    "w \<noteq> 0 \<Longrightarrow> 1 \<le> rnd F (real (unat w))"
proof -
  show "0 \<le> rnd F (real (unat w))" by (simp add: rnd_nonneg assms del: of_nat_unat)
  have "rnd F (real (unat w)) \<le> rnd F (2 ^ 32)"
    by (intro rnd_mono assms u32_real_le)
  then show "rnd F (real (unat w)) \<le> 2 ^ 32" using rnd_pow2 [OF assms, of 32] by simp
  assume "w \<noteq> 0"
  then have "1 \<le> unat w" by (simp add: unat_gt_0 Suc_le_eq)
  then have "rnd F 1 \<le> rnd F (real (unat w))" by (intro rnd_mono assms) linarith
  then show "1 \<le> rnd F (real (unat w))" by (simp add: assms del: of_nat_unat)
qed

lemma fadd_u32:
  assumes "ffmt_ok F"
  shows "fadd F (of_u32 F v) (of_u32 F w) = Fin (rnd F (rnd F (real (unat v)) + rnd F (real (unat w))))"
proof -
  have "\<bar>rnd F (real (unat v)) + rnd F (real (unat w))\<bar> \<le> 2 ^ 127"
    using rnd_u32_bounds [OF assms, of v] rnd_u32_bounds [OF assms, of w]
    by (simp del: of_nat_unat)
  then show ?thesis by (simp add: of_u32_Fin fl_Fin assms del: of_nat_unat)
qed

text \<open>A quotient \<open>a / (a + b)\<close> of rounded non-negative numbers stays in the unit interval.\<close>

lemma share_unit:
  assumes "ffmt_ok F" "is_float F a" "0 \<le> a" "0 \<le> b" "0 < rnd F (a + b)"
  shows "0 \<le> a / rnd F (a + b)" "a / rnd F (a + b) \<le> 1"
proof -
  have "a \<le> rnd F (a + b)" using assms by (intro rnd_ge_float) auto
  with assms show "0 \<le> a / rnd F (a + b)" "a / rnd F (a + b) \<le> 1" by simp_all
qed

lemma beta_expected_unit:
  assumes "ffmt_ok F" "beta_ok d"
  shows "unit_float F (beta_dist_expected F d)"
proof -
  let ?a = "rnd F (real (unat (alpha d)))" and ?b = "rnd F (real (unat (beta d)))"
  note a = rnd_u32_bounds [OF assms(1), of "alpha d"] and b = rnd_u32_bounds [OF assms(1), of "beta d"]
  have "1 \<le> ?a + ?b" using a b assms(2) by (auto simp: beta_ok_def simp del: of_nat_unat)
  then have "rnd F 1 \<le> rnd F (?a + ?b)" by (intro rnd_mono assms)
  then have pos: "0 < rnd F (?a + ?b)" using assms(1) by (simp del: of_nat_unat)
  have eq: "beta_dist_expected F d = fl F (?a / rnd F (?a + ?b))"
    using pos unfolding beta_dist_expected_def Let_def fadd_u32 [OF assms(1)]
    by (simp add: of_u32_Fin assms(1) del: of_nat_unat)
  have "is_float F ?a" using assms(1) by (rule is_float_rnd)
  note share = share_unit [OF assms(1) this a(1) b(1) pos]
  show ?thesis unfolding eq by (rule conjunct2 [OF fl_unit [OF assms(1) share]])
qed

text \<open>
  The expected value of a beta distribution is a finite float between 0 and 1, for every
  value the 32-bit counters can take except both zero, and under every IEEE rounding.
\<close>

theorem beta_dist_expected_in_unit:
  assumes "ffmt_ok F" "alpha d \<noteq> 0 \<or> beta d \<noteq> 0"
  shows "\<exists>x. beta_dist_expected F d = Fin x \<and> 0 \<le> x \<and> x \<le> 1"
  using beta_expected_unit [OF assms(1), of d] assms(2) by (auto simp: beta_ok_def unit_float_def)

theorem beta_dist_expected_in_unit_witness:
  "\<exists>x. beta_dist_expected exact_fmt \<lparr>alpha = 0, beta = 4294967295\<rparr> = Fin x \<and> 0 \<le> x \<and> x \<le> 1"
  by (rule beta_dist_expected_in_unit) simp_all

lemma unat_succ_small: "unat (w :: u32) < 2 ^ 24 \<Longrightarrow> unat (w + 1) = unat w + 1"
  by (simp add: unat_word_ariths)

lemma beta_expected_small:
  assumes "ffmt_ok F" "beta_ok d" "unat (alpha d) + unat (beta d) \<le> 2 ^ 24"
  shows "beta_dist_expected F d =
    Fin (rnd F (real (unat (alpha d)) / (real (unat (alpha d)) + real (unat (beta d)))))"
proof -
  let ?n = "unat (alpha d) + unat (beta d)"
  have ab: "of_u32 F (alpha d) = Fin (real (unat (alpha d)))" "of_u32 F (beta d) = Fin (real (unat (beta d)))"
    by (rule of_u32_small [OF assms(1)], use assms(3) in linarith)+
  have n: "rnd F (real (unat (alpha d)) + real (unat (beta d))) = real (unat (alpha d)) + real (unat (beta d))"
    using rnd_nat [OF assms(1,3)] by simp
  have pos: "0 < real (unat (alpha d)) + real (unat (beta d))"
    using assms(2) by (auto simp: beta_ok_def unat_gt_0 add_pos_nonneg add_nonneg_pos simp del: of_nat_unat)
  have "real ?n \<le> 2 ^ 24" using assms(3) by (metis of_nat_le_iff of_nat_numeral of_nat_power)
  then have "fl F (real (unat (alpha d)) + real (unat (beta d))) = Fin (real (unat (alpha d)) + real (unat (beta d)))"
    using n by (subst fl_Fin [OF assms(1)]) (simp_all del: of_nat_unat)
  then show ?thesis
    using pos fl_unit [OF assms(1), of "real (unat (alpha d)) / (real (unat (alpha d)) + real (unat (beta d)))"]
    by (simp add: beta_dist_expected_def Let_def ab del: of_nat_unat)
qed

lemma beta_events_mono:
  assumes "ffmt_ok F" "beta_ok d" "unat (alpha d) + unat (beta d) < 2 ^ 24"
  shows "fleq (beta_dist_expected F d) (beta_dist_expected F (beta_dist_add_good d)) \<and>
    fleq (beta_dist_expected F (beta_dist_add_bad d)) (beta_dist_expected F d)"
proof -
  let ?a = "real (unat (alpha d))" and ?b = "real (unat (beta d))"
  have s: "unat (alpha d + 1) = unat (alpha d) + 1" "unat (beta d + 1) = unat (beta d) + 1"
    by (rule unat_succ_small, use assms(3) in linarith)+
  have ok: "beta_ok (beta_dist_add_good d)" "beta_ok (beta_dist_add_bad d)"
    using s by (auto simp: beta_ok_def beta_dist_add_good_def beta_dist_add_bad_def)
  have pos: "0 < ?a + ?b"
    using assms(2) by (auto simp: beta_ok_def unat_gt_0 add_pos_nonneg add_nonneg_pos simp del: of_nat_unat)
  have e: "beta_dist_expected F d = Fin (rnd F (?a / (?a + ?b)))"
    using assms by (intro beta_expected_small) auto
  have g: "beta_dist_expected F (beta_dist_add_good d) = Fin (rnd F ((1 + ?a) / (1 + ?a + ?b)))"
    using beta_expected_small [OF assms(1) ok(1)] assms(3) s by (simp add: beta_dist_add_good_def del: of_nat_unat)
  have b: "beta_dist_expected F (beta_dist_add_bad d) = Fin (rnd F (?a / (?a + (1 + ?b))))"
    using beta_expected_small [OF assms(1) ok(2)] assms(3) s by (simp add: beta_dist_add_bad_def del: of_nat_unat)
  have "?a / (?a + ?b) \<le> (1 + ?a) / (1 + ?a + ?b)" "?a / (?a + (1 + ?b)) \<le> ?a / (?a + ?b)"
    using pos by (auto simp: field_simps simp del: of_nat_unat)
  then show ?thesis by (simp add: e g b rnd_mono assms(1) del: of_nat_unat)
qed

text \<open>
  While the event counts are below \<open>2^24\<close>, a good event never lowers the expected value and a
  bad event never raises it, under every IEEE rounding.
\<close>

theorem beta_dist_events_monotone:
  assumes "ffmt_ok F" "beta_ok d" "unat (alpha d) + unat (beta d) < 2 ^ 24"
  shows "fleq (beta_dist_expected F d) (beta_dist_expected F (beta_dist_add_good d)) \<and>
    fleq (beta_dist_expected F (beta_dist_add_bad d)) (beta_dist_expected F d)"
  using assms by (rule beta_events_mono)

theorem beta_dist_events_monotone_witness:
  "fleq (beta_dist_expected exact_fmt \<lparr>alpha = 1, beta = 1\<rparr>)
        (beta_dist_expected exact_fmt (beta_dist_add_good \<lparr>alpha = 1, beta = 1\<rparr>))"
  using beta_dist_events_monotone [of exact_fmt "\<lparr>alpha = 1, beta = 1\<rparr>"] by (simp add: beta_ok_def)

subsection \<open>Gaussian distributions\<close>

text \<open>What the incremental update computes: the average and the sample variance of the values.\<close>

definition average :: "real list \<Rightarrow> real" where
  "average xs = sum_list xs / real (length xs)"

definition sample_variance :: "real list \<Rightarrow> real" where
  "sample_variance xs = (\<Sum>x\<leftarrow>xs. (x - average xs) ^ 2) / (real (length xs) - 1)"

lemma sum_list_dev:
  "(\<Sum>x\<leftarrow>xs. (x - m) ^ 2) = (\<Sum>x\<leftarrow>xs. x ^ 2) - 2 * m * sum_list xs + real (length xs) * m ^ 2" for m :: real
  by (induction xs) (auto simp: power2_eq_square algebra_simps)

lemma sum_dev_average:
  "xs \<noteq> [] \<Longrightarrow> (\<Sum>x\<leftarrow>xs. (x - average xs) ^ 2) = (\<Sum>x\<leftarrow>xs. x ^ 2) - sum_list xs ^ 2 / real (length xs)"
  unfolding sum_list_dev by (simp add: average_def power2_eq_square field_simps)

lemma average_step: "0 < n \<Longrightarrow> (s + x) / (n + 1) = s / n + (x - s / n) / (n + 1)" for n :: real
proof -
  assume "0 < n"
  then have "n \<noteq> 0" "n + 1 \<noteq> 0" by auto
  then show ?thesis by (simp add: divide_simps) (simp add: algebra_simps)
qed

lemma variance_step:
  "0 < n \<Longrightarrow> (q + x ^ 2 - (s + x) ^ 2 / (n + 1)) / n = (q - s ^ 2 / n) / n + (x - s / n) ^ 2 / (n + 1)" for n :: real
proof -
  assume "0 < n"
  then have "n \<noteq> 0" "n + 1 \<noteq> 0" by auto
  then show ?thesis by (simp add: divide_simps power2_eq_square) (simp add: algebra_simps)
qed

lemma average_snoc:
  "xs \<noteq> [] \<Longrightarrow> average (xs @ [x]) = average xs + (x - average xs) / (real (length xs) + 1)"
  using average_step [of "real (length xs)" "sum_list xs" x] by (simp add: average_def add.commute)

lemma sample_variance_snoc:
  assumes "xs \<noteq> []"
  shows "sample_variance (xs @ [x]) =
    sample_variance xs * ((real (length xs) - 1) / real (length xs)) + (x - average xs) ^ 2 / (real (length xs) + 1)"
proof -
  let ?n = "real (length xs)" and ?S = "sum_list xs" and ?Q = "\<Sum>x\<leftarrow>xs. x ^ 2"
  have n: "0 < ?n" using assms by simp
  have "sample_variance (xs @ [x]) = (?Q + x ^ 2 - (?S + x) ^ 2 / (?n + 1)) / ?n"
    unfolding sample_variance_def by (subst sum_dev_average) (simp_all add: algebra_simps)
  also have "\<dots> = (?Q - ?S ^ 2 / ?n) / ?n + (x - ?S / ?n) ^ 2 / (?n + 1)"
    by (rule variance_step [OF n])
  also have "(?Q - ?S ^ 2 / ?n) / ?n = sample_variance xs * ((?n - 1) / ?n)"
  proof (cases "?n = 1")
    case True
    then have "length xs = 1" by linarith
    then obtain y where "xs = [y]" by (auto simp: length_Suc_conv)
    then show ?thesis by simp
  next
    case False
    then show ?thesis using n assms by (simp add: sample_variance_def sum_dev_average)
  qed
  finally show ?thesis by (simp add: average_def)
qed

definition gaussian_of :: "real list \<Rightarrow> gaussian_dist" where
  "gaussian_of xs = \<lparr>mean = Fin (average xs), variance = Fin (if length xs = 1 then 0 else sample_variance xs),
     gcount = of_nat (length xs)\<rparr>"

lemma average_bound:
  assumes "xs \<noteq> []" "\<forall>x\<in>set xs. \<bar>x\<bar> \<le> c"
  shows "\<bar>average xs\<bar> \<le> c"
proof -
  have "\<bar>sum_list xs\<bar> \<le> real (length xs) * c"
    using assms(2) by (induction xs) (auto simp: algebra_simps abs_le_iff)
  then show ?thesis using assms(1) by (simp add: average_def divide_simps mult.commute)
qed

lemma sample_variance_bound:
  assumes "2 \<le> length xs" "\<forall>x\<in>set xs. \<bar>x\<bar> \<le> c"
  shows "0 \<le> sample_variance xs" "sample_variance xs \<le> 8 * c ^ 2"
proof -
  let ?n = "real (length xs)"
  have ne: "xs \<noteq> []" using assms(1) by auto
  have d: "(x - average xs) ^ 2 \<le> (2 * c) ^ 2" if "x \<in> set xs" for x
    using that assms(2) average_bound [OF ne assms(2)] by (intro power2_le_iff_abs_le [THEN iffD2]) force+
  have "(\<Sum>x\<leftarrow>xs. (x - average xs) ^ 2) \<le> (\<Sum>x\<leftarrow>xs. (2 * c) ^ 2)" by (intro sum_list_mono d)
  also have "\<dots> = ?n * (4 * c ^ 2)" by (simp add: sum_list_triv power_mult_distrib)
  also have "\<dots> \<le> (2 * (?n - 1)) * (4 * c ^ 2)" using assms(1) by (intro mult_right_mono) auto
  finally show "sample_variance xs \<le> 8 * c ^ 2" using assms(1) by (simp add: sample_variance_def divide_simps) (simp add: algebra_simps)
  show "0 \<le> sample_variance xs" using assms(1) by (auto simp: sample_variance_def intro!: divide_nonneg_nonneg sum_list_nonneg)
qed

lemma of_u32_exact: "n < 2 ^ 32 \<Longrightarrow> of_u32 exact_fmt (of_nat n) = Fin (real n)"
  by (simp add: of_u32_def unat_of_nat take_bit_nat_eq_self del: of_nat_unat)

lemma exact_variance_step:
  assumes n: "1 \<le> n" "n \<le> 2 ^ 100" and v: "0 \<le> v" "v \<le> 2 ^ 103" and d: "\<bar>d\<bar> \<le> 2 ^ 51"
  shows "fadd exact_fmt (fmul exact_fmt (Fin v)
        (fdiv exact_fmt (fsub exact_fmt (Fin (n + 1)) (Fin 2)) (fsub exact_fmt (Fin (n + 1)) (Fin 1))))
      (fdiv exact_fmt (fmul exact_fmt (Fin d) (Fin d)) (Fin (n + 1))) = Fin (v * ((n - 1) / n) + d ^ 2 / (n + 1))"
proof -
  have q: "0 \<le> (n - 1) / n" "(n - 1) / n \<le> 1" using n by (simp_all add: divide_le_eq)
  have vq: "0 \<le> v * ((n - 1) / n)" "v * ((n - 1) / n) \<le> 2 ^ 103"
    using v q mult_left_le [of "(n - 1) / n" v] by (auto simp del: times_divide_eq_right)
  have d2: "0 \<le> d ^ 2" "d ^ 2 \<le> 2 ^ 102" using power_mono [OF d, of 2] by simp_all
  have dn: "0 \<le> d ^ 2 / (n + 1)" "d ^ 2 / (n + 1) \<le> 2 ^ 102"
    using n d2 by (auto simp: divide_simps intro: order_trans [OF _ mult_left_mono])
  have e1: "fdiv exact_fmt (fsub exact_fmt (Fin (n + 1)) (Fin 2)) (fsub exact_fmt (Fin (n + 1)) (Fin 1)) = Fin ((n - 1) / n)"
  proof -
    have "fl exact_fmt ((n - 1) / n) = Fin ((n - 1) / n)" using q by (intro fl_exact) (simp add: abs_of_nonneg)
    then show ?thesis using n by (simp add: fsub_def)
  qed
  have e2: "fmul exact_fmt (Fin v) (Fin ((n - 1) / n)) = Fin (v * ((n - 1) / n))"
    using vq by (simp del: times_divide_eq_right)
  have e3: "fdiv exact_fmt (fmul exact_fmt (Fin d) (Fin d)) (Fin (n + 1)) = Fin (d ^ 2 / (n + 1))"
    using n d2 dn by (simp add: power2_eq_square)
  show ?thesis unfolding e1 e2 e3 using vq dn by (simp del: times_divide_eq_right)
qed

lemma exact_mean_step:
  assumes "1 \<le> n" "\<bar>m\<bar> \<le> 2 ^ 50" "\<bar>d\<bar> \<le> 2 ^ 51"
  shows "fadd exact_fmt (Fin m) (fdiv exact_fmt (Fin d) (Fin (n + 1))) = Fin (m + d / (n + 1))"
proof -
  have dn: "\<bar>d / (n + 1)\<bar> \<le> 2 ^ 51"
    using assms by (auto simp: abs_divide divide_simps intro: order_trans [OF _ mult_left_mono])
  have "\<bar>m + d / (n + 1)\<bar> \<le> 2 ^ 128"
    by (rule order_trans [OF abs_triangle_ineq]) (use assms(2) dn in simp)
  then show ?thesis using assms(1) dn by simp
qed

lemma gaussian_update_snoc:
  assumes "xs \<noteq> []" "length xs + 1 < 2 ^ 32" "\<forall>y\<in>set (xs @ [x]). \<bar>y\<bar> \<le> 2 ^ 50"
  shows "gaussian_dist_update exact_fmt (gaussian_of xs) (Fin x) = gaussian_of (xs @ [x])"
proof -
  let ?n = "real (length xs)" and ?m = "average xs"
  define v where "v = (if length xs = 1 then 0 else sample_variance xs)"
  have n: "1 \<le> ?n" "?n \<le> 2 ^ 100" using assms(1,2) by (cases xs; simp)+
  have c: "gcount (gaussian_of xs) \<noteq> 0"
    using assms(1,2) by (auto simp: gaussian_of_def of_nat_eq_0_iff word_of_nat_eq_0_iff dest!: dvd_imp_le)
  have cnt: "of_u32 exact_fmt (gcount (gaussian_of xs) + 1) = Fin (?n + 1)"
    using of_u32_exact [of "length xs + 1"] assms(2) by (simp add: gaussian_of_def add.commute)
  have m: "\<bar>?m\<bar> \<le> 2 ^ 50" using assms by (intro average_bound) auto
  have d: "\<bar>x - ?m\<bar> \<le> 2 ^ 51" using m assms(3) by (auto simp: abs_le_iff)
  then have delta: "fsub exact_fmt (Fin x) (Fin ?m) = Fin (x - ?m)" by (simp add: fsub_def)
  have v: "0 \<le> v" "v \<le> 2 ^ 103"
    using sample_variance_bound [of xs "2 ^ 50"] assms(1,3) unfolding v_def by (cases xs; auto simp: Suc_le_eq)+
  have next_var: "v * ((?n - 1) / ?n) + (x - ?m) ^ 2 / (?n + 1) = sample_variance (xs @ [x])"
    using sample_variance_snoc [OF assms(1), of x] by (simp add: v_def)
  have g: "mean (gaussian_of xs) = Fin ?m" "variance (gaussian_of xs) = Fin v"
      "\<And>a b c. gaussian_of xs\<lparr>mean := a, variance := b, gcount := c\<rparr> = \<lparr>mean = a, variance = b, gcount = c\<rparr>"
    by (simp_all add: gaussian_of_def v_def)
  have "gaussian_dist_update exact_fmt (gaussian_of xs) (Fin x) =
      \<lparr>mean = Fin (average (xs @ [x])), variance = Fin (sample_variance (xs @ [x])), gcount = gcount (gaussian_of xs) + 1\<rparr>"
    using c unfolding gaussian_dist_update_def Let_def cnt
    by (simp only: g delta next_var exact_mean_step [OF n(1) m d] if_False
        exact_variance_step [OF n v d] average_snoc [OF assms(1)])
  then show ?thesis using assms(1) by (simp add: gaussian_of_def add.commute)
qed

lemma gaussian_fold:
  "\<lbrakk>xs \<noteq> []; length xs < 2 ^ 32; \<forall>x\<in>set xs. \<bar>x\<bar> \<le> 2 ^ 50\<rbrakk> \<Longrightarrow>
    foldl (gaussian_dist_update exact_fmt) gaussian_dist_init_empty (map Fin xs) = gaussian_of xs"
proof (induction xs rule: rev_induct)
  case (snoc x xs)
  show ?case
  proof (cases "xs = []")
    case True
    then show ?thesis
      by (simp add: gaussian_dist_init_empty_def gaussian_dist_update_def gaussian_of_def average_def)
  next
    case False
    then show ?thesis using snoc by (simp add: gaussian_update_snoc)
  qed
qed simp

text \<open>
  Feeding values one by one to a Gaussian distribution leaves it with their average, their
  sample variance (zero for one value) and their number, in exact arithmetic.
\<close>

theorem gaussian_dist_update_incremental:
  assumes "xs \<noteq> []" "length xs < 2 ^ 32" "\<forall>x\<in>set xs. \<bar>x\<bar> \<le> 2 ^ 50"
  shows "foldl (gaussian_dist_update exact_fmt) gaussian_dist_init_empty (map Fin xs) =
    \<lparr>mean = Fin (average xs), variance = Fin (if length xs = 1 then 0 else sample_variance xs),
      gcount = of_nat (length xs)\<rparr>"
  using gaussian_fold [OF assms] by (simp add: gaussian_of_def)

theorem gaussian_dist_update_incremental_witness:
  "foldl (gaussian_dist_update exact_fmt) gaussian_dist_init_empty [Fin 1, Fin 3] =
    \<lparr>mean = Fin 2, variance = Fin 2, gcount = 2\<rparr>"
  using gaussian_dist_update_incremental [of "[1, 3]"] by (simp add: average_def sample_variance_def)

text \<open>
  The variance the code computes for a beta distribution is not that of the distribution: for
  \<open>Beta(1, 1)\<close> it is 1/7, where the variance is 1/12.
\<close>

lemma beta_dist_variance_of_uniform:
  "beta_dist_variance exact_fmt \<lparr>alpha = 1, beta = 1\<rparr> = Fin (1 / 7) \<and> (1::real) / 7 \<noteq> 1 / 12"
  by (simp add: beta_dist_variance_def of_u32_def Let_def)

subsection \<open>Serialisation\<close>

definition beta_tokens :: "beta_dist \<Rightarrow> token list" where
  "beta_tokens d = [TArray 2, TUint (unat (alpha d)), TUint (unat (beta d))]"

definition gaussian_tokens :: "gaussian_dist \<Rightarrow> token list" where
  "gaussian_tokens d = [TArray 3, TFloat (mean d), TFloat (variance d), TUint (unat (gcount d))]"

definition poisson_tokens :: "poisson_observation \<Rightarrow> token list" where
  "poisson_tokens d = [TUint (unat (observations d))]"

lemma emits_beta: "nanocbor_ok written view NC \<Longrightarrow> emits written (beta_dist_serialise NC d) (beta_tokens d)"
  unfolding beta_dist_serialise_def beta_tokens_def by (intro emits_tok emits_Nil)

lemma emits_gaussian: "nanocbor_ok written view NC \<Longrightarrow> emits written (gaussian_dist_serialise NC d) (gaussian_tokens d)"
  unfolding gaussian_dist_serialise_def gaussian_tokens_def by (intro emits_tok emits_Nil)

lemma emits_poisson:
  "nanocbor_ok written view NC \<Longrightarrow> emits written (poisson_observation_serialise NC d) (poisson_tokens d)"
  unfolding poisson_observation_serialise_def poisson_tokens_def by (intro emits_tok emits_Nil)

lemma reads_beta:
  assumes "nanocbor_ok written view NC"
  shows "reads view (beta_dist_deserialise NC) (beta_tokens d) 1 d0 d"
proof -
  have "reads view (checks [into (get_uint32 NC) (\<lambda>v d. d\<lparr>alpha := v\<rparr>), into (get_uint32 NC) (\<lambda>v d. d\<lparr>beta := v\<rparr>)])
      [TUint (unat (alpha d)), TUint (unat (beta d))] (Suc (Suc 0)) d0 (d0\<lparr>alpha := alpha d, beta := beta d\<rparr>)"
    by (intro reads_item [OF assms] reads_Nil)
  moreover have "d0\<lparr>alpha := alpha d, beta := beta d\<rparr> = d" by (rule beta_dist.equality) simp_all
  ultimately show ?thesis
    unfolding beta_dist_deserialise_def beta_tokens_def by (intro reads_in_array [OF assms]) (simp only:, simp)
qed

lemma reads_gaussian:
  assumes "nanocbor_ok written view NC"
  shows "reads view (gaussian_dist_deserialise NC) (gaussian_tokens d) 1 d0 d"
proof -
  have "reads view (checks [into (get_float NC) (\<lambda>v d. d\<lparr>mean := v\<rparr>), into (get_float NC) (\<lambda>v d. d\<lparr>variance := v\<rparr>),
        into (get_uint32 NC) (\<lambda>v d. d\<lparr>gcount := v\<rparr>)])
      [TFloat (mean d), TFloat (variance d), TUint (unat (gcount d))] (Suc (Suc (Suc 0))) d0
      (d0\<lparr>mean := mean d, variance := variance d, gcount := gcount d\<rparr>)"
    by (intro reads_item [OF assms] reads_Nil)
  moreover have "d0\<lparr>mean := mean d, variance := variance d, gcount := gcount d\<rparr> = d"
    by (rule gaussian_dist.equality) simp_all
  ultimately show ?thesis
    unfolding gaussian_dist_deserialise_def gaussian_tokens_def by (intro reads_in_array [OF assms]) (simp only:, simp)
qed

lemma reads_poisson:
  assumes "nanocbor_ok written view NC"
  shows "reads view (poisson_observation_deserialise NC) (poisson_tokens d) 1 d0 d"
proof -
  have "reads view (checks [into (get_uint32 NC) (\<lambda>v d. d\<lparr>observations := v\<rparr>)])
      [TUint (unat (observations d))] (Suc 0) d0 (d0\<lparr>observations := observations d\<rparr>)"
    by (intro reads_item [OF assms] reads_Nil)
  moreover have "d0\<lparr>observations := observations d\<rparr> = d" by (rule poisson_observation.equality) simp_all
  ultimately show ?thesis unfolding poisson_observation_deserialise_def poisson_tokens_def by simp
qed

end
