(* ===== verification/Base16.thy ===== *)
theory Base16
  imports Prelude
begin

text \<open>
  \<open>src/wsn/common/base16.c\<close>: the hexadecimal decoder.  A C string is a \<open>char list\<close>, a byte buffer a
  list of 8-bit words.  Null pointers are \<open>None\<close>.  The result is the C return value together with
  the buffer after the call, so a failed decode shows which bytes it has already overwritten.
\<close>

definition hex_char :: "char \<Rightarrow> int" where
  "hex_char c =
     (let n = of_char c :: int in
      if 48 \<le> n \<and> n \<le> 57 then n - 48
      else if 65 \<le> n \<and> n \<le> 70 then n - 65 + 10
      else if 97 \<le> n \<and> n \<le> 102 then n - 97 + 10
      else -1)"

text \<open>The byte \<open>((0xF & (uint8_t)nib1) << 4) | (0xF & (uint8_t)nib2)\<close>.\<close>

definition nibbles_byte :: "int \<Rightarrow> int \<Rightarrow> u8" where
  "nibbles_byte nib1 nib2 = push_bit 4 (0xF AND word_of_int nib1) OR (0xF AND word_of_int nib2)"

text \<open>The loop: \<open>source\<close> is what is left of the input, \<open>res\<close> counts (and addresses) the bytes written.\<close>

fun base16_loop :: "string \<Rightarrow> u8 list \<Rightarrow> int \<Rightarrow> nat \<Rightarrow> int \<times> u8 list" where
  "base16_loop (c1 # c2 # source) buf len res =
     (let nib1 = hex_char c1 in
      if nib1 < 0 then (-3, buf) else
      let nib2 = hex_char c2 in
      if nib2 < 0 then (-4, buf) else
      let bin = nibbles_byte nib1 nib2 in
      if len \<le> 0 then (-5, buf)
      else base16_loop source (buf[res := bin]) (len - 1) (Suc res))"
| "base16_loop [] buf len res = (int res, buf)"
| "base16_loop [c] buf len res = (int res, buf)"

fun base16_decode_length ::
  "string option \<Rightarrow> nat \<Rightarrow> u8 list option \<Rightarrow> int \<Rightarrow> int \<times> u8 list option" where
  "base16_decode_length (Some source) source_len (Some buf) len =
     (if len \<le> 0 then (-2, Some buf)
      else if source_len mod 2 \<noteq> 0 then (-6, Some buf)
      else map_prod id Some (base16_loop (take source_len source) buf len 0))"
| "base16_decode_length source source_len buf len = (-2, buf)"

definition base16_decode :: "string \<Rightarrow> u8 list option \<Rightarrow> int \<Rightarrow> int \<times> u8 list option" where
  "base16_decode source buf len = base16_decode_length (Some source) (length source) buf len"

text \<open>The digits \<open>%02hhx\<close> of \<open>snprintf\<close> prints for one byte.\<close>

definition hex_digit :: "nat \<Rightarrow> char" where
  "hex_digit n = ''0123456789abcdef'' ! n"

definition hex_byte :: "u8 \<Rightarrow> string" where
  "hex_byte b = [hex_digit (unat (drop_bit 4 b)), hex_digit (unat (b AND 0xF))]"

lemma hex_char_range: "-1 \<le> hex_char c \<and> hex_char c < 16"
  by (simp add: hex_char_def Let_def)

lemma hex_char_digit: "n < 16 \<Longrightarrow> hex_char (hex_digit n) = int n"
proof -
  have "\<forall>n\<in>{..<16}. hex_char (hex_digit n) = int n" by code_simp
  then show "n < 16 \<Longrightarrow> hex_char (hex_digit n) = int n" by simp
qed

lemma unat_drop_bit4: "unat (drop_bit 4 (b :: u8)) < 16"
  using unsigned_less [of b, where 'a = nat] by (simp add: drop_bit_eq_div unat_div)

lemma unat_and_F: "unat ((b :: u8) AND 0xF) < 16"
  using unat_and_mask_less [of b 4] by (simp add: mask_literals)

lemma nibbles_join: "push_bit 4 (0xF AND drop_bit 4 b) OR (0xF AND (b AND 0xF)) = (b :: u8)"
  unfolding mask_literals by (rule bit_word_eqI) (auto simp: bit_simps)

lemma nibbles_byte_split:
  "nibbles_byte (uint (drop_bit 4 b)) (uint (b AND 0xF)) = b"
proof -
  have "word_of_int (uint w) = w" for w :: u8 by simp
  then show ?thesis by (simp only: nibbles_byte_def nibbles_join)
qed

text \<open>Decoding what \<open>%02hhx\<close> prints gives the bytes back, written from index \<open>res\<close> on.\<close>

lemma base16_loop_hex_bytes:
  assumes "int (length bs) \<le> len" "res + length bs \<le> length buf"
  shows "base16_loop (concat (map hex_byte bs)) buf len res =
    (int (res + length bs), take res buf @ bs @ drop (res + length bs) buf)"
  using assms
proof (induction bs arbitrary: buf len res)
  case Nil
  then show ?case by simp
next
  case (Cons b bs)
  have dig: "hex_char (hex_digit (unat (drop_bit 4 b))) = uint (drop_bit 4 b)"
    "hex_char (hex_digit (unat (b AND 0xF))) = uint (b AND 0xF)"
    by (simp_all only: hex_char_digit [OF unat_drop_bit4] hex_char_digit [OF unat_and_F] uint_nat)
  have "base16_loop (concat (map hex_byte (b # bs))) buf len res =
      base16_loop (concat (map hex_byte bs)) (buf[res := b]) (len - 1) (Suc res)"
    using Cons.prems by (simp add: hex_byte_def dig nibbles_byte_split Let_def)
  also have "\<dots> = (int (Suc res + length bs),
      take (Suc res) (buf[res := b]) @ bs @ drop (Suc res + length bs) (buf[res := b]))"
    using Cons.prems by (intro Cons.IH) auto
  finally show ?case
    using Cons.prems by (simp add: take_Suc_conv_app_nth)
qed

text \<open>What a call can return: a byte count within the buffer, or one of the error codes.\<close>

lemma base16_loop_result:
  assumes "base16_loop src buf len res = (r, buf')"
  shows "length buf' = length buf \<and>
    (r = -3 \<or> r = -4 \<or> r = -5 \<or> int res \<le> r \<and> r \<le> int res + max 0 len \<and> r = int (res + length src div 2))"
  using assms
proof (induction src buf len res arbitrary: r buf' rule: base16_loop.induct)
  case (1 c1 c2 source buf len res)
  show ?case
  proof (cases "hex_char c1 < 0 \<or> hex_char c2 < 0 \<or> len \<le> 0")
    case True
    with "1.prems" show ?thesis by (auto simp: Let_def split: if_splits)
  next
    case False
    with "1.prems" have "base16_loop source
        (buf[res := nibbles_byte (hex_char c1) (hex_char c2)]) (len - 1) (Suc res) = (r, buf')"
      by (simp add: Let_def)
    from "1.IH" [OF refl _ refl _ refl _ this] False show ?thesis by auto
  qed
qed auto

end
