(* ===== verification/Eui64.thy ===== *)
theory Eui64
  imports Base16
begin

text \<open>
  \<open>src/wsn/common/eui64.c\<close>: conversions between an EUI-64, its hexadecimal text and the IPv6
  address derived from it.  The interface-identifier functions of the IPv6 stack
  (\<open>uip_ds6_set_lladdr_from_iid\<close>, \<open>uip_ds6_set_addr_iid\<close>) belong to Contiki-NG and are arguments; the
  address of the root endpoint is an argument too, as it is set at start-up.
\<close>

definition EUI64_LENGTH :: nat where "EUI64_LENGTH = 8"

definition eui64_from_strn :: "string \<Rightarrow> nat \<Rightarrow> eui64 \<Rightarrow> bool \<times> eui64" where
  "eui64_from_strn eui64_str len eui64 =
     (if len \<noteq> EUI64_LENGTH * 2 then (False, eui64)
      else case base16_decode_length (Some eui64_str) len (Some eui64) (int EUI64_LENGTH) of
             (filled, buf) \<Rightarrow> (filled = int EUI64_LENGTH, the buf))"

definition eui64_from_str :: "string \<Rightarrow> eui64 \<Rightarrow> bool \<times> eui64" where
  "eui64_from_str eui64_str eui64 = eui64_from_strn eui64_str (length eui64_str) eui64"

text \<open>\<open>snprintf\<close> returns the untruncated length and writes at most \<open>size - 1\<close> characters.\<close>

definition eui64_to_str :: "eui64 \<Rightarrow> nat \<Rightarrow> int \<times> string" where
  "eui64_to_str eui64 eui64_str_size =
     (let s = concat (map (\<lambda>i. hex_byte (eui64 ! i)) [0..<8]) in
      (int (length s), take (eui64_str_size - 1) s))"

text \<open>The two address conversions; \<open>ip0\<close> is what the caller's buffer holds before the call.\<close>

definition eui64_from_ipaddr ::
  "(ipaddr \<Rightarrow> u8 list) \<Rightarrow> ipaddr \<Rightarrow> ipaddr \<Rightarrow> eui64" where
  "eui64_from_ipaddr set_lladdr_from_iid root_ipaddr ip =
     (let lladdr = set_lladdr_from_iid ip;
          lladdr = (if ip = root_ipaddr then lladdr[0 := lladdr ! 0 XOR 0x02] else lladdr)
      in take EUI64_LENGTH lladdr)"

definition eui64_to_ipaddr ::
  "(ipaddr \<Rightarrow> u8 list \<Rightarrow> ipaddr) \<Rightarrow> ipaddr \<Rightarrow> eui64 \<Rightarrow> ipaddr \<Rightarrow> ipaddr" where
  "eui64_to_ipaddr set_addr_iid root_ipaddr eui64 ip0 =
     (let lladdr = take EUI64_LENGTH eui64;
          lladdr = (if ip0 = root_ipaddr then lladdr[0 := lladdr ! 0 XOR 0x02] else lladdr);
          ip = (replicate 16 0)[0 := 0xFD, 1 := 0x00]
      in set_addr_iid ip lladdr)"

text \<open>What the stack documents about the two functions: the identifier put into an address can be
  read back, and putting it there keeps the prefix.\<close>

definition iid_laws :: "(ipaddr \<Rightarrow> u8 list) \<Rightarrow> (ipaddr \<Rightarrow> u8 list \<Rightarrow> ipaddr) \<Rightarrow> bool" where
  "iid_laws get set_iid \<longleftrightarrow>
     (\<forall>ip ll. length ip = 16 \<and> length ll = 8 \<longrightarrow>
        length (set_iid ip ll) = 16 \<and> get (set_iid ip ll) = ll \<and> take 8 (set_iid ip ll) = take 8 ip)"

lemma concat_hex_bytes_upt:
  "length e = 8 \<Longrightarrow> concat (map (\<lambda>i. hex_byte (e ! i)) [0..<8]) = concat (map hex_byte e)"
  by (metis (no_types, lifting) map_map comp_def map_nth map_eq_conv)

lemma length_concat_hex_bytes: "length (concat (map hex_byte bs)) = 2 * length bs"
  by (induction bs) (simp_all add: hex_byte_def)

lemma take_all_iff_ge: "length s \<le> n \<Longrightarrow> take n s = s"
  by simp

text \<open>
  Printing an EUI-64 and parsing the text returns the EUI-64, whatever the destination
  buffer held, and the printed text has the sixteen characters an MQTT topic identity needs.
\<close>

theorem eui64_str_roundtrip:
  assumes "length e = EUI64_LENGTH" "length old = EUI64_LENGTH" "17 \<le> n"
  shows "fst (eui64_to_str e n) = 16 \<and>
    eui64_from_str (snd (eui64_to_str e n)) old = (True, e)"
proof -
  have e8: "length e = 8" and o8: "length old = 8"
    using assms by (simp_all add: EUI64_LENGTH_def)
  have len: "length (concat (map hex_byte e)) = 16"
    by (simp add: length_concat_hex_bytes e8 del: length_concat)
  have s: "eui64_to_str e n = (16, concat (map hex_byte e))"
    using assms(3) by (simp add: eui64_to_str_def concat_hex_bytes_upt [OF e8] len del: length_concat)
  have "base16_loop (concat (map hex_byte e)) old 8 0 = (8, e)"
    using base16_loop_hex_bytes [of e 8 0 old] e8 o8 by simp
  with len show ?thesis
    by (simp add: s eui64_from_str_def eui64_from_strn_def EUI64_LENGTH_def del: length_concat)
qed

theorem eui64_str_roundtrip_witness:
  "eui64_from_str (snd (eui64_to_str [0, 0x12, 0x4b, 0, 0x14, 0xd5, 0x2b, 0xff] 17)) (replicate 8 0)
     = (True, [0, 0x12, 0x4b, 0, 0x14, 0xd5, 0x2b, 0xff])"
  using eui64_str_roundtrip [of "[0, 0x12, 0x4b, 0, 0x14, 0xd5, 0x2b, 0xff]" "replicate 8 0" 17]
  by (simp add: EUI64_LENGTH_def)

end
