(* ===== verification/Certificate.thy ===== *)
theory Certificate
  imports Cbor Eui64
begin

text \<open>
  \<open>src/wsn/common/crypto/certificate.{h,c}\<close> and \<open>src/wsn/common/trust/stereotypes/stereotype-tags.{h,c}\<close>: the
  implicit certificates nodes exchange and their CBOR form.  Keys and signatures are their 64 bytes.
\<close>

definition DEVICE_CLASS_MINIMUM :: u8 where "DEVICE_CLASS_MINIMUM = 1"

definition DEVICE_CLASS_MAXIMUM :: u8 where "DEVICE_CLASS_MAXIMUM = 8"

definition DTLS_EC_KEY_SIZE :: nat where "DTLS_EC_KEY_SIZE = 32"

definition DTLS_EC_SIG_SIZE :: nat where "DTLS_EC_SIG_SIZE = DTLS_EC_KEY_SIZE * 2"

record stereotype_tags =
  device_class :: u8

record certificate =
  serial_number :: u32
  issuer :: "u8 list"
  subject :: "u8 list"
  validity_not_before :: u32
  validity_not_after :: u32
  tags :: stereotype_tags
  public_key :: "u8 list"
  signature :: "u8 list"

definition stereotype_tags_equal :: "stereotype_tags \<Rightarrow> stereotype_tags \<Rightarrow> bool" where
  "stereotype_tags_equal a b \<longleftrightarrow> device_class a = device_class b"

definition serialise_stereotype_tags :: "('en, 'de) nanocbor \<Rightarrow> stereotype_tags \<Rightarrow> 'en \<Rightarrow> int \<times> 'en" where
  "serialise_stereotype_tags NC t =
     checks [\<lambda>en. fmt_array NC en 1, \<lambda>en. fmt_uint NC en (unat (device_class t))]"

definition deserialise_stereotype_tags ::
  "('en, 'de) nanocbor \<Rightarrow> 'de \<times> stereotype_tags \<Rightarrow> int \<times> 'de \<times> stereotype_tags" where
  "deserialise_stereotype_tags NC = (\<lambda>(dec, t).
     let (r, arr) = enter_array NC dec in
     if r < 0 then (r, dec, t)
     else let (r, v, arr) = get_uint8 NC arr in
       if r < 0 then (r, dec, t)
       else let t = t\<lparr>device_class := v\<rparr> in
         if device_class t < DEVICE_CLASS_MINIMUM \<or> device_class t > DEVICE_CLASS_MAXIMUM then (- 1, dec, t)
         else if \<not> at_end NC arr then (- 1, dec, t)
         else (0, leave_container NC dec arr, t))"

text \<open>A call whose result the code does not look at.\<close>

definition ignored :: "('s \<Rightarrow> int \<times> 's) \<Rightarrow> 's \<Rightarrow> int \<times> 's" where
  "ignored f s = (0, snd (f s))"

definition certificate_encode_tbs :: "('en, 'de) nanocbor \<Rightarrow> certificate \<Rightarrow> 'en \<Rightarrow> int \<times> 'en" where
  "certificate_encode_tbs NC c =
     checks
      [ignored (\<lambda>en. fmt_array NC en 6),
       ignored (\<lambda>en. fmt_uint NC en (unat (serial_number c))),
       ignored (\<lambda>en. put_bstr NC en (issuer c)),
       ignored (\<lambda>en. fmt_array NC en 2),
       ignored (\<lambda>en. fmt_uint NC en (unat (validity_not_before c))),
       ignored (\<lambda>en. fmt_uint NC en (unat (validity_not_after c))),
       ignored (\<lambda>en. put_bstr NC en (subject c)),
       serialise_stereotype_tags NC (tags c),
       ignored (\<lambda>en. put_bstr NC en (public_key c))]"

definition certificate_encode :: "('en, 'de) nanocbor \<Rightarrow> certificate \<Rightarrow> 'en \<Rightarrow> int \<times> 'en" where
  "certificate_encode NC c =
     checks
      [ignored (\<lambda>en. fmt_array NC en 2), ignored (certificate_encode_tbs NC c), ignored (\<lambda>en. put_bstr NC en (signature c))]"

definition on_tags :: "('de \<times> stereotype_tags \<Rightarrow> int \<times> 'de \<times> stereotype_tags) \<Rightarrow> 'de \<times> certificate \<Rightarrow> int \<times> 'de \<times> certificate" where
  "on_tags f = (\<lambda>(de, c). let (r, de, t) = f (de, tags c) in (r, de, c\<lparr>tags := t\<rparr>))"

definition certificate_decode_tbs :: "('en, 'de) nanocbor \<Rightarrow> 'de \<times> certificate \<Rightarrow> int \<times> 'de \<times> certificate" where
  "certificate_decode_tbs NC =
     in_array NC (checks
      [into (get_uint32 NC) (\<lambda>v c. c\<lparr>serial_number := v\<rparr>),
       into (nanocbor_get_bstr_of_len NC EUI64_LENGTH) (\<lambda>v c. c\<lparr>issuer := v\<rparr>),
       in_array NC (checks
         [into (get_uint32 NC) (\<lambda>v c. c\<lparr>validity_not_before := v\<rparr>),
          into (get_uint32 NC) (\<lambda>v c. c\<lparr>validity_not_after := v\<rparr>)]),
       into (nanocbor_get_bstr_of_len NC EUI64_LENGTH) (\<lambda>v c. c\<lparr>subject := v\<rparr>),
       on_tags (deserialise_stereotype_tags NC),
       into (NANOCBOR_GET_OBJECT NC (DTLS_EC_KEY_SIZE * 2)) (\<lambda>v c. c\<lparr>public_key := v\<rparr>)])"

definition certificate_decode :: "('en, 'de) nanocbor \<Rightarrow> 'de \<times> certificate \<Rightarrow> int \<times> 'de \<times> certificate" where
  "certificate_decode NC = (\<lambda>(dec, c).
     let (r, arr) = enter_array NC dec;
         (r, arr, c) = checks
           [certificate_decode_tbs NC,
            into (NANOCBOR_GET_OBJECT NC DTLS_EC_SIG_SIZE) (\<lambda>v c. c\<lparr>signature := v\<rparr>)] (arr, c)
     in if r < 0 then (r, dec, c)
        else if \<not> at_end NC arr then (err_end NC, dec, c)
        else (0, leave_container NC dec arr, c))"

subsection \<open>Round trip\<close>

text \<open>An encoder with enough space: no formatting call fails.\<close>

definition enough_space :: "('en, 'de) nanocbor \<Rightarrow> bool" where
  "enough_space NC \<longleftrightarrow>
     (\<forall>en n. 0 \<le> fst (fmt_array NC en n) \<and> 0 \<le> fst (fmt_uint NC en n)) \<and> (\<forall>en bs. 0 \<le> fst (put_bstr NC en bs))"

lemma emits_ignored: "\<lbrakk>emits written f ts; \<And>en. 0 \<le> fst (f en)\<rbrakk> \<Longrightarrow> emits written (ignored f) ts"
  by (simp add: emits_def ignored_def split_def)

lemma emits_ignored_cons:
  "\<lbrakk>emits written f [t]; \<And>en. 0 \<le> fst (f en); emits written (checks fs) us\<rbrakk> \<Longrightarrow>
    emits written (checks (ignored f # fs)) (t # us)"
  using emits_sub [of written "ignored f" "[t]" fs us] emits_ignored [of written f "[t]"] by simp

lemma emits_ignored_tok:
  assumes "nanocbor_ok written view NC" "enough_space NC" "emits written (checks fs) us"
  shows "emits written (checks (ignored (\<lambda>en. fmt_array NC en n) # fs)) (TArray n # us)"
    "emits written (checks (ignored (\<lambda>en. fmt_uint NC en n) # fs)) (TUint n # us)"
    "emits written (checks (ignored (\<lambda>en. put_bstr NC en bs) # fs)) (TBstr bs # us)"
  using assms(2) unfolding enough_space_def
  by (auto intro!: emits_ignored_cons emits_fmt [OF assms(1)] assms(3) simp del: checks.simps)

definition tags_tokens :: "stereotype_tags \<Rightarrow> token list" where
  "tags_tokens t = [TArray 1, TUint (unat (device_class t))]"

definition tbs_tokens :: "certificate \<Rightarrow> token list" where
  "tbs_tokens c = TArray 6 # TUint (unat (serial_number c)) # TBstr (issuer c) #
     TArray 2 # TUint (unat (validity_not_before c)) # TUint (unat (validity_not_after c)) #
     TBstr (subject c) # tags_tokens (tags c) @ [TBstr (public_key c)]"

definition cert_tokens :: "certificate \<Rightarrow> token list" where
  "cert_tokens c = TArray 2 # tbs_tokens c @ [TBstr (signature c)]"

lemma emits_tags: "nanocbor_ok written view NC \<Longrightarrow> emits written (serialise_stereotype_tags NC t) (tags_tokens t)"
  unfolding serialise_stereotype_tags_def tags_tokens_def by (intro emits_tok emits_Nil)

lemma emits_tbs:
  assumes "nanocbor_ok written view NC" "enough_space NC"
  shows "emits written (certificate_encode_tbs NC c) (tbs_tokens c)"
  unfolding certificate_encode_tbs_def tbs_tokens_def
  by (intro emits_ignored_tok [OF assms] emits_sub [OF emits_tags [OF assms(1)]] emits_Nil)

lemma checks_nonneg: "(\<And>f s. f \<in> set fs \<Longrightarrow> 0 \<le> fst (f s)) \<Longrightarrow> 0 \<le> fst (checks fs s)"
  by (induction fs arbitrary: s) (auto split: prod.splits, metis fst_conv linorder_not_less)

lemma tbs_succeeds: "enough_space NC \<Longrightarrow> 0 \<le> fst (certificate_encode_tbs NC c en)"
  unfolding certificate_encode_tbs_def
  by (rule checks_nonneg)
    (auto simp: ignored_def serialise_stereotype_tags_def enough_space_def simp del: checks.simps intro!: checks_nonneg)

lemma emits_cert:
  assumes "nanocbor_ok written view NC" "enough_space NC"
  shows "emits written (certificate_encode NC c) (cert_tokens c)"
  unfolding certificate_encode_def cert_tokens_def
  by (intro emits_ignored_tok [OF assms] emits_sub emits_ignored emits_tbs [OF assms] tbs_succeeds assms(2) emits_Nil)

lemma get_bstr_law: "nanocbor_ok written view NC \<Longrightarrow> get_law view (get_bstr NC) bstr_val"
  by (simp add: nanocbor_ok_def)

text \<open>The two readers of byte strings of a given length.\<close>

lemma reads_bstr_with:
  assumes "nanocbor_ok written view NC" "reads view (checks fs) us m (put bs x) z"
    and g: "\<And>de r de'. \<lbrakk>get_bstr NC de = (r, bs, de'); 0 \<le> r\<rbrakk> \<Longrightarrow> \<exists>r'\<ge>0. get de = (r', bs, de')"
  shows "reads view (checks (into get put # fs)) (TBstr bs # us) (Suc m) x z"
proof -
  have "reads view (into get put) [TBstr bs] 1 x (put bs x)"
    unfolding reads_def
  proof (intro allI impI, elim conjE)
    fix de rest left
    assume v: "view de = ([TBstr bs] @ rest, left)" and l: "\<forall>n. left = Some n \<longrightarrow> 1 \<le> n"
    obtain r b de' where b: "get_bstr NC de = (r, b, de')" by (cases "get_bstr NC de")
    have "has_more left" using l by (auto simp: has_more_def)
    then have "0 \<le> r \<and> b = bs \<and> view de' = (rest, pass left)"
      using get_bstr_law [OF assms(1)] v b unfolding get_law_def by (auto dest!: spec [of _ de] split: if_splits)
    moreover from this b obtain r' where "0 \<le> r'" "get de = (r', bs, de')" using g by blast
    ultimately show "\<exists>r de'. into get put (de, x) = (r, de', put bs x) \<and> 0 \<le> r \<and>
        view de' = (rest, map_option (\<lambda>n. n - 1) left)"
      by (simp add: into_def pass_def)
  qed
  from reads_sub [OF this assms(2)] show ?thesis by simp
qed

lemma reads_bstr:
  assumes "nanocbor_ok written view NC" "length bs = n" "reads view (checks fs) us m (put bs x) z"
  shows "reads view (checks (into (nanocbor_get_bstr_of_len NC n) put # fs)) (TBstr bs # us) (Suc m) x z"
    "reads view (checks (into (NANOCBOR_GET_OBJECT NC n) put # fs)) (TBstr bs # us) (Suc m) x z"
  by (rule reads_bstr_with [where put = put and bs = bs, OF assms(1,3)],
      use assms(2) in \<open>auto simp: nanocbor_get_bstr_of_len_def NANOCBOR_GET_OBJECT_def\<close>)+

lemma reads_tags:
  assumes "nanocbor_ok written view NC" "DEVICE_CLASS_MINIMUM \<le> device_class t" "device_class t \<le> DEVICE_CLASS_MAXIMUM"
  shows "reads view (deserialise_stereotype_tags NC) (tags_tokens t) 1 t0 t"
  unfolding reads_def
proof (intro allI impI, elim conjE)
  fix de rest left
  assume v: "view de = (tags_tokens t @ rest, left)" and l: "\<forall>n. left = Some n \<longrightarrow> 1 \<le> n"
  have arr: "array_law view NC" and u8: "get_law view (get_uint8 NC) uint_val"
    using assms(1) by (simp_all add: nanocbor_ok_def)
  obtain r a where e: "enter_array NC de = (r, a)" by (cases "enter_array NC de")
  have m: "has_more left" using l by (auto simp: has_more_def)
  then have a: "0 \<le> r" "view a = (TUint (unat (device_class t)) # rest, Some 1)"
    using arr v e unfolding array_law_def by (auto simp: tags_tokens_def dest!: spec [of _ de])
  obtain q w b where g: "get_uint8 NC a = (q, w, b)" by (cases "get_uint8 NC a")
  have "0 \<le> q \<and> w = device_class t \<and> view b = (rest, Some 0)"
    using u8 a(2) g unsigned_less [of "device_class t", where 'a = nat] unfolding get_law_def by (auto simp: has_more_def pass_def dest!: spec [of _ a] split: if_splits)
  moreover from this have "at_end NC b" "view (leave_container NC de b) = (rest, pass left)"
    using arr v by (auto simp: array_law_def)
  moreover have eq: "t0\<lparr>device_class := device_class t\<rparr> = t" by (rule stereotype_tags.equality) simp_all
  ultimately show "\<exists>r de'. deserialise_stereotype_tags NC (de, t0) = (r, de', t) \<and> 0 \<le> r \<and>
      view de' = (rest, map_option (\<lambda>n. n - 1) left)"
    using e g a(1) assms(2,3) by (simp add: deserialise_stereotype_tags_def pass_def Let_def eq not_less)
qed

lemma reads_on_tags: "reads view f ts 1 (tags c) t \<Longrightarrow> reads view (on_tags f) ts 1 c (c\<lparr>tags := t\<rparr>)"
  unfolding reads_def on_tags_def by fastforce

definition cert_ok :: "certificate \<Rightarrow> bool" where
  "cert_ok c \<longleftrightarrow> length (issuer c) = EUI64_LENGTH \<and> length (subject c) = EUI64_LENGTH \<and>
     length (public_key c) = DTLS_EC_KEY_SIZE * 2 \<and> length (signature c) = DTLS_EC_SIG_SIZE \<and>
     DEVICE_CLASS_MINIMUM \<le> device_class (tags c) \<and> device_class (tags c) \<le> DEVICE_CLASS_MAXIMUM"

lemma reads_tbs:
  assumes "nanocbor_ok written view NC" "cert_ok c"
  shows "reads view (certificate_decode_tbs NC) (tbs_tokens c) 1 c0 (c\<lparr>signature := signature c0\<rparr>)"
proof -
  let ?c = "c0\<lparr>serial_number := serial_number c, issuer := issuer c, validity_not_before := validity_not_before c,
    validity_not_after := validity_not_after c, subject := subject c, tags := tags c, public_key := public_key c\<rparr>"
  have eq: "?c = c\<lparr>signature := signature c0\<rparr>" by (rule certificate.equality) simp_all
  have val: "reads view (in_array NC (checks [into (get_uint32 NC) (\<lambda>v c. c\<lparr>validity_not_before := v\<rparr>),
        into (get_uint32 NC) (\<lambda>v c. c\<lparr>validity_not_after := v\<rparr>)]))
      ([TArray 2, TUint (unat (validity_not_before c)), TUint (unat (validity_not_after c))]) 1 d
      (d\<lparr>validity_not_before := validity_not_before c, validity_not_after := validity_not_after c\<rparr>)" for d
    by (rule reads_in_array [OF assms(1)], rule reads_item [OF assms(1)], rule reads_item [OF assms(1)], rule reads_Nil, simp)
  have ok: "length (issuer c) = EUI64_LENGTH" "length (subject c) = EUI64_LENGTH"
      "length (public_key c) = DTLS_EC_KEY_SIZE * 2" using assms(2) by (simp_all add: cert_ok_def)
  have t: "reads view (on_tags (deserialise_stereotype_tags NC)) (tags_tokens (tags c)) 1 d (d\<lparr>tags := tags c\<rparr>)" for d
    using assms by (intro reads_on_tags reads_tags) (auto simp: cert_ok_def)
  have "reads view (certificate_decode_tbs NC) (tbs_tokens c) 1 c0 ?c"
    unfolding certificate_decode_tbs_def tbs_tokens_def
    apply (rule reads_in_array [OF assms(1)])
     apply (rule reads_item(1) [OF assms(1)])
     apply (rule reads_bstr(1) [OF assms(1) ok(1)])
     apply (rule reads_sub [OF val, simplified])
     apply (rule reads_bstr(1) [OF assms(1) ok(2)])
     apply (rule reads_sub [OF t])
     apply (rule reads_bstr(2) [OF assms(1) ok(3)])
     apply (rule reads_Nil)
    apply simp
    done
  then show ?thesis by (simp only: eq)
qed

lemma certificate_decode_in_array:
  "\<lbrakk>in_array NC (checks [certificate_decode_tbs NC,
      into (NANOCBOR_GET_OBJECT NC DTLS_EC_SIG_SIZE) (\<lambda>v c. c\<lparr>signature := v\<rparr>)]) (de, c) = (r, de', c'); 0 \<le> r\<rbrakk> \<Longrightarrow>
    certificate_decode NC (de, c) = (r, de', c')"
  by (auto simp: in_array_def certificate_decode_def simp del: checks.simps split: prod.splits if_splits)

text \<open>
  C37: a certificate that is well formed and was encoded with enough space is decoded to itself.
\<close>

theorem certificate_roundtrip:
  assumes "nanocbor_ok written view NC" "enough_space NC" "cert_ok c"
  shows "roundtrip written view (certificate_encode NC c) (certificate_decode NC) c0 c"
proof (rule roundtripI [OF emits_cert [OF assms(1,2)]])
  let ?body = "checks [certificate_decode_tbs NC, into (NANOCBOR_GET_OBJECT NC DTLS_EC_SIG_SIZE) (\<lambda>v c. c\<lparr>signature := v\<rparr>)]"
  have sig: "length (signature c) = DTLS_EC_SIG_SIZE" using assms(3) by (simp add: cert_ok_def)
  have "reads view ?body (tbs_tokens c @ [TBstr (signature c)]) (Suc (Suc 0)) c0
      (c\<lparr>signature := signature c0, signature := signature c\<rparr>)"
    by (rule reads_sub [OF reads_tbs [OF assms(1,3)]], rule reads_bstr(2) [OF assms(1) sig], rule reads_Nil)
  moreover have "c\<lparr>signature := signature c0, signature := signature c\<rparr> = c" by (rule certificate.equality) simp_all
  ultimately have "reads view (in_array NC ?body) (cert_tokens c) 1 c0 c"
    unfolding cert_tokens_def by (intro reads_in_array [OF assms(1)]) (simp only:, simp)
  then show "reads view (certificate_decode NC) (cert_tokens c) 1 c0 c"
    unfolding reads_def by (metis certificate_decode_in_array)
qed

definition example_cert :: certificate where
  "example_cert = \<lparr>serial_number = 7, issuer = replicate 8 1, subject = replicate 8 2, validity_not_before = 0,
     validity_not_after = 4294967295, tags = \<lparr>device_class = 5\<rparr>, public_key = replicate 64 3, signature = replicate 64 4\<rparr>"

lemma example_cert_ok: "cert_ok example_cert"
  by (simp add: cert_ok_def example_cert_def EUI64_LENGTH_def DTLS_EC_SIG_SIZE_def DTLS_EC_KEY_SIZE_def
      DEVICE_CLASS_MINIMUM_def DEVICE_CLASS_MAXIMUM_def)

theorem certificate_roundtrip_witness:
  "roundtrip (\<lambda>en. en) (\<lambda>de. de) (certificate_encode ref_nanocbor example_cert) (certificate_decode ref_nanocbor)
    example_cert example_cert"
proof -
  have "enough_space ref_nanocbor" by (simp add: enough_space_def ref_nanocbor_def)
  then show ?thesis by (intro certificate_roundtrip ref_nanocbor_ok example_cert_ok)
qed

text \<open>
  The encoder reports success even when a write failed: with an encoder that has no room for byte
  strings it returns \<open>NANOCBOR_OK\<close> and the bytes are missing.
\<close>

lemma certificate_encode_hides_errors:
  "certificate_encode (ref_nanocbor\<lparr>put_bstr := \<lambda>en b. (- 1, en)\<rparr>) c [] =
    (0, [TArray 2, TArray 6, TUint (unat (serial_number c)), TArray 2, TUint (unat (validity_not_before c)),
         TUint (unat (validity_not_after c)), TArray 1, TUint (unat (device_class (tags c)))])"
  by (simp add: certificate_encode_def certificate_encode_tbs_def serialise_stereotype_tags_def ignored_def ref_nanocbor_def)

end
