(* ===== verification/Contiki.thy ===== *)
theory Contiki
  imports Prelude
begin

text \<open>
  The services of Contiki-NG the firmware calls.  Their code is not part of the repository, so
  they are the fields of a record that every operation of the model takes as its argument
  \<open>CT\<close>, and \<open>contiki_ok\<close> states their documented behaviour.

  A memory pool declared with \<open>MEMB\<close> has a number of blocks and the set of the blocks in use;
  a pointer to a block is the block's index.  The contents of the blocks live in the component that
  declares the pool and stay when a block is freed.  A \<open>LIST\<close> is the sequence of the blocks that
  \<open>list_head\<close> and \<open>list_item_next\<close> visit; a loop over a list that may remove the item it stands
  on, having fetched the successor first, visits the items the list had at its start.
  Whether a removed item keeps its link to its former successor is not documented: \<open>keeps_link\<close>.
  A \<open>QUEUE\<close> is the sequence of its entries.  \<open>coap_default_port\<close> is \<open>UIP_HTONS(COAP_DEFAULT_PORT)\<close>,
  \<open>coap_created\<close> and \<open>coap_content\<close> are \<open>CREATED_2_01\<close> and \<open>CONTENT_2_05\<close>, \<open>req_response\<close> and
  \<open>req_finished\<close> are \<open>COAP_REQUEST_STATUS_RESPONSE\<close> and \<open>COAP_REQUEST_STATUS_FINISHED\<close>,
  \<open>application_cbor\<close> is \<open>APPLICATION_CBOR\<close>.
\<close>

record contiki =
  memb_alloc :: "nat \<Rightarrow> addr set \<Rightarrow> addr option \<times> addr set"
  memb_free :: "nat \<Rightarrow> addr set \<Rightarrow> addr \<Rightarrow> int \<times> addr set"
  list_push :: "addr list \<Rightarrow> addr \<Rightarrow> addr list"
  list_add :: "addr list \<Rightarrow> addr \<Rightarrow> addr list"
  list_remove :: "addr list \<Rightarrow> addr \<Rightarrow> bool \<times> addr list"
  list_pop :: "addr list \<Rightarrow> addr option \<times> addr list"
  queue_enqueue :: "addr list \<Rightarrow> addr \<Rightarrow> addr list"
  queue_dequeue :: "addr list \<Rightarrow> addr option \<times> addr list"
  keeps_link :: bool
  coap_default_port :: u16
  coap_created :: nat
  coap_content :: nat
  req_response :: nat
  req_finished :: nat
  application_cbor :: nat

definition memb_alloc_law :: "contiki \<Rightarrow> bool" where
  "memb_alloc_law CT \<longleftrightarrow> (\<forall>n used. used \<subseteq> {..<n} \<longrightarrow>
     (case memb_alloc CT n used of
        (None, used') \<Rightarrow> used = {..<n} \<and> used' = used
      | (Some a, used') \<Rightarrow> a < n \<and> a \<notin> used \<and> used' = insert a used))"

definition memb_free_law :: "contiki \<Rightarrow> bool" where
  "memb_free_law CT \<longleftrightarrow> (\<forall>n used a. a \<in> used \<and> a < n \<longrightarrow> memb_free CT n used a = (0, used - {a}))"

definition list_laws :: "contiki \<Rightarrow> bool" where
  "list_laws CT \<longleftrightarrow>
     (\<forall>xs a. a \<notin> set xs \<longrightarrow> list_push CT xs a = a # xs \<and> list_add CT xs a = xs @ [a]) \<and>
     (\<forall>xs a. list_remove CT xs a = (a \<in> set xs, remove1 a xs)) \<and>
     list_pop CT [] = (None, []) \<and> (\<forall>a xs. list_pop CT (a # xs) = (Some a, xs))"

definition queue_laws :: "contiki \<Rightarrow> bool" where
  "queue_laws CT \<longleftrightarrow> (\<forall>xs a. queue_enqueue CT xs a = xs @ [a]) \<and>
     queue_dequeue CT [] = (None, []) \<and> (\<forall>a xs. queue_dequeue CT (a # xs) = (Some a, xs))"

definition contiki_ok :: "contiki \<Rightarrow> bool" where
  "contiki_ok CT \<longleftrightarrow> memb_alloc_law CT \<and> memb_free_law CT \<and> list_laws CT \<and> queue_laws CT \<and>
     coap_created CT \<le> coap_content CT \<and> req_response CT \<noteq> req_finished CT"

lemma memb_alloc_None:
  "\<lbrakk>contiki_ok CT; used \<subseteq> {..<n}; memb_alloc CT n used = (None, used')\<rbrakk> \<Longrightarrow> used = {..<n} \<and> used' = used"
  by (auto simp: contiki_ok_def memb_alloc_law_def dest!: spec [of _ n] spec [of _ used])

lemma memb_alloc_Some:
  "\<lbrakk>contiki_ok CT; used \<subseteq> {..<n}; memb_alloc CT n used = (Some a, used')\<rbrakk> \<Longrightarrow>
    a < n \<and> a \<notin> used \<and> used' = insert a used"
  by (auto simp: contiki_ok_def memb_alloc_law_def dest!: spec [of _ n] spec [of _ used])

lemma memb_alloc_not_full:
  assumes "contiki_ok CT" "used \<subset> {..<n}"
  shows "\<exists>a. memb_alloc CT n used = (Some a, insert a used) \<and> a < n \<and> a \<notin> used"
proof (cases "memb_alloc CT n used")
  case (Pair r used')
  with assms memb_alloc_None [of CT used n used'] memb_alloc_Some [of CT used n _ used'] show ?thesis
    by (cases r) auto
qed

lemma memb_alloc_full:
  assumes "contiki_ok CT"
  shows "memb_alloc CT n {..<n} = (None, {..<n})"
proof (cases "memb_alloc CT n {..<n}")
  case (Pair r used')
  with assms memb_alloc_None [of CT "{..<n}" n used'] memb_alloc_Some [of CT "{..<n}" n _ used'] show ?thesis
    by (cases r) auto
qed

lemma memb_free_used: "\<lbrakk>contiki_ok CT; a \<in> used; a < n\<rbrakk> \<Longrightarrow> memb_free CT n used a = (0, used - {a})"
  by (simp add: contiki_ok_def memb_free_law_def)

lemma list_push_new: "\<lbrakk>contiki_ok CT; a \<notin> set xs\<rbrakk> \<Longrightarrow> list_push CT xs a = a # xs"
  by (simp add: contiki_ok_def list_laws_def)

lemma list_add_new: "\<lbrakk>contiki_ok CT; a \<notin> set xs\<rbrakk> \<Longrightarrow> list_add CT xs a = xs @ [a]"
  by (simp add: contiki_ok_def list_laws_def)

lemma list_remove_ok: "contiki_ok CT \<Longrightarrow> list_remove CT xs a = (a \<in> set xs, remove1 a xs)"
  by (simp add: contiki_ok_def list_laws_def)

lemma list_pop_Nil: "contiki_ok CT \<Longrightarrow> list_pop CT [] = (None, [])"
  by (simp add: contiki_ok_def list_laws_def)

lemma list_pop_Cons: "contiki_ok CT \<Longrightarrow> list_pop CT (a # xs) = (Some a, xs)"
  by (simp add: contiki_ok_def list_laws_def)

lemma queue_ok:
  "contiki_ok CT \<Longrightarrow> queue_enqueue CT xs a = xs @ [a]"
  "contiki_ok CT \<Longrightarrow> queue_dequeue CT [] = (None, [])"
  "contiki_ok CT \<Longrightarrow> queue_dequeue CT (a # xs) = (Some a, xs)"
  by (simp_all add: contiki_ok_def queue_laws_def)

lemmas contiki_simps = memb_free_used queue_ok list_push_new list_add_new list_remove_ok list_pop_Nil list_pop_Cons

text \<open>The loop \<open>while ((x = list_pop(xs)) != NULL) memb_free(pool, x)\<close>.\<close>

partial_function (option) pop_free_loop :: "contiki \<Rightarrow> nat \<Rightarrow> addr list \<Rightarrow> addr set \<Rightarrow> addr set option" where
  "pop_free_loop CT n xs used =
     (case list_pop CT xs of
        (None, _) \<Rightarrow> Some used
      | (Some x, xs') \<Rightarrow> pop_free_loop CT n xs' (snd (memb_free CT n used x)))"

lemma pop_free_loop_ends:
  "\<lbrakk>contiki_ok CT; distinct xs; set xs \<subseteq> used; used \<subseteq> {..<n}\<rbrakk> \<Longrightarrow>
    pop_free_loop CT n xs used = Some (used - set xs)"
proof (induction xs arbitrary: used)
  case Nil
  then show ?case by (simp add: pop_free_loop.simps [of CT n "[]"] list_pop_Nil)
next
  case (Cons x xs)
  then have x: "memb_free CT n used x = (0, used - {x})" by (auto intro: memb_free_used)
  have "pop_free_loop CT n xs (used - {x}) = Some (used - {x} - set xs)"
    using Cons.prems by (intro Cons.IH) auto
  then show ?case
    using Cons.prems(1) by (simp add: pop_free_loop.simps [of CT n "x # xs"] list_pop_Cons x) blast
qed

text \<open>
  The documented behaviour has an implementation: the first free block is taken, lists are as
  their contents.
\<close>

definition ref_contiki :: contiki where
  "ref_contiki = \<lparr>
     memb_alloc = (\<lambda>n used. case List.find (\<lambda>i. i \<notin> used) [0..<n] of
        None \<Rightarrow> (None, used) | Some a \<Rightarrow> (Some a, insert a used)),
     memb_free = (\<lambda>n used a. if a < n then (0, used - {a}) else (- 1, used)),
     list_push = (\<lambda>xs a. a # remove1 a xs),
     list_add = (\<lambda>xs a. remove1 a xs @ [a]),
     list_remove = (\<lambda>xs a. (a \<in> set xs, remove1 a xs)),
     list_pop = (\<lambda>xs. case xs of [] \<Rightarrow> (None, []) | a # as \<Rightarrow> (Some a, as)),
     queue_enqueue = (\<lambda>xs a. xs @ [a]),
     queue_dequeue = (\<lambda>xs. case xs of [] \<Rightarrow> (None, []) | a # as \<Rightarrow> (Some a, as)),
     keeps_link = True, coap_default_port = 5683, coap_created = 65, coap_content = 69,
     req_response = 0, req_finished = 2, application_cbor = 60\<rparr>"

lemma ref_contiki_ok [simp]: "contiki_ok ref_contiki"
proof -
  have "memb_alloc_law ref_contiki"
    by (auto simp: memb_alloc_law_def ref_contiki_def find_None_iff dest!: find_SomeD split: option.splits)
  then show ?thesis
    by (auto simp: contiki_ok_def memb_free_law_def list_laws_def queue_laws_def ref_contiki_def remove1_idem)
qed

end
