(* ===== verification/Registry.thy ===== *)
theory Registry
  imports Contiki
begin

text \<open>
  What the tables of edges, peers and stereotypes have in common: pools whose blocks are owned by
  lists, and the contract \<open>registry\<close> of a bounded table.
\<close>

subsection \<open>Lists that share a pool\<close>

text \<open>
  Owners \<open>E\<close>, each with a list of at most \<open>m\<close> blocks: the lists share nothing, and together they hold
  exactly the blocks in use of a pool of \<open>n\<close>.
\<close>

definition owned :: "nat \<Rightarrow> nat \<Rightarrow> addr set \<Rightarrow> (addr \<Rightarrow> addr list) \<Rightarrow> addr set \<Rightarrow> bool" where
  "owned m n E cs used \<longleftrightarrow>
     (\<forall>e\<in>E. distinct (cs e) \<and> length (cs e) \<le> m) \<and>
     (\<forall>e\<in>E. \<forall>f\<in>E. e \<noteq> f \<longrightarrow> set (cs e) \<inter> set (cs f) = {}) \<and>
     used = (\<Union>e\<in>E. set (cs e)) \<and> used \<subseteq> {..<n}"

lemma owned_subset:
  assumes "owned m n E cs used" "used' = (\<Union>f\<in>E. set (cs' f))"
    and sub: "\<And>f. f \<in> E \<Longrightarrow> distinct (cs' f) \<and> length (cs' f) \<le> length (cs f) \<and> set (cs' f) \<subseteq> set (cs f)"
  shows "owned m n E cs' used'"
proof -
  have cs: "length (cs f) \<le> m" "set (cs f) \<subseteq> used" if "f \<in> E" for f
    using that assms(1) by (auto simp: owned_def)
  have "set (cs' f) \<inter> set (cs' g) = {}" if "f \<in> E" "g \<in> E" "f \<noteq> g" for f g
  proof -
    have "set (cs f) \<inter> set (cs g) = {}" using that assms(1) by (simp add: owned_def)
    then show ?thesis using sub [OF that(1)] sub [OF that(2)] by blast
  qed
  moreover have "used' \<subseteq> used" using cs(2) sub unfolding assms(2) by (meson UN_least order_trans)
  moreover have "used \<subseteq> {..<n}" using assms(1) unfolding owned_def by blast
  ultimately show ?thesis
    using sub cs(1) order_trans unfolding owned_def assms(2) [symmetric] by (metis (no_types))
qed

lemma owned_remove:
  assumes "owned m n E cs used" "e \<in> E"
  shows "owned m n E (cs(e := remove1 c (cs e))) (used - (if c \<in> set (cs e) then {c} else {}))"
proof (rule owned_subset [OF assms(1)])
  have d: "distinct (cs f)" if "f \<in> E" for f using assms(1) that by (auto simp: owned_def)
  show "used - (if c \<in> set (cs e) then {c} else {}) = (\<Union>f\<in>E. set ((cs(e := remove1 c (cs e))) f))"
  proof (cases "c \<in> set (cs e)")
    case True
    have "c \<notin> set (cs f)" if "f \<in> E" "f \<noteq> e" for f
      using that True assms unfolding owned_def by blast
    moreover have "used = (\<Union>f\<in>E. set (cs f))" using assms(1) by (simp add: owned_def)
    ultimately show ?thesis using True d [OF assms(2)] by (auto split: if_splits)
  qed (use assms(1) in \<open>simp add: owned_def remove1_idem\<close>)
  show "distinct ((cs(e := remove1 c (cs e))) f) \<and> length ((cs(e := remove1 c (cs e))) f) \<le> length (cs f) \<and>
      set ((cs(e := remove1 c (cs e))) f) \<subseteq> set (cs f)" if "f \<in> E" for f
    using d [OF that] set_remove1_subset [of c "cs e"] by (auto simp: length_remove1_le)
qed

lemma owned_add:
  "\<lbrakk>owned m n E cs used; e \<in> E; length (cs e) < m; c \<notin> used; c < n\<rbrakk> \<Longrightarrow>
    owned m n E (cs(e := c # cs e)) (insert c used)"
  by (auto simp: owned_def split: if_splits)

lemma owned_new: "\<lbrakk>owned m n E cs used; e \<notin> E\<rbrakk> \<Longrightarrow> owned m n (insert e E) (cs(e := [])) used"
  by (auto simp: owned_def split: if_splits)

lemma owned_del: "\<lbrakk>owned m n E cs used; e \<in> E\<rbrakk> \<Longrightarrow> owned m n (E - {e}) (cs(e := [])) (used - set (cs e))"
  by (auto simp: owned_def split: if_splits)

lemma owned_cong: "\<lbrakk>owned m n E cs used; \<And>e. e \<in> E \<Longrightarrow> cs' e = cs e\<rbrakk> \<Longrightarrow> owned m n E cs' used"
  by (rule owned_subset) (auto simp: owned_def)

lemma owned_in: "\<lbrakk>owned m n E cs used; e \<in> E; c \<in> set (cs e)\<rbrakk> \<Longrightarrow> c \<in> used \<and> c < n"
  by (auto simp: owned_def)

text \<open>With a pool as large as all the lists together, an owner with room finds a free block.\<close>

lemma owned_room:
  assumes "owned m (k * m) E cs used" "E \<subseteq> {..<k}" "e \<in> E" "length (cs e) < m"
  shows "used \<subset> {..<k * m}"
proof -
  have fin: "finite E" using assms(2) finite_subset by blast
  have "card used \<le> (\<Sum>f\<in>E. card (set (cs f)))"
    using assms(1) fin by (simp add: owned_def card_UN_le)
  also have "\<dots> \<le> (\<Sum>f\<in>E. length (cs f))" by (intro sum_mono card_length)
  also have "\<dots> = length (cs e) + (\<Sum>f\<in>E - {e}. length (cs f))" using assms(3) fin by (simp add: sum.remove)
  also have "(\<Sum>f\<in>E - {e}. length (cs f)) \<le> (\<Sum>f\<in>E - {e}. m)"
    using assms(1) by (intro sum_mono) (auto simp: owned_def)
  also have "(\<Sum>f\<in>E - {e}. m) = (card E - 1) * m" using assms(3) fin by (simp add: card_Diff_singleton)
  finally have c: "card used < m + (card E - 1) * m" using assms(4) by linarith
  have "card E \<le> k" using card_mono [OF _ assms(2)] by simp
  moreover have "card E > 0" using assms(3) fin by (auto simp: card_gt_0_iff)
  ultimately have "m + (card E - 1) * m \<le> k * m" by (metis Suc_diff_1 mult_Suc mult_le_mono1)
  with c have "card used < k * m" by linarith
  then show ?thesis using assms(1) by (auto simp: owned_def)
qed

subsection \<open>Tables\<close>

text \<open>
  The contract of a table of peers or edges of bounded size, as its clients use it: \<open>add\<close> finds or
  creates the entry of a key, may evict entries that are not \<open>kept\<close>, and refuses when it
  cannot make room.  The result \<open>None\<close> of \<open>add\<close> is a call that does not return.
\<close>

fun add_seq :: "('s \<Rightarrow> 'k \<Rightarrow> (addr option \<times> 's) option) \<Rightarrow> 's \<Rightarrow> 'k list \<Rightarrow> 's option" where
  "add_seq add s [] = Some s"
| "add_seq add s (k # ks) = (case add s k of None \<Rightarrow> None | Some (r, s') \<Rightarrow> add_seq add s' ks)"

locale registry =
  fixes ok :: "'s \<Rightarrow> bool" and find :: "'s \<Rightarrow> 'k \<Rightarrow> addr option"
    and add :: "'s \<Rightarrow> 'k \<Rightarrow> (addr option \<times> 's) option"
    and kept :: "'s \<Rightarrow> addr \<Rightarrow> bool" and entry :: "'s \<Rightarrow> addr \<Rightarrow> 'v"
  assumes add_returns: "ok s \<Longrightarrow> \<exists>r s'. add s k = Some (r, s') \<and> ok s'"
    and add_find: "\<lbrakk>ok s; add s k = Some (Some e, s')\<rbrakk> \<Longrightarrow> find s' k = Some e"
    and add_known: "\<lbrakk>ok s; find s k = Some e\<rbrakk> \<Longrightarrow> add s k = Some (Some e, s)"
    and add_refused: "\<lbrakk>ok s; add s k = Some (None, s')\<rbrakk> \<Longrightarrow> s' = s"
    and add_kept: "\<lbrakk>ok s; add s k = Some (r, s'); find s k' = Some e; kept s e\<rbrakk> \<Longrightarrow>
      find s' k' = Some e \<and> kept s' e \<and> entry s' e = entry s e"
begin

lemma add_preserves: "\<lbrakk>ok s; add s k = Some (r, s')\<rbrakk> \<Longrightarrow> ok s'"
  using add_returns [of s k] by auto

text \<open>Adding twice is adding once.\<close>

lemma add_idem: "\<lbrakk>ok s; add s k = Some (Some e, s')\<rbrakk> \<Longrightarrow> add s' k = Some (Some e, s')"
  using add_known add_find add_preserves by blast

text \<open>Whatever is added, in whatever order, kept entries stay where they are and as they are.\<close>

lemma add_seq_kept:
  "\<lbrakk>ok s; find s k = Some e; kept s e\<rbrakk> \<Longrightarrow>
    \<exists>s'. add_seq add s ks = Some s' \<and> ok s' \<and> find s' k = Some e \<and> kept s' e \<and> entry s' e = entry s e"
proof (induction ks arbitrary: s)
  case (Cons j ks)
  obtain r t where t: "add s j = Some (r, t)" "ok t" using add_returns [OF Cons.prems(1)] by blast
  from add_kept [OF Cons.prems(1) t(1) Cons.prems(2,3)]
  have "find t k = Some e" "kept t e" "entry t e = entry s e" by auto
  with Cons.IH [OF t(2)] t(1) show ?case by auto
qed simp

end

end
