(* ===== verification/Edge_Info.thy ===== *)
theory Edge_Info
  imports Registry Eui64
begin

text \<open>
  \<open>src/wsn/common/trust/edge-info.{h,c}\<close>: the edges (resource-rich nodes) a node knows, each with the
  capabilities it offers.  The structures of the trust model selected at build time are the type
  parameters \<open>'e\<close> and \<open>'c\<close>, its initialisers the fields of \<open>tm_inits\<close>.  The blocks of the two pools are
  the functions \<open>edge_mem\<close> and \<open>cap_mem\<close>.  An operation that may loop returns an option, \<open>None\<close> being
  a call that does not return.
\<close>

definition NUM_EDGE_RESOURCES :: nat where "NUM_EDGE_RESOURCES = 4"

definition NUM_EDGE_CAPABILITIES :: nat where "NUM_EDGE_CAPABILITIES = 3"

definition EDGE_CAPABILITY_NAME_LEN :: nat where "EDGE_CAPABILITY_NAME_LEN = 15"

definition EDGE_RESOURCE_ACTIVE :: u32 where "EDGE_RESOURCE_ACTIVE = 1"

definition EDGE_CAPABILITY_ACTIVE :: u32 where "EDGE_CAPABILITY_ACTIVE = 1"

record coap_endpoint =
  ipaddr :: ipaddr
  secure :: nat
  port :: u16

record 'c edge_capability =
  cap_name :: "char list"
  cap_flags :: u32
  cap_tm :: 'c

record 'e edge_resource =
  ep :: coap_endpoint
  edge_flags :: u32
  edge_tm :: 'e
  capabilities :: "addr list"

record ('e, 'c) tm_inits =
  edge_resource_tm_init :: "'e \<Rightarrow> 'e"
  edge_capability_tm_init :: "'c \<Rightarrow> 'c"

record ('e, 'c) edge_info =
  edge_resources_memb :: "addr set"
  edge_capabilities_memb :: "addr set"
  edge_resources :: "addr list"
  edge_mem :: "addr \<Rightarrow> 'e edge_resource"
  cap_mem :: "addr \<Rightarrow> 'c edge_capability"

text \<open>Writes through a pointer.\<close>

definition upd_edge :: "addr \<Rightarrow> ('e edge_resource \<Rightarrow> 'e edge_resource) \<Rightarrow> ('e, 'c) edge_info \<Rightarrow> ('e, 'c) edge_info" where
  "upd_edge e f s = s\<lparr>edge_mem := (edge_mem s)(e := f (edge_mem s e))\<rparr>"

definition upd_cap :: "addr \<Rightarrow> ('c edge_capability \<Rightarrow> 'c edge_capability) \<Rightarrow> ('e, 'c) edge_info \<Rightarrow> ('e, 'c) edge_info" where
  "upd_cap c f s = s\<lparr>cap_mem := (cap_mem s)(c := f (cap_mem s c))\<rparr>"

definition edge_info_is_active :: "('e, 'c) edge_info \<Rightarrow> addr \<Rightarrow> bool" where
  "edge_info_is_active s edge \<longleftrightarrow> edge_flags (edge_mem s edge) AND EDGE_RESOURCE_ACTIVE \<noteq> 0"

definition edge_capability_is_active :: "('e, 'c) edge_info \<Rightarrow> addr \<Rightarrow> bool" where
  "edge_capability_is_active s cap \<longleftrightarrow> cap_flags (cap_mem s cap) AND EDGE_CAPABILITY_ACTIVE \<noteq> 0"

definition edge_capability_free :: "contiki \<Rightarrow> ('e, 'c) edge_info \<Rightarrow> addr \<Rightarrow> ('e, 'c) edge_info" where
  "edge_capability_free CT s cap =
     s\<lparr>edge_capabilities_memb :=
        snd (memb_free CT (NUM_EDGE_RESOURCES * NUM_EDGE_CAPABILITIES) (edge_capabilities_memb s) cap)\<rparr>"

definition edge_info_capability_remove ::
  "contiki \<Rightarrow> ('e, 'c) edge_info \<Rightarrow> addr \<Rightarrow> addr \<Rightarrow> bool \<times> ('e, 'c) edge_info" where
  "edge_info_capability_remove CT s edge cap =
     (let (removed, caps) = list_remove CT (capabilities (edge_mem s edge)) cap;
          s = upd_edge edge (\<lambda>r. r\<lparr>capabilities := caps\<rparr>) s
      in (removed, if removed then edge_capability_free CT s cap else s))"

text \<open>The first inactive capability of the first edge that has one.\<close>

definition free_up_edge_capabilities :: "contiki \<Rightarrow> ('e, 'c) edge_info \<Rightarrow> bool \<times> ('e, 'c) edge_info" where
  "free_up_edge_capabilities CT s =
     (case List.find (\<lambda>(e, c). \<not> edge_capability_is_active s c)
        (concat (map (\<lambda>e. map (Pair e) (capabilities (edge_mem s e))) (edge_resources s))) of
        None \<Rightarrow> (False, s)
      | Some (e, c) \<Rightarrow> edge_info_capability_remove CT s e c)"

definition edge_capability_new ::
  "contiki \<Rightarrow> ('e, 'c) tm_inits \<Rightarrow> ('e, 'c) edge_info \<Rightarrow> addr \<Rightarrow> addr option \<times> ('e, 'c) edge_info" where
  "edge_capability_new CT TM s edge =
     (if NUM_EDGE_CAPABILITIES \<le> length (capabilities (edge_mem s edge)) then (None, s)
      else
        let n = NUM_EDGE_RESOURCES * NUM_EDGE_CAPABILITIES;
            (cap, used) = memb_alloc CT n (edge_capabilities_memb s);
            s = s\<lparr>edge_capabilities_memb := used\<rparr>;
            (cap, s) = (case cap of
                Some c \<Rightarrow> (cap, s)
              | None \<Rightarrow>
                  let s = snd (free_up_edge_capabilities CT s);
                      (cap, used) = memb_alloc CT n (edge_capabilities_memb s)
                  in (cap, s\<lparr>edge_capabilities_memb := used\<rparr>))
        in case cap of
             None \<Rightarrow> (None, s)
           | Some c \<Rightarrow> (Some c, upd_cap c (\<lambda>r. r\<lparr>cap_tm := edge_capability_tm_init TM (cap_tm r)\<rparr>) s))"

definition edge_resource_free :: "contiki \<Rightarrow> ('e, 'c) edge_info \<Rightarrow> addr \<Rightarrow> ('e, 'c) edge_info option" where
  "edge_resource_free CT s edge =
     (case pop_free_loop CT (NUM_EDGE_RESOURCES * NUM_EDGE_CAPABILITIES)
             (capabilities (edge_mem s edge)) (edge_capabilities_memb s) of
        None \<Rightarrow> None
      | Some used \<Rightarrow>
          let s = upd_edge edge (\<lambda>r. r\<lparr>capabilities := []\<rparr>) (s\<lparr>edge_capabilities_memb := used\<rparr>)
          in Some (s\<lparr>edge_resources_memb := snd (memb_free CT NUM_EDGE_RESOURCES (edge_resources_memb s) edge)\<rparr>))"

definition edge_info_remove ::
  "contiki \<Rightarrow> ('e, 'c) edge_info \<Rightarrow> addr \<Rightarrow> (bool \<times> ('e, 'c) edge_info) option" where
  "edge_info_remove CT s edge =
     (let (removed, es) = list_remove CT (edge_resources s) edge;
          s = s\<lparr>edge_resources := es\<rparr>
      in if removed then map_option (Pair removed) (edge_resource_free CT s edge) else Some (removed, s))"

definition free_up_edge_resource ::
  "contiki \<Rightarrow> ('e, 'c) edge_info \<Rightarrow> (bool \<times> ('e, 'c) edge_info) option" where
  "free_up_edge_resource CT s =
     (case List.find (\<lambda>e. \<not> edge_info_is_active s e) (edge_resources s) of
        None \<Rightarrow> Some (False, s)
      | Some e \<Rightarrow> edge_info_remove CT s e)"

definition edge_resource_new ::
  "contiki \<Rightarrow> ('e, 'c) tm_inits \<Rightarrow> ('e, 'c) edge_info \<Rightarrow> (addr option \<times> ('e, 'c) edge_info) option" where
  "edge_resource_new CT TM s =
     (let init = (\<lambda>e s. upd_edge e
            (\<lambda>r. r\<lparr>edge_tm := edge_resource_tm_init TM (edge_tm r), capabilities := []\<rparr>) s);
          (edge, used) = memb_alloc CT NUM_EDGE_RESOURCES (edge_resources_memb s);
          s = s\<lparr>edge_resources_memb := used\<rparr>
      in case edge of
           Some e \<Rightarrow> Some (Some e, init e s)
         | None \<Rightarrow>
             (case free_up_edge_resource CT s of
                None \<Rightarrow> None
              | Some (freed, s) \<Rightarrow>
                  let (edge, used) = memb_alloc CT NUM_EDGE_RESOURCES (edge_resources_memb s);
                      s = s\<lparr>edge_resources_memb := used\<rparr>
                  in case edge of None \<Rightarrow> Some (None, s) | Some e \<Rightarrow> Some (Some e, init e s)))"

definition edge_info_init :: "('e, 'c) edge_info \<Rightarrow> ('e, 'c) edge_info" where
  "edge_info_init s = s\<lparr>edge_resources_memb := {}, edge_capabilities_memb := {}, edge_resources := []\<rparr>"

definition edge_info_find_addr :: "('e, 'c) edge_info \<Rightarrow> ipaddr \<Rightarrow> addr option" where
  "edge_info_find_addr s a = List.find (\<lambda>e. ipaddr (ep (edge_mem s e)) = a) (edge_resources s)"

text \<open>\<open>ip0\<close> is what the uninitialised local \<open>ipaddr\<close> holds.\<close>

definition edge_info_find_eui64 ::
  "(ipaddr \<Rightarrow> u8 list \<Rightarrow> ipaddr) \<Rightarrow> ipaddr \<Rightarrow> ipaddr \<Rightarrow> ('e, 'c) edge_info \<Rightarrow> eui64 \<Rightarrow> addr option" where
  "edge_info_find_eui64 set_addr_iid root_ipaddr ip0 s eui =
     edge_info_find_addr s (eui64_to_ipaddr set_addr_iid root_ipaddr eui ip0)"

definition edge_info_add ::
  "contiki \<Rightarrow> ('e, 'c) tm_inits \<Rightarrow> ('e, 'c) edge_info \<Rightarrow> ipaddr \<Rightarrow> (addr option \<times> ('e, 'c) edge_info) option" where
  "edge_info_add CT TM s a =
     (case edge_info_find_addr s a of
        Some e \<Rightarrow> Some (Some e, s)
      | None \<Rightarrow>
          (case edge_resource_new CT TM s of
             None \<Rightarrow> None
           | Some (None, s) \<Rightarrow> Some (None, s)
           | Some (Some e, s) \<Rightarrow>
               let s = upd_edge e (\<lambda>r. r\<lparr>ep := (ep r)\<lparr>ipaddr := a, secure := 0, port := coap_default_port CT\<rparr>\<rparr>) s;
                   s = s\<lparr>edge_resources := list_push CT (edge_resources s) e\<rparr>;
                   s = upd_edge e (\<lambda>r. r\<lparr>edge_flags := 0\<rparr>) s
               in Some (Some e, s)))"

definition edge_info_iter :: "('e, 'c) edge_info \<Rightarrow> addr option" where
  "edge_info_iter s = (case edge_resources s of [] \<Rightarrow> None | e # _ \<Rightarrow> Some e)"

definition edge_info_next :: "('e, 'c) edge_info \<Rightarrow> addr \<Rightarrow> addr option" where
  "edge_info_next s e = (case dropWhile (\<lambda>x. x \<noteq> e) (edge_resources s) of _ # n # _ \<Rightarrow> Some n | _ \<Rightarrow> None)"

definition edge_info_count :: "('e, 'c) edge_info \<Rightarrow> nat" where
  "edge_info_count s = length (edge_resources s)"

text \<open>\<open>strcmp\<close> reads both strings up to their NUL; an absent edge is the NULL pointer.\<close>

definition edge_info_capability_find :: "('e, 'c) edge_info \<Rightarrow> addr option \<Rightarrow> string \<Rightarrow> addr option" where
  "edge_info_capability_find s edge name =
     (case edge of
        None \<Rightarrow> None
      | Some e \<Rightarrow> List.find (\<lambda>c. cstr (cap_name (cap_mem s c)) = cstr name) (capabilities (edge_mem s e)))"

definition edge_info_capability_add ::
  "contiki \<Rightarrow> ('e, 'c) tm_inits \<Rightarrow> ('e, 'c) edge_info \<Rightarrow> addr \<Rightarrow> string \<Rightarrow> addr option \<times> ('e, 'c) edge_info" where
  "edge_info_capability_add CT TM s edge name =
     (case edge_info_capability_find s (Some edge) name of
        Some c \<Rightarrow> (Some c, s)
      | None \<Rightarrow>
          (case edge_capability_new CT TM s edge of
             (None, s) \<Rightarrow> (None, s)
           | (Some c, s) \<Rightarrow>
               let s = upd_cap c (\<lambda>r. r\<lparr>cap_name := strncpy (cap_name r) name EDGE_CAPABILITY_NAME_LEN, cap_flags := 0\<rparr>) s
               in (Some c, upd_edge edge (\<lambda>r. r\<lparr>capabilities := list_push CT (capabilities r) c\<rparr>) s)))"

definition edge_info_capability_remove_by_name ::
  "contiki \<Rightarrow> ('e, 'c) edge_info \<Rightarrow> addr \<Rightarrow> string \<Rightarrow> bool \<times> ('e, 'c) edge_info" where
  "edge_info_capability_remove_by_name CT s edge name =
     (case edge_info_capability_find s (Some edge) name of
        None \<Rightarrow> (False, s)
      | Some c \<Rightarrow> edge_info_capability_remove CT s edge c)"

definition edge_info_capability_clear :: "contiki \<Rightarrow> ('e, 'c) edge_info \<Rightarrow> addr \<Rightarrow> ('e, 'c) edge_info" where
  "edge_info_capability_clear CT s edge =
     fold (\<lambda>c s. snd (edge_info_capability_remove CT s edge c)) (capabilities (edge_mem s edge)) s"

definition edge_info_name ::
  "(ipaddr \<Rightarrow> u8 list) \<Rightarrow> ipaddr \<Rightarrow> ('e, 'c) edge_info \<Rightarrow> addr \<Rightarrow> string" where
  "edge_info_name set_lladdr_from_iid root_ipaddr s edge =
     snd (eui64_to_str (eui64_from_ipaddr set_lladdr_from_iid root_ipaddr (ipaddr (ep (edge_mem s edge))))
        (EUI64_LENGTH * 2 + 1))"

definition edge_info_has_active_capability :: "('e, 'c) edge_info \<Rightarrow> string \<Rightarrow> bool" where
  "edge_info_has_active_capability s name =
     list_ex (\<lambda>e. edge_info_is_active s e \<and>
        (case edge_info_capability_find s (Some e) name of
           None \<Rightarrow> False | Some c \<Rightarrow> edge_capability_is_active s c)) (edge_resources s)"

subsection \<open>The invariant\<close>

text \<open>
  The list holds exactly the blocks in use of the edge pool, without repetition and with different
  addresses; the capability lists of its edges share nothing, hold at most three blocks each
  and together exactly the blocks in use of the capability pool; the last byte of
  every name buffer is NUL.
\<close>

definition caps_of :: "('e, 'c) edge_info \<Rightarrow> addr \<Rightarrow> addr list" where
  "caps_of s e = capabilities (edge_mem s e)"

definition names_ok :: "('e, 'c) edge_info \<Rightarrow> bool" where
  "names_ok s \<longleftrightarrow> (\<forall>c. length (cap_name (cap_mem s c)) = EDGE_CAPABILITY_NAME_LEN + 1 \<and>
     cap_name (cap_mem s c) ! EDGE_CAPABILITY_NAME_LEN = NUL)"

definition caps_ok :: "('e, 'c) edge_info \<Rightarrow> bool" where
  "caps_ok s \<longleftrightarrow> owned NUM_EDGE_CAPABILITIES (NUM_EDGE_RESOURCES * NUM_EDGE_CAPABILITIES)
     (set (edge_resources s)) (caps_of s) (edge_capabilities_memb s)"

definition edges_ok :: "('e, 'c) edge_info \<Rightarrow> bool" where
  "edges_ok s \<longleftrightarrow>
     distinct (edge_resources s) \<and> edge_resources_memb s = set (edge_resources s) \<and>
     edge_resources_memb s \<subseteq> {..<NUM_EDGE_RESOURCES} \<and>
     inj_on (\<lambda>e. ipaddr (ep (edge_mem s e))) (set (edge_resources s))"

definition edge_info_ok :: "('e, 'c) edge_info \<Rightarrow> bool" where
  "edge_info_ok s \<longleftrightarrow> edges_ok s \<and> caps_ok s \<and> names_ok s"

lemma upd_edge_simps [simp]:
  "edge_mem (upd_edge e f s) = (edge_mem s)(e := f (edge_mem s e))"
  "edge_resources (upd_edge e f s) = edge_resources s" "cap_mem (upd_edge e f s) = cap_mem s"
  "edge_resources_memb (upd_edge e f s) = edge_resources_memb s"
  "edge_capabilities_memb (upd_edge e f s) = edge_capabilities_memb s"
  by (simp_all add: upd_edge_def)

lemma upd_cap_simps [simp]:
  "cap_mem (upd_cap c g s) = (cap_mem s)(c := g (cap_mem s c))"
  "edge_mem (upd_cap c g s) = edge_mem s" "edge_resources (upd_cap c g s) = edge_resources s"
  "edge_resources_memb (upd_cap c g s) = edge_resources_memb s"
  "edge_capabilities_memb (upd_cap c g s) = edge_capabilities_memb s"
  by (simp_all add: upd_cap_def)

lemma caps_of_mem [simp]: "caps_of (s\<lparr>edge_capabilities_memb := u\<rparr>) = caps_of s"
  "caps_of (s\<lparr>edge_resources_memb := u\<rparr>) = caps_of s" "caps_of (s\<lparr>edge_resources := es\<rparr>) = caps_of s"
  "caps_of (upd_cap c g s) = caps_of s"
  by (simp_all add: caps_of_def fun_eq_iff)

lemma ok_frame [simp]:
  "edges_ok (s\<lparr>edge_capabilities_memb := u\<rparr>) = edges_ok s" "edges_ok (upd_cap c g s) = edges_ok s"
  "names_ok (s\<lparr>edge_capabilities_memb := u\<rparr>) = names_ok s" "names_ok (upd_edge e f s) = names_ok s"
  "names_ok (s\<lparr>edge_resources_memb := u\<rparr>) = names_ok s" "names_ok (s\<lparr>edge_resources := es\<rparr>) = names_ok s"
  by (simp_all add: edges_ok_def names_ok_def)

lemma edges_ok_upd_edge: "(\<And>r. ep (f r) = ep r) \<Longrightarrow> edges_ok (upd_edge e f s) = edges_ok s"
proof -
  assume "\<And>r. ep (f r) = ep r"
  then have "\<And>x. ep (edge_mem (upd_edge e f s) x) = ep (edge_mem s x)" by simp
  then show ?thesis unfolding edges_ok_def by (simp del: upd_edge_simps(1))
qed

lemma caps_of_upd_edge: "caps_of (upd_edge e f s) = (caps_of s)(e := capabilities (f (edge_mem s e)))"
  by (auto simp: caps_of_def)

lemma edge_info_init_ok [inv_intros]: "names_ok s \<Longrightarrow> edge_info_ok (edge_info_init s)"
  by (simp add: edge_info_ok_def edges_ok_def caps_ok_def owned_def names_ok_def edge_info_init_def)

text \<open>An edge of the list with room for a capability means a free block in the capability pool.\<close>

lemma caps_pool_card:
  assumes "edge_info_ok s" "e \<in> set (edge_resources s)" "length (caps_of s e) < NUM_EDGE_CAPABILITIES"
  shows "edge_capabilities_memb s \<subset> {..<NUM_EDGE_RESOURCES * NUM_EDGE_CAPABILITIES}"
proof -
  have "set (edge_resources s) \<subseteq> {..<NUM_EDGE_RESOURCES}" using assms(1) by (auto simp: edge_info_ok_def edges_ok_def)
  then show ?thesis
    using assms by (intro owned_room [of NUM_EDGE_CAPABILITIES _ _ "caps_of s"]) (auto simp: edge_info_ok_def caps_ok_def)
qed

lemma edges_pool_full:
  assumes "edge_info_ok s" "edge_resources_memb s \<noteq> {..<NUM_EDGE_RESOURCES}"
  shows "edge_resources_memb s \<subset> {..<NUM_EDGE_RESOURCES}"
  using assms by (auto simp: edge_info_ok_def edges_ok_def)

subsection \<open>Removing and adding capabilities\<close>

lemma edge_info_capability_remove_eq:
  assumes "contiki_ok CT" "edge_info_ok s" "e \<in> set (edge_resources s)"
  shows "edge_info_capability_remove CT s e c =
    (c \<in> set (caps_of s e),
     (upd_edge e (\<lambda>r. r\<lparr>capabilities := remove1 c (capabilities r)\<rparr>) s)
       \<lparr>edge_capabilities_memb := edge_capabilities_memb s - (if c \<in> set (caps_of s e) then {c} else {})\<rparr>)"
proof (cases "c \<in> set (caps_of s e)")
  case True
  then have "c \<in> edge_capabilities_memb s" "c < NUM_EDGE_RESOURCES * NUM_EDGE_CAPABILITIES"
    using assms(2,3) by (auto simp: edge_info_ok_def caps_ok_def owned_def)
  with True assms(1) show ?thesis
    by (simp add: edge_info_capability_remove_def edge_capability_free_def contiki_simps caps_of_def)
next
  case False
  with assms(1) show ?thesis
    by (simp add: edge_info_capability_remove_def contiki_simps caps_of_def)
qed

lemma edge_info_capability_remove_ok [inv_intros]:
  assumes "contiki_ok CT" "edge_info_ok s" "e \<in> set (edge_resources s)"
  shows "edge_info_ok (snd (edge_info_capability_remove CT s e c))"
proof -
  have "owned NUM_EDGE_CAPABILITIES (NUM_EDGE_RESOURCES * NUM_EDGE_CAPABILITIES) (set (edge_resources s)) ((caps_of s)(e := remove1 c (caps_of s e)))
      (edge_capabilities_memb s - (if c \<in> set (caps_of s e) then {c} else {}))"
    using assms by (intro owned_remove) (auto simp: edge_info_ok_def caps_ok_def)
  then show ?thesis
    using assms(2) unfolding edge_info_capability_remove_eq [OF assms]
    by (simp add: edge_info_ok_def caps_ok_def caps_of_upd_edge edges_ok_upd_edge flip: caps_of_def)
qed

lemma names_ok_strncpy:
  assumes "names_ok s"
  shows "names_ok (upd_cap c (\<lambda>r. r\<lparr>cap_name := strncpy (cap_name r) name EDGE_CAPABILITY_NAME_LEN, cap_flags := fl\<rparr>) s)"
  using assms by (auto simp: names_ok_def nth_strncpy)

lemma names_ok_tm: "names_ok s \<Longrightarrow> names_ok (upd_cap c (\<lambda>r. r\<lparr>cap_tm := t r\<rparr>) s)"
  by (auto simp: names_ok_def)

lemma cap_name_strncpy:
  assumes "names_ok s"
  shows "cstr (strncpy (cap_name (cap_mem s c)) name EDGE_CAPABILITY_NAME_LEN) = take EDGE_CAPABILITY_NAME_LEN (cstr name)"
  using assms by (intro cstr_strncpy) (auto simp: names_ok_def)

text \<open>
  What an edge with room gets: a fresh block, initialised by the trust model, named and at the
  head of its list.  The search for an inactive capability to evict is never reached.
\<close>

definition with_capability ::
  "('e, 'c) tm_inits \<Rightarrow> ('e, 'c) edge_info \<Rightarrow> addr \<Rightarrow> string \<Rightarrow> addr \<Rightarrow> ('e, 'c) edge_info" where
  "with_capability TM s e name c =
     upd_edge e (\<lambda>r. r\<lparr>capabilities := c # capabilities r\<rparr>)
      (upd_cap c (\<lambda>r. r\<lparr>cap_name := strncpy (cap_name r) name EDGE_CAPABILITY_NAME_LEN, cap_flags := 0\<rparr>)
       (upd_cap c (\<lambda>r. r\<lparr>cap_tm := edge_capability_tm_init TM (cap_tm r)\<rparr>)
        (s\<lparr>edge_capabilities_memb := insert c (edge_capabilities_memb s)\<rparr>)))"

lemma edge_info_capability_add_full:
  "\<lbrakk>edge_info_capability_find s (Some e) name = None; NUM_EDGE_CAPABILITIES \<le> length (caps_of s e)\<rbrakk> \<Longrightarrow>
    edge_info_capability_add CT TM s e name = (None, s)"
  by (simp add: edge_info_capability_add_def edge_capability_new_def caps_of_def)

lemma edge_info_capability_add_room:
  assumes "contiki_ok CT" "edge_info_ok s" "e \<in> set (edge_resources s)"
    "edge_info_capability_find s (Some e) name = None" "length (caps_of s e) < NUM_EDGE_CAPABILITIES"
  shows "\<exists>c. edge_info_capability_add CT TM s e name = (Some c, with_capability TM s e name c) \<and>
    c \<notin> edge_capabilities_memb s \<and> c < NUM_EDGE_RESOURCES * NUM_EDGE_CAPABILITIES"
proof -
  let ?n = "NUM_EDGE_RESOURCES * NUM_EDGE_CAPABILITIES"
  obtain c where c: "memb_alloc CT ?n (edge_capabilities_memb s) = (Some c, insert c (edge_capabilities_memb s))"
      "c < ?n" "c \<notin> edge_capabilities_memb s"
    using memb_alloc_not_full [OF assms(1) caps_pool_card [OF assms(2,3,5)]] by blast
  have "c \<notin> set (caps_of s e)" using c(3) assms(2,3) by (auto simp: edge_info_ok_def caps_ok_def owned_def)
  then have "list_push CT (capabilities (edge_mem s e)) c = c # capabilities (edge_mem s e)"
    by (intro list_push_new assms(1)) (simp add: caps_of_def)
  then have "edge_info_capability_add CT TM s e name = (Some c, with_capability TM s e name c)"
    using assms(4,5) c(1)
    by (simp add: edge_info_capability_add_def edge_capability_new_def with_capability_def caps_of_def
        upd_edge_def upd_cap_def Let_def)
  then show ?thesis using c by blast
qed

lemma with_capability_ok:
  assumes "edge_info_ok s" "e \<in> set (edge_resources s)" "length (caps_of s e) < NUM_EDGE_CAPABILITIES"
    "c \<notin> edge_capabilities_memb s" "c < NUM_EDGE_RESOURCES * NUM_EDGE_CAPABILITIES"
  shows "edge_info_ok (with_capability TM s e name c)"
proof -
  have "owned NUM_EDGE_CAPABILITIES (NUM_EDGE_RESOURCES * NUM_EDGE_CAPABILITIES) (set (edge_resources s)) ((caps_of s)(e := c # caps_of s e)) (insert c (edge_capabilities_memb s))"
    using assms by (intro owned_add) (auto simp: edge_info_ok_def caps_ok_def)
  then have "caps_ok (with_capability TM s e name c)"
    by (simp add: caps_ok_def with_capability_def caps_of_upd_edge flip: caps_of_def)
  moreover have "edges_ok (with_capability TM s e name c)" "names_ok (with_capability TM s e name c)"
    using assms(1) unfolding with_capability_def
    by (simp_all add: edge_info_ok_def edges_ok_upd_edge names_ok_strncpy names_ok_tm)
  ultimately show ?thesis by (simp add: edge_info_ok_def)
qed

lemma edge_info_capability_add_ok [inv_intros]:
  assumes "contiki_ok CT" "edge_info_ok s" "e \<in> set (edge_resources s)"
  shows "edge_info_ok (snd (edge_info_capability_add CT TM s e name))"
proof (cases "edge_info_capability_find s (Some e) name")
  case None
  show ?thesis
  proof (cases "length (caps_of s e) < NUM_EDGE_CAPABILITIES")
    case True
    from edge_info_capability_add_room [OF assms None True]
    show ?thesis using with_capability_ok [OF assms(2,3) True] by (metis snd_conv)
  qed (use assms(2) None in \<open>simp add: edge_info_capability_add_full\<close>)
qed (use assms(2) in \<open>simp add: edge_info_capability_add_def\<close>)

text \<open>The new capability is found under its name when the name fits the buffer.\<close>

lemma find_with_capability:
  assumes "names_ok s" "length (cstr name) \<le> EDGE_CAPABILITY_NAME_LEN"
  shows "edge_info_capability_find (with_capability TM s e name c) (Some e) name = Some c"
proof -
  have "cstr (cap_name (cap_mem (with_capability TM s e name c) c)) = cstr name"
    using assms by (simp add: with_capability_def cap_name_strncpy)
  then show ?thesis by (simp add: edge_info_capability_find_def with_capability_def)
qed

lemma edge_info_capability_clear_caps:
  assumes "contiki_ok CT" "edge_info_ok s" "e \<in> set (edge_resources s)"
  shows "edge_info_ok (edge_info_capability_clear CT s e) \<and> caps_of (edge_info_capability_clear CT s e) e = [] \<and>
    edge_resources (edge_info_capability_clear CT s e) = edge_resources s"
proof -
  have "\<lbrakk>edge_info_ok t; edge_resources t = edge_resources s; caps_of t e = cs\<rbrakk> \<Longrightarrow>
      let t' = fold (\<lambda>c s. snd (edge_info_capability_remove CT s e c)) cs t in
      edge_info_ok t' \<and> caps_of t' e = [] \<and> edge_resources t' = edge_resources s" for t cs
  proof (induction cs arbitrary: t)
    case (Cons c cs)
    let ?t = "snd (edge_info_capability_remove CT t e c)"
    have e: "e \<in> set (edge_resources t)" using Cons.prems assms(3) by simp
    have "caps_of ?t e = cs" "edge_resources ?t = edge_resources t"
      using Cons.prems(3) by (simp_all add: edge_info_capability_remove_eq [OF assms(1) Cons.prems(1) e] caps_of_def)
    then show ?case
      using Cons.IH [of ?t] Cons.prems edge_info_capability_remove_ok [OF assms(1) Cons.prems(1) e] by simp
  qed simp
  from this [OF assms(2) refl refl] show ?thesis by (simp add: edge_info_capability_clear_def Let_def caps_of_def)
qed

subsection \<open>Removing and adding edges\<close>

definition without_edge :: "('e, 'c) edge_info \<Rightarrow> addr \<Rightarrow> ('e, 'c) edge_info" where
  "without_edge s e =
     (upd_edge e (\<lambda>r. r\<lparr>capabilities := []\<rparr>) s)
       \<lparr>edge_resources := remove1 e (edge_resources s),
        edge_resources_memb := edge_resources_memb s - {e},
        edge_capabilities_memb := edge_capabilities_memb s - set (caps_of s e)\<rparr>"

lemma edge_info_remove_absent:
  "\<lbrakk>contiki_ok CT; e \<notin> set (edge_resources s)\<rbrakk> \<Longrightarrow> edge_info_remove CT s e = Some (False, s)"
  by (simp add: edge_info_remove_def contiki_simps remove1_idem)

lemma edge_info_remove_present:
  assumes "contiki_ok CT" "edge_info_ok s" "e \<in> set (edge_resources s)"
  shows "edge_info_remove CT s e = Some (True, without_edge s e)"
proof -
  let ?n = "NUM_EDGE_RESOURCES * NUM_EDGE_CAPABILITIES"
  have caps: "distinct (caps_of s e)" "set (caps_of s e) \<subseteq> edge_capabilities_memb s" "edge_capabilities_memb s \<subseteq> {..<?n}"
    using assms(2,3) by (auto simp: edge_info_ok_def caps_ok_def owned_def)
  have edge: "e \<in> edge_resources_memb s" "e < NUM_EDGE_RESOURCES"
    using assms(2,3) by (auto simp: edge_info_ok_def edges_ok_def)
  note loop = pop_free_loop_ends [OF assms(1) caps]
  show ?thesis
    using assms(1,3) edge loop
    by (simp add: edge_info_remove_def edge_resource_free_def contiki_simps caps_of_def without_edge_def upd_edge_def)
qed

lemma without_edge_ok [inv_intros]:
  assumes "edge_info_ok s" "e \<in> set (edge_resources s)"
  shows "edge_info_ok (without_edge s e)"
proof -
  have "distinct (edge_resources s)" using assms(1) by (simp add: edge_info_ok_def edges_ok_def)
  then have "owned NUM_EDGE_CAPABILITIES (NUM_EDGE_RESOURCES * NUM_EDGE_CAPABILITIES) (set (edge_resources s) - {e}) ((caps_of s)(e := [])) (edge_capabilities_memb s - set (caps_of s e))"
    using assms by (intro owned_del) (auto simp: edge_info_ok_def caps_ok_def)
  then have "caps_ok (without_edge s e)"
    using \<open>distinct (edge_resources s)\<close> by (simp add: caps_ok_def without_edge_def caps_of_upd_edge)
  moreover have "edges_ok (without_edge s e)"
    using assms by (auto simp: edge_info_ok_def edges_ok_def without_edge_def inj_on_def split: if_splits)
  ultimately show ?thesis using assms(1) by (simp add: edge_info_ok_def without_edge_def)
qed

text \<open>The state after a new edge is entered in block \<open>e\<close>.\<close>

definition with_edge :: "contiki \<Rightarrow> ('e, 'c) tm_inits \<Rightarrow> ('e, 'c) edge_info \<Rightarrow> ipaddr \<Rightarrow> addr \<Rightarrow> ('e, 'c) edge_info" where
  "with_edge CT TM s a e =
     upd_edge e (\<lambda>r. r\<lparr>edge_tm := edge_resource_tm_init TM (edge_tm r), capabilities := [],
        ep := (ep r)\<lparr>ipaddr := a, secure := 0, port := coap_default_port CT\<rparr>, edge_flags := 0\<rparr>)
       (s\<lparr>edge_resources_memb := insert e (edge_resources_memb s), edge_resources := e # edge_resources s\<rparr>)"

lemma with_edge_ok:
  assumes "edge_info_ok s" "e \<notin> edge_resources_memb s" "e < NUM_EDGE_RESOURCES" "edge_info_find_addr s a = None"
  shows "edge_info_ok (with_edge CT TM s a e)"
proof -
  have new: "e \<notin> set (edge_resources s)" using assms(1,2) by (simp add: edge_info_ok_def edges_ok_def)
  then have "owned NUM_EDGE_CAPABILITIES (NUM_EDGE_RESOURCES * NUM_EDGE_CAPABILITIES) (insert e (set (edge_resources s))) ((caps_of s)(e := [])) (edge_capabilities_memb s)"
    using assms(1) by (intro owned_new) (auto simp: edge_info_ok_def caps_ok_def)
  then have "caps_ok (with_edge CT TM s a e)"
    by (simp add: caps_ok_def with_edge_def caps_of_upd_edge)
  moreover have "\<forall>f\<in>set (edge_resources s). ipaddr (ep (edge_mem s f)) \<noteq> a"
    using assms(4) by (simp add: edge_info_find_addr_def find_None_iff_Ball)
  then have "edges_ok (with_edge CT TM s a e)"
    using assms(1,3) new by (auto simp: edge_info_ok_def edges_ok_def with_edge_def inj_on_def split: if_splits)
  ultimately show ?thesis using assms(1) by (simp add: edge_info_ok_def with_edge_def)
qed

text \<open>The four outcomes of \<open>edge_info_add\<close>.\<close>

lemma edge_info_add_known:
  "edge_info_find_addr s a = Some e \<Longrightarrow> edge_info_add CT TM s a = Some (Some e, s)"
  by (simp add: edge_info_add_def)

lemma edge_resource_new_free:
  assumes "memb_alloc CT NUM_EDGE_RESOURCES (edge_resources_memb s) = (Some e, insert e (edge_resources_memb s))"
  shows "edge_resource_new CT TM s = Some (Some e,
    upd_edge e (\<lambda>r. r\<lparr>edge_tm := edge_resource_tm_init TM (edge_tm r), capabilities := []\<rparr>)
      (s\<lparr>edge_resources_memb := insert e (edge_resources_memb s)\<rparr>))"
  using assms by (simp add: edge_resource_new_def upd_edge_def)

lemma edge_info_add_room:
  assumes "contiki_ok CT" "edge_info_ok s" "edge_info_find_addr s a = None"
    "edge_resources_memb s \<noteq> {..<NUM_EDGE_RESOURCES}"
  shows "\<exists>e. edge_info_add CT TM s a = Some (Some e, with_edge CT TM s a e) \<and>
    e \<notin> edge_resources_memb s \<and> e < NUM_EDGE_RESOURCES"
proof -
  obtain e where e: "memb_alloc CT NUM_EDGE_RESOURCES (edge_resources_memb s) = (Some e, insert e (edge_resources_memb s))"
      "e < NUM_EDGE_RESOURCES" "e \<notin> edge_resources_memb s"
    using memb_alloc_not_full [OF assms(1) edges_pool_full [OF assms(2,4)]] by blast
  then have "e \<notin> set (edge_resources s)" using assms(2) by (simp add: edge_info_ok_def edges_ok_def)
  then have "edge_info_add CT TM s a = Some (Some e, with_edge CT TM s a e)"
    using assms(1,3)
    by (simp add: edge_info_add_def edge_resource_new_free [OF e(1)] contiki_simps with_edge_def upd_edge_def)
  then show ?thesis using e by blast
qed

lemma edge_resource_new_full:
  assumes "contiki_ok CT" "edge_info_ok s" "edge_resources_memb s = {..<NUM_EDGE_RESOURCES}"
  shows "edge_resource_new CT TM s =
    (case List.find (\<lambda>e. \<not> edge_info_is_active s e) (edge_resources s) of
       None \<Rightarrow> Some (None, s) | Some e \<Rightarrow> edge_resource_new CT TM (without_edge s e))"
proof (cases "List.find (\<lambda>e. \<not> edge_info_is_active s e) (edge_resources s)")
  case None
  have upd: "s\<lparr>edge_resources_memb := {..<NUM_EDGE_RESOURCES}\<rparr> = s" using assms(3) by simp
  from None show ?thesis
    using assms(3) memb_alloc_full [OF assms(1), of NUM_EDGE_RESOURCES]
    unfolding edge_resource_new_def Let_def by (simp add: free_up_edge_resource_def upd)
next
  case (Some e)
  then have e: "e \<in> set (edge_resources s)" using find_SomeD by fast
  have ok: "edge_info_ok (without_edge s e)" by (rule without_edge_ok [OF assms(2) e])
  have "edge_resources_memb (without_edge s e) \<noteq> {..<NUM_EDGE_RESOURCES}"
    using e assms(2,3) by (auto simp: without_edge_def edge_info_ok_def edges_ok_def)
  then obtain f where f: "memb_alloc CT NUM_EDGE_RESOURCES (edge_resources_memb (without_edge s e)) =
      (Some f, insert f (edge_resources_memb (without_edge s e)))"
    using memb_alloc_not_full [OF assms(1) edges_pool_full [OF ok]] by blast
  have upd: "s\<lparr>edge_resources_memb := {..<NUM_EDGE_RESOURCES}\<rparr> = s" using assms(3) by simp
  have "free_up_edge_resource CT s = Some (True, without_edge s e)"
    using Some edge_info_remove_present [OF assms(1,2) e] by (simp add: free_up_edge_resource_def)
  then show ?thesis
    using assms(3) memb_alloc_full [OF assms(1), of NUM_EDGE_RESOURCES] f Some
    unfolding edge_resource_new_def Let_def by (simp add: upd)
qed

lemma edge_info_add_none:
  assumes "contiki_ok CT" "edge_info_ok s" "edge_info_find_addr s a = None"
    "edge_resources_memb s = {..<NUM_EDGE_RESOURCES}" "\<forall>e\<in>set (edge_resources s). edge_info_is_active s e"
  shows "edge_info_add CT TM s a = Some (None, s)"
proof -
  have "List.find (\<lambda>e. \<not> edge_info_is_active s e) (edge_resources s) = None"
    using assms(5) by (simp add: find_None_iff_Ball)
  then show ?thesis using assms(3) edge_resource_new_full [OF assms(1,2,4)] by (simp add: edge_info_add_def)
qed

lemma find_addr_without:
  assumes "edge_info_ok s" "edge_info_find_addr s a = None"
  shows "edge_info_find_addr (without_edge s e) a = None"
  using assms(2) by (auto simp: edge_info_find_addr_def find_None_iff without_edge_def dest: set_remove1_subset [THEN subsetD])

lemma edge_info_add_evict:
  assumes "contiki_ok CT" "edge_info_ok s" "edge_info_find_addr s a = None"
    "edge_resources_memb s = {..<NUM_EDGE_RESOURCES}"
    "List.find (\<lambda>e. \<not> edge_info_is_active s e) (edge_resources s) = Some v"
  shows "edge_info_add CT TM s a = edge_info_add CT TM (without_edge s v) a"
  using assms(3,5) edge_resource_new_full [OF assms(1,2,4)] find_addr_without [OF assms(2,3)]
  by (simp add: edge_info_add_def)

subsection \<open>The table of edges is a registry\<close>

definition edge_entry :: "('e, 'c) edge_info \<Rightarrow> addr \<Rightarrow> 'e edge_resource \<times> 'c edge_capability list" where
  "edge_entry s e = (edge_mem s e, map (cap_mem s) (caps_of s e))"

definition active_edge :: "('e, 'c) edge_info \<Rightarrow> addr \<Rightarrow> bool" where
  "active_edge s e \<longleftrightarrow> e \<in> set (edge_resources s) \<and> edge_info_is_active s e"

lemma find_addr_iff:
  assumes "edge_info_ok s"
  shows "edge_info_find_addr s a = Some e \<longleftrightarrow> e \<in> set (edge_resources s) \<and> ipaddr (ep (edge_mem s e)) = a"
proof
  assume "edge_info_find_addr s a = Some e"
  then show "e \<in> set (edge_resources s) \<and> ipaddr (ep (edge_mem s e)) = a"
    using find_SomeD unfolding edge_info_find_addr_def by fast
next
  assume e: "e \<in> set (edge_resources s) \<and> ipaddr (ep (edge_mem s e)) = a"
  have "f = e" if "f \<in> set (edge_resources s)" "ipaddr (ep (edge_mem s f)) = a" for f
    using that e assms by (auto simp: edge_info_ok_def edges_ok_def dest: inj_onD)
  then show "edge_info_find_addr s a = Some e" unfolding edge_info_find_addr_def using e by (intro find_unique) auto
qed

lemma with_edge_keeps:
  assumes "f \<in> set (edge_resources s)" "e \<notin> set (edge_resources s)"
  shows "f \<in> set (edge_resources (with_edge CT TM s a e))" "edge_mem (with_edge CT TM s a e) f = edge_mem s f"
    "edge_entry (with_edge CT TM s a e) f = edge_entry s f"
  using assms by (auto simp: with_edge_def edge_entry_def caps_of_def)

lemma without_edge_keeps:
  assumes "f \<in> set (edge_resources s)" "f \<noteq> e"
  shows "f \<in> set (edge_resources (without_edge s e))" "edge_mem (without_edge s e) f = edge_mem s f"
    "edge_entry (without_edge s e) f = edge_entry s f"
  using assms by (auto simp: without_edge_def edge_entry_def caps_of_def)

text \<open>All outcomes of \<open>edge_info_add\<close> in one lemma: \<open>t\<close> is the table after a possible eviction.\<close>

lemma edge_info_add_cases:
  assumes "contiki_ok CT" "edge_info_ok s"
  obtains (known) e where "edge_info_find_addr s a = Some e" "edge_info_add CT TM s a = Some (Some e, s)"
  | (refused) "edge_info_find_addr s a = None" "edge_info_add CT TM s a = Some (None, s)"
      "edge_resources_memb s = {..<NUM_EDGE_RESOURCES}" "\<forall>e\<in>set (edge_resources s). edge_info_is_active s e"
  | (new) e t where "edge_info_find_addr s a = None" "edge_info_add CT TM s a = Some (Some e, with_edge CT TM t a e)"
      "edge_info_ok t" "e \<notin> edge_resources_memb t" "e < NUM_EDGE_RESOURCES" "edge_info_find_addr t a = None"
      "t = s \<or> (\<exists>v\<in>set (edge_resources s). \<not> edge_info_is_active s v \<and> t = without_edge s v \<and>
         edge_resources_memb s = {..<NUM_EDGE_RESOURCES})"
proof (cases "edge_info_find_addr s a")
  case (Some e)
  then show ?thesis using known edge_info_add_known by blast
next
  case None
  show ?thesis
  proof (cases "edge_resources_memb s = {..<NUM_EDGE_RESOURCES}")
    case False
    then show ?thesis using new [OF None] edge_info_add_room [OF assms None False] assms(2) None by blast
  next
    case True
    show ?thesis
    proof (cases "List.find (\<lambda>e. \<not> edge_info_is_active s e) (edge_resources s)")
      case None': None
      then have "\<forall>e\<in>set (edge_resources s). edge_info_is_active s e" by (simp add: find_None_iff_Ball)
      then show ?thesis using refused edge_info_add_none [OF assms None True] None True by blast
    next
      case (Some v)
      then have v: "v \<in> set (edge_resources s)" "\<not> edge_info_is_active s v"
        using find_SomeD by fast+
      let ?t = "without_edge s v"
      have t: "edge_info_ok ?t" "edge_info_find_addr ?t a = None"
        using without_edge_ok [OF assms(2) v(1)] find_addr_without [OF assms(2) None] by auto
      have "edge_resources_memb ?t \<noteq> {..<NUM_EDGE_RESOURCES}"
        using v(1) assms(2) by (auto simp: without_edge_def edge_info_ok_def edges_ok_def)
      from edge_info_add_room [OF assms(1) t this] show ?thesis
        using new [OF None] edge_info_add_evict [OF assms None True Some] t v True by metis
    qed
  qed
qed

lemma new_edge_not_listed:
  "\<lbrakk>edge_info_ok t; e \<notin> edge_resources_memb t\<rbrakk> \<Longrightarrow> e \<notin> set (edge_resources t)"
  by (simp add: edge_info_ok_def edges_ok_def)

lemma edge_info_add_returns:
  assumes "contiki_ok CT" "edge_info_ok s"
  shows "\<exists>r s'. edge_info_add CT TM s a = Some (r, s') \<and> edge_info_ok s'"
  using assms
proof (cases rule: edge_info_add_cases [where a = a and TM = TM, consumes 2])
  case (new e t)
  then show ?thesis using with_edge_ok by blast
qed (use assms(2) in simp_all)

lemma find_addr_with_edge: "edge_info_find_addr (with_edge CT TM t a e) a = Some e"
  by (simp add: edge_info_find_addr_def with_edge_def)

lemma edge_tm_without: "edge_tm (edge_mem (without_edge s v) e) = edge_tm (edge_mem s e)"
  by (simp add: without_edge_def)

lemma with_edge_fresh:
  "\<not> edge_info_is_active (with_edge CT TM t a e) e" "capabilities (edge_mem (with_edge CT TM t a e) e) = []"
  "edge_tm (edge_mem (with_edge CT TM t a e) e) = edge_resource_tm_init TM (edge_tm (edge_mem t e))"
  by (simp_all add: with_edge_def edge_info_is_active_def)

lemma edge_info_add_find:
  assumes "contiki_ok CT" "edge_info_ok s" "edge_info_add CT TM s a = Some (Some e, s')"
  shows "edge_info_find_addr s' a = Some e"
  using assms(1,2)
proof (cases rule: edge_info_add_cases [where a = a and TM = TM, consumes 2])
  case (new f t)
  then show ?thesis using assms(3) find_addr_with_edge by simp
qed (use assms(3) in simp_all)

lemma edge_info_add_keeps_entry:
  assumes "contiki_ok CT" "edge_info_ok s" "edge_info_add CT TM s a = Some (r, s')" "f \<in> set (edge_resources s)"
    "edge_info_is_active s f \<or> edge_resources_memb s \<noteq> {..<NUM_EDGE_RESOURCES}"
  shows "f \<in> set (edge_resources s') \<and> edge_mem s' f = edge_mem s f \<and> edge_entry s' f = edge_entry s f"
  using assms(1,2)
proof (cases rule: edge_info_add_cases [where a = a and TM = TM, consumes 2])
  case (new e t)
  then have t: "f \<in> set (edge_resources t)" "edge_mem t f = edge_mem s f" "edge_entry t f = edge_entry s f"
    using assms(4,5) without_edge_keeps by (metis, metis, metis)
  with new show ?thesis
    using assms(3) with_edge_keeps [OF t(1) new_edge_not_listed [OF new(3,4)]] by simp
qed (use assms(3,4) in simp_all)

lemma edge_info_add_refused:
  assumes "contiki_ok CT" "edge_info_ok s" "edge_info_add CT TM s a = Some (None, s')"
  shows "s' = s"
  using assms(1,2)
  by (cases rule: edge_info_add_cases [where a = a and TM = TM, consumes 2]) (use assms(3) in simp_all)

interpretation edges: registry "\<lambda>s. contiki_ok CT \<and> edge_info_ok s" edge_info_find_addr
  "edge_info_add CT TM" active_edge edge_entry for CT TM
proof unfold_locales
  fix s :: "('a, 'b) edge_info" and k r s' k' e
  assume ok: "contiki_ok CT \<and> edge_info_ok s" and add: "edge_info_add CT TM s k = Some (r, s')"
    and e: "edge_info_find_addr s k' = Some e" and act: "active_edge s e"
  then have k: "e \<in> set (edge_resources s') \<and> edge_mem s' e = edge_mem s e \<and> edge_entry s' e = edge_entry s e"
    using edge_info_add_keeps_entry [of CT s TM k r s' e] by (auto simp: active_edge_def)
  have "edge_info_ok s'" using ok add edge_info_add_returns [of CT s TM k] by auto
  then show "edge_info_find_addr s' k' = Some e \<and> active_edge s' e \<and> edge_entry s' e = edge_entry s e"
    using k e act ok find_addr_iff [of s k' e] find_addr_iff [of s' k' e] by (auto simp: active_edge_def edge_info_is_active_def)
qed (use edge_info_add_returns edge_info_add_find edge_info_add_known edge_info_add_refused in metis)+

subsection \<open>Properties\<close>

text \<open>Example tables: no edge yet, and one active edge in block 2 with the capability \<open>routing\<close> in block 5.\<close>

definition unit_inits :: "(unit, unit) tm_inits" where
  "unit_inits = \<lparr>edge_resource_tm_init = (\<lambda>x. x), edge_capability_tm_init = (\<lambda>x. x)\<rparr>"

definition no_edges :: "(unit, unit) edge_info" where
  "no_edges = \<lparr>edge_resources_memb = {}, edge_capabilities_memb = {}, edge_resources = [],
     edge_mem = (\<lambda>_. \<lparr>ep = \<lparr>ipaddr = [], secure = 0, port = 0\<rparr>, edge_flags = 0, edge_tm = (), capabilities = []\<rparr>),
     cap_mem = (\<lambda>_. \<lparr>cap_name = replicate 16 NUL, cap_flags = 0, cap_tm = ()\<rparr>)\<rparr>"

definition one_edge :: "(unit, unit) edge_info" where
  "one_edge = no_edges\<lparr>edge_resources_memb := {2}, edge_capabilities_memb := {5}, edge_resources := [2],
     edge_mem := (edge_mem no_edges)(2 :=
       \<lparr>ep = \<lparr>ipaddr = [253], secure = 0, port = 5683\<rparr>, edge_flags = 1, edge_tm = (), capabilities = [5]\<rparr>),
     cap_mem := (cap_mem no_edges)(5 := \<lparr>cap_name = strncpy (replicate 16 NUL) ''routing'' 15, cap_flags = 1, cap_tm = ()\<rparr>)\<rparr>"

lemma NUM_simps: "NUM_EDGE_RESOURCES = 4" "NUM_EDGE_CAPABILITIES = 3" "EDGE_CAPABILITY_NAME_LEN = 15"
  by (simp_all add: NUM_EDGE_RESOURCES_def NUM_EDGE_CAPABILITIES_def EDGE_CAPABILITY_NAME_LEN_def)

lemma no_edges_ok: "edge_info_ok no_edges"
  by (simp add: edge_info_ok_def edges_ok_def caps_ok_def owned_def names_ok_def no_edges_def NUM_simps)

lemma one_edge_ok: "edge_info_ok one_edge"
  by (simp add: edge_info_ok_def edges_ok_def caps_ok_def owned_def names_ok_def one_edge_def no_edges_def
      NUM_simps caps_of_def nth_strncpy)

text \<open>
  C32: adding an edge always returns and keeps the table well formed.  A known address gives its
  existing entry and changes nothing.  Otherwise the result is a block that was not listed
  for the address, inactive, with no capabilities and with a trust record initialised by the
  trust model; or it is NULL, with nothing changed, and then all the blocks are taken by active edges.
\<close>

theorem edge_info_add_spec:
  assumes "contiki_ok CT" "edge_info_ok s"
  shows "\<exists>r s'. edge_info_add CT TM s a = Some (r, s') \<and> edge_info_ok s' \<and>
    (case r of
       None \<Rightarrow> s' = s \<and> edge_info_count s = NUM_EDGE_RESOURCES \<and> (\<forall>e\<in>set (edge_resources s). edge_info_is_active s e)
     | Some e \<Rightarrow> edge_info_find_addr s' a = Some e \<and>
         (if edge_info_find_addr s a = Some e then s' = s
          else \<not> edge_info_is_active s' e \<and> capabilities (edge_mem s' e) = [] \<and>
            edge_tm (edge_mem s' e) = edge_resource_tm_init TM (edge_tm (edge_mem s e)) \<and>
            \<not> (e \<in> set (edge_resources s) \<and> edge_info_is_active s e)))"
  using assms
proof (cases rule: edge_info_add_cases [where a = a and TM = TM, consumes 2])
  case (known e)
  then show ?thesis using assms(2) by simp
next
  case refused
  then have "edge_info_count s = NUM_EDGE_RESOURCES"
    using assms(2) distinct_card [of "edge_resources s"] card_lessThan [of NUM_EDGE_RESOURCES]
    by (simp add: edge_info_count_def edge_info_ok_def edges_ok_def)
  then show ?thesis using refused assms(2) by simp
next
  case (new e t)
  let ?s = "with_edge CT TM t a e"
  have tm: "edge_tm (edge_mem t e) = edge_tm (edge_mem s e)" using new(7) edge_tm_without by metis
  have old: "\<not> (e \<in> set (edge_resources s) \<and> edge_info_is_active s e)"
  proof
    assume e: "e \<in> set (edge_resources s) \<and> edge_info_is_active s e"
    with new(7) have "e \<in> set (edge_resources t)" using without_edge_keeps(1) by metis
    with new_edge_not_listed [OF new(3,4)] show False ..
  qed
  have ok: "edge_info_ok ?s" by (rule with_edge_ok [OF new(3-6)])
  show ?thesis
    using with_edge_fresh [of CT TM t a e] find_addr_with_edge [of CT TM t a e]
    by (intro exI [of _ "Some e"] exI [of _ ?s]) (simp only: new(1,2) tm old ok option.simps if_False simp_thms)
qed

theorem edge_info_add_spec_witness:
  "\<exists>r s'. edge_info_add ref_contiki unit_inits no_edges [253] = Some (r, s') \<and> edge_info_ok s' \<and> r \<noteq> None"
proof -
  have "edge_info_count no_edges \<noteq> NUM_EDGE_RESOURCES" by (simp add: edge_info_count_def no_edges_def NUM_simps)
  then show ?thesis
    using edge_info_add_spec [OF ref_contiki_ok no_edges_ok, of unit_inits "[253]"] by (auto split: option.splits)
qed

text \<open>
  Whatever sequence of edges is added, an active edge stays in its block, is found under its
  address, and its record and the records of its capabilities are unchanged.
\<close>

theorem edge_info_add_never_evicts_active:
  assumes "contiki_ok CT" "edge_info_ok s" "edge_info_find_addr s a = Some e" "edge_info_is_active s e"
  shows "\<exists>s'. add_seq (edge_info_add CT TM) s as = Some s' \<and> edge_info_ok s' \<and>
    edge_info_find_addr s' a = Some e \<and> edge_info_is_active s' e \<and> edge_entry s' e = edge_entry s e"
proof -
  have "active_edge s e" using assms find_addr_iff by (auto simp: active_edge_def)
  then show ?thesis using edges.add_seq_kept [of CT s a e TM as] assms(1,2,3) by (auto simp: active_edge_def)
qed

theorem edge_info_add_never_evicts_active_witness:
  "\<exists>s'. add_seq (edge_info_add ref_contiki unit_inits) one_edge [[1], [2], [3], [4], [5]] = Some s' \<and> edge_info_ok s' \<and>
    edge_info_find_addr s' [253] = Some 2 \<and> edge_info_is_active s' 2 \<and> edge_entry s' 2 = edge_entry one_edge 2"
  by (rule edge_info_add_never_evicts_active [OF ref_contiki_ok one_edge_ok])
    (simp_all add: one_edge_def edge_info_find_addr_def edge_info_is_active_def EDGE_RESOURCE_ACTIVE_def)

text \<open>
  A listed edge gets a capability it does not have exactly when it has fewer than three: the
  shared pool never runs out first, nothing is evicted, the table stays well formed, and the
  new capability is found under its name when the name fits into fifteen characters.
\<close>

theorem edge_info_capability_add_spec:
  assumes "contiki_ok CT" "edge_info_ok s" "e \<in> set (edge_resources s)"
    "edge_info_capability_find s (Some e) name = None"
  shows "case edge_info_capability_add CT TM s e name of (r, s') \<Rightarrow>
    edge_info_ok s' \<and> (r = None \<longleftrightarrow> length (capabilities (edge_mem s e)) = NUM_EDGE_CAPABILITIES) \<and>
    (case r of None \<Rightarrow> s' = s
     | Some c \<Rightarrow> capabilities (edge_mem s' e) = c # capabilities (edge_mem s e) \<and> c \<notin> edge_capabilities_memb s \<and>
         \<not> edge_capability_is_active s' c \<and>
         (length (cstr name) \<le> EDGE_CAPABILITY_NAME_LEN \<longrightarrow> edge_info_capability_find s' (Some e) name = Some c))"
proof (cases "length (caps_of s e) < NUM_EDGE_CAPABILITIES")
  case True
  from edge_info_capability_add_room [OF assms(1-4) True, of TM]
  obtain c where c: "edge_info_capability_add CT TM s e name = (Some c, with_capability TM s e name c)"
    "c \<notin> edge_capabilities_memb s" "c < NUM_EDGE_RESOURCES * NUM_EDGE_CAPABILITIES" by blast
  have n: "names_ok s" using assms(2) by (simp add: edge_info_ok_def)
  show ?thesis
    using c True with_capability_ok [OF assms(2,3) True c(2,3)] find_with_capability [OF n]
    by (auto simp: with_capability_def caps_of_def edge_capability_is_active_def)
next
  case False
  then have "length (capabilities (edge_mem s e)) = NUM_EDGE_CAPABILITIES"
    using assms(2,3) by (auto simp: edge_info_ok_def caps_ok_def owned_def caps_of_def)
  then show ?thesis
    using False assms(2) edge_info_capability_add_full [OF assms(4), of CT TM] by simp
qed

theorem edge_info_capability_add_spec_witness:
  "case edge_info_capability_add ref_contiki unit_inits one_edge 2 ''cr'' of (r, s') \<Rightarrow>
    edge_info_ok s' \<and> (\<exists>c. r = Some c \<and> edge_info_capability_find s' (Some 2) ''cr'' = Some c)"
proof -
  have "edge_info_capability_find one_edge (Some 2) ''cr'' = None"
    by (simp add: edge_info_capability_find_def one_edge_def strncpy_def cstr_def NUL_def)
  moreover have "2 \<in> set (edge_resources one_edge)" "length (capabilities (edge_mem one_edge 2)) = 1"
    by (simp_all add: one_edge_def)
  ultimately show ?thesis
    using edge_info_capability_add_spec [OF ref_contiki_ok one_edge_ok, of 2 "''cr''" unit_inits]
    by (auto simp: NUM_simps cstr_def NUL_def split: prod.splits option.splits)
qed

text \<open>
  Removing a listed edge returns true, takes it out of the table, gives back its block and
  the blocks of its capabilities, and leaves every other edge as it was.
\<close>

theorem edge_info_remove_spec:
  assumes "contiki_ok CT" "edge_info_ok s" "e \<in> set (edge_resources s)"
  shows "\<exists>s'. edge_info_remove CT s e = Some (True, s') \<and> edge_info_ok s' \<and>
    set (edge_resources s') = set (edge_resources s) - {e} \<and>
    edge_resources_memb s' = edge_resources_memb s - {e} \<and>
    edge_capabilities_memb s' = edge_capabilities_memb s - set (capabilities (edge_mem s e)) \<and>
    (\<forall>f\<in>set (edge_resources s'). edge_entry s' f = edge_entry s f)"
proof -
  have "distinct (edge_resources s)" using assms(2) by (simp add: edge_info_ok_def edges_ok_def)
  then have "set (edge_resources (without_edge s e)) = set (edge_resources s) - {e}" by (simp add: without_edge_def)
  moreover have "edge_entry (without_edge s e) f = edge_entry s f" if "f \<in> set (edge_resources s) - {e}" for f
    using that by (auto intro: without_edge_keeps(3))
  moreover have "edge_resources_memb (without_edge s e) = edge_resources_memb s - {e}"
      "edge_capabilities_memb (without_edge s e) = edge_capabilities_memb s - set (capabilities (edge_mem s e))"
    by (simp_all add: without_edge_def caps_of_def)
  ultimately show ?thesis
    using edge_info_remove_present [OF assms] without_edge_ok [OF assms(2,3)] by simp
qed

theorem edge_info_remove_spec_witness:
  "\<exists>s'. edge_info_remove ref_contiki one_edge 2 = Some (True, s') \<and> edge_info_ok s' \<and> edge_capabilities_memb s' = {}"
proof -
  have "2 \<in> set (edge_resources one_edge)" "edge_capabilities_memb one_edge - set (capabilities (edge_mem one_edge 2)) = {}"
    by (simp_all add: one_edge_def)
  then show ?thesis using edge_info_remove_spec [OF ref_contiki_ok one_edge_ok, of 2] by auto
qed

end
