(* ===== verification/Peer_Info.thy ===== *)
theory Peer_Info
  imports Edge_Info
begin

text \<open>
  \<open>src/wsn/common/trust/peer-info.{h,c}\<close>: what other nodes reported about edges and their capabilities.
  Three pools: peers, a peer's records on edges, and the records on the capabilities of those.  The
  trust model's structures are the type parameters \<open>'p\<close>, \<open>'e\<close> and \<open>'c\<close>; \<open>peer_tm_init\<close> is
  an argument.  The build without \<open>TRUST_MODEL_NO_PEER_PROVIDED\<close> is modelled.
\<close>

definition NUM_PEERS :: nat where "NUM_PEERS = 8"

definition PEER_LAST_SEEN_INVALID :: u32 where "PEER_LAST_SEEN_INVALID = - 1"

record 'c peer_edge_capability =
  pc_cap :: addr
  pc_tm :: 'c

record 'e peer_edge =
  pe_edge :: addr
  pe_tm :: 'e
  pe_capabilities :: "addr list"

record 'p peer =
  peer_addr :: ipaddr
  last_seen :: u32
  peer_tm :: 'p
  peer_edges :: "addr list"

record ('p, 'e, 'c) peer_info =
  peers_memb :: "addr set"
  peer_edges_memb :: "addr set"
  peer_capabilities_memb :: "addr set"
  peers :: "addr list"
  peer_mem :: "addr \<Rightarrow> 'p peer"
  pedge_mem :: "addr \<Rightarrow> 'e peer_edge"
  pcap_mem :: "addr \<Rightarrow> 'c peer_edge_capability"

definition upd_peer :: "addr \<Rightarrow> ('p peer \<Rightarrow> 'p peer) \<Rightarrow> ('p, 'e, 'c) peer_info \<Rightarrow> ('p, 'e, 'c) peer_info" where
  "upd_peer p f s = s\<lparr>peer_mem := (peer_mem s)(p := f (peer_mem s p))\<rparr>"

definition upd_pedge :: "addr \<Rightarrow> ('e peer_edge \<Rightarrow> 'e peer_edge) \<Rightarrow> ('p, 'e, 'c) peer_info \<Rightarrow> ('p, 'e, 'c) peer_info" where
  "upd_pedge e f s = s\<lparr>pedge_mem := (pedge_mem s)(e := f (pedge_mem s e))\<rparr>"

definition upd_pcap ::
  "addr \<Rightarrow> ('c peer_edge_capability \<Rightarrow> 'c peer_edge_capability) \<Rightarrow> ('p, 'e, 'c) peer_info \<Rightarrow> ('p, 'e, 'c) peer_info" where
  "upd_pcap c f s = s\<lparr>pcap_mem := (pcap_mem s)(c := f (pcap_mem s c))\<rparr>"

definition peer_capability_free :: "contiki \<Rightarrow> addr \<Rightarrow> ('p, 'e, 'c) peer_info \<Rightarrow> ('p, 'e, 'c) peer_info" where
  "peer_capability_free CT c s = s\<lparr>peer_capabilities_memb :=
     snd (memb_free CT (NUM_PEERS * NUM_EDGE_RESOURCES * NUM_EDGE_CAPABILITIES) (peer_capabilities_memb s) c)\<rparr>"

definition peer_edge_free :: "contiki \<Rightarrow> addr \<Rightarrow> ('p, 'e, 'c) peer_info \<Rightarrow> ('p, 'e, 'c) peer_info" where
  "peer_edge_free CT pe s =
     (let s = fold (peer_capability_free CT) (pe_capabilities (pedge_mem s pe)) s
      in s\<lparr>peer_edges_memb := snd (memb_free CT (NUM_PEERS * NUM_EDGE_RESOURCES) (peer_edges_memb s) pe)\<rparr>)"

definition peer_new ::
  "contiki \<Rightarrow> ('p \<Rightarrow> 'p) \<Rightarrow> ('p, 'e, 'c) peer_info \<Rightarrow> addr option \<times> ('p, 'e, 'c) peer_info" where
  "peer_new CT peer_tm_init s =
     (case memb_alloc CT NUM_PEERS (peers_memb s) of
        (None, used) \<Rightarrow> (None, s\<lparr>peers_memb := used\<rparr>)
      | (Some p, used) \<Rightarrow>
          (Some p, upd_peer p (\<lambda>r. r\<lparr>peer_tm := peer_tm_init (peer_tm r), peer_edges := []\<rparr>) (s\<lparr>peers_memb := used\<rparr>)))"

definition peer_free :: "contiki \<Rightarrow> addr \<Rightarrow> ('p, 'e, 'c) peer_info \<Rightarrow> ('p, 'e, 'c) peer_info" where
  "peer_free CT p s =
     (let s = fold (peer_edge_free CT) (peer_edges (peer_mem s p)) s
      in s\<lparr>peers_memb := snd (memb_free CT NUM_PEERS (peers_memb s) p)\<rparr>)"

definition peer_info_init :: "('p, 'e, 'c) peer_info \<Rightarrow> ('p, 'e, 'c) peer_info" where
  "peer_info_init s = s\<lparr>peers_memb := {}, peer_edges_memb := {}, peer_capabilities_memb := {}, peers := []\<rparr>"

definition peer_info_free_up_space :: "('p, 'e, 'c) peer_info \<Rightarrow> bool \<times> ('p, 'e, 'c) peer_info" where
  "peer_info_free_up_space s = (False, s)"

definition peer_info_iter :: "('p, 'e, 'c) peer_info \<Rightarrow> addr option" where
  "peer_info_iter s = (case peers s of [] \<Rightarrow> None | p # _ \<Rightarrow> Some p)"

definition peer_info_next :: "('p, 'e, 'c) peer_info \<Rightarrow> addr \<Rightarrow> addr option" where
  "peer_info_next s p = (case dropWhile (\<lambda>x. x \<noteq> p) (peers s) of _ # n # _ \<Rightarrow> Some n | _ \<Rightarrow> None)"

definition peer_info_find :: "('p, 'e, 'c) peer_info \<Rightarrow> ipaddr \<Rightarrow> addr option" where
  "peer_info_find s a = List.find (\<lambda>p. peer_addr (peer_mem s p) = a) (peers s)"

definition peer_info_add ::
  "contiki \<Rightarrow> ('p \<Rightarrow> 'p) \<Rightarrow> ('p, 'e, 'c) peer_info \<Rightarrow> ipaddr \<Rightarrow> addr option \<times> ('p, 'e, 'c) peer_info" where
  "peer_info_add CT peer_tm_init s a =
     (case peer_info_find s a of
        Some p \<Rightarrow> (Some p, s)
      | None \<Rightarrow>
          let (peer, s) = (case peer_new CT peer_tm_init s of
                (Some p, s) \<Rightarrow> (Some p, s)
              | (None, s) \<Rightarrow>
                  let (freed, s) = peer_info_free_up_space s
                  in if \<not> freed then (None, s) else peer_new CT peer_tm_init s)
          in case peer of
               None \<Rightarrow> (None, s)
             | Some p \<Rightarrow>
                 let s = upd_peer p (\<lambda>r. r\<lparr>peer_addr := a, last_seen := PEER_LAST_SEEN_INVALID\<rparr>) s
                 in (Some p, s\<lparr>peers := list_push CT (peers s) p\<rparr>))"

definition peer_info_remove :: "contiki \<Rightarrow> ('p, 'e, 'c) peer_info \<Rightarrow> addr \<Rightarrow> ('p, 'e, 'c) peer_info" where
  "peer_info_remove CT s p = peer_free CT p (s\<lparr>peers := snd (list_remove CT (peers s) p)\<rparr>)"

definition peer_info_remove_edges :: "contiki \<Rightarrow> ('p, 'e, 'c) peer_info \<Rightarrow> addr \<Rightarrow> ('p, 'e, 'c) peer_info" where
  "peer_info_remove_edges CT s edge =
     fold (\<lambda>p s. fold (\<lambda>pe s. if pe_edge (pedge_mem s pe) = edge then peer_edge_free CT pe s else s)
             (peer_edges (peer_mem s p)) s) (peers s) s"

definition peer_info_find_edge :: "('p, 'e, 'c) peer_info \<Rightarrow> addr \<Rightarrow> addr \<Rightarrow> addr option" where
  "peer_info_find_edge s p edge = List.find (\<lambda>pe. pe_edge (pedge_mem s pe) = edge) (peer_edges (peer_mem s p))"

definition peer_info_find_edge_or_allocate ::
  "contiki \<Rightarrow> ('p, 'e, 'c) peer_info \<Rightarrow> addr \<Rightarrow> addr \<Rightarrow> addr option \<times> ('p, 'e, 'c) peer_info" where
  "peer_info_find_edge_or_allocate CT s p edge =
     (case peer_info_find_edge s p edge of
        Some pe \<Rightarrow> (Some pe, s)
      | None \<Rightarrow>
          if NUM_EDGE_RESOURCES \<le> length (peer_edges (peer_mem s p)) then (None, s)
          else case memb_alloc CT (NUM_PEERS * NUM_EDGE_RESOURCES) (peer_edges_memb s) of
                 (None, used) \<Rightarrow> (None, s\<lparr>peer_edges_memb := used\<rparr>)
               | (Some pe, used) \<Rightarrow>
                   let s = upd_pedge pe (\<lambda>r. r\<lparr>pe_capabilities := [], pe_edge := edge\<rparr>) (s\<lparr>peer_edges_memb := used\<rparr>)
                   in (Some pe, upd_peer p (\<lambda>r. r\<lparr>peer_edges := list_push CT (peer_edges r) pe\<rparr>) s))"

definition peer_info_find_capability :: "('p, 'e, 'c) peer_info \<Rightarrow> addr \<Rightarrow> addr \<Rightarrow> addr option" where
  "peer_info_find_capability s pe cap = List.find (\<lambda>pc. pc_cap (pcap_mem s pc) = cap) (pe_capabilities (pedge_mem s pe))"

definition peer_info_find_capability_or_allocate ::
  "contiki \<Rightarrow> ('p, 'e, 'c) peer_info \<Rightarrow> addr \<Rightarrow> addr \<Rightarrow> addr option \<times> ('p, 'e, 'c) peer_info" where
  "peer_info_find_capability_or_allocate CT s pe cap =
     (case peer_info_find_capability s pe cap of
        Some pc \<Rightarrow> (Some pc, s)
      | None \<Rightarrow>
          if NUM_EDGE_CAPABILITIES \<le> length (pe_capabilities (pedge_mem s pe)) then (None, s)
          else case memb_alloc CT (NUM_PEERS * NUM_EDGE_RESOURCES * NUM_EDGE_CAPABILITIES) (peer_capabilities_memb s) of
                 (None, used) \<Rightarrow> (None, s\<lparr>peer_capabilities_memb := used\<rparr>)
               | (Some pc, used) \<Rightarrow>
                   let s = upd_pcap pc (\<lambda>r. r\<lparr>pc_cap := cap\<rparr>) (s\<lparr>peer_capabilities_memb := used\<rparr>)
                   in (Some pc, upd_pedge pe (\<lambda>r. r\<lparr>pe_capabilities := list_push CT (pe_capabilities r) pc\<rparr>) s))"

definition peer_info_update_edge ::
  "contiki \<Rightarrow> ('p, 'e, 'c) peer_info \<Rightarrow> addr \<Rightarrow> addr \<Rightarrow> 'e \<Rightarrow> bool \<times> ('p, 'e, 'c) peer_info" where
  "peer_info_update_edge CT s p edge tm =
     (case peer_info_find_edge_or_allocate CT s p edge of
        (None, s) \<Rightarrow> (False, s)
      | (Some pe, s) \<Rightarrow> (True, upd_pedge pe (\<lambda>r. r\<lparr>pe_tm := tm\<rparr>) s))"

definition peer_info_update_capability ::
  "contiki \<Rightarrow> ('p, 'e, 'c) peer_info \<Rightarrow> addr \<Rightarrow> addr \<Rightarrow> addr \<Rightarrow> 'c \<Rightarrow> bool \<times> ('p, 'e, 'c) peer_info" where
  "peer_info_update_capability CT s p edge cap tm =
     (case peer_info_find_edge_or_allocate CT s p edge of
        (None, s) \<Rightarrow> (False, s)
      | (Some pe, s) \<Rightarrow>
          (case peer_info_find_capability_or_allocate CT s pe cap of
             (None, s) \<Rightarrow> (False, s)
           | (Some pc, s) \<Rightarrow> (True, upd_pcap pc (\<lambda>r. r\<lparr>pc_tm := tm\<rparr>) s)))"

subsection \<open>The invariant\<close>

definition edges_of :: "('p, 'e, 'c) peer_info \<Rightarrow> addr \<Rightarrow> addr list" where
  "edges_of s p = peer_edges (peer_mem s p)"

definition pcaps_of :: "('p, 'e, 'c) peer_info \<Rightarrow> addr \<Rightarrow> addr list" where
  "pcaps_of s pe = pe_capabilities (pedge_mem s pe)"

definition peers_ok :: "('p, 'e, 'c) peer_info \<Rightarrow> bool" where
  "peers_ok s \<longleftrightarrow> distinct (peers s) \<and> peers_memb s = set (peers s) \<and> peers_memb s \<subseteq> {..<NUM_PEERS} \<and>
     inj_on (\<lambda>p. peer_addr (peer_mem s p)) (set (peers s))"

definition pedges_ok :: "('p, 'e, 'c) peer_info \<Rightarrow> bool" where
  "pedges_ok s \<longleftrightarrow>
     owned NUM_EDGE_RESOURCES (NUM_PEERS * NUM_EDGE_RESOURCES) (set (peers s)) (edges_of s) (peer_edges_memb s) \<and>
     (\<forall>p\<in>set (peers s). inj_on (\<lambda>pe. pe_edge (pedge_mem s pe)) (set (edges_of s p)))"

definition pcaps_ok :: "('p, 'e, 'c) peer_info \<Rightarrow> bool" where
  "pcaps_ok s \<longleftrightarrow>
     owned NUM_EDGE_CAPABILITIES (NUM_PEERS * NUM_EDGE_RESOURCES * NUM_EDGE_CAPABILITIES)
       (peer_edges_memb s) (pcaps_of s) (peer_capabilities_memb s) \<and>
     (\<forall>pe\<in>peer_edges_memb s. inj_on (\<lambda>pc. pc_cap (pcap_mem s pc)) (set (pcaps_of s pe)))"

definition peer_info_ok :: "('p, 'e, 'c) peer_info \<Rightarrow> bool" where
  "peer_info_ok s \<longleftrightarrow> peers_ok s \<and> pedges_ok s \<and> pcaps_ok s"

lemma upd_peer_simps [simp]:
  "peer_mem (upd_peer p f s) = (peer_mem s)(p := f (peer_mem s p))" "pedge_mem (upd_peer p f s) = pedge_mem s"
  "pcap_mem (upd_peer p f s) = pcap_mem s" "peers (upd_peer p f s) = peers s" "peers_memb (upd_peer p f s) = peers_memb s"
  "peer_edges_memb (upd_peer p f s) = peer_edges_memb s" "peer_capabilities_memb (upd_peer p f s) = peer_capabilities_memb s"
  by (simp_all add: upd_peer_def)

lemma upd_pedge_simps [simp]:
  "pedge_mem (upd_pedge e g s) = (pedge_mem s)(e := g (pedge_mem s e))" "peer_mem (upd_pedge e g s) = peer_mem s"
  "pcap_mem (upd_pedge e g s) = pcap_mem s" "peers (upd_pedge e g s) = peers s" "peers_memb (upd_pedge e g s) = peers_memb s"
  "peer_edges_memb (upd_pedge e g s) = peer_edges_memb s" "peer_capabilities_memb (upd_pedge e g s) = peer_capabilities_memb s"
  by (simp_all add: upd_pedge_def)

lemma upd_pcap_simps [simp]:
  "pcap_mem (upd_pcap c h s) = (pcap_mem s)(c := h (pcap_mem s c))" "peer_mem (upd_pcap c h s) = peer_mem s"
  "pedge_mem (upd_pcap c h s) = pedge_mem s" "peers (upd_pcap c h s) = peers s" "peers_memb (upd_pcap c h s) = peers_memb s"
  "peer_edges_memb (upd_pcap c h s) = peer_edges_memb s" "peer_capabilities_memb (upd_pcap c h s) = peer_capabilities_memb s"
  by (simp_all add: upd_pcap_def)

lemma peer_info_init_ok [inv_intros]: "peer_info_ok (peer_info_init s)"
  by (simp add: peer_info_ok_def peers_ok_def pedges_ok_def pcaps_ok_def owned_def peer_info_init_def)

lemma peer_blocks:
  assumes "peer_info_ok s"
  shows "set (peers s) \<subseteq> {..<NUM_PEERS}" "peer_edges_memb s \<subseteq> {..<NUM_PEERS * NUM_EDGE_RESOURCES}"
    "p \<in> set (peers s) \<Longrightarrow> set (edges_of s p) \<subseteq> peer_edges_memb s"
  using assms unfolding peer_info_ok_def peers_ok_def pedges_ok_def owned_def by auto

subsection \<open>Records on edges and capabilities\<close>

definition with_pedge :: "('p, 'e, 'c) peer_info \<Rightarrow> addr \<Rightarrow> addr \<Rightarrow> addr \<Rightarrow> ('p, 'e, 'c) peer_info" where
  "with_pedge s p edge pe =
     upd_peer p (\<lambda>r. r\<lparr>peer_edges := pe # peer_edges r\<rparr>)
      (upd_pedge pe (\<lambda>r. r\<lparr>pe_capabilities := [], pe_edge := edge\<rparr>)
        (s\<lparr>peer_edges_memb := insert pe (peer_edges_memb s)\<rparr>))"

lemma find_edge_or_allocate_room:
  assumes "contiki_ok CT" "peer_info_ok s" "p \<in> set (peers s)" "peer_info_find_edge s p edge = None"
    "length (edges_of s p) < NUM_EDGE_RESOURCES"
  shows "\<exists>pe. peer_info_find_edge_or_allocate CT s p edge = (Some pe, with_pedge s p edge pe) \<and>
    pe \<notin> peer_edges_memb s \<and> pe < NUM_PEERS * NUM_EDGE_RESOURCES"
proof -
  let ?n = "NUM_PEERS * NUM_EDGE_RESOURCES"
  have "peer_edges_memb s \<subset> {..<?n}"
    using assms(2,3,5) peer_blocks(1) [OF assms(2)]
    by (intro owned_room [of NUM_EDGE_RESOURCES _ _ "edges_of s"]) (auto simp: peer_info_ok_def pedges_ok_def)
  then obtain pe where pe: "memb_alloc CT ?n (peer_edges_memb s) = (Some pe, insert pe (peer_edges_memb s))"
      "pe < ?n" "pe \<notin> peer_edges_memb s"
    using memb_alloc_not_full [OF assms(1)] by blast
  have "pe \<notin> set (edges_of s p)" using pe(3) peer_blocks(3) [OF assms(2,3)] by blast
  then have "list_push CT (peer_edges (peer_mem s p)) pe = pe # peer_edges (peer_mem s p)"
    by (intro list_push_new assms(1)) (simp add: edges_of_def)
  then have "peer_info_find_edge_or_allocate CT s p edge = (Some pe, with_pedge s p edge pe)"
    using assms(4,5) pe(1)
    by (simp add: peer_info_find_edge_or_allocate_def with_pedge_def edges_of_def upd_peer_def upd_pedge_def)
  then show ?thesis using pe by blast
qed

lemma find_edge_or_allocate_full:
  assumes "peer_info_find_edge s p edge = None" "NUM_EDGE_RESOURCES \<le> length (edges_of s p)"
  shows "peer_info_find_edge_or_allocate CT s p edge = (None, s)"
  using assms by (simp add: peer_info_find_edge_or_allocate_def edges_of_def)

lemma with_pedge_lists:
  "edges_of (with_pedge s p edge pe) = (edges_of s)(p := pe # edges_of s p)"
  "pcaps_of (with_pedge s p edge pe) = (pcaps_of s)(pe := [])"
  by (auto simp: with_pedge_def edges_of_def pcaps_of_def)

lemma with_pedge_fields:
  "peers (with_pedge s p edge pe) = peers s" "peers_memb (with_pedge s p edge pe) = peers_memb s"
  "peer_edges_memb (with_pedge s p edge pe) = insert pe (peer_edges_memb s)"
  "peer_capabilities_memb (with_pedge s p edge pe) = peer_capabilities_memb s"
  "pcap_mem (with_pedge s p edge pe) = pcap_mem s"
  "peer_addr (peer_mem (with_pedge s p edge pe) q) = peer_addr (peer_mem s q)"
  "pe_edge (pedge_mem (with_pedge s p edge pe) x) = (if x = pe then edge else pe_edge (pedge_mem s x))"
  by (simp_all add: with_pedge_def)

lemma with_pedge_ok:
  assumes "peer_info_ok s" "p \<in> set (peers s)" "peer_info_find_edge s p edge = None"
    "length (edges_of s p) < NUM_EDGE_RESOURCES" "pe \<notin> peer_edges_memb s" "pe < NUM_PEERS * NUM_EDGE_RESOURCES"
  shows "peer_info_ok (with_pedge s p edge pe)"
proof -
  let ?t = "with_pedge s p edge pe"
  have ok: "peers_ok s" "pedges_ok s" "pcaps_ok s" using assms(1) by (simp_all add: peer_info_ok_def)
  have "inj_on (\<lambda>x. pe_edge (pedge_mem ?t x)) (set (edges_of ?t q))" if q: "q \<in> set (peers s)" for q
  proof -
    have "inj_on (\<lambda>x. pe_edge (pedge_mem s x)) (set (edges_of s q))" using ok(2) q by (simp add: pedges_ok_def)
    moreover have "pe \<notin> set (edges_of s q)" using peer_blocks(3) [OF assms(1) q] assms(5) by blast
    moreover have "\<forall>x\<in>set (edges_of s p). pe_edge (pedge_mem s x) \<noteq> edge"
      using assms(3) by (simp add: peer_info_find_edge_def find_None_iff_Ball edges_of_def)
    ultimately show ?thesis by (auto simp: with_pedge_lists with_pedge_fields inj_on_def)
  qed
  moreover have "owned NUM_EDGE_RESOURCES (NUM_PEERS * NUM_EDGE_RESOURCES) (set (peers s)) (edges_of s) (peer_edges_memb s)"
    using ok(2) by (simp add: pedges_ok_def)
  from owned_add [OF this assms(2,4,5,6)] have "owned NUM_EDGE_RESOURCES (NUM_PEERS * NUM_EDGE_RESOURCES)
      (set (peers ?t)) (edges_of ?t) (peer_edges_memb ?t)"
    by (simp only: with_pedge_lists with_pedge_fields)
  ultimately have "pedges_ok ?t" unfolding pedges_ok_def by (simp only: with_pedge_fields) blast
  moreover have "pcaps_ok ?t"
  proof -
    from ok(3) have "owned NUM_EDGE_CAPABILITIES (NUM_PEERS * NUM_EDGE_RESOURCES * NUM_EDGE_CAPABILITIES)
        (peer_edges_memb s) (pcaps_of s) (peer_capabilities_memb s)" by (simp add: pcaps_ok_def)
    from owned_new [OF this assms(5)] show ?thesis
      using ok(3) assms(5) unfolding pcaps_ok_def with_pedge_lists with_pedge_fields by auto
  qed
  moreover have "peers_ok ?t" using ok(1) unfolding peers_ok_def with_pedge_fields .
  ultimately show ?thesis by (simp add: peer_info_ok_def)
qed

definition with_pcap :: "('p, 'e, 'c) peer_info \<Rightarrow> addr \<Rightarrow> addr \<Rightarrow> addr \<Rightarrow> ('p, 'e, 'c) peer_info" where
  "with_pcap s pe cap pc =
     upd_pedge pe (\<lambda>r. r\<lparr>pe_capabilities := pc # pe_capabilities r\<rparr>)
      (upd_pcap pc (\<lambda>r. r\<lparr>pc_cap := cap\<rparr>) (s\<lparr>peer_capabilities_memb := insert pc (peer_capabilities_memb s)\<rparr>))"

lemma find_capability_or_allocate_room:
  assumes "contiki_ok CT" "peer_info_ok s" "pe \<in> peer_edges_memb s" "peer_info_find_capability s pe cap = None"
    "length (pcaps_of s pe) < NUM_EDGE_CAPABILITIES"
  shows "\<exists>pc. peer_info_find_capability_or_allocate CT s pe cap = (Some pc, with_pcap s pe cap pc) \<and>
    pc \<notin> peer_capabilities_memb s \<and> pc < NUM_PEERS * NUM_EDGE_RESOURCES * NUM_EDGE_CAPABILITIES"
proof -
  let ?n = "NUM_PEERS * NUM_EDGE_RESOURCES * NUM_EDGE_CAPABILITIES"
  have own: "owned NUM_EDGE_CAPABILITIES ?n (peer_edges_memb s) (pcaps_of s) (peer_capabilities_memb s)"
    using assms(2) by (simp add: peer_info_ok_def pcaps_ok_def)
  have "peer_capabilities_memb s \<subset> {..<?n}"
    by (rule owned_room [OF own peer_blocks(2) [OF assms(2)] assms(3,5)])
  then obtain pc where pc: "memb_alloc CT ?n (peer_capabilities_memb s) = (Some pc, insert pc (peer_capabilities_memb s))"
      "pc < ?n" "pc \<notin> peer_capabilities_memb s"
    using memb_alloc_not_full [OF assms(1)] by blast
  have "pc \<notin> set (pcaps_of s pe)" using pc(3) owned_in [OF own assms(3)] by blast
  then have "list_push CT (pe_capabilities (pedge_mem s pe)) pc = pc # pe_capabilities (pedge_mem s pe)"
    by (intro list_push_new assms(1)) (simp add: pcaps_of_def)
  then have "peer_info_find_capability_or_allocate CT s pe cap = (Some pc, with_pcap s pe cap pc)"
    using assms(4,5) pc(1)
    by (simp add: peer_info_find_capability_or_allocate_def with_pcap_def pcaps_of_def upd_pcap_def upd_pedge_def)
  then show ?thesis using pc by blast
qed

lemma find_capability_or_allocate_full:
  assumes "peer_info_find_capability s pe cap = None" "NUM_EDGE_CAPABILITIES \<le> length (pcaps_of s pe)"
  shows "peer_info_find_capability_or_allocate CT s pe cap = (None, s)"
  using assms by (simp add: peer_info_find_capability_or_allocate_def pcaps_of_def)

lemma with_pcap_lists:
  "edges_of (with_pcap s pe cap pc) = edges_of s"
  "pcaps_of (with_pcap s pe cap pc) = (pcaps_of s)(pe := pc # pcaps_of s pe)"
  by (auto simp: with_pcap_def edges_of_def pcaps_of_def)

lemma with_pcap_fields:
  "peers (with_pcap s pe cap pc) = peers s" "peers_memb (with_pcap s pe cap pc) = peers_memb s"
  "peer_edges_memb (with_pcap s pe cap pc) = peer_edges_memb s"
  "peer_capabilities_memb (with_pcap s pe cap pc) = insert pc (peer_capabilities_memb s)"
  "peer_mem (with_pcap s pe cap pc) = peer_mem s"
  "pe_edge (pedge_mem (with_pcap s pe cap pc) x) = pe_edge (pedge_mem s x)"
  "pc_cap (pcap_mem (with_pcap s pe cap pc) y) = (if y = pc then cap else pc_cap (pcap_mem s y))"
  by (simp_all add: with_pcap_def)

lemma with_pcap_ok:
  assumes "peer_info_ok s" "pe \<in> peer_edges_memb s" "peer_info_find_capability s pe cap = None"
    "length (pcaps_of s pe) < NUM_EDGE_CAPABILITIES" "pc \<notin> peer_capabilities_memb s"
    "pc < NUM_PEERS * NUM_EDGE_RESOURCES * NUM_EDGE_CAPABILITIES"
  shows "peer_info_ok (with_pcap s pe cap pc)"
proof -
  let ?t = "with_pcap s pe cap pc"
  have ok: "peers_ok s" "pedges_ok s" "pcaps_ok s" using assms(1) by (simp_all add: peer_info_ok_def)
  have own: "owned NUM_EDGE_CAPABILITIES (NUM_PEERS * NUM_EDGE_RESOURCES * NUM_EDGE_CAPABILITIES)
      (peer_edges_memb s) (pcaps_of s) (peer_capabilities_memb s)" using ok(3) by (simp add: pcaps_ok_def)
  have "inj_on (\<lambda>x. pc_cap (pcap_mem ?t x)) (set (pcaps_of ?t q))" if q: "q \<in> peer_edges_memb s" for q
  proof -
    have "inj_on (\<lambda>x. pc_cap (pcap_mem s x)) (set (pcaps_of s q))" using ok(3) q by (simp add: pcaps_ok_def)
    moreover have "pc \<notin> set (pcaps_of s q)" using owned_in [OF own q] assms(5) by blast
    moreover have "\<forall>x\<in>set (pcaps_of s pe). pc_cap (pcap_mem s x) \<noteq> cap"
      using assms(3) by (simp add: peer_info_find_capability_def find_None_iff_Ball pcaps_of_def)
    ultimately show ?thesis by (auto simp: with_pcap_lists with_pcap_fields inj_on_def)
  qed
  moreover from owned_add [OF own assms(2,4,5,6)]
  have "owned NUM_EDGE_CAPABILITIES (NUM_PEERS * NUM_EDGE_RESOURCES * NUM_EDGE_CAPABILITIES)
      (peer_edges_memb ?t) (pcaps_of ?t) (peer_capabilities_memb ?t)" by (simp only: with_pcap_lists with_pcap_fields)
  ultimately have "pcaps_ok ?t" unfolding pcaps_ok_def by (simp only: with_pcap_fields) blast
  moreover have "peers_ok ?t" using ok(1) unfolding peers_ok_def with_pcap_fields .
  moreover have "pedges_ok ?t" using ok(2) unfolding pedges_ok_def with_pcap_fields with_pcap_lists .
  ultimately show ?thesis by (simp add: peer_info_ok_def)
qed

text \<open>Storing a trust record changes nothing the invariant speaks about.\<close>

lemma ok_pe_tm: "peer_info_ok (upd_pedge pe (\<lambda>r. r\<lparr>pe_tm := tm\<rparr>) s) = peer_info_ok s"
proof -
  let ?t = "upd_pedge pe (\<lambda>r. r\<lparr>pe_tm := tm\<rparr>) s"
  have "edges_of ?t = edges_of s" "pcaps_of ?t = pcaps_of s" "\<And>x. pe_edge (pedge_mem ?t x) = pe_edge (pedge_mem s x)"
    by (auto simp: edges_of_def pcaps_of_def)
  then show ?thesis unfolding peer_info_ok_def peers_ok_def pedges_ok_def pcaps_ok_def by (simp del: upd_pedge_simps(1))
qed

lemma ok_pc_tm: "peer_info_ok (upd_pcap pc (\<lambda>r. r\<lparr>pc_tm := tm\<rparr>) s) = peer_info_ok s"
proof -
  let ?t = "upd_pcap pc (\<lambda>r. r\<lparr>pc_tm := tm\<rparr>) s"
  have "edges_of ?t = edges_of s" "pcaps_of ?t = pcaps_of s" "\<And>x. pc_cap (pcap_mem ?t x) = pc_cap (pcap_mem s x)"
    by (auto simp: edges_of_def pcaps_of_def)
  then show ?thesis unfolding peer_info_ok_def peers_ok_def pedges_ok_def pcaps_ok_def by (simp del: upd_pcap_simps(1))
qed

lemma find_edge_iff:
  assumes "peer_info_ok s" "p \<in> set (peers s)"
  shows "peer_info_find_edge s p edge = Some pe \<longleftrightarrow> pe \<in> set (edges_of s p) \<and> pe_edge (pedge_mem s pe) = edge"
proof
  assume "peer_info_find_edge s p edge = Some pe"
  then show "pe \<in> set (edges_of s p) \<and> pe_edge (pedge_mem s pe) = edge"
    using find_SomeD unfolding peer_info_find_edge_def edges_of_def by fast
next
  assume pe: "pe \<in> set (edges_of s p) \<and> pe_edge (pedge_mem s pe) = edge"
  have "x = pe" if "x \<in> set (edges_of s p)" "pe_edge (pedge_mem s x) = edge" for x
    using that pe assms by (auto simp: peer_info_ok_def pedges_ok_def dest: inj_onD)
  then show "peer_info_find_edge s p edge = Some pe"
    unfolding peer_info_find_edge_def using pe by (intro find_unique) (auto simp: edges_of_def)
qed

text \<open>Both \<open>find or allocate\<close> steps: refused with nothing changed, or a record for the key, old or new.\<close>

lemma find_edge_or_allocate_cases:
  assumes "contiki_ok CT" "peer_info_ok s" "p \<in> set (peers s)"
  obtains (refused) "peer_info_find_edge s p edge = None" "length (edges_of s p) = NUM_EDGE_RESOURCES"
      "peer_info_find_edge_or_allocate CT s p edge = (None, s)"
  | (got) pe t where "peer_info_find_edge_or_allocate CT s p edge = (Some pe, t)" "peer_info_ok t"
      "peer_info_find_edge t p edge = Some pe" "peers t = peers s" "pcap_mem t = pcap_mem s"
      "t = s \<or> t = with_pedge s p edge pe \<and> peer_info_find_edge s p edge = None \<and> pe \<notin> peer_edges_memb s"
proof (cases "peer_info_find_edge s p edge")
  case (Some pe)
  then show ?thesis using got [of pe s] assms(2) by (simp add: peer_info_find_edge_or_allocate_def)
next
  case None
  show ?thesis
  proof (cases "length (edges_of s p) < NUM_EDGE_RESOURCES")
    case True
    obtain pe where pe: "peer_info_find_edge_or_allocate CT s p edge = (Some pe, with_pedge s p edge pe)"
      "pe \<notin> peer_edges_memb s" "pe < NUM_PEERS * NUM_EDGE_RESOURCES"
      using find_edge_or_allocate_room [OF assms None True] by blast
    have "peer_info_find_edge (with_pedge s p edge pe) p edge = Some pe"
      by (simp add: peer_info_find_edge_def with_pedge_def)
    then show ?thesis
      using got [OF pe(1) with_pedge_ok [OF assms(2,3) None True pe(2,3)]] pe(2) None by (simp add: with_pedge_fields)
  next
    case False
    then have "length (edges_of s p) = NUM_EDGE_RESOURCES"
      using assms(2,3) by (auto simp: peer_info_ok_def pedges_ok_def owned_def)
    then show ?thesis using refused [OF None] find_edge_or_allocate_full [OF None] by simp
  qed
qed

lemma find_capability_or_allocate_cases:
  assumes "contiki_ok CT" "peer_info_ok s" "pe \<in> peer_edges_memb s"
  obtains (refused) "peer_info_find_capability s pe cap = None" "length (pcaps_of s pe) = NUM_EDGE_CAPABILITIES"
      "peer_info_find_capability_or_allocate CT s pe cap = (None, s)"
  | (got) pc t where "peer_info_find_capability_or_allocate CT s pe cap = (Some pc, t)" "peer_info_ok t"
      "peer_info_find_capability t pe cap = Some pc" "peers t = peers s" "peer_mem t = peer_mem s"
      "\<And>x. pe_edge (pedge_mem t x) = pe_edge (pedge_mem s x)" "t = s \<or> t = with_pcap s pe cap pc \<and> pc \<notin> peer_capabilities_memb s"
proof (cases "peer_info_find_capability s pe cap")
  case (Some pc)
  then show ?thesis using got [of pc s] assms(2) by (simp add: peer_info_find_capability_or_allocate_def)
next
  case None
  show ?thesis
  proof (cases "length (pcaps_of s pe) < NUM_EDGE_CAPABILITIES")
    case True
    obtain pc where pc: "peer_info_find_capability_or_allocate CT s pe cap = (Some pc, with_pcap s pe cap pc)"
      "pc \<notin> peer_capabilities_memb s" "pc < NUM_PEERS * NUM_EDGE_RESOURCES * NUM_EDGE_CAPABILITIES"
      using find_capability_or_allocate_room [OF assms None True] by blast
    have "peer_info_find_capability (with_pcap s pe cap pc) pe cap = Some pc"
      by (simp add: peer_info_find_capability_def with_pcap_def)
    then show ?thesis
      using got [OF pc(1) with_pcap_ok [OF assms(2,3) None True pc(2,3)]] pc(2) by (simp add: with_pcap_fields)
  next
    case False
    then have "length (pcaps_of s pe) = NUM_EDGE_CAPABILITIES"
      using assms(2,3) by (auto simp: peer_info_ok_def pcaps_ok_def owned_def)
    then show ?thesis using refused [OF None] find_capability_or_allocate_full [OF None] by simp
  qed
qed

lemma find_edge_cong:
  "\<lbrakk>peer_mem t = peer_mem s; \<And>x. pe_edge (pedge_mem t x) = pe_edge (pedge_mem s x)\<rbrakk> \<Longrightarrow>
    peer_info_find_edge t p edge = peer_info_find_edge s p edge"
  by (simp add: peer_info_find_edge_def)

text \<open>
  C33: storing what a listed peer reports about a capability keeps the tables well formed.  It
  succeeds, and the report is then found under the peer, the edge and the capability, unless
  the peer already has records on four other edges or its record on this edge has three other
  capabilities; the shared pools never run out first.
\<close>

theorem peer_info_update_capability_spec:
  assumes "contiki_ok CT" "peer_info_ok s" "p \<in> set (peers s)"
  shows "case peer_info_update_capability CT s p edge cap tm of (stored, s') \<Rightarrow> peer_info_ok s' \<and>
    (if stored
     then \<exists>pe pc. peer_info_find_edge s' p edge = Some pe \<and> peer_info_find_capability s' pe cap = Some pc \<and>
            pc_tm (pcap_mem s' pc) = tm
     else s' = s \<and> (case peer_info_find_edge s p edge of
            None \<Rightarrow> length (peer_edges (peer_mem s p)) = NUM_EDGE_RESOURCES
          | Some pe \<Rightarrow> length (pe_capabilities (pedge_mem s pe)) = NUM_EDGE_CAPABILITIES \<and>
              peer_info_find_capability s pe cap = None))"
  using assms
proof (cases rule: find_edge_or_allocate_cases [where edge = edge, consumes 3])
  case refused
  then show ?thesis using assms(2) by (simp add: peer_info_update_capability_def edges_of_def)
next
  case (got pe t)
  have pt: "p \<in> set (peers t)" using got(4) assms(3) by simp
  then have "pe \<in> set (edges_of t p)" using got(2,3) find_edge_iff by metis
  then have mem: "pe \<in> peer_edges_memb t" using peer_blocks(3) [OF got(2) pt] by blast
  show ?thesis
    using assms(1) got(2) mem
  proof (cases rule: find_capability_or_allocate_cases [where cap = cap, consumes 3])
    case refused
    have "pcaps_of (with_pedge s p edge pe) pe = []" by (simp add: with_pedge_lists)
    then have "t \<noteq> with_pedge s p edge pe" using refused(2) by (auto simp: NUM_EDGE_CAPABILITIES_def)
    then have "t = s" using got(6) by blast
    then show ?thesis
      using got refused assms(2) by (simp add: peer_info_update_capability_def pcaps_of_def)
  next
    case (got pc u)
    let ?u = "upd_pcap pc (\<lambda>r. r\<lparr>pc_tm := tm\<rparr>) u"
    have "peer_info_update_capability CT s p edge cap tm = (True, ?u)"
      using \<open>peer_info_find_edge_or_allocate CT s p edge = (Some pe, t)\<close> got(1)
      by (simp add: peer_info_update_capability_def)
    moreover have "peer_info_find_edge ?u p edge = Some pe"
      using find_edge_cong [OF got(5,6)] \<open>peer_info_find_edge t p edge = Some pe\<close> by (simp add: peer_info_find_edge_def)
    moreover have "(\<lambda>x. pc_cap (pcap_mem ?u x)) = (\<lambda>x. pc_cap (pcap_mem u x))" by auto
    then have "peer_info_find_capability ?u pe cap = Some pc"
      using got(3) unfolding peer_info_find_capability_def by (metis upd_pcap_simps(3))
    moreover have "pc_tm (pcap_mem ?u pc) = tm" by simp
    ultimately show ?thesis using got(2) by (simp add: ok_pc_tm)
  qed
qed

definition example_peers :: "(unit, nat, nat) peer_info" where
  "example_peers = \<lparr>peers_memb = {3}, peer_edges_memb = {}, peer_capabilities_memb = {}, peers = [3],
     peer_mem = (\<lambda>_. \<lparr>peer_addr = [253, 3], last_seen = 0, peer_tm = (), peer_edges = []\<rparr>),
     pedge_mem = (\<lambda>_. \<lparr>pe_edge = 0, pe_tm = 0, pe_capabilities = []\<rparr>),
     pcap_mem = (\<lambda>_. \<lparr>pc_cap = 0, pc_tm = 0\<rparr>)\<rparr>"

lemma example_peers_ok: "peer_info_ok example_peers"
  by (simp add: peer_info_ok_def peers_ok_def pedges_ok_def pcaps_ok_def owned_def example_peers_def
      NUM_PEERS_def edges_of_def)

theorem peer_info_update_capability_spec_witness:
  "case peer_info_update_capability ref_contiki example_peers 3 2 5 42 of (stored, s') \<Rightarrow> peer_info_ok s' \<and> stored"
proof -
  have "peer_info_find_edge example_peers 3 2 = None" "length (peer_edges (peer_mem example_peers 3)) = 0"
      "3 \<in> set (peers example_peers)"
    by (simp_all add: peer_info_find_edge_def example_peers_def)
  then show ?thesis
    using peer_info_update_capability_spec [OF ref_contiki_ok example_peers_ok, of 3 2 5 42]
    by (auto simp: NUM_simps split: prod.splits if_splits)
qed

subsection \<open>Peers\<close>

definition with_peer :: "('p \<Rightarrow> 'p) \<Rightarrow> ('p, 'e, 'c) peer_info \<Rightarrow> ipaddr \<Rightarrow> addr \<Rightarrow> ('p, 'e, 'c) peer_info" where
  "with_peer ini s a p =
     (upd_peer p (\<lambda>r. r\<lparr>peer_tm := ini (peer_tm r), peer_edges := [], peer_addr := a, last_seen := PEER_LAST_SEEN_INVALID\<rparr>)
       (s\<lparr>peers_memb := insert p (peers_memb s)\<rparr>))\<lparr>peers := p # peers s\<rparr>"

lemma peer_info_add_full:
  assumes "contiki_ok CT" "peer_info_find s a = None" "peers_memb s = {..<NUM_PEERS}"
  shows "peer_info_add CT ini s a = (None, s)"
  using assms memb_alloc_full [OF assms(1), of NUM_PEERS]
  by (simp add: peer_info_add_def peer_new_def peer_info_free_up_space_def)

lemma peer_info_add_room:
  assumes "contiki_ok CT" "peer_info_ok s" "peer_info_find s a = None" "peers_memb s \<noteq> {..<NUM_PEERS}"
  shows "\<exists>p. peer_info_add CT ini s a = (Some p, with_peer ini s a p) \<and> p \<notin> set (peers s) \<and> p < NUM_PEERS"
proof -
  have "peers_memb s \<subset> {..<NUM_PEERS}" using assms(2,4) by (auto simp: peer_info_ok_def peers_ok_def)
  then obtain p where p: "memb_alloc CT NUM_PEERS (peers_memb s) = (Some p, insert p (peers_memb s))"
      "p < NUM_PEERS" "p \<notin> peers_memb s" using memb_alloc_not_full [OF assms(1)] by blast
  then have "p \<notin> set (peers s)" using assms(2) by (simp add: peer_info_ok_def peers_ok_def)
  then have "peer_info_add CT ini s a = (Some p, with_peer ini s a p)"
    using assms(1,3) p(1)
    by (simp add: peer_info_add_def peer_new_def with_peer_def contiki_simps upd_peer_def)
  then show ?thesis using p \<open>p \<notin> set (peers s)\<close> by blast
qed

lemma with_peer_fields:
  "peers (with_peer ini s a p) = p # peers s" "peers_memb (with_peer ini s a p) = insert p (peers_memb s)"
  "peer_edges_memb (with_peer ini s a p) = peer_edges_memb s"
  "peer_capabilities_memb (with_peer ini s a p) = peer_capabilities_memb s"
  "pedge_mem (with_peer ini s a p) = pedge_mem s" "pcap_mem (with_peer ini s a p) = pcap_mem s"
  "edges_of (with_peer ini s a p) = (edges_of s)(p := [])" "pcaps_of (with_peer ini s a p) = pcaps_of s"
  "peer_addr (peer_mem (with_peer ini s a p) q) = (if q = p then a else peer_addr (peer_mem s q))"
  by (auto simp: with_peer_def edges_of_def pcaps_of_def)

lemma with_peer_ok:
  assumes "peer_info_ok s" "peer_info_find s a = None" "p \<notin> set (peers s)" "p < NUM_PEERS"
  shows "peer_info_ok (with_peer ini s a p)"
proof -
  have ok: "peers_ok s" "pedges_ok s" "pcaps_ok s" using assms(1) by (simp_all add: peer_info_ok_def)
  have "\<forall>q\<in>set (peers s). peer_addr (peer_mem s q) \<noteq> a"
    using assms(2) by (simp add: peer_info_find_def find_None_iff_Ball)
  then have "peers_ok (with_peer ini s a p)"
    using ok(1) assms(3,4) by (auto simp: peers_ok_def with_peer_fields inj_on_def)
  moreover have "owned NUM_EDGE_RESOURCES (NUM_PEERS * NUM_EDGE_RESOURCES) (set (peers s)) (edges_of s) (peer_edges_memb s)"
    using ok(2) by (simp add: pedges_ok_def)
  from owned_new [OF this assms(3)] have "pedges_ok (with_peer ini s a p)"
    using ok(2) by (auto simp: pedges_ok_def with_peer_fields)
  moreover have "pcaps_ok (with_peer ini s a p)" using ok(3) by (simp add: pcaps_ok_def with_peer_fields)
  ultimately show ?thesis by (simp add: peer_info_ok_def)
qed

lemma peer_info_add_cases:
  assumes "contiki_ok CT" "peer_info_ok s"
  obtains (known) p where "peer_info_find s a = Some p" "peer_info_add CT ini s a = (Some p, s)"
  | (refused) "peer_info_find s a = None" "peer_info_add CT ini s a = (None, s)" "peers_memb s = {..<NUM_PEERS}"
  | (new) p where "peer_info_find s a = None" "peer_info_add CT ini s a = (Some p, with_peer ini s a p)"
      "p \<notin> set (peers s)" "peer_info_ok (with_peer ini s a p)"
proof (cases "peer_info_find s a")
  case (Some p)
  then show ?thesis using known by (simp add: peer_info_add_def)
next
  case None
  show ?thesis
  proof (cases "peers_memb s = {..<NUM_PEERS}")
    case True
    then show ?thesis using refused peer_info_add_full [OF assms(1) None] None by blast
  next
    case False
    from peer_info_add_room [OF assms None this] show ?thesis using new [OF None] with_peer_ok [OF assms(2) None] by blast
  qed
qed

lemma peer_find_iff:
  assumes "peer_info_ok s"
  shows "peer_info_find s a = Some p \<longleftrightarrow> p \<in> set (peers s) \<and> peer_addr (peer_mem s p) = a"
proof
  assume "peer_info_find s a = Some p"
  then show "p \<in> set (peers s) \<and> peer_addr (peer_mem s p) = a"
    using find_SomeD unfolding peer_info_find_def by fast
next
  assume p: "p \<in> set (peers s) \<and> peer_addr (peer_mem s p) = a"
  have "q = p" if "q \<in> set (peers s)" "peer_addr (peer_mem s q) = a" for q
    using that p assms by (auto simp: peer_info_ok_def peers_ok_def dest: inj_onD)
  then show "peer_info_find s a = Some p" unfolding peer_info_find_def using p by (intro find_unique) auto
qed

text \<open>The table of peers is a registry that never evicts.\<close>

definition listed_peer :: "('p, 'e, 'c) peer_info \<Rightarrow> addr \<Rightarrow> bool" where
  "listed_peer s p \<longleftrightarrow> p \<in> set (peers s)"

definition peer_entry :: "('p, 'e, 'c) peer_info \<Rightarrow> addr \<Rightarrow> 'p peer \<times> 'e peer_edge list" where
  "peer_entry s p = (peer_mem s p, map (pedge_mem s) (edges_of s p))"

definition add_peer :: "contiki \<Rightarrow> ('p \<Rightarrow> 'p) \<Rightarrow> ('p, 'e, 'c) peer_info \<Rightarrow> ipaddr \<Rightarrow> (addr option \<times> ('p, 'e, 'c) peer_info) option" where
  "add_peer CT ini s a = Some (peer_info_add CT ini s a)"

lemma with_peer_keeps:
  assumes "q \<in> set (peers s)" "p \<notin> set (peers s)"
  shows "peer_mem (with_peer ini s a p) q = peer_mem s q" "peer_entry (with_peer ini s a p) q = peer_entry s q"
  using assms by (auto simp: with_peer_def peer_entry_def edges_of_def)

lemma peer_info_add_ok:
  assumes "contiki_ok CT" "peer_info_ok s"
  shows "peer_info_ok (snd (peer_info_add CT ini s a))"
  using assms by (cases rule: peer_info_add_cases [where a = a and ini = ini, consumes 2]) (use assms(2) in simp_all)

lemma find_with_peer: "peer_info_find (with_peer ini s a p) a = Some p"
  by (simp add: peer_info_find_def with_peer_fields)

lemma peer_info_add_find:
  assumes "contiki_ok CT" "peer_info_ok s" "peer_info_add CT ini s a = (Some p, s')"
  shows "peer_info_find s' a = Some p"
  using assms(1,2)
proof (cases rule: peer_info_add_cases [where a = a and ini = ini, consumes 2])
  case (new q)
  then show ?thesis using assms(3) by (simp add: find_with_peer)
qed (use assms(3) in simp_all)

lemma peer_info_add_known: "peer_info_find s a = Some p \<Longrightarrow> peer_info_add CT ini s a = (Some p, s)"
  by (simp add: peer_info_add_def)

lemma peer_info_add_keeps:
  assumes "contiki_ok CT" "peer_info_ok s" "peer_info_add CT ini s a = (r, s')" "p \<in> set (peers s)"
  shows "p \<in> set (peers s') \<and> peer_mem s' p = peer_mem s p \<and> peer_entry s' p = peer_entry s p"
  using assms(1,2)
proof (cases rule: peer_info_add_cases [where a = a and ini = ini, consumes 2])
  case (new q)
  then show ?thesis using assms(3,4) with_peer_keeps [OF assms(4) new(3)] by (simp add: with_peer_fields)
qed (use assms(3,4) in simp_all)

lemma peer_info_add_refused:
  assumes "contiki_ok CT" "peer_info_ok s" "peer_info_add CT ini s a = (None, s')"
  shows "s' = s \<and> peers_memb s = {..<NUM_PEERS}"
  using assms(1,2)
  by (cases rule: peer_info_add_cases [where a = a and ini = ini, consumes 2]) (use assms(3) in simp_all)

interpretation peers_reg: registry "\<lambda>s. contiki_ok CT \<and> peer_info_ok s" peer_info_find "add_peer CT ini"
  listed_peer peer_entry for CT ini
proof unfold_locales
  fix s :: "('a, 'b, 'c) peer_info" and k
  assume "contiki_ok CT \<and> peer_info_ok s"
  then show "\<exists>r s'. add_peer CT ini s k = Some (r, s') \<and> contiki_ok CT \<and> peer_info_ok s'"
    using peer_info_add_ok [of CT s ini k] by (cases "peer_info_add CT ini s k") (simp add: add_peer_def)
next
  fix s s' :: "('a, 'b, 'c) peer_info" and k k' r e
  assume ok: "contiki_ok CT \<and> peer_info_ok s" and add: "add_peer CT ini s k = Some (r, s')"
    and e: "peer_info_find s k' = Some e" and l: "listed_peer s e"
  have "peer_info_ok s'" using ok add peer_info_add_ok [of CT s ini k] by (simp add: add_peer_def)
  moreover have "e \<in> set (peers s') \<and> peer_mem s' e = peer_mem s e \<and> peer_entry s' e = peer_entry s e"
    using peer_info_add_keeps [of CT s ini k r s' e] ok add l by (simp add: add_peer_def listed_peer_def)
  ultimately show "peer_info_find s' k' = Some e \<and> listed_peer s' e \<and> peer_entry s' e = peer_entry s e"
    using ok e peer_find_iff [of s k' e] peer_find_iff [of s' k' e] by (simp add: listed_peer_def)
qed (use peer_info_add_find peer_info_add_refused peer_info_add_known in \<open>simp_all add: add_peer_def, (blast | metis)+\<close>)

text \<open>
  Peers are never forgotten to make room: after any sequence of additions a known peer is
  found in its block with its reports unchanged.
\<close>

theorem peer_info_add_never_evicts:
  assumes "contiki_ok CT" "peer_info_ok s" "peer_info_find s a = Some p"
  shows "\<exists>s'. add_seq (\<lambda>s a. Some (peer_info_add CT ini s a)) s as = Some s' \<and> peer_info_ok s' \<and>
    peer_info_find s' a = Some p \<and> peer_mem s' p = peer_mem s p \<and>
    map (pedge_mem s') (peer_edges (peer_mem s' p)) = map (pedge_mem s) (peer_edges (peer_mem s p))"
proof -
  have "listed_peer s p" using assms(2,3) peer_find_iff by (auto simp: listed_peer_def)
  then have "\<exists>s'. add_seq (add_peer CT ini) s as = Some s' \<and> (contiki_ok CT \<and> peer_info_ok s') \<and>
      peer_info_find s' a = Some p \<and> listed_peer s' p \<and> peer_entry s' p = peer_entry s p"
    using assms by (intro peers_reg.add_seq_kept) auto
  then obtain s' where "add_seq (add_peer CT ini) s as = Some s'" "peer_info_ok s'" "peer_info_find s' a = Some p"
      "peer_entry s' p = peer_entry s p" by blast
  moreover from this have "peer_mem s' p = peer_mem s p"
      "map (pedge_mem s') (peer_edges (peer_mem s' p)) = map (pedge_mem s) (peer_edges (peer_mem s p))"
    by (auto simp only: peer_entry_def edges_of_def prod.inject)
  ultimately show ?thesis by (intro exI [of _ s'] conjI) (simp_all only: add_peer_def [abs_def])
qed

theorem peer_info_add_never_evicts_witness:
  "\<exists>s'. add_seq (\<lambda>s a. Some (peer_info_add ref_contiki (\<lambda>x. x) s a)) example_peers [[1], [2]] = Some s' \<and>
    peer_info_find s' [253, 3] = Some 3"
proof -
  have "peer_info_find example_peers [253, 3] = Some 3" by (simp add: peer_info_find_def example_peers_def)
  from peer_info_add_never_evicts [OF ref_contiki_ok example_peers_ok this, of "\<lambda>x. x" "[[1], [2]]"]
  show ?thesis by blast
qed

subsection \<open>Removing a peer\<close>

lemma fold_pcap_free:
  assumes "contiki_ok CT" "distinct cs" "set cs \<subseteq> peer_capabilities_memb s"
    "peer_capabilities_memb s \<subseteq> {..<NUM_PEERS * NUM_EDGE_RESOURCES * NUM_EDGE_CAPABILITIES}"
  shows "fold (peer_capability_free CT) cs s = s\<lparr>peer_capabilities_memb := peer_capabilities_memb s - set cs\<rparr>"
  using assms(2-)
proof (induction cs arbitrary: s)
  case (Cons c cs)
  then have "peer_capability_free CT c s = s\<lparr>peer_capabilities_memb := peer_capabilities_memb s - {c}\<rparr>"
    using memb_free_used [OF assms(1), of c] by (auto simp: peer_capability_free_def)
  moreover have "set cs \<subseteq> peer_capabilities_memb s - {c}" "peer_capabilities_memb s - {c} - set cs = peer_capabilities_memb s - set (c # cs)"
    using Cons.prems by auto
  ultimately show ?case using Cons.IH [of "peer_capability_free CT c s"] Cons.prems by auto
qed simp

lemma peer_edge_free_eq:
  assumes "contiki_ok CT" "pe \<in> peer_edges_memb s" "peer_edges_memb s \<subseteq> {..<NUM_PEERS * NUM_EDGE_RESOURCES}"
    "distinct (pcaps_of s pe)" "set (pcaps_of s pe) \<subseteq> peer_capabilities_memb s"
    "peer_capabilities_memb s \<subseteq> {..<NUM_PEERS * NUM_EDGE_RESOURCES * NUM_EDGE_CAPABILITIES}"
  shows "peer_edge_free CT pe s = s\<lparr>peer_edges_memb := peer_edges_memb s - {pe},
    peer_capabilities_memb := peer_capabilities_memb s - set (pcaps_of s pe)\<rparr>"
proof -
  have "pe < NUM_PEERS * NUM_EDGE_RESOURCES" using assms(2,3) by auto
  then show ?thesis
    using assms(2) memb_free_used [OF assms(1), of pe] fold_pcap_free [OF assms(1,4,5,6)]
    by (simp add: peer_edge_free_def pcaps_of_def)
qed

lemma owned_del_memb: "owned m n E cs used \<Longrightarrow> e \<in> E \<Longrightarrow> owned m n (E - {e}) cs (used - set (cs e))"
  by (rule owned_cong [OF owned_del]) auto

lemma owned_diff:
  assumes "owned m n E cs used"
  shows "owned m n (E - F) cs (used - (\<Union>e\<in>E \<inter> F. set (cs e)))"
proof -
  have "e = f" if "e \<in> E" "f \<in> E" "x \<in> set (cs e)" "x \<in> set (cs f)" for e f x
    using that assms unfolding owned_def by blast
  then show ?thesis using assms by (auto simp: owned_def)
qed

lemma fold_pedge_free:
  assumes "contiki_ok CT" "distinct es" "set es \<subseteq> peer_edges_memb s" "peer_edges_memb s \<subseteq> {..<NUM_PEERS * NUM_EDGE_RESOURCES}"
    "owned NUM_EDGE_CAPABILITIES (NUM_PEERS * NUM_EDGE_RESOURCES * NUM_EDGE_CAPABILITIES)
       (peer_edges_memb s) (pcaps_of s) (peer_capabilities_memb s)"
  shows "fold (peer_edge_free CT) es s = s\<lparr>peer_edges_memb := peer_edges_memb s - set es,
      peer_capabilities_memb := peer_capabilities_memb s - (\<Union>pe\<in>set es. set (pcaps_of s pe))\<rparr>"
  using assms(2-)
proof (induction es arbitrary: s)
  case (Cons pe es)
  let ?t = "s\<lparr>peer_edges_memb := peer_edges_memb s - {pe},
    peer_capabilities_memb := peer_capabilities_memb s - set (pcaps_of s pe)\<rparr>"
  have "peer_edge_free CT pe s = ?t"
    using Cons.prems unfolding owned_def by (intro peer_edge_free_eq assms(1)) auto
  moreover have "pcaps_of ?t = pcaps_of s" by (simp add: pcaps_of_def fun_eq_iff)
  moreover from this have "fold (peer_edge_free CT) es ?t = ?t\<lparr>peer_edges_memb := peer_edges_memb ?t - set es,
      peer_capabilities_memb := peer_capabilities_memb ?t - (\<Union>pe\<in>set es. set (pcaps_of ?t pe))\<rparr>"
    using Cons.prems owned_del_memb [OF Cons.prems(4), of pe] by (intro Cons.IH) auto
  moreover have "peer_edges_memb s - {pe} - set es = peer_edges_memb s - set (pe # es)"
      "peer_capabilities_memb s - set (pcaps_of s pe) - (\<Union>pe\<in>set es. set (pcaps_of s pe)) =
       peer_capabilities_memb s - (\<Union>pe\<in>set (pe # es). set (pcaps_of s pe))" by auto
  ultimately show ?case by simp
qed simp

text \<open>
  Removing a listed peer takes it out of the table and gives back its block, the blocks of
  its records on edges and those of their capabilities, leaving the tables well formed.
\<close>

theorem peer_info_remove_spec:
  assumes "contiki_ok CT" "peer_info_ok s" "p \<in> set (peers s)"
  shows "peer_info_ok (peer_info_remove CT s p) \<and>
    set (peers (peer_info_remove CT s p)) = set (peers s) - {p} \<and>
    peer_edges_memb (peer_info_remove CT s p) = peer_edges_memb s - set (peer_edges (peer_mem s p)) \<and>
    peer_capabilities_memb (peer_info_remove CT s p) =
      peer_capabilities_memb s - (\<Union>pe\<in>set (peer_edges (peer_mem s p)). set (pe_capabilities (pedge_mem s pe)))"
proof -
  let ?es = "edges_of s p" and ?cs = "\<Union>pe\<in>set (edges_of s p). set (pcaps_of s pe)"
  let ?t = "s\<lparr>peers := remove1 p (peers s), peers_memb := peers_memb s - {p}, peer_edges_memb := peer_edges_memb s - set ?es,
    peer_capabilities_memb := peer_capabilities_memb s - ?cs\<rparr>"
  have ok: "peers_ok s" "pedges_ok s" "pcaps_ok s" using assms(2) by (simp_all add: peer_info_ok_def)
  have es: "distinct ?es" "set ?es \<subseteq> peer_edges_memb s"
    using ok(2) assms(3) peer_blocks(3) [OF assms(2,3)] by (auto simp: pedges_ok_def owned_def)
  have own: "owned NUM_EDGE_CAPABILITIES (NUM_PEERS * NUM_EDGE_RESOURCES * NUM_EDGE_CAPABILITIES)
       (peer_edges_memb s) (pcaps_of s) (peer_capabilities_memb s)" using ok(3) by (simp add: pcaps_ok_def)
  have p: "p \<in> peers_memb s" "p < NUM_PEERS" using ok(1) assms(3) by (auto simp: peers_ok_def)
  have [simp]: "pcaps_of (s\<lparr>peers := x\<rparr>) = pcaps_of s" for x by (simp add: pcaps_of_def fun_eq_iff)
  have "fold (peer_edge_free CT) ?es (s\<lparr>peers := remove1 p (peers s)\<rparr>) =
      s\<lparr>peers := remove1 p (peers s), peer_edges_memb := peer_edges_memb s - set ?es, peer_capabilities_memb := peer_capabilities_memb s - ?cs\<rparr>"
    using es own peer_blocks(2) [OF assms(2)]
    by (subst fold_pedge_free [OF assms(1)]) simp_all
  then have eq: "peer_info_remove CT s p = ?t"
    using p memb_free_used [OF assms(1) p]
    by (simp add: peer_info_remove_def peer_free_def list_remove_ok assms(1,3) edges_of_def)
  have lists: "edges_of ?t = edges_of s" "pcaps_of ?t = pcaps_of s" by (simp_all add: edges_of_def pcaps_of_def fun_eq_iff)
  have d: "distinct (peers s)" using ok(1) by (simp add: peers_ok_def)
  have "peers_ok ?t" using ok(1) d by (auto simp: peers_ok_def inj_on_def)
  moreover have "pedges_ok ?t"
    using ok(2) d assms(3) owned_del_memb [of _ _ "set (peers s)" "edges_of s" _ p] unfolding pedges_ok_def lists by auto
  moreover have "pcaps_ok ?t" using ok(3) owned_diff [OF own, of "set ?es"] es(2) Int_absorb1 [OF es(2)] unfolding pcaps_ok_def lists by auto
  ultimately show ?thesis
    using d unfolding eq peer_info_ok_def by (simp add: edges_of_def pcaps_of_def)
qed

text \<open>A peer with one report on the edge in block 2 and its capability in block 5.\<close>

definition reporting_peer :: "(unit, nat, nat) peer_info" where
  "reporting_peer = \<lparr>peers_memb = {3}, peer_edges_memb = {7}, peer_capabilities_memb = {9}, peers = [3],
     peer_mem = (\<lambda>_. \<lparr>peer_addr = [253, 3], last_seen = 0, peer_tm = (), peer_edges = [7]\<rparr>),
     pedge_mem = (\<lambda>_. \<lparr>pe_edge = 2, pe_tm = 0, pe_capabilities = [9]\<rparr>),
     pcap_mem = (\<lambda>_. \<lparr>pc_cap = 5, pc_tm = 0\<rparr>)\<rparr>"

lemma reporting_peer_ok: "peer_info_ok reporting_peer"
  by (simp add: peer_info_ok_def peers_ok_def pedges_ok_def pcaps_ok_def owned_def reporting_peer_def
      NUM_PEERS_def NUM_simps edges_of_def pcaps_of_def)

theorem peer_info_remove_spec_witness:
  "peer_info_ok (peer_info_remove ref_contiki reporting_peer 3) \<and>
    peer_edges_memb (peer_info_remove ref_contiki reporting_peer 3) = {}"
proof -
  have "3 \<in> set (peers reporting_peer)" "peer_edges_memb reporting_peer - set (peer_edges (peer_mem reporting_peer 3)) = {}"
    by (simp_all add: reporting_peer_def)
  then show ?thesis using peer_info_remove_spec [OF ref_contiki_ok reporting_peer_ok, of 3] by simp
qed

text \<open>
  Removing the reports on an edge frees their blocks but leaves them in the peer's list: the
  list then points to a block that the pool may hand out again.
\<close>

lemma peer_info_remove_edges_dangles:
  "7 \<in> set (peer_edges (peer_mem (peer_info_remove_edges ref_contiki reporting_peer 2) 3)) \<and>
   7 \<notin> peer_edges_memb (peer_info_remove_edges ref_contiki reporting_peer 2)"
  by (simp add: peer_info_remove_edges_def reporting_peer_def peer_edge_free_def peer_capability_free_def
      ref_contiki_def NUM_PEERS_def NUM_simps)

end
