(* ===== verification/Crypto_Support.thy ===== *)
theory Crypto_Support
  imports Contiki "HOL-Library.Multiset"
begin

text \<open>
  \<open>src/wsn/common/crypto/crypto-support.{h,c}\<close>: the two queues of messages to sign and to verify and the
  processes that serve them one message at a time.  The elliptic-curve operations are platform
  code: their results are inputs of the steps.  A process that yields inside an operation is a state with
  a job in \<open>job_current\<close>; events posted to clients and not yet handled are in \<open>job_posted\<close>.  Posting an event fails when the event queue is full; the code logs that and goes on, and
  \<open>jobs_lost\<close>, which the code has no variable for, lists the entries whose client was not told.
\<close>

definition MESSAGES_TO_SIGN_SIZE :: nat where "MESSAGES_TO_SIGN_SIZE = 3"

definition MESSAGES_TO_VERIFY_SIZE :: nat where "MESSAGES_TO_VERIFY_SIZE = 3"

record messages_to_sign_entry =
  s_process :: nat
  s_message :: "u8 list"
  s_message_buffer_len :: u16
  s_message_len :: u16
  s_data :: addr
  s_result :: u8

record messages_to_verify_entry =
  v_process :: nat
  v_message :: "u8 list"
  v_message_len :: u16
  v_result :: u8
  v_pubkey :: "u8 list"
  v_data :: addr

record 'm jobs =
  jobs_memb :: "addr set"
  jobs_queue :: "addr list"
  job_mem :: "addr \<Rightarrow> 'm"
  job_current :: "addr option"
  job_posted :: "(nat \<times> addr) list"
  jobs_lost :: "addr list"

text \<open>\<open>crypto_support_init\<close> starts the processes, which empty their queue and pool before they wait.\<close>

definition crypto_support_init :: "'m jobs \<Rightarrow> 'm jobs" where
  "crypto_support_init s = s\<lparr>jobs_memb := {}, jobs_queue := [], job_current := None, jobs_lost := []\<rparr>"

text \<open>Allocate an entry, fill it, put it at the end of the queue.\<close>

definition queue_job :: "contiki \<Rightarrow> nat \<Rightarrow> ('m \<Rightarrow> 'm) \<Rightarrow> 'm jobs \<Rightarrow> bool \<times> 'm jobs" where
  "queue_job CT n fill s =
     (case memb_alloc CT n (jobs_memb s) of
        (None, used) \<Rightarrow> (False, s\<lparr>jobs_memb := used\<rparr>)
      | (Some i, used) \<Rightarrow>
          (True, s\<lparr>jobs_memb := used, job_mem := (job_mem s)(i := fill (job_mem s i)),
             jobs_queue := queue_enqueue CT (jobs_queue s) i\<rparr>))"

definition queue_message_to_sign ::
  "contiki \<Rightarrow> nat \<Rightarrow> addr \<Rightarrow> u8 list \<Rightarrow> u16 \<Rightarrow> u16 \<Rightarrow> messages_to_sign_entry jobs \<Rightarrow> bool \<times> messages_to_sign_entry jobs" where
  "queue_message_to_sign CT p dat msg buf_len len =
     queue_job CT MESSAGES_TO_SIGN_SIZE
       (\<lambda>e. e\<lparr>s_process := p, s_data := dat, s_message := msg, s_message_buffer_len := buf_len, s_message_len := len\<rparr>)"

definition queue_message_to_verify ::
  "contiki \<Rightarrow> nat \<Rightarrow> addr \<Rightarrow> u8 list \<Rightarrow> u16 \<Rightarrow> u8 list \<Rightarrow> messages_to_verify_entry jobs \<Rightarrow> bool \<times> messages_to_verify_entry jobs" where
  "queue_message_to_verify CT p dat msg len pubkey =
     queue_job CT MESSAGES_TO_VERIFY_SIZE
       (\<lambda>e. e\<lparr>v_process := p, v_data := dat, v_message := msg, v_message_len := len, v_pubkey := pubkey\<rparr>)"

definition job_done :: "contiki \<Rightarrow> nat \<Rightarrow> addr \<Rightarrow> 'm jobs \<Rightarrow> 'm jobs" where
  "job_done CT n i s = s\<lparr>jobs_memb := snd (memb_free CT n (jobs_memb s) i)\<rparr>"

definition queue_message_to_sign_done ::
  "contiki \<Rightarrow> addr \<Rightarrow> messages_to_sign_entry jobs \<Rightarrow> messages_to_sign_entry jobs" where
  "queue_message_to_sign_done CT = job_done CT MESSAGES_TO_SIGN_SIZE"

definition queue_message_to_verify_done ::
  "contiki \<Rightarrow> addr \<Rightarrow> messages_to_verify_entry jobs \<Rightarrow> messages_to_verify_entry jobs" where
  "queue_message_to_verify_done CT = job_done CT MESSAGES_TO_VERIFY_SIZE"

text \<open>
  The body of a serving process: it waits until the queue is not empty, takes the first entry and
  runs the operation on it (\<open>take_job\<close>); when the operation has ended it stores the result and posts the
  event to the entry's process, which may fail (\<open>finish_job\<close>).
\<close>

definition take_job :: "contiki \<Rightarrow> 'm jobs \<Rightarrow> 'm jobs option" where
  "take_job CT s =
     (if job_current s \<noteq> None \<or> jobs_queue s = [] then None
      else case queue_dequeue CT (jobs_queue s) of (i, q) \<Rightarrow> Some (s\<lparr>jobs_queue := q, job_current := i\<rparr>))"

definition finish_job :: "('m \<Rightarrow> nat) \<Rightarrow> (u8 \<Rightarrow> 'm \<Rightarrow> 'm) \<Rightarrow> u8 \<Rightarrow> bool \<Rightarrow> 'm jobs \<Rightarrow> 'm jobs option" where
  "finish_job proc store res posted_ok s =
     (case job_current s of
        None \<Rightarrow> None
      | Some i \<Rightarrow>
          let s = s\<lparr>job_mem := (job_mem s)(i := store res (job_mem s i)), job_current := None\<rparr>
          in Some (if posted_ok then s\<lparr>job_posted := job_posted s @ [(proc (job_mem s i), i)]\<rparr> else s\<lparr>jobs_lost := jobs_lost s @ [i]\<rparr>))"

lemma finish_job_eq:
  "job_current s = Some i \<Longrightarrow> finish_job proc store res posted_ok s =
    Some (s\<lparr>job_mem := (job_mem s)(i := store res (job_mem s i)), job_current := None,
      job_posted := job_posted s @ (if posted_ok then [(proc (store res (job_mem s i)), i)] else []), jobs_lost := jobs_lost s @ (if posted_ok then [] else [i])\<rparr>)"
  by (cases posted_ok) (simp_all add: finish_job_def Let_def)

definition signer_finish :: "u8 \<Rightarrow> bool \<Rightarrow> messages_to_sign_entry jobs \<Rightarrow> messages_to_sign_entry jobs option" where
  "signer_finish = finish_job s_process (\<lambda>r e. e\<lparr>s_result := r\<rparr>)"

definition verifier_finish :: "u8 \<Rightarrow> bool \<Rightarrow> messages_to_verify_entry jobs \<Rightarrow> messages_to_verify_entry jobs option" where
  "verifier_finish = finish_job v_process (\<lambda>r e. e\<lparr>v_result := r\<rparr>)"

subsection \<open>Jobs over time\<close>

text \<open>
  The steps of a queue of \<open>n\<close> entries: a client submits, the process takes or finishes a job, a client
  handles the event of a finished job and gives the entry back.
\<close>

inductive job_step :: "contiki \<Rightarrow> nat \<Rightarrow> ('m \<Rightarrow> nat) \<Rightarrow> (u8 \<Rightarrow> 'm \<Rightarrow> 'm) \<Rightarrow> 'm jobs \<Rightarrow> 'm jobs \<Rightarrow> bool"
  for CT n proc store where
  submit: "queue_job CT n fill s = (b, s') \<Longrightarrow> job_step CT n proc store s s'"
| take: "take_job CT s = Some s' \<Longrightarrow> job_step CT n proc store s s'"
| finish: "finish_job proc store res posted_ok s = Some s' \<Longrightarrow> job_step CT n proc store s s'"
| handled: "job_posted s = (p, i) # ps \<Longrightarrow> job_step CT n proc store s (job_done CT n i (s\<lparr>job_posted := ps\<rparr>))"

text \<open>Where the blocks in use are: queued, worked on, or posted, each in one place, or lost.\<close>

definition in_flight :: "'m jobs \<Rightarrow> addr list" where
  "in_flight s = jobs_queue s @ (case job_current s of None \<Rightarrow> [] | Some i \<Rightarrow> [i]) @ map snd (job_posted s)"

definition job_entries :: "'m jobs \<Rightarrow> addr list" where
  "job_entries s = jobs_queue s @ (case job_current s of None \<Rightarrow> [] | Some i \<Rightarrow> [i]) @ map snd (job_posted s) @ jobs_lost s"

lemma job_entries_split: "job_entries s = in_flight s @ jobs_lost s"
  by (simp add: job_entries_def in_flight_def)

definition jobs_ok :: "nat \<Rightarrow> 'm jobs \<Rightarrow> bool" where
  "jobs_ok n s \<longleftrightarrow> distinct (job_entries s) \<and> jobs_memb s = set (job_entries s) \<and> jobs_memb s \<subseteq> {..<n}"

lemma queue_job_cases:
  assumes "contiki_ok CT" "jobs_ok n s"
  obtains (refused) "queue_job CT n fill s = (False, s)" "length (job_entries s) = n"
  | (queued) i where "queue_job CT n fill s = (True, s\<lparr>jobs_memb := insert i (jobs_memb s),
      job_mem := (job_mem s)(i := fill (job_mem s i)), jobs_queue := jobs_queue s @ [i]\<rparr>)"
      "i < n" "i \<notin> set (job_entries s)"
proof (cases "memb_alloc CT n (jobs_memb s)")
  case (Pair r used)
  have sub: "jobs_memb s \<subseteq> {..<n}" using assms(2) unfolding jobs_ok_def by blast
  show ?thesis
  proof (cases r)
    case None
    then have e: "jobs_memb s = {..<n}" "used = jobs_memb s"
      using memb_alloc_None [OF assms(1) sub] Pair by auto
    then have "length (job_entries s) = n"
      using assms(2) unfolding jobs_ok_def by (metis card_lessThan distinct_card)
    then show ?thesis using refused Pair None e by (simp add: queue_job_def)
  next
    case (Some i)
    then have "i < n" "i \<notin> jobs_memb s" "used = insert i (jobs_memb s)"
      using memb_alloc_Some [OF assms(1) sub, of i used] Pair by auto
    then show ?thesis
      using queued [of i] Pair Some assms by (simp add: queue_job_def contiki_simps jobs_ok_def)
  qed
qed

lemma queue_job_refused:
  assumes "contiki_ok CT" "jobs_ok n s" "queue_job CT n fill s = (False, s')"
  shows "s' = s"
  using assms(1,2) by (cases rule: queue_job_cases [where fill = fill, consumes 2]) (use assms(3) in auto)

lemma job_step_ok:
  assumes "job_step CT n proc store s s'" "contiki_ok CT" "jobs_ok n s"
  shows "jobs_ok n s'"
  using assms(1)
proof cases
  case (submit fill b)
  show ?thesis
    using assms(2,3)
  proof (cases rule: queue_job_cases [where fill = fill, consumes 2])
    case (queued i)
    then show ?thesis
      using submit assms(3) by (cases "job_current s") (auto simp: jobs_ok_def job_entries_def)
  qed (use submit assms(3) in simp)
next
  case take
  then obtain i q where "job_current s = None" "jobs_queue s = i # q" "s' = s\<lparr>jobs_queue := q, job_current := Some i\<rparr>"
    using assms(2) by (cases "jobs_queue s") (auto simp: take_job_def contiki_simps split: if_splits)
  then show ?thesis using assms(3) by (auto simp: jobs_ok_def job_entries_def)
next
  case (finish res posted_ok)
  then obtain i where i: "job_current s = Some i" by (auto simp: finish_job_def split: option.splits)
  with finish have "mset (job_entries s') = mset (job_entries s)" "jobs_memb s' = jobs_memb s"
    by (auto simp: finish_job_def job_entries_def Let_def split: if_splits)
  then show ?thesis using assms(3) unfolding jobs_ok_def by (metis mset_eq_imp_distinct_iff mset_eq_setD)
next
  case (handled p i ps)
  then have "i \<in> jobs_memb s" "i < n" using assms(3) by (auto simp: jobs_ok_def job_entries_def)
  then show ?thesis
    using handled assms(2,3) by (auto simp: jobs_ok_def job_entries_def job_done_def contiki_simps)
qed

inductive job_run :: "contiki \<Rightarrow> nat \<Rightarrow> ('m \<Rightarrow> nat) \<Rightarrow> (u8 \<Rightarrow> 'm \<Rightarrow> 'm) \<Rightarrow> 'm jobs \<Rightarrow> 'm jobs \<Rightarrow> bool"
  for CT n proc store where
  start: "job_run CT n proc store s s"
| step: "\<lbrakk>job_run CT n proc store s s'; job_step CT n proc store s' s''\<rbrakk> \<Longrightarrow> job_run CT n proc store s s''"

lemma job_run_ok: "\<lbrakk>job_run CT n proc store s s'; contiki_ok CT; jobs_ok n s\<rbrakk> \<Longrightarrow> jobs_ok n s'"
  by (induction rule: job_run.induct) (auto intro: job_step_ok)

definition no_jobs :: "'m jobs \<Rightarrow> 'm jobs" where
  "no_jobs s = s\<lparr>jobs_memb := {}, jobs_queue := [], job_current := None, job_posted := [], jobs_lost := []\<rparr>"

text \<open>A lost entry stays lost: no step gives it back.\<close>

lemma job_step_lost: "job_step CT n proc store s s' \<Longrightarrow> \<exists>es. jobs_lost s' = jobs_lost s @ es"
  by (induction rule: job_step.induct)
    (auto simp: queue_job_def take_job_def finish_job_def job_done_def Let_def split: prod.splits option.splits if_splits)

lemma job_run_lost: "job_run CT n proc store s s' \<Longrightarrow> \<exists>es. jobs_lost s' = jobs_lost s @ es"
  by (induction rule: job_run.induct) (auto dest!: job_step_lost)

lemma verify_accepts:
  assumes "contiki_ok CT" "jobs_ok MESSAGES_TO_VERIFY_SIZE s"
  shows "fst (queue_message_to_verify CT p dat msg len pk s) \<longleftrightarrow> length (job_entries s) < 3"
proof -
  let ?f = "\<lambda>e. e\<lparr>v_process := p, v_data := dat, v_message := msg, v_message_len := len, v_pubkey := pk\<rparr>"
  show ?thesis
    using assms
  proof (cases rule: queue_job_cases [where fill = ?f, consumes 2])
    case refused
    then show ?thesis by (simp add: queue_message_to_verify_def MESSAGES_TO_VERIFY_SIZE_def)
  next
    case (queued i)
    then have "distinct (i # job_entries s)" "set (i # job_entries s) \<subseteq> {..<MESSAGES_TO_VERIFY_SIZE}"
      using assms(2) by (auto simp: jobs_ok_def)
    from distinct_card_le [OF this] show ?thesis
      using queued(1) by (simp add: queue_message_to_verify_def MESSAGES_TO_VERIFY_SIZE_def)
  qed
qed


definition example_jobs :: "messages_to_verify_entry jobs" where
  "example_jobs = \<lparr>jobs_memb = {}, jobs_queue = [],
     job_mem = (\<lambda>_. \<lparr>v_process = 0, v_message = [], v_message_len = 0, v_result = 0, v_pubkey = [], v_data = 0\<rparr>),
     job_current = None, job_posted = [], jobs_lost = []\<rparr>"

text \<open>A message whose event could not be posted keeps its entry.\<close>

definition lost_job :: "messages_to_verify_entry jobs" where
  "lost_job = (no_jobs example_jobs)\<lparr>jobs_memb := {0}, job_mem := (\<lambda>_. \<lparr>v_process = 0, v_message = [], v_message_len = 0, v_result = 0, v_pubkey = [], v_data = 0\<rparr>)
     (0 := \<lparr>v_process = 1, v_message = [5], v_message_len = 1, v_result = 0, v_pubkey = [], v_data = 0\<rparr>), jobs_lost := [0]\<rparr>"

lemma lost_job_run:
  "job_run ref_contiki MESSAGES_TO_VERIFY_SIZE v_process (\<lambda>r e. e\<lparr>v_result := r\<rparr>) (no_jobs example_jobs) lost_job"
proof -
  let ?f = "\<lambda>e. e\<lparr>v_process := 1, v_data := 0, v_message := [5], v_message_len := 1, v_pubkey := []\<rparr>"
  let ?j0 = "no_jobs example_jobs"
  let ?j1 = "?j0\<lparr>jobs_memb := {0}, job_mem := (job_mem ?j0)(0 := ?f (job_mem ?j0 0)), jobs_queue := [0]\<rparr>"
  let ?j2 = "?j1\<lparr>jobs_queue := [], job_current := Some 0\<rparr>"
  have "queue_job ref_contiki MESSAGES_TO_VERIFY_SIZE ?f ?j0 = (True, ?j1)"
    by (simp add: queue_job_def ref_contiki_def no_jobs_def example_jobs_def MESSAGES_TO_VERIFY_SIZE_def upt_rec)
  moreover have "take_job ref_contiki ?j1 = Some ?j2" by (simp add: take_job_def contiki_simps no_jobs_def)
  moreover have "finish_job v_process (\<lambda>r e. e\<lparr>v_result := r\<rparr>) 0 False ?j2 = Some lost_job"
    by (simp add: finish_job_def lost_job_def no_jobs_def example_jobs_def Let_def)
  ultimately show ?thesis by (blast intro: job_run.start job_run.step job_step.submit job_step.take job_step.finish)
qed


end
