(* ===== verification/Timed_Unlock.thy ===== *)
theory Timed_Unlock
  imports Prelude
begin

text \<open>
  \<open>src/wsn/common/timed-unlock.{h,c}\<close>: the lock that guards a module's single outgoing CoAP request and
  opens by itself.  The callback timer of Contiki-NG is the field \<open>timer\<close>: the time it will fire, if it
  is set.  Time and the posting of events to processes are the steps of \<open>lock_step\<close>.
\<close>

record timed_unlock =
  locked :: bool
  lname :: string
  timer :: "nat option"
  duration :: nat
  owner :: nat

definition timed_unlock_init :: "timed_unlock \<Rightarrow> string \<Rightarrow> nat \<Rightarrow> nat \<Rightarrow> timed_unlock" where
  "timed_unlock_init l name dur current = l\<lparr>locked := False, lname := name, duration := dur, owner := current\<rparr>"

definition timed_unlock_is_locked :: "timed_unlock \<Rightarrow> bool" where
  "timed_unlock_is_locked l = locked l"

definition timed_unlock_lock :: "nat \<Rightarrow> timed_unlock \<Rightarrow> timed_unlock" where
  "timed_unlock_lock now l = l\<lparr>locked := True, timer := Some (now + duration l)\<rparr>"

definition timed_unlock_unlock :: "timed_unlock \<Rightarrow> timed_unlock" where
  "timed_unlock_unlock l = l\<lparr>locked := False, timer := None\<rparr>"

text \<open>\<open>ctimer_restart\<close> starts the interval again from now.\<close>

definition timed_unlock_restart_timer :: "nat \<Rightarrow> timed_unlock \<Rightarrow> timed_unlock" where
  "timed_unlock_restart_timer now l = l\<lparr>timer := Some (now + duration l)\<rparr>"

text \<open>The timer fires: the lock opens and its owner is told.\<close>

definition timed_unlock_callack :: "timed_unlock \<Rightarrow> timed_unlock \<times> nat" where
  "timed_unlock_callack l = (timed_unlock_unlock l, owner l)"

text \<open>
  One lock over time.  The state is the clock, the lock and the events posted so far; the timer
  fires no later than its time, and the client locks only a lock it has found open.
\<close>

inductive lock_step :: "nat \<times> timed_unlock \<times> nat list \<Rightarrow> nat \<times> timed_unlock \<times> nat list \<Rightarrow> bool" where
  acquire: "\<not> timed_unlock_is_locked l \<Longrightarrow> lock_step (now, l, ev) (now, timed_unlock_lock now l, ev)"
| release: "lock_step (now, l, ev) (now, timed_unlock_unlock l, ev)"
| extend: "timed_unlock_is_locked l \<Longrightarrow> lock_step (now, l, ev) (now, timed_unlock_restart_timer now l, ev)"
| tick: "timer l \<noteq> Some now \<Longrightarrow> lock_step (now, l, ev) (Suc now, l, ev)"
| fire: "\<lbrakk>timer l = Some now; timed_unlock_callack l = (l', p)\<rbrakk> \<Longrightarrow> lock_step (now, l, ev) (now, l', ev @ [p])"

inductive_cases lock_stepE: "lock_step (now, l, ev) (now', l', ev')"

definition lock_ok :: "nat \<Rightarrow> timed_unlock \<Rightarrow> bool" where
  "lock_ok now l \<longleftrightarrow>
     (if locked l then \<exists>t. timer l = Some t \<and> now \<le> t \<and> t \<le> now + duration l else timer l = None)"

lemma lock_step_ok:
  "\<lbrakk>lock_step (now, l, ev) (now', l', ev'); lock_ok now l\<rbrakk> \<Longrightarrow> lock_ok now' l' \<and> duration l' = duration l"
  by (erule lock_stepE)
    (auto simp: lock_ok_def timed_unlock_lock_def timed_unlock_unlock_def timed_unlock_callack_def
      timed_unlock_is_locked_def timed_unlock_restart_timer_def split: if_splits)

inductive lock_run :: "nat \<times> timed_unlock \<times> nat list \<Rightarrow> nat \<times> timed_unlock \<times> nat list \<Rightarrow> bool" where
  stop: "lock_run c c"
| go: "\<lbrakk>lock_step c c'; lock_run c' c''\<rbrakk> \<Longrightarrow> lock_run c c''"

lemma lock_run_ok:
  "lock_run c c' \<Longrightarrow> case c of (now, l, ev) \<Rightarrow> lock_ok now l \<longrightarrow>
    (case c' of (now', l', ev') \<Rightarrow> lock_ok now' l' \<and> duration l' = duration l)"
  by (induction rule: lock_run.induct) (auto dest: lock_step_ok)

text \<open>
  In every run, from an open lock, a closed lock has a pending timer that fires within the lock's
  duration: the lock cannot stay closed for longer than that without being extended.
\<close>

theorem timed_unlock_never_stuck:
  assumes "lock_run (now, timed_unlock_init l nm d p, ev) (now', l', ev')" "timer l = None" "timed_unlock_is_locked l'"
  shows "\<exists>t. timer l' = Some t \<and> now' \<le> t \<and> t \<le> now' + d \<and> \<not> timed_unlock_is_locked (fst (timed_unlock_callack l'))"
proof -
  have "lock_ok now (timed_unlock_init l nm d p)" using assms(2) by (simp add: lock_ok_def timed_unlock_init_def)
  with lock_run_ok [OF assms(1)] have "lock_ok now' l'" "duration l' = d" by (auto simp: timed_unlock_init_def)
  then show ?thesis
    using assms(3) by (auto simp: lock_ok_def timed_unlock_is_locked_def timed_unlock_callack_def timed_unlock_unlock_def)
qed

theorem timed_unlock_never_stuck_witness:
  "\<exists>t. timer (timed_unlock_lock 3 (timed_unlock_init \<lparr>locked = True, lname = [], timer = None, duration = 0, owner = 0\<rparr> ''keystore'' 60 1)) = Some t \<and>
    3 \<le> t \<and> t \<le> 3 + 60"
proof -
  let ?l = "timed_unlock_init \<lparr>locked = True, lname = [], timer = None, duration = 0, owner = 0\<rparr> ''keystore'' 60 1"
  have "lock_run (3, ?l, []) (3, timed_unlock_lock 3 ?l, [])"
    by (rule lock_run.go [OF lock_step.acquire lock_run.stop]) (simp add: timed_unlock_init_def timed_unlock_is_locked_def)
  from timed_unlock_never_stuck [OF this] show ?thesis
    by (auto simp: timed_unlock_lock_def timed_unlock_is_locked_def)
qed

end
