(* ===== verification/Keystore.thy ===== *)
theory Keystore
  imports Certificate Crypto_Support Timed_Unlock Registry
begin

text \<open>
  \<open>src/wsn/common/crypto/keystore.{h,c}\<close>: the store of certificates.  A certificate is queued, its signature is
  checked against the root's key by the verifier of \<open>Crypto_Support\<close>, and only then is it moved to the
  list of public keys.  Certificates built into the firmware, the platform's elliptic-curve code, the
  OSCORE library and the address macros of the network stack are the fields of the record
  \<open>ks_config\<close>.  The message of a verification job is a pointer to \<open>add_buffer\<close>, which is not written
  while \<open>add_buffer_in_use\<close> holds; the model keeps the bytes in the job.
\<close>

definition PUBLIC_KEYSTORE_SIZE :: nat where "PUBLIC_KEYSTORE_SIZE = 12"

definition TBS_CERTIFICATE_CBOR_LENGTH :: nat where
  "TBS_CERTIFICATE_CBOR_LENGTH =
     1 + (1 + 4) + (1 + EUI64_LENGTH) + (1 + (1 + 4) + (1 + 4)) + (1 + EUI64_LENGTH) + 2 + (1 + 1 + DTLS_EC_KEY_SIZE * 2)"

definition OSCORE_ID_LEN :: nat where "OSCORE_ID_LEN = 6"

record 'c public_key_item =
  cert :: certificate
  oscore_context :: 'c
  pin_count :: u16

record 'c ks_config =
  root_cert :: certificate
  our_cert :: certificate
  our_privkey :: "u8 list"
  is_addr_linklocal :: "ipaddr \<Rightarrow> bool"
  lladdr_from_iid :: "ipaddr \<Rightarrow> u8 list"
  root_ipaddr :: ipaddr
  crypto_success :: "u8 \<Rightarrow> bool"
  ecc_verify :: "u8 list \<Rightarrow> u8 list \<Rightarrow> u8"
  oscore_derive_ctx :: "'c \<Rightarrow> u8 list \<Rightarrow> u8 list option \<Rightarrow> u8 list \<Rightarrow> u8 list \<Rightarrow> u8 list option \<Rightarrow> u8 list option \<Rightarrow> 'c"
  oscore_add_group_keys :: "'c \<Rightarrow> u8 list \<Rightarrow> u8 list \<Rightarrow> u8 list \<Rightarrow> 'c"
  oscore_master_salt :: "u8 list option"
  oscore_id_context :: "u8 list option"
  with_groupcom :: bool

record 'c keystore =
  public_keys_memb :: "addr set"
  public_keys :: "addr list"
  public_keys_to_verify :: "addr list"
  key_mem :: "addr \<Rightarrow> 'c public_key_item"
  key_req_payload :: "u8 list"
  key_in_use :: timed_unlock
  add_buffer_in_use :: bool
  verifier_polled :: bool
  vjobs :: "messages_to_verify_entry jobs"
  pkitem :: "addr option"

text \<open>The number of the process \<open>keystore_add_verifier\<close>.\<close>

definition keystore_add_verifier :: nat where "keystore_add_verifier = 0"

definition uip_ip6addr_normalise :: "'c ks_config \<Rightarrow> ipaddr \<Rightarrow> ipaddr" where
  "uip_ip6addr_normalise K a = (if is_addr_linklocal K a then a[0 := 0xFD, 1 := 0x00] else a)"

text \<open>The list argument is not used by the code either.\<close>

definition keystore_find_in_list :: "'c keystore \<Rightarrow> eui64 \<Rightarrow> addr list \<Rightarrow> addr option" where
  "keystore_find_in_list s eui64 l = List.find (\<lambda>i. subject (cert (key_mem s i)) = eui64) (public_keys s)"

definition keystore_find :: "'c keystore \<Rightarrow> eui64 \<Rightarrow> addr option" where
  "keystore_find s eui64 = keystore_find_in_list s eui64 (public_keys s)"

definition keystore_find_addr :: "'c ks_config \<Rightarrow> 'c keystore \<Rightarrow> ipaddr \<Rightarrow> addr option" where
  "keystore_find_addr K s a =
     keystore_find s (eui64_from_ipaddr (lladdr_from_iid K) (root_ipaddr K) (uip_ip6addr_normalise K a))"

definition keystore_find_pubkey :: "'c ks_config \<Rightarrow> 'c keystore \<Rightarrow> ipaddr \<Rightarrow> u8 list option" where
  "keystore_find_pubkey K s a =
     (case keystore_find_addr K s a of None \<Rightarrow> None | Some i \<Rightarrow> Some (public_key (cert (key_mem s i))))"

definition keystore_certificate_contains_tags :: "'c keystore \<Rightarrow> stereotype_tags \<Rightarrow> bool" where
  "keystore_certificate_contains_tags s t \<longleftrightarrow>
     (\<exists>i\<in>set (public_keys s). stereotype_tags_equal t (tags (cert (key_mem s i)))) \<or>
     (\<exists>i\<in>set (public_keys_to_verify s). stereotype_tags_equal t (tags (cert (key_mem s i))))"

definition keystore_pin :: "addr \<Rightarrow> 'c keystore \<Rightarrow> 'c keystore" where
  "keystore_pin i s = s\<lparr>key_mem := (key_mem s)(i := (key_mem s i)\<lparr>pin_count := pin_count (key_mem s i) + 1\<rparr>)\<rparr>"

text \<open>\<open>None\<close> is the failed assertion.\<close>

definition keystore_unpin :: "addr \<Rightarrow> 'c keystore \<Rightarrow> 'c keystore option" where
  "keystore_unpin i s =
     (if \<not> 0 < pin_count (key_mem s i) then None
      else Some (s\<lparr>key_mem := (key_mem s)(i := (key_mem s i)\<lparr>pin_count := pin_count (key_mem s i) - 1\<rparr>)\<rparr>))"

definition keystore_is_pinned :: "'c public_key_item \<Rightarrow> bool" where
  "keystore_is_pinned item \<longleftrightarrow> 0 < pin_count item"

definition keystore_remove :: "contiki \<Rightarrow> 'c ks_config \<Rightarrow> addr \<Rightarrow> 'c keystore \<Rightarrow> bool \<times> 'c keystore" where
  "keystore_remove CT K i s =
     (if keystore_is_pinned (key_mem s i) then (False, s)
      else if subject (cert (key_mem s i)) = subject (root_cert K) then (False, s)
      else let (removed, l) = list_remove CT (public_keys s) i; s = s\<lparr>public_keys := l\<rparr> in
        if \<not> removed then (False, s)
        else let (freed, used) = memb_free CT PUBLIC_KEYSTORE_SIZE (public_keys_memb s) i in
          (freed \<noteq> 0, s\<lparr>public_keys_memb := used\<rparr>))"

text \<open>
  The loop of \<open>keystore_free_up_space\<close>.  It fetches the successor of an item after the item may have been
  removed: the loop then goes on only when a removed item keeps its link.
\<close>

fun keystore_free_loop :: "contiki \<Rightarrow> 'c ks_config \<Rightarrow> addr list \<Rightarrow> 'c keystore \<Rightarrow> bool \<times> 'c keystore" where
  "keystore_free_loop CT K [] s = (False, s)"
| "keystore_free_loop CT K (i # is) s =
     (if subject (cert (key_mem s i)) = subject (root_cert K) then keystore_free_loop CT K is s
      else if keystore_is_pinned (key_mem s i) then keystore_free_loop CT K is s
      else let (ok, s') = keystore_remove CT K i s in
        if ok then (True, s')
        else keystore_free_loop CT K (if i \<in> set (public_keys s') \<or> keeps_link CT then is else []) s')"

definition keystore_free_up_space :: "contiki \<Rightarrow> 'c ks_config \<Rightarrow> 'c keystore \<Rightarrow> bool \<times> 'c keystore" where
  "keystore_free_up_space CT K s = keystore_free_loop CT K (public_keys s) s"

text \<open>The part of \<open>keystore_add\<close> that queues the certificate in a new block.\<close>

definition keystore_queue :: "contiki \<Rightarrow> certificate \<Rightarrow> addr \<Rightarrow> 'c keystore \<Rightarrow> 'c keystore" where
  "keystore_queue CT c i s = s\<lparr>key_mem := (key_mem s)(i := (key_mem s i)\<lparr>cert := c, pin_count := 0\<rparr>),
     public_keys_to_verify := list_add CT (public_keys_to_verify s) i, verifier_polled := True\<rparr>"

definition keystore_add :: "contiki \<Rightarrow> 'c ks_config \<Rightarrow> certificate \<Rightarrow> 'c keystore \<Rightarrow> bool \<times> 'c keystore" where
  "keystore_add CT K c s =
     (case keystore_find s (subject c) of
        Some _ \<Rightarrow> (True, s)
      | None \<Rightarrow>
          (case keystore_find_in_list s (subject c) (public_keys_to_verify s) of
             Some _ \<Rightarrow> (True, s\<lparr>verifier_polled := True\<rparr>)
           | None \<Rightarrow>
               (case memb_alloc CT PUBLIC_KEYSTORE_SIZE (public_keys_memb s) of
                  (Some i, used) \<Rightarrow> (True, keystore_queue CT c i (s\<lparr>public_keys_memb := used\<rparr>))
                | (None, used) \<Rightarrow>
                    let (ok, s) = keystore_free_up_space CT K (s\<lparr>public_keys_memb := used\<rparr>) in
                    if \<not> ok then (False, s)
                    else (case memb_alloc CT PUBLIC_KEYSTORE_SIZE (public_keys_memb s) of
                            (Some i, used) \<Rightarrow> (True, keystore_queue CT c i (s\<lparr>public_keys_memb := used\<rparr>))
                          | (None, used) \<Rightarrow> (False, s\<lparr>public_keys_memb := used\<rparr>)))))"

subsection \<open>Requesting keys\<close>

text \<open>
  \<open>sent\<close> is the result of \<open>coap_send_request\<close>; the third component of the result is the payload given to it, if it is
  called.
\<close>

definition request_public_key ::
  "'c ks_config \<Rightarrow> nat \<Rightarrow> bool \<Rightarrow> ipaddr \<Rightarrow> 'c keystore \<Rightarrow> bool \<times> 'c keystore \<times> u8 list option" where
  "request_public_key K now sent a s =
     (let eui64 = eui64_from_ipaddr (lladdr_from_iid K) (root_ipaddr K) (uip_ip6addr_normalise K a) in
      if keystore_find s eui64 \<noteq> None then (False, s, None)
      else if keystore_find_in_list s eui64 (public_keys_to_verify s) \<noteq> None
      then (False, s\<lparr>verifier_polled := True\<rparr>, None)
      else if timed_unlock_is_locked (key_in_use s) then (False, s, None)
      else let s = s\<lparr>key_req_payload := a\<rparr>;
               s' = (if sent then s\<lparr>key_in_use := timed_unlock_lock now (key_in_use s)\<rparr> else s)
           in (sent, s', Some (key_req_payload s)))"

text \<open>\<open>c0\<close> is what the local variable \<open>cert\<close> holds before it is written.\<close>

definition request_public_key_callback ::
  "contiki \<Rightarrow> ('en, 'de) nanocbor \<Rightarrow> 'c ks_config \<Rightarrow> certificate \<Rightarrow> nat \<Rightarrow> nat \<Rightarrow> u8 list \<Rightarrow> 'c keystore \<Rightarrow> 'c keystore" where
  "request_public_key_callback CT NC K c0 status code payload s =
     (if status = req_response CT
      then if code \<noteq> coap_content CT then s
           else let (r, _, c) = certificate_decode NC (decoder_init NC payload, c0) in
             if r = 0 then snd (keystore_add CT K c s) else s
      else if status = req_finished CT then s\<lparr>key_in_use := timed_unlock_unlock (key_in_use s)\<rparr>
      else s\<lparr>key_in_use := timed_unlock_unlock (key_in_use s)\<rparr>)"

subsection \<open>Verifying queued certificates\<close>

text \<open>The bytes that are verified: the encoded certificate without its signature, and the signature.\<close>

definition tbs_message :: "('en, 'de) nanocbor \<Rightarrow> certificate \<Rightarrow> u8 list" where
  "tbs_message NC c =
     (let en = snd (certificate_encode_tbs NC c (encoder_init NC TBS_CERTIFICATE_CBOR_LENGTH))
      in take (encoded_len NC en) (enc_buffer NC en) @ signature c)"

definition drop_unverified :: "contiki \<Rightarrow> addr \<Rightarrow> 'c keystore \<Rightarrow> 'c keystore" where
  "drop_unverified CT i s = s\<lparr>public_keys_to_verify := snd (list_remove CT (public_keys_to_verify s) i),
     public_keys_memb := snd (memb_free CT PUBLIC_KEYSTORE_SIZE (public_keys_memb s) i)\<rparr>"

definition keystore_add_start :: "contiki \<Rightarrow> ('en, 'de) nanocbor \<Rightarrow> 'c ks_config \<Rightarrow> 'c keystore \<Rightarrow> 'c keystore" where
  "keystore_add_start CT NC K s =
     (if add_buffer_in_use s then s
      else case public_keys_to_verify s of
        [] \<Rightarrow> s
      | i # _ \<Rightarrow>
          let c = cert (key_mem s i);
              (r, en) = certificate_encode_tbs NC c (encoder_init NC TBS_CERTIFICATE_CBOR_LENGTH);
              len = encoded_len NC en
          in if r \<noteq> 0 \<or> TBS_CERTIFICATE_CBOR_LENGTH < len then drop_unverified CT i s
             else let (ok, js) = queue_message_to_verify CT keystore_add_verifier i (tbs_message NC c)
                        (word_of_nat (len + DTLS_EC_SIG_SIZE)) (public_key (root_cert K)) (vjobs s);
                      s = s\<lparr>vjobs := js\<rparr>
                  in if \<not> ok then drop_unverified CT i s else s\<lparr>add_buffer_in_use := True\<rparr>)"

definition keystore_add_continued :: "contiki \<Rightarrow> 'c ks_config \<Rightarrow> addr \<Rightarrow> 'c keystore \<Rightarrow> addr option \<times> 'c keystore" where
  "keystore_add_continued CT K e s =
     (let entry = job_mem (vjobs s) e;
          i = v_data entry;
          s = s\<lparr>public_keys_to_verify := snd (list_remove CT (public_keys_to_verify s) i)\<rparr>;
          (item, s) =
            (if crypto_success K (v_result entry)
             then (Some i, s\<lparr>public_keys := list_push CT (public_keys s) i\<rparr>)
             else (None, s\<lparr>public_keys_memb := snd (memb_free CT PUBLIC_KEYSTORE_SIZE (public_keys_memb s) i)\<rparr>))
      in (item, s\<lparr>vjobs := queue_message_to_verify_done CT e (vjobs s), add_buffer_in_use := False\<rparr>))"

definition generate_shared_secret :: "'c ks_config \<Rightarrow> addr \<Rightarrow> u8 list \<Rightarrow> 'c keystore \<Rightarrow> 'c keystore" where
  "generate_shared_secret K i secret s =
     (let item = key_mem s i;
          sender_id = take OSCORE_ID_LEN (drop (EUI64_LENGTH - OSCORE_ID_LEN) (subject (our_cert K)));
          receiver_id = take OSCORE_ID_LEN (drop (EUI64_LENGTH - OSCORE_ID_LEN) (subject (cert item)));
          ctx = oscore_derive_ctx K (oscore_context item) secret (oscore_master_salt K) sender_id receiver_id
                  (oscore_id_context K) (if with_groupcom K then Some [1] else None);
          ctx = (if with_groupcom K
                 then oscore_add_group_keys K ctx (public_key (our_cert K)) (our_privkey K) (public_key (cert item))
                 else ctx)
      in s\<lparr>key_mem := (key_mem s)(i := item\<lparr>oscore_context := ctx\<rparr>)\<rparr>)"

definition keystore_init :: "contiki \<Rightarrow> 'c ks_config \<Rightarrow> nat \<Rightarrow> nat \<Rightarrow> 'c keystore \<Rightarrow> bool \<times> 'c keystore" where
  "keystore_init CT K clock_second current s =
     keystore_add CT K (root_cert K)
       (s\<lparr>vjobs := crypto_support_init (vjobs s), public_keys_memb := {}, public_keys := [], public_keys_to_verify := [],
          key_in_use := timed_unlock_init (key_in_use s) ''keystore'' (1 * 60 * clock_second) current,
          add_buffer_in_use := False\<rparr>)"

text \<open>
  The process \<open>keystore_add_verifier\<close>, cut where it waits: for an event (\<open>pkitem = None\<close>), or for the
  shared secret of the item it has pinned.  \<open>secret\<close> is the result of the key agreement, \<open>None\<close> when it failed.
\<close>

definition on_poll :: "contiki \<Rightarrow> ('en, 'de) nanocbor \<Rightarrow> 'c ks_config \<Rightarrow> 'c keystore \<Rightarrow> 'c keystore" where
  "on_poll CT NC K s = keystore_add_start CT NC K (s\<lparr>verifier_polled := False\<rparr>)"

definition on_message_verified :: "contiki \<Rightarrow> 'c ks_config \<Rightarrow> addr \<Rightarrow> 'c keystore \<Rightarrow> 'c keystore" where
  "on_message_verified CT K e s =
     (case keystore_add_continued CT K e s of
        (Some i, s) \<Rightarrow> keystore_pin i (s\<lparr>pkitem := Some i\<rparr>)
      | (None, s) \<Rightarrow> s\<lparr>verifier_polled := True\<rparr>)"

definition on_shared_secret :: "'c ks_config \<Rightarrow> u8 list option \<Rightarrow> 'c keystore \<Rightarrow> 'c keystore option" where
  "on_shared_secret K secret s =
     (case pkitem s of
        None \<Rightarrow> None
      | Some i \<Rightarrow>
          let s = (case secret of None \<Rightarrow> s | Some sec \<Rightarrow> generate_shared_secret K i sec s) in
          (case keystore_unpin i s of
             None \<Rightarrow> None
           | Some s \<Rightarrow> Some (s\<lparr>pkitem := None, verifier_polled := True\<rparr>)))"

subsection \<open>The pool and the two lists\<close>

definition keys_ok :: "'c keystore \<Rightarrow> bool" where
  "keys_ok s \<longleftrightarrow> distinct (public_keys s @ public_keys_to_verify s) \<and>
     public_keys_memb s = set (public_keys s @ public_keys_to_verify s) \<and> public_keys_memb s \<subseteq> {..<PUBLIC_KEYSTORE_SIZE}"

text \<open>Keys that must stay: the root's and those in use.\<close>

definition key_kept :: "'c ks_config \<Rightarrow> 'c keystore \<Rightarrow> addr \<Rightarrow> bool" where
  "key_kept K s i \<longleftrightarrow> subject (cert (key_mem s i)) = subject (root_cert K) \<or> keystore_is_pinned (key_mem s i)"

definition evict :: "addr set \<Rightarrow> 'c keystore \<Rightarrow> 'c keystore" where
  "evict E s = s\<lparr>public_keys := filter (\<lambda>i. i \<notin> E) (public_keys s), public_keys_memb := public_keys_memb s - E\<rparr>"

lemma evict_sel [simp]:
  "public_keys (evict E s) = filter (\<lambda>i. i \<notin> E) (public_keys s)" "public_keys_memb (evict E s) = public_keys_memb s - E"
  "public_keys_to_verify (evict E s) = public_keys_to_verify s" "key_mem (evict E s) = key_mem s"
  "vjobs (evict E s) = vjobs s" "add_buffer_in_use (evict E s) = add_buffer_in_use s"
  by (simp_all add: evict_def)

lemma evict_evict: "evict F (evict E s) = evict (E \<union> F) s"
  by (rule keystore.equality) (auto simp: evict_def intro: filter_cong)

lemma evict_empty [simp]: "evict {} s = s"
  by (simp add: evict_def)

lemma keys_ok_evict: "\<lbrakk>keys_ok s; E \<subseteq> set (public_keys s)\<rbrakk> \<Longrightarrow> keys_ok (evict E s)"
  by (auto simp: keys_ok_def)

text \<open>A removal takes the item out or does nothing; either way it reports failure.\<close>

lemma keystore_remove_result:
  assumes "contiki_ok CT" "keys_ok s"
  shows "keystore_remove CT K i s = (False, if i \<in> set (public_keys s) \<and> \<not> key_kept K s i then evict {i} s else s)"
proof (cases "i \<in> set (public_keys s)")
  case True
  then have "i \<in> public_keys_memb s" "i < PUBLIC_KEYSTORE_SIZE" "remove1 i (public_keys s) = filter (\<lambda>j. j \<notin> {i}) (public_keys s)"
    using assms(2) by (auto simp: keys_ok_def distinct_remove1_removeAll removeAll_filter_not_eq intro: filter_cong)
  then show ?thesis
    using assms(1) True by (simp add: keystore_remove_def contiki_simps key_kept_def evict_def del: mem_simps)
next
  case False
  then show ?thesis
    using assms(1) by (simp add: keystore_remove_def contiki_simps remove1_idem)
qed

definition evictable :: "'c ks_config \<Rightarrow> 'c keystore \<Rightarrow> addr set" where
  "evictable K s = {i \<in> set (public_keys s). \<not> key_kept K s i}"

lemma keystore_free_loop_result:
  assumes "contiki_ok CT" "keys_ok s"
  shows "\<exists>E\<subseteq>evictable K s. keystore_free_loop CT K is s = (False, evict E s) \<and>
    (keeps_link CT \<longrightarrow> set is \<inter> evictable K s \<subseteq> E)"
  using assms(2)
proof (induction "is" arbitrary: s)
  case Nil
  then show ?case by (intro exI [of _ "{}"]) simp
next
  case (Cons i "is")
  note rm = keystore_remove_result [OF assms(1) Cons.prems, of K i]
  show ?case
  proof (cases "i \<in> evictable K s")
    case True
    then have i: "i \<in> set (public_keys s)" "\<not> key_kept K s i" by (simp_all add: evictable_def)
    then have ok: "keys_ok (evict {i} s)" using Cons.prems by (intro keys_ok_evict) simp_all
    have ev: "evictable K (evict {i} s) = evictable K s - {i}" by (auto simp: evictable_def key_kept_def)
    obtain E where E: "E \<subseteq> evictable K s - {i}" "keystore_free_loop CT K is (evict {i} s) = (False, evict E (evict {i} s))"
        "keeps_link CT \<longrightarrow> set is \<inter> (evictable K s - {i}) \<subseteq> E"
      using Cons.IH [OF ok] unfolding ev by (elim exE conjE) (rule that)
    have step: "keystore_free_loop CT K (i # is) s =
        keystore_free_loop CT K (if keeps_link CT then is else []) (evict {i} s)"
      using rm i by (simp add: key_kept_def)
    show ?thesis
    proof (cases "keeps_link CT")
      case True
      then have "keystore_free_loop CT K (i # is) s = (False, evict (insert i E) s)"
        using step E(2) by (simp only: evict_evict if_True) simp
      moreover have "insert i E \<subseteq> evictable K s" "set (i # is) \<inter> evictable K s \<subseteq> insert i E"
        using E(1,3) True \<open>i \<in> evictable K s\<close> by auto
      ultimately show ?thesis by blast
    next
      case False
      then show ?thesis using step \<open>i \<in> evictable K s\<close> by (intro exI [of _ "{i}"]) simp
    qed
  next
    case False
    then have rm: "keystore_remove CT K i s = (False, s)" using rm by (auto simp: evictable_def)
    have "keystore_free_loop CT K (i # is) s = keystore_free_loop CT K is s \<or>
        \<not> keeps_link CT \<and> keystore_free_loop CT K (i # is) s = (False, evict {} s)"
      by (simp add: rm)
    then show ?thesis using Cons.IH [OF Cons.prems] False by auto
  qed
qed

text \<open>What \<open>keystore_add\<close> does when the certificate is not in the store, by the outcome of the allocation.\<close>

lemma keystore_add_new:
  assumes "keystore_find s (subject c) = None" "memb_alloc CT PUBLIC_KEYSTORE_SIZE (public_keys_memb s) = (Some i, used)"
  shows "keystore_add CT K c s = (True, keystore_queue CT c i (s\<lparr>public_keys_memb := used\<rparr>))"
  using assms by (simp add: keystore_add_def keystore_find_def keystore_find_in_list_def)

lemma keystore_add_no_room:
  assumes "keystore_find s (subject c) = None"
    "memb_alloc CT PUBLIC_KEYSTORE_SIZE (public_keys_memb s) = (None, public_keys_memb s)"
    "keystore_free_loop CT K (public_keys s) s = (False, s')"
  shows "keystore_add CT K c s = (False, s')"
  using assms by (simp add: keystore_add_def keystore_find_def keystore_find_in_list_def keystore_free_up_space_def)

lemma keystore_add_cases:
  assumes "contiki_ok CT" "keys_ok s"
  obtains (known) "keystore_add CT K c s = (True, s)" "keystore_find s (subject c) \<noteq> None"
  | (queued) i where "keystore_add CT K c s = (True, keystore_queue CT c i (s\<lparr>public_keys_memb := insert i (public_keys_memb s)\<rparr>))"
      "i < PUBLIC_KEYSTORE_SIZE" "i \<notin> public_keys_memb s" "keystore_find s (subject c) = None"
  | (full) E where "keystore_add CT K c s = (False, evict E s)" "public_keys_memb s = {..<PUBLIC_KEYSTORE_SIZE}"
      "E \<subseteq> evictable K s" "keeps_link CT \<longrightarrow> E = evictable K s" "keystore_find s (subject c) = None"
proof (cases "keystore_find s (subject c)")
  case None
  have sub: "public_keys_memb s \<subseteq> {..<PUBLIC_KEYSTORE_SIZE}" using assms(2) unfolding keys_ok_def by blast
  obtain r used where m: "memb_alloc CT PUBLIC_KEYSTORE_SIZE (public_keys_memb s) = (r, used)" by (rule prod.exhaust)
  show ?thesis
  proof (cases r)
    case r: None
    have eq: "public_keys_memb s = {..<PUBLIC_KEYSTORE_SIZE} \<and> used = public_keys_memb s"
      by (rule memb_alloc_None [OF assms(1) sub]) (simp only: m r)
    obtain E where E: "E \<subseteq> evictable K s" "keystore_free_loop CT K (public_keys s) s = (False, evict E s)"
        "keeps_link CT \<longrightarrow> set (public_keys s) \<inter> evictable K s \<subseteq> E"
      using keystore_free_loop_result [OF assms, of K "public_keys s"] by (elim exE conjE) (rule that)
    have "keystore_add CT K c s = (False, evict E s)"
      by (rule keystore_add_no_room [OF None _ E(2)]) (simp only: m r conjunct2 [OF eq])
    moreover have "keeps_link CT \<longrightarrow> E = evictable K s" using E(1,3) by (auto simp: evictable_def)
    ultimately show ?thesis by (rule full [OF _ conjunct1 [OF eq] E(1) _ None])
  next
    case (Some i)
    then have i: "i < PUBLIC_KEYSTORE_SIZE \<and> i \<notin> public_keys_memb s \<and> used = insert i (public_keys_memb s)"
      using m by (intro memb_alloc_Some [OF assms(1) sub]) (simp only:)
    have "keystore_add CT K c s = (True, keystore_queue CT c i (s\<lparr>public_keys_memb := used\<rparr>))"
      by (rule keystore_add_new [OF None]) (simp only: m Some)
    then show ?thesis using i by (intro queued [of i] None) simp_all
  qed
next
  case (Some i)
  show ?thesis by (rule known) (simp_all add: keystore_add_def Some)
qed

subsection \<open>The store over time\<close>

text \<open>
  The steps of a node: any caller adds, removes, pins or unpins keys and requests certificates, the
  server's answers come in, the store's process handles its events, other clients use the verifier, and the
  verifier works on its queue; \<open>told\<close> says whether its event can be posted.
\<close>

inductive ks_step :: "contiki \<Rightarrow> ('en, 'de) nanocbor \<Rightarrow> 'c ks_config \<Rightarrow> 'c keystore \<Rightarrow> 'c keystore \<Rightarrow> bool"
  for CT NC K where
  add: "keystore_add CT K c s = (b, s') \<Longrightarrow> ks_step CT NC K s s'"
| remove: "keystore_remove CT K i s = (b, s') \<Longrightarrow> ks_step CT NC K s s'"
| pin: "ks_step CT NC K s (keystore_pin i s)"
| unpin: "keystore_unpin i s = Some s' \<Longrightarrow> ks_step CT NC K s s'"
| request: "request_public_key K now sent a s = (b, s', p) \<Longrightarrow> ks_step CT NC K s s'"
| answer: "ks_step CT NC K s (request_public_key_callback CT NC K c0 status code payload s)"
| poll: "pkitem s = None \<Longrightarrow> ks_step CT NC K s (on_poll CT NC K s)"
| verified: "\<lbrakk>pkitem s = None; job_posted (vjobs s) = (keystore_add_verifier, e) # ps\<rbrakk> \<Longrightarrow>
    ks_step CT NC K s (on_message_verified CT K e (s\<lparr>vjobs := (vjobs s)\<lparr>job_posted := ps\<rparr>\<rparr>))"
| secret: "on_shared_secret K sec s = Some s' \<Longrightarrow> ks_step CT NC K s s'"
| client: "\<lbrakk>p \<noteq> keystore_add_verifier; queue_message_to_verify CT p dat msg len pk (vjobs s) = (b, js)\<rbrakk> \<Longrightarrow>
    ks_step CT NC K s (s\<lparr>vjobs := js\<rparr>)"
| client_done: "\<lbrakk>job_posted (vjobs s) = (p, e) # ps; p \<noteq> keystore_add_verifier\<rbrakk> \<Longrightarrow>
    ks_step CT NC K s (s\<lparr>vjobs := queue_message_to_verify_done CT e ((vjobs s)\<lparr>job_posted := ps\<rparr>)\<rparr>)"
| take: "take_job CT (vjobs s) = Some js \<Longrightarrow> ks_step CT NC K s (s\<lparr>vjobs := js\<rparr>)"
| finish: "\<lbrakk>job_current (vjobs s) = Some e;
      verifier_finish (ecc_verify K (v_pubkey (job_mem (vjobs s) e)) (v_message (job_mem (vjobs s) e))) told (vjobs s) = Some js\<rbrakk> \<Longrightarrow>
    ks_step CT NC K s (s\<lparr>vjobs := js\<rparr>)"

inductive ks_run :: "contiki \<Rightarrow> ('en, 'de) nanocbor \<Rightarrow> 'c ks_config \<Rightarrow> 'c keystore \<Rightarrow> 'c keystore \<Rightarrow> bool"
  for CT NC K where
  start: "ks_run CT NC K s s"
| step: "\<lbrakk>ks_run CT NC K s s'; ks_step CT NC K s' s''\<rbrakk> \<Longrightarrow> ks_run CT NC K s s''"

text \<open>A certificate whose signature the platform accepts under the root's key.\<close>

definition cert_verified :: "('en, 'de) nanocbor \<Rightarrow> 'c ks_config \<Rightarrow> certificate \<Rightarrow> bool" where
  "cert_verified NC K c \<longleftrightarrow> crypto_success K (ecc_verify K (public_key (root_cert K)) (tbs_message NC c))"

text \<open>
  The jobs of the store: at most one, for a certificate that still waits; and the posted results are those of
  the platform.
\<close>

definition ks_job :: "('en, 'de) nanocbor \<Rightarrow> 'c ks_config \<Rightarrow> 'c keystore \<Rightarrow> messages_to_verify_entry \<Rightarrow> bool" where
  "ks_job NC K s m \<longleftrightarrow> add_buffer_in_use s \<and> v_data m \<in> set (public_keys_to_verify s) \<and>
     v_message m = tbs_message NC (cert (key_mem s (v_data m))) \<and> v_pubkey m = public_key (root_cert K)"

definition own_jobs :: "messages_to_verify_entry jobs \<Rightarrow> addr list" where
  "own_jobs js = filter (\<lambda>e. v_process (job_mem js e) = keystore_add_verifier) (job_entries js)"

definition posted_ok :: "'c ks_config \<Rightarrow> messages_to_verify_entry jobs \<Rightarrow> bool" where
  "posted_ok K js \<longleftrightarrow> (\<forall>(p, e)\<in>set (job_posted js). p = v_process (job_mem js e) \<and>
     v_result (job_mem js e) = ecc_verify K (v_pubkey (job_mem js e)) (v_message (job_mem js e)))"

definition ks_inv :: "('en, 'de) nanocbor \<Rightarrow> 'c ks_config \<Rightarrow> 'c keystore \<Rightarrow> bool" where
  "ks_inv NC K s \<longleftrightarrow> keys_ok s \<and> jobs_ok MESSAGES_TO_VERIFY_SIZE (vjobs s) \<and> posted_ok K (vjobs s) \<and>
     length (own_jobs (vjobs s)) \<le> 1 \<and> (\<forall>e\<in>set (own_jobs (vjobs s)). ks_job NC K s (job_mem (vjobs s) e)) \<and>
     (\<forall>i\<in>set (public_keys s). cert_verified NC K (cert (key_mem s i)))"

lemma ks_inv_cong:
  assumes "ks_inv NC K s" "public_keys_memb s' = public_keys_memb s" "public_keys s' = public_keys s"
    "public_keys_to_verify s' = public_keys_to_verify s" "add_buffer_in_use s' = add_buffer_in_use s"
    "vjobs s' = vjobs s" "\<And>i. cert (key_mem s' i) = cert (key_mem s i)"
  shows "ks_inv NC K s'"
proof -
  have "keys_ok s' = keys_ok s" "ks_job NC K s' m = ks_job NC K s m" for m
    by (simp_all only: keys_ok_def ks_job_def assms)
  then show ?thesis using assms(1) unfolding ks_inv_def by (simp add: assms(3,6,7))
qed

lemma ks_inv_evict: "\<lbrakk>ks_inv NC K s; E \<subseteq> set (public_keys s)\<rbrakk> \<Longrightarrow> ks_inv NC K (evict E s)"
  unfolding ks_inv_def by (simp add: keys_ok_evict ks_job_def)

lemma ks_inv_queue:
  assumes "contiki_ok CT" "ks_inv NC K s" "i < PUBLIC_KEYSTORE_SIZE" "i \<notin> public_keys_memb s"
  shows "ks_inv NC K (keystore_queue CT c i (s\<lparr>public_keys_memb := insert i (public_keys_memb s)\<rparr>))"
proof -
  have "keys_ok s" using assms(2) by (simp add: ks_inv_def)
  then have i: "i \<notin> set (public_keys s)" "i \<notin> set (public_keys_to_verify s)" using assms(4) by (auto simp: keys_ok_def)
  then have ok: "keys_ok (keystore_queue CT c i (s\<lparr>public_keys_memb := insert i (public_keys_memb s)\<rparr>))"
    using \<open>keys_ok s\<close> assms(1,3) by (auto simp: keys_ok_def keystore_queue_def contiki_simps)
  show ?thesis
    using assms(2) i ok unfolding ks_inv_def
    by (auto simp: keystore_queue_def ks_job_def list_add_new [OF assms(1)])
qed

lemma ks_inv_add:
  assumes "contiki_ok CT" "ks_inv NC K s"
  shows "ks_inv NC K (snd (keystore_add CT K c s))"
proof -
  have "keys_ok s" using assms(2) by (simp add: ks_inv_def)
  with assms(1) show ?thesis
  proof (cases rule: keystore_add_cases [where K = K and c = c, consumes 2])
    case known
    then show ?thesis using assms(2) by simp
  next
    case (queued i)
    then show ?thesis using ks_inv_queue [OF assms queued(2,3)] by simp
  next
    case (full E)
    then have "E \<subseteq> set (public_keys s)" by (auto simp: evictable_def)
    then show ?thesis using ks_inv_evict [OF assms(2)] full(1) by simp
  qed
qed

lemma ks_inv_remove:
  assumes "contiki_ok CT" "ks_inv NC K s"
  shows "ks_inv NC K (snd (keystore_remove CT K i s))"
proof -
  have "keys_ok s" using assms(2) by (simp add: ks_inv_def)
  then show ?thesis using ks_inv_evict [OF assms(2), of "{i}"] assms(2) by (simp add: keystore_remove_result [OF assms(1)])
qed

text \<open>The verifier's queue moves on: the store's own jobs stay as they are or disappear.\<close>

definition same_job :: "messages_to_verify_entry \<Rightarrow> messages_to_verify_entry \<Rightarrow> bool" where
  "same_job m m' \<longleftrightarrow> v_process m' = v_process m \<and> v_data m' = v_data m \<and> v_message m' = v_message m \<and> v_pubkey m' = v_pubkey m"

lemma own_jobs_length:
  assumes "jobs_ok n js" "jobs_ok n js'" "set (own_jobs js') \<subseteq> set (own_jobs js)" "length (own_jobs js) \<le> 1"
  shows "length (own_jobs js') \<le> 1"
proof -
  have "distinct (own_jobs js)" "distinct (own_jobs js')" using assms(1,2) by (simp_all add: own_jobs_def jobs_ok_def)
  then show ?thesis
    using card_mono [OF _ assms(3)] assms(4) by (simp add: distinct_card)
qed

lemma keys_ok_frame [simp]:
  "keys_ok (s\<lparr>vjobs := js\<rparr>) = keys_ok s" "keys_ok (s\<lparr>add_buffer_in_use := b\<rparr>) = keys_ok s"
  by (simp_all add: keys_ok_def)

lemma ks_inv_jobs:
  assumes "ks_inv NC K s" "jobs_ok MESSAGES_TO_VERIFY_SIZE js" "posted_ok K js"
    "\<And>e. e \<in> set (own_jobs js) \<Longrightarrow> e \<in> set (own_jobs (vjobs s)) \<and> same_job (job_mem (vjobs s) e) (job_mem js e)"
  shows "ks_inv NC K (s\<lparr>vjobs := js\<rparr>)"
proof -
  have "length (own_jobs js) \<le> 1"
    using assms by (intro own_jobs_length [of MESSAGES_TO_VERIFY_SIZE "vjobs s" js]) (auto simp: ks_inv_def)
  moreover have "ks_job NC K (s\<lparr>vjobs := js\<rparr>) (job_mem js e)" if "e \<in> set (own_jobs js)" for e
    using assms(1) assms(4) [OF that] by (auto simp: ks_inv_def ks_job_def same_job_def)
  ultimately show ?thesis using assms(1-3) by (simp add: ks_inv_def)
qed

lemma jobs_ok_of_inv: "ks_inv NC K s \<Longrightarrow> jobs_ok MESSAGES_TO_VERIFY_SIZE (vjobs s)"
  by (simp add: ks_inv_def)

lemma job_step_vjobs:
  "\<lbrakk>ks_inv NC K s; contiki_ok CT; job_step CT MESSAGES_TO_VERIFY_SIZE v_process (\<lambda>r e. e\<lparr>v_result := r\<rparr>) (vjobs s) js\<rbrakk> \<Longrightarrow>
    jobs_ok MESSAGES_TO_VERIFY_SIZE js"
  using job_step_ok jobs_ok_of_inv by blast

lemma ks_inv_client:
  assumes "contiki_ok CT" "ks_inv NC K s" "p \<noteq> keystore_add_verifier"
    "queue_message_to_verify CT p dat msg len pk (vjobs s) = (b, js)"
  shows "ks_inv NC K (s\<lparr>vjobs := js\<rparr>)"
proof (rule ks_inv_jobs [OF assms(2)])
  let ?f = "\<lambda>e. e\<lparr>v_process := p, v_data := dat, v_message := msg, v_message_len := len, v_pubkey := pk\<rparr>"
  have q: "queue_job CT MESSAGES_TO_VERIFY_SIZE ?f (vjobs s) = (b, js)"
    using assms(4) by (simp add: queue_message_to_verify_def)
  show ok: "jobs_ok MESSAGES_TO_VERIFY_SIZE js"
    by (rule job_step_vjobs [OF assms(2,1) job_step.submit [OF q]])
  have post: "posted_ok K (vjobs s)" using assms(2) by (simp add: ks_inv_def)
  have "posted_ok K js \<and> (\<forall>e\<in>set (own_jobs js). e \<in> set (own_jobs (vjobs s)) \<and> job_mem js e = job_mem (vjobs s) e)"
    using assms(1) jobs_ok_of_inv [OF assms(2)]
  proof (cases rule: queue_job_cases [where fill = ?f, consumes 2])
    case refused
    then show ?thesis using q post by (simp add: own_jobs_def)
  next
    case (queued i)
    then have js: "js = (vjobs s)\<lparr>jobs_memb := insert i (jobs_memb (vjobs s)), job_mem := (job_mem (vjobs s))(i := ?f (job_mem (vjobs s) i)),
        jobs_queue := jobs_queue (vjobs s) @ [i]\<rparr>" using q by simp
    have "(a, i) \<notin> set (job_posted (vjobs s))" for a using queued(3) by (force simp: job_entries_def)
    then have "posted_ok K js" using post by (auto simp: js posted_ok_def)
    then show ?thesis using assms(3) queued(3) by (auto simp: js own_jobs_def job_entries_def)
  qed
  then show "posted_ok K js" "\<And>e. e \<in> set (own_jobs js) \<Longrightarrow> e \<in> set (own_jobs (vjobs s)) \<and> same_job (job_mem (vjobs s) e) (job_mem js e)"
    by (auto simp: same_job_def)
qed

lemma ks_inv_done:
  assumes "contiki_ok CT" "ks_inv NC K s" "job_posted (vjobs s) = (p, e) # ps"
  shows "ks_inv NC K (s\<lparr>vjobs := queue_message_to_verify_done CT e ((vjobs s)\<lparr>job_posted := ps\<rparr>)\<rparr>)"
proof (rule ks_inv_jobs [OF assms(2)])
  let ?js = "queue_message_to_verify_done CT e ((vjobs s)\<lparr>job_posted := ps\<rparr>)"
  show "jobs_ok MESSAGES_TO_VERIFY_SIZE ?js"
    unfolding queue_message_to_verify_done_def
    by (rule job_step_vjobs [OF assms(2,1) job_step.handled [where p = p]]) (rule assms(3))
  have "posted_ok K (vjobs s)" using assms(2) by (simp add: ks_inv_def)
  then show "posted_ok K ?js"
    using assms(3) by (simp add: posted_ok_def queue_message_to_verify_done_def job_done_def)
  show "f \<in> set (own_jobs (vjobs s)) \<and> same_job (job_mem (vjobs s) f) (job_mem ?js f)" if "f \<in> set (own_jobs ?js)" for f
    using that assms(3)
    by (auto simp: own_jobs_def job_entries_def queue_message_to_verify_done_def job_done_def same_job_def)
qed

lemma ks_inv_take:
  assumes "contiki_ok CT" "ks_inv NC K s" "take_job CT (vjobs s) = Some js"
  shows "ks_inv NC K (s\<lparr>vjobs := js\<rparr>)"
proof (rule ks_inv_jobs [OF assms(2)])
  show "jobs_ok MESSAGES_TO_VERIFY_SIZE js" by (rule job_step_vjobs [OF assms(2,1) job_step.take [OF assms(3)]])
  obtain i q where "job_current (vjobs s) = None" "jobs_queue (vjobs s) = i # q"
      "js = (vjobs s)\<lparr>jobs_queue := q, job_current := Some i\<rparr>"
    using assms(1,3) by (cases "jobs_queue (vjobs s)") (auto simp: take_job_def contiki_simps split: if_splits)
  then have js: "job_posted js = job_posted (vjobs s)" "job_mem js = job_mem (vjobs s)" "set (job_entries js) = set (job_entries (vjobs s))"
    by (auto simp: job_entries_def)
  show "posted_ok K js" using assms(2) by (simp add: ks_inv_def posted_ok_def js)
  show "e \<in> set (own_jobs (vjobs s)) \<and> same_job (job_mem (vjobs s) e) (job_mem js e)" if "e \<in> set (own_jobs js)" for e
    using that by (simp add: own_jobs_def js same_job_def)
qed

lemma ks_inv_finish:
  assumes "contiki_ok CT" "ks_inv NC K s" "job_current (vjobs s) = Some e"
    "verifier_finish (ecc_verify K (v_pubkey (job_mem (vjobs s) e)) (v_message (job_mem (vjobs s) e))) told (vjobs s) = Some js"
  shows "ks_inv NC K (s\<lparr>vjobs := js\<rparr>)"
proof (rule ks_inv_jobs [OF assms(2)])
  let ?r = "ecc_verify K (v_pubkey (job_mem (vjobs s) e)) (v_message (job_mem (vjobs s) e))"
  show "jobs_ok MESSAGES_TO_VERIFY_SIZE js"
    using assms(4) unfolding verifier_finish_def by (intro job_step_vjobs [OF assms(2,1)] job_step.finish)
  have js: "js = (vjobs s)\<lparr>job_mem := (job_mem (vjobs s))(e := (job_mem (vjobs s) e)\<lparr>v_result := ?r\<rparr>), job_current := None,
      job_posted := job_posted (vjobs s) @ (if told then [(v_process (job_mem (vjobs s) e), e)] else []), jobs_lost := jobs_lost (vjobs s) @ (if told then [] else [e])\<rparr>"
    using assms(3,4) by (cases told) (auto simp: verifier_finish_def finish_job_eq)
  have "e \<notin> snd ` set (job_posted (vjobs s))"
    using jobs_ok_of_inv [OF assms(2)] assms(3) by (simp add: jobs_ok_def job_entries_def)
  then have "(a, e) \<notin> set (job_posted (vjobs s))" for a by (metis image_eqI snd_conv)
  then show "posted_ok K js" using assms(2) by (auto simp: ks_inv_def posted_ok_def js)
  show "f \<in> set (own_jobs (vjobs s)) \<and> same_job (job_mem (vjobs s) f) (job_mem js f)" if "f \<in> set (own_jobs js)" for f
    using that assms(3) by (auto simp: own_jobs_def js job_entries_def same_job_def split: if_splits)
qed

text \<open>With no job of its own in flight the store may drop or promote a waiting certificate.\<close>

lemma ks_inv_drop:
  assumes "contiki_ok CT" "ks_inv NC K s" "own_jobs (vjobs s) = []" "i \<in> set (public_keys_to_verify s)"
  shows "ks_inv NC K (drop_unverified CT i s)"
proof -
  have "keys_ok s" using assms(2) by (simp add: ks_inv_def)
  then have "memb_free CT PUBLIC_KEYSTORE_SIZE (public_keys_memb s) i = (0, public_keys_memb s - {i})"
    using assms(4) by (intro memb_free_used [OF assms(1)]) (auto simp: keys_ok_def)
  then have "keys_ok (drop_unverified CT i s)"
    using assms(4) \<open>keys_ok s\<close> by (auto simp: keys_ok_def drop_unverified_def list_remove_ok [OF assms(1)])
  then show ?thesis using assms(2,3) by (simp add: ks_inv_def) (simp add: drop_unverified_def)
qed

lemma ks_inv_promote:
  assumes "contiki_ok CT" "ks_inv NC K s" "own_jobs (vjobs s) = []" "i \<in> set (public_keys_to_verify s)"
    "cert_verified NC K (cert (key_mem s i))"
  shows "ks_inv NC K (s\<lparr>public_keys_to_verify := remove1 i (public_keys_to_verify s), public_keys := list_push CT (public_keys s) i\<rparr>)"
proof -
  have k: "keys_ok s" using assms(2) by (simp add: ks_inv_def)
  then have "i \<notin> set (public_keys s)" using assms(4) by (auto simp: keys_ok_def)
  then have p: "list_push CT (public_keys s) i = i # public_keys s" by (rule list_push_new [OF assms(1)])
  have "keys_ok (s\<lparr>public_keys_to_verify := remove1 i (public_keys_to_verify s), public_keys := i # public_keys s\<rparr>)"
    using k assms(4) \<open>i \<notin> set (public_keys s)\<close> by (auto simp: keys_ok_def)
  then show ?thesis using assms(2,3,5) unfolding p by (simp add: ks_inv_def)
qed

lemma ks_inv_start_job:
  assumes "contiki_ok CT" "ks_inv NC K s" "own_jobs (vjobs s) = []" "i \<in> set (public_keys_to_verify s)"
    "queue_message_to_verify CT keystore_add_verifier i (tbs_message NC (cert (key_mem s i))) len (public_key (root_cert K)) (vjobs s) = (True, js)"
  shows "ks_inv NC K (s\<lparr>vjobs := js, add_buffer_in_use := True\<rparr>)"
proof -
  let ?f = "\<lambda>e. e\<lparr>v_process := keystore_add_verifier, v_data := i, v_message := tbs_message NC (cert (key_mem s i)),
    v_message_len := len, v_pubkey := public_key (root_cert K)\<rparr>"
  have q: "queue_job CT MESSAGES_TO_VERIFY_SIZE ?f (vjobs s) = (True, js)"
    using assms(5) by (simp add: queue_message_to_verify_def)
  have jok: "jobs_ok MESSAGES_TO_VERIFY_SIZE js" by (rule job_step_vjobs [OF assms(2,1) job_step.submit [OF q]])
  have post: "posted_ok K (vjobs s)" using assms(2) by (simp add: ks_inv_def)
  obtain e where e: "js = (vjobs s)\<lparr>jobs_memb := insert e (jobs_memb (vjobs s)), job_mem := (job_mem (vjobs s))(e := ?f (job_mem (vjobs s) e)),
      jobs_queue := jobs_queue (vjobs s) @ [e]\<rparr>" "e \<notin> set (job_entries (vjobs s))"
    using assms(1) jobs_ok_of_inv [OF assms(2)] by (cases rule: queue_job_cases [where fill = ?f, consumes 2]) (use q in auto)
  have "(a, e) \<notin> set (job_posted (vjobs s))" for a using e(2) by (force simp: job_entries_def)
  then have "posted_ok K js" using post by (auto simp: e(1) posted_ok_def)
  moreover have "own_jobs js = [e]"
  proof -
    let ?P = "\<lambda>f. v_process (job_mem js f) = keystore_add_verifier"
    obtain ys where ys: "job_entries (vjobs s) = jobs_queue (vjobs s) @ ys" "job_entries js = jobs_queue (vjobs s) @ e # ys"
      by (simp add: job_entries_def e(1))
    then have "filter ?P (jobs_queue (vjobs s)) = []" "filter ?P ys = []"
      using assms(3) e(2) unfolding own_jobs_def filter_empty_conv by (auto simp: e(1))
    then show ?thesis unfolding own_jobs_def ys by (simp add: e(1))
  qed
  moreover have "ks_job NC K (s\<lparr>vjobs := js, add_buffer_in_use := True\<rparr>) (job_mem js e)"
    using assms(4) by (simp add: ks_job_def e(1))
  moreover have "keys_ok (s\<lparr>vjobs := js, add_buffer_in_use := True\<rparr>)" using assms(2) by (simp add: ks_inv_def)
  ultimately show ?thesis using assms(2) jok by (simp add: ks_inv_def)
qed

lemma ks_inv_poll:
  assumes "contiki_ok CT" "ks_inv NC K s"
  shows "ks_inv NC K (keystore_add_start CT NC K s)"
proof (cases "add_buffer_in_use s")
  case False
  then have own: "own_jobs (vjobs s) = []"
    using assms(2) by (cases "own_jobs (vjobs s)") (auto simp: ks_inv_def ks_job_def)
  show ?thesis
  proof (cases "public_keys_to_verify s")
    case (Cons i rest)
    then have i: "i \<in> set (public_keys_to_verify s)" by simp
    let ?en = "certificate_encode_tbs NC (cert (key_mem s i)) (encoder_init NC TBS_CERTIFICATE_CBOR_LENGTH)"
    let ?q = "queue_message_to_verify CT keystore_add_verifier i (tbs_message NC (cert (key_mem s i)))
      (word_of_nat (encoded_len NC (snd ?en) + DTLS_EC_SIG_SIZE)) (public_key (root_cert K)) (vjobs s)"
    show ?thesis
    proof (cases "fst ?en \<noteq> 0 \<or> TBS_CERTIFICATE_CBOR_LENGTH < encoded_len NC (snd ?en)")
      case True
      then show ?thesis
        using ks_inv_drop [OF assms own i] False Cons by (simp add: keystore_add_start_def split_def Let_def)
    next
      case enc: False
      obtain b js where q: "?q = (b, js)" by (rule prod.exhaust)
      show ?thesis
      proof (cases b)
        case True
        then show ?thesis
          using ks_inv_start_job [OF assms own i] q enc False Cons by (simp add: keystore_add_start_def split_def Let_def)
      next
        case refused: False
        have "js = vjobs s"
          using queue_job_refused [OF assms(1) jobs_ok_of_inv [OF assms(2)]] q refused
          by (simp add: queue_message_to_verify_def)
        then show ?thesis
          using ks_inv_drop [OF assms own i] q refused enc False Cons by (simp add: keystore_add_start_def split_def Let_def)
      qed
    qed
  qed (use assms False in \<open>simp add: keystore_add_start_def\<close>)
qed (use assms in \<open>simp add: keystore_add_start_def\<close>)

text \<open>Handling a result: the job leaves, and its certificate is promoted or dropped.\<close>

lemma ks_inv_verified:
  assumes "contiki_ok CT" "ks_inv NC K s" "job_posted (vjobs s) = (keystore_add_verifier, e) # ps"
  shows "ks_inv NC K (snd (keystore_add_continued CT K e (s\<lparr>vjobs := (vjobs s)\<lparr>job_posted := ps\<rparr>\<rparr>)))"
proof -
  let ?m = "job_mem (vjobs s) e"
  let ?t = "s\<lparr>vjobs := queue_message_to_verify_done CT e ((vjobs s)\<lparr>job_posted := ps\<rparr>)\<rparr>"
  have inv: "ks_inv NC K ?t" by (rule ks_inv_done [OF assms])
  have post: "v_process ?m = keystore_add_verifier" "v_result ?m = ecc_verify K (v_pubkey ?m) (v_message ?m)"
    using assms(2,3) by (auto simp: ks_inv_def posted_ok_def)
  then have e: "e \<in> set (own_jobs (vjobs s))" using assms(3) by (simp add: own_jobs_def job_entries_def)
  then have job: "ks_job NC K s ?m" using assms(2) by (simp add: ks_inv_def)
  have own: "own_jobs (vjobs s) = [e]"
    using e assms(2) by (cases "own_jobs (vjobs s)") (auto simp: ks_inv_def)
  have "e \<notin> set (own_jobs (vjobs ?t))"
    using jobs_ok_of_inv [OF assms(2)] assms(3)
    by (simp add: own_jobs_def jobs_ok_def job_entries_def queue_message_to_verify_done_def job_done_def)
  moreover have "set (own_jobs (vjobs ?t)) \<subseteq> set (own_jobs (vjobs s))"
    using assms(3) by (auto simp: own_jobs_def job_entries_def queue_message_to_verify_done_def job_done_def)
  ultimately have none: "own_jobs (vjobs ?t) = []"
    unfolding own by (cases "own_jobs (vjobs ?t)") auto
  have i: "v_data ?m \<in> set (public_keys_to_verify ?t)" using job by (simp add: ks_job_def)
  have buf: "ks_inv NC K (u\<lparr>add_buffer_in_use := False\<rparr>)" if "ks_inv NC K u" "own_jobs (vjobs u) = []" for u
    using that by (simp add: ks_inv_def)
  show ?thesis
  proof (cases "crypto_success K (v_result ?m)")
    case True
    then have "cert_verified NC K (cert (key_mem ?t (v_data ?m)))"
      using job post by (simp add: cert_verified_def ks_job_def)
    then have "ks_inv NC K (?t\<lparr>public_keys_to_verify := remove1 (v_data ?m) (public_keys_to_verify ?t),
        public_keys := list_push CT (public_keys ?t) (v_data ?m)\<rparr>\<lparr>add_buffer_in_use := False\<rparr>)"
      using none by (intro buf ks_inv_promote [OF assms(1) inv none i]) simp_all
    then show ?thesis
      by (rule ks_inv_cong) (use True in \<open>simp_all add: keystore_add_continued_def list_remove_ok [OF assms(1)] Let_def\<close>)
  next
    case False
    have "ks_inv NC K ((drop_unverified CT (v_data ?m) ?t)\<lparr>add_buffer_in_use := False\<rparr>)"
      using none by (intro buf ks_inv_drop [OF assms(1) inv none i]) (simp add: drop_unverified_def)
    then show ?thesis
      by (rule ks_inv_cong) (use False in \<open>simp_all add: keystore_add_continued_def drop_unverified_def Let_def\<close>)
  qed
qed

lemma ks_inv_frame:
  "ks_inv NC K s \<Longrightarrow> ks_inv NC K (keystore_pin i s)"
  "\<lbrakk>ks_inv NC K s; keystore_unpin i s = Some s'\<rbrakk> \<Longrightarrow> ks_inv NC K s'"
  "ks_inv NC K s \<Longrightarrow> ks_inv NC K (generate_shared_secret K i sec s)"
  "ks_inv NC K s \<Longrightarrow> ks_inv NC K (s\<lparr>verifier_polled := b\<rparr>)"
  "ks_inv NC K s \<Longrightarrow> ks_inv NC K (s\<lparr>pkitem := p\<rparr>)"
  "ks_inv NC K s \<Longrightarrow> ks_inv NC K (s\<lparr>key_in_use := l\<rparr>)"
  "ks_inv NC K s \<Longrightarrow> ks_inv NC K (s\<lparr>key_req_payload := pl\<rparr>)"
  by (erule ks_inv_cong;
      force simp: keystore_pin_def keystore_unpin_def generate_shared_secret_def Let_def split: if_splits)+

lemma ks_inv_on_message_verified:
  assumes "contiki_ok CT" "ks_inv NC K s" "job_posted (vjobs s) = (keystore_add_verifier, e) # ps"
  shows "ks_inv NC K (on_message_verified CT K e (s\<lparr>vjobs := (vjobs s)\<lparr>job_posted := ps\<rparr>\<rparr>))"
proof -
  obtain r t where t: "keystore_add_continued CT K e (s\<lparr>vjobs := (vjobs s)\<lparr>job_posted := ps\<rparr>\<rparr>) = (r, t)"
    by (rule prod.exhaust)
  have inv: "ks_inv NC K t" using ks_inv_verified [OF assms] unfolding t by simp
  show ?thesis
    by (cases r) (simp_all only: on_message_verified_def t prod.case option.case ks_inv_frame inv)
qed

lemma ks_inv_on_shared_secret:
  assumes "ks_inv NC K s" "on_shared_secret K sec s = Some s'"
  shows "ks_inv NC K s'"
proof -
  obtain i where i: "pkitem s = Some i" using assms(2) by (auto simp: on_shared_secret_def split: option.splits)
  define t where "t = (case sec of None \<Rightarrow> s | Some k \<Rightarrow> generate_shared_secret K i k s)"
  have t: "ks_inv NC K t" using assms(1) by (cases sec) (simp_all only: t_def option.case ks_inv_frame(3))
  obtain u where u: "keystore_unpin i t = Some u" "s' = u\<lparr>pkitem := None, verifier_polled := True\<rparr>"
    using assms(2) i by (auto simp: on_shared_secret_def t_def [symmetric] Let_def split: option.splits)
  from ks_inv_frame(2) [OF t u(1)] show ?thesis by (simp only: u(2) ks_inv_frame(4,5))
qed

lemma ks_inv_request:
  assumes "ks_inv NC K s" "request_public_key K now sent a s = (b, s', p)"
  shows "ks_inv NC K s'"
proof -
  have "s' \<in> {s, s\<lparr>verifier_polled := True\<rparr>, s\<lparr>key_req_payload := a\<rparr>,
      s\<lparr>key_req_payload := a, key_in_use := timed_unlock_lock now (key_in_use s)\<rparr>}"
    using assms(2) by (simp add: request_public_key_def Let_def split: if_splits)
  then show ?thesis by (elim insertE) (simp_all only: ks_inv_frame assms(1) empty_iff)
qed

lemma ks_inv_answer:
  assumes "contiki_ok CT" "ks_inv NC K s"
  shows "ks_inv NC K (request_public_key_callback CT NC K c0 status code payload s)"
proof -
  have "request_public_key_callback CT NC K c0 status code payload s \<in>
      insert s (insert (s\<lparr>key_in_use := timed_unlock_unlock (key_in_use s)\<rparr>) (range (\<lambda>c. snd (keystore_add CT K c s))))"
    by (simp add: request_public_key_callback_def split_def Let_def)
  then show ?thesis by (elim insertE imageE) (simp_all only: ks_inv_frame assms ks_inv_add)
qed

lemma ks_step_inv:
  assumes "ks_step CT NC K s s'" "contiki_ok CT" "ks_inv NC K s"
  shows "ks_inv NC K s'"
  using assms
proof (induction rule: ks_step.induct)
  case (add c s b s')
  then show ?case using ks_inv_add [OF add(2,3), of c] by simp
next
  case (remove i s b s')
  then show ?case using ks_inv_remove [OF remove(2,3), of i] by simp
next
  case (poll s)
  from ks_inv_poll [OF poll(2) ks_inv_frame(4) [OF poll(3)]] show ?case unfolding on_poll_def .
next
  case (secret sec s s')
  from secret(3,1) show ?case by (rule ks_inv_on_shared_secret)
next
  case (request now sent a s b s' p)
  from request(3,1) show ?case by (rule ks_inv_request)
next
  case (unpin i s s')
  from unpin(3,1) show ?case by (rule ks_inv_frame(2))
qed (rule ks_inv_frame(1) ks_inv_answer ks_inv_on_message_verified ks_inv_client ks_inv_done ks_inv_take ks_inv_finish; assumption)+

lemma ks_run_inv: "\<lbrakk>ks_run CT NC K s s'; contiki_ok CT; ks_inv NC K s\<rbrakk> \<Longrightarrow> ks_inv NC K s'"
  by (induction rule: ks_run.induct) (auto intro: ks_step_inv)

lemma ks_inv_init:
  assumes "contiki_ok CT" "job_posted (vjobs s) = []"
  shows "ks_inv NC K (snd (keystore_init CT K clk cur s))"
  unfolding keystore_init_def
  by (rule ks_inv_add [OF assms(1)])
    (use assms(2) in \<open>simp add: ks_inv_def keys_ok_def jobs_ok_def posted_ok_def own_jobs_def job_entries_def crypto_support_init_def\<close>)

text \<open>
  C1: after any run of the node from the initialisation of the store, every key the store has to offer comes
  from a certificate whose signature the platform accepted under the root's public key.
\<close>

theorem keystore_only_verified_keys:
  assumes "contiki_ok CT" "job_posted (vjobs s0) = []" "ks_run CT NC K (snd (keystore_init CT K clk cur s0)) s"
  shows "(\<forall>i\<in>set (public_keys s). cert_verified NC K (cert (key_mem s i))) \<and>
    (\<forall>a pk. keystore_find_pubkey K s a = Some pk \<longrightarrow> (\<exists>c. cert_verified NC K c \<and> public_key c = pk))"
proof -
  have "ks_inv NC K s" by (rule ks_run_inv [OF assms(3,1) ks_inv_init [OF assms(1,2)]])
  then have v: "cert_verified NC K (cert (key_mem s i))" if "i \<in> set (public_keys s)" for i using that by (simp add: ks_inv_def)
  have "\<exists>c. cert_verified NC K c \<and> public_key c = pk" if pk: "keystore_find_pubkey K s a = Some pk" for a pk
  proof -
    obtain i where "keystore_find_addr K s a = Some i" "pk = public_key (cert (key_mem s i))"
      using pk by (auto simp: keystore_find_pubkey_def split: option.splits)
    then show ?thesis
      using v [of i] by (auto simp: keystore_find_addr_def keystore_find_def keystore_find_in_list_def dest!: find_SomeD)
  qed
  then show ?thesis using v by blast
qed

text \<open>A small node, on which the root's own certificate is verified.\<close>

definition small_cert :: certificate where
  "small_cert = \<lparr>serial_number = 7, issuer = [1], subject = [2], validity_not_before = 0,
     validity_not_after = 9, tags = \<lparr>device_class = 5\<rparr>, public_key = [3], signature = [4]\<rparr>"

definition example_config :: "unit ks_config" where
  "example_config = \<lparr>root_cert = small_cert, our_cert = small_cert, our_privkey = [], is_addr_linklocal = (\<lambda>_. False),
     lladdr_from_iid = drop 8, root_ipaddr = replicate 16 9, crypto_success = (\<lambda>r. r = 0),
     ecc_verify = (\<lambda>pk msg. if msg = [] then 1 else 0),
     oscore_derive_ctx = (\<lambda>c _ _ _ _ _ _. c), oscore_add_group_keys = (\<lambda>c _ _ _. c), oscore_master_salt = None,
     oscore_id_context = None, with_groupcom = False\<rparr>"

definition example_store :: "unit keystore" where
  "example_store = \<lparr>public_keys_memb = {}, public_keys = [], public_keys_to_verify = [],
     key_mem = (\<lambda>_. \<lparr>cert = small_cert, oscore_context = (), pin_count = 0\<rparr>), key_req_payload = [],
     key_in_use = \<lparr>locked = False, lname = [], timer = None, duration = 0, owner = 0\<rparr>, add_buffer_in_use = False,
     verifier_polled = False, vjobs = example_jobs, pkitem = None\<rparr>"

definition example_s1 :: "unit keystore" where
  "example_s1 = snd (keystore_init ref_contiki example_config 128 0 example_store)"

definition example_s2 :: "unit keystore" where
  "example_s2 = on_poll ref_contiki ref_nanocbor example_config example_s1"

definition take_step :: "unit keystore \<Rightarrow> unit keystore" where
  "take_step s = s\<lparr>vjobs := the (take_job ref_contiki (vjobs s))\<rparr>"

definition finish_step :: "unit keystore \<Rightarrow> unit keystore" where
  "finish_step s =
     (let m = job_mem (vjobs s) 0
      in s\<lparr>vjobs := the (verifier_finish (ecc_verify example_config (v_pubkey m) (v_message m)) True (vjobs s))\<rparr>)"

definition example_s3 :: "unit keystore" where
  "example_s3 = take_step example_s2"

definition example_s4 :: "unit keystore" where
  "example_s4 = finish_step example_s3"

definition example_s5 :: "unit keystore" where
  "example_s5 = on_message_verified ref_contiki example_config 0 (example_s4\<lparr>vjobs := (vjobs example_s4)\<lparr>job_posted := []\<rparr>\<rparr>)"

lemma example_s1_eq:
  "example_s1 = example_store\<lparr>public_keys_memb := {0}, public_keys_to_verify := [0], verifier_polled := True,
     key_in_use := timed_unlock_init (key_in_use example_store) ''keystore'' 7680 0\<rparr>"
  by (rule keystore.equality)
    (simp_all add: example_s1_def keystore_init_def keystore_add_def keystore_find_def keystore_find_in_list_def ref_contiki_def
      keystore_queue_def example_store_def crypto_support_init_def example_jobs_def example_config_def upt_rec
      PUBLIC_KEYSTORE_SIZE_def fun_eq_iff)

lemma example_store_sel:
  "add_buffer_in_use example_store = False" "cert (key_mem example_store i) = small_cert" "vjobs example_store = example_jobs"
  "pkitem example_store = None" "public_keys example_store = []"
  by (simp_all add: example_store_def)

lemma example_encode:
  "certificate_encode_tbs ref_nanocbor small_cert (encoder_init ref_nanocbor n) =
    (0, [TArray 6, TUint 7, TBstr [1], TArray 2, TUint 0, TUint 9, TBstr [2], TArray 1, TUint 5, TBstr [3]])"
  by (simp add: certificate_encode_tbs_def ignored_def serialise_stereotype_tags_def ref_nanocbor_def small_cert_def)

definition example_job :: messages_to_verify_entry where
  "example_job = \<lparr>v_process = keystore_add_verifier, v_message = replicate 10 0 @ [4], v_message_len = 74, v_result = 0, v_pubkey = [3], v_data = 0\<rparr>"

lemma example_queue:
  "queue_message_to_verify ref_contiki keystore_add_verifier 0 (replicate 10 0 @ [4]) 74 [3] example_jobs =
    (True, example_jobs\<lparr>jobs_memb := {0}, jobs_queue := [0], job_mem := (job_mem example_jobs)(0 := example_job)\<rparr>)"
  by (simp add: queue_message_to_verify_def queue_job_def ref_contiki_def example_jobs_def example_job_def
      MESSAGES_TO_VERIFY_SIZE_def upt_rec)

lemma example_s2_eq:
  "example_s2 = example_s1\<lparr>verifier_polled := False, add_buffer_in_use := True,
     vjobs := example_jobs\<lparr>jobs_memb := {0}, jobs_queue := [0], job_mem := (job_mem example_jobs)(0 := example_job)\<rparr>\<rparr>"
proof -
  have "tbs_message ref_nanocbor small_cert = replicate 10 0 @ [4]"
    unfolding tbs_message_def example_encode by (simp add: ref_nanocbor_def small_cert_def numeral_eq_Suc)
  moreover have "encoded_len ref_nanocbor = length" "public_key (root_cert example_config) = [3]"
    by (simp_all add: ref_nanocbor_def example_config_def small_cert_def)
  ultimately show ?thesis
    using example_queue
    by (simp add: example_s2_def on_poll_def keystore_add_start_def example_s1_eq example_store_sel example_encode Let_def
        TBS_CERTIFICATE_CBOR_LENGTH_def DTLS_EC_SIG_SIZE_def DTLS_EC_KEY_SIZE_def)
qed

lemma example_s3_eq:
  "example_s3 = example_s2\<lparr>vjobs := (vjobs example_s2)\<lparr>jobs_queue := [], job_current := Some 0\<rparr>\<rparr>"
  by (simp add: example_s3_def take_step_def take_job_def example_s2_eq queue_ok example_jobs_def)

lemma example_s4_facts:
  "pkitem example_s4 = None" "job_posted (vjobs example_s4) = [(keystore_add_verifier, 0)]" "public_keys example_s4 = []"
  "v_data (job_mem (vjobs example_s4) 0) = 0" "v_result (job_mem (vjobs example_s4) 0) = 0"
  by (simp_all add: example_s4_def finish_step_def verifier_finish_def finish_job_def Let_def example_config_def
      example_s3_eq example_s2_eq example_s1_eq example_store_sel example_job_def example_jobs_def)

lemma example_s5_keys: "public_keys example_s5 = [0]"
  using example_s4_facts
  by (simp add: example_s5_def on_message_verified_def keystore_add_continued_def keystore_pin_def
      list_push_new example_config_def Let_def)

theorem keystore_only_verified_keys_witness:
  "public_keys example_s5 = [0] \<and> cert_verified ref_nanocbor example_config (cert (key_mem example_s5 0))"
proof -
  note facts = example_s1_eq example_s2_eq example_s3_eq example_store_sel example_jobs_def
  let ?step = "ks_step ref_contiki ref_nanocbor example_config"
  have "?step example_s1 example_s2" unfolding example_s2_def by (rule ks_step.poll) (simp add: facts)
  moreover have "?step example_s2 example_s3"
    unfolding example_s3_def take_step_def by (rule ks_step.take) (simp add: take_job_def queue_ok facts)
  moreover have "?step example_s3 example_s4"
    unfolding example_s4_def finish_step_def Let_def
    by (rule ks_step.finish [where e = 0]) (simp_all add: verifier_finish_def finish_job_def Let_def facts)
  moreover have "?step example_s4 example_s5"
    unfolding example_s5_def by (rule ks_step.verified [OF example_s4_facts(1,2)])
  ultimately have "ks_run ref_contiki ref_nanocbor example_config example_s1 example_s5"
    by (meson ks_run.start ks_run.step)
  from keystore_only_verified_keys [OF ref_contiki_ok _ this [unfolded example_s1_def]] example_s5_keys show ?thesis
    by (simp add: example_store_def example_jobs_def)
qed

text \<open>
  C34: the root's key and keys in use survive every sequence of additions where they are and as they are.
\<close>

theorem keystore_add_keeps_pinned:
  assumes "contiki_ok CT" "keys_ok s" "i \<in> set (public_keys s)" "key_kept K s i"
  shows "i \<in> set (public_keys (foldl (\<lambda>s c. snd (keystore_add CT K c s)) s cs)) \<and>
    key_mem (foldl (\<lambda>s c. snd (keystore_add CT K c s)) s cs) i = key_mem s i"
  using assms(2-4)
proof (induction cs arbitrary: s)
  case (Cons c cs)
  let ?t = "snd (keystore_add CT K c s)"
  have "keys_ok ?t \<and> i \<in> set (public_keys ?t) \<and> key_mem ?t i = key_mem s i"
    using assms(1) Cons.prems(1)
  proof (cases rule: keystore_add_cases [where K = K and c = c, consumes 2])
    case (queued j)
    then have "j \<notin> set (public_keys s)" "j \<notin> set (public_keys_to_verify s)" using Cons.prems(1) by (auto simp: keys_ok_def)
    then have "keys_ok ?t"
      using Cons.prems(1) queued by (auto simp: keys_ok_def keystore_queue_def list_add_new [OF assms(1)])
    then show ?thesis
      using Cons.prems(2) \<open>j \<notin> set (public_keys s)\<close> by (auto simp: queued(1) keystore_queue_def)
  next
    case (full E)
    then have "keys_ok (evict E s)" "i \<notin> E"
      using Cons.prems by (auto simp: evictable_def intro!: keys_ok_evict)
    then show ?thesis using Cons.prems(2) by (simp add: full(1))
  qed (use Cons.prems in simp)
  moreover from this have "key_kept K ?t i" using Cons.prems(3) by (simp add: key_kept_def)
  ultimately show ?case using Cons.IH [of ?t] by simp
qed simp

definition pinned_store :: "unit keystore" where
  "pinned_store = example_store\<lparr>public_keys_memb := {0}, public_keys := [0],
     key_mem := \<lambda>_. \<lparr>cert = small_cert\<lparr>subject := [9]\<rparr>, oscore_context = (), pin_count = 1\<rparr>\<rparr>"

theorem keystore_add_keeps_pinned_witness:
  "0 \<in> set (public_keys (foldl (\<lambda>s c. snd (keystore_add ref_contiki example_config c s)) pinned_store [small_cert, example_cert]))"
proof -
  have "keys_ok pinned_store" "0 \<in> set (public_keys pinned_store)" "key_kept example_config pinned_store 0"
    by (simp_all add: keys_ok_def pinned_store_def key_kept_def keystore_is_pinned_def PUBLIC_KEYSTORE_SIZE_def example_store_def)
  from keystore_add_keeps_pinned [OF ref_contiki_ok this] show ?thesis by blast
qed

text \<open>
  A new certificate is refused whenever all blocks are in use, even though keys are evicted to make room
  for it; when removed items keep their link, all keys that are neither the root's nor in use are lost.
\<close>

theorem keystore_add_full:
  assumes "contiki_ok CT" "keys_ok s" "keystore_find s (subject c) = None" "public_keys_memb s = {..<PUBLIC_KEYSTORE_SIZE}"
  shows "\<exists>E\<subseteq>evictable K s. keystore_add CT K c s = (False, evict E s) \<and> (keeps_link CT \<longrightarrow> E = evictable K s)"
  using assms(1,2)
  by (cases rule: keystore_add_cases [where K = K and c = c, consumes 2]) (use assms(3,4) in auto)

definition full_store :: "unit keystore" where
  "full_store = example_store\<lparr>public_keys_memb := {..<12}, public_keys := [0..<12],
     key_mem := \<lambda>i. \<lparr>cert = small_cert\<lparr>subject := [if i = 0 then 2 else 9]\<rparr>, oscore_context = (), pin_count = 0\<rparr>\<rparr>"

theorem keystore_add_full_witness:
  "\<not> fst (keystore_add ref_contiki example_config (small_cert\<lparr>subject := [5]\<rparr>) full_store) \<and>
    public_keys (snd (keystore_add ref_contiki example_config (small_cert\<lparr>subject := [5]\<rparr>) full_store)) = [0]"
proof -
  have ok: "keys_ok full_store"
    by (auto simp: keys_ok_def full_store_def PUBLIC_KEYSTORE_SIZE_def example_store_def)
  have new: "keystore_find full_store (subject (small_cert\<lparr>subject := [5]\<rparr>)) = None"
    by (auto simp: keystore_find_def keystore_find_in_list_def full_store_def find_None_iff)
  have all: "public_keys_memb full_store = {..<PUBLIC_KEYSTORE_SIZE}" by (simp add: full_store_def PUBLIC_KEYSTORE_SIZE_def)
  have ev: "evictable example_config full_store = {1..<12}"
    by (auto simp: evictable_def full_store_def key_kept_def keystore_is_pinned_def example_config_def small_cert_def)
  have "keeps_link ref_contiki" by (simp add: ref_contiki_def)
  with keystore_add_full [OF ref_contiki_ok ok new all, of example_config]
  have "keystore_add ref_contiki example_config (small_cert\<lparr>subject := [5]\<rparr>) full_store = (False, evict {1..<12} full_store)"
    unfolding ev by blast
  moreover have "filter (\<lambda>i. i \<notin> {1..<12}) [0..<12] = [0 :: nat]" by (simp add: upt_rec)
  ultimately show ?thesis by (simp add: full_store_def)
qed

text \<open>
  Certificates that wait for verification are not noticed: the same certificate is queued again, in another
  block.
\<close>

lemma keystore_add_twice:
  assumes "contiki_ok CT" "keys_ok s" "keystore_add CT K c s = (True, s')" "public_keys_to_verify s' \<noteq> public_keys_to_verify s"
    "keystore_add CT K c s' = (True, s'')"
  shows "\<exists>i j. public_keys_to_verify s'' = public_keys_to_verify s @ [i, j]"
proof -
  have queue: "\<exists>i. public_keys_to_verify t' = public_keys_to_verify t @ [i] \<and> keys_ok t' \<and> keystore_find t' (subject c) = None"
    if t: "keys_ok t" "keystore_add CT K c t = (True, t')" "keystore_find t (subject c) = None" for t t'
    using assms(1) t(1)
  proof (cases rule: keystore_add_cases [where K = K and c = c, consumes 2])
    case (queued i)
    then have i: "i \<notin> set (public_keys t)" "i \<notin> set (public_keys_to_verify t)" using t(1) by (auto simp: keys_ok_def)
    have t': "t' = keystore_queue CT c i (t\<lparr>public_keys_memb := insert i (public_keys_memb t)\<rparr>)" using queued t(2) by simp
    have "keystore_find t' (subject c) = keystore_find t (subject c)"
      using i(1) unfolding keystore_find_def keystore_find_in_list_def t' by (auto simp: keystore_queue_def intro!: find_cong_set)
    moreover have "keys_ok t'" using t(1) i queued by (auto simp: t' keys_ok_def keystore_queue_def list_add_new [OF assms(1)])
    ultimately show ?thesis using i(2) t(3) by (auto simp: t' keystore_queue_def list_add_new [OF assms(1)])
  qed (use t in auto)
  have "keystore_find s (subject c) = None"
    using assms(3,4) by (cases "keystore_find s (subject c)") (auto simp: keystore_add_def)
  with queue [OF assms(2,3)] queue [OF _ assms(5)] show ?thesis by fastforce
qed

text \<open>
  A request for a key is sent exactly when the key is unknown and no request is under way, and once one is
  sent no other is sent until the lock is released or expires.
\<close>

theorem request_public_key_single:
  "case request_public_key K now sent a s of (b, s', p) \<Rightarrow>
     (p \<noteq> None \<longleftrightarrow> keystore_find_addr K s a = None \<and> \<not> timed_unlock_is_locked (key_in_use s)) \<and>
     b = (p \<noteq> None \<and> sent) \<and>
     (b \<longrightarrow> timer (key_in_use s') = Some (now + duration (key_in_use s)) \<and>
       (\<forall>now' sent' a'. \<exists>s''. request_public_key K now' sent' a' s' = (False, s'', None)))"
  by (auto simp: request_public_key_def keystore_find_addr_def keystore_find_def keystore_find_in_list_def Let_def
      timed_unlock_is_locked_def timed_unlock_lock_def)

theorem request_public_key_single_witness:
  "\<exists>s''. request_public_key example_config 6 True (replicate 16 2)
     (fst (snd (request_public_key example_config 5 True (replicate 16 1) example_store))) = (False, s'', None)"
proof -
  obtain b s' p where r: "request_public_key example_config 5 True (replicate 16 1) example_store = (b, s', p)"
    by (rule prod_cases3)
  have "b" using request_public_key_single [where K = example_config and now = 5 and sent = True and a = "replicate 16 1" and s = example_store] unfolding r
    by (simp add: keystore_find_addr_def keystore_find_def keystore_find_in_list_def example_store_def timed_unlock_is_locked_def)
  with request_public_key_single [where K = example_config and now = 5 and sent = True and a = "replicate 16 1" and s = example_store] show ?thesis unfolding r by simp
qed

end
