(* ===== verification/Stereotypes.thy ===== *)
theory Stereotypes
  imports Keystore
begin

text \<open>
  \<open>src/wsn/common/trust/stereotypes.{h,c}\<close>: the initial trust the server gives to edges with certain tags.  A
  stereotype is requested at most once and moves from the list of requests to the list of known
  stereotypes when the answer comes.  The trust record of an edge, its CBOR reader and the tag of the trust
  model belong to the model the firmware is built with: they are the arguments \<open>de_tm\<close> and \<open>tag\<close>.
\<close>

definition MAX_NUM_STEREOTYPES :: nat where "MAX_NUM_STEREOTYPES = 5"

definition TRUST_MODEL_INVALID_TAG :: u32 where "TRUST_MODEL_INVALID_TAG = 0xFFFFFFFF"

record 'tm edge_stereotype =
  st_tags :: stereotype_tags
  st_edge_tm :: 'tm

record 'tm stereotypes =
  st_memb :: "addr set"
  known :: "addr list"
  requesting :: "addr list"
  st_mem :: "addr \<Rightarrow> 'tm edge_stereotype"
  st_in_use :: timed_unlock
  st_polled :: bool

type_synonym ('de, 'tm) tm_reader = "'de \<times> 'tm \<Rightarrow> int \<times> 'de \<times> 'tm"

definition edge_stereotype_find_in_list :: "'tm stereotypes \<Rightarrow> stereotype_tags \<Rightarrow> addr list \<Rightarrow> addr option" where
  "edge_stereotype_find_in_list s t l = List.find (\<lambda>i. stereotype_tags_equal (st_tags (st_mem s i)) t) l"

definition edge_stereotype_find :: "'tm stereotypes \<Rightarrow> stereotype_tags \<Rightarrow> addr option" where
  "edge_stereotype_find s t = edge_stereotype_find_in_list s t (known s)"

text \<open>The list the item is removed from is an argument; the result holds the new list and the blocks in use.\<close>

definition edge_stereotype_remove_from_list ::
  "contiki \<Rightarrow> addr \<Rightarrow> addr list \<Rightarrow> addr set \<Rightarrow> bool \<times> addr list \<times> addr set" where
  "edge_stereotype_remove_from_list CT i l used =
     (if \<not> i < MAX_NUM_STEREOTYPES then (False, l, used)
      else let (removed, l) = list_remove CT l i in
        if \<not> removed then (False, l, used)
        else let (r, used) = memb_free CT MAX_NUM_STEREOTYPES used i in (r = 0, l, used))"

definition edge_stereotype_remove :: "contiki \<Rightarrow> addr \<Rightarrow> 'tm stereotypes \<Rightarrow> bool \<times> 'tm stereotypes" where
  "edge_stereotype_remove CT i s =
     (let (ok, l, used) = edge_stereotype_remove_from_list CT i (known s) (st_memb s)
      in (ok, s\<lparr>known := l, st_memb := used\<rparr>))"

definition serialise_request :: "('en, 'de) nanocbor \<Rightarrow> nat \<Rightarrow> stereotype_tags \<Rightarrow> 'en \<Rightarrow> int \<times> 'en" where
  "serialise_request NC tag t =
     checks [ignored (\<lambda>en. fmt_array NC en 2), \<lambda>en. fmt_uint NC en tag, serialise_stereotype_tags NC t]"

definition deserialise_response ::
  "('en, 'de) nanocbor \<Rightarrow> ('de, 'tm) tm_reader \<Rightarrow> 'de \<times> u32 \<times> 'tm edge_stereotype \<Rightarrow> int \<times> 'de \<times> u32 \<times> 'tm edge_stereotype" where
  "deserialise_response NC de_tm =
     in_array NC (checks
      [into (get_uint32 NC) (\<lambda>v (m, e). (v, e)),
       on_field (\<lambda>(m, e). st_tags e) (\<lambda>t (m, e). (m, e\<lparr>st_tags := t\<rparr>)) (deserialise_stereotype_tags NC),
       on_field (\<lambda>(m, e). st_edge_tm e) (\<lambda>t (m, e). (m, e\<lparr>st_edge_tm := t\<rparr>)) de_tm])"

text \<open>\<open>content_format\<close> is \<open>None\<close> when the option is missing; \<open>e0\<close> is the uninitialised local variable.\<close>

definition process_sterotype_response ::
  "contiki \<Rightarrow> ('en, 'de) nanocbor \<Rightarrow> nat \<Rightarrow> ('de, 'tm) tm_reader \<Rightarrow> 'tm edge_stereotype \<Rightarrow> nat option \<Rightarrow> u8 list \<Rightarrow>
   'tm stereotypes \<Rightarrow> 'tm stereotypes" where
  "process_sterotype_response CT NC tag de_tm e0 content_format payload s =
     (case content_format of
        None \<Rightarrow> s
      | Some cf \<Rightarrow>
          if cf \<noteq> application_cbor CT then s
          else let (r, _, model, e) = deserialise_response NC de_tm (decoder_init NC payload, TRUST_MODEL_INVALID_TAG, e0) in
            if r \<noteq> 0 then s
            else if model \<noteq> word_of_nat tag then s
            else (case edge_stereotype_find_in_list s (st_tags e) (requesting s) of
                    None \<Rightarrow> s
                  | Some i \<Rightarrow>
                      s\<lparr>st_mem := (st_mem s)(i := (st_mem s i)\<lparr>st_tags := st_tags e, st_edge_tm := st_edge_tm e\<rparr>),
                        requesting := snd (list_remove CT (requesting s) i),
                        known := list_push CT (known s) i\<rparr>))"

definition send_callback ::
  "contiki \<Rightarrow> ('en, 'de) nanocbor \<Rightarrow> nat \<Rightarrow> ('de, 'tm) tm_reader \<Rightarrow> 'tm edge_stereotype \<Rightarrow> nat \<Rightarrow> nat \<Rightarrow> nat option \<Rightarrow> u8 list \<Rightarrow>
   'tm stereotypes \<Rightarrow> 'tm stereotypes" where
  "send_callback CT NC tag de_tm e0 status code content_format payload s =
     (if status = req_response CT
      then if code = coap_content CT then process_sterotype_response CT NC tag de_tm e0 content_format payload s else s
      else if status = req_finished CT then s\<lparr>st_in_use := timed_unlock_unlock (st_in_use s), st_polled := True\<rparr>
      else s\<lparr>st_in_use := timed_unlock_unlock (st_in_use s)\<rparr>)"

text \<open>The loop of \<open>stereotypes_free_up_space\<close>; as in the keystore it may stand on a removed item.\<close>

fun stereotypes_free_loop :: "contiki \<Rightarrow> 'c keystore \<Rightarrow> addr list \<Rightarrow> 'tm stereotypes \<Rightarrow> bool \<times> 'tm stereotypes" where
  "stereotypes_free_loop CT ks [] s = (False, s)"
| "stereotypes_free_loop CT ks (i # is) s =
     (if \<not> keystore_certificate_contains_tags ks (st_tags (st_mem s i))
      then let (ok, s') = edge_stereotype_remove CT i s in
        if ok then (True, s')
        else stereotypes_free_loop CT ks (if i \<in> set (known s') \<or> i \<notin> set (known s) \<or> keeps_link CT then is else []) s'
      else stereotypes_free_loop CT ks is s)"

definition stereotypes_free_up_space :: "contiki \<Rightarrow> 'c keystore \<Rightarrow> 'tm stereotypes \<Rightarrow> bool \<times> 'tm stereotypes" where
  "stereotypes_free_up_space CT ks s = stereotypes_free_loop CT ks (known s) s"

definition stereotypes_store :: "contiki \<Rightarrow> stereotype_tags \<Rightarrow> addr \<Rightarrow> 'tm stereotypes \<Rightarrow> 'tm stereotypes" where
  "stereotypes_store CT t i s = s\<lparr>st_mem := (st_mem s)(i := (st_mem s i)\<lparr>st_tags := t\<rparr>),
     requesting := list_push CT (requesting s) i, st_polled := True\<rparr>"

definition stereotypes_request :: "contiki \<Rightarrow> 'c keystore \<Rightarrow> stereotype_tags \<Rightarrow> 'tm stereotypes \<Rightarrow> bool \<times> 'tm stereotypes" where
  "stereotypes_request CT ks t s =
     (if edge_stereotype_find s t \<noteq> None then (False, s)
      else if edge_stereotype_find_in_list s t (requesting s) \<noteq> None then (False, s)
      else case memb_alloc CT MAX_NUM_STEREOTYPES (st_memb s) of
        (Some i, used) \<Rightarrow> (True, stereotypes_store CT t i (s\<lparr>st_memb := used\<rparr>))
      | (None, used) \<Rightarrow>
          let (ok, s) = stereotypes_free_up_space CT ks (s\<lparr>st_memb := used\<rparr>) in
          if \<not> ok then (False, s)
          else (case memb_alloc CT MAX_NUM_STEREOTYPES (st_memb s) of
                  (Some i, used) \<Rightarrow> (True, stereotypes_store CT t i (s\<lparr>st_memb := used\<rparr>))
                | (None, used) \<Rightarrow> (False, s\<lparr>st_memb := used\<rparr>)))"

text \<open>
  \<open>sent\<close> is the result of \<open>coap_send_request\<close>.  \<open>None\<close> is the failed assertion on the length; the third component is
  the payload given to the network, if any.
\<close>

definition stereotypes_send_request ::
  "('en, 'de) nanocbor \<Rightarrow> nat \<Rightarrow> nat \<Rightarrow> bool \<Rightarrow> stereotype_tags \<Rightarrow> 'tm stereotypes \<Rightarrow> (bool \<times> 'tm stereotypes \<times> u8 list option) option" where
  "stereotypes_send_request NC tag now sent t s =
     (if timed_unlock_is_locked (st_in_use s) then Some (False, s, None)
      else let (r, en) = serialise_request NC tag t (encoder_init NC (1 + 1 + 2)) in
        if r \<noteq> 0 then Some (False, s, None)
        else if \<not> encoded_len NC en \<le> 1 + 1 + 2 then None
        else let s' = (if sent then s\<lparr>st_in_use := timed_unlock_lock now (st_in_use s)\<rparr> else s) in
          Some (timed_unlock_is_locked (st_in_use s'), s', Some (take (encoded_len NC en) (enc_buffer NC en))))"

definition stereotypes_init :: "nat \<Rightarrow> nat \<Rightarrow> 'tm stereotypes \<Rightarrow> 'tm stereotypes" where
  "stereotypes_init clock_second current s =
     s\<lparr>st_memb := {}, known := [], requesting := [],
       st_in_use := timed_unlock_init (st_in_use s) ''stereotypes'' (1 * 60 * clock_second) current\<rparr>"

text \<open>The process \<open>stereotype\<close> handling a poll or the expiry of its lock.\<close>

definition stereotype_event ::
  "('en, 'de) nanocbor \<Rightarrow> nat \<Rightarrow> nat \<Rightarrow> bool \<Rightarrow> 'tm stereotypes \<Rightarrow> ('tm stereotypes \<times> u8 list option) option" where
  "stereotype_event NC tag now sent s =
     (let s = s\<lparr>st_polled := False\<rparr> in
      if timed_unlock_is_locked (st_in_use s) then Some (s, None)
      else case requesting s of
        [] \<Rightarrow> Some (s, None)
      | i # _ \<Rightarrow> map_option snd (stereotypes_send_request NC tag now sent (st_tags (st_mem s i)) s))"

subsection \<open>Invariant\<close>

text \<open>The two lists hold exactly the blocks in use, and no two of them have the same tags.\<close>

definition st_ok :: "'tm stereotypes \<Rightarrow> bool" where
  "st_ok s \<longleftrightarrow> distinct (known s @ requesting s) \<and> st_memb s = set (known s @ requesting s) \<and>
     st_memb s \<subseteq> {..<MAX_NUM_STEREOTYPES} \<and> inj_on (\<lambda>i. device_class (st_tags (st_mem s i))) (st_memb s)"

lemma st_ok_cong:
  assumes "st_ok s" "st_memb s' = st_memb s" "known s' = known s" "requesting s' = requesting s" "st_mem s' = st_mem s"
  shows "st_ok s'"
  using assms(1) unfolding st_ok_def assms(2-5) .

lemma edge_stereotype_find_Some:
  assumes "edge_stereotype_find_in_list s t l = Some i"
  shows "i \<in> set l" "device_class (st_tags (st_mem s i)) = device_class t"
  using find_SomeD [OF assms [unfolded edge_stereotype_find_in_list_def]] by (simp_all add: stereotype_tags_equal_def)

lemma edge_stereotype_find_None:
  "edge_stereotype_find_in_list s t l = None \<longleftrightarrow> (\<forall>i\<in>set l. device_class (st_tags (st_mem s i)) \<noteq> device_class t)"
  by (simp add: edge_stereotype_find_in_list_def stereotype_tags_equal_def find_None_iff_Ball)

definition st_drop :: "addr \<Rightarrow> 'tm stereotypes \<Rightarrow> 'tm stereotypes" where
  "st_drop i s = s\<lparr>known := remove1 i (known s), st_memb := st_memb s - {i}\<rparr>"

lemma st_ok_drop: "\<lbrakk>st_ok s; i \<in> set (known s)\<rbrakk> \<Longrightarrow> st_ok (st_drop i s)"
  by (auto simp: st_ok_def st_drop_def intro: inj_on_subset)

lemma edge_stereotype_remove_result:
  assumes "contiki_ok CT" "st_ok s"
  shows "edge_stereotype_remove CT i s = (if i \<in> set (known s) then (True, st_drop i s) else (False, s))"
proof -
  have "i < MAX_NUM_STEREOTYPES" "i \<in> st_memb s" if "i \<in> set (known s)" using that assms(2) by (auto simp: st_ok_def)
  then show ?thesis
    by (auto simp: edge_stereotype_remove_def edge_stereotype_remove_from_list_def st_drop_def list_remove_ok [OF assms(1)]
        memb_free_used [OF assms(1)] remove1_idem)
qed

text \<open>What the keystore no longer needs.\<close>

definition unneeded :: "'c keystore \<Rightarrow> 'tm stereotypes \<Rightarrow> addr \<Rightarrow> bool" where
  "unneeded ks s i \<longleftrightarrow> i \<in> set (known s) \<and> \<not> keystore_certificate_contains_tags ks (st_tags (st_mem s i))"

lemma stereotypes_free_loop_result:
  assumes "contiki_ok CT" "st_ok s" "set is \<subseteq> set (known s)"
  shows "stereotypes_free_loop CT ks is s =
    (case List.find (unneeded ks s) is of None \<Rightarrow> (False, s) | Some i \<Rightarrow> (True, st_drop i s))"
  using assms(3) by (induction "is") (simp_all add: edge_stereotype_remove_result [OF assms(1,2)] unneeded_def)

lemma stereotypes_request_cases:
  assumes "contiki_ok CT" "st_ok s"
  obtains (present) i where "stereotypes_request CT ks t s = (False, s)" "i \<in> st_memb s"
      "device_class (st_tags (st_mem s i)) = device_class t"
  | (requested) i where "stereotypes_request CT ks t s = (True, stereotypes_store CT t i (s\<lparr>st_memb := insert i (st_memb s)\<rparr>))"
      "i < MAX_NUM_STEREOTYPES" "i \<notin> st_memb s" "\<forall>j\<in>st_memb s. device_class (st_tags (st_mem s j)) \<noteq> device_class t"
  | (replaced) i where "stereotypes_request CT ks t s = (True, stereotypes_store CT t i ((st_drop i s)\<lparr>st_memb := st_memb s\<rparr>))"
      "unneeded ks s i" "st_memb s = {..<MAX_NUM_STEREOTYPES}" "\<forall>j\<in>st_memb s. device_class (st_tags (st_mem s j)) \<noteq> device_class t"
  | (full) "stereotypes_request CT ks t s = (False, s)" "st_memb s = {..<MAX_NUM_STEREOTYPES}" "\<And>i. \<not> unneeded ks s i"
      "\<forall>j\<in>st_memb s. device_class (st_tags (st_mem s j)) \<noteq> device_class t"
proof (cases "edge_stereotype_find s t = None \<and> edge_stereotype_find_in_list s t (requesting s) = None")
  case False
  then obtain l i where "set l \<subseteq> st_memb s" "edge_stereotype_find_in_list s t l = Some i"
    using assms(2) by (force simp: st_ok_def edge_stereotype_find_def)
  with edge_stereotype_find_Some [of s t l i] False show ?thesis
    by (intro present [of i]) (auto simp: stereotypes_request_def)
next
  case True
  then have new: "\<forall>j\<in>st_memb s. device_class (st_tags (st_mem s j)) \<noteq> device_class t"
    using assms(2) by (auto simp: st_ok_def edge_stereotype_find_def edge_stereotype_find_None)
  have sub: "st_memb s \<subseteq> {..<MAX_NUM_STEREOTYPES}" using assms(2) unfolding st_ok_def by blast
  obtain r used where m: "memb_alloc CT MAX_NUM_STEREOTYPES (st_memb s) = (r, used)" by (rule prod.exhaust)
  show ?thesis
  proof (cases r)
    case (Some i)
    with memb_alloc_Some [OF assms(1) sub, of i used] m True show ?thesis
      by (intro requested [OF _ _ _ new, of i]) (auto simp: stereotypes_request_def)
  next
    case None
    with memb_alloc_None [OF assms(1) sub, of used] m have eq: "st_memb s = {..<MAX_NUM_STEREOTYPES}" "used = st_memb s" by auto
    note loop = stereotypes_free_loop_result [OF assms subset_refl, of ks]
    show ?thesis
    proof (cases "List.find (unneeded ks s) (known s)")
      case f: None
      then have "stereotypes_request CT ks t s = (False, s)"
        using True m None eq(2) loop by (simp add: stereotypes_request_def stereotypes_free_up_space_def)
      then show ?thesis using eq(1) f by (intro full [OF _ _ _ new]) (auto simp: find_None_iff unneeded_def)
    next
      case (Some i)
      then have i: "unneeded ks s i" using find_SomeD by metis
      then have "i < MAX_NUM_STEREOTYPES" using sub assms(2) by (auto simp: unneeded_def st_ok_def)
      then have "st_memb (st_drop i s) \<subset> {..<MAX_NUM_STEREOTYPES}" using eq(1) by (auto simp: st_drop_def)
      from memb_alloc_not_full [OF assms(1) this] obtain j where
        j: "memb_alloc CT MAX_NUM_STEREOTYPES (st_memb (st_drop i s)) = (Some j, insert j (st_memb (st_drop i s)))"
          "j < MAX_NUM_STEREOTYPES" "j \<notin> st_memb (st_drop i s)" by blast
      have "j = i" using j(2,3) eq(1) by (auto simp: st_drop_def)
      moreover have "insert i (st_memb (st_drop i s)) = st_memb s" using eq(1) \<open>i < _\<close> by (auto simp: st_drop_def)
      ultimately have "stereotypes_request CT ks t s = (True, stereotypes_store CT t i ((st_drop i s)\<lparr>st_memb := st_memb s\<rparr>))"
        using True m None eq(2) loop Some j(1) by (simp add: stereotypes_request_def stereotypes_free_up_space_def)
      then show ?thesis by (rule replaced [OF _ i eq(1) new])
    qed
  qed
qed

lemma st_ok_store:
  assumes "contiki_ok CT" "st_ok s" "i < MAX_NUM_STEREOTYPES" "i \<notin> st_memb s"
    "\<forall>j\<in>st_memb s. device_class (st_tags (st_mem s j)) \<noteq> device_class t" "s' = stereotypes_store CT t i (s\<lparr>st_memb := insert i (st_memb s)\<rparr>)"
  shows "st_ok s'"
proof -
  have i: "i \<notin> set (known s)" "i \<notin> set (requesting s)" using assms(2,4) by (auto simp: st_ok_def)
  have "inj_on (\<lambda>j. device_class (st_tags (st_mem s' j))) (insert i (st_memb s))"
    using assms(2,4,5) unfolding assms(6) st_ok_def by (auto simp: stereotypes_store_def inj_on_def)
  then show ?thesis
    using assms(2,3) i unfolding assms(6) st_ok_def by (auto simp: stereotypes_store_def list_push_new [OF assms(1)])
qed

lemma st_ok_request:
  assumes "contiki_ok CT" "st_ok s"
  shows "st_ok (snd (stereotypes_request CT ks t s))"
  using assms
proof (cases rule: stereotypes_request_cases [where ks = ks and t = t, consumes 2])
  case (requested i)
  from st_ok_store [OF assms requested(2-4) refl] show ?thesis by (simp add: requested(1))
next
  case (replaced i)
  then have i: "i \<in> set (known s)" "i \<in> st_memb s" using assms(2) by (auto simp: unneeded_def st_ok_def)
  then have "insert i (st_memb (st_drop i s)) = st_memb s" by (auto simp: st_drop_def)
  then have "(st_drop i s)\<lparr>st_memb := st_memb s\<rparr> = (st_drop i s)\<lparr>st_memb := insert i (st_memb (st_drop i s))\<rparr>" by simp
  moreover have "st_ok (stereotypes_store CT t i ((st_drop i s)\<lparr>st_memb := insert i (st_memb (st_drop i s))\<rparr>))"
    using replaced(3,4) i by (intro st_ok_store [OF assms(1) st_ok_drop [OF assms(2) i(1)] _ _ _ refl]) (auto simp: st_drop_def)
  ultimately show ?thesis by (simp add: replaced(1))
qed (use assms in simp_all)

text \<open>An answer that is accepted moves the block of its tags to the known stereotypes.\<close>

definition st_accept :: "contiki \<Rightarrow> addr \<Rightarrow> 'tm edge_stereotype \<Rightarrow> 'tm stereotypes \<Rightarrow> 'tm stereotypes" where
  "st_accept CT i e s = s\<lparr>st_mem := (st_mem s)(i := (st_mem s i)\<lparr>st_tags := st_tags e, st_edge_tm := st_edge_tm e\<rparr>),
     requesting := snd (list_remove CT (requesting s) i), known := list_push CT (known s) i\<rparr>"

lemma process_sterotype_response_cases:
  obtains "process_sterotype_response CT NC tag de_tm e0 cf payload s = s"
  | i e where "process_sterotype_response CT NC tag de_tm e0 cf payload s = st_accept CT i e s"
      "edge_stereotype_find_in_list s (st_tags e) (requesting s) = Some i"
proof (cases "deserialise_response NC de_tm (decoder_init NC payload, TRUST_MODEL_INVALID_TAG, e0)")
  case (fields r de model e)
  then have "process_sterotype_response CT NC tag de_tm e0 cf payload s = s \<or>
      (\<exists>i. process_sterotype_response CT NC tag de_tm e0 cf payload s = st_accept CT i e s \<and>
        edge_stereotype_find_in_list s (st_tags e) (requesting s) = Some i)"
    by (simp add: process_sterotype_response_def st_accept_def split: option.split)
  then show ?thesis using that by blast
qed

lemma st_ok_accept:
  assumes "contiki_ok CT" "st_ok s" "edge_stereotype_find_in_list s (st_tags e) (requesting s) = Some i"
  shows "st_ok (st_accept CT i e s)"
proof -
  note i = edge_stereotype_find_Some [OF assms(3)]
  then have k: "i \<notin> set (known s)" using assms(2) by (auto simp: st_ok_def)
  have l: "list_push CT (known s) i = i # known s" "list_remove CT (requesting s) i = (True, remove1 i (requesting s))"
    using k i(1) by (simp_all add: list_push_new [OF assms(1)] list_remove_ok [OF assms(1)])
  have d: "distinct (known s @ requesting s)" "st_memb s = set (known s @ requesting s)" "st_memb s \<subseteq> {..<MAX_NUM_STEREOTYPES}"
    using assms(2) unfolding st_ok_def by blast+
  have "st_memb s = set ((i # known s) @ remove1 i (requesting s))" "distinct ((i # known s) @ remove1 i (requesting s))"
    using d(1,2) i(1) by auto
  moreover have "(\<lambda>j. device_class (st_tags (st_mem (st_accept CT i e s) j))) = (\<lambda>j. device_class (st_tags (st_mem s j)))"
    using i(2) by (auto simp: st_accept_def)
  moreover have "known (st_accept CT i e s) = i # known s" "requesting (st_accept CT i e s) = remove1 i (requesting s)"
      "st_memb (st_accept CT i e s) = st_memb s" by (simp_all add: l st_accept_def)
  moreover have "inj_on (\<lambda>j. device_class (st_tags (st_mem s j))) (st_memb s)" using assms(2) unfolding st_ok_def by blast
  ultimately show ?thesis using d(3) unfolding st_ok_def by metis
qed

lemma st_ok_response:
  "\<lbrakk>contiki_ok CT; st_ok s\<rbrakk> \<Longrightarrow> st_ok (process_sterotype_response CT NC tag de_tm e0 cf payload s)"
  by (rule process_sterotype_response_cases [of CT NC tag de_tm e0 cf payload s]) (simp_all add: st_ok_accept)

text \<open>
  The store of stereotypes over time: requests for any tags with any certificates known, answers and failures of the
  network, removals, and the process sending the request at the head of its list.
\<close>

inductive st_step :: "contiki \<Rightarrow> ('en, 'de) nanocbor \<Rightarrow> nat \<Rightarrow> ('de, 'tm) tm_reader \<Rightarrow> 'tm stereotypes \<Rightarrow> 'tm stereotypes \<Rightarrow> bool"
  for CT NC tag de_tm where
  request: "stereotypes_request CT (ks :: unit keystore) t s = (b, s') \<Longrightarrow> st_step CT NC tag de_tm s s'"
| remove: "edge_stereotype_remove CT i s = (b, s') \<Longrightarrow> st_step CT NC tag de_tm s s'"
| callback: "st_step CT NC tag de_tm s (send_callback CT NC tag de_tm e0 status code cf payload s)"
| event: "stereotype_event NC tag now sent s = Some (s', p) \<Longrightarrow> st_step CT NC tag de_tm s s'"

inductive st_run :: "contiki \<Rightarrow> ('en, 'de) nanocbor \<Rightarrow> nat \<Rightarrow> ('de, 'tm) tm_reader \<Rightarrow> 'tm stereotypes \<Rightarrow> 'tm stereotypes \<Rightarrow> bool"
  for CT NC tag de_tm where
  start: "st_run CT NC tag de_tm s s"
| step: "\<lbrakk>st_run CT NC tag de_tm s s'; st_step CT NC tag de_tm s' s''\<rbrakk> \<Longrightarrow> st_run CT NC tag de_tm s s''"

lemma st_ok_frame:
  "st_ok s \<Longrightarrow> st_ok (s\<lparr>st_in_use := l\<rparr>)" "st_ok s \<Longrightarrow> st_ok (s\<lparr>st_polled := b\<rparr>)"
  "st_ok s \<Longrightarrow> st_ok (s\<lparr>st_in_use := l, st_polled := b\<rparr>)" "st_ok s \<Longrightarrow> st_ok (s\<lparr>st_polled := b, st_in_use := l\<rparr>)"
  by (erule st_ok_cong; simp)+

lemma stereotype_event_result:
  "stereotype_event NC tag now sent s = Some (s', p) \<Longrightarrow>
    s' = s\<lparr>st_polled := False\<rparr> \<or> s' = s\<lparr>st_polled := False, st_in_use := timed_unlock_lock now (st_in_use s)\<rparr>"
  by (auto simp: stereotype_event_def stereotypes_send_request_def Let_def split: if_splits list.splits prod.splits)

lemma st_step_ok: "\<lbrakk>st_step CT NC tag de_tm s s'; contiki_ok CT; st_ok s\<rbrakk> \<Longrightarrow> st_ok s'"
proof (induction rule: st_step.induct)
  case (request ks t s b s')
  then show ?case using st_ok_request [OF request(2,3), of ks t] by simp
next
  case (remove i s b s')
  then show ?case using st_ok_drop [of s i] by (auto simp: edge_stereotype_remove_result split: if_splits)
next
  case (callback s e0 status code cf payload)
  then show ?case by (simp add: send_callback_def st_ok_frame st_ok_response)
next
  case (event now sent s s' p)
  then show ?case using stereotype_event_result [OF event(1)] by (auto simp: st_ok_frame)
qed

lemma st_run_ok: "\<lbrakk>st_run CT NC tag de_tm s s'; contiki_ok CT; st_ok s\<rbrakk> \<Longrightarrow> st_ok s'"
  by (induction rule: st_run.induct) (auto intro: st_step_ok)


definition example_stereotypes :: "nat stereotypes" where
  "example_stereotypes = \<lparr>st_memb = {}, known = [], requesting = [], st_mem = (\<lambda>_. \<lparr>st_tags = \<lparr>device_class = 1\<rparr>, st_edge_tm = 0\<rparr>),
     st_in_use = \<lparr>locked = False, lname = [], timer = None, duration = 0, owner = 0\<rparr>, st_polled = False\<rparr>"


text \<open>
  A request is refused exactly when the tags are already there or all blocks are taken by stereotypes that
  some certificate still needs; a stereotype that a certificate needs is never given up, nor is a pending request.
\<close>

theorem stereotypes_request_spec:
  assumes "contiki_ok CT" "st_ok s"
  shows "case stereotypes_request CT ks t s of (b, s') \<Rightarrow>
    st_ok s' \<and>
    (b \<longleftrightarrow> edge_stereotype_find s t = None \<and> edge_stereotype_find_in_list s t (requesting s) = None \<and>
      (st_memb s \<noteq> {..<MAX_NUM_STEREOTYPES} \<or> (\<exists>i. unneeded ks s i))) \<and>
    (b \<longrightarrow> edge_stereotype_find_in_list s' t (requesting s') \<noteq> None) \<and>
    (\<forall>i. i \<in> set (requesting s) \<or> i \<in> set (known s) \<and> \<not> unneeded ks s i \<longrightarrow>
      (i \<in> set (requesting s') \<or> i \<in> set (known s')) \<and> st_mem s' i = st_mem s i)"
proof -
  obtain b s' where r: "stereotypes_request CT ks t s = (b, s')" by (rule prod.exhaust)
  have ok: "st_ok s'" using st_ok_request [OF assms, of ks t] by (simp add: r)
  have memb: "st_memb s = set (known s) \<union> set (requesting s)" using assms(2) by (auto simp: st_ok_def)
  have there: "edge_stereotype_find s t = None \<and> edge_stereotype_find_in_list s t (requesting s) = None \<longleftrightarrow>
      (\<forall>j\<in>st_memb s. device_class (st_tags (st_mem s j)) \<noteq> device_class t)"
    using memb by (auto simp: edge_stereotype_find_def edge_stereotype_find_None)
  have "(b \<longleftrightarrow> (\<forall>j\<in>st_memb s. device_class (st_tags (st_mem s j)) \<noteq> device_class t) \<and>
      (st_memb s \<noteq> {..<MAX_NUM_STEREOTYPES} \<or> (\<exists>i. unneeded ks s i))) \<and>
    (b \<longrightarrow> edge_stereotype_find_in_list s' t (requesting s') \<noteq> None) \<and>
    (\<forall>i. i \<in> set (requesting s) \<or> i \<in> set (known s) \<and> \<not> unneeded ks s i \<longrightarrow>
      (i \<in> set (requesting s') \<or> i \<in> set (known s')) \<and> st_mem s' i = st_mem s i)"
    using assms
  proof (cases rule: stereotypes_request_cases [where ks = ks and t = t, consumes 2])
    case (present i)
    then show ?thesis using r by auto
  next
    case (requested i)
    then have s': "b" "s' = stereotypes_store CT t i (s\<lparr>st_memb := insert i (st_memb s)\<rparr>)" using r by auto
    have "i \<notin> set (known s)" "i \<notin> set (requesting s)" using requested(3) memb by auto
    then show ?thesis
      using s' requested(2-4)
      by (auto simp: stereotypes_store_def list_push_new [OF assms(1)] edge_stereotype_find_None stereotype_tags_equal_def)
  next
    case (replaced i)
    then have s': "b" "s' = stereotypes_store CT t i ((st_drop i s)\<lparr>st_memb := st_memb s\<rparr>)" using r by auto
    have i: "i \<in> set (known s)" "i \<notin> set (requesting s)" using replaced(2) assms(2) by (auto simp: unneeded_def st_ok_def)
    have d: "distinct (known s)" using assms(2) by (simp add: st_ok_def)
    show ?thesis
      using s' replaced(2-4) i d
      by (auto simp: stereotypes_store_def st_drop_def list_push_new [OF assms(1)] edge_stereotype_find_None)
  next
    case full
    then show ?thesis using r by auto
  qed
  then show ?thesis unfolding r prod.case using ok there by blast
qed

theorem stereotypes_request_spec_witness:
  "fst (stereotypes_request ref_contiki example_store \<lparr>device_class = 5\<rparr> example_stereotypes)"
proof -
  have "st_ok example_stereotypes" by (simp add: st_ok_def example_stereotypes_def)
  note spec = stereotypes_request_spec [OF ref_contiki_ok this, where ks = example_store and t = "\<lparr>device_class = 5\<rparr>"]
  have "edge_stereotype_find example_stereotypes \<lparr>device_class = 5\<rparr> = None"
      "edge_stereotype_find_in_list example_stereotypes \<lparr>device_class = 5\<rparr> (requesting example_stereotypes) = None"
    by (simp_all add: edge_stereotype_find_def edge_stereotype_find_in_list_def example_stereotypes_def)
  moreover have "st_memb example_stereotypes \<noteq> {..<MAX_NUM_STEREOTYPES}"
    by (simp add: example_stereotypes_def MAX_NUM_STEREOTYPES_def lessThan_eq_iff flip: lessThan_0)
  ultimately show ?thesis using spec by (cases "stereotypes_request ref_contiki example_store \<lparr>device_class = 5\<rparr> example_stereotypes") simp
qed

end
