(* ===== verification/Trust_Models.thy ===== *)
theory Trust_Models
  imports Edge_Info Peer_Info Distributions Stereotypes
begin

text \<open>
  \<open>src/wsn/common/trust/trust-models.{h,c}\<close>: what the trust models share, the weights of an application's
  metrics, the throughput thresholds, and the events a model is told about.  The static structures put on
  the lists are blocks; the array of weights is a list, its length is \<open>num\<close>.  The weak empty
  definitions of the updates are the identity.  The second half is the weighted sum all the models
  compute, with its bounds and its monotonicity under every IEEE rounding \<open>F\<close>.
\<close>

record trust_weights =
  application_name :: string
  weights :: "(u16 \<times> cfloat) list"

record trust_weights_state =
  tw_list :: "addr list"
  tw_mem :: "addr \<Rightarrow> trust_weights"

definition TRUST_CONF_REPUTATION_WEIGHT :: u16 where "TRUST_CONF_REPUTATION_WEIGHT = 1"

definition TRUST_METRIC_TASK_SUBMISSION :: u16 where "TRUST_METRIC_TASK_SUBMISSION = 1001"

definition TRUST_METRIC_TASK_RESULT :: u16 where "TRUST_METRIC_TASK_RESULT = 1002"

definition TRUST_METRIC_CHALLENGE_RESP :: u16 where "TRUST_METRIC_CHALLENGE_RESP = 1004"

definition TRUST_METRIC_RESULT_QUALITY :: u16 where "TRUST_METRIC_RESULT_QUALITY = 2001"

definition TRUST_METRIC_THROUGHPUT :: u16 where "TRUST_METRIC_THROUGHPUT = 2003"

definition trust_weights_init :: "trust_weights_state \<Rightarrow> trust_weights_state" where
  "trust_weights_init s = s\<lparr>tw_list := []\<rparr>"

definition trust_weights_add :: "contiki \<Rightarrow> addr \<Rightarrow> trust_weights_state \<Rightarrow> trust_weights_state" where
  "trust_weights_add CT item s = s\<lparr>tw_list := list_add CT (tw_list s) item\<rparr>"

definition trust_weights_find :: "trust_weights_state \<Rightarrow> string \<Rightarrow> addr option" where
  "trust_weights_find s name = List.find (\<lambda>i. cstr (application_name (tw_mem s i)) = cstr name) (tw_list s)"

definition find_trust_weight :: "trust_weights_state \<Rightarrow> string \<Rightarrow> u16 \<Rightarrow> cfloat" where
  "find_trust_weight s name metric =
     (case trust_weights_find s name of
        None \<Rightarrow> Fin 0
      | Some i \<Rightarrow>
          (case List.find (\<lambda>(i, w). i = metric) (weights (tw_mem s i)) of
             None \<Rightarrow> Fin 0
           | Some (_, w) \<Rightarrow> w))"

record trust_throughput_threshold =
  tt_application_name :: string
  in_threshold :: u32
  out_threshold :: u32

record thresholds_state =
  tt_list :: "addr list"
  tt_mem :: "addr \<Rightarrow> trust_throughput_threshold"

definition trust_throughput_thresholds_init :: "thresholds_state \<Rightarrow> thresholds_state" where
  "trust_throughput_thresholds_init s = s\<lparr>tt_list := []\<rparr>"

definition trust_throughput_thresholds_add :: "contiki \<Rightarrow> addr \<Rightarrow> thresholds_state \<Rightarrow> thresholds_state" where
  "trust_throughput_thresholds_add CT item s = s\<lparr>tt_list := list_add CT (tt_list s) item\<rparr>"

definition trust_throughput_thresholds_find :: "thresholds_state \<Rightarrow> string \<Rightarrow> addr option" where
  "trust_throughput_thresholds_find s name =
     List.find (\<lambda>i. cstr (tt_application_name (tt_mem s i)) = cstr name) (tt_list s)"

subsection \<open>Events\<close>

record tm_task_submission_info =
  coap_status :: nat
  coap_request_status :: nat

datatype tm_task_result_info = TM_TASK_RESULT_INFO_SUCCESS | TM_TASK_RESULT_INFO_FAIL | TM_TASK_RESULT_INFO_TIMEOUT

record tm_result_quality_info =
  quality_good :: bool

datatype tm_throughput_direction = TM_THROUGHPUT_IN | TM_THROUGHPUT_OUT

record tm_throughput_info =
  direction :: tm_throughput_direction
  throughput :: u32

text \<open>The tagged union: status and request status, never received and received late, successful and late.\<close>

datatype tm_challenge_response_info =
    TM_CHALLENGE_RESPONSE_ACK nat nat
  | TM_CHALLENGE_RESPONSE_TIMEOUT bool bool
  | TM_CHALLENGE_RESPONSE_RESP bool bool

datatype tm_edge_ping = TM_PING_SENT | TM_PING_RECEIVED

text \<open>The results are whether the event is good and whether it is to be counted.\<close>

definition tm_task_submission_good :: "contiki \<Rightarrow> tm_task_submission_info \<Rightarrow> bool \<times> bool" where
  "tm_task_submission_good CT info =
     (coap_request_status info = req_response CT \<and>
        coap_created CT \<le> coap_status info \<and> coap_status info \<le> coap_content CT,
      coap_request_status info \<noteq> req_finished CT)"

fun tm_challenge_response_good :: "contiki \<Rightarrow> tm_challenge_response_info \<Rightarrow> bool \<times> bool" where
  "tm_challenge_response_good CT (TM_CHALLENGE_RESPONSE_ACK status req_status) =
     (let good = req_status = req_response CT \<and> coap_created CT \<le> status \<and> status \<le> coap_content CT
      in (good, \<not> good \<and> req_status \<noteq> req_finished CT))"
| "tm_challenge_response_good CT (TM_CHALLENGE_RESPONSE_TIMEOUT never_received received_late) =
     (\<not> never_received \<and> \<not> received_late, True)"
| "tm_challenge_response_good CT (TM_CHALLENGE_RESPONSE_RESP successful late) = (successful, \<not> late)"

subsection \<open>What a trust value is computed from\<close>

record ('e, 'c, 'k) trust_state =
  ts_keystore :: "'k keystore"
  ts_stereotypes :: "'e stereotypes"
  ts_weights :: trust_weights_state
  ts_edges :: "('e, 'c) edge_info"

text \<open>The stereotype that may inform the trust value: that of the tags in the edge's certificate.\<close>

definition stereotype_of :: "'k ks_config \<Rightarrow> ('e, 'c, 'k) trust_state \<Rightarrow> addr \<Rightarrow> 'e option" where
  "stereotype_of K s edge =
     (case keystore_find_addr K (ts_keystore s) (ipaddr (ep (edge_mem (ts_edges s) edge))) of
        None \<Rightarrow> None
      | Some i \<Rightarrow>
          map_option (\<lambda>j. st_edge_tm (st_mem (ts_stereotypes s) j))
            (edge_stereotype_find (ts_stereotypes s) (tags (cert (key_mem (ts_keystore s) i)))))"

text \<open>The lines \<open>trust += w * e; w_total += w;\<close> for one metric, and for several in order.\<close>

definition accumulate :: "ffmt \<Rightarrow> cfloat \<times> cfloat \<Rightarrow> cfloat \<times> cfloat \<Rightarrow> cfloat \<times> cfloat" where
  "accumulate F = (\<lambda>(trust, w_total) (w, e). (fadd F trust (fmul F w e), fadd F w_total w))"

definition weighted_sum :: "ffmt \<Rightarrow> (cfloat \<times> cfloat) list \<Rightarrow> cfloat \<times> cfloat" where
  "weighted_sum F wes = foldl (accumulate F) (Fin 0, Fin 0) wes"

subsection \<open>Bounds\<close>

text \<open>A weight is a float between 0 and 1, and so is the estimate of a metric.\<close>

definition weighted_ok :: "ffmt \<Rightarrow> cfloat \<times> cfloat \<Rightarrow> bool" where
  "weighted_ok F = (\<lambda>(w, e). unit_float F w \<and> unit_float F e)"

lemma fadd_bounded:
  assumes "ffmt_ok F" "0 \<le> a" "0 \<le> b" "a + b \<le> real n" "n \<le> 2 ^ 24"
  shows "fadd F (Fin a) (Fin b) = Fin (rnd F (a + b))" "0 \<le> rnd F (a + b)" "rnd F (a + b) \<le> real n"
proof -
  have "real n \<le> 2 ^ 24" using assms(5) by (metis of_nat_le_iff of_nat_numeral of_nat_power)
  then show "fadd F (Fin a) (Fin b) = Fin (rnd F (a + b))" using assms by (simp add: fl_Fin)
  show "0 \<le> rnd F (a + b)" using assms by (simp add: rnd_nonneg)
  show "rnd F (a + b) \<le> real n" using rnd_mono [OF assms(1,4)] rnd_nat [OF assms(1,5)] by simp
qed

lemma accumulate_step:
  assumes "ffmt_ok F" "weighted_ok F we" "0 \<le> t" "t \<le> w" "w \<le> real n" "n < 2 ^ 24"
  obtains t' w' where "accumulate F (Fin t, Fin w) we = (Fin t', Fin w')" "0 \<le> t'" "t' \<le> w'" "w' \<le> real (Suc n)"
proof -
  obtain a x where we: "we = (Fin a, Fin x)" "0 \<le> a" "a \<le> 1" "is_float F a" "0 \<le> x" "x \<le> 1"
    using assms(2) by (cases we) (auto simp: weighted_ok_def unit_float_def)
  have "a * x \<le> a" using we mult_left_le by blast
  then have m: "fmul F (Fin a) (Fin x) = Fin (rnd F (a * x))" "0 \<le> rnd F (a * x)" "rnd F (a * x) \<le> a"
    using we assms(1) fl_unit [OF assms(1), of "a * x"] by (auto intro: rnd_nonneg rnd_le_float mult_le_one)
  have b: "t + rnd F (a * x) \<le> w + a" "w + a \<le> real (Suc n)" using m(3) assms(4,5) we(3) by simp_all
  have n: "Suc n \<le> 2 ^ 24" using assms(6) by simp
  have w0: "0 \<le> w" using assms(3,4) by simp
  have tn: "t + rnd F (a * x) \<le> real (Suc n)" using b by simp
  note f = fadd_bounded [OF assms(1) assms(3) m(2) tn n] and g = fadd_bounded [OF assms(1) w0 we(2) b(2) n]
  have "rnd F (t + rnd F (a * x)) \<le> rnd F (w + a)" using rnd_mono [OF assms(1) b(1)] .
  moreover have "accumulate F (Fin t, Fin w) we = (Fin (rnd F (t + rnd F (a * x))), Fin (rnd F (w + a)))"
    by (simp only: accumulate_def we(1) prod.case m(1) f(1) g(1))
  ultimately show ?thesis using that f(2) g(3) by blast
qed

lemma foldl_accumulate_bounds:
  assumes "ffmt_ok F"
  shows "\<lbrakk>\<forall>we\<in>set wes. weighted_ok F we; 0 \<le> t; t \<le> w; w \<le> real n; n + length wes \<le> 2 ^ 24\<rbrakk> \<Longrightarrow>
    \<exists>t' w'. foldl (accumulate F) (Fin t, Fin w) wes = (Fin t', Fin w') \<and> 0 \<le> t' \<and> t' \<le> w'"
proof (induction wes arbitrary: t w n)
  case (Cons we wes)
  obtain t' w' where s: "accumulate F (Fin t, Fin w) we = (Fin t', Fin w')" "0 \<le> t'" "t' \<le> w'" "w' \<le> real (Suc n)"
    by (rule accumulate_step [OF assms, of we t w n]) (use Cons.prems in auto)
  have "\<exists>u v. foldl (accumulate F) (Fin t', Fin w') wes = (Fin u, Fin v) \<and> 0 \<le> u \<and> u \<le> v"
    using Cons.prems s by (intro Cons.IH [of t' w' "Suc n"]) auto
  then show ?case by (simp add: s(1))
qed auto

lemma weighted_sum_bounds:
  assumes "ffmt_ok F" "\<forall>we\<in>set wes. weighted_ok F we" "length wes \<le> 2 ^ 24"
  obtains t w where "weighted_sum F wes = (Fin t, Fin w)" "0 \<le> t" "t \<le> w"
  using foldl_accumulate_bounds [OF assms(1,2), of 0 0 0] assms(3) by (auto simp: weighted_sum_def)

text \<open>A finite sum is a value of the format.\<close>

lemma fadd_float: "\<lbrakk>ffmt_ok F; fadd F a b = Fin t\<rbrakk> \<Longrightarrow> t \<le> fmax F \<and> is_float F t"
  by (cases a; cases b) (auto simp: fl_def Let_def split: if_splits)

lemma weighted_sum_float:
  assumes "ffmt_ok F" "fst (weighted_sum F wes) = Fin t"
  shows "t \<le> fmax F \<and> is_float F t"
proof (cases wes rule: rev_cases)
  case Nil
  moreover have "0 \<le> fmax F" using assms(1) by (simp add: ffmt_ok_def)
  ultimately show ?thesis using assms by (simp add: weighted_sum_def)
next
  case (snoc wes' we)
  then show ?thesis using assms fadd_float [OF assms(1)] by (auto simp: weighted_sum_def accumulate_def split_def)
qed

subsection \<open>Monotonicity\<close>

lemma accumulate_mono:
  assumes "ffmt_ok F" "weighted_ok F (w, e)" "weighted_ok F (w, e')" "fleq e e'" "0 \<le> t" "t \<le> u" "u \<le> real n" "n < 2 ^ 24"
  shows "\<exists>t' u'. fst (accumulate F (Fin t, wt) (w, e)) = Fin t' \<and> fst (accumulate F (Fin u, wt) (w, e')) = Fin u' \<and>
    0 \<le> t' \<and> t' \<le> u' \<and> u' \<le> real (Suc n)"
proof -
  obtain a x y where we: "w = Fin a" "0 \<le> a" "a \<le> 1" "e = Fin x" "0 \<le> x" "x \<le> 1" "e' = Fin y" "y \<le> 1" "x \<le> y"
    using assms(2-4) by (auto simp: weighted_ok_def unit_float_def)
  have p: "a * x \<le> a * y" "0 \<le> a * x" "a * y \<le> 1" using we by (auto intro: mult_left_mono mult_le_one)
  then have m: "fmul F w e = Fin (rnd F (a * x))" "fmul F w e' = Fin (rnd F (a * y))" "0 \<le> rnd F (a * x)"
      "rnd F (a * x) \<le> rnd F (a * y)" "rnd F (a * y) \<le> 1"
    using we assms(1) fl_unit [OF assms(1), of "a * x"] fl_unit [OF assms(1), of "a * y"]
    by (auto intro: rnd_nonneg rnd_mono rnd_le_1)
  have n: "Suc n \<le> 2 ^ 24" using assms(8) by simp
  have s: "t + rnd F (a * x) \<le> u + rnd F (a * y)" "u + rnd F (a * y) \<le> real (Suc n)" using m assms(6,7) by simp_all
  have f: "fadd F (Fin t) (Fin (rnd F (a * x))) = Fin (rnd F (t + rnd F (a * x)))" "0 \<le> rnd F (t + rnd F (a * x))"
    using fadd_bounded [OF assms(1,5) m(3) _ n] s by simp_all
  have "0 \<le> u" "0 \<le> rnd F (a * y)" using assms(5,6) m(3,4) by simp_all
  note g = fadd_bounded [OF assms(1) this s(2) n]
  from rnd_mono [OF assms(1) s(1)] f g show ?thesis by (simp add: accumulate_def m)
qed

lemma accumulate_fst: "fst (accumulate F (t, v) we) = fst (accumulate F (t, v') we)"
  by (simp add: accumulate_def split_def)

lemma foldl_accumulate_fst: "fst (foldl (accumulate F) (t, v) wes) = fst (foldl (accumulate F) (t, v') wes)"
proof (induction wes arbitrary: t v v')
  case (Cons we wes)
  obtain t1 v1 v1' where "accumulate F (t, v) we = (t1, v1)" "accumulate F (t, v') we = (t1, v1')"
    by (simp add: accumulate_def split_def)
  then show ?case using Cons.IH [of t1 v1 v1'] by simp
qed simp

text \<open>Estimates that do not fall give a sum that does not fall.\<close>

lemma foldl_accumulate_mono:
  assumes "ffmt_ok F"
  shows "\<lbrakk>list_all2 (\<lambda>(w, e) (w', e'). w = w' \<and> fleq e e' \<and> weighted_ok F (w, e) \<and> weighted_ok F (w', e')) wes wes';
    0 \<le> t; t \<le> u; u \<le> real n; n + length wes \<le> 2 ^ 24\<rbrakk> \<Longrightarrow>
    fleq (fst (foldl (accumulate F) (Fin t, v) wes)) (fst (foldl (accumulate F) (Fin u, v') wes'))"
proof (induction wes arbitrary: wes' t u v v' n)
  case (Cons we wes)
  obtain w e where we: "we = (w, e)" by fastforce
  then obtain e' wes'' where wes': "wes' = (w, e') # wes''" and ok: "fleq e e'" "weighted_ok F (w, e)" "weighted_ok F (w, e')"
    and rest: "list_all2 (\<lambda>(w, e) (w', e'). w = w' \<and> fleq e e' \<and> weighted_ok F (w, e) \<and> weighted_ok F (w', e')) wes wes''"
    using Cons.prems(1) by (auto simp: list_all2_Cons1)
  have "n < 2 ^ 24" using Cons.prems(5) by simp
  from accumulate_mono [OF assms ok(2,3,1) Cons.prems(2-4) this, of v] obtain t' u' where
    s: "fst (accumulate F (Fin t, v) (w, e)) = Fin t'" "fst (accumulate F (Fin u, v) (w, e')) = Fin u'"
      "0 \<le> t'" "t' \<le> u'" "u' \<le> real (Suc n)" by blast
  obtain v1 v1' where "accumulate F (Fin t, v) (w, e) = (Fin t', v1)" "accumulate F (Fin u, v') (w, e') = (Fin u', v1')"
    using s(1,2) accumulate_fst [of F "Fin u" v "(w, e')" v'] by (metis prod.collapse)
  moreover have "fleq (fst (foldl (accumulate F) (Fin t', v1) wes)) (fst (foldl (accumulate F) (Fin u', v1') wes''))"
    using Cons.IH [OF rest s(3-5)] Cons.prems(5) by simp
  ultimately show ?case by (simp add: we wes')
qed simp

lemma weighted_sum_mono:
  assumes "ffmt_ok F" "length wes \<le> 2 ^ 24"
    "list_all2 (\<lambda>(w, e) (w', e'). w = w' \<and> fleq e e' \<and> weighted_ok F (w, e) \<and> weighted_ok F (w', e')) wes wes'"
  shows "fleq (fst (weighted_sum F wes)) (fst (weighted_sum F wes'))"
  unfolding weighted_sum_def by (rule foldl_accumulate_mono [OF assms(1,3), of 0 0 0]) (use assms(2) in simp_all)

lemma fleq_refl: "unit_float F c \<Longrightarrow> fleq c c"
  by (auto simp: unit_float_def)

text \<open>Weights declared by the applications: each a float between 0 and 1.\<close>

definition weights_ok :: "ffmt \<Rightarrow> trust_weights_state \<Rightarrow> bool" where
  "weights_ok F s \<longleftrightarrow> (\<forall>i\<in>set (tw_list s). \<forall>p\<in>set (weights (tw_mem s i)). unit_float F (snd p))"

lemma unit_float_0: "ffmt_ok F \<Longrightarrow> unit_float F (Fin 0)"
  by (auto simp: unit_float_def)

lemma find_trust_weight_unit:
  assumes "ffmt_ok F" "weights_ok F s"
  shows "unit_float F (find_trust_weight s name metric)"
proof (cases "trust_weights_find s name")
  case (Some i)
  then have i: "i \<in> set (tw_list s)" using find_SomeD [of _ "tw_list s" i] by (simp add: trust_weights_find_def)
  show ?thesis
  proof (cases "List.find (\<lambda>(i, w). i = metric) (weights (tw_mem s i))")
    case None
    then show ?thesis using Some assms(1) by (simp add: find_trust_weight_def unit_float_0)
  next
    case p: (Some p)
    then have "p \<in> set (weights (tw_mem s i))" by (metis find_SomeD)
    then have "unit_float F (snd p)" using assms(2) i by (auto simp: weights_ok_def)
    then show ?thesis using Some p by (simp add: find_trust_weight_def split_def)
  qed
qed (simp add: find_trust_weight_def unit_float_0 assms(1))

subsection \<open>Total weights\<close>

lemma weighted_total: "snd (foldl (accumulate F) (t, v) wes) = foldl (fadd F) v (map fst wes)"
  by (induction wes arbitrary: t v) (simp_all add: accumulate_def split_def)

lemma total_grows:
  assumes "ffmt_ok F"
  shows "\<lbrakk>\<forall>w\<in>set ws. unit_float F w; is_float F x; 0 \<le> x; x \<le> real n; n + length ws \<le> 2 ^ 24\<rbrakk> \<Longrightarrow>
    \<exists>y. foldl (fadd F) (Fin x) ws = Fin y \<and> x \<le> y \<and> is_float F y \<and> y \<le> real (n + length ws)"
proof (induction ws arbitrary: x n)
  case (Cons w ws)
  obtain a where a: "w = Fin a" "0 \<le> a" "a \<le> 1" using Cons.prems(1) by (auto simp: unit_float_def)
  have "x + a \<le> real (Suc n)" "Suc n \<le> 2 ^ 24" using a Cons.prems by simp_all
  note f = fadd_bounded [OF assms Cons.prems(3) a(2) this]
  have le: "x \<le> rnd F (x + a)" using rnd_ge_float [OF assms Cons.prems(2), of "x + a"] a(2) by simp
  have "\<exists>y. foldl (fadd F) (Fin (rnd F (x + a))) ws = Fin y \<and> rnd F (x + a) \<le> y \<and> is_float F y \<and> y \<le> real (Suc n + length ws)"
    using Cons.prems f assms by (intro Cons.IH) simp_all
  then show ?case using le unfolding foldl_Cons a(1) f(1) by fastforce
qed simp

lemma unit_total:
  assumes "ffmt_ok F" "\<forall>w\<in>set ws. unit_float F w" "length ws \<le> 2 ^ 24"
  obtains y where "foldl (fadd F) (Fin 0) ws = Fin y" "0 \<le> y" "is_float F y"
  using total_grows [OF assms(1,2), of 0 0] assms(1,3) by auto

text \<open>Adding more weights does not lower the total.\<close>

lemma total_append:
  assumes "ffmt_ok F" "\<forall>w\<in>set (ws @ vs). unit_float F w" "length (ws @ vs) \<le> 2 ^ 24"
  shows "fleq (foldl (fadd F) (Fin 0) ws) (foldl (fadd F) (Fin 0) (ws @ vs))"
proof -
  have "\<exists>x. foldl (fadd F) (Fin 0) ws = Fin x \<and> 0 \<le> x \<and> is_float F x \<and> x \<le> real (0 + length ws)"
    using assms by (intro total_grows [OF assms(1)]) auto
  then obtain x where x: "foldl (fadd F) (Fin 0) ws = Fin x" "0 \<le> x" "is_float F x" "x \<le> real (length ws)" by auto
  have "\<exists>y. foldl (fadd F) (Fin x) vs = Fin y \<and> x \<le> y \<and> is_float F y \<and> y \<le> real (length ws + length vs)"
    using assms x by (intro total_grows [OF assms(1)]) auto
  then show ?thesis by (auto simp: x(1))
qed

text \<open>A weighted sum divided by its total weight.\<close>

lemma normalised:
  assumes "ffmt_ok F" "0 \<le> t" "t \<le> w" "0 < w"
  shows "unit_float F (fdiv F (Fin t) (Fin w))"
  using fl_unit [OF assms(1), of "t / w", THEN conjunct2] assms by simp

end
