(* ===== verification/Trust_Choose.thy ===== *)
theory Trust_Choose
  imports Trust_Models Random_Helpers
begin

text \<open>
  \<open>src/wsn/common/trust/choose/*/trust-choose.c\<close>: the six ways to choose the edge a task is sent to.  The trust value of an
  edge and a capability is the argument \<open>trust\<close>, the random generator of the platform the sequence \<open>rand\<close>
  from position \<open>k\<close> on, with maximum \<open>rmax\<close>.  A result \<open>None\<close> is a write outside an array, a conversion of a float that does not
  fit or a call that does not return; \<open>Some (None, k')\<close> is the NULL pointer.
\<close>

text \<open>The guards all the loops share: an active edge with the capability, itself active.\<close>

definition candidate :: "('e, 'c) edge_info \<Rightarrow> string \<Rightarrow> addr \<Rightarrow> addr option" where
  "candidate s name e =
     (if \<not> edge_info_is_active s e then None
      else case edge_info_capability_find s (Some e) name of
        None \<Rightarrow> None
      | Some c \<Rightarrow> if edge_capability_is_active s c then Some c else None)"

definition choose_edge_fcfs :: "('e, 'c) edge_info \<Rightarrow> string \<Rightarrow> addr option" where
  "choose_edge_fcfs s name = List.find (\<lambda>e. candidate s name e \<noteq> None) (edge_resources s)"

fun highest_loop ::
  "(addr \<Rightarrow> addr \<Rightarrow> cfloat) \<Rightarrow> ('e, 'c) edge_info \<Rightarrow> string \<Rightarrow> addr list \<Rightarrow> addr option \<times> cfloat \<Rightarrow> addr option \<times> cfloat" where
  "highest_loop trust s name [] best = best"
| "highest_loop trust s name (e # es) (best_edge, best_trust) =
     (case candidate s name e of
        None \<Rightarrow> highest_loop trust s name es (best_edge, best_trust)
      | Some c \<Rightarrow>
          highest_loop trust s name es
            (if fless best_trust (trust e c) then (Some e, trust e c) else (best_edge, best_trust)))"

definition choose_edge_highest :: "(addr \<Rightarrow> addr \<Rightarrow> cfloat) \<Rightarrow> ('e, 'c) edge_info \<Rightarrow> string \<Rightarrow> addr option" where
  "choose_edge_highest trust s name = fst (highest_loop trust s name (edge_resources s) (None, Fin (- 1)))"

text \<open>A random element of an array of candidates.\<close>

definition pick :: "u16 \<Rightarrow> (nat \<Rightarrow> u16) \<Rightarrow> nat \<Rightarrow> addr list \<Rightarrow> (addr option \<times> nat) option" where
  "pick rmax rand k candidates =
     (if candidates = [] then Some (None, k)
      else map_option (\<lambda>(idx, k'). (Some (candidates ! unat idx), k'))
        (random_in_range_unbiased rmax rand k 0 (word_of_nat (length candidates - 1))))"

text \<open>Filling the array without a check of its size.\<close>

fun random_loop :: "('e, 'c) edge_info \<Rightarrow> string \<Rightarrow> addr list \<Rightarrow> addr list \<Rightarrow> addr list option" where
  "random_loop s name [] candidates = Some candidates"
| "random_loop s name (e # es) candidates =
     (if candidate s name e = None then random_loop s name es candidates
      else if NUM_EDGE_RESOURCES \<le> length candidates then None
      else random_loop s name es (candidates @ [e]))"

definition choose_edge_random ::
  "u16 \<Rightarrow> (nat \<Rightarrow> u16) \<Rightarrow> nat \<Rightarrow> ('e, 'c) edge_info \<Rightarrow> string \<Rightarrow> (addr option \<times> nat) option" where
  "choose_edge_random rmax rand k s name =
     (case random_loop s name (edge_resources s) [] of None \<Rightarrow> None | Some cs \<Rightarrow> pick rmax rand k cs)"

text \<open>Filling the array with a check of its size, and only with good edges.\<close>

fun badlisted_loop :: "(addr \<Rightarrow> bool) \<Rightarrow> ('e, 'c) edge_info \<Rightarrow> string \<Rightarrow> addr list \<Rightarrow> addr list \<Rightarrow> addr list" where
  "badlisted_loop edge_is_good s name [] candidates = candidates"
| "badlisted_loop edge_is_good s name (e # es) candidates =
     (if candidate s name e = None then badlisted_loop edge_is_good s name es candidates
      else if \<not> edge_is_good e then badlisted_loop edge_is_good s name es candidates
      else if length candidates = NUM_EDGE_RESOURCES then badlisted_loop edge_is_good s name es candidates
      else badlisted_loop edge_is_good s name es (candidates @ [e]))"

definition choose_edge_badlisted ::
  "(addr \<Rightarrow> bool) \<Rightarrow> u16 \<Rightarrow> (nat \<Rightarrow> u16) \<Rightarrow> nat \<Rightarrow> ('e, 'c) edge_info \<Rightarrow> string \<Rightarrow> (addr option \<times> nat) option" where
  "choose_edge_badlisted edge_is_good rmax rand k s name =
     pick rmax rand k (badlisted_loop edge_is_good s name (edge_resources s) [])"

text \<open>The candidates with their trust values, for the two choosers that weigh them.\<close>

fun valued_loop ::
  "(addr \<Rightarrow> addr \<Rightarrow> cfloat) \<Rightarrow> ('e, 'c) edge_info \<Rightarrow> string \<Rightarrow> addr list \<Rightarrow> (addr \<times> cfloat) list \<Rightarrow> (addr \<times> cfloat) list" where
  "valued_loop trust s name [] candidates = candidates"
| "valued_loop trust s name (e # es) candidates =
     (case candidate s name e of
        None \<Rightarrow> valued_loop trust s name es candidates
      | Some c \<Rightarrow>
          if length candidates = NUM_EDGE_RESOURCES then valued_loop trust s name es candidates
          else valued_loop trust s name es (candidates @ [(e, trust e c)]))"

definition BAND_SIZE :: cfloat where "BAND_SIZE = Fin (1 / 4)"

definition highest_trust :: "(addr \<times> cfloat) list \<Rightarrow> cfloat" where
  "highest_trust candidates = foldl (\<lambda>h (e, t). if fless h t then t else h) (Fin 0) candidates"

definition choose_edge_banded ::
  "ffmt \<Rightarrow> (addr \<Rightarrow> addr \<Rightarrow> cfloat) \<Rightarrow> u16 \<Rightarrow> (nat \<Rightarrow> u16) \<Rightarrow> nat \<Rightarrow> ('e, 'c) edge_info \<Rightarrow> string \<Rightarrow> (addr option \<times> nat) option" where
  "choose_edge_banded F trust rmax rand k s name =
     (let candidates = valued_loop trust s name (edge_resources s) [];
          highest = highest_trust candidates;
          candidates = filter (\<lambda>(e, t). fleq (fsub F highest BAND_SIZE) t) candidates
      in pick rmax rand k (map fst candidates))"

text \<open>The conversion of a float to \<open>uint16_t\<close> truncates; it is defined only when the result fits.\<close>

fun u16_of_float :: "cfloat \<Rightarrow> u16 option" where
  "u16_of_float (Fin x) = (if - 1 < x \<and> x < 65536 then Some (word_of_nat (nat \<lfloor>x\<rfloor>)) else None)"
| "u16_of_float _ = None"

fun those_boundaries :: "ffmt \<Rightarrow> u16 \<Rightarrow> cfloat \<Rightarrow> (addr \<times> cfloat) list \<Rightarrow> (addr \<times> u16) list option" where
  "those_boundaries F rmax sum_all [] = Some []"
| "those_boundaries F rmax sum_all ((e, t) # cs) =
     (case u16_of_float (fmul F (fdiv F t sum_all) (fl F (real (unat rmax)))) of
        None \<Rightarrow> None
      | Some b \<Rightarrow> map_option ((#) (e, b)) (those_boundaries F rmax sum_all cs))"

text \<open>The search for the interval the random number falls into; \<open>previous\<close> wraps, the comparison does not.\<close>

fun boundary_search :: "u16 \<Rightarrow> u16 \<Rightarrow> (addr \<times> u16) list \<Rightarrow> addr option" where
  "boundary_search draw previous [] = None"
| "boundary_search draw previous ((e, b) # cs) =
     (if previous \<le> draw \<and> unat draw < unat previous + unat b then Some e
      else boundary_search draw (previous + b) cs)"

definition choose_edge_proportional ::
  "ffmt \<Rightarrow> (addr \<Rightarrow> addr \<Rightarrow> cfloat) \<Rightarrow> u16 \<Rightarrow> (nat \<Rightarrow> u16) \<Rightarrow> nat \<Rightarrow> ('e, 'c) edge_info \<Rightarrow> string \<Rightarrow> (addr option \<times> nat) option" where
  "choose_edge_proportional F trust rmax rand k s name =
     (let candidates = valued_loop trust s name (edge_resources s) [];
          sum_all = foldl (\<lambda>sum (e, t). fadd F sum t) (Fin 0) candidates
      in case those_boundaries F rmax sum_all candidates of
           None \<Rightarrow> None
         | Some bs \<Rightarrow>
             if candidates = [] then Some (None, k) else Some (boundary_search (rand k) 0 bs, Suc k))"

subsection \<open>The candidates\<close>

definition candidates_of :: "('e, 'c) edge_info \<Rightarrow> string \<Rightarrow> addr list" where
  "candidates_of s name = filter (\<lambda>e. candidate s name e \<noteq> None) (edge_resources s)"

lemma edge_count: "edge_info_ok s \<Longrightarrow> length (edge_resources s) \<le> NUM_EDGE_RESOURCES"
  by (auto simp: edge_info_ok_def edges_ok_def intro!: distinct_card_le)

lemma random_loop_result:
  "length cs + length es \<le> NUM_EDGE_RESOURCES \<Longrightarrow>
    random_loop s name es cs = Some (cs @ filter (\<lambda>e. candidate s name e \<noteq> None) es)"
  by (induction es arbitrary: cs) auto

lemma badlisted_loop_result:
  "length cs + length es \<le> NUM_EDGE_RESOURCES \<Longrightarrow>
    badlisted_loop good s name es cs = cs @ filter (\<lambda>e. candidate s name e \<noteq> None \<and> good e) es"
  by (induction es arbitrary: cs) auto

lemma valued_loop_result:
  "length cs + length es \<le> NUM_EDGE_RESOURCES \<Longrightarrow>
    valued_loop trust s name es cs =
      cs @ map (\<lambda>e. (e, trust e (the (candidate s name e)))) (filter (\<lambda>e. candidate s name e \<noteq> None) es)"
  by (induction es arbitrary: cs) (auto split: option.split)

text \<open>A generator that goes on producing numbers that are accepted for every small range.\<close>

definition fair :: "u16 \<Rightarrow> (nat \<Rightarrow> u16) \<Rightarrow> bool" where
  "fair rmax rand \<longleftrightarrow> (\<forall>k. \<forall>n\<in>{1..NUM_EDGE_RESOURCES}. \<exists>j\<ge>k. unat (rand j) < unat rmax - unat rmax mod n)"

lemma pick_in:
  assumes "fair rmax rand" "cs \<noteq> []" "length cs \<le> NUM_EDGE_RESOURCES"
  shows "\<exists>e\<in>set cs. \<exists>k'>k. pick rmax rand k cs = Some (Some e, k')"
proof -
  have n: "length cs \<le> 4" "0 < length cs" using assms(2,3) by (simp_all add: NUM_EDGE_RESOURCES_def)
  let ?m = "word_of_nat (length cs - 1) :: u16"
  have m: "unat ?m = length cs - 1" using n by (simp add: unat_of_nat)
  have s: "unat (?m - 0 + 1) = length cs" using n m by (simp add: unat_word_ariths)
  then have "?m - 0 + 1 \<noteq> 0" using n(2) by (metis unat_0 less_irrefl)
  moreover have "\<exists>j\<ge>k. unat (rand j) < unat rmax - unat rmax mod unat (?m - 0 + 1)"
    using assms(1) n unfolding fair_def s by (auto simp: NUM_EDGE_RESOURCES_def Suc_le_eq)
  ultimately obtain v k' where "random_in_range_unbiased rmax rand k 0 ?m = Some (v, k')" "v \<le> ?m" "k < k'"
    using random_unbiased_returns [of 0 ?m k rand rmax] by auto
  moreover from this(2) have "unat v \<le> length cs - 1" unfolding word_le_nat_alt m .
  then have "unat v < length cs" using n(2) by linarith
  ultimately show ?thesis using assms(2) by (auto simp: pick_def intro!: bexI [of _ "cs ! unat v"])
qed


subsection \<open>What every choice keeps\<close>

text \<open>The candidates with their values, as the two weighing choosers collect them.\<close>

definition estimate :: "(addr \<Rightarrow> addr \<Rightarrow> cfloat) \<Rightarrow> ('e, 'c) edge_info \<Rightarrow> string \<Rightarrow> addr \<Rightarrow> cfloat" where
  "estimate trust s name e = trust e (the (candidate s name e))"

lemma candidates_length: "edge_info_ok s \<Longrightarrow> length (candidates_of s name) \<le> NUM_EDGE_RESOURCES"
  using edge_count [of s] length_filter_le [of _ "edge_resources s"] unfolding candidates_of_def by (metis le_trans)

lemma valued_candidates:
  "edge_info_ok s \<Longrightarrow>
    valued_loop trust s name (edge_resources s) [] = map (\<lambda>e. (e, estimate trust s name e)) (candidates_of s name)"
  using edge_count [of s] by (simp add: valued_loop_result candidates_of_def estimate_def)

lemma random_candidates: "edge_info_ok s \<Longrightarrow> random_loop s name (edge_resources s) [] = Some (candidates_of s name)"
  using edge_count [of s] by (simp add: random_loop_result candidates_of_def)

lemma badlisted_candidates:
  "edge_info_ok s \<Longrightarrow> badlisted_loop good s name (edge_resources s) [] = filter good (candidates_of s name)"
  using edge_count [of s] by (simp add: badlisted_loop_result candidates_of_def conj_commute)

lemma pick_Nil: "pick rmax rand k [] = Some (None, k)"
  by (simp add: pick_def)

lemma pick_result:
  assumes "fair rmax rand" "length cs \<le> NUM_EDGE_RESOURCES"
  shows "\<exists>r k'. pick rmax rand k cs = Some (r, k') \<and> (r = None \<longleftrightarrow> cs = []) \<and> (\<forall>e. r = Some e \<longrightarrow> e \<in> set cs)"
  using pick_in [OF assms(1) _ assms(2), of k] by (cases "cs = []") (auto simp: pick_Nil)

lemma choose_fcfs_first:
  "choose_edge_fcfs s name = (case candidates_of s name of [] \<Rightarrow> None | e # _ \<Rightarrow> Some e)"
proof -
  have "List.find P es = (case filter P es of [] \<Rightarrow> None | e # _ \<Rightarrow> Some e)" for P and es :: "addr list"
    by (induction es) auto
  then show ?thesis by (simp add: choose_edge_fcfs_def candidates_of_def)
qed

lemma choose_random_candidate:
  assumes "edge_info_ok s" "fair rmax rand"
  shows "\<exists>r k'. choose_edge_random rmax rand k s name = Some (r, k') \<and> (r = None \<longleftrightarrow> candidates_of s name = []) \<and>
    (\<forall>e. r = Some e \<longrightarrow> e \<in> set (candidates_of s name))"
  using pick_result [OF assms(2) candidates_length [OF assms(1)]] by (simp add: choose_edge_random_def random_candidates [OF assms(1)])

lemma choose_badlisted_candidate:
  assumes "edge_info_ok s" "fair rmax rand"
  shows "\<exists>r k'. choose_edge_badlisted good rmax rand k s name = Some (r, k') \<and>
    (r = None \<longleftrightarrow> (\<forall>e\<in>set (candidates_of s name). \<not> good e)) \<and>
    (\<forall>e. r = Some e \<longrightarrow> e \<in> set (candidates_of s name) \<and> good e)"
proof -
  have "length (filter good (candidates_of s name)) \<le> NUM_EDGE_RESOURCES"
    using candidates_length [OF assms(1)] length_filter_le le_trans by blast
  from pick_result [OF assms(2) this, of k] show ?thesis
    by (auto simp: choose_edge_badlisted_def badlisted_candidates [OF assms(1)] filter_empty_conv)
qed

subsection \<open>Choosing by trust\<close>

text \<open>
  What a chooser needs of a trust model: for the edges in the table its value is a finite float of the
  format, not negative.
\<close>

locale trust_model =
  fixes F :: ffmt
    and trust :: "addr \<Rightarrow> addr \<Rightarrow> cfloat"
    and ok :: "addr \<Rightarrow> bool"
  assumes value_ok: "ok e \<Longrightarrow> \<exists>t. trust e c = Fin t \<and> 0 \<le> t \<and> t \<le> fmax F \<and> is_float F t"
begin

lemma highest_loop_max:
  assumes "\<forall>e\<in>set es. candidate s name e \<noteq> None \<longrightarrow> ok e"
  shows "\<exists>b' t'. highest_loop trust s name es (b, Fin t) = (b', Fin t') \<and> t \<le> t' \<and>
    (\<forall>e\<in>set es. candidate s name e \<noteq> None \<longrightarrow> fleq (estimate trust s name e) (Fin t')) \<and>
    ((b' = b \<and> t' = t) \<or> (\<exists>e\<in>set es. candidate s name e \<noteq> None \<and> b' = Some e \<and> estimate trust s name e = Fin t'))"
  using assms
proof (induction es arbitrary: b t)
  case (Cons e es)
  show ?case
  proof (cases "candidate s name e")
    case None
    then show ?thesis using Cons.IH [of b t] Cons.prems by auto
  next
    case (Some c)
    then obtain v where v: "trust e c = Fin v" using Cons.prems value_ok [of e c] by auto
    then have est: "estimate trust s name e = Fin v" by (simp add: estimate_def Some)
    obtain b1 t1 where n: "(if fless (Fin t) (trust e c) then (Some e, trust e c) else (b, Fin t)) = (b1, Fin t1)"
        "t \<le> t1" "v \<le> t1" "b1 = b \<and> t1 = t \<or> b1 = Some e \<and> t1 = v"
      by (cases "t < v") (auto simp: v)
    obtain b' t' where r: "highest_loop trust s name es (b1, Fin t1) = (b', Fin t')" "t1 \<le> t'"
        "\<forall>e\<in>set es. candidate s name e \<noteq> None \<longrightarrow> fleq (estimate trust s name e) (Fin t')"
        "(b' = b1 \<and> t' = t1) \<or> (\<exists>e\<in>set es. candidate s name e \<noteq> None \<and> b' = Some e \<and> estimate trust s name e = Fin t')"
      using Cons.IH [of b1 t1] Cons.prems by auto
    have "highest_loop trust s name (e # es) (b, Fin t) = (b', Fin t')" using n(1) r(1) by (simp add: Some)
    moreover have "t \<le> t'" "v \<le> t'" using n r(2) by simp_all
    ultimately show ?thesis using r(3,4) n(4) est Some by auto
  qed
qed auto

lemma choose_highest_max:
  assumes "\<forall>e\<in>set (candidates_of s name). ok e"
  shows "(choose_edge_highest trust s name = None \<longleftrightarrow> candidates_of s name = []) \<and>
    (\<forall>e. choose_edge_highest trust s name = Some e \<longrightarrow> e \<in> set (candidates_of s name) \<and>
      (\<forall>e'\<in>set (candidates_of s name). fleq (estimate trust s name e') (estimate trust s name e)))"
proof -
  have "\<forall>e\<in>set (edge_resources s). candidate s name e \<noteq> None \<longrightarrow> ok e" using assms by (auto simp: candidates_of_def)
  from highest_loop_max [OF this, of None "- 1"] obtain b t where
    r: "highest_loop trust s name (edge_resources s) (None, Fin (- 1)) = (b, Fin t)"
      "\<forall>e\<in>set (candidates_of s name). fleq (estimate trust s name e) (Fin t)"
      "(b = None \<and> t = - 1) \<or> (\<exists>e\<in>set (candidates_of s name). b = Some e \<and> estimate trust s name e = Fin t)"
    by (auto simp: candidates_of_def)
  have "\<exists>v\<ge>0. estimate trust s name e = Fin v" if "e \<in> set (candidates_of s name)" for e
    using assms that value_ok unfolding estimate_def by blast
  then have "candidates_of s name = []" if "t = - 1" using r(2) that by (cases "candidates_of s name") fastforce+
  then show ?thesis using r by (auto simp: choose_edge_highest_def)
qed

lemma highest_trust_max:
  assumes "\<forall>(e, t)\<in>set cs. \<exists>v\<ge>0. t = Fin v"
  shows "0 \<le> h \<Longrightarrow> \<exists>h'. foldl (\<lambda>h (e, t). if fless h t then t else h) (Fin h) cs = Fin h' \<and> h \<le> h' \<and>
    (\<forall>(e, t)\<in>set cs. fleq t (Fin h')) \<and> (h' = h \<or> Fin h' \<in> snd ` set cs)"
  using assms
proof (induction cs arbitrary: h)
  case (Cons p cs)
  obtain e v where p: "p = (e, Fin v)" "0 \<le> v" using Cons.prems(2) by (cases p) auto
  define h1 where "h1 = max h v"
  have "0 \<le> h1" "\<forall>(e, t)\<in>set cs. \<exists>v\<ge>0. t = Fin v" using Cons.prems by (auto simp: h1_def)
  from Cons.IH [OF this] obtain h' where h': "foldl (\<lambda>h (e, t). if fless h t then t else h) (Fin h1) cs = Fin h'" "h1 \<le> h'"
      "\<forall>(e, t)\<in>set cs. fleq t (Fin h')" "h' = h1 \<or> Fin h' \<in> snd ` set cs" by blast
  have "(if fless (Fin h) (Fin v) then Fin v else Fin h) = Fin h1" by (simp add: h1_def)
  with h' p show ?case by (auto simp: h1_def max_def split: if_splits)
qed auto

lemma band_floor:
  assumes format: "ffmt_ok F" and "0 \<le> h" "h \<le> fmax F" "is_float F h"
  shows "fsub F (Fin h) BAND_SIZE = Fin (rnd F (h - 1 / 4))" "rnd F (h - 1 / 4) \<le> h"
proof -
  have "rnd F (h - 1 / 4) \<le> h" using rnd_mono [OF format, of "h - 1 / 4" h] assms(4) by (simp add: is_float_def)
  moreover have "- 1 \<le> rnd F (h - 1 / 4)"
    using rnd_mono [OF format, of "- 1" "h - 1 / 4"] rnd_minus [OF format, of 1] format assms(2) by simp
  moreover have "1 \<le> fmax F" using format by (simp add: ffmt_ok_def)
  ultimately show "fsub F (Fin h) BAND_SIZE = Fin (rnd F (h - 1 / 4))" "rnd F (h - 1 / 4) \<le> h"
    using assms(3) by (auto simp: fsub_def BAND_SIZE_def fl_def Let_def)
qed

lemma choose_banded_in_band:
  assumes format: "ffmt_ok F" and tab: "edge_info_ok s" and fair: "fair rmax rand" and ok: "\<forall>e\<in>set (candidates_of s name). ok e"
  shows "\<exists>r k'. choose_edge_banded F trust rmax rand k s name = Some (r, k') \<and> (r = None \<longleftrightarrow> candidates_of s name = []) \<and>
    (\<forall>e. r = Some e \<longrightarrow> e \<in> set (candidates_of s name) \<and>
      (\<forall>e'\<in>set (candidates_of s name). fleq (fsub F (estimate trust s name e') BAND_SIZE) (estimate trust s name e)))"
proof -
  let ?cs = "candidates_of s name"
  let ?v = "estimate trust s name"
  let ?ps = "map (\<lambda>e. (e, ?v e)) ?cs"
  have val: "\<exists>t. ?v e = Fin t \<and> 0 \<le> t \<and> t \<le> fmax F \<and> is_float F t" if "e \<in> set ?cs" for e
    using ok value_ok that unfolding estimate_def by blast
  then have "\<forall>(e, t)\<in>set ?ps. \<exists>v\<ge>0. t = Fin v" by fastforce
  from highest_trust_max [OF this, of 0] obtain h where
    h: "highest_trust ?ps = Fin h" "0 \<le> h" "\<forall>e\<in>set ?cs. fleq (?v e) (Fin h)" "h = 0 \<or> Fin h \<in> ?v ` set ?cs"
    by (auto simp: highest_trust_def image_iff)
  have top: "\<exists>e\<in>set ?cs. ?v e = Fin h" if ne: "?cs \<noteq> []"
  proof (cases "h = 0")
    case True
    obtain e where e: "e \<in> set ?cs" using ne by (cases ?cs) auto
    with val h(3) True show ?thesis by fastforce
  qed (use h(4) in auto)
  have hf: "0 \<le> h \<and> h \<le> fmax F \<and> is_float F h" using h(4) val format
    by (auto simp: ffmt_ok_def is_float_def rnd_0 [OF format] dest!: val intro: order_trans [of _ "2 ^ 127"])
  note fl = band_floor [of h, OF format hf [THEN conjunct1] hf [THEN conjunct2, THEN conjunct1] hf [THEN conjunct2, THEN conjunct2]]
  let ?bs = "filter (\<lambda>e. fleq (Fin (rnd F (h - 1 / 4))) (?v e)) ?cs"
  have run: "choose_edge_banded F trust rmax rand k s name = pick rmax rand k ?bs"
    by (simp add: choose_edge_banded_def Let_def valued_candidates [OF tab] h(1) fl(1) filter_map o_def)
  have len: "length ?bs \<le> NUM_EDGE_RESOURCES" using candidates_length [OF tab, of name] length_filter_le le_trans by blast
  have "fleq (Fin (rnd F (h - 1 / 4))) (Fin h)" using fl(2) by simp
  then have emp: "?bs = [] \<longleftrightarrow> ?cs = []" using top by (metis (no_types, lifting) empty_filter_conv filter.simps(1))
  have band: "fleq (fsub F (?v e') BAND_SIZE) (?v e)" if e: "e \<in> set ?bs" and e': "e' \<in> set ?cs" for e e'
  proof -
    obtain t' where t': "?v e' = Fin t'" "0 \<le> t'" "t' \<le> fmax F" "is_float F t'" using val [OF e'] by blast
    then have "rnd F (t' - 1 / 4) \<le> rnd F (h - 1 / 4)" using h(3) e' rnd_mono [OF format] by fastforce
    then show ?thesis using e val [of e] band_floor(1) [OF format t'(2-4)] by (auto simp: t'(1))
  qed
  from pick_result [OF fair len, of k] show ?thesis unfolding run emp using band by auto
qed

end

subsection \<open>The proportional choice has a gap\<close>

lemma boundaries_edges: "those_boundaries F rmax c cs = Some bs \<Longrightarrow> map fst bs = map fst cs"
  by (induction cs arbitrary: bs) (auto split: option.splits)

lemma boundary_search_in: "boundary_search d p bs = Some e \<Longrightarrow> e \<in> set (map fst bs)"
  by (induction d p bs rule: boundary_search.induct) (auto split: if_splits)

lemma proportional_candidate:
  assumes "edge_info_ok s" "choose_edge_proportional F trust rmax rand k s name = Some (Some e, k')"
  shows "e \<in> set (candidates_of s name)"
proof -
  let ?ps = "map (\<lambda>e. (e, estimate trust s name e)) (candidates_of s name)"
  obtain c bs where "those_boundaries F rmax c ?ps = Some bs" "boundary_search (rand k) 0 bs = Some e"
    using assms(2) by (auto simp: choose_edge_proportional_def Let_def valued_candidates [OF assms(1)] split: option.splits if_splits)
  from boundary_search_in [OF this(2)] boundaries_edges [OF this(1)] show ?thesis by (simp add: o_def)
qed


lemma u16_of_float_nat: "n < 2 ^ 16 \<Longrightarrow> u16_of_float (Fin (real n)) = Some (word_of_nat n)"
  by simp

text \<open>With one candidate the interval is the whole range but its last number; with no trust at all there is no interval.\<close>

lemma proportional_single:
  assumes "edge_info_ok s" "ffmt_ok F" "candidates_of s name = [e]" "estimate trust s name e = Fin t"
    "0 < t" "t \<le> fmax F" "is_float F t"
  shows "choose_edge_proportional F trust rmax rand k s name =
    Some (if rand k < rmax then Some e else None, Suc k)"
proof -
  have sum: "fadd F (Fin 0) (Fin t) = Fin t" using assms(5-7) by (simp add: fl_def Let_def is_float_def)
  have one: "fdiv F (Fin t) (Fin t) = Fin 1" using assms(2,5) fl_unit [OF assms(2), of 1] by simp
  have n: "unat rmax < 2 ^ 16" using unsigned_less [of rmax, where 'a = nat] by simp
  then have max: "fl F (real (unat rmax)) = Fin (real (unat rmax))"
    using fl_Fin [OF assms(2), of "real (unat rmax)"] rnd_nat [OF assms(2), of "unat rmax"] by (simp del: of_nat_unat)
  have "(word_of_nat (unat rmax) :: u16) = rmax" by simp
  then have "those_boundaries F rmax (Fin t) [(e, Fin t)] = Some [(e, rmax)]"
    using u16_of_float_nat [OF n] by (simp add: one max del: of_nat_unat u16_of_float.simps fdiv.simps)
  then show ?thesis
    unfolding choose_edge_proportional_def Let_def valued_candidates [OF assms(1)] assms(3,4)
    by (simp add: sum assms(4) word_less_nat_alt del: fadd.simps those_boundaries.simps)
qed

lemma proportional_no_trust:
  assumes "edge_info_ok s" "ffmt_ok F" "candidates_of s name \<noteq> []"
    "\<forall>e\<in>set (candidates_of s name). estimate trust s name e = Fin 0"
  shows "choose_edge_proportional F trust rmax rand k s name = None"
proof -
  have z: "fadd F (Fin 0) (Fin 0) = Fin 0" using fl_unit [OF assms(2), of 0] assms(2) by simp
  have "foldl (\<lambda>sum (e, t). fadd F sum t) (Fin 0) (map (\<lambda>e. (e, estimate trust s name e)) cs) = Fin 0"
    if "\<forall>e\<in>set cs. estimate trust s name e = Fin 0" for cs
    using that by (induction cs) (simp_all add: z del: fadd.simps)
  note sum = this [OF assms(4)]
  obtain e cs where e: "candidates_of s name = e # cs" using assms(3) by (cases "candidates_of s name") auto
  then have "those_boundaries F rmax (Fin 0) (map (\<lambda>e. (e, estimate trust s name e)) (candidates_of s name)) = None"
    using assms(4) fl_Fin [OF assms(2)] by (simp add: inf_of_sign_def)
  then show ?thesis unfolding choose_edge_proportional_def Let_def valued_candidates [OF assms(1)] sum by simp
qed


subsection \<open>Properties\<close>

text \<open>An edge table with one active edge that offers one active capability, and a generator that repeats itself.\<close>

definition one_edge_info :: "'e \<Rightarrow> 'c \<Rightarrow> ('e, 'c) edge_info" where
  "one_edge_info tm ctm = \<lparr>edge_resources_memb = {0}, edge_capabilities_memb = {0}, edge_resources = [0],
     edge_mem = (\<lambda>_. \<lparr>ep = \<lparr>ipaddr = replicate 16 1, secure = 0, port = 5683\<rparr>, edge_flags = 1, edge_tm = tm, capabilities = [0]\<rparr>),
     cap_mem = (\<lambda>_. \<lparr>cap_name = ''envmon'' @ replicate 10 NUL, cap_flags = 1, cap_tm = ctm\<rparr>)\<rparr>"

definition no_stereotypes :: "'tm \<Rightarrow> 'tm stereotypes" where
  "no_stereotypes tm = \<lparr>st_memb = {}, known = [], requesting = [], st_mem = (\<lambda>_. \<lparr>st_tags = \<lparr>device_class = 1\<rparr>, st_edge_tm = tm\<rparr>),
     st_in_use = \<lparr>locked = False, lname = [], timer = None, duration = 0, owner = 0\<rparr>, st_polled = False\<rparr>"

lemma one_edge_info_ok: "edge_info_ok (one_edge_info tm ctm)"
  by (simp add: edge_info_ok_def edges_ok_def caps_ok_def names_ok_def owned_def caps_of_def one_edge_info_def NUM_simps nth_append)

lemma one_edge_candidates: "candidates_of (one_edge_info tm ctm) ''envmon'' = [0]"
  by (simp add: candidates_of_def candidate_def one_edge_info_def edge_info_is_active_def edge_capability_is_active_def
      edge_info_capability_find_def EDGE_RESOURCE_ACTIVE_def EDGE_CAPABILITY_ACTIVE_def cstr_def NUL_def)

lemma constant_fair: "fair 65535 (\<lambda>_. 7)"
proof -
  have c: "unat (65535 :: u16) = 65535" "unat (7 :: u16) = 7" by simp_all
  have "unat (7 :: u16) < unat (65535 :: u16) - unat (65535 :: u16) mod n" if "n \<in> {1..NUM_EDGE_RESOURCES}" for n
  proof -
    have "0 < n" "n \<le> 4" using that by (simp_all add: NUM_EDGE_RESOURCES_def)
    moreover from this(1) have "65535 mod n < n" by (rule mod_less_divisor)
    ultimately show ?thesis unfolding c by linarith
  qed
  then show ?thesis unfolding fair_def by blast
qed

text \<open>
  C8: the choosers that draw a random candidate always return, never write past their array of candidates, give NULL only
  when no edge qualifies, and otherwise an active edge that offers the capability; the badlisting one never a badlisted edge.
\<close>

theorem choose_edge_random_spec:
  assumes "edge_info_ok s" "fair rmax rand"
  shows "(\<exists>r k'. choose_edge_random rmax rand k s name = Some (r, k') \<and> (r = None \<longleftrightarrow> candidates_of s name = []) \<and>
      (\<forall>e. r = Some e \<longrightarrow> e \<in> set (candidates_of s name))) \<and>
    (\<exists>r k'. choose_edge_badlisted good rmax rand k s name = Some (r, k') \<and>
      (r = None \<longleftrightarrow> (\<forall>e\<in>set (candidates_of s name). \<not> good e)) \<and>
      (\<forall>e. r = Some e \<longrightarrow> e \<in> set (candidates_of s name) \<and> good e))"
  by (rule conjI [OF choose_random_candidate [OF assms] choose_badlisted_candidate [OF assms]])

theorem choose_edge_random_spec_witness:
  "\<exists>k'. choose_edge_random 65535 (\<lambda>_. 7) 0 (one_edge_info () ()) ''envmon'' = Some (Some 0, k')"
  using choose_edge_random_spec [OF one_edge_info_ok constant_fair, of 0 "()" "()" "''envmon''" "\<lambda>_. True"]
  by (auto simp: one_edge_candidates)

text \<open>
  The proportional chooser has two gaps.  With a single candidate of positive trust it returns NULL when the random number
  is the largest one, and the candidate otherwise; when no candidate has any trust it divides by zero and
  converts the quotient to an integer, which is undefined.
\<close>

theorem choose_edge_proportional_gaps:
  assumes "edge_info_ok s" "ffmt_ok F"
  shows "(\<forall>e t. candidates_of s name = [e] \<longrightarrow> estimate trust s name e = Fin t \<longrightarrow> 0 < t \<longrightarrow> t \<le> fmax F \<longrightarrow> is_float F t \<longrightarrow>
      choose_edge_proportional F trust rmax rand k s name = Some (if rand k < rmax then Some e else None, Suc k)) \<and>
    (candidates_of s name \<noteq> [] \<longrightarrow> (\<forall>e\<in>set (candidates_of s name). estimate trust s name e = Fin 0) \<longrightarrow>
      choose_edge_proportional F trust rmax rand k s name = None)"
  using proportional_single [OF assms] proportional_no_trust [OF assms] by blast

theorem choose_edge_proportional_gaps_witness:
  "choose_edge_proportional exact_fmt (\<lambda>_ _. Fin 1) 65535 (\<lambda>_. 65535) 0 (one_edge_info () ()) ''envmon'' = Some (None, 1) \<and>
   choose_edge_proportional exact_fmt (\<lambda>_ _. Fin 1) 65535 (\<lambda>_. 7) 0 (one_edge_info () ()) ''envmon'' = Some (Some 0, 1) \<and>
   choose_edge_proportional exact_fmt (\<lambda>_ _. Fin 0) 65535 (\<lambda>_. 7) 0 (one_edge_info () ()) ''envmon'' = None"
proof -
  have "is_float exact_fmt 1" "1 \<le> fmax exact_fmt" by (simp_all add: is_float_def exact_fmt_def)
  moreover note gaps = choose_edge_proportional_gaps [OF one_edge_info_ok [of "()" "()"] exact_fmt_ok, of "''envmon''"]
  ultimately show ?thesis
    using gaps [of "\<lambda>_ _. Fin 1" 65535 "\<lambda>_. 65535" 0] gaps [of "\<lambda>_ _. Fin 1" 65535 "\<lambda>_. 7" 0] gaps [of "\<lambda>_ _. Fin 0" 65535 "\<lambda>_. 7" 0]
    by (auto simp: one_edge_candidates estimate_def)
qed

end
