(* ===== verification/Tm_Basic.thy ===== *)
theory Tm_Basic
  imports Trust_Choose
begin

text \<open>
  \<open>src/wsn/common/trust/models/basic/trust-model.{h,c}\<close>: trust from beta distributions of task submissions, task
  results and result quality.  \<open>use_cr\<close> is true when the firmware is built with \<open>APPLICATION_CHALLENGE_RESPONSE\<close> and
  \<open>TRUST_MODEL_USE_CHALLENGE_RESPONSE\<close>.
\<close>

record edge_resource_tm_basic =
  task_submission :: beta_dist
  task_result :: beta_dist

record edge_capability_tm_basic =
  result_quality :: beta_dist

type_synonym 'k basic_state = "(edge_resource_tm_basic, edge_capability_tm_basic, 'k) trust_state"
type_synonym basic_edges = "(edge_resource_tm_basic, edge_capability_tm_basic) edge_info"

definition CHALLENGE_RESPONSE_APPLICATION_NAME :: string where "CHALLENGE_RESPONSE_APPLICATION_NAME = ''cr''"

definition edge_resource_tm_init_basic :: "edge_resource_tm_basic \<Rightarrow> edge_resource_tm_basic" where
  "edge_resource_tm_init_basic tm = tm\<lparr>task_submission := the (beta_dist_init 1 1), task_result := the (beta_dist_init 1 1)\<rparr>"

definition edge_capability_tm_init_basic :: "edge_capability_tm_basic \<Rightarrow> edge_capability_tm_basic" where
  "edge_capability_tm_init_basic tm = tm\<lparr>result_quality := the (beta_dist_init 1 1)\<rparr>"

text \<open>The weights and estimates of the metrics in the order they are added up.\<close>

definition metrics_basic ::
  "ffmt \<Rightarrow> 'k ks_config \<Rightarrow> bool \<Rightarrow> 'k basic_state \<Rightarrow> addr \<Rightarrow> addr \<Rightarrow> (cfloat \<times> cfloat) list" where
  "metrics_basic F K use_cr s edge capability =
     (let es = ts_edges s;
          st = stereotype_of K s edge;
          w = find_trust_weight (ts_weights s) (cap_name (cap_mem es capability));
          tm = edge_tm (edge_mem es edge)
      in [(w TRUST_METRIC_TASK_SUBMISSION,
             beta_dist_expected F (beta_dist_combine (task_submission tm) (map_option task_submission st))),
          (w TRUST_METRIC_TASK_RESULT,
             beta_dist_expected F (beta_dist_combine (task_result tm) (map_option task_result st))),
          (w TRUST_METRIC_RESULT_QUALITY, beta_dist_expected F (result_quality (cap_tm (cap_mem es capability))))] @
         (if use_cr
          then case edge_info_capability_find es (Some edge) CHALLENGE_RESPONSE_APPLICATION_NAME of
                 None \<Rightarrow> []
               | Some cr \<Rightarrow> [(w TRUST_METRIC_CHALLENGE_RESP, beta_dist_expected F (result_quality (cap_tm (cap_mem es cr))))]
          else []))"

definition calculate_trust_value_basic ::
  "ffmt \<Rightarrow> 'k ks_config \<Rightarrow> bool \<Rightarrow> 'k basic_state \<Rightarrow> addr \<Rightarrow> addr \<Rightarrow> cfloat" where
  "calculate_trust_value_basic F K use_cr s edge capability =
     fst (weighted_sum F (metrics_basic F K use_cr s edge capability))"

text \<open>The check that only writes to the log.\<close>

definition weights_total_close :: "ffmt \<Rightarrow> (cfloat \<times> cfloat) list \<Rightarrow> bool" where
  "weights_total_close F wes = isclose F (snd (weighted_sum F wes)) (Fin 1)"

definition beta_dist_add :: "bool \<Rightarrow> beta_dist \<Rightarrow> beta_dist" where
  "beta_dist_add good d = (if good then beta_dist_add_good d else beta_dist_add_bad d)"

definition upd_edge_tm :: "addr \<Rightarrow> ('e \<Rightarrow> 'e) \<Rightarrow> ('e, 'c) edge_info \<Rightarrow> ('e, 'c) edge_info" where
  "upd_edge_tm edge f = upd_edge edge (\<lambda>r. r\<lparr>edge_tm := f (edge_tm r)\<rparr>)"

definition upd_cap_tm :: "addr \<Rightarrow> ('c \<Rightarrow> 'c) \<Rightarrow> ('e, 'c) edge_info \<Rightarrow> ('e, 'c) edge_info" where
  "upd_cap_tm cap f = upd_cap cap (\<lambda>r. r\<lparr>cap_tm := f (cap_tm r)\<rparr>)"

definition tm_update_task_submission_basic ::
  "contiki \<Rightarrow> addr \<Rightarrow> addr \<Rightarrow> tm_task_submission_info \<Rightarrow> basic_edges \<Rightarrow> basic_edges" where
  "tm_update_task_submission_basic CT edge cap info es =
     (let (good, should_update) = tm_task_submission_good CT info in
      if \<not> should_update then es
      else upd_edge_tm edge (\<lambda>tm. tm\<lparr>task_submission := beta_dist_add good (task_submission tm)\<rparr>) es)"

definition tm_update_task_result_basic ::
  "addr \<Rightarrow> addr \<Rightarrow> tm_task_result_info \<Rightarrow> basic_edges \<Rightarrow> basic_edges" where
  "tm_update_task_result_basic edge cap info es =
     upd_edge_tm edge (\<lambda>tm. tm\<lparr>task_result := beta_dist_add (info = TM_TASK_RESULT_INFO_SUCCESS) (task_result tm)\<rparr>) es"

definition tm_update_result_quality_basic ::
  "addr \<Rightarrow> addr \<Rightarrow> tm_result_quality_info \<Rightarrow> basic_edges \<Rightarrow> basic_edges" where
  "tm_update_result_quality_basic edge cap info es =
     upd_cap_tm cap (\<lambda>tm. tm\<lparr>result_quality := beta_dist_add (quality_good info) (result_quality tm)\<rparr>) es"

definition tm_update_challenge_response_basic ::
  "contiki \<Rightarrow> addr \<Rightarrow> tm_challenge_response_info \<Rightarrow> basic_edges \<Rightarrow> basic_edges" where
  "tm_update_challenge_response_basic CT edge info es =
     (let (good, should_update) = tm_challenge_response_good CT info in
      if \<not> should_update then es
      else case edge_info_capability_find es (Some edge) CHALLENGE_RESPONSE_APPLICATION_NAME of
        None \<Rightarrow> es
      | Some cap \<Rightarrow> tm_update_result_quality_basic edge cap \<lparr>quality_good = good\<rparr> es)"

definition serialise_trust_edge_resource_basic :: "('en, 'de) nanocbor \<Rightarrow> edge_resource_tm_basic \<Rightarrow> 'en \<Rightarrow> int \<times> 'en" where
  "serialise_trust_edge_resource_basic NC tm =
     checks [\<lambda>en. fmt_array NC en 2, beta_dist_serialise NC (task_submission tm), beta_dist_serialise NC (task_result tm)]"

definition serialise_trust_edge_capability_basic :: "('en, 'de) nanocbor \<Rightarrow> edge_capability_tm_basic \<Rightarrow> 'en \<Rightarrow> int \<times> 'en" where
  "serialise_trust_edge_capability_basic NC tm =
     checks [\<lambda>en. fmt_array NC en 1, beta_dist_serialise NC (result_quality tm)]"

definition deserialise_trust_edge_resource_basic ::
  "('en, 'de) nanocbor \<Rightarrow> 'de \<times> edge_resource_tm_basic \<Rightarrow> int \<times> 'de \<times> edge_resource_tm_basic" where
  "deserialise_trust_edge_resource_basic NC =
     in_array NC (checks
      [on_field task_submission (\<lambda>d tm. tm\<lparr>task_submission := d\<rparr>) (beta_dist_deserialise NC),
       on_field task_result (\<lambda>d tm. tm\<lparr>task_result := d\<rparr>) (beta_dist_deserialise NC)])"

definition deserialise_trust_edge_capability_basic ::
  "('en, 'de) nanocbor \<Rightarrow> 'de \<times> edge_capability_tm_basic \<Rightarrow> int \<times> 'de \<times> edge_capability_tm_basic" where
  "deserialise_trust_edge_capability_basic NC =
     in_array NC (checks [on_field result_quality (\<lambda>d tm. tm\<lparr>result_quality := d\<rparr>) (beta_dist_deserialise NC)])"

subsection \<open>Counters in range\<close>

text \<open>Fewer than \<open>2^22\<close> events of a kind, and the prior of one: sums of two counters are exact floats.\<close>

definition small_beta :: "beta_dist \<Rightarrow> bool" where
  "small_beta d \<longleftrightarrow> 0 < unat (alpha d) \<and> unat (alpha d) < 2 ^ 22 \<and> 0 < unat (beta d) \<and> unat (beta d) < 2 ^ 22"

lemma unat_pred_add:
  assumes "0 < unat (a :: u32)" "unat a < 2 ^ 22" "unat b < 2 ^ 22"
  shows "unat (a - 1 + b) = unat a - 1 + unat b"
proof -
  have "unat (a - 1) = unat a - 1" using assms(1) by (metis unat_gt_0 unat_minus_one)
  then show ?thesis using assms by (subst unat_add_lem [THEN iffD1]) auto
qed

definition small_sum :: "beta_dist \<Rightarrow> bool" where
  "small_sum d \<longleftrightarrow> beta_ok d \<and> unat (alpha d) + unat (beta d) < 2 ^ 24"

lemma small_beta_sum: "small_beta d \<Longrightarrow> small_sum d"
  by (auto simp: small_beta_def small_sum_def beta_ok_def)

definition roomy :: "beta_dist \<Rightarrow> bool" where
  "roomy d \<longleftrightarrow> beta_ok d \<and> unat (alpha d) + unat (beta d) + 1 < 2 ^ 24"

lemma small_combine:
  assumes "small_beta d" "\<forall>e. st = Some e \<longrightarrow> small_beta e"
  shows "roomy (beta_dist_combine d st)"
proof (cases st)
  case (Some e)
  then have e: "small_beta e" using assms(2) by simp
  have "unat (alpha d - 1 + alpha e) = unat (alpha d) - 1 + unat (alpha e)"
      "unat (beta d - 1 + beta e) = unat (beta d) - 1 + unat (beta e)"
    by (rule unat_pred_add; use assms(1) e in \<open>auto simp: small_beta_def\<close>)+
  moreover from this have "alpha d - 1 + alpha e \<noteq> 0" using e by (auto simp: small_beta_def)
  ultimately show ?thesis using assms(1) e by (auto simp: Some beta_dist_combine_def roomy_def beta_ok_def small_beta_def)
qed (use assms(1) in \<open>auto simp: beta_dist_combine_def roomy_def small_beta_def beta_ok_def\<close>)

lemma combine_add: "beta_dist_combine (beta_dist_add good d) st = beta_dist_add good (beta_dist_combine d st)"
  by (cases st) (auto simp: beta_dist_combine_def beta_dist_add_def beta_dist_add_good_def beta_dist_add_bad_def)

lemma roomy_small: "roomy d \<Longrightarrow> small_sum d"
  by (simp add: roomy_def small_sum_def)

lemma roomy_add:
  assumes "roomy d"
  shows "small_sum (beta_dist_add good d)"
proof -
  have "unat (alpha d + 1) = unat (alpha d) + 1" "unat (beta d + 1) = unat (beta d) + 1"
    by (rule unat_succ_small, use assms in \<open>simp add: roomy_def\<close>)+
  then show ?thesis
    using assms by (auto simp: roomy_def small_sum_def beta_ok_def beta_dist_add_def beta_dist_add_good_def beta_dist_add_bad_def)
qed

lemma expected_add_mono:
  assumes "ffmt_ok F" "small_sum d"
  shows "fleq (beta_dist_expected F d) (beta_dist_expected F (beta_dist_add True d))"
    "fleq (beta_dist_expected F (beta_dist_add False d)) (beta_dist_expected F d)"
  using beta_events_mono [OF assms(1), of d] assms(2) by (simp_all add: beta_dist_add_def small_sum_def)

text \<open>The state a trust value is computed in.\<close>

definition edge_tm_small :: "edge_resource_tm_basic \<Rightarrow> bool" where
  "edge_tm_small tm \<longleftrightarrow> small_beta (task_submission tm) \<and> small_beta (task_result tm)"

definition basic_ok :: "ffmt \<Rightarrow> 'k ks_config \<Rightarrow> 'k basic_state \<Rightarrow> addr \<Rightarrow> bool" where
  "basic_ok F K s edge \<longleftrightarrow> ffmt_ok F \<and> weights_ok F (ts_weights s) \<and> edge_tm_small (edge_tm (edge_mem (ts_edges s) edge)) \<and>
     (\<forall>tm. stereotype_of K s edge = Some tm \<longrightarrow> edge_tm_small tm) \<and>
     (\<forall>c. small_beta (result_quality (cap_tm (cap_mem (ts_edges s) c))))"

lemma small_sum_unit: "\<lbrakk>ffmt_ok F; small_sum d\<rbrakk> \<Longrightarrow> unit_float F (beta_dist_expected F d)"
  by (simp add: beta_expected_unit small_sum_def)

lemma basic_combined:
  assumes "basic_ok F K s edge"
  shows "roomy (beta_dist_combine (task_submission (edge_tm (edge_mem (ts_edges s) edge))) (map_option task_submission (stereotype_of K s edge)))"
    "roomy (beta_dist_combine (task_result (edge_tm (edge_mem (ts_edges s) edge))) (map_option task_result (stereotype_of K s edge)))"
  by (rule small_combine; use assms in \<open>auto simp: basic_ok_def edge_tm_small_def\<close>)+

lemma metrics_basic_length: "length (metrics_basic F K use_cr s edge cap) \<le> 2 ^ 24"
  by (simp add: metrics_basic_def Let_def split: option.split)

lemma metrics_basic_ok:
  assumes "basic_ok F K s edge"
  shows "\<forall>we\<in>set (metrics_basic F K use_cr s edge cap). weighted_ok F we"
proof -
  have F: "ffmt_ok F" using assms by (simp add: basic_ok_def)
  have w: "unit_float F (find_trust_weight (ts_weights s) name m)" for name m
    using assms by (intro find_trust_weight_unit) (simp_all add: basic_ok_def)
  have q: "unit_float F (beta_dist_expected F (result_quality (cap_tm (cap_mem (ts_edges s) c))))" for c
    using assms by (intro small_sum_unit small_beta_sum) (auto simp: basic_ok_def)
  note c = basic_combined [OF assms, THEN roomy_small, THEN small_sum_unit [OF F]]
  show ?thesis
    by (cases use_cr; cases "edge_info_capability_find (ts_edges s) (Some edge) CHALLENGE_RESPONSE_APPLICATION_NAME";
        simp add: metrics_basic_def Let_def weighted_ok_def; simp only: w q c simp_thms)
qed

lemma trust_basic_bounds:
  assumes "basic_ok F K s edge"
  shows "\<exists>t w. calculate_trust_value_basic F K use_cr s edge cap = Fin t \<and>
    snd (weighted_sum F (metrics_basic F K use_cr s edge cap)) = Fin w \<and> 0 \<le> t \<and> t \<le> w"
proof -
  have F: "ffmt_ok F" using assms by (simp add: basic_ok_def)
  show ?thesis
    by (rule weighted_sum_bounds [OF F metrics_basic_ok [OF assms, of use_cr cap] metrics_basic_length])
      (auto simp: calculate_trust_value_basic_def)
qed

text \<open>The model gives the choosers what they rely on.\<close>

interpretation basic: trust_model F "calculate_trust_value_basic F K use_cr s" "basic_ok F K s" for F K use_cr s
proof unfold_locales
  show "\<exists>t. calculate_trust_value_basic F K use_cr s e c = Fin t \<and> 0 \<le> t \<and> t \<le> fmax F \<and> is_float F t"
    if "basic_ok F K s e" for e c
    using trust_basic_bounds [OF that, of use_cr c] that weighted_sum_float
    by (fastforce simp: calculate_trust_value_basic_def basic_ok_def)
qed

text \<open>
  C6: the trust value of the basic model is a finite number, at least 0 and at most the sum of the weights
  as the code adds them up, whatever the rounding.
\<close>

theorem trust_value_basic_bounded:
  assumes "basic_ok F K s edge"
  shows "\<exists>t w. calculate_trust_value_basic F K use_cr s edge cap = Fin t \<and>
    snd (weighted_sum F (metrics_basic F K use_cr s edge cap)) = Fin w \<and> 0 \<le> t \<and> t \<le> w"
  using assms by (rule trust_basic_bounds)

text \<open>A fresh edge with one capability, and an application whose three weights add up to one.\<close>

definition fresh_beta :: beta_dist where
  "fresh_beta = \<lparr>alpha = 1, beta = 1\<rparr>"

definition example_weights :: trust_weights_state where
  "example_weights = \<lparr>tw_list = [0], tw_mem = (\<lambda>_. \<lparr>application_name = ''envmon'',
     weights = [(TRUST_METRIC_TASK_SUBMISSION, Fin (1 / 4)), (TRUST_METRIC_TASK_RESULT, Fin (1 / 4)), (TRUST_METRIC_RESULT_QUALITY, Fin (1 / 2))]\<rparr>)\<rparr>"

definition example_basic :: "unit basic_state" where
  "example_basic = \<lparr>ts_keystore = example_store, ts_stereotypes = no_stereotypes \<lparr>task_submission = fresh_beta, task_result = fresh_beta\<rparr>,
     ts_weights = example_weights,
     ts_edges = one_edge_info \<lparr>task_submission = fresh_beta, task_result = fresh_beta\<rparr> \<lparr>result_quality = fresh_beta\<rparr>\<rparr>"

lemma example_weights_ok: "weights_ok exact_fmt example_weights"
  by (simp add: weights_ok_def example_weights_def exact_unit)

lemma fresh_beta_small: "small_beta fresh_beta"
  by (simp add: small_beta_def fresh_beta_def)

lemma example_basic_ok: "basic_ok exact_fmt example_config example_basic 0"
  by (simp add: basic_ok_def example_basic_def example_weights_ok fresh_beta_small edge_tm_small_def one_edge_info_def stereotype_of_def
      keystore_find_addr_def keystore_find_def keystore_find_in_list_def example_store_def)

theorem trust_value_basic_bounded_witness:
  "\<exists>t w. calculate_trust_value_basic exact_fmt example_config False example_basic 0 0 = Fin t \<and>
    snd (weighted_sum exact_fmt (metrics_basic exact_fmt example_config False example_basic 0 0)) = Fin w \<and> 0 \<le> t \<and> t \<le> w"
  by (rule trust_value_basic_bounded [OF example_basic_ok])

subsection \<open>Choosing with this model\<close>

text \<open>
  C7: with the chooser of highest trust, a task goes to an active edge that offers the capability and that no other such edge exceeds
  in trust; there is no choice only when no edge qualifies.
\<close>

theorem choose_edge_highest_basic:
  assumes "\<forall>e\<in>set (candidates_of (ts_edges s) name). basic_ok F K s e"
  shows "(choose_edge_highest (calculate_trust_value_basic F K use_cr s) (ts_edges s) name = None \<longleftrightarrow> candidates_of (ts_edges s) name = []) \<and>
    (\<forall>e. choose_edge_highest (calculate_trust_value_basic F K use_cr s) (ts_edges s) name = Some e \<longrightarrow>
      e \<in> set (candidates_of (ts_edges s) name) \<and>
      (\<forall>e'\<in>set (candidates_of (ts_edges s) name).
        fleq (estimate (calculate_trust_value_basic F K use_cr s) (ts_edges s) name e')
          (estimate (calculate_trust_value_basic F K use_cr s) (ts_edges s) name e)))"
  using assms by (rule basic.choose_highest_max)

lemma example_candidates: "candidates_of (ts_edges example_basic) ''envmon'' = [0]"
  by (simp add: example_basic_def one_edge_candidates)

lemma example_candidates_ok: "\<forall>e\<in>set (candidates_of (ts_edges example_basic) ''envmon''). basic_ok exact_fmt example_config example_basic e"
  by (simp add: example_candidates example_basic_ok)

theorem choose_edge_highest_basic_witness:
  "choose_edge_highest (calculate_trust_value_basic exact_fmt example_config False example_basic) (ts_edges example_basic) ''envmon'' = Some 0"
  using choose_edge_highest_basic [OF example_candidates_ok, of False]
  by (cases "choose_edge_highest (calculate_trust_value_basic exact_fmt example_config False example_basic) (ts_edges example_basic) ''envmon''")
    (simp_all add: example_candidates)

text \<open>
  The banded chooser returns an active edge that offers the capability and that no other such edge exceeds in trust by more than the
  band of one quarter, after rounding; it returns one whenever there is one, and it always returns.
\<close>

theorem choose_edge_banded_basic:
  assumes "ffmt_ok F" "edge_info_ok (ts_edges s)" "fair rmax rand" "\<forall>e\<in>set (candidates_of (ts_edges s) name). basic_ok F K s e"
  shows "\<exists>r k'. choose_edge_banded F (calculate_trust_value_basic F K use_cr s) rmax rand k (ts_edges s) name = Some (r, k') \<and>
    (r = None \<longleftrightarrow> candidates_of (ts_edges s) name = []) \<and>
    (\<forall>e. r = Some e \<longrightarrow> e \<in> set (candidates_of (ts_edges s) name) \<and>
      (\<forall>e'\<in>set (candidates_of (ts_edges s) name).
        fleq (fsub F (estimate (calculate_trust_value_basic F K use_cr s) (ts_edges s) name e') BAND_SIZE)
          (estimate (calculate_trust_value_basic F K use_cr s) (ts_edges s) name e)))"
  using assms by (rule basic.choose_banded_in_band)

theorem choose_edge_banded_basic_witness:
  "\<exists>k'. choose_edge_banded exact_fmt (calculate_trust_value_basic exact_fmt example_config False example_basic) 65535 (\<lambda>_. 7) 0
    (ts_edges example_basic) ''envmon'' = Some (Some 0, k')"
proof -
  have "edge_info_ok (ts_edges example_basic)" by (simp add: example_basic_def one_edge_info_ok)
  from choose_edge_banded_basic [OF exact_fmt_ok this constant_fair example_candidates_ok, of False 0] show ?thesis
    by (auto simp: example_candidates)
qed

subsection \<open>Events move trust the right way\<close>

definition with_edges :: "(('e, 'c) edge_info \<Rightarrow> ('e, 'c) edge_info) \<Rightarrow> ('e, 'c, 'k) trust_state \<Rightarrow> ('e, 'c, 'k) trust_state" where
  "with_edges f s = s\<lparr>ts_edges := f (ts_edges s)\<rparr>"

lemma upd_edge_tm_frame:
  "stereotype_of K (with_edges (upd_edge_tm edge f) s) edge' = stereotype_of K s edge'"
  "ts_weights (with_edges g s) = ts_weights s"
  "cap_mem (ts_edges (with_edges (upd_edge_tm edge f) s)) = cap_mem (ts_edges s)"
  "edge_tm (edge_mem (ts_edges (with_edges (upd_edge_tm edge f) s)) edge) = f (edge_tm (edge_mem (ts_edges s) edge))"
  "edge_info_capability_find (ts_edges (with_edges (upd_edge_tm edge f) s)) e name = edge_info_capability_find (ts_edges s) e name"
  by (simp_all add: with_edges_def upd_edge_tm_def upd_edge_def stereotype_of_def edge_info_capability_find_def split: option.split)

lemma fleq_expected_refl: "\<lbrakk>ffmt_ok F; small_sum d\<rbrakk> \<Longrightarrow> fleq (beta_dist_expected F d) (beta_dist_expected F d)"
  by (rule fleq_refl [OF small_sum_unit])

lemma upd_edge_tm_id: "with_edges (upd_edge_tm edge (\<lambda>tm. tm)) s = s"
  by (simp add: with_edges_def upd_edge_tm_def upd_edge_def)

text \<open>Two records of the same edge, of which the second is not worse in any metric.\<close>

definition tm_not_worse :: "ffmt \<Rightarrow> edge_resource_tm_basic option \<Rightarrow> edge_resource_tm_basic \<Rightarrow> edge_resource_tm_basic \<Rightarrow> bool" where
  "tm_not_worse F st tm tm' \<longleftrightarrow>
     (\<forall>d\<in>{task_submission, task_result}.
        small_sum (beta_dist_combine (d tm) (map_option d st)) \<and> small_sum (beta_dist_combine (d tm') (map_option d st)) \<and>
        fleq (beta_dist_expected F (beta_dist_combine (d tm) (map_option d st))) (beta_dist_expected F (beta_dist_combine (d tm') (map_option d st))))"

lemma trust_basic_mono:
  assumes ok: "basic_ok F K s edge"
    and nw: "tm_not_worse F (stereotype_of K s edge) (f (edge_tm (edge_mem (ts_edges s) edge))) (g (edge_tm (edge_mem (ts_edges s) edge)))"
  shows "fleq (calculate_trust_value_basic F K use_cr (with_edges (upd_edge_tm edge f) s) edge cap)
    (calculate_trust_value_basic F K use_cr (with_edges (upd_edge_tm edge g) s) edge cap)"
proof -
  have F: "ffmt_ok F" using ok by (simp add: basic_ok_def)
  have w: "unit_float F (find_trust_weight (ts_weights s) name m)" for name m
    using ok by (intro find_trust_weight_unit) (simp_all add: basic_ok_def)
  have q: "small_sum (result_quality (cap_tm (cap_mem (ts_edges s) c)))" for c
    using ok by (intro small_beta_sum) (auto simp: basic_ok_def)
  define st where "st = stereotype_of K s edge"
  define tm where "tm = edge_tm (edge_mem (ts_edges s) edge)"
  have n: "small_sum (beta_dist_combine (task_submission (f tm)) (map_option task_submission st))"
      "small_sum (beta_dist_combine (task_submission (g tm)) (map_option task_submission st))"
      "small_sum (beta_dist_combine (task_result (f tm)) (map_option task_result st))"
      "small_sum (beta_dist_combine (task_result (g tm)) (map_option task_result st))"
      "fleq (beta_dist_expected F (beta_dist_combine (task_submission (f tm)) (map_option task_submission st)))
        (beta_dist_expected F (beta_dist_combine (task_submission (g tm)) (map_option task_submission st)))"
      "fleq (beta_dist_expected F (beta_dist_combine (task_result (f tm)) (map_option task_result st)))
        (beta_dist_expected F (beta_dist_combine (task_result (g tm)) (map_option task_result st)))"
    using nw by (simp_all add: tm_not_worse_def st_def tm_def)
  note u = n(1-4) [THEN small_sum_unit [OF F]] small_sum_unit [OF F q]
  have "list_all2 (\<lambda>(w, e) (w', e'). w = w' \<and> fleq e e' \<and> weighted_ok F (w, e) \<and> weighted_ok F (w', e'))
      (metrics_basic F K use_cr (with_edges (upd_edge_tm edge f) s) edge cap)
      (metrics_basic F K use_cr (with_edges (upd_edge_tm edge g) s) edge cap)"
    by (cases use_cr; cases "edge_info_capability_find (ts_edges s) (Some edge) CHALLENGE_RESPONSE_APPLICATION_NAME";
        simp add: metrics_basic_def Let_def weighted_ok_def upd_edge_tm_frame st_def [symmetric] tm_def [symmetric];
        simp only: w u n fleq_expected_refl [OF F q] simp_thms)
  from weighted_sum_mono [OF F metrics_basic_length this] show ?thesis by (simp add: calculate_trust_value_basic_def)
qed

text \<open>One more event in the distribution of one metric.\<close>

lemma tm_not_worse_add:
  assumes "basic_ok F K s edge" "tm = edge_tm (edge_mem (ts_edges s) edge)" "st = stereotype_of K s edge"
  shows "tm_not_worse F st tm (tm\<lparr>task_result := beta_dist_add True (task_result tm)\<rparr>)"
    "tm_not_worse F st (tm\<lparr>task_result := beta_dist_add False (task_result tm)\<rparr>) tm"
    "tm_not_worse F st tm (tm\<lparr>task_submission := beta_dist_add True (task_submission tm)\<rparr>)"
    "tm_not_worse F st (tm\<lparr>task_submission := beta_dist_add False (task_submission tm)\<rparr>) tm"
proof -
  have F: "ffmt_ok F" using assms(1) by (simp add: basic_ok_def)
  note c = basic_combined [OF assms(1), folded assms(2,3)]
  note small = c [THEN roomy_small] c [THEN roomy_add]
  note le = small(1,2) [THEN fleq_expected_refl [OF F]] small(1,2) [THEN expected_add_mono(1) [OF F]]
    small(1,2) [THEN expected_add_mono(2) [OF F]]
  show "tm_not_worse F st tm (tm\<lparr>task_result := beta_dist_add True (task_result tm)\<rparr>)"
      "tm_not_worse F st (tm\<lparr>task_result := beta_dist_add False (task_result tm)\<rparr>) tm"
      "tm_not_worse F st tm (tm\<lparr>task_submission := beta_dist_add True (task_submission tm)\<rparr>)"
      "tm_not_worse F st (tm\<lparr>task_submission := beta_dist_add False (task_submission tm)\<rparr>) tm"
    by (simp_all add: tm_not_worse_def combine_add small le)
qed

text \<open>
  C5: a successful task never lowers the trust in the edge that ran it, and a failed or overdue one never
  raises it; the same holds for accepted and refused submissions.  This is so for every application, with and
  without a stereotype, under every rounding.
\<close>

theorem trust_value_basic_monotone:
  assumes "basic_ok F K s edge"
  shows "fleq (calculate_trust_value_basic F K use_cr s edge cap)
      (calculate_trust_value_basic F K use_cr (with_edges (tm_update_task_result_basic edge cap' TM_TASK_RESULT_INFO_SUCCESS) s) edge cap) \<and>
    (info \<noteq> TM_TASK_RESULT_INFO_SUCCESS \<longrightarrow>
      fleq (calculate_trust_value_basic F K use_cr (with_edges (tm_update_task_result_basic edge cap' info) s) edge cap)
        (calculate_trust_value_basic F K use_cr s edge cap)) \<and>
    (fst (tm_task_submission_good CT sub) \<longrightarrow>
      fleq (calculate_trust_value_basic F K use_cr s edge cap)
        (calculate_trust_value_basic F K use_cr (with_edges (tm_update_task_submission_basic CT edge cap' sub) s) edge cap)) \<and>
    (\<not> fst (tm_task_submission_good CT sub) \<longrightarrow>
      fleq (calculate_trust_value_basic F K use_cr (with_edges (tm_update_task_submission_basic CT edge cap' sub) s) edge cap)
        (calculate_trust_value_basic F K use_cr s edge cap))"
proof -
  note nw = tm_not_worse_add [OF assms refl refl]
  let ?v = "\<lambda>f. calculate_trust_value_basic F K use_cr (with_edges (upd_edge_tm edge f) s) edge cap"
  have same: "fleq (calculate_trust_value_basic F K use_cr s edge cap) (calculate_trust_value_basic F K use_cr s edge cap)"
    using trust_basic_bounds [OF assms, of use_cr cap] by auto
  have up: "fleq (?v (\<lambda>tm. tm)) (?v (\<lambda>tm. tm\<lparr>task_result := beta_dist_add True (task_result tm)\<rparr>))"
      "fleq (?v (\<lambda>tm. tm)) (?v (\<lambda>tm. tm\<lparr>task_submission := beta_dist_add True (task_submission tm)\<rparr>))"
      "fleq (?v (\<lambda>tm. tm\<lparr>task_result := beta_dist_add False (task_result tm)\<rparr>)) (?v (\<lambda>tm. tm))"
      "fleq (?v (\<lambda>tm. tm\<lparr>task_submission := beta_dist_add False (task_submission tm)\<rparr>)) (?v (\<lambda>tm. tm))"
    by (rule trust_basic_mono [OF assms], rule nw)+
  have r: "tm_update_task_result_basic edge cap' i = upd_edge_tm edge
      (\<lambda>tm. tm\<lparr>task_result := beta_dist_add (i = TM_TASK_RESULT_INFO_SUCCESS) (task_result tm)\<rparr>)" for i
    by (rule ext) (simp add: tm_update_task_result_basic_def)
  have t: "tm_update_task_submission_basic CT edge cap' sub = (\<lambda>es. es) \<or> tm_update_task_submission_basic CT edge cap' sub =
      upd_edge_tm edge (\<lambda>tm. tm\<lparr>task_submission := beta_dist_add (fst (tm_task_submission_good CT sub)) (task_submission tm)\<rparr>)"
    by (cases "snd (tm_task_submission_good CT sub)") (simp_all add: fun_eq_iff tm_update_task_submission_basic_def split_def)
  have id: "with_edges (\<lambda>es. es) s = s" by (simp add: with_edges_def)
  show ?thesis using up same t unfolding upd_edge_tm_id r by (auto simp: id)
qed

theorem trust_value_basic_monotone_witness:
  "fleq (calculate_trust_value_basic exact_fmt example_config True example_basic 0 0)
     (calculate_trust_value_basic exact_fmt example_config True
       (with_edges (tm_update_task_result_basic 0 0 TM_TASK_RESULT_INFO_SUCCESS) example_basic) 0 0)"
  using trust_value_basic_monotone [OF example_basic_ok] by blast

subsection \<open>Encoding\<close>

definition edge_tm_tokens :: "edge_resource_tm_basic \<Rightarrow> token list" where
  "edge_tm_tokens tm = TArray 2 # beta_tokens (task_submission tm) @ beta_tokens (task_result tm)"

lemma emits_edge_tm:
  assumes "nanocbor_ok written view NC"
  shows "emits written (serialise_trust_edge_resource_basic NC tm) (edge_tm_tokens tm)"
proof -
  have "emits written (checks [beta_dist_serialise NC (task_submission tm), beta_dist_serialise NC (task_result tm)])
      (beta_tokens (task_submission tm) @ beta_tokens (task_result tm) @ [])"
    by (intro emits_sub emits_beta [OF assms] emits_Nil)
  then show ?thesis
    unfolding serialise_trust_edge_resource_basic_def edge_tm_tokens_def by (intro emits_tok [OF assms]) simp
qed

lemma reads_edge_tm:
  assumes "nanocbor_ok written view NC"
  shows "reads view (deserialise_trust_edge_resource_basic NC) (edge_tm_tokens tm) 1 tm0 tm"
proof -
  have "reads view (checks [on_field task_submission (\<lambda>d tm. tm\<lparr>task_submission := d\<rparr>) (beta_dist_deserialise NC),
        on_field task_result (\<lambda>d tm. tm\<lparr>task_result := d\<rparr>) (beta_dist_deserialise NC)])
      (beta_tokens (task_submission tm) @ beta_tokens (task_result tm) @ []) (Suc (Suc 0)) tm0
      (tm0\<lparr>task_submission := task_submission tm, task_result := task_result tm\<rparr>)"
    by (rule reads_field [OF reads_beta [OF assms]], rule reads_field [OF reads_beta [OF assms]], rule reads_Nil)
  moreover have "tm0\<lparr>task_submission := task_submission tm, task_result := task_result tm\<rparr> = tm"
    by (rule edge_resource_tm_basic.equality) simp_all
  ultimately show ?thesis
    unfolding deserialise_trust_edge_resource_basic_def edge_tm_tokens_def
    by (intro reads_in_array [OF assms]) (simp only: append_Nil2, simp)
qed

lemma emits_cap_tm:
  assumes "nanocbor_ok written view NC"
  shows "emits written (serialise_trust_edge_capability_basic NC tm) (TArray 1 # beta_tokens (result_quality tm))"
  using emits_sub [OF emits_beta [OF assms] emits_Nil]
  unfolding serialise_trust_edge_capability_basic_def by (intro emits_tok [OF assms]) simp

lemma reads_cap_tm:
  assumes "nanocbor_ok written view NC"
  shows "reads view (deserialise_trust_edge_capability_basic NC) (TArray 1 # beta_tokens (result_quality tm)) 1 tm0 tm"
proof -
  have "reads view (checks [on_field result_quality (\<lambda>d tm. tm\<lparr>result_quality := d\<rparr>) (beta_dist_deserialise NC)])
      (beta_tokens (result_quality tm) @ []) (Suc 0) tm0 (tm0\<lparr>result_quality := result_quality tm\<rparr>)"
    by (rule reads_field [OF reads_beta [OF assms]], rule reads_Nil)
  moreover have "tm0\<lparr>result_quality := result_quality tm\<rparr> = tm" by (rule edge_capability_tm_basic.equality) simp_all
  ultimately show ?thesis
    unfolding deserialise_trust_edge_capability_basic_def by (intro reads_in_array [OF assms]) (simp only: append_Nil2, simp)
qed

text \<open>
  Trust records sent to a peer or received from the server arrive as they were, for edges and for capabilities.
\<close>

theorem trust_basic_roundtrip:
  assumes "nanocbor_ok written view NC"
  shows "roundtrip written view (serialise_trust_edge_resource_basic NC tm) (deserialise_trust_edge_resource_basic NC) tm0 tm \<and>
    roundtrip written view (serialise_trust_edge_capability_basic NC c) (deserialise_trust_edge_capability_basic NC) c0 c"
  using roundtripI [OF emits_edge_tm [OF assms] reads_edge_tm [OF assms]] roundtripI [OF emits_cap_tm [OF assms] reads_cap_tm [OF assms]]
  by blast

theorem trust_basic_roundtrip_witness:
  "roundtrip (\<lambda>en. en) (\<lambda>de. de) (serialise_trust_edge_capability_basic ref_nanocbor \<lparr>result_quality = fresh_beta\<rparr>)
     (deserialise_trust_edge_capability_basic ref_nanocbor) \<lparr>result_quality = \<lparr>alpha = 0, beta = 9\<rparr>\<rparr> \<lparr>result_quality = fresh_beta\<rparr>"
  using trust_basic_roundtrip [OF ref_nanocbor_ok] by blast

end
