(* ===== verification/Tm_Reputation.thy ===== *)
theory Tm_Reputation
  imports Tm_Basic
begin

text \<open>
  \<open>src/wsn/common/trust/models/basic_with_reputation/trust-model.{h,c}\<close>: the basic model with what the peers report mixed in.
  The records kept of an edge and of a capability, their updates and their encoding are those of the basic model; only
  \<open>calculate_trust_value\<close> differs.  \<open>F\<close> is single and \<open>D\<close> double precision: the constant \<open>1.0\<close> makes the last
  line compute in doubles.  A result \<open>None\<close> is a failed \<open>assert\<close>.
\<close>

type_synonym basic_peers = "(unit, edge_resource_tm_basic, edge_capability_tm_basic) peer_info"

text \<open>What one peer says about an edge, weighted like the node's own experience.\<close>

definition peer_metrics ::
  "ffmt \<Rightarrow> basic_peers \<Rightarrow> (u16 \<Rightarrow> cfloat) \<Rightarrow> addr \<Rightarrow> addr \<Rightarrow> (cfloat \<times> cfloat) list" where
  "peer_metrics F P w pe capability =
     [(w TRUST_METRIC_TASK_SUBMISSION, beta_dist_expected F (task_submission (pe_tm (pedge_mem P pe)))),
      (w TRUST_METRIC_TASK_RESULT, beta_dist_expected F (task_result (pe_tm (pedge_mem P pe))))] @
     (case peer_info_find_capability P pe capability of
        None \<Rightarrow> []
      | Some pc \<Rightarrow> [(w TRUST_METRIC_RESULT_QUALITY, beta_dist_expected F (result_quality (pc_tm (pcap_mem P pc))))])"

fun reputation_loop ::
  "ffmt \<Rightarrow> basic_peers \<Rightarrow> (u16 \<Rightarrow> cfloat) \<Rightarrow> addr \<Rightarrow> addr \<Rightarrow> addr list \<Rightarrow> cfloat \<times> u32 \<Rightarrow> (cfloat \<times> u32) option" where
  "reputation_loop F P w edge capability [] acc = Some acc"
| "reputation_loop F P w edge capability (p # ps) (rep, rep_count) =
     (case peer_info_find_edge P p edge of
        None \<Rightarrow> reputation_loop F P w edge capability ps (rep, rep_count)
      | Some pe \<Rightarrow>
          let (rep_edge, w_total) = weighted_sum F (peer_metrics F P w pe capability) in
          if \<not> fleq (Fin 0) w_total then None
          else if \<not> fleq w_total (Fin 1) then None
          else reputation_loop F P w edge capability ps (fadd F rep (fdiv F rep_edge w_total), rep_count + 1))"

definition calculate_trust_value_reputation ::
  "ffmt \<Rightarrow> ffmt \<Rightarrow> 'k ks_config \<Rightarrow> bool \<Rightarrow> basic_peers \<Rightarrow> 'k basic_state \<Rightarrow> addr \<Rightarrow> addr \<Rightarrow> cfloat option" where
  "calculate_trust_value_reputation F D K use_cr P s edge capability =
     (let w = find_trust_weight (ts_weights s) (cap_name (cap_mem (ts_edges s) capability));
          trust = fst (weighted_sum F (metrics_basic F K use_cr s edge capability))
      in case reputation_loop F P w edge capability (peers P) (Fin 0, 0) of
           None \<Rightarrow> None
         | Some (rep, rep_count) \<Rightarrow>
             if 0 < rep_count
             then let rep = fdiv F rep (of_u32 F rep_count);
                      w_rep = w TRUST_CONF_REPUTATION_WEIGHT
                  in Some (fconv F (fadd D (fmul D trust (fsub D (Fin 1) w_rep)) (fmul F rep w_rep)))
             else Some trust)"

subsection \<open>The average of the peers\<close>

definition peers_small :: "basic_peers \<Rightarrow> bool" where
  "peers_small P \<longleftrightarrow> length (peers P) \<le> NUM_PEERS \<and>
     (\<forall>p\<in>set (peers P). \<forall>pe\<in>set (peer_edges (peer_mem P p)). edge_tm_small (pe_tm (pedge_mem P pe)) \<and>
       (\<forall>pc\<in>set (pe_capabilities (pedge_mem P pe)). small_beta (result_quality (pc_tm (pcap_mem P pc)))))"

text \<open>Weights of one application: floats of the unit interval, of which the first two count and the first three add up to at most 1.\<close>

definition peer_weights_ok :: "ffmt \<Rightarrow> (u16 \<Rightarrow> cfloat) \<Rightarrow> bool" where
  "peer_weights_ok F w \<longleftrightarrow> (\<forall>m. unit_float F (w m)) \<and>
     fless (Fin 0) (foldl (fadd F) (Fin 0) [w TRUST_METRIC_TASK_SUBMISSION, w TRUST_METRIC_TASK_RESULT]) \<and>
     fleq (foldl (fadd F) (Fin 0) [w TRUST_METRIC_TASK_SUBMISSION, w TRUST_METRIC_TASK_RESULT, w TRUST_METRIC_RESULT_QUALITY]) (Fin 1)"

lemma peer_metrics_ok:
  assumes "ffmt_ok F" "peers_small P" "peer_weights_ok F w" "p \<in> set (peers P)" "peer_info_find_edge P p edge = Some pe"
  shows "\<forall>we\<in>set (peer_metrics F P w pe cap). weighted_ok F we"
proof -
  have pe: "pe \<in> set (peer_edges (peer_mem P p))" using assms(5) find_SomeD by (fastforce simp: peer_info_find_edge_def)
  have b: "unit_float F (beta_dist_expected F d)" if "small_beta d" for d
    using small_sum_unit [OF assms(1) small_beta_sum [OF that]] .
  have w: "unit_float F (w m)" for m using assms(3) by (simp add: peer_weights_ok_def)
  have e: "unit_float F (beta_dist_expected F (task_submission (pe_tm (pedge_mem P pe))))"
      "unit_float F (beta_dist_expected F (task_result (pe_tm (pedge_mem P pe))))"
    using assms(2,4) pe by (auto simp: peers_small_def edge_tm_small_def intro!: b)
  have c: "unit_float F (beta_dist_expected F (result_quality (pc_tm (pcap_mem P pc))))"
    if "peer_info_find_capability P pe cap = Some pc" for pc
  proof (rule b)
    have "pc \<in> set (pe_capabilities (pedge_mem P pe))" using that find_SomeD by (fastforce simp: peer_info_find_capability_def)
    then show "small_beta (result_quality (pc_tm (pcap_mem P pc)))" using assms(2,4) pe by (auto simp: peers_small_def)
  qed
  show ?thesis
    by (cases "peer_info_find_capability P pe cap"; simp add: peer_metrics_def weighted_ok_def; simp only: w e c simp_thms)
qed

text \<open>The total weight of a report.\<close>

lemma peer_total:
  assumes "ffmt_ok F" "peer_weights_ok F w"
    "ws = [w TRUST_METRIC_TASK_SUBMISSION, w TRUST_METRIC_TASK_RESULT] \<or>
     ws = [w TRUST_METRIC_TASK_SUBMISSION, w TRUST_METRIC_TASK_RESULT, w TRUST_METRIC_RESULT_QUALITY]"
  shows "fless (Fin 0) (foldl (fadd F) (Fin 0) ws)" "fleq (foldl (fadd F) (Fin 0) ws) (Fin 1)"
proof -
  define T where "T = foldl (fadd F) (Fin 0)"
  let ?two = "[w TRUST_METRIC_TASK_SUBMISSION, w TRUST_METRIC_TASK_RESULT]" and ?q = "[w TRUST_METRIC_RESULT_QUALITY]"
  have u: "\<forall>x\<in>set (?two @ ?q). unit_float F x" "\<forall>x\<in>set ?two. unit_float F x" using assms(2) by (simp_all add: peer_weights_ok_def)
  obtain a where a: "T ?two = Fin a" unfolding T_def by (rule unit_total [OF assms(1) u(2)]) simp_all
  obtain b where b: "T (?two @ ?q) = Fin b" unfolding T_def by (rule unit_total [OF assms(1) u(1)]) simp_all
  have "fleq (T ?two) (T (?two @ ?q))" unfolding T_def by (rule total_append [OF assms(1) u(1)]) simp
  moreover have "fless (Fin 0) (T ?two)" "fleq (T (?two @ ?q)) (Fin 1)"
    using assms(2) unfolding peer_weights_ok_def T_def by (simp_all only: append_Cons append_Nil)
  ultimately have "0 < a" "a \<le> b" "b \<le> 1" unfolding a b by simp_all
  moreover have "T ws = Fin a \<or> T ws = Fin b" using assms(3) a b by auto
  ultimately have "fless (Fin 0) (T ws)" "fleq (T ws) (Fin 1)" by auto
  then show "fless (Fin 0) (foldl (fadd F) (Fin 0) ws)" "fleq (foldl (fadd F) (Fin 0) ws) (Fin 1)" unfolding T_def .
qed

lemma peer_report:
  assumes "ffmt_ok F" "peers_small P" "peer_weights_ok F w" "p \<in> set (peers P)" "peer_info_find_edge P p edge = Some pe"
  obtains t v where "weighted_sum F (peer_metrics F P w pe cap) = (Fin t, Fin v)" "0 < v" "v \<le> 1"
    "unit_float F (fdiv F (Fin t) (Fin v))"
proof -
  let ?wes = "peer_metrics F P w pe cap"
  have len: "length ?wes \<le> 2 ^ 24" by (simp add: peer_metrics_def split: option.split)
  from weighted_sum_bounds [OF assms(1) peer_metrics_ok [OF assms] len] obtain t v where
    tv: "weighted_sum F ?wes = (Fin t, Fin v)" "0 \<le> t" "t \<le> v" by blast
  have eq: "foldl (fadd F) (Fin 0) (map fst ?wes) = Fin v"
    using tv(1) weighted_total [of F "Fin 0" "Fin 0" ?wes] by (simp only: weighted_sum_def snd_conv)
  have "map fst ?wes = [w TRUST_METRIC_TASK_SUBMISSION, w TRUST_METRIC_TASK_RESULT] \<or>
      map fst ?wes = [w TRUST_METRIC_TASK_SUBMISSION, w TRUST_METRIC_TASK_RESULT, w TRUST_METRIC_RESULT_QUALITY]"
    by (simp add: peer_metrics_def split: option.split)
  from peer_total [OF assms(1,3) this] have v: "0 < v" "v \<le> 1" unfolding eq by simp_all
  show ?thesis using that [OF tv(1) v normalised [OF assms(1) tv(2,3) v(1)]] .
qed

lemma reputation_loop_average:
  assumes "ffmt_ok F" "peers_small P" "peer_weights_ok F w"
  shows "\<lbrakk>set ps \<subseteq> set (peers P); 0 \<le> r; r \<le> real (unat n); unat n + length ps \<le> 2 ^ 20\<rbrakk> \<Longrightarrow>
    \<exists>r' n'. reputation_loop F P w edge cap ps (Fin r, n) = Some (Fin r', n') \<and> 0 \<le> r' \<and> r' \<le> real (unat n') \<and> unat n' \<le> 2 ^ 20"
proof (induction ps arbitrary: r n)
  case (Cons p ps)
  show ?case
  proof (cases "peer_info_find_edge P p edge")
    case None
    then show ?thesis using Cons.IH [of r n] Cons.prems by simp
  next
    case (Some pe)
    have p: "p \<in> set (peers P)" using Cons.prems(1) by simp
    obtain t v where tv: "weighted_sum F (peer_metrics F P w pe cap) = (Fin t, Fin v)" "0 < v" "v \<le> 1"
        "unit_float F (fdiv F (Fin t) (Fin v))" by (rule peer_report [OF assms p Some])
    then obtain q where q: "fdiv F (Fin t) (Fin v) = Fin q" "0 \<le> q" "q \<le> 1" by (auto simp: unit_float_def simp del: fdiv.simps)
    have n1: "unat (n + 1) = Suc (unat n)" using Cons.prems(4) by (subst unat_succ_small) simp_all
    have "r + q \<le> real (Suc (unat n))" "Suc (unat n) \<le> 2 ^ 24" using q Cons.prems by simp_all
    note f = fadd_bounded [OF assms(1) Cons.prems(2) q(2) this]
    have "\<exists>r' n'. reputation_loop F P w edge cap ps (Fin (rnd F (r + q)), n + 1) = Some (Fin r', n') \<and> 0 \<le> r' \<and> r' \<le> real (unat n') \<and>
        unat n' \<le> 2 ^ 20"
      using f Cons.prems n1 by (intro Cons.IH) simp_all
    then show ?thesis using tv(2,3) by (simp add: Some tv(1) q(1) f(1) del: fadd.simps fdiv.simps)
  qed
qed auto

subsection \<open>Mixing in the reputation\<close>

lemma mix_unit:
  assumes "ffmt_ok F" "ffmt_ok D" "0 \<le> t" "t \<le> 1" "unit_float F (Fin r)" "unit_float F (Fin x)" "is_float D (1 - x)"
  shows "unit_float F (fconv F (fadd D (fmul D (Fin t) (fsub D (Fin 1) (Fin x))) (fmul F (Fin r) (Fin x))))"
proof -
  have x: "0 \<le> x" "x \<le> 1" "is_float F x" and r: "0 \<le> r" "r \<le> 1" using assms(5,6) by (auto simp: unit_float_def)
  have one: "fsub D (Fin 1) (Fin x) = Fin (1 - x)"
    using fl_unit [OF assms(2), of "1 - x"] x assms(7) by (simp add: fsub_def is_float_def)
  have "t * (1 - x) \<le> 1 - x" "0 \<le> t * (1 - x)" using x assms(3,4) mult_left_le_one_le [of "1 - x" t] by simp_all
  then have p: "fmul D (Fin t) (Fin (1 - x)) = Fin (rnd D (t * (1 - x)))" "0 \<le> rnd D (t * (1 - x))" "rnd D (t * (1 - x)) \<le> 1 - x"
    using fl_unit [OF assms(2), of "t * (1 - x)"] x assms(2,7) by (auto intro: rnd_nonneg rnd_le_float)
  have "r * x \<le> x" "0 \<le> r * x" using x r mult_left_le_one_le [of x r] by simp_all
  then have q: "fmul F (Fin r) (Fin x) = Fin (rnd F (r * x))" "0 \<le> rnd F (r * x)" "rnd F (r * x) \<le> x"
    using fl_unit [OF assms(1), of "r * x"] x assms(1) by (auto intro: rnd_nonneg rnd_le_float)
  define y where "y = rnd D (t * (1 - x)) + rnd F (r * x)"
  have y: "0 \<le> y" "y \<le> 1" using p q by (simp_all add: y_def)
  have "fadd D (Fin (rnd D (t * (1 - x)))) (Fin (rnd F (r * x))) = Fin (rnd D y)" "0 \<le> rnd D y" "rnd D y \<le> 1"
    using fl_unit [OF assms(2) y] y assms(2) by (auto simp: y_def intro: rnd_nonneg rnd_le_1)
  then show ?thesis unfolding one p(1) q(1) using fl_unit [OF assms(1), of "rnd D y", THEN conjunct2] by simp
qed

text \<open>
  A capability whose application gives weight to submissions or results, weights that add up to at most 1, and a reputation weight
  whose complement is a double, as it is for every single-precision number that is 0 or not below \<open>2^-29\<close>.
\<close>

definition reputation_ok ::
  "ffmt \<Rightarrow> ffmt \<Rightarrow> 'k ks_config \<Rightarrow> bool \<Rightarrow> basic_peers \<Rightarrow> 'k basic_state \<Rightarrow> addr \<Rightarrow> addr \<Rightarrow> bool" where
  "reputation_ok F D K use_cr P s edge cap \<longleftrightarrow>
     (let w = find_trust_weight (ts_weights s) (cap_name (cap_mem (ts_edges s) cap)) in
      basic_ok F K s edge \<and> ffmt_ok D \<and> peers_small P \<and> peer_weights_ok F w \<and>
      fleq (snd (weighted_sum F (metrics_basic F K use_cr s edge cap))) (Fin 1) \<and>
      (\<forall>x. w TRUST_CONF_REPUTATION_WEIGHT = Fin x \<longrightarrow> is_float D (1 - x)))"

lemma reputation_unit:
  assumes "reputation_ok F D K use_cr P s edge cap"
  shows "\<exists>v. calculate_trust_value_reputation F D K use_cr P s edge cap = Some v \<and> unit_float F v"
proof -
  define w where "w = find_trust_weight (ts_weights s) (cap_name (cap_mem (ts_edges s) cap))"
  have ok: "basic_ok F K s edge" "ffmt_ok D" "peers_small P" "peer_weights_ok F w"
      "fleq (snd (weighted_sum F (metrics_basic F K use_cr s edge cap))) (Fin 1)"
      "\<And>x. w TRUST_CONF_REPUTATION_WEIGHT = Fin x \<Longrightarrow> is_float D (1 - x)"
    using assms by (simp_all add: reputation_ok_def Let_def w_def)
  have F: "ffmt_ok F" using ok(1) by (simp add: basic_ok_def)
  obtain t where t: "fst (weighted_sum F (metrics_basic F K use_cr s edge cap)) = Fin t" "0 \<le> t" "t \<le> 1"
    using trust_basic_bounds [OF ok(1), of use_cr cap] ok(5) by (auto simp: calculate_trust_value_basic_def)
  have tf: "is_float F t" using weighted_sum_float [OF F t(1)] by simp
  obtain x where x: "w TRUST_CONF_REPUTATION_WEIGHT = Fin x" "unit_float F (Fin x)"
    using ok(4) unfolding peer_weights_ok_def by (metis unit_float_def)
  have "length (peers P) \<le> 8" using ok(3) by (simp add: peers_small_def NUM_PEERS_def)
  then have "\<exists>r' n'. reputation_loop F P w edge cap (peers P) (Fin 0, 0) = Some (Fin r', n') \<and> 0 \<le> r' \<and> r' \<le> real (unat n') \<and> unat n' \<le> 2 ^ 20"
    by (intro reputation_loop_average [OF F ok(3,4)]) simp_all
  then obtain r n where r: "reputation_loop F P w edge cap (peers P) (Fin 0, 0) = Some (Fin r, n)" "0 \<le> r" "r \<le> real (unat n)" "unat n \<le> 2 ^ 20"
    by blast
  show ?thesis
  proof (cases "0 < n")
    case False
    then show ?thesis using r(1) t tf by (simp add: calculate_trust_value_reputation_def w_def [symmetric] unit_float_def)
  next
    case True
    then have n: "0 < real (unat n)" "of_u32 F n = Fin (real (unat n))"
      using r(4) by (simp_all add: of_u32_small [OF F] unat_gt_0 del: of_nat_unat)
    obtain q where q: "fdiv F (Fin r) (Fin (real (unat n))) = Fin q" "unit_float F (Fin q)"
      using normalised [OF F r(2,3) n(1)] by (metis unit_float_def)
    from mix_unit [OF F ok(2) t(2,3) q(2) x(2) ok(6) [OF x(1)]] show ?thesis
      using True by (simp add: calculate_trust_value_reputation_def Let_def w_def [symmetric] r(1) t(1) n(2) q(1) x(1)
        del: fdiv.simps fadd.simps fmul.simps fconv.simps of_nat_unat)
  qed
qed

text \<open>The choosers may be built with this model too; a failed assertion is not a value.\<close>

interpretation reputation: trust_model F
  "\<lambda>edge cap. case calculate_trust_value_reputation F D K use_cr P s edge cap of Some v \<Rightarrow> v | None \<Rightarrow> NaN"
  "\<lambda>edge. \<forall>cap. reputation_ok F D K use_cr P s edge cap" for F D K use_cr P s
proof unfold_locales
  fix e c
  assume "\<forall>cap. reputation_ok F D K use_cr P s e cap"
  then have ok: "reputation_ok F D K use_cr P s e c" ..
  then have "ffmt_ok F" by (simp add: reputation_ok_def Let_def basic_ok_def)
  then have "1 \<le> fmax F" by (simp add: ffmt_ok_def)
  with reputation_unit [OF ok] show "\<exists>t. (case calculate_trust_value_reputation F D K use_cr P s e c of Some v \<Rightarrow> v | None \<Rightarrow> NaN) = Fin t \<and>
      0 \<le> t \<and> t \<le> fmax F \<and> is_float F t" by (auto simp: unit_float_def)
qed

subsection \<open>A report without weight\<close>

lemma fadd_NaN [simp]: "fadd F NaN x = NaN" "fadd F x NaN = NaN"
  by (cases x; simp)+

lemma unweighted_total:
  assumes "ffmt_ok F" "\<forall>m. unit_float F (w m)" "w TRUST_METRIC_TASK_SUBMISSION = Fin 0" "w TRUST_METRIC_TASK_RESULT = Fin 0"
  shows "fleq (Fin 0) (snd (weighted_sum F (peer_metrics F P w pe cap)))" "fleq (snd (weighted_sum F (peer_metrics F P w pe cap))) (Fin 1)"
proof -
  obtain q where q: "w TRUST_METRIC_RESULT_QUALITY = Fin q" "0 \<le> q" "q \<le> 1" using assms(2) unfolding unit_float_def by blast
  then have "fl F 0 = Fin 0" "fl F q = Fin (rnd F q)" "0 \<le> rnd F q" "rnd F q \<le> 1"
    using fl_unit [OF assms(1)] assms(1) by (simp_all add: rnd_nonneg rnd_le_1)
  then show "fleq (Fin 0) (snd (weighted_sum F (peer_metrics F P w pe cap)))" "fleq (snd (weighted_sum F (peer_metrics F P w pe cap))) (Fin 1)"
    by (simp_all add: weighted_sum_def accumulate_def peer_metrics_def assms(3,4) q(1) split: option.split)
qed

lemma unweighted_report:
  assumes "ffmt_ok F" "w TRUST_METRIC_TASK_SUBMISSION = Fin 0" "w TRUST_METRIC_TASK_RESULT = Fin 0"
    "edge_tm_small (pe_tm (pedge_mem P pe))" "peer_info_find_capability P pe cap = None"
  shows "case weighted_sum F (peer_metrics F P w pe cap) of (rep_edge, w_total) \<Rightarrow> fdiv F rep_edge w_total = NaN"
proof -
  obtain a b where "beta_dist_expected F (task_submission (pe_tm (pedge_mem P pe))) = Fin a"
      "beta_dist_expected F (task_result (pe_tm (pedge_mem P pe))) = Fin b"
    using assms(4) small_sum_unit [OF assms(1) small_beta_sum] unfolding edge_tm_small_def unit_float_def by blast
  moreover have "fl F 0 = Fin 0" using fl_unit [OF assms(1), of 0] assms(1) by simp
  ultimately show ?thesis
    by (simp add: weighted_sum_def accumulate_def peer_metrics_def assms(2,3,5) inf_of_sign_def)
qed

lemma unweighted_loop:
  assumes "ffmt_ok F" "\<forall>m. unit_float F (w m)" "w TRUST_METRIC_TASK_SUBMISSION = Fin 0" "w TRUST_METRIC_TASK_RESULT = Fin 0"
  shows "unat n + length ps < 2 ^ 20 \<Longrightarrow> \<exists>r' n'. reputation_loop F P w edge cap ps (r, n) = Some (r', n') \<and> unat n \<le> unat n' \<and>
    (r = NaN \<longrightarrow> r' = NaN) \<and>
    (p \<in> set ps \<and> peer_info_find_edge P p edge = Some pe \<and> edge_tm_small (pe_tm (pedge_mem P pe)) \<and>
      peer_info_find_capability P pe cap = None \<longrightarrow> r' = NaN \<and> unat n < unat n')"
proof (induction ps arbitrary: r n)
  case (Cons q ps)
  show ?case
  proof (cases "peer_info_find_edge P q edge")
    case None
    then show ?thesis using Cons.IH [of n r] Cons.prems by auto
  next
    case (Some qe)
    obtain t v where tv: "weighted_sum F (peer_metrics F P w qe cap) = (t, v)" by fastforce
    have v: "fleq (Fin 0) v" "fleq v (Fin 1)" using unweighted_total [OF assms, of P qe cap] by (simp_all add: tv)
    have n1: "unat (n + 1) = Suc (unat n)" using Cons.prems by (subst unat_succ_small) simp_all
    have nan: "fadd F r (fdiv F t v) = NaN" if "q = p" "peer_info_find_edge P p edge = Some pe" "edge_tm_small (pe_tm (pedge_mem P pe))"
        "peer_info_find_capability P pe cap = None"
      using unweighted_report [OF assms(1,3,4) that(3,4)] that tv Some by simp
    have "unat (n + 1) + length ps < 2 ^ 20" using n1 Cons.prems by simp
    from Cons.IH [OF this, of "fadd F r (fdiv F t v)"] obtain r' n' where
      ih: "reputation_loop F P w edge cap ps (fadd F r (fdiv F t v), n + 1) = Some (r', n')" "Suc (unat n) \<le> unat n'"
        "fadd F r (fdiv F t v) = NaN \<longrightarrow> r' = NaN"
        "p \<in> set ps \<and> peer_info_find_edge P p edge = Some pe \<and> edge_tm_small (pe_tm (pedge_mem P pe)) \<and>
          peer_info_find_capability P pe cap = None \<longrightarrow> r' = NaN"
      unfolding n1 by auto
    have "reputation_loop F P w edge cap (q # ps) (r, n) = Some (r', n')" using ih(1) v by (simp add: Some tv)
    then show ?thesis using ih(2-4) nan by auto
  qed
qed simp

lemma unweighted_report_NaN:
  assumes ok: "basic_ok F K s edge" and w: "w = find_trust_weight (ts_weights s) (cap_name (cap_mem (ts_edges s) cap))"
    and zero: "w TRUST_METRIC_TASK_SUBMISSION = Fin 0" "w TRUST_METRIC_TASK_RESULT = Fin 0"
    and peer: "length (peers P) \<le> NUM_PEERS" "p \<in> set (peers P)" "peer_info_find_edge P p edge = Some pe"
      "edge_tm_small (pe_tm (pedge_mem P pe))" "peer_info_find_capability P pe cap = None"
  shows "calculate_trust_value_reputation F D K use_cr P s edge cap = Some NaN"
proof -
  have F: "ffmt_ok F" "weights_ok F (ts_weights s)" using ok by (simp_all add: basic_ok_def)
  then have u: "\<forall>m. unit_float F (w m)" unfolding w by (simp add: find_trust_weight_unit)
  have "unat (0 :: u32) + length (peers P) < 2 ^ 20" using peer(1) by (simp add: NUM_PEERS_def)
  from unweighted_loop [OF F(1) u zero this, of P edge cap "Fin 0" p pe] obtain n where
    n: "reputation_loop F P w edge cap (peers P) (Fin 0, 0) = Some (NaN, n)" "0 < unat n" using peer by auto
  then have "0 < n" by (simp add: unat_gt_0 word_neq_0_conv)
  moreover obtain x where "w TRUST_CONF_REPUTATION_WEIGHT = Fin x" using u unfolding unit_float_def by blast
  moreover have "fdiv F NaN (of_u32 F n) = NaN" by (cases "of_u32 F n") simp_all
  ultimately show ?thesis by (simp add: calculate_trust_value_reputation_def w [symmetric] n(1))
qed

subsection \<open>Properties\<close>

text \<open>One peer that has reported on edge 0, and on its capability as well when \<open>full\<close>.\<close>

definition example_peers :: "bool \<Rightarrow> basic_peers" where
  "example_peers full = \<lparr>peers_memb = {0}, peer_edges_memb = {0}, peer_capabilities_memb = (if full then {0} else {}), peers = [0],
     peer_mem = (\<lambda>_. \<lparr>peer_addr = replicate 16 2, last_seen = 5, peer_tm = (), peer_edges = [0]\<rparr>),
     pedge_mem = (\<lambda>_. \<lparr>pe_edge = 0, pe_tm = \<lparr>task_submission = fresh_beta, task_result = fresh_beta\<rparr>, pe_capabilities = if full then [0] else []\<rparr>),
     pcap_mem = (\<lambda>_. \<lparr>pc_cap = 0, pc_tm = \<lparr>result_quality = fresh_beta\<rparr>\<rparr>)\<rparr>"

lemma example_peers_small: "peers_small (example_peers full)"
  by (simp add: peers_small_def example_peers_def edge_tm_small_def fresh_beta_small NUM_PEERS_def)

lemma example_weight:
  "find_trust_weight (ts_weights example_basic) (cap_name (cap_mem (ts_edges example_basic) 0)) m =
    (if m = TRUST_METRIC_TASK_SUBMISSION then Fin (1 / 4) else if m = TRUST_METRIC_TASK_RESULT then Fin (1 / 4)
     else if m = TRUST_METRIC_RESULT_QUALITY then Fin (1 / 2) else Fin 0)"
  by (simp add: find_trust_weight_def trust_weights_find_def example_basic_def example_weights_def one_edge_info_def cstr_def NUL_def)

lemma metric_neq [simp]:
  "TRUST_METRIC_TASK_SUBMISSION \<noteq> TRUST_METRIC_TASK_RESULT" "TRUST_METRIC_TASK_RESULT \<noteq> TRUST_METRIC_TASK_SUBMISSION"
  "TRUST_METRIC_TASK_SUBMISSION \<noteq> TRUST_METRIC_RESULT_QUALITY" "TRUST_METRIC_RESULT_QUALITY \<noteq> TRUST_METRIC_TASK_SUBMISSION"
  "TRUST_METRIC_TASK_RESULT \<noteq> TRUST_METRIC_RESULT_QUALITY" "TRUST_METRIC_RESULT_QUALITY \<noteq> TRUST_METRIC_TASK_RESULT"
  by (simp_all add: TRUST_METRIC_TASK_SUBMISSION_def TRUST_METRIC_TASK_RESULT_def TRUST_METRIC_RESULT_QUALITY_def)

text \<open>
  C10: mixing in what peers report keeps the trust value a float between 0 and 1 and no assertion of the calculation fails, under every rounding, when
  the weights of the application add up to at most 1 and it gives weight to submissions or results.
\<close>

theorem trust_value_reputation_bounded:
  assumes "reputation_ok F D K use_cr P s edge cap"
  shows "\<exists>v. calculate_trust_value_reputation F D K use_cr P s edge cap = Some v \<and> unit_float F v"
  using assms by (rule reputation_unit)

lemma example_reputation_ok: "reputation_ok exact_fmt exact_fmt example_config False (example_peers True) example_basic 0 0"
proof -
  let ?w = "find_trust_weight (ts_weights example_basic) (cap_name (cap_mem (ts_edges example_basic) 0))"
  have "peer_weights_ok exact_fmt ?w"
    by (simp add: peer_weights_ok_def example_weight exact_unit)
  moreover have "is_float exact_fmt x" for x by (simp add: is_float_def exact_fmt_def)
  moreover have "map fst (metrics_basic exact_fmt example_config False example_basic 0 0) = [Fin (1 / 4), Fin (1 / 4), Fin (1 / 2)]"
    by (simp add: metrics_basic_def Let_def example_weight)
  then have "snd (weighted_sum exact_fmt (metrics_basic exact_fmt example_config False example_basic 0 0)) = Fin 1"
    by (simp add: weighted_sum_def weighted_total)
  ultimately show ?thesis by (simp add: reputation_ok_def example_basic_ok example_peers_small)
qed

theorem trust_value_reputation_bounded_witness:
  "\<exists>v. calculate_trust_value_reputation exact_fmt exact_fmt example_config False (example_peers True) example_basic 0 0 = Some v \<and> unit_float exact_fmt v"
  by (rule trust_value_reputation_bounded [OF example_reputation_ok])

text \<open>
  C11: when an application gives no weight to submissions and results, one report of a peer that knows the edge but not the capability makes
  the trust value not a number, whatever the other peers say and even when reputation has no weight.
\<close>

theorem trust_value_reputation_NaN:
  assumes "basic_ok F K s edge" "w = find_trust_weight (ts_weights s) (cap_name (cap_mem (ts_edges s) cap))"
    "w TRUST_METRIC_TASK_SUBMISSION = Fin 0" "w TRUST_METRIC_TASK_RESULT = Fin 0"
    "length (peers P) \<le> NUM_PEERS" "p \<in> set (peers P)" "peer_info_find_edge P p edge = Some pe"
    "edge_tm_small (pe_tm (pedge_mem P pe))" "peer_info_find_capability P pe cap = None"
  shows "calculate_trust_value_reputation F D K use_cr P s edge cap = Some NaN"
  using assms by (rule unweighted_report_NaN)

definition quality_only :: "unit basic_state" where
  "quality_only = example_basic\<lparr>ts_weights := \<lparr>tw_list = [0], tw_mem = (\<lambda>_. \<lparr>application_name = ''envmon'',
     weights = [(TRUST_METRIC_RESULT_QUALITY, Fin 1)]\<rparr>)\<rparr>\<rparr>"

theorem trust_value_reputation_NaN_witness:
  "calculate_trust_value_reputation exact_fmt exact_fmt example_config False (example_peers False) quality_only 0 0 = Some NaN"
proof (rule trust_value_reputation_NaN [OF _ refl])
  have "weights_ok exact_fmt (ts_weights quality_only)" "stereotype_of example_config quality_only 0 = stereotype_of example_config example_basic 0"
    by (simp_all add: quality_only_def weights_ok_def exact_unit stereotype_of_def split: option.split)
  then show "basic_ok exact_fmt example_config quality_only 0"
    using example_basic_ok by (simp add: basic_ok_def) (simp add: quality_only_def)
  show "find_trust_weight (ts_weights quality_only) (cap_name (cap_mem (ts_edges quality_only) 0)) TRUST_METRIC_TASK_SUBMISSION = Fin 0"
      "find_trust_weight (ts_weights quality_only) (cap_name (cap_mem (ts_edges quality_only) 0)) TRUST_METRIC_TASK_RESULT = Fin 0"
    by (simp_all add: find_trust_weight_def trust_weights_find_def quality_only_def example_basic_def one_edge_info_def cstr_def NUL_def)
  show "length (peers (example_peers False)) \<le> NUM_PEERS" "0 \<in> set (peers (example_peers False))"
      "peer_info_find_edge (example_peers False) 0 0 = Some 0" "peer_info_find_capability (example_peers False) 0 0 = None"
      "edge_tm_small (pe_tm (pedge_mem (example_peers False) 0))"
    by (simp_all add: example_peers_def peer_info_find_edge_def peer_info_find_capability_def edge_tm_small_def fresh_beta_small NUM_PEERS_def)
qed

end
