(* ===== verification/Tm_Throughput.thy ===== *)
theory Tm_Throughput
  imports Tm_Basic
begin

text \<open>
  \<open>src/wsn/common/trust/models/throughput/trust-model.{h,c}\<close>: the basic model with two Gaussian distributions of the throughput to and
  from an edge.  The structures extend those of the basic model.  A result \<open>None\<close> is a failed \<open>ASSERT\<close> or an integer division by zero.
\<close>

record edge_resource_tm_throughput = edge_resource_tm_basic +
  last_ping_response :: u32

record edge_capability_tm_throughput = edge_capability_tm_basic +
  throughput_in :: gaussian_dist
  throughput_out :: gaussian_dist

type_synonym 'k throughput_state = "(edge_resource_tm_throughput, edge_capability_tm_throughput, 'k) trust_state"
type_synonym throughput_edges = "(edge_resource_tm_throughput, edge_capability_tm_throughput) edge_info"

definition edge_resource_tm_init_throughput :: "edge_resource_tm_throughput \<Rightarrow> edge_resource_tm_throughput" where
  "edge_resource_tm_init_throughput tm =
     tm\<lparr>task_submission := the (beta_dist_init 1 1), task_result := the (beta_dist_init 1 1), last_ping_response := 0\<rparr>"

definition edge_capability_tm_init_throughput :: "edge_capability_tm_throughput \<Rightarrow> edge_capability_tm_throughput" where
  "edge_capability_tm_init_throughput tm =
     tm\<lparr>result_quality := the (beta_dist_init 1 1), throughput_in := gaussian_dist_init_empty, throughput_out := gaussian_dist_init_empty\<rparr>"

text \<open>The quotient of the thresholds is an integer, the one of a mean and a threshold a float.\<close>

definition goodness_of_throughput ::
  "ffmt \<Rightarrow> thresholds_state \<Rightarrow> string \<Rightarrow> gaussian_dist \<Rightarrow> gaussian_dist \<Rightarrow> cfloat option" where
  "goodness_of_throughput F tt name inn out =
     (case trust_throughput_thresholds_find tt name of
        None \<Rightarrow> None
      | Some i \<Rightarrow>
          let in_t = in_threshold (tt_mem tt i); out_t = out_threshold (tt_mem tt i) in
          if gcount inn = 0 \<and> gcount out = 0 then Some (Fin 1)
          else if gcount inn = 0 \<and> 0 < gcount out then
            Some (if fless (mean out) (of_u32 F out_t) then Fin 0 else Fin 1)
          else if fleq (of_u32 F in_t) (mean inn) \<and> fleq (of_u32 F out_t) (mean out) then Some (Fin 1)
          else if fless (mean inn) (of_u32 F in_t) \<and> in_t = 0 then None
          else if fless (mean inn) (of_u32 F in_t) \<and> fless (fmul F (of_u32 F (out_t div in_t)) (mean inn)) (mean out) then
            Some (fdiv F (mean inn) (of_u32 F in_t))
          else Some (fdiv F (mean out) (of_u32 F out_t)))"

definition metrics_throughput ::
  "ffmt \<Rightarrow> 'k ks_config \<Rightarrow> bool \<Rightarrow> cfloat \<Rightarrow> 'k throughput_state \<Rightarrow> addr \<Rightarrow> addr \<Rightarrow> (cfloat \<times> cfloat) list" where
  "metrics_throughput F K use_cr goodness s edge capability =
     (let es = ts_edges s;
          st = stereotype_of K s edge;
          w = find_trust_weight (ts_weights s) (cap_name (cap_mem es capability));
          tm = edge_tm (edge_mem es edge)
      in [(w TRUST_METRIC_TASK_SUBMISSION,
             beta_dist_expected F (beta_dist_combine (task_submission tm) (map_option task_submission st))),
          (w TRUST_METRIC_TASK_RESULT,
             beta_dist_expected F (beta_dist_combine (task_result tm) (map_option task_result st))),
          (w TRUST_METRIC_RESULT_QUALITY, beta_dist_expected F (result_quality (cap_tm (cap_mem es capability)))),
          (w TRUST_METRIC_THROUGHPUT, goodness)] @
         (if use_cr
          then case edge_info_capability_find es (Some edge) CHALLENGE_RESPONSE_APPLICATION_NAME of
                 None \<Rightarrow> []
               | Some cr \<Rightarrow> [(w TRUST_METRIC_CHALLENGE_RESP, beta_dist_expected F (result_quality (cap_tm (cap_mem es cr))))]
          else []))"

definition calculate_trust_value_throughput ::
  "ffmt \<Rightarrow> 'k ks_config \<Rightarrow> bool \<Rightarrow> thresholds_state \<Rightarrow> 'k throughput_state \<Rightarrow> addr \<Rightarrow> addr \<Rightarrow> cfloat option" where
  "calculate_trust_value_throughput F K use_cr tt s edge capability =
     (let c = cap_mem (ts_edges s) capability in
      map_option (\<lambda>goodness. fst (weighted_sum F (metrics_throughput F K use_cr goodness s edge capability)))
        (goodness_of_throughput F tt (cap_name c) (throughput_in (cap_tm c)) (throughput_out (cap_tm c))))"

definition tm_update_task_submission_throughput ::
  "contiki \<Rightarrow> addr \<Rightarrow> addr \<Rightarrow> tm_task_submission_info \<Rightarrow> throughput_edges \<Rightarrow> throughput_edges" where
  "tm_update_task_submission_throughput CT edge cap info es =
     (let (good, should_update) = tm_task_submission_good CT info in
      if \<not> should_update then es
      else upd_edge_tm edge (\<lambda>tm. tm\<lparr>task_submission := beta_dist_add good (task_submission tm)\<rparr>) es)"

definition tm_update_task_result_throughput ::
  "addr \<Rightarrow> addr \<Rightarrow> tm_task_result_info \<Rightarrow> throughput_edges \<Rightarrow> throughput_edges" where
  "tm_update_task_result_throughput edge cap info es =
     upd_edge_tm edge (\<lambda>tm. tm\<lparr>task_result := beta_dist_add (info = TM_TASK_RESULT_INFO_SUCCESS) (task_result tm)\<rparr>) es"

definition tm_update_result_quality_throughput ::
  "addr \<Rightarrow> addr \<Rightarrow> tm_result_quality_info \<Rightarrow> throughput_edges \<Rightarrow> throughput_edges" where
  "tm_update_result_quality_throughput edge cap info es =
     upd_cap_tm cap (\<lambda>tm. tm\<lparr>result_quality := beta_dist_add (quality_good info) (result_quality tm)\<rparr>) es"

definition tm_update_task_throughput ::
  "ffmt \<Rightarrow> addr \<Rightarrow> addr \<Rightarrow> tm_throughput_info \<Rightarrow> throughput_edges \<Rightarrow> throughput_edges" where
  "tm_update_task_throughput F edge cap info es =
     (let v = of_u32 F (throughput info) in
      case direction info of
        TM_THROUGHPUT_IN \<Rightarrow> upd_cap_tm cap (\<lambda>tm. tm\<lparr>throughput_in := gaussian_dist_update F (throughput_in tm) v\<rparr>) es
      | TM_THROUGHPUT_OUT \<Rightarrow> upd_cap_tm cap (\<lambda>tm. tm\<lparr>throughput_out := gaussian_dist_update F (throughput_out tm) v\<rparr>) es)"

definition tm_update_ping_throughput :: "u32 \<Rightarrow> addr \<Rightarrow> tm_edge_ping \<Rightarrow> throughput_edges \<Rightarrow> throughput_edges" where
  "tm_update_ping_throughput clock_time edge action es =
     (case action of
        TM_PING_SENT \<Rightarrow> es
      | TM_PING_RECEIVED \<Rightarrow> upd_edge_tm edge (\<lambda>tm. tm\<lparr>last_ping_response := clock_time\<rparr>) es)"

definition tm_update_challenge_response_throughput ::
  "contiki \<Rightarrow> addr \<Rightarrow> tm_challenge_response_info \<Rightarrow> throughput_edges \<Rightarrow> throughput_edges" where
  "tm_update_challenge_response_throughput CT edge info es =
     (let (good, should_update) = tm_challenge_response_good CT info in
      if \<not> should_update then es
      else case edge_info_capability_find es (Some edge) CHALLENGE_RESPONSE_APPLICATION_NAME of
        None \<Rightarrow> es
      | Some cap \<Rightarrow> tm_update_result_quality_throughput edge cap \<lparr>quality_good = good\<rparr> es)"

definition serialise_trust_edge_resource_throughput ::
  "('en, 'de) nanocbor \<Rightarrow> edge_resource_tm_throughput \<Rightarrow> 'en \<Rightarrow> int \<times> 'en" where
  "serialise_trust_edge_resource_throughput NC tm =
     checks [\<lambda>en. fmt_array NC en 2, beta_dist_serialise NC (task_submission tm), beta_dist_serialise NC (task_result tm)]"

definition serialise_trust_edge_capability_throughput ::
  "('en, 'de) nanocbor \<Rightarrow> edge_capability_tm_throughput \<Rightarrow> 'en \<Rightarrow> int \<times> 'en" where
  "serialise_trust_edge_capability_throughput NC tm =
     checks [\<lambda>en. fmt_array NC en 3, beta_dist_serialise NC (result_quality tm),
       gaussian_dist_serialise NC (throughput_in tm), gaussian_dist_serialise NC (throughput_out tm)]"

definition deserialise_trust_edge_resource_throughput ::
  "('en, 'de) nanocbor \<Rightarrow> 'de \<times> edge_resource_tm_throughput \<Rightarrow> int \<times> 'de \<times> edge_resource_tm_throughput" where
  "deserialise_trust_edge_resource_throughput NC =
     in_array NC (checks
      [on_field task_submission (\<lambda>d tm. tm\<lparr>task_submission := d\<rparr>) (beta_dist_deserialise NC),
       on_field task_result (\<lambda>d tm. tm\<lparr>task_result := d\<rparr>) (beta_dist_deserialise NC)])"

definition deserialise_trust_edge_capability_throughput ::
  "('en, 'de) nanocbor \<Rightarrow> 'de \<times> edge_capability_tm_throughput \<Rightarrow> int \<times> 'de \<times> edge_capability_tm_throughput" where
  "deserialise_trust_edge_capability_throughput NC =
     in_array NC (checks
      [on_field result_quality (\<lambda>d tm. tm\<lparr>result_quality := d\<rparr>) (beta_dist_deserialise NC),
       on_field throughput_in (\<lambda>d tm. tm\<lparr>throughput_in := d\<rparr>) (gaussian_dist_deserialise NC),
       on_field throughput_out (\<lambda>d tm. tm\<lparr>throughput_out := d\<rparr>) (gaussian_dist_deserialise NC)])"

subsection \<open>How good a throughput is\<close>

text \<open>Positive thresholds whose conversion is exact, and measured means that are not negative.\<close>

definition thresholds_ok :: "thresholds_state \<Rightarrow> string \<Rightarrow> bool" where
  "thresholds_ok tt name \<longleftrightarrow> (case trust_throughput_thresholds_find tt name of
     None \<Rightarrow> False
   | Some i \<Rightarrow> 0 < in_threshold (tt_mem tt i) \<and> unat (in_threshold (tt_mem tt i)) \<le> 2 ^ 24 \<and>
       0 < out_threshold (tt_mem tt i) \<and> unat (out_threshold (tt_mem tt i)) \<le> 2 ^ 24)"

definition mean_ok :: "gaussian_dist \<Rightarrow> bool" where
  "mean_ok d \<longleftrightarrow> (\<exists>m\<ge>0. mean d = Fin m)"

lemma below_threshold_unit:
  assumes "ffmt_ok F" "0 \<le> m" "m \<le> real n" "0 < n"
  shows "unit_float F (fdiv F (Fin m) (Fin (real n)))"
  by (rule normalised) (use assms in simp_all)

lemma quotient_bound:
  assumes "0 \<le> a" "a \<le> real i" "0 < i"
  shows "real (b div i) * a \<le> real b"
proof -
  have "real (b div i) * a \<le> real (b div i) * real i" by (rule mult_left_mono) (use assms in simp_all)
  also have "\<dots> = real (b div i * i)" by simp
  also have "\<dots> \<le> real b" by (simp only: of_nat_le_iff div_times_less_eq_dividend)
  finally show ?thesis .
qed

lemma goodness_unit:
  assumes F: "ffmt_ok F" and t: "thresholds_ok tt name" and a: "mean_ok inn" and b: "mean_ok out"
  shows "\<exists>g. goodness_of_throughput F tt name inn out = Some g \<and> unit_float F g"
proof -
  obtain i where i: "trust_throughput_thresholds_find tt name = Some i" using t by (auto simp: thresholds_ok_def split: option.splits)
  define it ot where "it = in_threshold (tt_mem tt i)" and "ot = out_threshold (tt_mem tt i)"
  have th: "0 < unat it" "unat it \<le> 2 ^ 24" "0 < unat ot" "unat ot \<le> 2 ^ 24" "it \<noteq> 0"
    using t by (auto simp: thresholds_ok_def i it_def ot_def unat_gt_0)
  have c: "of_u32 F it = Fin (real (unat it))" "of_u32 F ot = Fin (real (unat ot))" using of_u32_small [OF F] th by blast+
  obtain m n where mn: "mean inn = Fin m" "0 \<le> m" "mean out = Fin n" "0 \<le> n" using a b by (auto simp: mean_ok_def)
  have one: "unit_float F (Fin 1)" "unit_float F (Fin 0)" using F by (simp_all add: unit_float_def)
  let ?q = "unat ot div unat it"
  have q: "of_u32 F (ot div it) = Fin (real ?q)"
    using of_u32_small [OF F, of "ot div it"] th(4) div_le_dividend [of "unat ot" "unat it"] by (simp only: unat_div le_trans)
  have small: "n \<le> real (unat ot)" if m': "m < real (unat it)" and le: "\<not> fless (fmul F (Fin (real ?q)) (Fin m)) (Fin n)"
  proof -
    have qb: "real ?q * m \<le> real (unat ot)" by (rule quotient_bound) (use m' mn th in simp_all)
    have "real (unat ot) \<le> real (2 ^ 24)" using th(4) by (simp only: of_nat_le_iff)
    then have "fmul F (Fin (real ?q)) (Fin m) = Fin (rnd F (real ?q * m))" using fl_Fin [OF F, of "real ?q * m"] qb mn(2) by simp
    then have "n \<le> rnd F (real ?q * m)" using le by simp
    also have "\<dots> \<le> rnd F (real (unat ot))" by (rule rnd_mono [OF F qb])
    also have "\<dots> = real (unat ot)" by (rule rnd_nat [OF F th(4)])
    finally show ?thesis .
  qed
  note below = below_threshold_unit [OF F]
  show ?thesis
    unfolding goodness_of_throughput_def i option.case Let_def it_def [symmetric] ot_def [symmetric] c mn(1,3) q
    using one below [of m "unat it"] below [of n "unat ot"] mn(2,4) th small
    by (simp add: word_gt_0 del: fdiv.simps fmul.simps of_nat_unat)
qed

lemma exact_div:
  assumes "1 \<le> y" "0 \<le> x" "x \<le> 2 ^ 128"
  shows "fdiv exact_fmt (Fin x) (Fin y) = Fin (x / y)"
proof -
  have "x / y \<le> x / 1" by (rule divide_left_mono) (use assms in simp_all)
  then have "x / y \<le> 2 ^ 128" using assms(3) by (simp only: div_by_1 order_trans)
  moreover have "0 \<le> x / y" using assms by simp
  ultimately have "\<bar>x / y\<bar> \<le> 2 ^ 128" by (simp only: abs_of_nonneg)
  from fl_exact [OF this] show ?thesis using assms(1) by simp
qed

text \<open>In exact arithmetic, when the incoming threshold divides the outgoing one: the smaller of the two ratios, capped at 1.\<close>

lemma goodness_exact:
  assumes i: "trust_throughput_thresholds_find tt name = Some i"
    and it: "it = unat (in_threshold (tt_mem tt i))" "0 < it" and ot: "ot = unat (out_threshold (tt_mem tt i))" "0 < ot" and dvd: "it dvd ot"
    and inn: "0 < gcount inn" "mean inn = Fin m" "0 \<le> m" and out: "mean out = Fin n" "0 \<le> n" "n \<le> 2 ^ 32"
  shows "goodness_of_throughput exact_fmt tt name inn out = Some (Fin (min 1 (min (m / real it) (n / real ot))))"
proof -
  have e: "of_u32 exact_fmt w = Fin (real (unat w))" for w unfolding of_u32_Fin [OF exact_fmt_ok] by (simp add: exact_fmt_def)
  obtain k where k: "ot = it * k" "0 < k" using dvd ot(2) by (auto elim: dvdE)
  have q: "real (unat (out_threshold (tt_mem tt i) div in_threshold (tt_mem tt i))) = real k"
    unfolding unat_div it(1) [symmetric] ot(1) [symmetric] using k it(2) by simp
  have "ot \<le> 2 ^ 32" using unsigned_less [of "out_threshold (tt_mem tt i)", where 'a = nat] ot(1) by simp
  then have o32: "real k * real it \<le> 2 ^ 32" using k(1) by (metis of_nat_le_iff of_nat_mult of_nat_numeral of_nat_power mult.commute)
  have "it \<le> 2 ^ 32" using unsigned_less [of "in_threshold (tt_mem tt i)", where 'a = nat] it(1) by simp
  then have it32: "real it \<le> 2 ^ 32" by (metis of_nat_le_iff of_nat_numeral of_nat_power)
  have itp: "0 < real it" "0 < real ot" "1 \<le> real it" "0 < real k" using it(2) ot(2) k(2) by simp_all
  have ratio: "n / real ot \<le> m / real it \<longleftrightarrow> n \<le> real k * m" using itp by (simp add: k(1) field_simps)
  have mul: "fmul exact_fmt (Fin (real k)) (Fin m) = Fin (real k * m)" if "m < real it"
  proof -
    have "real k * m \<le> real k * real it" using that by (intro mult_left_mono) simp_all
    moreover have "0 \<le> real k * m" using inn(3) by simp
    ultimately have "\<bar>real k * m\<bar> \<le> 2 ^ 128" using o32 by (simp only: abs_of_nonneg) simp
    then show ?thesis unfolding fmul.simps by (rule fl_exact)
  qed
  have quot: "fdiv exact_fmt (Fin m) (Fin (real it)) = Fin (m / real it)" if "m < real it"
    by (rule exact_div) (use that inn(3) itp it32 in simp_all)
  have "1 \<le> real ot" using ot(2) by simp
  then have quot': "fdiv exact_fmt (Fin n) (Fin (real ot)) = Fin (n / real ot)" by (rule exact_div) (use out in simp_all)
  have z: "in_threshold (tt_mem tt i) \<noteq> 0" "gcount inn \<noteq> 0" using it inn(1) by auto
  define x y where "x = m / real it" and "y = n / real ot"
  have cmp: "real it \<le> m \<longleftrightarrow> 1 \<le> x" "m < real it \<longleftrightarrow> x < 1" "real ot \<le> n \<longleftrightarrow> 1 \<le> y" "real k * m < n \<longleftrightarrow> x < y"
    unfolding x_def y_def
    by (simp_all only: le_divide_eq_1_pos [OF itp(1)] le_divide_eq_1_pos [OF itp(2)] divide_less_eq_1_pos [OF itp(1)] ratio not_le [symmetric])
  note run = goodness_of_throughput_def i option.case Let_def e q it(1) [symmetric] ot(1) [symmetric] inn(2) out(1)
  have "goodness_of_throughput exact_fmt tt name inn out =
      (if 1 \<le> x \<and> 1 \<le> y then Some (Fin 1) else if x < 1 \<and> x < y then Some (Fin x) else Some (Fin y))"
  proof (cases "x < 1")
    case True
    then have "m < real it" using cmp by blast
    note f = mul [OF this] quot [OF this, folded x_def] quot' [folded y_def]
    show ?thesis unfolding run f fless.simps fleq.simps cmp using z True by simp
  next
    case False
    then show ?thesis unfolding run quot' [folded y_def] fless.simps fleq.simps cmp using z by simp
  qed
  then show ?thesis unfolding x_def [symmetric] y_def [symmetric] by (auto simp: min_def)
qed

text \<open>
  Otherwise the truncated quotient lets a slow outgoing link pass: at 99 of 100 bytes in and 1 of 50 bytes out the result is 99\%.  And a
  direction that was never measured counts as failed when it is the outgoing one.
\<close>

definition one_threshold :: "u32 \<Rightarrow> u32 \<Rightarrow> thresholds_state" where
  "one_threshold i out = \<lparr>tt_list = [0], tt_mem = (\<lambda>_. \<lparr>tt_application_name = ''envmon'', in_threshold = i, out_threshold = out\<rparr>)\<rparr>"

lemma one_threshold_find: "trust_throughput_thresholds_find (one_threshold i out) ''envmon'' = Some 0"
  by (simp add: trust_throughput_thresholds_find_def one_threshold_def)

lemma goodness_truncated:
  "goodness_of_throughput exact_fmt (one_threshold 100 50) ''envmon'' \<lparr>mean = Fin 99, variance = Fin 0, gcount = 1\<rparr>
     \<lparr>mean = Fin 1, variance = Fin 0, gcount = 1\<rparr> = Some (Fin (99 / 100))"
  unfolding goodness_of_throughput_def one_threshold_find by (simp add: one_threshold_def of_u32_def)

lemma goodness_unmeasured_out:
  "goodness_of_throughput exact_fmt (one_threshold 100 200) ''envmon'' \<lparr>mean = Fin 500, variance = Fin 0, gcount = 1\<rparr> gaussian_dist_init_empty
     = Some (Fin 0)"
  unfolding goodness_of_throughput_def one_threshold_find by (simp add: one_threshold_def of_u32_def gaussian_dist_init_empty_def)

subsection \<open>The trust value\<close>

definition throughput_ok :: "ffmt \<Rightarrow> 'k ks_config \<Rightarrow> thresholds_state \<Rightarrow> 'k throughput_state \<Rightarrow> addr \<Rightarrow> bool" where
  "throughput_ok F K tt s edge \<longleftrightarrow> ffmt_ok F \<and> weights_ok F (ts_weights s) \<and>
     (\<forall>d\<in>{task_submission, task_result}. small_beta (d (edge_tm (edge_mem (ts_edges s) edge))) \<and>
       (\<forall>tm. stereotype_of K s edge = Some tm \<longrightarrow> small_beta (d tm))) \<and>
     (\<forall>c. small_beta (result_quality (cap_tm (cap_mem (ts_edges s) c))) \<and> thresholds_ok tt (cap_name (cap_mem (ts_edges s) c)) \<and>
       mean_ok (throughput_in (cap_tm (cap_mem (ts_edges s) c))) \<and> mean_ok (throughput_out (cap_tm (cap_mem (ts_edges s) c))))"

lemma throughput_combined:
  assumes "throughput_ok F K tt s edge"
  shows "unit_float F (beta_dist_expected F (beta_dist_combine (task_submission (edge_tm (edge_mem (ts_edges s) edge))) (map_option task_submission (stereotype_of K s edge))))"
    "unit_float F (beta_dist_expected F (beta_dist_combine (task_result (edge_tm (edge_mem (ts_edges s) edge))) (map_option task_result (stereotype_of K s edge))))"
  by (rule small_sum_unit, use assms in \<open>simp add: throughput_ok_def\<close>, rule roomy_small, rule small_combine;
      use assms in \<open>auto simp: throughput_ok_def\<close>)+

lemma metrics_throughput_ok:
  assumes ok: "throughput_ok F K tt s edge" and g: "unit_float F g"
  shows "\<forall>we\<in>set (metrics_throughput F K use_cr g s edge cap). weighted_ok F we"
proof -
  have F: "ffmt_ok F" using ok by (simp add: throughput_ok_def)
  have w: "unit_float F (find_trust_weight (ts_weights s) name m)" for name m
    using ok by (intro find_trust_weight_unit) (simp_all add: throughput_ok_def)
  have q: "unit_float F (beta_dist_expected F (result_quality (cap_tm (cap_mem (ts_edges s) c))))" for c
    using ok by (intro small_sum_unit [OF F] small_beta_sum) (simp add: throughput_ok_def)
  note c = throughput_combined [OF ok]
  show ?thesis
    by (cases use_cr; cases "edge_info_capability_find (ts_edges s) (Some edge) CHALLENGE_RESPONSE_APPLICATION_NAME";
        simp add: metrics_throughput_def Let_def weighted_ok_def; simp only: w q c g simp_thms)
qed

lemma trust_throughput_bounds:
  assumes ok: "throughput_ok F K tt s edge"
  shows "\<exists>t w g. calculate_trust_value_throughput F K use_cr tt s edge cap = Some (Fin t) \<and> unit_float F g \<and>
    snd (weighted_sum F (metrics_throughput F K use_cr g s edge cap)) = Fin w \<and> 0 \<le> t \<and> t \<le> w \<and> t \<le> fmax F \<and> is_float F t"
proof -
  let ?c = "cap_mem (ts_edges s) cap"
  have F: "ffmt_ok F" using ok by (simp add: throughput_ok_def)
  have "\<exists>g. goodness_of_throughput F tt (cap_name ?c) (throughput_in (cap_tm ?c)) (throughput_out (cap_tm ?c)) = Some g \<and> unit_float F g"
    by (rule goodness_unit [OF F]) (use ok in \<open>auto simp: throughput_ok_def\<close>)
  then obtain g where g: "goodness_of_throughput F tt (cap_name ?c) (throughput_in (cap_tm ?c)) (throughput_out (cap_tm ?c)) = Some g"
    "unit_float F g" by blast
  have len: "length (metrics_throughput F K use_cr g s edge cap) \<le> 2 ^ 24"
    by (simp add: metrics_throughput_def Let_def split: option.split)
  obtain t w where tw: "weighted_sum F (metrics_throughput F K use_cr g s edge cap) = (Fin t, Fin w)" "0 \<le> t" "t \<le> w"
    by (rule weighted_sum_bounds [OF F metrics_throughput_ok [OF ok g(2), of use_cr cap] len])
  moreover have "t \<le> fmax F \<and> is_float F t" by (rule weighted_sum_float [OF F, of "metrics_throughput F K use_cr g s edge cap"]) (simp add: tw(1))
  ultimately show ?thesis using g by (auto simp: calculate_trust_value_throughput_def intro!: exI [of _ g])
qed

interpretation throughput: trust_model F
  "\<lambda>edge cap. case calculate_trust_value_throughput F K use_cr tt s edge cap of Some v \<Rightarrow> v | None \<Rightarrow> NaN"
  "throughput_ok F K tt s" for F K use_cr tt s
proof unfold_locales
  fix e c
  assume "throughput_ok F K tt s e"
  from trust_throughput_bounds [OF this, of use_cr c]
  show "\<exists>t. (case calculate_trust_value_throughput F K use_cr tt s e c of Some v \<Rightarrow> v | None \<Rightarrow> NaN) = Fin t \<and> 0 \<le> t \<and> t \<le> fmax F \<and> is_float F t"
    by auto
qed

subsection \<open>Encoding\<close>

lemma emits_edge_throughput:
  assumes "nanocbor_ok written view NC"
  shows "emits written (serialise_trust_edge_resource_throughput NC tm) (TArray 2 # beta_tokens (task_submission tm) @ beta_tokens (task_result tm))"
proof -
  have "emits written (checks [beta_dist_serialise NC (task_submission tm), beta_dist_serialise NC (task_result tm)])
      (beta_tokens (task_submission tm) @ beta_tokens (task_result tm) @ [])"
    by (intro emits_sub emits_beta [OF assms] emits_Nil)
  then show ?thesis unfolding serialise_trust_edge_resource_throughput_def by (intro emits_tok [OF assms]) simp
qed

text \<open>The time of the last ping is not sent: the receiver keeps its own.\<close>

lemma reads_edge_throughput:
  assumes "nanocbor_ok written view NC"
  shows "reads view (deserialise_trust_edge_resource_throughput NC) (TArray 2 # beta_tokens (task_submission tm) @ beta_tokens (task_result tm)) 1 tm0
    (tm\<lparr>last_ping_response := last_ping_response tm0\<rparr>)"
proof -
  have "reads view (checks [on_field task_submission (\<lambda>d tm. tm\<lparr>task_submission := d\<rparr>) (beta_dist_deserialise NC),
        on_field task_result (\<lambda>d tm. tm\<lparr>task_result := d\<rparr>) (beta_dist_deserialise NC)])
      (beta_tokens (task_submission tm) @ beta_tokens (task_result tm) @ []) (Suc (Suc 0)) tm0
      (tm0\<lparr>task_submission := task_submission tm, task_result := task_result tm\<rparr>)"
    by (rule reads_field [OF reads_beta [OF assms]], rule reads_field [OF reads_beta [OF assms]], rule reads_Nil)
  moreover have "tm0\<lparr>task_submission := task_submission tm, task_result := task_result tm\<rparr> = tm\<lparr>last_ping_response := last_ping_response tm0\<rparr>"
    by (rule edge_resource_tm_throughput.equality) simp_all
  ultimately show ?thesis
    unfolding deserialise_trust_edge_resource_throughput_def by (intro reads_in_array [OF assms]) (simp only: append_Nil2, simp)
qed

lemma emits_cap_throughput:
  assumes "nanocbor_ok written view NC"
  shows "emits written (serialise_trust_edge_capability_throughput NC tm)
    (TArray 3 # beta_tokens (result_quality tm) @ gaussian_tokens (throughput_in tm) @ gaussian_tokens (throughput_out tm))"
proof -
  have "emits written (checks [beta_dist_serialise NC (result_quality tm), gaussian_dist_serialise NC (throughput_in tm),
        gaussian_dist_serialise NC (throughput_out tm)])
      (beta_tokens (result_quality tm) @ gaussian_tokens (throughput_in tm) @ gaussian_tokens (throughput_out tm) @ [])"
    by (intro emits_sub emits_beta [OF assms] emits_gaussian [OF assms] emits_Nil)
  then show ?thesis unfolding serialise_trust_edge_capability_throughput_def by (intro emits_tok [OF assms]) simp
qed

lemma reads_cap_throughput:
  assumes "nanocbor_ok written view NC"
  shows "reads view (deserialise_trust_edge_capability_throughput NC)
    (TArray 3 # beta_tokens (result_quality tm) @ gaussian_tokens (throughput_in tm) @ gaussian_tokens (throughput_out tm)) 1 tm0 tm"
proof -
  have "reads view (checks [on_field result_quality (\<lambda>d tm. tm\<lparr>result_quality := d\<rparr>) (beta_dist_deserialise NC),
        on_field throughput_in (\<lambda>d tm. tm\<lparr>throughput_in := d\<rparr>) (gaussian_dist_deserialise NC),
        on_field throughput_out (\<lambda>d tm. tm\<lparr>throughput_out := d\<rparr>) (gaussian_dist_deserialise NC)])
      (beta_tokens (result_quality tm) @ gaussian_tokens (throughput_in tm) @ gaussian_tokens (throughput_out tm) @ []) (Suc (Suc (Suc 0))) tm0
      (tm0\<lparr>result_quality := result_quality tm, throughput_in := throughput_in tm, throughput_out := throughput_out tm\<rparr>)"
    by (rule reads_field [OF reads_beta [OF assms]], rule reads_field [OF reads_gaussian [OF assms]],
        rule reads_field [OF reads_gaussian [OF assms]], rule reads_Nil)
  moreover have "tm0\<lparr>result_quality := result_quality tm, throughput_in := throughput_in tm, throughput_out := throughput_out tm\<rparr> = tm"
    by (rule edge_capability_tm_throughput.equality) simp_all
  ultimately show ?thesis
    unfolding deserialise_trust_edge_capability_throughput_def by (intro reads_in_array [OF assms]) (simp only: append_Nil2, simp)
qed

lemma throughput_roundtrip:
  assumes "nanocbor_ok written view NC"
  shows "roundtrip written view (serialise_trust_edge_resource_throughput NC tm) (deserialise_trust_edge_resource_throughput NC) tm0
      (tm\<lparr>last_ping_response := last_ping_response tm0\<rparr>)"
    "roundtrip written view (serialise_trust_edge_capability_throughput NC c) (deserialise_trust_edge_capability_throughput NC) c0 c"
  using roundtripI [OF emits_edge_throughput [OF assms] reads_edge_throughput [OF assms]]
    roundtripI [OF emits_cap_throughput [OF assms] reads_cap_throughput [OF assms]] by blast+

subsection \<open>Properties\<close>

text \<open>
  In exact arithmetic, once incoming throughput was measured and when the incoming threshold divides the outgoing one, the goodness of the
  throughput is the smaller of the ratios of mean and threshold in the two directions, but at most 1.
\<close>

theorem goodness_of_throughput_min:
  assumes "trust_throughput_thresholds_find tt name = Some i"
    "it = unat (in_threshold (tt_mem tt i))" "0 < it" "ot = unat (out_threshold (tt_mem tt i))" "0 < ot" "it dvd ot"
    "0 < gcount inn" "mean inn = Fin m" "0 \<le> m" "mean out = Fin n" "0 \<le> n" "n \<le> 2 ^ 32"
  shows "goodness_of_throughput exact_fmt tt name inn out = Some (Fin (min 1 (min (m / real it) (n / real ot))))"
  using assms by (rule goodness_exact)

theorem goodness_of_throughput_min_witness:
  "goodness_of_throughput exact_fmt (one_threshold 100 200) ''envmon'' \<lparr>mean = Fin 80, variance = Fin 0, gcount = 1\<rparr>
     \<lparr>mean = Fin 50, variance = Fin 0, gcount = 2\<rparr> = Some (Fin (1 / 4))"
proof -
  have "unat (in_threshold (tt_mem (one_threshold 100 200) 0)) = 100" "unat (out_threshold (tt_mem (one_threshold 100 200) 0)) = 200"
    by (simp_all add: one_threshold_def)
  note t = this [symmetric]
  have "goodness_of_throughput exact_fmt (one_threshold 100 200) ''envmon'' \<lparr>mean = Fin 80, variance = Fin 0, gcount = 1\<rparr>
     \<lparr>mean = Fin 50, variance = Fin 0, gcount = 2\<rparr> = Some (Fin (min 1 (min (80 / real 100) (50 / real 200))))"
    by (rule goodness_of_throughput_min [OF one_threshold_find t(1) _ t(2)]) simp_all
  then show ?thesis by (simp add: min_def)
qed

text \<open>
  With throughput thresholds declared and positive, the trust value of the throughput model is a finite number, at least 0 and at most the sum of the
  weights as the code adds them up; no assertion fails and nothing is divided by zero.
\<close>

theorem trust_value_throughput_bounded:
  assumes "throughput_ok F K tt s edge"
  shows "\<exists>t w g. calculate_trust_value_throughput F K use_cr tt s edge cap = Some (Fin t) \<and> unit_float F g \<and>
    snd (weighted_sum F (metrics_throughput F K use_cr g s edge cap)) = Fin w \<and> 0 \<le> t \<and> t \<le> w"
  using trust_throughput_bounds [OF assms, of use_cr cap] by blast

definition example_throughput :: "unit throughput_state" where
  "example_throughput = \<lparr>ts_keystore = example_store,
     ts_stereotypes = no_stereotypes \<lparr>task_submission = fresh_beta, task_result = fresh_beta, last_ping_response = 0\<rparr>,
     ts_weights = example_weights,
     ts_edges = one_edge_info \<lparr>task_submission = fresh_beta, task_result = fresh_beta, last_ping_response = 0\<rparr>
       \<lparr>result_quality = fresh_beta, throughput_in = gaussian_dist_init_empty, throughput_out = gaussian_dist_init_empty\<rparr>\<rparr>"

lemma example_throughput_ok: "throughput_ok exact_fmt example_config (one_threshold 100 200) example_throughput 0"
proof -
  have "thresholds_ok (one_threshold 100 200) (cap_name (cap_mem (ts_edges example_throughput) c))" for c
    by (simp add: thresholds_ok_def trust_throughput_thresholds_find_def one_threshold_def example_throughput_def one_edge_info_def cstr_def NUL_def)
  then show ?thesis
    by (simp add: throughput_ok_def example_throughput_def example_weights_ok fresh_beta_small one_edge_info_def stereotype_of_def mean_ok_def
        gaussian_dist_init_empty_def keystore_find_addr_def keystore_find_def keystore_find_in_list_def example_store_def)
qed

theorem trust_value_throughput_bounded_witness:
  "\<exists>t w g. calculate_trust_value_throughput exact_fmt example_config False (one_threshold 100 200) example_throughput 0 0 = Some (Fin t) \<and>
    unit_float exact_fmt g \<and> snd (weighted_sum exact_fmt (metrics_throughput exact_fmt example_config False g example_throughput 0 0)) = Fin w \<and>
    0 \<le> t \<and> t \<le> w"
  by (rule trust_value_throughput_bounded [OF example_throughput_ok])

end
