(* ===== verification/Applications.thy ===== *)
theory Applications
  imports Trust_Models
begin

text \<open>
  \<open>src/wsn/applications/applications.{h,c}\<close> and \<open>src/wsn/applications/application-common.{h,c}\<close>: what the applications of a
  node share.  A process is known by its name; one that runs an application also has its kind and its \<open>app_state_t\<close>, and
  \<open>timer_set\<close> says whether its periodic timer is running.  An event is delivered synchronously, so it is a call.
  \<open>None\<close> from the throughput functions is a conversion of a float that does not fit.
\<close>

record app_state =
  app_name :: string
  app_uri :: string
  running :: bool
  out_time :: u32
  out_len :: u32
  in_time :: u32
  in_len :: u32

definition app_state_init :: "string \<Rightarrow> string \<Rightarrow> app_state \<Rightarrow> app_state" where
  "app_state_init name uri st = st\<lparr>running := False, app_name := name, app_uri := uri\<rparr>"

text \<open>The keys of the edge are requested when they are not known; pinning them is commented out in the code.\<close>

definition edge_capability_add_common ::
  "'k ks_config \<Rightarrow> nat \<Rightarrow> bool \<Rightarrow> ('e, 'c) edge_info \<Rightarrow> addr \<Rightarrow> 'k keystore \<Rightarrow> 'k keystore" where
  "edge_capability_add_common K now sent es edge ks =
     (let a = ipaddr (ep (edge_mem es edge)) in
      case keystore_find_addr K ks a of
        Some _ \<Rightarrow> ks
      | None \<Rightarrow> fst (snd (request_public_key K now sent a ks)))"

definition app_state_edge_capability_add ::
  "'k ks_config \<Rightarrow> nat \<Rightarrow> bool \<Rightarrow> ('e, 'c) edge_info \<Rightarrow> addr \<Rightarrow> app_state \<times> 'k keystore \<Rightarrow> bool \<times> app_state \<times> 'k keystore" where
  "app_state_edge_capability_add K now sent es edge = (\<lambda>(st, ks).
     let prev_running = running st;
         st = st\<lparr>running := edge_info_has_active_capability es (app_name st)\<rparr>
     in (\<not> prev_running \<and> running st, st, edge_capability_add_common K now sent es edge ks))"

definition app_state_edge_capability_remove :: "('e, 'c) edge_info \<Rightarrow> addr \<Rightarrow> app_state \<Rightarrow> bool \<times> app_state" where
  "app_state_edge_capability_remove es edge st =
     (let prev_running = running st;
          st = st\<lparr>running := edge_info_has_active_capability es (app_name st)\<rparr>
      in (prev_running \<and> \<not> running st, st))"

text \<open>Bytes per second, rounded up.\<close>

fun u32_of_float :: "cfloat \<Rightarrow> u32 option" where
  "u32_of_float (Fin x) = (if - 1 < x \<and> x < 2 ^ 32 then Some (word_of_nat (nat \<lfloor>x\<rfloor>)) else None)"
| "u32_of_float _ = None"

fun fceil :: "cfloat \<Rightarrow> cfloat" where
  "fceil (Fin x) = Fin (of_int \<lceil>x\<rceil>)"
| "fceil x = x"

definition throughput_end :: "ffmt \<Rightarrow> u32 \<Rightarrow> u32 \<Rightarrow> u32 \<Rightarrow> u32 \<Rightarrow> u32 option" where
  "throughput_end F CLOCK_SECOND now start len =
     (let time_taken = now - start;
          time_taken_sec = fdiv F (of_u32 F time_taken) (of_u32 F CLOCK_SECOND);
          throughput_bytes_per_sec = fdiv F (of_u32 F len) time_taken_sec
      in u32_of_float (fceil throughput_bytes_per_sec))"

definition app_state_throughput_start_out :: "u32 \<Rightarrow> u32 \<Rightarrow> app_state \<Rightarrow> app_state" where
  "app_state_throughput_start_out now len st = st\<lparr>out_time := now, out_len := len\<rparr>"

definition app_state_throughput_end_out :: "ffmt \<Rightarrow> u32 \<Rightarrow> u32 \<Rightarrow> app_state \<Rightarrow> u32 option" where
  "app_state_throughput_end_out F CLOCK_SECOND now st = throughput_end F CLOCK_SECOND now (out_time st) (out_len st)"

definition app_state_throughput_start_in :: "u32 \<Rightarrow> u32 \<Rightarrow> app_state \<Rightarrow> app_state" where
  "app_state_throughput_start_in now len st = st\<lparr>in_time := now, in_len := len\<rparr>"

definition app_state_throughput_update_in :: "u32 \<Rightarrow> app_state \<Rightarrow> app_state" where
  "app_state_throughput_update_in len st = st\<lparr>in_len := in_len st + len\<rparr>"

definition app_state_throughput_end_in :: "ffmt \<Rightarrow> u32 \<Rightarrow> u32 \<Rightarrow> app_state \<Rightarrow> u32 option" where
  "app_state_throughput_end_in F CLOCK_SECOND now st = throughput_end F CLOCK_SECOND now (in_time st) (in_len st)"

subsection \<open>Statistics\<close>

record application_stats =
  stat_mean :: u32
  stat_maximum :: u32
  stat_minimum :: u32
  stat_variance :: u32

definition application_stats_init :: "application_stats \<Rightarrow> application_stats" where
  "application_stats_init st = st\<lparr>stat_mean := 0, stat_minimum := 0, stat_maximum := 0, stat_variance := 0\<rparr>"

text \<open>The buffer comes out of the encoder; a negative result is an error.\<close>

definition application_stats_items :: "('en, 'de) nanocbor \<Rightarrow> application_stats \<Rightarrow> 'en \<Rightarrow> int \<times> 'en" where
  "application_stats_items NC st =
     checks [\<lambda>en. fmt_array NC en 4, \<lambda>en. fmt_uint NC en (unat (stat_mean st)), \<lambda>en. fmt_uint NC en (unat (stat_maximum st)),
       \<lambda>en. fmt_uint NC en (unat (stat_minimum st)), \<lambda>en. fmt_uint NC en (unat (stat_variance st))]"

definition application_stats_serialise :: "('en, 'de) nanocbor \<Rightarrow> application_stats \<Rightarrow> nat \<Rightarrow> int \<times> u8 list" where
  "application_stats_serialise NC st len =
     (let (r, enc) = application_stats_items NC st (encoder_init NC len)
      in (if r < 0 then r else int (encoded_len NC enc), enc_buffer NC enc))"

definition application_stats_nil_serialise :: "('en, 'de) nanocbor \<Rightarrow> nat \<Rightarrow> int \<times> u8 list" where
  "application_stats_nil_serialise NC len =
     (let (r, enc) = checks [fmt_null NC] (encoder_init NC len)
      in (if r < 0 then r else int (encoded_len NC enc), enc_buffer NC enc))"

definition application_stats_deserialise ::
  "('en, 'de) nanocbor \<Rightarrow> 'de \<times> application_stats \<Rightarrow> int \<times> 'de \<times> application_stats" where
  "application_stats_deserialise NC = (\<lambda>(dec, st).
     let (r, arr) = enter_array NC dec in
     if r < 0 then (r, dec, st)
     else let (r, arr, st) = checks
            [into (get_uint32 NC) (\<lambda>v st. st\<lparr>stat_mean := v\<rparr>), into (get_uint32 NC) (\<lambda>v st. st\<lparr>stat_maximum := v\<rparr>),
             into (get_uint32 NC) (\<lambda>v st. st\<lparr>stat_minimum := v\<rparr>), into (get_uint32 NC) (\<lambda>v st. st\<lparr>stat_variance := v\<rparr>)] (arr, st) in
       if r < 0 then (r, dec, st)
       else if \<not> at_end NC arr then (- 1, dec, st)
       else (0, leave_container NC dec arr, st))"

subsection \<open>Processes and events\<close>

datatype app_kind = Monitoring | Routing | Challenge_Response

record process =
  proc_name :: string
  app :: "(app_kind \<times> app_state) option"
  timer_set :: bool

record ('e, 'c, 'k) node = "('e, 'c, 'k) trust_state" +
  processes :: "process list"
  connects :: "coap_endpoint list"

text \<open>The position of the process in \<open>PROCESS_LIST\<close>.\<close>

definition find_process_with_name :: "process list \<Rightarrow> string \<Rightarrow> nat option" where
  "find_process_with_name ps name = List.find (\<lambda>i. proc_name (ps ! i) = cstr name) [0..<length ps]"

definition find_process_for_capability :: "('e, 'c, 'k) node \<Rightarrow> addr \<Rightarrow> nat option" where
  "find_process_for_capability s cap = find_process_with_name (processes s) (cap_name (cap_mem (ts_edges s) cap))"

text \<open>
  The bodies of \<open>edge_capability_add\<close> and \<open>edge_capability_remove\<close> of the three applications, up to the challengers of the challenge-response
  application: monitoring and challenge-response start their timer when the application starts and stop it when it stops.
\<close>

definition edge_capability_add ::
  "'k ks_config \<Rightarrow> nat \<Rightarrow> bool \<Rightarrow> ('e, 'c) edge_info \<Rightarrow> addr \<Rightarrow> process \<times> 'k keystore \<Rightarrow> process \<times> 'k keystore" where
  "edge_capability_add K now sent es edge = (\<lambda>(p, ks).
     case app p of
       None \<Rightarrow> (p, ks)
     | Some (kind, st) \<Rightarrow>
         let (started, st, ks) = app_state_edge_capability_add K now sent es edge (st, ks);
             p = p\<lparr>app := Some (kind, st)\<rparr>
         in (if started \<and> kind \<noteq> Routing then p\<lparr>timer_set := True\<rparr> else p, ks))"

definition edge_capability_remove :: "('e, 'c) edge_info \<Rightarrow> addr \<Rightarrow> process \<Rightarrow> process" where
  "edge_capability_remove es edge p =
     (case app p of
        None \<Rightarrow> p
      | Some (kind, st) \<Rightarrow>
          let (stopped, st) = app_state_edge_capability_remove es edge st;
              p = p\<lparr>app := Some (kind, st)\<rparr>
          in if stopped \<and> kind \<noteq> Routing then p\<lparr>timer_set := False\<rparr> else p)"

definition post_add_to_capability_process ::
  "'k ks_config \<Rightarrow> nat \<Rightarrow> bool \<Rightarrow> addr \<Rightarrow> addr \<Rightarrow> ('e, 'c, 'k) node \<Rightarrow> ('e, 'c, 'k) node" where
  "post_add_to_capability_process K now sent cap edge s =
     (case find_process_for_capability s cap of
        None \<Rightarrow> s
      | Some i \<Rightarrow>
          let (p, ks) = edge_capability_add K now sent (ts_edges s) edge (processes s ! i, ts_keystore s)
          in s\<lparr>processes := (processes s)[i := p], ts_keystore := ks\<rparr>)"

definition post_remove_to_capability_process ::
  "addr \<Rightarrow> addr \<Rightarrow> ('e, 'c, 'k) node \<Rightarrow> ('e, 'c, 'k) node" where
  "post_remove_to_capability_process cap edge s =
     (case find_process_for_capability s cap of
        None \<Rightarrow> s
      | Some i \<Rightarrow> s\<lparr>processes := (processes s)[i := edge_capability_remove (ts_edges s) edge (processes s ! i)]\<rparr>)"

end
