(* ===== verification/Trust_Common.thy ===== *)
theory Trust_Common
  imports Applications Trust_Choose
begin

text \<open>
  \<open>src/wsn/common/trust/trust-common.c\<close>, the part that learns about edges: the handlers of the messages published on the topics a
  node subscribes to.  What the handlers use of their surroundings and do not change is the record \<open>node_env\<close>.  The topic is a pointer into a buffer:
  a string \<open>mem\<close> holds all the characters from the pointer to the end of the buffer, and \<open>None\<close> is a read past that end.
  Log output is left out.
\<close>

record ds6_addr =
  isused :: bool
  ds6_state :: nat
  ds6_ipaddr :: ipaddr

text \<open>
  \<open>find_ip0\<close> and \<open>local_ip0\<close> are what the uninitialised address buffers hold in \<open>edge_info_find_eui64\<close> and in the handlers, \<open>cert0\<close> what the uninitialised
  certificate holds; \<open>key_sent\<close> is the result of sending a key request.  The last two fields are the build options
  \<open>NO_ACTIVE_REMOVAL_ON_UNANNOUNCE\<close> and \<open>AGGRESSIVE_REMOVAL_ON_UNANNOUNCE\<close>.
\<close>

record ('e, 'c, 'k, 'en, 'de) node_env =
  ct :: contiki
  nc :: "('en, 'de) nanocbor"
  kc :: "'k ks_config"
  tmi :: "('e, 'c) tm_inits"
  own_eui64 :: eui64
  addr_list :: "ds6_addr list"
  addr_tentative :: nat
  addr_preferred :: nat
  set_iid :: "ipaddr \<Rightarrow> u8 list \<Rightarrow> ipaddr"
  find_ip0 :: ipaddr
  local_ip0 :: ipaddr
  cert0 :: certificate
  ep_connected :: "coap_endpoint \<Rightarrow> bool"
  clock :: nat
  key_sent :: bool
  no_active_removal :: bool
  aggressive_removal :: bool

definition is_our_addr :: "('e, 'c, 'k, 'en, 'de) node_env \<Rightarrow> ipaddr \<Rightarrow> bool" where
  "is_our_addr E a =
     list_ex (\<lambda>d. isused d \<and> (ds6_state d = addr_tentative E \<or> ds6_state d = addr_preferred E) \<and> a = ds6_ipaddr d) (addr_list E)"

definition is_our_eui64 :: "('e, 'c, 'k, 'en, 'de) node_env \<Rightarrow> eui64 \<Rightarrow> bool" where
  "is_our_eui64 E eui = (take EUI64_LENGTH eui = take EUI64_LENGTH (own_eui64 E))"

definition activate_edge :: "addr \<Rightarrow> ('e, 'c) edge_info \<Rightarrow> ('e, 'c) edge_info" where
  "activate_edge e = upd_edge e (\<lambda>r. r\<lparr>edge_flags := edge_flags r OR EDGE_RESOURCE_ACTIVE\<rparr>)"

definition deactivate_edge :: "addr \<Rightarrow> ('e, 'c) edge_info \<Rightarrow> ('e, 'c) edge_info" where
  "deactivate_edge e = upd_edge e (\<lambda>r. r\<lparr>edge_flags := edge_flags r AND NOT EDGE_RESOURCE_ACTIVE\<rparr>)"

definition activate_capability :: "addr \<Rightarrow> ('e, 'c) edge_info \<Rightarrow> ('e, 'c) edge_info" where
  "activate_capability c = upd_cap c (\<lambda>r. r\<lparr>cap_flags := cap_flags r OR EDGE_CAPABILITY_ACTIVE\<rparr>)"

definition deactivate_capability :: "addr \<Rightarrow> ('e, 'c) edge_info \<Rightarrow> ('e, 'c) edge_info" where
  "deactivate_capability c = upd_cap c (\<lambda>r. r\<lparr>cap_flags := cap_flags r AND NOT EDGE_CAPABILITY_ACTIVE\<rparr>)"

text \<open>Starting to connect to an edge that is not connected yet.\<close>

definition connect_edge :: "('e, 'c, 'k, 'en, 'de) node_env \<Rightarrow> addr \<Rightarrow> ('e, 'c, 'k) node \<Rightarrow> ('e, 'c, 'k) node" where
  "connect_edge E e s =
     (let p = ep (edge_mem (ts_edges s) e) in if ep_connected E p then s else s\<lparr>connects := connects s @ [p]\<rparr>)"

definition process_certificate ::
  "('e, 'c, 'k, 'en, 'de) node_env \<Rightarrow> eui64 \<Rightarrow> certificate \<Rightarrow> ('e, 'c, 'k) node \<Rightarrow> (int \<times> ('e, 'c, 'k) node) option" where
  "process_certificate E eui c s =
     (if take EUI64_LENGTH eui \<noteq> take EUI64_LENGTH (subject c) then Some (- 3, s)
      else if is_our_eui64 E (subject c) then Some (- 1, s)
      else let a = eui64_to_ipaddr (set_iid E) (root_ipaddr (kc E)) (subject c) (local_ip0 E) in
        case edge_info_add (ct E) (tmi E) (ts_edges s) a of
          None \<Rightarrow> None
        | Some (None, es) \<Rightarrow> Some (- 2, s\<lparr>ts_edges := es\<rparr>)
        | Some (Some e, es) \<Rightarrow>
            let s = s\<lparr>ts_edges := activate_edge e es\<rparr>;
                s = s\<lparr>ts_stereotypes := snd (stereotypes_request (ct E) (ts_keystore s) (tags c) (ts_stereotypes s))\<rparr>;
                s = connect_edge E e s;
                (added, ks) = keystore_add (ct E) (kc E) c (ts_keystore s);
                ks = (if added then ks else fst (snd (request_public_key (kc E) (clock E) (key_sent E) a ks)))
            in Some (0, s\<lparr>ts_keystore := ks\<rparr>))"

definition mqtt_publish_announce_handler ::
  "('e, 'c, 'k, 'en, 'de) node_env \<Rightarrow> u8 list \<Rightarrow> eui64 \<Rightarrow> ('e, 'c, 'k) node \<Rightarrow> (int \<times> ('e, 'c, 'k) node) option" where
  "mqtt_publish_announce_handler E chunk eui s =
     (let (r, _, c) = certificate_decode (nc E) (decoder_init (nc E) chunk, cert0 E) in
      if r < 0 then Some (r, s) else process_certificate E eui c s)"

definition deactivate_capabilities ::
  "addr \<Rightarrow> addr list \<Rightarrow> ('e, 'c, 'k) node \<Rightarrow> ('e, 'c, 'k) node" where
  "deactivate_capabilities e =
     fold (\<lambda>c s. post_remove_to_capability_process c e (s\<lparr>ts_edges := deactivate_capability c (ts_edges s)\<rparr>))"

definition remove_capabilities ::
  "('e, 'c, 'k, 'en, 'de) node_env \<Rightarrow> addr \<Rightarrow> ('e, 'c, 'k) node \<Rightarrow> (int \<times> ('e, 'c, 'k) node) option" where
  "remove_capabilities E e s =
     (if no_active_removal E then Some (0, s)
      else let s = s\<lparr>ts_edges := edge_info_capability_clear (ct E) (ts_edges s) e\<rparr>
           in if aggressive_removal E
              then map_option (\<lambda>(_, es). (0, s\<lparr>ts_edges := es\<rparr>)) (edge_info_remove (ct E) (ts_edges s) e)
              else Some (0, s))"

definition mqtt_publish_unannounce_handler ::
  "('e, 'c, 'k, 'en, 'de) node_env \<Rightarrow> u8 list \<Rightarrow> eui64 \<Rightarrow> ('e, 'c, 'k) node \<Rightarrow> (int \<times> ('e, 'c, 'k) node) option" where
  "mqtt_publish_unannounce_handler E chunk eui s =
     (let (r, arr) = enter_array (nc E) (decoder_init (nc E) chunk) in
      if r < 0 then Some (r, s)
      else let (r, a, arr) = nanocbor_get_ipaddr (nc E) arr in
      if r < 0 then Some (r, s)
      else if \<not> at_end (nc E) arr then Some (- 1, s)
      else if is_our_addr E a then Some (- 1, s)
      else case edge_info_find_eui64 (set_iid E) (root_ipaddr (kc E)) (find_ip0 E) (ts_edges s) eui of
        None \<Rightarrow> Some (0, s)
      | Some e \<Rightarrow>
          let s = s\<lparr>ts_edges := deactivate_edge e (ts_edges s)\<rparr>;
              s = deactivate_capabilities e (capabilities (edge_mem (ts_edges s) e)) s
          in remove_capabilities E e s)"

text \<open>What the two capability handlers start with: a certificate or nothing.\<close>

definition embedded_certificate ::
  "('e, 'c, 'k, 'en, 'de) node_env \<Rightarrow> u8 list \<Rightarrow> eui64 \<Rightarrow> ('e, 'c, 'k) node \<Rightarrow> (int \<times> ('e, 'c, 'k) node) option" where
  "embedded_certificate E chunk eui s =
     (let (r, arr) = enter_array (nc E) (decoder_init (nc E) chunk) in
      if r < 0 then Some (r, s)
      else let (r, certificate_included, arr) = get_bool (nc E) arr in
      if r < 0 then Some (r, s)
      else if certificate_included
      then let (r, _, c) = certificate_decode (nc E) (arr, cert0 E) in
           if r < 0 then Some (r, s) else map_option (\<lambda>(_, s). (0, s)) (process_certificate E eui c s)
      else Some (min 0 (fst (get_null (nc E) arr)), s))"

definition find_or_add_edge ::
  "('e, 'c, 'k, 'en, 'de) node_env \<Rightarrow> eui64 \<Rightarrow> ('e, 'c, 'k) node \<Rightarrow> (addr option \<times> ('e, 'c, 'k) node) option" where
  "find_or_add_edge E eui s =
     (case edge_info_find_eui64 (set_iid E) (root_ipaddr (kc E)) (find_ip0 E) (ts_edges s) eui of
        Some e \<Rightarrow> Some (Some e, s)
      | None \<Rightarrow>
          let a = eui64_to_ipaddr (set_iid E) (root_ipaddr (kc E)) eui (local_ip0 E) in
          case edge_info_add (ct E) (tmi E) (ts_edges s) a of
            None \<Rightarrow> None
          | Some (None, es) \<Rightarrow> Some (None, s\<lparr>ts_edges := es\<rparr>)
          | Some (Some e, es) \<Rightarrow>
              let s = connect_edge E e (s\<lparr>ts_edges := es\<rparr>);
                  s = s\<lparr>ts_edges := activate_edge e (ts_edges s)\<rparr>
              in Some (Some e, s\<lparr>ts_keystore := fst (snd (request_public_key (kc E) (clock E) (key_sent E) a (ts_keystore s)))\<rparr>))"

definition add_capability ::
  "('e, 'c, 'k, 'en, 'de) node_env \<Rightarrow> addr \<Rightarrow> string \<Rightarrow> ('e, 'c, 'k) node \<Rightarrow> int \<times> ('e, 'c, 'k) node" where
  "add_capability E e name s =
     (let (r, s) = (case edge_info_capability_find (ts_edges s) (Some e) name of
                      Some c \<Rightarrow> (if edge_capability_is_active (ts_edges s) c then None else Some c, s)
                    | None \<Rightarrow> let (c, es) = edge_info_capability_add (ct E) (tmi E) (ts_edges s) e name in (c, s\<lparr>ts_edges := es\<rparr>))
      in case r of
           None \<Rightarrow> (- 1, s)
         | Some c \<Rightarrow> (0, post_add_to_capability_process (kc E) (clock E) (key_sent E) c e (s\<lparr>ts_edges := activate_capability c (ts_edges s)\<rparr>)))"

definition mqtt_publish_capability_add_handler ::
  "('e, 'c, 'k, 'en, 'de) node_env \<Rightarrow> eui64 \<Rightarrow> string \<Rightarrow> u8 list \<Rightarrow> ('e, 'c, 'k) node \<Rightarrow> (int \<times> ('e, 'c, 'k) node) option" where
  "mqtt_publish_capability_add_handler E eui name chunk s =
     (case embedded_certificate E chunk eui s of
        None \<Rightarrow> None
      | Some (r, s) \<Rightarrow>
          if r < 0 then Some (r, s)
          else (case find_or_add_edge E eui s of
                  None \<Rightarrow> None
                | Some (None, s) \<Rightarrow> Some (- 1, s)
                | Some (Some e, s) \<Rightarrow> Some (add_capability E e name s)))"

definition remove_capability ::
  "('e, 'c, 'k, 'en, 'de) node_env \<Rightarrow> addr \<Rightarrow> addr \<Rightarrow> ('e, 'c, 'k) node \<Rightarrow> (int \<times> ('e, 'c, 'k) node) option" where
  "remove_capability E e c s =
     (if no_active_removal E then Some (0, s)
      else let s = s\<lparr>ts_edges := snd (edge_info_capability_remove (ct E) (ts_edges s) e c)\<rparr>
           in if aggressive_removal E \<and> capabilities (edge_mem (ts_edges s) e) = []
              then map_option (\<lambda>(_, es). (0, s\<lparr>ts_edges := es\<rparr>)) (edge_info_remove (ct E) (ts_edges s) e)
              else Some (0, s))"

definition mqtt_publish_capability_remove_handler ::
  "('e, 'c, 'k, 'en, 'de) node_env \<Rightarrow> eui64 \<Rightarrow> string \<Rightarrow> u8 list \<Rightarrow> ('e, 'c, 'k) node \<Rightarrow> (int \<times> ('e, 'c, 'k) node) option" where
  "mqtt_publish_capability_remove_handler E eui name chunk s =
     (case embedded_certificate E chunk eui s of
        None \<Rightarrow> None
      | Some (r, s) \<Rightarrow>
          if r < 0 then Some (r, s)
          else case edge_info_find_eui64 (set_iid E) (root_ipaddr (kc E)) (find_ip0 E) (ts_edges s) eui of
            None \<Rightarrow> Some (- 1, s)
          | Some e \<Rightarrow>
              (case edge_info_capability_find (ts_edges s) (Some e) name of
                 None \<Rightarrow> Some (- 1, s)
               | Some c \<Rightarrow>
                   remove_capability E e c (post_remove_to_capability_process c e (s\<lparr>ts_edges := deactivate_capability c (ts_edges s)\<rparr>))))"

subsection \<open>Topics\<close>

text \<open>\<open>strncmp\<close> with a literal of that length, \<open>strchr\<close> and the check for hexadecimal digits, reading no further than they have to.\<close>

fun starts_with :: "string \<Rightarrow> string \<Rightarrow> bool option" where
  "starts_with [] mem = Some True"
| "starts_with (c # cs) [] = None"
| "starts_with (c # cs) (d # mem) = (if c = d then starts_with cs mem else Some False)"

fun strchr :: "string \<Rightarrow> char \<Rightarrow> nat \<Rightarrow> nat option option" where
  "strchr [] c n = None"
| "strchr (d # mem) c n = (if d = c then Some (Some n) else if d = NUL then Some None else strchr mem c (Suc n))"

definition is_xdigit :: "char \<Rightarrow> bool" where
  "is_xdigit c \<longleftrightarrow> c \<in> set ''0123456789abcdefABCDEF''"

fun xdigits :: "nat \<Rightarrow> string \<Rightarrow> bool option" where
  "xdigits 0 mem = Some True"
| "xdigits (Suc n) [] = None"
| "xdigits (Suc n) (c # mem) = (if is_xdigit c then xdigits n mem else Some False)"

definition MQTT_EDGE_NAMESPACE :: string where "MQTT_EDGE_NAMESPACE = ''edge''"

definition MQTT_IDENTITY_LEN :: nat where "MQTT_IDENTITY_LEN = 8 * 2"

definition MQTT_EDGE_ACTION_ANNOUNCE :: string where "MQTT_EDGE_ACTION_ANNOUNCE = ''announce''"

definition MQTT_EDGE_ACTION_UNANNOUNCE :: string where "MQTT_EDGE_ACTION_UNANNOUNCE = ''unannounce''"

definition MQTT_EDGE_ACTION_CAPABILITY :: string where "MQTT_EDGE_ACTION_CAPABILITY = ''capability''"

definition MQTT_EDGE_ACTION_CAPABILITY_ADD :: string where "MQTT_EDGE_ACTION_CAPABILITY_ADD = ''add''"

definition MQTT_EDGE_ACTION_CAPABILITY_REMOVE :: string where "MQTT_EDGE_ACTION_CAPABILITY_REMOVE = ''remove''"

definition mqtt_publish_capability_handler ::
  "('e, 'c, 'k, 'en, 'de) node_env \<Rightarrow> string \<Rightarrow> u8 list \<Rightarrow> eui64 \<Rightarrow> ('e, 'c, 'k) node \<Rightarrow> (int \<times> ('e, 'c, 'k) node) option" where
  "mqtt_publish_capability_handler E topic chunk eui s =
     (case starts_with ''/'' topic of
        None \<Rightarrow> None
      | Some False \<Rightarrow> Some (- 1, s)
      | Some True \<Rightarrow>
          let topic = drop 1 topic in
          case strchr topic (CHR ''/'') 0 of
            None \<Rightarrow> None
          | Some None \<Rightarrow> Some (- 1, s)
          | Some (Some distance) \<Rightarrow>
              if distance = 0 \<or> EDGE_CAPABILITY_NAME_LEN < distance then Some (- 1, s)
              else let capability_name = take distance topic;
                       topic = drop (Suc distance) topic
                   in case starts_with MQTT_EDGE_ACTION_CAPABILITY_ADD topic of
                        None \<Rightarrow> None
                      | Some True \<Rightarrow> mqtt_publish_capability_add_handler E eui capability_name chunk s
                      | Some False \<Rightarrow>
                          (case starts_with MQTT_EDGE_ACTION_CAPABILITY_REMOVE topic of
                             None \<Rightarrow> None
                           | Some True \<Rightarrow> mqtt_publish_capability_remove_handler E eui capability_name chunk s
                           | Some False \<Rightarrow> Some (- 1, s)))"

text \<open>The action that follows the identity; results of the handlers are ignored.\<close>

definition publish_action ::
  "('e, 'c, 'k, 'en, 'de) node_env \<Rightarrow> string \<Rightarrow> u8 list \<Rightarrow> eui64 \<Rightarrow> ('e, 'c, 'k) node \<Rightarrow> ('e, 'c, 'k) node option" where
  "publish_action E topic chunk eui s =
     (case starts_with MQTT_EDGE_ACTION_ANNOUNCE topic of
        None \<Rightarrow> None
      | Some True \<Rightarrow> map_option snd (mqtt_publish_announce_handler E chunk eui s)
      | Some False \<Rightarrow>
          (case starts_with MQTT_EDGE_ACTION_UNANNOUNCE topic of
             None \<Rightarrow> None
           | Some True \<Rightarrow> map_option snd (mqtt_publish_unannounce_handler E chunk eui s)
           | Some False \<Rightarrow>
               (case starts_with MQTT_EDGE_ACTION_CAPABILITY topic of
                  None \<Rightarrow> None
                | Some True \<Rightarrow>
                    map_option snd (mqtt_publish_capability_handler E (drop (length MQTT_EDGE_ACTION_CAPABILITY) topic) chunk eui s)
                | Some False \<Rightarrow> Some s)))"

definition mqtt_publish_handler ::
  "('e, 'c, 'k, 'en, 'de) node_env \<Rightarrow> string \<Rightarrow> nat \<Rightarrow> u8 list \<Rightarrow> ('e, 'c, 'k) node \<Rightarrow> ('e, 'c, 'k) node option" where
  "mqtt_publish_handler E mem topic_len chunk s =
     (case starts_with MQTT_EDGE_NAMESPACE mem of
        None \<Rightarrow> None
      | Some False \<Rightarrow> Some s
      | Some True \<Rightarrow>
          let topic = drop (length MQTT_EDGE_NAMESPACE) mem in
          if int topic_len - int (length MQTT_EDGE_NAMESPACE) < 2 + int MQTT_IDENTITY_LEN then Some s
          else case starts_with ''/'' topic of
            None \<Rightarrow> None
          | Some False \<Rightarrow> Some s
          | Some True \<Rightarrow>
              let topic = drop 1 topic in
              case xdigits MQTT_IDENTITY_LEN topic of
                None \<Rightarrow> None
              | Some False \<Rightarrow> Some s
              | Some True \<Rightarrow>
                  let (parsed, eui) = eui64_from_strn topic MQTT_IDENTITY_LEN (replicate EUI64_LENGTH 0) in
                  if \<not> parsed then Some s
                  else if is_our_eui64 E eui then Some s
                  else let topic = drop MQTT_IDENTITY_LEN topic in
                    case starts_with ''/'' topic of
                      None \<Rightarrow> None
                    | Some False \<Rightarrow> Some s
                    | Some True \<Rightarrow> publish_action E (drop 1 topic) chunk eui s)"

subsection \<open>The invariant of a node\<close>

text \<open>The table of edges, the stereotypes and the key store are each well formed; the last includes that only verified keys are offered.\<close>

definition node_ok :: "('e, 'c, 'k, 'en, 'de) node_env \<Rightarrow> ('e, 'c, 'k) node \<Rightarrow> bool" where
  "node_ok E s \<longleftrightarrow> edge_info_ok (ts_edges s) \<and> st_ok (ts_stereotypes s) \<and> ks_inv (nc E) (kc E) (ts_keystore s)"

lemmas activation_defs = activate_edge_def deactivate_edge_def activate_capability_def deactivate_capability_def

lemma flags_upd:
  "caps_of (activate_edge e es) = caps_of es" "caps_of (deactivate_edge e es) = caps_of es"
  "caps_of (activate_capability c es) = caps_of es" "caps_of (deactivate_capability c es) = caps_of es"
  "edge_resources (activate_edge e es) = edge_resources es" "edge_resources (deactivate_edge e es) = edge_resources es"
  "edge_resources (activate_capability c es) = edge_resources es" "edge_resources (deactivate_capability c es) = edge_resources es"
  "ep (edge_mem (activate_edge e es) f) = ep (edge_mem es f)" "ep (edge_mem (deactivate_edge e es) f) = ep (edge_mem es f)"
  "edge_mem (activate_capability c es) = edge_mem es" "edge_mem (deactivate_capability c es) = edge_mem es"
  "cap_mem (activate_edge e es) = cap_mem es" "cap_mem (deactivate_edge e es) = cap_mem es"
  "cap_name (cap_mem (activate_capability c es) d) = cap_name (cap_mem es d)"
  "cap_name (cap_mem (deactivate_capability c es) d) = cap_name (cap_mem es d)"
  by (simp_all add: activation_defs caps_of_def fun_eq_iff)

lemma flags_names:
  "names_ok (activate_edge e es) = names_ok es" "names_ok (deactivate_edge e es) = names_ok es"
  "names_ok (activate_capability c es) = names_ok es" "names_ok (deactivate_capability c es) = names_ok es"
  by (simp_all only: names_ok_def flags_upd)

lemma flags_edges:
  "edges_ok (activate_edge e es) = edges_ok es" "edges_ok (deactivate_edge e es) = edges_ok es"
  "edges_ok (activate_capability c es) = edges_ok es" "edges_ok (deactivate_capability c es) = edges_ok es"
  by (simp_all add: activation_defs edges_ok_upd_edge)

lemma flags_memb:
  "edge_capabilities_memb (activate_edge e es) = edge_capabilities_memb es" "edge_capabilities_memb (deactivate_edge e es) = edge_capabilities_memb es"
  "edge_capabilities_memb (activate_capability c es) = edge_capabilities_memb es"
  "edge_capabilities_memb (deactivate_capability c es) = edge_capabilities_memb es"
  by (simp_all add: activation_defs)

lemma flags_ok [simp]:
  "edge_info_ok (activate_edge e es) = edge_info_ok es" "edge_info_ok (deactivate_edge e es) = edge_info_ok es"
  "edge_info_ok (activate_capability c es) = edge_info_ok es" "edge_info_ok (deactivate_capability c es) = edge_info_ok es"
  by (simp_all only: edge_info_ok_def caps_ok_def flags_names flags_edges flags_upd flags_memb)

lemma ks_inv_request_public_key: "ks_inv NC K s \<Longrightarrow> ks_inv NC K (fst (snd (request_public_key K now sent a s)))"
  using ks_inv_request [of NC K s now sent a] by (metis prod.collapse)

lemma ks_inv_add_common: "ks_inv NC K s \<Longrightarrow> ks_inv NC K (edge_capability_add_common K now sent es e s)"
  by (simp add: edge_capability_add_common_def Let_def ks_inv_request_public_key split: option.split)

lemma edge_capability_add_keystore:
  "snd (edge_capability_add K now sent es e (p, ks)) = (if app p = None then ks else edge_capability_add_common K now sent es e ks)"
  by (auto simp: edge_capability_add_def app_state_edge_capability_add_def Let_def split: option.split)

lemma post_frame [simp]:
  "ts_edges (post_add_to_capability_process K now sent c e s) = ts_edges s"
  "ts_stereotypes (post_add_to_capability_process K now sent c e s) = ts_stereotypes s"
  "ts_edges (post_remove_to_capability_process c e s) = ts_edges s"
  "ts_stereotypes (post_remove_to_capability_process c e s) = ts_stereotypes s"
  "ts_keystore (post_remove_to_capability_process c e s) = ts_keystore s"
  by (simp_all add: post_add_to_capability_process_def post_remove_to_capability_process_def split_def Let_def split: option.split)

lemma ks_inv_post:
  assumes "ks_inv NC K (ts_keystore s)"
  shows "ks_inv NC K (ts_keystore (post_add_to_capability_process K now sent c e s))"
proof (cases "find_process_for_capability s c")
  case None
  then show ?thesis using assms by (simp add: post_add_to_capability_process_def)
next
  case (Some i)
  then have "ts_keystore (post_add_to_capability_process K now sent c e s) =
      snd (edge_capability_add K now sent (ts_edges s) e (processes s ! i, ts_keystore s))"
    by (simp add: post_add_to_capability_process_def split_def Let_def)
  then show ?thesis using assms by (simp add: edge_capability_add_keystore ks_inv_add_common)
qed

lemma connect_frame [simp]:
  "ts_edges (connect_edge E e s) = ts_edges s" "ts_stereotypes (connect_edge E e s) = ts_stereotypes s"
  "ts_keystore (connect_edge E e s) = ts_keystore s" "processes (connect_edge E e s) = processes s"
  by (simp_all add: connect_edge_def Let_def)

text \<open>A call that returns and leaves the node well formed.\<close>

definition keeps_ok :: "('e, 'c, 'k, 'en, 'de) node_env \<Rightarrow> (int \<times> ('e, 'c, 'k) node) option \<Rightarrow> bool" where
  "keeps_ok E r \<longleftrightarrow> (\<exists>v s'. r = Some (v, s') \<and> node_ok E s')"

lemma keeps_okI [intro]: "node_ok E s \<Longrightarrow> keeps_ok E (Some (v, s))"
  by (simp add: keeps_ok_def)

lemma process_certificate_ok:
  assumes "contiki_ok (ct E)" "node_ok E s"
  shows "keeps_ok E (process_certificate E eui c s)"
proof (cases "take EUI64_LENGTH eui \<noteq> take EUI64_LENGTH (subject c) \<or> is_our_eui64 E (subject c)")
  case True
  then show ?thesis using assms(2) by (auto simp: process_certificate_def)
next
  case False
  define a where "a = eui64_to_ipaddr (set_iid E) (root_ipaddr (kc E)) (subject c) (local_ip0 E)"
  have ok: "edge_info_ok (ts_edges s)" "st_ok (ts_stereotypes s)" "ks_inv (nc E) (kc E) (ts_keystore s)" using assms(2) by (simp_all add: node_ok_def)
  obtain r es where add: "edge_info_add (ct E) (tmi E) (ts_edges s) a = Some (r, es)" "edge_info_ok es"
    using edge_info_add_returns [OF assms(1) ok(1)] by blast
  note ks = ks_inv_add [OF assms(1) ok(3), of c] and st = st_ok_request [OF assms(1) ok(2), of "ts_keystore s" "tags c"]
  show ?thesis
    using False add ok(2,3) ks st ks_inv_request_public_key [OF ks]
    by (cases r) (simp_all add: process_certificate_def a_def [symmetric] Let_def split_def keeps_ok_def node_ok_def)
qed

lemma embedded_certificate_ok:
  assumes "contiki_ok (ct E)" "node_ok E s"
  shows "keeps_ok E (embedded_certificate E chunk eui s)"
proof -
  have "keeps_ok E (map_option (\<lambda>(_, s). (0, s)) (process_certificate E eui c s))" for c
    using process_certificate_ok [OF assms, of eui c] by (auto simp: keeps_ok_def)
  then show ?thesis using assms(2) by (auto simp: embedded_certificate_def split_def Let_def)
qed

lemma find_or_add_edge_ok:
  assumes "contiki_ok (ct E)" "node_ok E s"
  shows "\<exists>r s'. find_or_add_edge E eui s = Some (r, s') \<and> node_ok E s' \<and> (\<forall>e. r = Some e \<longrightarrow> e \<in> set (edge_resources (ts_edges s')))"
proof (cases "edge_info_find_eui64 (set_iid E) (root_ipaddr (kc E)) (find_ip0 E) (ts_edges s) eui")
  case (Some e)
  then have "e \<in> set (edge_resources (ts_edges s))"
    using find_SomeD by (fastforce simp: edge_info_find_eui64_def edge_info_find_addr_def)
  then show ?thesis using Some assms(2) by (simp add: find_or_add_edge_def)
next
  case None
  define a where "a = eui64_to_ipaddr (set_iid E) (root_ipaddr (kc E)) eui (local_ip0 E)"
  have ok: "edge_info_ok (ts_edges s)" "st_ok (ts_stereotypes s)" "ks_inv (nc E) (kc E) (ts_keystore s)" using assms(2) by (simp_all add: node_ok_def)
  obtain r es where add: "edge_info_add (ct E) (tmi E) (ts_edges s) a = Some (r, es)" "edge_info_ok es"
    using edge_info_add_returns [OF assms(1) ok(1)] by blast
  moreover have "e \<in> set (edge_resources es)" if "r = Some e" for e
    using edge_info_add_find [OF assms(1) ok(1)] add that find_addr_iff [OF add(2)] by blast
  ultimately show ?thesis
    using None ok(2,3) ks_inv_request_public_key [OF ok(3)]
    by (cases r) (simp_all add: find_or_add_edge_def a_def [symmetric] Let_def node_ok_def flags_upd)
qed

lemma add_capability_ok:
  assumes "contiki_ok (ct E)" "node_ok E s" "e \<in> set (edge_resources (ts_edges s))"
  shows "node_ok E (snd (add_capability E e name s))"
proof -
  have ok: "edge_info_ok (ts_edges s)" using assms(2) by (simp add: node_ok_def)
  obtain c es where c: "edge_info_capability_add (ct E) (tmi E) (ts_edges s) e name = (c, es)" by fastforce
  then have "edge_info_ok es" using edge_info_capability_add_ok [OF assms(1) ok assms(3), of "tmi E" name] by simp
  then show ?thesis using assms(2) c
    by (auto simp: add_capability_def node_ok_def ks_inv_post Let_def split: option.split)
qed

lemma capability_add_ok:
  assumes "contiki_ok (ct E)" "node_ok E s"
  shows "keeps_ok E (mqtt_publish_capability_add_handler E eui name chunk s)"
proof -
  obtain v t where t: "embedded_certificate E chunk eui s = Some (v, t)" "node_ok E t"
    using embedded_certificate_ok [OF assms, of chunk eui] by (auto simp: keeps_ok_def)
  obtain r u where u: "find_or_add_edge E eui t = Some (r, u)" "node_ok E u" "\<forall>e. r = Some e \<longrightarrow> e \<in> set (edge_resources (ts_edges u))"
    using find_or_add_edge_ok [OF assms(1) t(2), of eui] by blast
  have "node_ok E (snd (add_capability E e name u))" if "r = Some e" for e
    using add_capability_ok [OF assms(1) u(2)] u(3) that by blast
  then show ?thesis
    using t u(1,2) by (cases r) (auto simp: mqtt_publish_capability_add_handler_def keeps_ok_def, metis prod.collapse)
qed

lemma node_ok_edges: "\<lbrakk>node_ok E s; edge_info_ok es\<rbrakk> \<Longrightarrow> node_ok E (s\<lparr>ts_edges := es\<rparr>)"
  by (simp add: node_ok_def)

lemma node_ok_post_remove [simp]: "node_ok E (post_remove_to_capability_process c e s) = node_ok E s"
  by (simp add: node_ok_def)

lemma edge_removed_ok:
  assumes "contiki_ok (ct E)" "node_ok E s" "e \<in> set (edge_resources (ts_edges s))"
  shows "keeps_ok E (map_option (\<lambda>(_, es). (0, s\<lparr>ts_edges := es\<rparr>)) (edge_info_remove (ct E) (ts_edges s) e))"
  using assms edge_info_remove_present [OF assms(1), of "ts_edges s" e] without_edge_ok [of "ts_edges s" e]
  by (auto simp: keeps_ok_def node_ok_def)

lemma find_eui64_listed:
  "edge_info_find_eui64 si ra ip0 es eui = Some e \<Longrightarrow> e \<in> set (edge_resources es)"
  using find_SomeD by (fastforce simp: edge_info_find_eui64_def edge_info_find_addr_def)

lemma remove_capability_ok:
  assumes "contiki_ok (ct E)" "node_ok E s" "e \<in> set (edge_resources (ts_edges s))"
  shows "keeps_ok E (remove_capability E e c s)"
proof -
  have ok: "edge_info_ok (ts_edges s)" using assms(2) by (simp add: node_ok_def)
  define u where "u = s\<lparr>ts_edges := snd (edge_info_capability_remove (ct E) (ts_edges s) e c)\<rparr>"
  have u: "node_ok E u" unfolding u_def by (rule node_ok_edges [OF assms(2) edge_info_capability_remove_ok [OF assms(1) ok assms(3)]])
  have "edge_resources (ts_edges u) = edge_resources (ts_edges s)"
    by (simp add: u_def edge_info_capability_remove_eq [OF assms(1) ok assms(3)])
  then show ?thesis
    using edge_removed_ok [OF assms(1) u, of e] u assms(2,3) by (auto simp: remove_capability_def Let_def u_def [symmetric])
qed

lemma remove_capabilities_ok:
  assumes "contiki_ok (ct E)" "node_ok E s" "e \<in> set (edge_resources (ts_edges s))"
  shows "keeps_ok E (remove_capabilities E e s)"
proof -
  have ok: "edge_info_ok (ts_edges s)" using assms(2) by (simp add: node_ok_def)
  define u where "u = s\<lparr>ts_edges := edge_info_capability_clear (ct E) (ts_edges s) e\<rparr>"
  note c = edge_info_capability_clear_caps [OF assms(1) ok assms(3)]
  then have "node_ok E u" "edge_resources (ts_edges u) = edge_resources (ts_edges s)"
    using assms(2) by (simp_all add: u_def node_ok_def)
  then show ?thesis
    using edge_removed_ok [OF assms(1), of u e] assms(2,3) by (auto simp: remove_capabilities_def Let_def u_def [symmetric])
qed

lemma capability_remove_ok:
  assumes "contiki_ok (ct E)" "node_ok E s"
  shows "keeps_ok E (mqtt_publish_capability_remove_handler E eui name chunk s)"
proof -
  obtain v t where t: "embedded_certificate E chunk eui s = Some (v, t)" "node_ok E t"
    using embedded_certificate_ok [OF assms, of chunk eui] by (auto simp: keeps_ok_def)
  have "keeps_ok E (remove_capability E e c (post_remove_to_capability_process c e (t\<lparr>ts_edges := deactivate_capability c (ts_edges t)\<rparr>)))"
    if "edge_info_find_eui64 (set_iid E) (root_ipaddr (kc E)) (find_ip0 E) (ts_edges t) eui = Some e" for e c
    by (rule remove_capability_ok [OF assms(1)]) (use t(2) find_eui64_listed [OF that] in \<open>simp_all add: node_ok_def flags_upd\<close>)
  then show ?thesis using t by (auto simp: mqtt_publish_capability_remove_handler_def split: option.split)
qed

lemma deactivate_capabilities_frame:
  "edge_resources (ts_edges (deactivate_capabilities e cs s)) = edge_resources (ts_edges s)"
  "edge_mem (ts_edges (deactivate_capabilities e cs s)) = edge_mem (ts_edges s)"
  "ts_keystore (deactivate_capabilities e cs s) = ts_keystore s" "ts_stereotypes (deactivate_capabilities e cs s) = ts_stereotypes s"
  by (induction cs arbitrary: s) (simp_all add: deactivate_capabilities_def flags_upd)

lemma deactivate_capabilities_ok: "node_ok E s \<Longrightarrow> node_ok E (deactivate_capabilities e cs s)"
  by (induction cs arbitrary: s) (simp_all add: deactivate_capabilities_def node_ok_def)

lemma unannounce_ok:
  assumes "contiki_ok (ct E)" "node_ok E s"
  shows "keeps_ok E (mqtt_publish_unannounce_handler E chunk eui s)"
proof -
  have "keeps_ok E (remove_capabilities E e (deactivate_capabilities e cs (s\<lparr>ts_edges := deactivate_edge e (ts_edges s)\<rparr>)))"
    if "edge_info_find_eui64 (set_iid E) (root_ipaddr (kc E)) (find_ip0 E) (ts_edges s) eui = Some e" for e cs
  proof (rule remove_capabilities_ok [OF assms(1)])
    show "node_ok E (deactivate_capabilities e cs (s\<lparr>ts_edges := deactivate_edge e (ts_edges s)\<rparr>))"
      using assms(2) by (intro deactivate_capabilities_ok) (simp add: node_ok_def)
    show "e \<in> set (edge_resources (ts_edges (deactivate_capabilities e cs (s\<lparr>ts_edges := deactivate_edge e (ts_edges s)\<rparr>))))"
      using find_eui64_listed [OF that] by (simp add: deactivate_capabilities_frame flags_upd)
  qed
  then show ?thesis using assms(2) by (auto simp: mqtt_publish_unannounce_handler_def split_def Let_def split: option.split)
qed

lemma announce_ok:
  assumes "contiki_ok (ct E)" "node_ok E s"
  shows "keeps_ok E (mqtt_publish_announce_handler E chunk eui s)"
  using assms process_certificate_ok [OF assms] by (auto simp: mqtt_publish_announce_handler_def split_def Let_def)

subsection \<open>Reading topics\<close>

text \<open>In a buffer where the topic is followed by a NUL, no read goes past that NUL.\<close>

definition terminated :: "string \<Rightarrow> bool" where
  "terminated mem \<longleftrightarrow> NUL \<in> set mem"

lemma starts_with_Some:
  assumes "terminated mem" "NUL \<notin> set lit"
  shows "\<exists>b. starts_with lit mem = Some b \<and> (b \<longrightarrow> terminated (drop (length lit) mem))"
  using assms
proof (induction lit mem rule: starts_with.induct)
  case (3 c cs d mem)
  show ?case
  proof (cases "c = d")
    case True
    then have "terminated mem" "NUL \<notin> set cs" using 3 by (auto simp: terminated_def)
    then show ?thesis using 3(1) True by simp
  qed auto
qed (auto simp: terminated_def)

lemma strchr_Some:
  assumes "terminated mem" "c \<noteq> NUL"
  shows "\<exists>r. strchr mem c n = Some r \<and> (\<forall>k. r = Some k \<longrightarrow> n \<le> k \<and> terminated (drop (Suc (k - n)) mem))"
  using assms(1)
proof (induction mem arbitrary: n)
  case (Cons d mem)
  show ?case
  proof (cases "d = c \<or> d = NUL")
    case True
    then show ?thesis using Cons.prems assms(2) by (auto simp: terminated_def)
  next
    case False
    then obtain r where r: "strchr mem c (Suc n) = Some r" "\<forall>k. r = Some k \<longrightarrow> Suc n \<le> k \<and> terminated (drop (Suc (k - Suc n)) mem)"
      using Cons by (auto simp: terminated_def)
    have "terminated (drop (k - n) mem)" "n \<le> k" if "r = Some k" for k
    proof -
      have k: "Suc n \<le> k" "terminated (drop (Suc (k - Suc n)) mem)" using r(2) that by auto
      then show "terminated (drop (k - n) mem)" "n \<le> k" by (auto simp: Suc_diff_Suc)
    qed
    then show ?thesis using r(1) False by auto
  qed
qed (simp add: terminated_def)

lemma xdigits_Some:
  assumes "terminated mem"
  shows "\<exists>b. xdigits n mem = Some b \<and> (b \<longrightarrow> terminated (drop n mem))"
  using assms
proof (induction n mem rule: xdigits.induct)
  case (3 n c mem)
  have "\<not> is_xdigit NUL" by (simp add: is_xdigit_def NUL_def)
  then show ?case using 3 by (auto simp: terminated_def)
qed (auto simp: terminated_def)

lemmas topic_defs = MQTT_EDGE_NAMESPACE_def MQTT_IDENTITY_LEN_def MQTT_EDGE_ACTION_ANNOUNCE_def MQTT_EDGE_ACTION_UNANNOUNCE_def
  MQTT_EDGE_ACTION_CAPABILITY_def MQTT_EDGE_ACTION_CAPABILITY_ADD_def MQTT_EDGE_ACTION_CAPABILITY_REMOVE_def

lemma topic_literals:
  "NUL \<notin> set MQTT_EDGE_NAMESPACE" "NUL \<notin> set MQTT_EDGE_ACTION_ANNOUNCE" "NUL \<notin> set MQTT_EDGE_ACTION_UNANNOUNCE"
  "NUL \<notin> set MQTT_EDGE_ACTION_CAPABILITY" "NUL \<notin> set MQTT_EDGE_ACTION_CAPABILITY_ADD" "NUL \<notin> set MQTT_EDGE_ACTION_CAPABILITY_REMOVE"
  "NUL \<notin> set ''/''" "CHR ''/'' \<noteq> NUL"
  by (simp_all add: NUL_def topic_defs)

lemma starts_with_cases:
  assumes "terminated mem" "NUL \<notin> set lit"
  obtains "starts_with lit mem = Some True" "terminated (drop (length lit) mem)" | "starts_with lit mem = Some False"
  using starts_with_Some [OF assms] by (metis (full_types))

lemma capability_handler_ok:
  assumes "contiki_ok (ct E)" "node_ok E s" "terminated topic"
  shows "keeps_ok E (mqtt_publish_capability_handler E topic chunk eui s)"
  using assms(3) topic_literals(7)
proof (cases rule: starts_with_cases)
  case 1
  define t where "t = drop (Suc 0) topic"
  have t: "terminated t" using 1(2) by (simp add: t_def)
  obtain r where r: "strchr t (CHR ''/'') 0 = Some r" "\<forall>k. r = Some k \<longrightarrow> terminated (drop (Suc k) t)"
    using strchr_Some [OF t topic_literals(8), of 0] by auto
  have "keeps_ok E (case starts_with MQTT_EDGE_ACTION_CAPABILITY_ADD u of
      None \<Rightarrow> None
    | Some True \<Rightarrow> mqtt_publish_capability_add_handler E eui name chunk s
    | Some False \<Rightarrow>
        (case starts_with MQTT_EDGE_ACTION_CAPABILITY_REMOVE u of
           None \<Rightarrow> None
         | Some True \<Rightarrow> mqtt_publish_capability_remove_handler E eui name chunk s
         | Some False \<Rightarrow> Some (- 1, s)))" if "terminated u" for u name
    using that topic_literals(5)
  proof (cases rule: starts_with_cases)
    case 1
    then show ?thesis using capability_add_ok [OF assms(1,2)] by simp
  next
    case add: 2
    from that topic_literals(6) show ?thesis
      by (cases rule: starts_with_cases) (use add capability_remove_ok [OF assms(1,2)] assms(2) in auto)
  qed
  then show ?thesis
    using 1(1) r assms(2) by (cases r) (auto simp: mqtt_publish_capability_handler_def Let_def t_def [symmetric])
qed (use assms(2) in \<open>auto simp: mqtt_publish_capability_handler_def\<close>)

definition keeps_node :: "('e, 'c, 'k, 'en, 'de) node_env \<Rightarrow> ('e, 'c, 'k) node option \<Rightarrow> bool" where
  "keeps_node E r \<longleftrightarrow> (\<exists>s'. r = Some s' \<and> node_ok E s')"

lemma keeps_node_snd: "keeps_ok E r \<Longrightarrow> keeps_node E (map_option snd r)"
  by (auto simp: keeps_ok_def keeps_node_def)

lemma keeps_node_same: "node_ok E s \<Longrightarrow> keeps_node E (Some s)"
  by (simp add: keeps_node_def)

lemma publish_action_ok:
  assumes "contiki_ok (ct E)" "node_ok E s" "terminated topic"
  shows "keeps_node E (publish_action E topic chunk eui s)"
  using assms(3) topic_literals(2)
proof (cases rule: starts_with_cases)
  case 1
  then show ?thesis using keeps_node_snd [OF announce_ok [OF assms(1,2)]] by (simp add: publish_action_def)
next
  case a: 2
  from assms(3) topic_literals(3) show ?thesis
  proof (cases rule: starts_with_cases)
    case 1
    then show ?thesis using a keeps_node_snd [OF unannounce_ok [OF assms(1,2)]] by (simp add: publish_action_def)
  next
    case u: 2
    from assms(3) topic_literals(4) show ?thesis
    proof (cases rule: starts_with_cases)
      case 1
      then show ?thesis using a u keeps_node_snd [OF capability_handler_ok [OF assms(1,2)]] by (simp add: publish_action_def)
    next
      case 2
      then show ?thesis using a u keeps_node_same [OF assms(2)] by (simp add: publish_action_def)
    qed
  qed
qed

lemma publish_handler_ok:
  assumes "contiki_ok (ct E)" "node_ok E s" "terminated mem"
  shows "keeps_node E (mqtt_publish_handler E mem len chunk s)"
  using assms(3) topic_literals(1)
proof (cases rule: starts_with_cases)
  case ns: 1
  note same = keeps_node_same [OF assms(2)]
  define t where "t = drop (length MQTT_EDGE_NAMESPACE) mem"
  show ?thesis
    using ns(2) [folded t_def] topic_literals(7)
  proof (cases rule: starts_with_cases)
    case sl: 1
    define u where "u = drop (Suc 0) t"
    have u: "terminated u" using sl(2) by (simp add: u_def)
    obtain b where b: "xdigits MQTT_IDENTITY_LEN u = Some b" "b \<longrightarrow> terminated (drop MQTT_IDENTITY_LEN u)" using xdigits_Some [OF u] by blast
    define v where "v = drop MQTT_IDENTITY_LEN u"
    have "keeps_node E (case starts_with ''/'' v of None \<Rightarrow> None | Some False \<Rightarrow> Some s | Some True \<Rightarrow> publish_action E (drop 1 v) chunk eui s)"
      if "terminated v" for eui
      using that topic_literals(7) by (cases rule: starts_with_cases) (use publish_action_ok [OF assms(1,2)] same in simp_all)
    then show ?thesis
      using ns(1) sl(1) b same
      by (cases b) (simp_all add: mqtt_publish_handler_def t_def [symmetric] u_def [symmetric] v_def [symmetric] Let_def split_def)
  qed (use ns same in \<open>simp add: mqtt_publish_handler_def t_def [symmetric]\<close>)
qed (use keeps_node_same [OF assms(2)] in \<open>simp add: mqtt_publish_handler_def\<close>)

text \<open>Without the NUL a read may leave the buffer; a call that returns has still kept the node well formed.\<close>

lemma keeps_okD: "\<lbrakk>keeps_ok E r; r = Some (v, s')\<rbrakk> \<Longrightarrow> node_ok E s'"
  by (simp add: keeps_ok_def)

lemma capability_handler_returned:
  assumes "contiki_ok (ct E)" "node_ok E s" "mqtt_publish_capability_handler E topic chunk eui s = Some (v, s')"
  shows "node_ok E s'"
  using assms(3) assms(2) keeps_okD [OF capability_add_ok [OF assms(1,2)]] keeps_okD [OF capability_remove_ok [OF assms(1,2)]]
  by (auto simp: mqtt_publish_capability_handler_def Let_def split: option.splits bool.splits if_splits)

lemma publish_action_returned:
  assumes "contiki_ok (ct E)" "node_ok E s" "publish_action E topic chunk eui s = Some s'"
  shows "node_ok E s'"
  using assms(3) assms(2) keeps_okD [OF announce_ok [OF assms(1,2)]] keeps_okD [OF unannounce_ok [OF assms(1,2)]]
    capability_handler_returned [OF assms(1,2)]
  by (auto simp: publish_action_def split: option.splits bool.splits)

lemma publish_handler_returned:
  assumes "contiki_ok (ct E)" "node_ok E s" "mqtt_publish_handler E mem len chunk s = Some s'"
  shows "node_ok E s'"
  using assms(3) assms(2) publish_action_returned [OF assms(1,2)]
  by (auto simp: mqtt_publish_handler_def Let_def split_def split: option.splits bool.splits if_splits)

subsection \<open>Properties\<close>

text \<open>A node that knows one edge, and a decoder that reads the given tokens from every message.\<close>

definition example_env :: "token list \<Rightarrow> (unit, unit, unit, token list, token list \<times> nat option) node_env" where
  "example_env ts = \<lparr>ct = ref_contiki, nc = ref_nanocbor\<lparr>decoder_init := \<lambda>_. (ts, None)\<rparr>, kc = example_config, tmi = unit_inits,
     own_eui64 = replicate 8 7, addr_list = [], addr_tentative = 0, addr_preferred = 1, set_iid = (\<lambda>a l. take 8 a @ l),
     find_ip0 = replicate 16 0, local_ip0 = replicate 16 0, cert0 = small_cert, ep_connected = (\<lambda>_. False), clock = 0, key_sent = True,
     no_active_removal = False, aggressive_removal = False\<rparr>"

definition example_node :: "(unit, unit, unit) node" where
  "example_node = \<lparr>ts_keystore = example_store, ts_stereotypes = no_stereotypes (), ts_weights = \<lparr>tw_list = [], tw_mem = (\<lambda>_. \<lparr>application_name = [], weights = []\<rparr>)\<rparr>,
     ts_edges = one_edge_info () (), processes = [], connects = []\<rparr>"

lemma example_node_ok: "node_ok (example_env ts) example_node"
  by (simp add: node_ok_def example_node_def one_edge_info_ok st_ok_def no_stereotypes_def ks_inv_def keys_ok_def jobs_ok_def posted_ok_def
      own_jobs_def job_entries_def example_store_def example_jobs_def)

lemma eui64_from_strn_hex_bytes:
  assumes "length bs = EUI64_LENGTH"
  shows "eui64_from_strn (concat (map hex_byte bs) @ mem) MQTT_IDENTITY_LEN (replicate EUI64_LENGTH 0) = (True, bs)"
proof -
  have len: "length (concat (map hex_byte bs)) = 16" using assms by (simp add: length_concat_hex_bytes EUI64_LENGTH_def del: length_concat)
  have "base16_loop (concat (map hex_byte bs)) (replicate 8 0) 8 0 = (8, bs)"
    using base16_loop_hex_bytes [of bs 8 0 "replicate 8 0"] assms by (simp add: EUI64_LENGTH_def)
  then show ?thesis
    by (simp add: eui64_from_strn_def EUI64_LENGTH_def MQTT_IDENTITY_LEN_def len del: length_concat replicate.simps)
qed

text \<open>
  The topic's own length is not used to stop the reads: with a slash and an action left behind the topic in the buffer, a publication whose
  topic ends after the capability's name is taken for the addition of that capability, and with nothing readable behind it the search for the
  slash leaves the buffer.
\<close>

definition short_topic :: string where
  "short_topic = ''edge/0102030405060708/capability/abc''"

lemma topic_end_ignored:
  assumes "\<not> is_our_eui64 E [1, 2, 3, 4, 5, 6, 7, 8]"
  shows "mqtt_publish_handler E short_topic (length short_topic) chunk s = None"
    "mqtt_publish_handler E (short_topic @ ''/add'') (length short_topic) chunk s =
       map_option snd (mqtt_publish_capability_add_handler E [1, 2, 3, 4, 5, 6, 7, 8] ''abc'' chunk s)"
proof -
  have "concat (map hex_byte [1, 2, 3, 4, 5, 6, 7, 8]) = ''0102030405060708''" by code_simp
  then have eui: "eui64_from_strn (''0102030405060708'' @ rest) MQTT_IDENTITY_LEN (replicate EUI64_LENGTH 0) = (True, [1, 2, 3, 4, 5, 6, 7, 8])" for rest
    using eui64_from_strn_hex_bytes [of "[1, 2, 3, 4, 5, 6, 7, 8]" rest] by (simp add: EUI64_LENGTH_def)
  show "mqtt_publish_handler E short_topic (length short_topic) chunk s = None"
    using assms eui [of "''/capability/abc''"]
    by (simp add: mqtt_publish_handler_def publish_action_def mqtt_publish_capability_handler_def short_topic_def topic_defs is_xdigit_def
        Let_def NUL_def numeral_eq_Suc)
  show "mqtt_publish_handler E (short_topic @ ''/add'') (length short_topic) chunk s =
       map_option snd (mqtt_publish_capability_add_handler E [1, 2, 3, 4, 5, 6, 7, 8] ''abc'' chunk s)"
    using assms eui [of "''/capability/abc/add''"]
    by (simp add: mqtt_publish_handler_def publish_action_def mqtt_publish_capability_handler_def short_topic_def topic_defs is_xdigit_def
        EDGE_CAPABILITY_NAME_LEN_def Let_def NUL_def numeral_eq_Suc)
qed



end
