(* ===== verification/Node_Invariant.thy ===== *)
theory Node_Invariant
  imports Trust_Common
begin

text \<open>
  How the edges a node knows and the applications it runs stay together.  The first part abstracts the table of edges to what each edge offers, the second relates the
  applications to it, and the last shows that the messages about edges keep the two in step.
\<close>

subsection \<open>What an edge offers\<close>

text \<open>
  All that matters of an edge for the choosers and the applications: whether it is active, and the names of its capabilities with their activity.
\<close>

definition view_of :: "'e edge_resource \<times> 'c edge_capability list \<Rightarrow> bool \<times> (string \<times> bool) list" where
  "view_of = (\<lambda>(r, cs). (edge_flags r AND EDGE_RESOURCE_ACTIVE \<noteq> 0, map (\<lambda>c. (cstr (cap_name c), cap_flags c AND EDGE_CAPABILITY_ACTIVE \<noteq> 0)) cs))"

definition edge_view :: "('e, 'c) edge_info \<Rightarrow> addr \<Rightarrow> bool \<times> (string \<times> bool) list" where
  "edge_view es e = view_of (edge_entry es e)"

lemma edge_view_eq:
  "edge_view es e = (edge_info_is_active es e, map (\<lambda>c. (cstr (cap_name (cap_mem es c)), edge_capability_is_active es c)) (caps_of es e))"
  by (simp add: edge_view_def view_of_def edge_entry_def edge_info_is_active_def edge_capability_is_active_def)

definition offers :: "bool \<times> (string \<times> bool) list \<Rightarrow> string \<Rightarrow> bool" where
  "offers v n \<longleftrightarrow> fst v \<and> (n, True) \<in> set (snd v)"

definition offered :: "('e, 'c) edge_info \<Rightarrow> string \<Rightarrow> bool" where
  "offered es n \<longleftrightarrow> (\<exists>e\<in>set (edge_resources es). offers (edge_view es e) n)"

text \<open>
  No two capabilities of an edge have the same name, and, while \<open>b\<close>, an inactive edge has no active capability.  The second half is lost by
  a message that adds a capability to an edge that was unannounced, so every lemma is proved for both values of \<open>b\<close>.
\<close>

definition view_ok :: "bool \<Rightarrow> bool \<times> (string \<times> bool) list \<Rightarrow> bool" where
  "view_ok b v \<longleftrightarrow> distinct (map fst (snd v)) \<and> (b \<longrightarrow> \<not> fst v \<longrightarrow> (\<forall>n. (n, True) \<notin> set (snd v)))"

definition views_ok :: "bool \<Rightarrow> ('e, 'c) edge_info \<Rightarrow> bool" where
  "views_ok b es \<longleftrightarrow> edge_info_ok es \<and> (\<forall>e\<in>set (edge_resources es). view_ok b (edge_view es e))"

text \<open>The first half alone, which also holds while an edge is being taken down.\<close>

definition distinct_views :: "('e, 'c) edge_info \<Rightarrow> bool" where
  "distinct_views es \<longleftrightarrow> edge_info_ok es \<and> (\<forall>e\<in>set (edge_resources es). distinct (map fst (snd (edge_view es e))))"

lemma views_distinct: "views_ok b es \<Longrightarrow> distinct_views es"
  by (simp add: views_ok_def distinct_views_def view_ok_def)

lemma map_of_distinct_name:
  assumes "distinct (map f cs)"
  shows "(case List.find (\<lambda>c. f c = n) cs of None \<Rightarrow> False | Some c \<Rightarrow> P c) \<longleftrightarrow> (\<exists>c\<in>set cs. f c = n \<and> P c)"
  using assms
proof (induction cs)
  case (Cons a cs)
  then show ?case by (cases "f a = n") (auto simp: image_iff)
qed simp

lemma candidate_offers:
  assumes "distinct_views es" "e \<in> set (edge_resources es)"
  shows "candidate es n e \<noteq> None \<longleftrightarrow> offers (edge_view es e) (cstr n)"
proof -
  have "distinct (map (\<lambda>c. cstr (cap_name (cap_mem es c))) (caps_of es e))"
    using assms by (auto simp: distinct_views_def edge_view_eq o_def)
  from map_of_distinct_name [OF this, where n = "cstr n" and P = "edge_capability_is_active es"]
  have "(case edge_info_capability_find es (Some e) n of None \<Rightarrow> False | Some c \<Rightarrow> edge_capability_is_active es c) \<longleftrightarrow>
      (cstr n, True) \<in> set (snd (edge_view es e))"
    unfolding edge_info_capability_find_def option.case caps_of_def [symmetric] by (auto simp: edge_view_eq eq_commute [of "cstr n"])
  then show ?thesis by (auto simp: candidate_def offers_def edge_view_eq split: option.splits)
qed

lemma has_active_offered:
  assumes "distinct_views es"
  shows "edge_info_has_active_capability es n \<longleftrightarrow> offered es (cstr n)"
proof -
  have "edge_info_has_active_capability es n \<longleftrightarrow> (\<exists>e\<in>set (edge_resources es). candidate es n e \<noteq> None)"
    by (auto simp: edge_info_has_active_capability_def list_ex_iff candidate_def split: option.splits)
  then show ?thesis using candidate_offers [OF assms] by (simp add: offered_def)
qed

lemma candidates_offered: "distinct_views es \<Longrightarrow> candidates_of es n \<noteq> [] \<longleftrightarrow> offered es (cstr n)"
  using candidate_offers by (fastforce simp: candidates_of_def offered_def filter_empty_conv)

subsection \<open>How views change\<close>

lemma views_cong:
  assumes "views_ok b es" "edge_info_ok es'" "edge_resources es' = edge_resources es"
    "\<And>f. f \<in> set (edge_resources es) \<Longrightarrow> edge_view es' f = ((edge_view es)(e := v)) f" "e \<in> set (edge_resources es) \<Longrightarrow> view_ok b v"
  shows "views_ok b es'"
  using assms by (auto simp: views_ok_def)

lemma offered_cong:
  assumes "edge_resources es' = edge_resources es" "\<And>f. f \<in> set (edge_resources es) \<Longrightarrow> offers (edge_view es' f) n = offers (edge_view es f) n"
  shows "offered es' n = offered es n"
  using assms by (auto simp: offered_def)

lemma and_one_bit: "(w :: u32) AND 1 \<noteq> 0 \<longleftrightarrow> bit w 0"
  by (simp add: and_one_eq bit_0 odd_iff_mod_2_eq_one)

lemma active_upd [simp]:
  "edge_info_is_active (activate_edge e es) f \<longleftrightarrow> f = e \<or> edge_info_is_active es f"
  "edge_info_is_active (deactivate_edge e es) f \<longleftrightarrow> f \<noteq> e \<and> edge_info_is_active es f"
  "edge_capability_is_active (activate_capability c es) d \<longleftrightarrow> d = c \<or> edge_capability_is_active es d"
  "edge_capability_is_active (deactivate_capability c es) d \<longleftrightarrow> d \<noteq> c \<and> edge_capability_is_active es d"
  "edge_info_is_active (activate_capability c es) = edge_info_is_active es" "edge_info_is_active (deactivate_capability c es) = edge_info_is_active es"
  "edge_capability_is_active (activate_edge e es) = edge_capability_is_active es"
  "edge_capability_is_active (deactivate_edge e es) = edge_capability_is_active es"
  by (auto simp: fun_eq_iff edge_info_is_active_def edge_capability_is_active_def activation_defs EDGE_RESOURCE_ACTIVE_def EDGE_CAPABILITY_ACTIVE_def
      and_one_bit bit_or_iff bit_and_iff bit_not_iff)

lemma activate_edge_view: "edge_view (activate_edge e es) = (edge_view es)(e := (True, snd (edge_view es e)))"
  by (auto simp: fun_eq_iff edge_view_eq flags_upd)

lemma deactivate_edge_view: "edge_view (deactivate_edge e es) = (edge_view es)(e := (False, snd (edge_view es e)))"
  by (auto simp: fun_eq_iff edge_view_eq flags_upd)

text \<open>Setting the activity of the capabilities with one name.\<close>

definition set_activity :: "string \<Rightarrow> bool \<Rightarrow> bool \<times> (string \<times> bool) list \<Rightarrow> bool \<times> (string \<times> bool) list" where
  "set_activity n b v = (fst v, map (\<lambda>(m, a). (m, if m = n then b else a)) (snd v))"

lemma capability_elsewhere:
  assumes "edge_info_ok es" "e \<in> set (edge_resources es)" "f \<in> set (edge_resources es)" "c \<in> set (caps_of es e)" "f \<noteq> e"
  shows "c \<notin> set (caps_of es f)"
  using assms by (auto simp: edge_info_ok_def caps_ok_def owned_def)

lemma distinct_name_inj: "\<lbrakk>distinct (map f cs); c \<in> set cs; d \<in> set cs; f c = f d\<rbrakk> \<Longrightarrow> c = d"
  by (auto simp: distinct_map dest: inj_onD)

lemma capability_view:
  assumes "distinct_views es" "e \<in> set (edge_resources es)" "c \<in> set (caps_of es e)" "f \<in> set (edge_resources es)"
  defines "n \<equiv> cstr (cap_name (cap_mem es c))"
  shows "edge_view (activate_capability c es) f = ((edge_view es)(e := set_activity n True (edge_view es e))) f"
    "edge_view (deactivate_capability c es) f = ((edge_view es)(e := set_activity n False (edge_view es e))) f"
proof -
  have ok: "edge_info_ok es" and d: "distinct (map (\<lambda>c. cstr (cap_name (cap_mem es c))) (caps_of es e))"
    using assms(1,2) by (auto simp: distinct_views_def edge_view_eq o_def)
  have "d = c" if "d \<in> set (caps_of es e)" "cstr (cap_name (cap_mem es d)) = n" for d
    using distinct_name_inj [OF d that(1) assms(3)] that(2) by (simp add: n_def)
  moreover have "c \<notin> set (caps_of es f)" if "f \<noteq> e" using capability_elsewhere [OF ok assms(2,4,3) that] .
  ultimately show "edge_view (activate_capability c es) f = ((edge_view es)(e := set_activity n True (edge_view es e))) f"
      "edge_view (deactivate_capability c es) f = ((edge_view es)(e := set_activity n False (edge_view es e))) f"
    by (auto simp: edge_view_eq flags_upd set_activity_def n_def)
qed

lemma set_activity_ok: "view_ok b v \<Longrightarrow> (b \<Longrightarrow> fst v \<or> \<not> a) \<Longrightarrow> view_ok b (set_activity n a v)"
  by (auto simp: view_ok_def set_activity_def o_def split_def split: if_splits)

lemma set_activity_offers: "m \<noteq> n \<Longrightarrow> offers (set_activity n b v) m = offers v m"
  by (force simp: offers_def set_activity_def)


text \<open>Adding an edge changes no view but that of the new edge, which offers nothing.\<close>

lemma without_edge_views:
  assumes "edge_info_ok es" "v \<in> set (edge_resources es)" "\<And>n. \<not> offers (edge_view es v) n"
  shows "set (edge_resources (without_edge es v)) = set (edge_resources es) - {v}"
    "f \<in> set (edge_resources (without_edge es v)) \<Longrightarrow> edge_view (without_edge es v) f = edge_view es f"
    "offered (without_edge es v) n = offered es n"
proof -
  have d: "distinct (edge_resources es)" using assms(1) by (simp add: edge_info_ok_def edges_ok_def)
  then show r: "set (edge_resources (without_edge es v)) = set (edge_resources es) - {v}" by (simp add: without_edge_def)
  show k: "edge_view (without_edge es v) f = edge_view es f" if "f \<in> set (edge_resources (without_edge es v))" for f
    using that without_edge_keeps(3) [of f es v] unfolding r edge_view_def by simp
  show "offered (without_edge es v) n = offered es n"
    unfolding offered_def using k r assms(3) by (metis DiffE DiffI insertE singletonD)
qed

lemma with_edge_views:
  assumes "edge_info_ok t" "e \<notin> edge_resources_memb t"
  shows "set (edge_resources (with_edge CT TM t a e)) = insert e (set (edge_resources t))" "edge_view (with_edge CT TM t a e) e = (False, [])"
    "f \<in> set (edge_resources t) \<Longrightarrow> edge_view (with_edge CT TM t a e) f = edge_view t f"
    "offered (with_edge CT TM t a e) n = offered t n"
proof -
  have e: "e \<notin> set (edge_resources t)" by (rule new_edge_not_listed [OF assms])
  show r: "set (edge_resources (with_edge CT TM t a e)) = insert e (set (edge_resources t))" by (simp add: with_edge_def)
  show v: "edge_view (with_edge CT TM t a e) e = (False, [])" by (simp add: edge_view_eq with_edge_fresh caps_of_def)
  show k: "edge_view (with_edge CT TM t a e) f = edge_view t f" if "f \<in> set (edge_resources t)" for f
    using with_edge_keeps(3) [OF that e] by (simp add: edge_view_def)
  show "offered (with_edge CT TM t a e) n = offered t n"
    using k by (simp add: offered_def r v offers_def [of "(False, [])"])
qed

lemma edge_add_views:
  assumes "contiki_ok CT" "views_ok b es" "edge_info_add CT TM es a = Some (r, es')"
  shows "views_ok b es' \<and> offered es' = offered es"
  using assms(1) assms(2) [unfolded views_ok_def, THEN conjunct1]
proof (cases rule: edge_info_add_cases [where a = a and TM = TM, consumes 2])
  case (new e t)
  have ok: "edge_info_ok es" using assms(2) by (simp add: views_ok_def)
  have es': "es' = with_edge CT TM t a e" using new(2) assms(3) by simp
  have t: "views_ok b t \<and> offered t = offered es"
    using new(7)
  proof (elim disjE bexE conjE)
    fix v
    assume v: "v \<in> set (edge_resources es)" "\<not> edge_info_is_active es v" "t = without_edge es v"
    have "\<not> offers (edge_view es v) n" for n using v(2) by (simp add: offers_def edge_view_eq)
    note w = without_edge_views [OF ok v(1) this]
    have "view_ok b (edge_view t f)" if "f \<in> set (edge_resources t)" for f
      using that w(1) w(2) [of f] assms(2) unfolding v(3) views_ok_def by simp
    then show ?thesis using new(3) w(3) unfolding v(3) views_ok_def by blast
  qed (use assms(2) in simp)
  note w = with_edge_views [OF new(3,4), where CT = CT and TM = TM and a = a]
  have "edge_info_ok es'" using with_edge_ok [OF new(3,4,5,6)] es' by simp
  moreover have "view_ok b (edge_view es' f)" if "f \<in> set (edge_resources es')" for f
  proof (cases "f = e")
    case True
    then show ?thesis by (simp add: es' w(2) view_ok_def)
  next
    case False
    then have "f \<in> set (edge_resources t)" using that by (simp add: es' w(1))
    then show ?thesis using t w(3) by (simp add: es' views_ok_def)
  qed
  moreover have "offered es' = offered es" using t w(4) by (simp add: es' fun_eq_iff)
  ultimately show ?thesis by (simp add: views_ok_def)
qed (use assms(2,3) in simp_all)

text \<open>What is offered can only grow, and while \<open>b\<close> it stays the same.\<close>

definition offers_grow :: "bool \<Rightarrow> ('e, 'c) edge_info \<Rightarrow> ('e, 'c) edge_info \<Rightarrow> bool" where
  "offers_grow b es es' \<longleftrightarrow> (\<forall>n. offered es n \<longrightarrow> offered es' n) \<and> (b \<longrightarrow> offered es' = offered es)"

lemma offers_grow_same: "offered es' = offered es \<Longrightarrow> offers_grow b es es'"
  by (simp add: offers_grow_def)

lemma offers_growI: "\<lbrakk>\<And>n. offered es n \<Longrightarrow> offered es' n; \<And>n. b \<Longrightarrow> offered es' n = offered es n\<rbrakk> \<Longrightarrow> offers_grow b es es'"
  by (auto simp: offers_grow_def)

lemma activate_edge_views:
  assumes "views_ok b es" "e \<in> set (edge_resources es)"
  shows "views_ok b (activate_edge e es) \<and> offers_grow b es (activate_edge e es)"
proof (rule conjI)
  have v: "view_ok b (edge_view es e)" using assms by (simp add: views_ok_def)
  then have "view_ok b (True, snd (edge_view es e))" by (simp add: view_ok_def)
  then show "views_ok b (activate_edge e es)"
    using assms by (intro views_cong [OF assms(1)]) (auto simp: views_ok_def activate_edge_view flags_upd)
  show "offers_grow b es (activate_edge e es)"
  proof (rule offers_growI)
    show "offered (activate_edge e es) n" if "offered es n" for n
      using that by (auto simp: offered_def flags_upd activate_edge_view offers_def)
    show "offered (activate_edge e es) n = offered es n" if b for n
      by (rule offered_cong) (use v that in \<open>auto simp: flags_upd activate_edge_view offers_def view_ok_def\<close>)
  qed
qed

subsection \<open>The applications follow the edges\<close>

text \<open>
  The processes have different names, an application is named like its process, its timer runs only when it does, and \<open>R\<close> relates
  its flag \<open>running\<close> with whether an active edge offers its capability; while \<open>b\<close>, its timer runs whenever it does.
\<close>

definition timer_fits :: "bool \<Rightarrow> bool \<Rightarrow> bool \<Rightarrow> bool" where
  "timer_fits b t r \<longleftrightarrow> (t \<longrightarrow> r) \<and> (b \<longrightarrow> r \<longrightarrow> t)"

definition apps_inv :: "bool \<Rightarrow> (string \<Rightarrow> bool \<Rightarrow> bool \<Rightarrow> bool) \<Rightarrow> ('e, 'c, 'k) node \<Rightarrow> bool" where
  "apps_inv b R s \<longleftrightarrow> distinct (map proc_name (processes s)) \<and>
     (\<forall>i<length (processes s). \<forall>k st. app (processes s ! i) = Some (k, st) \<longrightarrow>
        proc_name (processes s ! i) = app_name st \<and> cstr (app_name st) = app_name st \<and>
        (k \<noteq> Routing \<longrightarrow> timer_fits b (timer_set (processes s ! i)) (running st)) \<and>
        R (app_name st) (running st) (offered (ts_edges s) (app_name st)))"

definition in_step :: "bool \<Rightarrow> string \<Rightarrow> bool \<Rightarrow> bool \<Rightarrow> bool" where
  "in_step b n r a \<longleftrightarrow> (r \<longrightarrow> a) \<and> (b \<longrightarrow> a \<longrightarrow> r)"

text \<open>Applications that have not been told yet of a capability that came or of those that went.\<close>

definition ahead :: "bool \<Rightarrow> string \<Rightarrow> string \<Rightarrow> bool \<Rightarrow> bool \<Rightarrow> bool" where
  "ahead b m n r a \<longleftrightarrow> (if n = m then r \<longrightarrow> a else in_step b n r a)"

definition behind :: "bool \<Rightarrow> string set \<Rightarrow> string \<Rightarrow> bool \<Rightarrow> bool \<Rightarrow> bool" where
  "behind b N n r a \<longleftrightarrow> (if n \<in> N then b \<longrightarrow> a \<longrightarrow> r else in_step b n r a)"

lemma apps_inv_mono:
  assumes "apps_inv b R s" "\<And>n r. R n r (offered (ts_edges s) n) \<Longrightarrow> R' n r (offered es n)"
  shows "apps_inv b R' (s\<lparr>ts_edges := es\<rparr>)"
  using assms unfolding apps_inv_def by simp

lemma apps_invD:
  assumes "apps_inv b R s" "i < length (processes s)" "app (processes s ! i) = Some (k, st)"
  shows "proc_name (processes s ! i) = app_name st" "cstr (app_name st) = app_name st"
    "k \<noteq> Routing \<Longrightarrow> timer_fits b (timer_set (processes s ! i)) (running st)" "R (app_name st) (running st) (offered (ts_edges s) (app_name st))"
  using assms unfolding apps_inv_def by blast+

lemma find_process_Some:
  assumes "find_process_with_name ps n = Some i"
  shows "i < length ps" "proc_name (ps ! i) = cstr n"
  using find_SomeD [OF assms [unfolded find_process_with_name_def]] by simp_all

lemma find_process_None: "find_process_with_name ps n = None \<longleftrightarrow> (\<forall>i<length ps. proc_name (ps ! i) \<noteq> cstr n)"
  by (auto simp: find_process_with_name_def find_None_iff_Ball)

text \<open>One process has changed its application, with the name \<open>n\<close>; the others were in order already.\<close>

lemma apps_inv_update:
  assumes inv: "apps_inv b R s" and i: "i < length (processes s)" "proc_name (processes s ! i) = n"
    and p: "proc_name p = n" "\<And>k st. app p = Some (k, st) \<Longrightarrow> app_name st = n \<and> cstr n = n \<and> (k \<noteq> Routing \<longrightarrow> timer_fits b (timer_set p) (running st)) \<and>
      R' n (running st) (offered (ts_edges s) n)"
    and R: "\<And>m r a. m \<noteq> n \<Longrightarrow> R m r a \<Longrightarrow> R' m r a"
  shows "apps_inv b R' (s\<lparr>processes := (processes s)[i := p]\<rparr>)"
proof -
  have names: "map proc_name ((processes s)[i := p]) = map proc_name (processes s)"
    using i p(1) by (metis list_update_id map_update)
  have d: "distinct (map proc_name (processes s))" using inv by (simp add: apps_inv_def)
  have other: "proc_name (processes s ! j) \<noteq> n" if "j < length (processes s)" "j \<noteq> i" for j
    using nth_eq_iff_index_eq [OF d, of j i] that i by auto
  show ?thesis
    unfolding apps_inv_def
  proof (intro conjI allI impI)
    fix j k st
    assume "j < length (processes (s\<lparr>processes := (processes s)[i := p]\<rparr>))"
    then have j: "j < length (processes s)" by simp
    let ?q = "processes (s\<lparr>processes := (processes s)[i := p]\<rparr>) ! j"
    assume st: "app ?q = Some (k, st)"
    have "proc_name ?q = app_name st \<and> cstr (app_name st) = app_name st \<and> (k \<noteq> Routing \<longrightarrow> timer_fits b (timer_set ?q) (running st)) \<and>
        R' (app_name st) (running st) (offered (ts_edges s) (app_name st))"
    proof (cases "j = i")
      case True
      then show ?thesis using p st i(1) by simp
    next
      case False
      then have q: "?q = processes s ! j" using j by simp
      note old = apps_invD [OF inv j st [unfolded q]]
      then have "app_name st \<noteq> n" using other [OF j False] by simp
      then show ?thesis unfolding q using old R by blast
    qed
    then show "proc_name ?q = app_name st" "cstr (app_name st) = app_name st" "k \<noteq> Routing \<Longrightarrow> timer_fits b (timer_set ?q) (running st)"
      "R' (app_name st) (running st) (offered (ts_edges (s\<lparr>processes := (processes s)[i := p]\<rparr>)) (app_name st))" by simp_all
  qed (simp add: names d)
qed

lemma apps_inv_absent:
  assumes "apps_inv b R s" "\<And>i. i < length (processes s) \<Longrightarrow> proc_name (processes s ! i) \<noteq> n" "\<And>m r a. m \<noteq> n \<Longrightarrow> R m r a \<Longrightarrow> R' m r a"
  shows "apps_inv b R' s"
  using assms unfolding apps_inv_def by metis

lemma edge_capability_remove_app:
  assumes "app p = Some (k, st)" "a = edge_info_has_active_capability es (app_name st)"
  shows "edge_capability_remove es e p =
    p\<lparr>app := Some (k, st\<lparr>running := a\<rparr>), timer_set := (if running st \<and> \<not> a \<and> k \<noteq> Routing then False else timer_set p)\<rparr>"
  using assms by (simp add: edge_capability_remove_def app_state_edge_capability_remove_def Let_def)

lemma edge_capability_add_app:
  assumes "app p = Some (k, st)" "a = edge_info_has_active_capability es (app_name st)"
  shows "fst (edge_capability_add K now sent es e (p, ks)) =
    p\<lparr>app := Some (k, st\<lparr>running := a\<rparr>), timer_set := (if \<not> running st \<and> a \<and> k \<noteq> Routing then True else timer_set p)\<rparr>"
  using assms by (simp add: edge_capability_add_def app_state_edge_capability_add_def Let_def)

text \<open>The application has been told.\<close>

lemma apps_inv_told:
  assumes inv: "apps_inv b R s" and i: "i < length (processes s)" and st: "app (processes s ! i) = Some (k, st)"
    and p: "p = (processes s ! i)\<lparr>app := Some (k, st\<lparr>running := offered (ts_edges s) (app_name st)\<rparr>), timer_set := tset\<rparr>"
    and tm: "k \<noteq> Routing \<Longrightarrow> timer_fits b tset (offered (ts_edges s) (app_name st))" and R: "\<And>m r a. m \<noteq> app_name st \<Longrightarrow> R m r a \<Longrightarrow> R' m r a" "\<And>a. R' (app_name st) a a"
  shows "apps_inv b R' (s\<lparr>processes := (processes s)[i := p]\<rparr>)"
proof (rule apps_inv_update [OF inv i apps_invD(1) [OF inv i st]])
  show "proc_name p = app_name st" using apps_invD(1) [OF inv i st] by (simp add: p)
  fix k' st'
  assume "app p = Some (k', st')"
  then have eq: "k' = k" "st' = st\<lparr>running := offered (ts_edges s) (app_name st)\<rparr>" by (simp_all add: p)
  show "app_name st' = app_name st \<and> cstr (app_name st) = app_name st \<and> (k' \<noteq> Routing \<longrightarrow> timer_fits b (timer_set p) (running st')) \<and>
      R' (app_name st) (running st') (offered (ts_edges s) (app_name st))"
    using tm R(2) apps_invD(2) [OF inv i st] by (simp add: eq p)
qed (rule R)

lemma app_has_active:
  assumes "distinct_views (ts_edges s)" "apps_inv b R s" "i < length (processes s)" "app (processes s ! i) = Some (k, st)"
  shows "offered (ts_edges s) (app_name st) = edge_info_has_active_capability (ts_edges s) (app_name st)"
  using has_active_offered [OF assms(1), of "app_name st"] apps_invD(2) [OF assms(2-4)] by simp

lemma behindI: "\<lbrakk>in_step b n r a; a' \<Longrightarrow> a; n \<notin> N \<Longrightarrow> a' = a\<rbrakk> \<Longrightarrow> behind b N n r a'"
  unfolding behind_def in_step_def by (cases a'; cases a; cases r) auto

lemma aheadI: "\<lbrakk>in_step b n r a; a \<Longrightarrow> a'; n \<noteq> m \<Longrightarrow> a' = a\<rbrakk> \<Longrightarrow> ahead b m n r a'"
  by (simp add: ahead_def in_step_def)

lemma timer_removed:
  "\<lbrakk>timer_fits b t r; behind b N n r a; k \<noteq> Routing\<rbrakk> \<Longrightarrow> timer_fits b (if r \<and> \<not> a \<and> k \<noteq> Routing then False else t) a"
  by (cases b; cases r; cases a) (simp_all add: timer_fits_def behind_def in_step_def split: if_splits)

lemma timer_added:
  "\<lbrakk>timer_fits b t r; r \<longrightarrow> a; k \<noteq> Routing\<rbrakk> \<Longrightarrow> timer_fits b (if \<not> r \<and> a \<and> k \<noteq> Routing then True else t) a"
  by (cases r; cases a) (simp_all add: timer_fits_def)

lemma told_relations: "m \<noteq> n \<Longrightarrow> behind b N m r a \<Longrightarrow> behind b (N - {n}) m r a" "behind b (N - {n}) n a a"
  by (simp_all add: behind_def in_step_def)

lemma post_remove_in_step:
  assumes views: "distinct_views (ts_edges s)" and inv: "apps_inv b (behind b N) s" and n: "n = cstr (cap_name (cap_mem (ts_edges s) c))"
  shows "apps_inv b (behind b (N - {n})) (post_remove_to_capability_process c e s)"
proof (cases "find_process_for_capability s c")
  case None
  then have absent: "proc_name (processes s ! i) \<noteq> n" if "i < length (processes s)" for i
    using that by (simp add: find_process_for_capability_def find_process_None n)
  have "apps_inv b (behind b (N - {n})) s" by (rule apps_inv_absent [OF inv absent]) (simp_all only: told_relations not_False_eq_True)
  then show ?thesis using None by (simp add: post_remove_to_capability_process_def)
next
  case (Some i)
  note i = find_process_Some [OF Some [unfolded find_process_for_capability_def], folded n]
  have "apps_inv b (behind b (N - {n})) (s\<lparr>processes := (processes s)[i := edge_capability_remove (ts_edges s) e (processes s ! i)]\<rparr>)"
  proof (cases "app (processes s ! i)")
    case None
    then have same: "edge_capability_remove (ts_edges s) e (processes s ! i) = processes s ! i" by (simp add: edge_capability_remove_def)
    show ?thesis unfolding same by (rule apps_inv_update [OF inv i i(2)]) (simp_all add: None told_relations)
  next
    case (Some a)
    then obtain k st where st: "app (processes s ! i) = Some (k, st)" by (cases a) simp
    have nm: "app_name st = n" using apps_invD(1) [OF inv i(1) st] i(2) by simp
    have "behind b N n (running st) (offered (ts_edges s) n)" using apps_invD(4) [OF inv i(1) st] by (simp only: nm)
    note tm = timer_removed [OF apps_invD(3) [OF inv i(1) st] this]
    note app = edge_capability_remove_app [OF st app_has_active [OF views inv i(1) st]]
    show ?thesis
      by (rule apps_inv_told [OF inv i(1) st app]) (use tm in \<open>simp_all only: nm told_relations not_False_eq_True\<close>)
  qed
  then show ?thesis using Some by (simp add: post_remove_to_capability_process_def)
qed

definition told :: "bool \<Rightarrow> string \<Rightarrow> string \<Rightarrow> bool \<Rightarrow> bool \<Rightarrow> bool" where
  "told b m n r a \<longleftrightarrow> (if n = m then r = a else in_step b n r a)"

lemma told_step: "told b m n r a \<Longrightarrow> in_step b n r a"
  by (auto simp: told_def in_step_def split: if_splits)

lemma ahead_told: "m \<noteq> n \<Longrightarrow> ahead b n m r a \<Longrightarrow> told b n m r a" "told b n n a a"
  by (simp_all add: ahead_def told_def)

lemma post_add_told:
  assumes views: "distinct_views (ts_edges s)" and inv: "apps_inv b (ahead b n) s" and n: "n = cstr (cap_name (cap_mem (ts_edges s) c))"
  shows "apps_inv b (told b n) (post_add_to_capability_process K now sent c e s)"
proof (cases "find_process_for_capability s c")
  case None
  then have absent: "proc_name (processes s ! i) \<noteq> n" if "i < length (processes s)" for i
    using that by (simp add: find_process_for_capability_def find_process_None n)
  have "apps_inv b (told b n) s" by (rule apps_inv_absent [OF inv absent]) (simp_all only: ahead_told not_False_eq_True)
  then show ?thesis using None by (simp add: post_add_to_capability_process_def)
next
  case (Some i)
  note i = find_process_Some [OF Some [unfolded find_process_for_capability_def], folded n]
  let ?r = "edge_capability_add K now sent (ts_edges s) e (processes s ! i, ts_keystore s)"
  have "apps_inv b (told b n) (s\<lparr>processes := (processes s)[i := fst ?r]\<rparr>)"
  proof (cases "app (processes s ! i)")
    case None
    then have same: "fst ?r = processes s ! i" by (simp add: edge_capability_add_def)
    show ?thesis unfolding same by (rule apps_inv_update [OF inv i i(2)]) (simp_all add: None ahead_told)
  next
    case (Some a)
    then obtain k st where st: "app (processes s ! i) = Some (k, st)" by (cases a) simp
    have nm: "app_name st = n" using apps_invD(1) [OF inv i(1) st] i(2) by simp
    have "running st \<longrightarrow> offered (ts_edges s) n" using apps_invD(4) [OF inv i(1) st] by (simp add: nm ahead_def)
    note tm = timer_added [OF apps_invD(3) [OF inv i(1) st] this]
    note app = edge_capability_add_app [OF st app_has_active [OF views inv i(1) st]]
    show ?thesis
      by (rule apps_inv_told [OF inv i(1) st app]) (use tm in \<open>simp_all only: nm ahead_told not_False_eq_True\<close>)
  qed
  then show ?thesis using Some by (simp add: post_add_to_capability_process_def split_def Let_def apps_inv_def)
qed

subsection \<open>Capabilities that come and go\<close>

lemma caps_listed:
  assumes "edge_info_ok es" "e \<in> set (edge_resources es)"
  shows "distinct (caps_of es e)" "set (caps_of es e) \<subseteq> edge_capabilities_memb es"
  using assms by (auto simp: edge_info_ok_def caps_ok_def owned_def)

lemma offers_eq: "offers (edge_view es f) m \<longleftrightarrow> edge_info_is_active es f \<and> (\<exists>d\<in>set (caps_of es f). cstr (cap_name (cap_mem es d)) = m \<and> edge_capability_is_active es d)"
  by (auto simp: offers_def edge_view_eq)

lemma view_okD: "\<lbrakk>views_ok b es; e \<in> set (edge_resources es)\<rbrakk> \<Longrightarrow> view_ok b (edge_view es e)"
  by (simp add: views_ok_def)

lemma views_okD: "views_ok b es \<Longrightarrow> edge_info_ok es"
  by (simp add: views_ok_def)

lemma activate_capability_views:
  assumes "views_ok b es" "e \<in> set (edge_resources es)" "b \<Longrightarrow> edge_info_is_active es e" "c \<in> set (caps_of es e)"
  shows "views_ok b (activate_capability c es)"
    "offered (activate_capability c es) m \<longleftrightarrow> edge_info_is_active es e \<and> m = cstr (cap_name (cap_mem es c)) \<or> offered es m"
proof -
  define n where "n = cstr (cap_name (cap_mem es c))"
  note v = capability_view(1) [OF views_distinct [OF assms(1)] assms(2,4), folded n_def]
  have a: "fst (edge_view es e) = edge_info_is_active es e" and c: "n \<in> fst ` set (snd (edge_view es e))"
    using assms(4) by (auto simp: edge_view_eq n_def image_iff)
  show "views_ok b (activate_capability c es)"
    using set_activity_ok [OF view_okD [OF assms(1,2)], of True n] a assms(3) v assms(1)
    by (intro views_cong [OF assms(1), where e = e and v = "set_activity n True (edge_view es e)"]) (simp_all add: flags_upd views_ok_def)
  have "offers (edge_view (activate_capability c es) f) m \<longleftrightarrow> f = e \<and> m = n \<and> edge_info_is_active es e \<or> offers (edge_view es f) m"
    if f: "f \<in> set (edge_resources es)" for f
  proof (cases "f = e \<and> m = n")
    case True
    then show ?thesis using a c v [OF f] by (force simp: offers_def set_activity_def)
  next
    case False
    then show ?thesis using v [OF f] set_activity_offers [of m n] by (cases "f = e") auto
  qed
  then show "offered (activate_capability c es) m \<longleftrightarrow> edge_info_is_active es e \<and> m = cstr (cap_name (cap_mem es c)) \<or> offered es m"
    using assms(2) unfolding n_def [symmetric] by (auto simp: offered_def flags_upd)
qed

lemma deactivate_capability_views:
  assumes "views_ok b es" "e \<in> set (edge_resources es)" "c \<in> set (caps_of es e)"
  shows "views_ok b (deactivate_capability c es)"
    "m \<noteq> cstr (cap_name (cap_mem es c)) \<Longrightarrow> offered (deactivate_capability c es) m = offered es m"
    "offered (deactivate_capability c es) m \<Longrightarrow> offered es m"
proof -
  define n where "n = cstr (cap_name (cap_mem es c))"
  note v = capability_view(2) [OF views_distinct [OF assms(1)] assms(2,3), folded n_def]
  show "views_ok b (deactivate_capability c es)"
    using set_activity_ok [OF view_okD [OF assms(1,2)], of False n] v assms(1)
    by (intro views_cong [OF assms(1), where e = e and v = "set_activity n False (edge_view es e)"]) (simp_all add: flags_upd views_ok_def)
  have less: "offers (set_activity n False x) m \<Longrightarrow> offers x m" for x m by (auto simp: offers_def set_activity_def split: if_splits)
  then have "offers (edge_view (deactivate_capability c es) f) m \<Longrightarrow> offers (edge_view es f) m" if "f \<in> set (edge_resources es)" for f
    using v [OF that] less [of "edge_view es e"] by (cases "f = e") simp_all
  then show "offered (deactivate_capability c es) m \<Longrightarrow> offered es m"
    by (auto simp: offered_def flags_upd)
  assume "m \<noteq> cstr (cap_name (cap_mem es c))"
  then show "offered (deactivate_capability c es) m = offered es m"
    using v set_activity_offers [of m n] by (intro offered_cong) (auto simp: flags_upd n_def)
qed

lemma with_capability_views:
  fixes TM :: "('e, 'c) tm_inits"
  assumes "views_ok b es" "e \<in> set (edge_resources es)" "edge_info_capability_find es (Some e) name = None" "length (caps_of es e) < NUM_EDGE_CAPABILITIES"
    "c \<notin> edge_capabilities_memb es" "c < NUM_EDGE_RESOURCES * NUM_EDGE_CAPABILITIES" "length (cstr name) \<le> EDGE_CAPABILITY_NAME_LEN"
  defines "es' \<equiv> with_capability TM es e name c"
  shows "views_ok b es'" "offered es' = offered es" "edge_resources es' = edge_resources es" "c \<in> set (caps_of es' e)"
    "cstr (cap_name (cap_mem es' c)) = cstr name" "edge_info_is_active es' = edge_info_is_active es"
proof -
  note ok = views_okD [OF assms(1)]
  show r: "edge_resources es' = edge_resources es" and "c \<in> set (caps_of es' e)" by (simp_all add: es'_def with_capability_def caps_of_def)
  show act: "edge_info_is_active es' = edge_info_is_active es"
    by (simp add: es'_def with_capability_def fun_eq_iff edge_info_is_active_def)
  show nm: "cstr (cap_name (cap_mem es' c)) = cstr name"
    using ok assms(7) by (simp add: es'_def with_capability_def cap_name_strncpy edge_info_ok_def)
  have inact: "\<not> edge_capability_is_active es' c" by (simp add: es'_def with_capability_def edge_capability_is_active_def)
  have fresh: "c \<notin> set (caps_of es f)" if "f \<in> set (edge_resources es)" for f using caps_listed(2) [OF ok that] assms(5) by blast
  have old: "cap_mem es' d = cap_mem es d" if "d \<noteq> c" for d using that by (simp add: es'_def with_capability_def)
  have caps: "caps_of es' f = (if f = e then c # caps_of es e else caps_of es f)" for f by (simp add: es'_def with_capability_def caps_of_def)
  have oldv: "map (\<lambda>c. (cstr (cap_name (cap_mem es' c)), edge_capability_is_active es' c)) (caps_of es f) = snd (edge_view es f)"
    if "f \<in> set (edge_resources es)" for f
  proof -
    have "cap_mem es' d = cap_mem es d" if "d \<in> set (caps_of es f)" for d using old [of d] fresh [OF \<open>f \<in> set (edge_resources es)\<close>] that by metis
    then show ?thesis by (simp add: edge_view_eq edge_capability_is_active_def)
  qed
  have v: "edge_view es' f = ((edge_view es)(e := (fst (edge_view es e), (cstr name, False) # snd (edge_view es e)))) f"
    if "f \<in> set (edge_resources es)" for f
    using oldv [OF that] nm inact by (simp add: edge_view_eq caps act)
  have new: "cstr name \<notin> fst ` set (snd (edge_view es e))"
    using assms(3) by (auto simp: edge_view_eq edge_info_capability_find_def find_None_iff caps_of_def)
  have "view_ok b (fst (edge_view es e), (cstr name, False) # snd (edge_view es e))"
    using new view_okD [OF assms(1,2)] by (simp add: view_ok_def)
  moreover have "edge_info_ok es'" unfolding es'_def by (rule with_capability_ok [OF ok assms(2,4,5,6)])
  ultimately show "views_ok b es'" using v r by (intro views_cong [OF assms(1)])
  have "offered es' m = offered es m" for m by (rule offered_cong [OF r]) (use v in \<open>auto simp: offers_def\<close>)
  then show "offered es' = offered es" by (rule ext)
qed

lemma remove1_inactive: "\<not> a c \<Longrightarrow> (\<exists>d\<in>set (remove1 c cs). f d = n \<and> a d) \<longleftrightarrow> (\<exists>d\<in>set cs. f d = n \<and> a d)"
  by (induction cs) auto

lemma capability_dropped_views:
  assumes "contiki_ok CT" "views_ok b es" "e \<in> set (edge_resources es)" "\<not> edge_capability_is_active es c"
  defines "es' \<equiv> snd (edge_info_capability_remove CT es e c)"
  shows "views_ok b es'" "offered es' = offered es" "edge_resources es' = edge_resources es" "caps_of es' e = remove1 c (caps_of es e)"
    "edge_capability_is_active es' = edge_capability_is_active es" "edge_info_is_active es' = edge_info_is_active es"
proof -
  note ok = views_okD [OF assms(2)]
  note eq = edge_info_capability_remove_eq [OF assms(1) ok assms(3)]
  show r: "edge_resources es' = edge_resources es" and caps: "caps_of es' e = remove1 c (caps_of es e)"
    and act: "edge_capability_is_active es' = edge_capability_is_active es" "edge_info_is_active es' = edge_info_is_active es"
    by (simp_all add: es'_def eq caps_of_def fun_eq_iff edge_capability_is_active_def edge_info_is_active_def)
  have other: "caps_of es' f = caps_of es f" if "f \<noteq> e" for f using that by (simp add: es'_def eq caps_of_def)
  have mem: "cap_mem es' = cap_mem es" by (simp add: es'_def eq)
  let ?nm = "\<lambda>d. cstr (cap_name (cap_mem es d))"
  have v: "edge_view es' f = ((edge_view es)(e := (edge_info_is_active es e, map (\<lambda>d. (?nm d, edge_capability_is_active es d)) (remove1 c (caps_of es e))))) f" for f
    by (simp add: edge_view_eq act mem caps other)
  have sub: "set (remove1 c (caps_of es e)) \<subseteq> set (caps_of es e)" by (rule set_remove1_subset)
  have "distinct (map ?nm (caps_of es e))" using view_okD [OF assms(2,3)] by (simp add: view_ok_def edge_view_eq o_def)
  then have "distinct (map ?nm (remove1 c (caps_of es e)))"
    using sub by (auto simp: distinct_map distinct_remove1 intro: inj_on_subset)
  then have "view_ok b (edge_info_is_active es e, map (\<lambda>d. (?nm d, edge_capability_is_active es d)) (remove1 c (caps_of es e)))"
    using view_okD [OF assms(2,3)] sub by (auto simp: view_ok_def edge_view_eq o_def)
  moreover have "edge_info_ok es'" unfolding es'_def by (rule edge_info_capability_remove_ok [OF assms(1) ok assms(3)])
  ultimately show "views_ok b es'" using v r by (intro views_cong [OF assms(2)])
  have "offers (edge_view es' f) m = offers (edge_view es f) m" for f m
    using remove1_inactive [where a = "edge_capability_is_active es", OF assms(4), of "caps_of es e" ?nm m]
    by (cases "f = e") (simp_all add: offers_eq act mem caps other)
  then have "offered es' m = offered es m" for m by (intro offered_cong [OF r])
  then show "offered es' = offered es" by (rule ext)
qed

lemma capabilities_cleared_views:
  assumes "contiki_ok CT" "views_ok b es" "e \<in> set (edge_resources es)" "\<forall>c\<in>set (caps_of es e). \<not> edge_capability_is_active es c"
  defines "es' \<equiv> edge_info_capability_clear CT es e"
  shows "views_ok b es' \<and> offered es' = offered es \<and> edge_resources es' = edge_resources es \<and> edge_info_is_active es' = edge_info_is_active es"
proof -
  have "\<lbrakk>views_ok b t; edge_resources t = edge_resources es; offered t = offered es; edge_info_is_active t = edge_info_is_active es;
      edge_capability_is_active t = edge_capability_is_active es; \<forall>c\<in>set cs. \<not> edge_capability_is_active es c\<rbrakk> \<Longrightarrow>
      (\<lambda>t. views_ok b t \<and> offered t = offered es \<and> edge_resources t = edge_resources es \<and> edge_info_is_active t = edge_info_is_active es)
        (fold (\<lambda>c s. snd (edge_info_capability_remove CT s e c)) cs t)" for t cs
  proof (induction cs arbitrary: t)
    case (Cons c cs)
    have "e \<in> set (edge_resources t)" "\<not> edge_capability_is_active t c" using Cons.prems assms(3) by simp_all
    note d = capability_dropped_views [OF assms(1) Cons.prems(1) this]
    show ?case using Cons.IH [OF d(1)] Cons.prems d by simp
  qed simp
  from this [of es, OF assms(2)] show ?thesis using assms(4) by (simp add: es'_def edge_info_capability_clear_def caps_of_def)
qed

subsection \<open>The messages keep the applications in step\<close>

definition node_follows :: "bool \<Rightarrow> ('e, 'c, 'k, 'en, 'de) node_env \<Rightarrow> ('e, 'c, 'k) node \<Rightarrow> bool" where
  "node_follows b E s \<longleftrightarrow> node_ok E s \<and> views_ok b (ts_edges s) \<and> apps_inv b (in_step b) s"

abbreviation node_inv :: "('e, 'c, 'k, 'en, 'de) node_env \<Rightarrow> ('e, 'c, 'k) node \<Rightarrow> bool" where
  "node_inv \<equiv> node_follows True"

lemma apps_inv_cong:
  "\<lbrakk>apps_inv b R s; processes s' = processes s; offered (ts_edges s') = offered (ts_edges s)\<rbrakk> \<Longrightarrow> apps_inv b R s'"
  by (simp add: apps_inv_def)

lemma apps_inv_grow:
  assumes "apps_inv b (in_step b) s" "processes s' = processes s" "offers_grow b (ts_edges s) (ts_edges s')"
  shows "apps_inv b (in_step b) s'"
  using assms unfolding apps_inv_def in_step_def offers_grow_def by (metis (full_types))

lemma apps_inv_weaken: "\<lbrakk>apps_inv b R s; \<And>n r a. R n r a \<Longrightarrow> R' n r a\<rbrakk> \<Longrightarrow> apps_inv b R' s"
  unfolding apps_inv_def by blast

lemma node_inv_more_offers:
  assumes "node_follows b E s" "node_ok E s'" "views_ok b (ts_edges s')" "offers_grow b (ts_edges s) (ts_edges s')" "processes s' = processes s"
  shows "node_follows b E s'"
  using assms apps_inv_grow [of b s s'] by (simp add: node_follows_def)

lemma node_inv_same_offers:
  assumes "node_follows b E s" "node_ok E s'" "views_ok b (ts_edges s')" "offered (ts_edges s') = offered (ts_edges s)" "processes s' = processes s"
  shows "node_follows b E s'"
  by (rule node_inv_more_offers [OF assms(1-3) offers_grow_same [OF assms(4)] assms(5)])

text \<open>A call keeps the invariant when it returns at all; that it returns is part of \<open>keeps_ok\<close>.\<close>

lemma process_certificate_inv:
  assumes "contiki_ok (ct E)" "node_follows b E s" "process_certificate E eui c s = Some (v, s')"
  shows "node_follows b E s'"
proof (cases "take EUI64_LENGTH eui \<noteq> take EUI64_LENGTH (subject c) \<or> is_our_eui64 E (subject c)")
  case True
  then show ?thesis using assms(2,3) by (auto simp: process_certificate_def split: if_splits)
next
  case False
  define a where "a = eui64_to_ipaddr (set_iid E) (root_ipaddr (kc E)) (subject c) (local_ip0 E)"
  have inv: "node_ok E s" "views_ok b (ts_edges s)" using assms(2) by (simp_all add: node_follows_def)
  have ok': "node_ok E s'" using process_certificate_ok [OF assms(1) inv(1), of eui c] assms(3) by (simp add: keeps_ok_def)
  obtain r es where add: "edge_info_add (ct E) (tmi E) (ts_edges s) a = Some (r, es)"
    using edge_info_add_returns [OF assms(1) views_okD [OF inv(2)]] by blast
  note es = edge_add_views [OF assms(1) inv(2) add]
  have "e \<in> set (edge_resources es)" if "r = Some e" for e
    using edge_info_add_find [OF assms(1) views_okD [OF inv(2)]] add that find_addr_iff [OF views_okD] es by blast
  then have act: "views_ok b (activate_edge e es) \<and> offers_grow b (ts_edges s) (activate_edge e es)" if "r = Some e" for e
    using activate_edge_views [of b es e] es that by (simp add: offers_grow_def)
  have "processes s' = processes s \<and> ts_edges s' = (case r of None \<Rightarrow> es | Some e \<Rightarrow> activate_edge e es)"
    using assms(3) False add
    by (cases r) (auto simp: process_certificate_def a_def [symmetric] Let_def split_def)
  then show ?thesis
    using node_inv_more_offers [OF assms(2) ok'] es act by (cases r) (simp_all add: offers_grow_same)
qed

lemma embedded_certificate_inv:
  assumes "contiki_ok (ct E)" "node_follows b E s" "embedded_certificate E chunk eui s = Some (v, s')"
  shows "node_follows b E s'"
  using assms process_certificate_inv [OF assms(1,2)]
  by (auto simp: embedded_certificate_def split_def Let_def split: if_splits)

lemma find_or_add_edge_inv:
  assumes "contiki_ok (ct E)" "node_follows b E s" "find_or_add_edge E eui s = Some (r, s')"
    "\<And>e. edge_info_find_eui64 (set_iid E) (root_ipaddr (kc E)) (find_ip0 E) (ts_edges s) eui = Some e \<Longrightarrow> b \<Longrightarrow> edge_info_is_active (ts_edges s) e"
  shows "node_follows b E s' \<and> (\<forall>e. r = Some e \<longrightarrow> e \<in> set (edge_resources (ts_edges s')) \<and> (b \<longrightarrow> edge_info_is_active (ts_edges s') e))"
proof (cases "edge_info_find_eui64 (set_iid E) (root_ipaddr (kc E)) (find_ip0 E) (ts_edges s) eui")
  case (Some e)
  then show ?thesis using assms(2,3) assms(4) [OF Some] find_eui64_listed [OF Some] by (auto simp: find_or_add_edge_def)
next
  case None
  define a where "a = eui64_to_ipaddr (set_iid E) (root_ipaddr (kc E)) eui (local_ip0 E)"
  have inv: "node_ok E s" "views_ok b (ts_edges s)" using assms(2) by (simp_all add: node_follows_def)
  have ok': "node_ok E s'" "\<forall>e. r = Some e \<longrightarrow> e \<in> set (edge_resources (ts_edges s'))"
    using find_or_add_edge_ok [OF assms(1) inv(1), of eui] assms(3) by auto
  obtain q es where add: "edge_info_add (ct E) (tmi E) (ts_edges s) a = Some (q, es)"
    using edge_info_add_returns [OF assms(1) views_okD [OF inv(2)]] by blast
  note es = edge_add_views [OF assms(1) inv(2) add]
  have s': "r = q \<and> processes s' = processes s \<and> ts_edges s' = (case q of None \<Rightarrow> es | Some e \<Rightarrow> activate_edge e es)"
    using assms(3) None add by (cases q) (auto simp: find_or_add_edge_def a_def [symmetric] Let_def)
  show ?thesis
  proof (cases q)
    case None
    then show ?thesis using s' es node_inv_same_offers [OF assms(2) ok'(1)] by simp
  next
    case (Some e)
    then have "e \<in> set (edge_resources es)" using ok'(2) s' by (simp add: flags_upd)
    then show ?thesis
      using s' es ok' activate_edge_views [of b es e] node_inv_more_offers [OF assms(2) ok'(1)] by (simp add: Some offers_grow_def)
  qed
qed

text \<open>A capability of an active edge becomes active and its application learns of it.\<close>

lemma capability_activated_inv:
  assumes "node_follows b E s" "e \<in> set (edge_resources (ts_edges s))" "b \<Longrightarrow> edge_info_is_active (ts_edges s) e" "c \<in> set (caps_of (ts_edges s) e)"
  shows "node_follows b E (post_add_to_capability_process (kc E) now sent c e (s\<lparr>ts_edges := activate_capability c (ts_edges s)\<rparr>))"
    "apps_inv b (told b (cstr (cap_name (cap_mem (ts_edges s) c))))
      (post_add_to_capability_process (kc E) now sent c e (s\<lparr>ts_edges := activate_capability c (ts_edges s)\<rparr>))"
proof -
  have inv: "node_ok E s" "views_ok b (ts_edges s)" "apps_inv b (in_step b) s" using assms(1) by (simp_all add: node_follows_def)
  note v = activate_capability_views [OF inv(2) assms(2-4)]
  have "apps_inv b (ahead b (cstr (cap_name (cap_mem (ts_edges s) c)))) (s\<lparr>ts_edges := activate_capability c (ts_edges s)\<rparr>)"
    by (rule apps_inv_mono [OF inv(3)], erule aheadI) (simp_all add: v(2))
  then have t: "apps_inv b (told b (cstr (cap_name (cap_mem (ts_edges s) c))))
      (post_add_to_capability_process (kc E) now sent c e (s\<lparr>ts_edges := activate_capability c (ts_edges s)\<rparr>))"
    by (rule post_add_told [rotated]) (simp_all add: views_distinct [OF v(1)] flags_upd)
  then show "apps_inv b (told b (cstr (cap_name (cap_mem (ts_edges s) c))))
      (post_add_to_capability_process (kc E) now sent c e (s\<lparr>ts_edges := activate_capability c (ts_edges s)\<rparr>))" .
  show "node_follows b E (post_add_to_capability_process (kc E) now sent c e (s\<lparr>ts_edges := activate_capability c (ts_edges s)\<rparr>))"
    using v(1) inv(1) apps_inv_weaken [OF t told_step] by (simp add: node_follows_def node_ok_def ks_inv_post)
qed

lemma capability_deactivated_inv:
  assumes "node_follows b E s" "e \<in> set (edge_resources (ts_edges s))" "c \<in> set (caps_of (ts_edges s) e)"
  shows "node_follows b E (post_remove_to_capability_process c e (s\<lparr>ts_edges := deactivate_capability c (ts_edges s)\<rparr>))"
proof -
  have inv: "node_ok E s" "views_ok b (ts_edges s)" "apps_inv b (in_step b) s" using assms(1) by (simp_all add: node_follows_def)
  note v = deactivate_capability_views [OF inv(2) assms(2,3)]
  let ?n = "cstr (cap_name (cap_mem (ts_edges s) c))" and ?s = "s\<lparr>ts_edges := deactivate_capability c (ts_edges s)\<rparr>"
  have "apps_inv b (behind b {?n}) ?s"
    by (rule apps_inv_mono [OF inv(3)], erule behindI) (use v(2,3) in \<open>simp_all only: singleton_iff not_False_eq_True\<close>)
  then have "apps_inv b (behind b ({?n} - {?n})) (post_remove_to_capability_process c e ?s)"
    by (rule post_remove_in_step [rotated]) (simp_all add: views_distinct [OF v(1)] flags_upd)
  then have "apps_inv b (in_step b) (post_remove_to_capability_process c e ?s)"
    by (rule apps_inv_weaken) (simp add: behind_def in_step_def)
  then show ?thesis using v(1) inv(1) by (simp add: node_follows_def node_ok_def)
qed

definition name_fits :: "string \<Rightarrow> bool" where
  "name_fits name \<longleftrightarrow> length (cstr name) \<le> EDGE_CAPABILITY_NAME_LEN"

lemma capability_find_listed:
  "edge_info_capability_find es (Some e) name = Some c \<Longrightarrow> c \<in> set (caps_of es e) \<and> cstr (cap_name (cap_mem es c)) = cstr name"
  using find_SomeD by (fastforce simp: edge_info_capability_find_def caps_of_def)

lemma add_capability_inv:
  assumes "contiki_ok (ct E)" "node_follows b E s" "e \<in> set (edge_resources (ts_edges s))" "b \<Longrightarrow> edge_info_is_active (ts_edges s) e" "name_fits name"
  shows "node_follows b E (snd (add_capability E e name s))"
proof (cases "edge_info_capability_find (ts_edges s) (Some e) name")
  case (Some c)
  then show ?thesis
    using assms(2) capability_activated_inv(1) [OF assms(2,3,4)] capability_find_listed [OF Some] by (simp add: add_capability_def)
next
  case None
  have v: "views_ok b (ts_edges s)" using assms(2) by (simp add: node_follows_def)
  show ?thesis
  proof (cases "length (caps_of (ts_edges s) e) < NUM_EDGE_CAPABILITIES")
    case True
    obtain c where c: "edge_info_capability_add (ct E) (tmi E) (ts_edges s) e name = (Some c, with_capability (tmi E) (ts_edges s) e name c)"
        "c \<notin> edge_capabilities_memb (ts_edges s)" "c < NUM_EDGE_RESOURCES * NUM_EDGE_CAPABILITIES"
      using edge_info_capability_add_room [OF assms(1) views_okD [OF v] assms(3) None True] by blast
    note w = with_capability_views [OF v assms(3) None True c(2,3) assms(5) [unfolded name_fits_def], of "tmi E"]
    let ?s = "s\<lparr>ts_edges := with_capability (tmi E) (ts_edges s) e name c\<rparr>"
    have "node_follows b E ?s"
      using node_inv_same_offers [OF assms(2), of ?s] w(1,2) assms(2) by (simp add: node_follows_def node_ok_def views_ok_def)
    from capability_activated_inv(1) [OF this, of e c] show ?thesis
      using assms(3,4) None c(1) w(3,4,6) by (simp add: add_capability_def)
  next
    case False
    then show ?thesis using None assms(2) edge_info_capability_add_full [OF None, of "ct E" "tmi E"] by (simp add: add_capability_def)
  qed
qed

text \<open>Removing an edge that offers nothing.\<close>

lemma edge_dropped_inv:
  assumes "contiki_ok (ct E)" "node_follows b E s" "e \<in> set (edge_resources (ts_edges s))" "\<And>n. \<not> offers (edge_view (ts_edges s) e) n"
    "edge_info_remove (ct E) (ts_edges s) e = Some (gone, es)"
  shows "node_follows b E (s\<lparr>ts_edges := es\<rparr>)"
proof -
  have v: "views_ok b (ts_edges s)" using assms(2) by (simp add: node_follows_def)
  note ok = views_okD [OF v]
  have es: "es = without_edge (ts_edges s) e" using edge_info_remove_present [OF assms(1) ok assms(3)] assms(5) by simp
  note w = without_edge_views [OF ok assms(3,4)]
  have "edge_info_ok es" using without_edge_ok [OF ok assms(3)] by (simp add: es)
  moreover have "view_ok b (edge_view es f)" if "f \<in> set (edge_resources es)" for f
    using that w(1) w(2) [of f] view_okD [OF v, of f] by (simp add: es)
  ultimately have "views_ok b es" by (simp add: views_ok_def)
  moreover have "offered es = offered (ts_edges s)" using w(3) by (simp add: es fun_eq_iff)
  ultimately show ?thesis
    using node_inv_same_offers [OF assms(2), of "s\<lparr>ts_edges := es\<rparr>"] assms(2) by (simp add: node_follows_def node_ok_def views_ok_def)
qed

lemma remove_capability_inv:
  assumes "contiki_ok (ct E)" "node_follows b E s" "e \<in> set (edge_resources (ts_edges s))" "\<not> edge_capability_is_active (ts_edges s) c"
    "remove_capability E e c s = Some (v, s')"
  shows "node_follows b E s'"
proof -
  have views: "views_ok b (ts_edges s)" using assms(2) by (simp add: node_follows_def)
  define u where "u = s\<lparr>ts_edges := snd (edge_info_capability_remove (ct E) (ts_edges s) e c)\<rparr>"
  note d = capability_dropped_views [OF assms(1) views assms(3,4)]
  have u: "node_follows b E u"
    using node_inv_same_offers [OF assms(2), of u] d(1,2) assms(2) by (simp add: u_def node_follows_def node_ok_def views_ok_def)
  have e: "e \<in> set (edge_resources (ts_edges u))" using assms(3) d(3) by (simp add: u_def)
  have "\<not> offers (edge_view (ts_edges u) e) n" if "capabilities (edge_mem (ts_edges u) e) = []" for n
    using that by (simp add: offers_eq caps_of_def)
  then show ?thesis
    using assms(2,5) u edge_dropped_inv [OF assms(1) u e] by (auto simp: remove_capability_def u_def [symmetric] Let_def split: if_splits)
qed

lemma capability_remove_inv:
  assumes "contiki_ok (ct E)" "node_follows b E s" "mqtt_publish_capability_remove_handler E eui name chunk s = Some (v, s')"
  shows "node_follows b E s'"
proof -
  obtain r t where t: "embedded_certificate E chunk eui s = Some (r, t)" using assms(3) by (auto simp: mqtt_publish_capability_remove_handler_def split: option.splits)
  note inv = embedded_certificate_inv [OF assms(1,2) t]
  have "node_follows b E s'"
    if e: "edge_info_find_eui64 (set_iid E) (root_ipaddr (kc E)) (find_ip0 E) (ts_edges t) eui = Some e"
      and c: "edge_info_capability_find (ts_edges t) (Some e) name = Some c"
      and s': "remove_capability E e c (post_remove_to_capability_process c e (t\<lparr>ts_edges := deactivate_capability c (ts_edges t)\<rparr>)) = Some (v, s')" for e c
  proof (rule remove_capability_inv [OF assms(1) _ _ _ s'])
    show "node_follows b E (post_remove_to_capability_process c e (t\<lparr>ts_edges := deactivate_capability c (ts_edges t)\<rparr>))"
      using capability_deactivated_inv [OF inv find_eui64_listed [OF e]] capability_find_listed [OF c] by simp
  qed (use find_eui64_listed [OF e] in \<open>simp_all add: flags_upd\<close>)
  then show ?thesis
    using assms(3) t inv by (auto simp: mqtt_publish_capability_remove_handler_def split: option.splits if_splits)
qed

lemma capability_add_inv:
  assumes "contiki_ok (ct E)" "node_follows b E s" "mqtt_publish_capability_add_handler E eui name chunk s = Some (v, s')" "name_fits name"
    "\<And>t e. \<lbrakk>embedded_certificate E chunk eui s = Some (0, t); edge_info_find_eui64 (set_iid E) (root_ipaddr (kc E)) (find_ip0 E) (ts_edges t) eui = Some e; b\<rbrakk> \<Longrightarrow>
      edge_info_is_active (ts_edges t) e"
  shows "node_follows b E s'"
proof -
  obtain r t where t: "embedded_certificate E chunk eui s = Some (r, t)" using assms(3) by (auto simp: mqtt_publish_capability_add_handler_def split: option.splits)
  note inv = embedded_certificate_inv [OF assms(1,2) t]
  show ?thesis
  proof (cases "r < 0")
    case True
    then show ?thesis using assms(3) t inv by (simp add: mqtt_publish_capability_add_handler_def)
  next
    case False
    then have t: "embedded_certificate E chunk eui s = Some (0, t)"
      using t by (auto simp: embedded_certificate_def split_def Let_def min_def split: if_splits)
    obtain q u where u: "find_or_add_edge E eui t = Some (q, u)"
      using assms(3) t by (auto simp: mqtt_publish_capability_add_handler_def split: option.splits)
    note w = find_or_add_edge_inv [OF assms(1) inv u assms(5) [OF t]]
    show ?thesis
    proof (cases q)
      case None
      then show ?thesis using assms(3) t u w by (simp add: mqtt_publish_capability_add_handler_def)
    next
      case (Some e)
      then have "s' = snd (add_capability E e name u)" using assms(3) t u by (auto simp: mqtt_publish_capability_add_handler_def)
      then show ?thesis using add_capability_inv [OF assms(1), of b u e name] w Some assms(4) by simp
    qed
  qed
qed

subsubsection \<open>Unannouncing an edge\<close>

lemma deactivate_edge_views:
  assumes "views_ok b es" "e \<in> set (edge_resources es)"
  shows "distinct_views (deactivate_edge e es)" "offered (deactivate_edge e es) m \<Longrightarrow> offered es m"
    "m \<notin> (\<lambda>c. cstr (cap_name (cap_mem es c))) ` set (caps_of es e) \<Longrightarrow> offered (deactivate_edge e es) m = offered es m"
proof -
  have "distinct (map fst (snd (edge_view (deactivate_edge e es) f)))" if "f \<in> set (edge_resources es)" for f
    using view_okD [OF assms(1) that] by (cases "f = e") (simp_all add: deactivate_edge_view view_ok_def)
  then show "distinct_views (deactivate_edge e es)" using assms(1) by (simp add: distinct_views_def views_ok_def flags_upd)
  show "offered (deactivate_edge e es) m \<Longrightarrow> offered es m"
    by (auto simp: offered_def deactivate_edge_view flags_upd offers_def split: if_splits)
  assume "m \<notin> (\<lambda>c. cstr (cap_name (cap_mem es c))) ` set (caps_of es e)"
  then show "offered (deactivate_edge e es) m = offered es m"
    by (intro offered_cong) (auto simp: flags_upd deactivate_edge_view offers_def edge_view_eq)
qed

text \<open>The capabilities of an edge that is no longer active: marking them changes no offer, and their applications learn of it one by one.\<close>

lemma deactivate_capabilities_inv:
  assumes "distinct_views (ts_edges s)" "apps_inv b (behind b N) s" "e \<in> set (edge_resources (ts_edges s))" "\<not> edge_info_is_active (ts_edges s) e"
    "set cs \<subseteq> set (caps_of (ts_edges s) e)" "s' = deactivate_capabilities e cs s"
  shows "apps_inv b (behind b (N - (\<lambda>c. cstr (cap_name (cap_mem (ts_edges s) c))) ` set cs)) s' \<and> distinct_views (ts_edges s') \<and>
    offered (ts_edges s') = offered (ts_edges s) \<and> caps_of (ts_edges s') = caps_of (ts_edges s) \<and>
    edge_info_is_active (ts_edges s') = edge_info_is_active (ts_edges s) \<and>
    (\<forall>c. edge_capability_is_active (ts_edges s') c \<longleftrightarrow> c \<notin> set cs \<and> edge_capability_is_active (ts_edges s) c) \<and>
    (\<forall>f\<in>set (edge_resources (ts_edges s)) - {e}. edge_view (ts_edges s') f = edge_view (ts_edges s) f)"
  using assms
proof (induction cs arbitrary: s N)
  case Nil
  then show ?case by (simp add: deactivate_capabilities_def)
next
  case (Cons c cs)
  let ?d = "s\<lparr>ts_edges := deactivate_capability c (ts_edges s)\<rparr>"
  let ?t = "post_remove_to_capability_process c e ?d" and ?n = "cstr (cap_name (cap_mem (ts_edges s) c))"
  have c: "c \<in> set (caps_of (ts_edges s) e)" using Cons.prems(5) by simp
  note v = capability_view(2) [OF Cons.prems(1,3) c]
  have dv: "distinct_views (deactivate_capability c (ts_edges s))"
    using Cons.prems(1) v by (auto simp: distinct_views_def flags_upd set_activity_def o_def split_def)
  have "offers (edge_view (deactivate_capability c (ts_edges s)) f) m = offers (edge_view (ts_edges s) f) m" if "f \<in> set (edge_resources (ts_edges s))" for f m
    using v [OF that] Cons.prems(4) by (cases "f = e") (simp_all add: offers_def set_activity_def edge_view_eq)
  then have off: "offered (deactivate_capability c (ts_edges s)) = offered (ts_edges s)"
    by (intro ext offered_cong) (simp_all add: flags_upd)
  have "apps_inv b (behind b N) ?d" by (rule apps_inv_cong [OF Cons.prems(2)]) (simp_all add: off)
  then have told: "apps_inv b (behind b (N - {?n})) ?t" by (rule post_remove_in_step [rotated]) (simp_all add: dv flags_upd)
  have s': "s' = deactivate_capabilities e cs ?t" using Cons.prems(6) by (simp add: deactivate_capabilities_def)
  note IH = Cons.IH [OF _ told _ _ _ s']
  have fr: "ts_edges ?t = deactivate_capability c (ts_edges s)" by simp
  note IH = IH [unfolded fr flags_upd active_upd off, OF dv Cons.prems(3,4)]
  have other: "edge_view (deactivate_capability c (ts_edges s)) f = edge_view (ts_edges s) f" if "f \<in> set (edge_resources (ts_edges s)) - {e}" for f
    using v [of f] that by simp
  have N: "N - (\<lambda>c. cstr (cap_name (cap_mem (ts_edges s) c))) ` set (c # cs) = N - {?n} - (\<lambda>c. cstr (cap_name (cap_mem (ts_edges s) c))) ` set cs" by auto
  have "set cs \<subseteq> set (caps_of (ts_edges s) e)" using Cons.prems(5) by simp
  from IH [OF this] show ?case unfolding N using other by auto
qed

lemma unannounce_inv:
  assumes "contiki_ok (ct E)" "node_follows b E s" "mqtt_publish_unannounce_handler E chunk eui s = Some (v, s')"
  shows "node_follows b E s'"
proof -
  have "node_follows b E s'" if e: "edge_info_find_eui64 (set_iid E) (root_ipaddr (kc E)) (find_ip0 E) (ts_edges s) eui = Some e"
    and s': "remove_capabilities E e (deactivate_capabilities e (caps_of (ts_edges s) e) (s\<lparr>ts_edges := deactivate_edge e (ts_edges s)\<rparr>)) = Some (v, s')" for e
  proof -
    let ?d = "s\<lparr>ts_edges := deactivate_edge e (ts_edges s)\<rparr>"
    define u where "u = deactivate_capabilities e (caps_of (ts_edges s) e) ?d"
    have inv: "node_ok E s" "views_ok b (ts_edges s)" "apps_inv b (in_step b) s" using assms(2) by (simp_all add: node_follows_def)
    note el = find_eui64_listed [OF e]
    let ?N = "(\<lambda>c. cstr (cap_name (cap_mem (ts_edges s) c))) ` set (caps_of (ts_edges s) e)"
    note dv = deactivate_edge_views [OF inv(2) el]
    have "apps_inv b (behind b ?N) ?d"
      by (rule apps_inv_mono [OF inv(3)], erule behindI) (fact dv(2), fact dv(3))
    from deactivate_capabilities_inv [OF _ this _ _ _ u_def, simplified, unfolded flags_upd]
    have told: "apps_inv b (behind b {}) u" "distinct_views (ts_edges u)" "caps_of (ts_edges u) = caps_of (ts_edges s)"
        "\<And>f. edge_info_is_active (ts_edges u) f \<longleftrightarrow> f \<noteq> e \<and> edge_info_is_active (ts_edges s) f"
        "\<And>c. edge_capability_is_active (ts_edges u) c \<longleftrightarrow> c \<notin> set (caps_of (ts_edges s) e) \<and> edge_capability_is_active (ts_edges s) c"
        "\<And>f. f \<in> set (edge_resources (ts_edges s)) - {e} \<Longrightarrow> edge_view (ts_edges u) f = edge_view (ts_edges s) f"
      using dv(1) el by (simp_all add: deactivate_edge_view)
    have res: "edge_resources (ts_edges u) = edge_resources (ts_edges s)"
      unfolding u_def deactivate_capabilities_frame by (simp add: flags_upd)
    have "view_ok b (edge_view (ts_edges u) f)" if "f \<in> set (edge_resources (ts_edges s))" for f
    proof (cases "f = e")
      case True
      then show ?thesis using told(2) el res by (auto simp: view_ok_def distinct_views_def edge_view_eq told(3,5))
    qed (use told(6) view_okD [OF inv(2) that] that in simp)
    then have views: "views_ok b (ts_edges u)" using told(2) by (simp add: views_ok_def distinct_views_def res)
    have "node_ok E u" unfolding u_def using inv(1) by (intro deactivate_capabilities_ok) (simp add: node_ok_def)
    moreover have "apps_inv b (in_step b) u" by (rule apps_inv_weaken [OF told(1)]) (simp add: behind_def in_step_def)
    ultimately have ninv: "node_follows b E u" using views by (simp add: node_follows_def)
    define w where "w = u\<lparr>ts_edges := edge_info_capability_clear (ct E) (ts_edges u) e\<rparr>"
    have "\<forall>c\<in>set (caps_of (ts_edges u) e). \<not> edge_capability_is_active (ts_edges u) c" by (simp add: told(3,5))
    note cl = capabilities_cleared_views [OF assms(1) views _ this] el
    then have w: "node_follows b E w"
      using node_inv_same_offers [OF ninv, of w] ninv res by (simp add: w_def node_follows_def node_ok_def views_ok_def)
    have "e \<in> set (edge_resources (ts_edges w))" "\<And>n. \<not> offers (edge_view (ts_edges w) e) n"
      using cl res told(4) by (simp_all add: w_def offers_eq)
    from edge_dropped_inv [OF assms(1) w this] show ?thesis
      using s' ninv w by (auto simp: remove_capabilities_def u_def [symmetric] w_def [symmetric] Let_def split: if_splits)
  qed
  then show ?thesis
    using assms(2,3) by (auto simp: mqtt_publish_unannounce_handler_def split_def Let_def caps_of_def flags_upd activation_defs split: if_splits option.splits)
qed

subsection \<open>Runs of a node\<close>

text \<open>
  The publications a node handles, in any order and number.  Between them the clock, the network and the contents of uninitialised buffers may change, so
  every step has its own environment that agrees with \<open>E\<close> on the platform.  The flag tells whether every publication that added a capability so far was
  for an edge that was unknown or active once the certificate in it had been processed; publications of which it is false are part of the run all the same.
\<close>

definition same_platform :: "('e, 'c, 'k, 'en, 'de) node_env \<Rightarrow> ('e, 'c, 'k, 'en, 'de) node_env \<Rightarrow> bool" where
  "same_platform E E' \<longleftrightarrow> ct E' = ct E \<and> nc E' = nc E \<and> kc E' = kc E"

definition add_ready :: "('e, 'c, 'k, 'en, 'de) node_env \<Rightarrow> eui64 \<Rightarrow> u8 list \<Rightarrow> ('e, 'c, 'k) node \<Rightarrow> bool" where
  "add_ready E eui chunk s =
     (case embedded_certificate E chunk eui s of
        None \<Rightarrow> False
      | Some (r, t) \<Rightarrow> r < 0 \<or>
          (case edge_info_find_eui64 (set_iid E) (root_ipaddr (kc E)) (find_ip0 E) (ts_edges t) eui of
             None \<Rightarrow> True | Some e \<Rightarrow> edge_info_is_active (ts_edges t) e))"

text \<open>A topic that adds a capability, and the identity in a topic.\<close>

definition adds_capability :: "string \<Rightarrow> bool" where
  "adds_capability mem \<longleftrightarrow> (\<exists>hex name rest. length hex = MQTT_IDENTITY_LEN \<and>
     mem = MQTT_EDGE_NAMESPACE @ ''/'' @ hex @ ''/'' @ MQTT_EDGE_ACTION_CAPABILITY @ ''/'' @ name @ ''/'' @ MQTT_EDGE_ACTION_CAPABILITY_ADD @ rest)"

definition topic_eui :: "string \<Rightarrow> eui64" where
  "topic_eui mem = snd (eui64_from_strn (drop 1 (drop (length MQTT_EDGE_NAMESPACE) mem)) MQTT_IDENTITY_LEN (replicate EUI64_LENGTH 0))"

definition addition_ready :: "('e, 'c, 'k, 'en, 'de) node_env \<Rightarrow> string \<Rightarrow> u8 list \<Rightarrow> ('e, 'c, 'k) node \<Rightarrow> bool" where
  "addition_ready E mem chunk s \<longleftrightarrow> (adds_capability mem \<longrightarrow> add_ready E (topic_eui mem) chunk s)"

inductive node_run :: "('e, 'c, 'k, 'en, 'de) node_env \<Rightarrow> ('e, 'c, 'k) node \<Rightarrow> bool \<Rightarrow> ('e, 'c, 'k) node \<Rightarrow> bool" for E where
  start: "node_run E s True s"
| publish: "\<lbrakk>node_run E s ready t; same_platform E E'; mqtt_publish_handler E' mem len chunk t = Some u\<rbrakk> \<Longrightarrow>
    node_run E s (ready \<and> addition_ready E' mem chunk t) u"

lemma node_inv_platform: "same_platform E E' \<Longrightarrow> node_follows b E' s = node_follows b E s"
  by (simp add: same_platform_def node_follows_def node_ok_def)

lemma add_readyD:
  assumes "add_ready E eui chunk s" "embedded_certificate E chunk eui s = Some (0, t)"
    "edge_info_find_eui64 (set_iid E) (root_ipaddr (kc E)) (find_ip0 E) (ts_edges t) eui = Some e"
  shows "edge_info_is_active (ts_edges t) e"
  using assms by (simp add: add_ready_def)

lemma starts_with_True: "starts_with lit mem = Some True \<Longrightarrow> mem = lit @ drop (length lit) mem"
  by (induction lit mem rule: starts_with.induct) (auto split: if_splits)

lemma strchr_found: "strchr mem c n = Some (Some k) \<Longrightarrow> n \<le> k \<and> mem = take (k - n) mem @ c # drop (Suc (k - n)) mem"
proof (induction mem arbitrary: n)
  case (Cons d mem)
  show ?case
  proof (cases "d = c \<or> d = NUL")
    case False
    then have "strchr mem c (Suc n) = Some (Some k)" using Cons.prems by simp
    from Cons.IH [OF this] have k: "Suc n \<le> k" "mem = take (k - Suc n) mem @ c # drop (Suc (k - Suc n)) mem" by simp_all
    then obtain j where j: "k - n = Suc j" "k - Suc n = j" by (metis Suc_diff_Suc Suc_le_lessD)
    show ?thesis using k by (simp add: j)
  qed (use Cons.prems in \<open>auto split: if_splits\<close>)
qed simp

lemma xdigits_length: "xdigits n mem = Some True \<Longrightarrow> n \<le> length mem"
  by (induction n mem rule: xdigits.induct) (auto split: if_splits)

text \<open>The only effects a publication can have: those of the handlers for the four actions.\<close>

lemma capability_handler_cases:
  assumes "mqtt_publish_capability_handler E topic chunk eui s = Some (v, u)"
  shows "u = s \<or> (\<exists>name. name_fits name \<and> (\<exists>rest. topic = ''/'' @ name @ ''/'' @ MQTT_EDGE_ACTION_CAPABILITY_ADD @ rest) \<and>
        mqtt_publish_capability_add_handler E eui name chunk s = Some (v, u)) \<or>
      (\<exists>name. mqtt_publish_capability_remove_handler E eui name chunk s = Some (v, u))"
proof (cases "u = s")
  case False
  then obtain k where k: "starts_with ''/'' topic = Some True" "strchr (drop 1 topic) (CHR ''/'') 0 = Some (Some k)" "k \<le> EDGE_CAPABILITY_NAME_LEN"
    using assms by (auto simp: mqtt_publish_capability_handler_def Let_def split: option.splits bool.splits if_splits)
  define name where "name = take k (drop 1 topic)"
  define rest where "rest = drop (Suc k) (drop 1 topic)"
  have topic: "topic = ''/'' @ name @ ''/'' @ rest"
    using starts_with_True [OF k(1)] strchr_found [OF k(2)] by (simp add: name_def rest_def)
  have fits: "name_fits name"
    using k(3) length_takeWhile_le [of "\<lambda>c. c \<noteq> NUL" name] by (simp add: name_fits_def cstr_def name_def)
  have "starts_with MQTT_EDGE_ACTION_CAPABILITY_ADD rest = Some True \<and> mqtt_publish_capability_add_handler E eui name chunk s = Some (v, u) \<or>
      mqtt_publish_capability_remove_handler E eui name chunk s = Some (v, u)"
    using assms False k by (auto simp: mqtt_publish_capability_handler_def Let_def name_def rest_def split: option.splits bool.splits if_splits)
  then show ?thesis using fits topic starts_with_True [of MQTT_EDGE_ACTION_CAPABILITY_ADD rest] by metis
qed simp

lemma publish_cases:
  assumes "mqtt_publish_handler E mem len chunk s = Some u"
  shows "u = s \<or> (\<exists>v. mqtt_publish_announce_handler E chunk (topic_eui mem) s = Some (v, u)) \<or>
    (\<exists>v. mqtt_publish_unannounce_handler E chunk (topic_eui mem) s = Some (v, u)) \<or>
    (\<exists>v name. adds_capability mem \<and> name_fits name \<and> mqtt_publish_capability_add_handler E (topic_eui mem) name chunk s = Some (v, u)) \<or>
    (\<exists>v name. mqtt_publish_capability_remove_handler E (topic_eui mem) name chunk s = Some (v, u))"
proof (cases "u = s")
  case False
  define a where "a = drop 1 (drop (length MQTT_EDGE_NAMESPACE) mem)"
  define c where "c = drop 1 (drop MQTT_IDENTITY_LEN a)"
  have p: "starts_with MQTT_EDGE_NAMESPACE mem = Some True" "starts_with ''/'' (drop (length MQTT_EDGE_NAMESPACE) mem) = Some True"
      "xdigits MQTT_IDENTITY_LEN a = Some True" "starts_with ''/'' (drop MQTT_IDENTITY_LEN a) = Some True"
      "publish_action E c chunk (topic_eui mem) s = Some u"
    using assms False
    by (auto simp: mqtt_publish_handler_def Let_def a_def c_def topic_eui_def split_def split: option.splits bool.splits if_splits)
  have "mem = MQTT_EDGE_NAMESPACE @ ''/'' @ take MQTT_IDENTITY_LEN a @ ''/'' @ c"
    using starts_with_True [OF p(1)] starts_with_True [OF p(2)] starts_with_True [OF p(4)]
    by (metis a_def c_def append_take_drop_id length_Cons list.size(3) One_nat_def)
  moreover have "length (take MQTT_IDENTITY_LEN a) = MQTT_IDENTITY_LEN" using xdigits_length [OF p(3)] by simp
  ultimately have mem: "\<exists>hex. length hex = MQTT_IDENTITY_LEN \<and> mem = MQTT_EDGE_NAMESPACE @ ''/'' @ hex @ ''/'' @ c" by blast
  define d where "d = drop (length MQTT_EDGE_ACTION_CAPABILITY) c"
  have "(\<exists>v. mqtt_publish_announce_handler E chunk (topic_eui mem) s = Some (v, u)) \<or>
      (\<exists>v. mqtt_publish_unannounce_handler E chunk (topic_eui mem) s = Some (v, u)) \<or>
      starts_with MQTT_EDGE_ACTION_CAPABILITY c = Some True \<and> (\<exists>v. mqtt_publish_capability_handler E d chunk (topic_eui mem) s = Some (v, u))"
    using p(5) False by (auto simp: publish_action_def d_def split: option.splits bool.splits)
  moreover have "adds_capability mem" if "c = MQTT_EDGE_ACTION_CAPABILITY @ d" "d = ''/'' @ name @ ''/'' @ MQTT_EDGE_ACTION_CAPABILITY_ADD @ rest" for name rest
    using mem that unfolding adds_capability_def by metis
  ultimately show ?thesis
    using capability_handler_cases starts_with_True [of MQTT_EDGE_ACTION_CAPABILITY c] False unfolding d_def by metis
qed simp

lemma view_ok_mono: "\<lbrakk>view_ok b v; b' \<longrightarrow> b\<rbrakk> \<Longrightarrow> view_ok b' v"
  by (simp add: view_ok_def)

lemma in_step_mono: "\<lbrakk>in_step b n r a; b' \<longrightarrow> b\<rbrakk> \<Longrightarrow> in_step b' n r a"
  by (simp add: in_step_def)

lemma timer_fits_mono: "\<lbrakk>timer_fits b t r; b' \<longrightarrow> b\<rbrakk> \<Longrightarrow> timer_fits b' t r"
  by (simp add: timer_fits_def)

lemma node_follows_mono: "\<lbrakk>node_follows b E s; b' \<longrightarrow> b\<rbrakk> \<Longrightarrow> node_follows b' E s"
  unfolding node_follows_def views_ok_def apps_inv_def
  using view_ok_mono [of b _ b'] in_step_mono [of b _ _ _ b'] timer_fits_mono [of b _ _ b'] by blast

lemma announce_inv:
  assumes "contiki_ok (ct E)" "node_follows b E s" "mqtt_publish_announce_handler E chunk eui s = Some (v, u)"
  shows "node_follows b E u"
  using assms(2,3) process_certificate_inv [OF assms(1,2)]
  by (auto simp: mqtt_publish_announce_handler_def split_def Let_def split: if_splits)

lemma publish_follows:
  assumes "contiki_ok (ct E)" "node_follows b E s" "mqtt_publish_handler E mem len chunk s = Some u"
  shows "node_follows (b \<and> addition_ready E mem chunk s) E u"
proof -
  let ?b = "b \<and> addition_ready E mem chunk s"
  have s: "node_follows ?b E s" by (rule node_follows_mono [OF assms(2)]) simp
  have ready: "edge_info_is_active (ts_edges t) e"
    if "adds_capability mem" "embedded_certificate E chunk (topic_eui mem) s = Some (0, t)"
      "edge_info_find_eui64 (set_iid E) (root_ipaddr (kc E)) (find_ip0 E) (ts_edges t) (topic_eui mem) = Some e" ?b for t e
    using that add_readyD [of E "topic_eui mem" chunk s t e] by (simp add: addition_ready_def)
  show ?thesis
    using publish_cases [OF assms(3)]
  proof (elim disjE exE conjE)
    fix v name
    assume add: "adds_capability mem" "name_fits name" "mqtt_publish_capability_add_handler E (topic_eui mem) name chunk s = Some (v, u)"
    show "node_follows ?b E u" by (rule capability_add_inv [OF assms(1) s add(3,2) ready [OF add(1)]])
  next
    fix v
    assume "mqtt_publish_announce_handler E chunk (topic_eui mem) s = Some (v, u)"
    then show "node_follows ?b E u" by (rule announce_inv [OF assms(1) s])
  next
    fix v
    assume "mqtt_publish_unannounce_handler E chunk (topic_eui mem) s = Some (v, u)"
    then show "node_follows ?b E u" by (rule unannounce_inv [OF assms(1) s])
  next
    fix v name
    assume "mqtt_publish_capability_remove_handler E (topic_eui mem) name chunk s = Some (v, u)"
    then show "node_follows ?b E u" by (rule capability_remove_inv [OF assms(1) s])
  qed (use s in \<open>simp only:\<close>)
qed

lemma node_run_follows:
  assumes "node_run E s ready s'" "contiki_ok (ct E)" "node_follows True E s"
  shows "node_follows ready E s'"
  using assms
proof (induction rule: node_run.induct)
  case (publish s ready t E' mem len chunk u)
  note p = node_inv_platform [OF publish.hyps(2)]
  have E': "contiki_ok (ct E')" "node_follows ready E' t" unfolding p using publish.IH publish.prems publish.hyps(2) by (simp_all add: same_platform_def)
  show ?case using publish_follows [OF E' publish.hyps(3)] unfolding p .
qed

text \<open>A node that knows no edge yet and whose applications are not running.\<close>

definition fresh_node :: "('e, 'c, 'k, 'en, 'de) node_env \<Rightarrow> ('e, 'c, 'k) node \<Rightarrow> bool" where
  "fresh_node E s \<longleftrightarrow> node_ok E s \<and> edge_resources (ts_edges s) = [] \<and> distinct (map proc_name (processes s)) \<and>
     (\<forall>p\<in>set (processes s). \<forall>k st. app p = Some (k, st) \<longrightarrow> proc_name p = app_name st \<and> cstr (app_name st) = app_name st \<and> \<not> running st \<and> \<not> timer_set p)"

lemma fresh_node_inv: "fresh_node E s \<Longrightarrow> node_follows b E s"
  unfolding fresh_node_def node_follows_def views_ok_def node_ok_def apps_inv_def in_step_def timer_fits_def offered_def by (simp add: all_set_conv_all_nth)

lemma running_offered:
  assumes "node_follows b E s" "i < length (processes s)" "app (processes s ! i) = Some (k, st)"
  shows "running st \<Longrightarrow> candidates_of (ts_edges s) (app_name st) \<noteq> []" "b \<Longrightarrow> candidates_of (ts_edges s) (app_name st) \<noteq> [] \<Longrightarrow> running st"
    "k \<noteq> Routing \<Longrightarrow> timer_fits b (timer_set (processes s ! i)) (running st)"
proof -
  have inv: "apps_inv b (in_step b) s" "distinct_views (ts_edges s)" using assms(1) by (auto simp: node_follows_def views_distinct)
  note D = apps_invD [OF inv(1) assms(2,3)]
  have "in_step b (app_name st) (running st) (candidates_of (ts_edges s) (app_name st) \<noteq> [])"
    using D(2,4) candidates_offered [OF inv(2), of "app_name st"] by simp
  then show "running st \<Longrightarrow> candidates_of (ts_edges s) (app_name st) \<noteq> []" "b \<Longrightarrow> candidates_of (ts_edges s) (app_name st) \<noteq> [] \<Longrightarrow> running st"
    by (simp_all add: in_step_def)
  show "k \<noteq> Routing \<Longrightarrow> timer_fits b (timer_set (processes s ! i)) (running st)" by (rule D(3))
qed

subsection \<open>What single messages do\<close>

text \<open>The application of the capability learns whether there is a candidate; there is one when the edge is active.\<close>

lemma add_capability_told:
  assumes "contiki_ok (ct E)" "node_follows b E s" "e \<in> set (edge_resources (ts_edges s))" "b \<Longrightarrow> edge_info_is_active (ts_edges s) e" "name_fits name"
    "add_capability E e name s = (0, s')"
  shows "apps_inv b (told b (cstr name)) s' \<and> (edge_info_is_active (ts_edges s) e \<longrightarrow> offered (ts_edges s') (cstr name))"
proof (cases "edge_info_capability_find (ts_edges s) (Some e) name")
  case (Some c)
  note c = capability_find_listed [OF Some]
  have v: "views_ok b (ts_edges s)" using assms(2) by (simp add: node_follows_def)
  have s': "s' = post_add_to_capability_process (kc E) (clock E) (key_sent E) c e (s\<lparr>ts_edges := activate_capability c (ts_edges s)\<rparr>)"
    using assms(6) Some by (auto simp: add_capability_def split: if_splits)
  show ?thesis
    using capability_activated_inv(2) [OF assms(2-4), of c] c activate_capability_views(2) [OF v assms(3,4), of c "cstr name"]
    unfolding s' by simp
next
  case None
  have v: "views_ok b (ts_edges s)" using assms(2) by (simp add: node_follows_def)
  show ?thesis
  proof (cases "length (caps_of (ts_edges s) e) < NUM_EDGE_CAPABILITIES")
    case True
    obtain c where c: "edge_info_capability_add (ct E) (tmi E) (ts_edges s) e name = (Some c, with_capability (tmi E) (ts_edges s) e name c)"
        "c \<notin> edge_capabilities_memb (ts_edges s)" "c < NUM_EDGE_RESOURCES * NUM_EDGE_CAPABILITIES"
      using edge_info_capability_add_room [OF assms(1) views_okD [OF v] assms(3) None True] by blast
    note w = with_capability_views [OF v assms(3) None True c(2,3) assms(5) [unfolded name_fits_def], of "tmi E"]
    let ?s = "s\<lparr>ts_edges := with_capability (tmi E) (ts_edges s) e name c\<rparr>"
    have f: "node_follows b E ?s"
      using node_inv_same_offers [OF assms(2), of ?s] w(1,2) assms(2) by (simp add: node_follows_def node_ok_def views_ok_def)
    have e: "e \<in> set (edge_resources (ts_edges ?s))" "b \<Longrightarrow> edge_info_is_active (ts_edges ?s) e" "c \<in> set (caps_of (ts_edges ?s) e)"
      using assms(3,4) w(3,4,6) by simp_all
    have s': "s' = post_add_to_capability_process (kc E) (clock E) (key_sent E) c e (?s\<lparr>ts_edges := activate_capability c (ts_edges ?s)\<rparr>)"
      using assms(6) None c(1) by (simp add: add_capability_def)
    show ?thesis
      using capability_activated_inv(2) [OF f e] w(5,6) activate_capability_views(2) [OF _ e, where m = "cstr name"] w(1)
      unfolding s' by simp
  next
    case False
    then show ?thesis using None assms(6) edge_info_capability_add_full [OF None, of "ct E" "tmi E"] by (simp add: add_capability_def)
  qed
qed

lemma find_or_add_edge_active:
  assumes "find_or_add_edge E eui s = Some (Some e, s')"
    "\<And>e. edge_info_find_eui64 (set_iid E) (root_ipaddr (kc E)) (find_ip0 E) (ts_edges s) eui = Some e \<Longrightarrow> edge_info_is_active (ts_edges s) e"
  shows "edge_info_is_active (ts_edges s') e"
  using assms by (auto simp: find_or_add_edge_def Let_def split: option.splits)

lemma capability_add_told:
  assumes "contiki_ok (ct E)" "node_follows False E s" "mqtt_publish_capability_add_handler E eui name chunk s = Some (0, s')" "name_fits name"
  shows "node_follows False E s' \<and> apps_inv False (told False (cstr name)) s' \<and> (add_ready E eui chunk s \<longrightarrow> offered (ts_edges s') (cstr name))"
proof -
  obtain r t where t: "embedded_certificate E chunk eui s = Some (r, t)" "\<not> r < 0"
    using assms(3) by (auto simp: mqtt_publish_capability_add_handler_def split: option.splits if_splits)
  note inv = embedded_certificate_inv [OF assms(1,2) t(1)]
  have t0: "embedded_certificate E chunk eui s = Some (0, t)"
    using t by (auto simp: embedded_certificate_def split_def Let_def min_def split: if_splits)
  obtain e u where u: "find_or_add_edge E eui t = Some (Some e, u)" "add_capability E e name u = (0, s')"
    using assms(3) t0 by (auto simp: mqtt_publish_capability_add_handler_def split: option.splits)
  have w: "node_follows False E u" "e \<in> set (edge_resources (ts_edges u))"
    using find_or_add_edge_inv [OF assms(1) inv u(1)] by simp_all
  have active: "edge_info_is_active (ts_edges u) e" if "add_ready E eui chunk s"
    using add_readyD [OF that t0] by (intro find_or_add_edge_active [OF u(1)]) simp
  have "node_follows False E s'" using capability_add_inv [OF assms(1,2,3,4)] by simp
  then show ?thesis using add_capability_told [OF assms(1) w _ assms(4) u(2)] active by simp
qed

text \<open>No message changes the names or kinds of the processes.\<close>

definition shape :: "process \<Rightarrow> string \<times> (app_kind \<times> string) option" where
  "shape p = (proc_name p, map_option (\<lambda>(k, st). (k, app_name st)) (app p))"

definition shapes :: "('e, 'c, 'k) node \<Rightarrow> (string \<times> (app_kind \<times> string) option) list" where
  "shapes s = map shape (processes s)"

lemma shape_remove [simp]: "shape (edge_capability_remove es e p) = shape p"
  by (auto simp: shape_def edge_capability_remove_def app_state_edge_capability_remove_def Let_def split: option.split)

lemma shape_add [simp]: "shape (fst (edge_capability_add K now sent es e (p, ks))) = shape p"
  by (auto simp: shape_def edge_capability_add_def app_state_edge_capability_add_def Let_def split: option.split)

lemma map_update_same: "f x = f (xs ! i) \<Longrightarrow> map f (xs[i := x]) = map f xs"
  by (metis list_update_beyond list_update_id map_update not_le_imp_less)

lemma shapes_post [simp]:
  "shapes (post_remove_to_capability_process c e s) = shapes s" "shapes (post_add_to_capability_process K now sent c e s) = shapes s"
  by (auto simp: shapes_def post_remove_to_capability_process_def post_add_to_capability_process_def split_def Let_def
      intro!: map_update_same split: option.split)

lemma shapes_frame [simp]: "shapes (s\<lparr>ts_edges := es\<rparr>) = shapes s" "shapes (s\<lparr>ts_keystore := ks\<rparr>) = shapes s" "shapes (s\<lparr>ts_stereotypes := sts\<rparr>) = shapes s"
  "shapes (connect_edge E e s) = shapes s"
  by (simp_all add: shapes_def)

lemma shapes_process_certificate: "process_certificate E eui c s = Some (v, s') \<Longrightarrow> shapes s' = shapes s"
  by (auto simp: process_certificate_def split_def Let_def split: if_splits option.splits)

lemma shapes_embedded: "embedded_certificate E chunk eui s = Some (v, s') \<Longrightarrow> shapes s' = shapes s"
  using shapes_process_certificate by (auto simp: embedded_certificate_def split_def Let_def split: if_splits)

lemma shapes_find_or_add: "find_or_add_edge E eui s = Some (r, s') \<Longrightarrow> shapes s' = shapes s"
  by (auto simp: find_or_add_edge_def Let_def split: option.splits)

lemma shapes_add_capability: "shapes (snd (add_capability E e name s)) = shapes s"
  by (auto simp: add_capability_def Let_def split_def split: option.splits)

lemma shapes_capability_add:
  assumes "mqtt_publish_capability_add_handler E eui name chunk s = Some (v, s')"
  shows "shapes s' = shapes s"
proof -
  obtain r t where t: "embedded_certificate E chunk eui s = Some (r, t)" using assms by (auto simp: mqtt_publish_capability_add_handler_def split: option.splits)
  have "shapes u = shapes t \<Longrightarrow> add_capability E e name u = (v, s') \<Longrightarrow> shapes s' = shapes t" for e u
    using shapes_add_capability [of E e name u] by simp
  then show ?thesis
    using assms t shapes_embedded [OF t]
    by (auto simp: mqtt_publish_capability_add_handler_def dest!: shapes_find_or_add split: option.splits if_splits)
qed

subsection \<open>Properties\<close>

text \<open>A fresh node with one application, and the message with which an edge without certificate offers the capability of that application.\<close>

definition idle_process :: process where
  "idle_process = \<lparr>proc_name = ''envmon'', app = Some (Monitoring, \<lparr>app_name = ''envmon'', app_uri = ''envmon'', running = False,
     out_time = 0, out_len = 0, in_time = 0, in_len = 0\<rparr>), timer_set = False\<rparr>"

definition fresh_example :: "(unit, unit, unit) node" where
  "fresh_example = example_node\<lparr>processes := [idle_process], ts_edges := (one_edge_info () ())
     \<lparr>edge_resources_memb := {}, edge_capabilities_memb := {}, edge_resources := []\<rparr>\<rparr>"

definition add_env :: "(unit, unit, unit, token list, token list \<times> nat option) node_env" where
  "add_env = example_env [TArray 2, TBool False, TNull]"

lemma add_env_ok: "contiki_ok (ct add_env)"
  by (simp add: add_env_def example_env_def)

lemma fresh_example_node: "fresh_node add_env fresh_example"
proof -
  have "edge_info_ok (ts_edges fresh_example)"
    by (simp add: fresh_example_def one_edge_info_def edge_info_ok_def edges_ok_def caps_ok_def names_ok_def owned_def NUM_simps nth_append)
  then have "node_ok add_env fresh_example"
    using example_node_ok by (simp add: node_ok_def add_env_def fresh_example_def)
  then show ?thesis
    by (simp add: fresh_node_def) (simp add: fresh_example_def idle_process_def cstr_def NUL_def)
qed

lemma add_env_ready: "add_ready add_env (replicate 8 1) [1] fresh_example"
  by code_simp

lemma envmon_fits: "name_fits ''envmon''"
  by (simp add: name_fits_def cstr_def NUM_simps)

lemma add_example:
  obtains v u st where "mqtt_publish_capability_add_handler add_env (replicate 8 1) ''envmon'' [1] fresh_example = Some (v, u)"
    "length (processes u) = 1" "app (processes u ! 0) = Some (Monitoring, st)" "app_name st = ''envmon''"
proof -
  have "node_ok add_env fresh_example" using fresh_example_node by (simp add: fresh_node_def)
  then obtain v u where u: "mqtt_publish_capability_add_handler add_env (replicate 8 1) ''envmon'' [1] fresh_example = Some (v, u)"
    using capability_add_ok [OF add_env_ok] by (metis keeps_ok_def)
  have "shapes u = [(''envmon'', Some (Monitoring, ''envmon''))]"
    using shapes_capability_add [OF u] by (simp add: shapes_def shape_def fresh_example_def idle_process_def)
  then have "length (processes u) = 1" "shape (processes u ! 0) = (''envmon'', Some (Monitoring, ''envmon''))"
    by (auto simp: shapes_def map_eq_Cons_conv)
  then show thesis using that u by (auto simp: shape_def)
qed

text \<open>The same message as a publication, and the node after it.\<close>

definition add_topic :: string where
  "add_topic = ''edge/0101010101010101/capability/envmon/add''"

lemma add_topic_handled:
  assumes "\<not> is_our_eui64 E (replicate 8 1)"
  shows "mqtt_publish_handler E (add_topic @ [NUL]) (length add_topic) chunk s =
      map_option snd (mqtt_publish_capability_add_handler E (replicate 8 1) ''envmon'' chunk s)"
    "topic_eui (add_topic @ [NUL]) = replicate 8 1"
proof -
  have "concat (map hex_byte (replicate 8 1)) = ''0101010101010101''" by code_simp
  then have eui: "eui64_from_strn (''0101010101010101'' @ rest) MQTT_IDENTITY_LEN (replicate EUI64_LENGTH 0) = (True, replicate 8 1)" for rest
    using eui64_from_strn_hex_bytes [of "replicate 8 1" rest] by (simp add: EUI64_LENGTH_def)
  show "mqtt_publish_handler E (add_topic @ [NUL]) (length add_topic) chunk s =
      map_option snd (mqtt_publish_capability_add_handler E (replicate 8 1) ''envmon'' chunk s)"
    using assms eui [of "''/capability/envmon/add'' @ [NUL]"]
    by (simp add: mqtt_publish_handler_def publish_action_def mqtt_publish_capability_handler_def add_topic_def topic_defs is_xdigit_def
        EDGE_CAPABILITY_NAME_LEN_def Let_def NUL_def numeral_eq_Suc del: replicate.simps)
  show "topic_eui (add_topic @ [NUL]) = replicate 8 1"
    using eui [of "''/capability/envmon/add'' @ [NUL]"]
    by (simp add: topic_eui_def add_topic_def topic_defs del: replicate.simps)
qed




text \<open>An edge that was not known before gets its first capability when there is a block for it.\<close>

lemma capability_add_new_edge:
  fixes s :: "('e, 'c, 'k) node"
  assumes "contiki_ok (ct E)" "node_inv E s" "embedded_certificate E chunk eui s = Some (0, s)"
    "edge_info_find_eui64 (set_iid E) (root_ipaddr (kc E)) (find_ip0 E) (ts_edges s) eui = None"
    "edge_info_find_addr (ts_edges s) (eui64_to_ipaddr (set_iid E) (root_ipaddr (kc E)) eui (local_ip0 E)) = None"
    "edge_resources_memb (ts_edges s) \<noteq> {..<NUM_EDGE_RESOURCES}"
  shows "\<exists>s'. mqtt_publish_capability_add_handler E eui name chunk s = Some (0, s')"
proof -
  define a where "a = eui64_to_ipaddr (set_iid E) (root_ipaddr (kc E)) eui (local_ip0 E)"
  have ok: "edge_info_ok (ts_edges s)" using assms(2) by (simp add: node_follows_def views_ok_def)
  obtain e t where new: "edge_info_add (ct E) (tmi E) (ts_edges s) a = Some (Some e, with_edge (ct E) (tmi E) t a e)" "edge_info_ok t" "e \<notin> edge_resources_memb t"
      "e < NUM_EDGE_RESOURCES" "edge_info_find_addr t a = None"
    using assms(1) ok by (cases rule: edge_info_add_cases [where a = a and TM = "tmi E", consumes 2]) (use assms(5,6) in \<open>auto simp: a_def\<close>)
  let ?es = "activate_edge e (with_edge (ct E) (tmi E) t a e)"
  have es: "edge_info_ok ?es" using with_edge_ok [OF new(2-5)] by simp
  have fresh: "caps_of ?es e = []" "e \<in> set (edge_resources ?es)"
    by (simp_all add: flags_upd with_edge_fresh caps_of_def) (simp add: with_edge_def)
  obtain u where u: "find_or_add_edge E eui s = Some (Some e, u)" "ts_edges u = ?es"
    using assms(4) new(1) by (simp add: find_or_add_edge_def a_def [symmetric] Let_def)
  have none: "edge_info_capability_find ?es (Some e) name = None" using fresh(1) by (simp add: edge_info_capability_find_def caps_of_def)
  have room: "length (caps_of ?es e) < NUM_EDGE_CAPABILITIES" by (simp add: fresh(1) NUM_simps)
  obtain c where "edge_info_capability_add (ct E) (tmi E) ?es e name = (Some c, with_capability (tmi E) ?es e name c)"
    using edge_info_capability_add_room [OF assms(1) es fresh(2) none room] by blast
  then have "fst (add_capability E e name u) = 0" by (simp add: add_capability_def u(2) none)
  then have "mqtt_publish_capability_add_handler E eui name chunk s = Some (0, snd (add_capability E e name u))"
    using assms(3) u(1) by (simp add: mqtt_publish_capability_add_handler_def) (metis prod.collapse)
  then show ?thesis by blast
qed

lemma add_example_accepted: "\<exists>u. mqtt_publish_capability_add_handler add_env (replicate 8 1) ''envmon'' [1] fresh_example = Some (0, u)"
proof (rule capability_add_new_edge [OF add_env_ok fresh_node_inv [OF fresh_example_node]])
  show "embedded_certificate add_env [1] (replicate 8 1) fresh_example = Some (0, fresh_example)"
    by (simp add: embedded_certificate_def add_env_def example_env_def ref_nanocbor_def ref_get_def has_more_def pass_def)
qed (simp_all add: fresh_example_def one_edge_info_def edge_info_find_eui64_def edge_info_find_addr_def NUM_simps, auto simp: set_eq_iff intro: exI [of _ 0])


subsubsection \<open>Capabilities of an edge that has gone\<close>

lemma announce_known:
  assumes "contiki_ok (ct E)" "node_ok E s" "take EUI64_LENGTH eui = take EUI64_LENGTH (subject c)" "\<not> is_our_eui64 E (subject c)"
    "edge_info_find_addr (ts_edges s) (eui64_to_ipaddr (set_iid E) (root_ipaddr (kc E)) (subject c) (local_ip0 E)) = Some e"
  shows "\<exists>s'. process_certificate E eui c s = Some (0, s') \<and> ts_edges s' = activate_edge e (ts_edges s) \<and> processes s' = processes s"
  using assms(3,4) edge_info_add_known [OF assms(5), of "ct E" "tmi E"] by (simp add: process_certificate_def Let_def split_def)

lemma first_capability_added:
  assumes "contiki_ok (ct E)" "node_inv E s" "e \<in> set (edge_resources (ts_edges s))" "caps_of (ts_edges s) e = []" "name_fits name"
  obtains c es where "add_capability E e name s = (0, post_add_to_capability_process (kc E) (clock E) (key_sent E) c e (s\<lparr>ts_edges := es\<rparr>))"
    "edge_view es e = (edge_info_is_active (ts_edges s) e, [(cstr name, True)])" "cstr (cap_name (cap_mem es c)) = cstr name"
    "\<And>f. f \<in> set (edge_resources (ts_edges s)) - {e} \<Longrightarrow> edge_view es f = edge_view (ts_edges s) f" "edge_resources es = edge_resources (ts_edges s)"
    "\<And>a. edge_info_find_addr es a = edge_info_find_addr (ts_edges s) a" "edge_info_ok es"
proof -
  have v: "views_ok True (ts_edges s)" using assms(2) by (simp add: node_follows_def)
  have none: "edge_info_capability_find (ts_edges s) (Some e) name = None" using assms(4) by (simp add: edge_info_capability_find_def caps_of_def)
  have room: "length (caps_of (ts_edges s) e) < NUM_EDGE_CAPABILITIES" by (simp add: assms(4) NUM_simps)
  obtain c where c: "edge_info_capability_add (ct E) (tmi E) (ts_edges s) e name = (Some c, with_capability (tmi E) (ts_edges s) e name c)"
      "c \<notin> edge_capabilities_memb (ts_edges s)" "c < NUM_EDGE_RESOURCES * NUM_EDGE_CAPABILITIES"
    using edge_info_capability_add_room [OF assms(1) views_okD [OF v] assms(3) none room] by blast
  define es1 where "es1 = with_capability (tmi E) (ts_edges s) e name c"
  note w = with_capability_views [OF v assms(3) none room c(2,3) assms(5) [unfolded name_fits_def], of "tmi E", folded es1_def]
  have caps: "caps_of es1 e = [c]" using assms(4) by (simp add: es1_def with_capability_def caps_of_def)
  have old: "edge_view es1 f = edge_view (ts_edges s) f" if "f \<in> set (edge_resources (ts_edges s)) - {e}" for f
  proof -
    have "c \<notin> set (caps_of (ts_edges s) f)" using caps_listed(2) [OF views_okD [OF v], of f] that c(2) by blast
    then have "cap_mem es1 d = cap_mem (ts_edges s) d" if "d \<in> set (caps_of (ts_edges s) f)" for d
      using that by (auto simp: es1_def with_capability_def)
    moreover have "caps_of es1 f = caps_of (ts_edges s) f" using that by (simp add: es1_def with_capability_def caps_of_def)
    ultimately show ?thesis by (simp add: edge_view_eq w(6) edge_capability_is_active_def)
  qed
  define es where "es = activate_capability c es1"
  note av = capability_view(1) [OF views_distinct [OF w(1)], unfolded w(3), OF assms(3) w(4)]
  show thesis
  proof (rule that [of c es])
    show "add_capability E e name s = (0, post_add_to_capability_process (kc E) (clock E) (key_sent E) c e (s\<lparr>ts_edges := es\<rparr>))"
      by (simp add: add_capability_def none c(1) es_def es1_def)
    show "edge_view es e = (edge_info_is_active (ts_edges s) e, [(cstr name, True)])"
      by (simp add: edge_view_eq es_def flags_upd caps w(5,6))
    show "edge_info_find_addr es a = edge_info_find_addr (ts_edges s) a" for a
      by (simp add: edge_info_find_addr_def es_def flags_upd es1_def with_capability_def) (metis upd_edge_simps)
    show "edge_view es f = edge_view (ts_edges s) f" if "f \<in> set (edge_resources (ts_edges s)) - {e}" for f
      using av [of f] old [OF that] that by (simp add: es_def)
  qed (use w(1,3,5) in \<open>simp_all add: es_def flags_upd views_ok_def\<close>)
qed

lemma shapes_app:
  assumes "shapes s' = shapes s" "i < length (processes s)" "app (processes s ! i) = Some (k, st)"
  obtains st' where "i < length (processes s')" "app (processes s' ! i) = Some (k, st')" "app_name st' = app_name st"
proof -
  have len: "length (processes s') = length (processes s)" using arg_cong [OF assms(1), of length] by (simp add: shapes_def)
  have "shape (processes s' ! i) = shape (processes s ! i)"
    using arg_cong [OF assms(1), of "\<lambda>xs. xs ! i"] assms(2) len by (simp add: shapes_def)
  then show thesis using that assms(2,3) len by (auto simp: shape_def)
qed

text \<open>
  C14: when an edge that was unannounced offers a capability again without sending its certificate, and announces itself afterwards, the node has a candidate for the
  capability but its application stays stopped: the capability is recorded for an edge that is still inactive, and the announcement that activates the edge tells no application.
\<close>

theorem capability_add_inactive_edge_lost:
  assumes "contiki_ok (ct E)" "node_inv E s" "embedded_certificate E chunk eui s = Some (0, s)" "name_fits name"
    "edge_info_find_eui64 (set_iid E) (root_ipaddr (kc E)) (find_ip0 E) (ts_edges s) eui = Some e" "\<not> edge_info_is_active (ts_edges s) e" "caps_of (ts_edges s) e = []"
    "take EUI64_LENGTH eui = take EUI64_LENGTH (subject c)" "\<not> is_our_eui64 E (subject c)"
    "edge_info_find_addr (ts_edges s) (eui64_to_ipaddr (set_iid E) (root_ipaddr (kc E)) (subject c) (local_ip0 E)) = Some e"
    "i < length (processes s)" "app (processes s ! i) = Some (k, st)" "app_name st = cstr name" "\<not> running st"
  shows "\<exists>s' s'' st'. mqtt_publish_capability_add_handler E eui name chunk s = Some (0, s') \<and> process_certificate E eui c s' = Some (0, s'') \<and>
    candidates_of (ts_edges s'') name \<noteq> [] \<and> app (processes s'' ! i) = Some (k, st') \<and> app_name st' = cstr name \<and> \<not> running st'"
proof -
  have inv: "node_ok E s" "views_ok True (ts_edges s)" "apps_inv True (in_step True) s" using assms(2) by (simp_all add: node_follows_def)
  note e = find_eui64_listed [OF assms(5)]
  from first_capability_added [OF assms(1,2) e assms(7,4)]
  obtain d es where add: "add_capability E e name s = (0, post_add_to_capability_process (kc E) (clock E) (key_sent E) d e (s\<lparr>ts_edges := es\<rparr>))"
      "edge_view es e = (False, [(cstr name, True)])" "cstr (cap_name (cap_mem es d)) = cstr name"
      "\<And>f. f \<in> set (edge_resources (ts_edges s)) - {e} \<Longrightarrow> edge_view es f = edge_view (ts_edges s) f" "edge_resources es = edge_resources (ts_edges s)"
      "\<And>a. edge_info_find_addr es a = edge_info_find_addr (ts_edges s) a" "edge_info_ok es"
    using assms(6) by auto
  define s' where "s' = post_add_to_capability_process (kc E) (clock E) (key_sent E) d e (s\<lparr>ts_edges := es\<rparr>)"
  have s': "mqtt_publish_capability_add_handler E eui name chunk s = Some (0, s')" "ts_edges s' = es"
    using assms(3,5) add(1) by (simp_all add: mqtt_publish_capability_add_handler_def find_or_add_edge_def s'_def)
  have "\<not> offers (edge_view (ts_edges s) e) m" for m using assms(7) by (simp add: offers_eq)
  then have "offers (edge_view es f) m = offers (edge_view (ts_edges s) f) m" if "f \<in> set (edge_resources (ts_edges s))" for f m
    using that add(2) add(4) [of f] by (cases "f = e") (simp_all add: offers_def)
  then have off: "offered es = offered (ts_edges s)" by (intro ext offered_cong [OF add(5)])
  have views: "distinct (map fst (snd (edge_view es f)))" if "f \<in> set (edge_resources es)" for f
    using that add(2,5) add(4) [of f] view_okD [OF inv(2), of f] by (cases "f = e") (simp_all add: view_ok_def)
  have "apps_inv True (ahead True (cstr name)) (s\<lparr>ts_edges := es\<rparr>)"
    by (rule apps_inv_mono [OF inv(3)], erule aheadI) (simp_all add: off)
  then have told: "apps_inv True (in_step True) s'"
    unfolding s'_def by (rule apps_inv_weaken [OF post_add_told told_step, rotated]) (use views add(3,7) in \<open>simp_all add: distinct_views_def\<close>)
  obtain st' where st': "i < length (processes s')" "app (processes s' ! i) = Some (k, st')" "app_name st' = app_name st"
    using shapes_app [of s' s i k st] assms(11,12) by (auto simp: s'_def)
  have stopped: "\<not> running st'"
    using apps_invD(4) [OF told st'(1,2)] apps_invD(4) [OF inv(3) assms(11,12)] assms(14) st'(3) by (simp add: in_step_def s'(2) off)
  have "node_ok E s'" using capability_add_ok [OF assms(1) inv(1)] s'(1) by (metis keeps_ok_def option.inject prod.inject)
  then obtain s'' where s'': "process_certificate E eui c s' = Some (0, s'')" "ts_edges s'' = activate_edge e es" "processes s'' = processes s'"
    using announce_known [OF assms(1), of s' eui c e] assms(8-10) s'(2) add(6) by auto
  have "distinct_views (activate_edge e es)"
    using views add(5,7) e by (auto simp: distinct_views_def flags_upd activate_edge_view)
  moreover have "offered (activate_edge e es) (cstr name)"
    using e add(2,5) by (auto simp: offered_def flags_upd activate_edge_view offers_def)
  ultimately have "candidates_of (ts_edges s'') name \<noteq> []" by (simp add: candidates_offered s''(2))
  then show ?thesis using s'(1) s''(1,3) st' stopped assms(13) by auto
qed

definition gone_edge_info :: "ipaddr \<Rightarrow> (unit, unit) edge_info" where
  "gone_edge_info a = (one_edge_info () ())\<lparr>edge_capabilities_memb := {},
     edge_mem := \<lambda>_. \<lparr>ep = \<lparr>ipaddr = a, secure = 0, port = 5683\<rparr>, edge_flags = 0, edge_tm = (), capabilities = []\<rparr>\<rparr>"

definition gone_address :: ipaddr where
  "gone_address = eui64_to_ipaddr (set_iid add_env) (root_ipaddr (kc add_env)) (replicate 8 1) (replicate 16 0)"

definition gone_example :: "(unit, unit, unit) node" where
  "gone_example = fresh_example\<lparr>ts_edges := gone_edge_info gone_address\<rparr>"

lemma gone_example_inv: "node_inv add_env gone_example"
proof -
  have ok: "edge_info_ok (gone_edge_info a)" for a
    by (simp add: gone_edge_info_def one_edge_info_def edge_info_ok_def edges_ok_def caps_ok_def names_ok_def owned_def caps_of_def NUM_simps nth_append)
  have view: "edge_view (gone_edge_info a) e = (False, [])" for a e
    by (simp add: edge_view_eq gone_edge_info_def edge_info_is_active_def caps_of_def)
  have "node_inv add_env fresh_example" by (rule fresh_node_inv [OF fresh_example_node])
  moreover have "offered (gone_edge_info a) = offered (ts_edges fresh_example)" for a
    by (simp add: fun_eq_iff offered_def view offers_def fresh_example_def)
  ultimately show ?thesis
    using ok view by (simp add: node_follows_def gone_example_def node_ok_def views_ok_def view_ok_def apps_inv_def)
qed

theorem capability_add_inactive_edge_lost_witness:
  "\<exists>s' s'' st'. mqtt_publish_capability_add_handler add_env (replicate 8 1) ''envmon'' [1] gone_example = Some (0, s') \<and>
    process_certificate add_env (replicate 8 1) (small_cert\<lparr>subject := replicate 8 1\<rparr>) s' = Some (0, s'') \<and>
    candidates_of (ts_edges s'') ''envmon'' \<noteq> [] \<and> app (processes s'' ! 0) = Some (Monitoring, st') \<and> app_name st' = cstr ''envmon'' \<and> \<not> running st'"
proof (rule capability_add_inactive_edge_lost [OF add_env_ok gone_example_inv _ envmon_fits, where e = 0])
  show "embedded_certificate add_env [1] (replicate 8 1) gone_example = Some (0, gone_example)"
    by (simp add: embedded_certificate_def add_env_def example_env_def ref_nanocbor_def ref_get_def has_more_def pass_def)
  have buf: "find_ip0 add_env = replicate 16 0" "local_ip0 add_env = replicate 16 0" by (simp_all add: add_env_def example_env_def)
  have es: "ts_edges gone_example = gone_edge_info gone_address" by (simp add: gone_example_def)
  show "edge_info_find_eui64 (set_iid add_env) (root_ipaddr (kc add_env)) (find_ip0 add_env) (ts_edges gone_example) (replicate 8 1) = Some 0"
    "edge_info_find_addr (ts_edges gone_example) (eui64_to_ipaddr (set_iid add_env) (root_ipaddr (kc add_env)) (subject (small_cert\<lparr>subject := replicate 8 1\<rparr>)) (local_ip0 add_env)) = Some 0"
    unfolding es edge_info_find_eui64_def buf
    by (simp_all add: edge_info_find_addr_def gone_edge_info_def one_edge_info_def gone_address_def)
qed (simp_all add: gone_example_def gone_edge_info_def edge_info_is_active_def caps_of_def fresh_example_def idle_process_def cstr_def NUL_def
    is_our_eui64_def add_env_def example_env_def EUI64_LENGTH_def, simp_all)

end
