(* ===== verification/Peer_Reports.thy ===== *)
theory Peer_Reports
  imports Peer_Info
begin

text \<open>
  The records on peers as maps.  What a node knows of a peer (\<open>src/wsn/common/trust/peer-info.c\<close>) is, for the edges the peer reported on, their trust records, and for each of these edges the
  records on its capabilities.  The two operations that store a record are updates of these maps, bounded by the peer's share; the representation by lists of blocks is hidden.
\<close>

definition edge_trust :: "('p, 'e, 'c) peer_info \<Rightarrow> addr \<Rightarrow> addr \<rightharpoonup> 'e" where
  "edge_trust s p e = map_option (\<lambda>pe. pe_tm (pedge_mem s pe)) (peer_info_find_edge s p e)"

definition cap_trust :: "('p, 'e, 'c) peer_info \<Rightarrow> addr \<Rightarrow> addr \<Rightarrow> addr \<rightharpoonup> 'c" where
  "cap_trust s p e c = (case peer_info_find_edge s p e of
     None \<Rightarrow> None | Some pe \<Rightarrow> map_option (\<lambda>pc. pc_tm (pcap_mem s pc)) (peer_info_find_capability s pe c))"

lemma dom_find: "{x. List.find (\<lambda>y. f y = x) ys \<noteq> None} = f ` set ys"
  by (auto simp: find_None_iff)

lemma card_edge_trust:
  assumes "peer_info_ok s" "p \<in> set (peers s)"
  shows "card (dom (edge_trust s p)) = length (edges_of s p)"
proof -
  have "dom (edge_trust s p) = (\<lambda>pe. pe_edge (pedge_mem s pe)) ` set (edges_of s p)"
    using dom_find [of "\<lambda>pe. pe_edge (pedge_mem s pe)" "edges_of s p"] by (simp add: dom_def edge_trust_def peer_info_find_edge_def edges_of_def)
  moreover have "inj_on (\<lambda>pe. pe_edge (pedge_mem s pe)) (set (edges_of s p))" "distinct (edges_of s p)"
    using assms by (simp_all add: peer_info_ok_def pedges_ok_def owned_def)
  ultimately show ?thesis by (simp add: card_image distinct_card)
qed

lemma card_cap_trust:
  assumes "peer_info_ok s" "p \<in> set (peers s)" "peer_info_find_edge s p e = Some pe"
  shows "card (dom (cap_trust s p e)) = length (pcaps_of s pe)"
proof -
  have "pe \<in> peer_edges_memb s" using find_edge_iff [OF assms(1,2)] assms(3) peer_blocks(3) [OF assms(1,2)] by blast
  then have "inj_on (\<lambda>pc. pc_cap (pcap_mem s pc)) (set (pcaps_of s pe))" "distinct (pcaps_of s pe)"
    using assms(1) by (simp_all add: peer_info_ok_def pcaps_ok_def owned_def)
  moreover have "dom (cap_trust s p e) = (\<lambda>pc. pc_cap (pcap_mem s pc)) ` set (pcaps_of s pe)"
    using dom_find [of "\<lambda>pc. pc_cap (pcap_mem s pc)" "pcaps_of s pe"] assms(3) by (simp add: dom_def cap_trust_def peer_info_find_capability_def pcaps_of_def)
  ultimately show ?thesis by (simp add: card_image distinct_card)
qed

lemma find_with_pedge:
  assumes "peer_info_ok s" "p \<in> set (peers s)" "pe \<notin> peer_edges_memb s"
  shows "peer_info_find_edge (with_pedge s p e pe) p x = (if x = e then Some pe else peer_info_find_edge s p x)"
proof -
  have "pe \<notin> set (peer_edges (peer_mem s p))" using peer_blocks(3) [OF assms(1,2)] assms(3) by (auto simp: edges_of_def)
  then have "List.find (\<lambda>q. pe_edge (pedge_mem (with_pedge s p e pe) q) = x) (peer_edges (peer_mem s p)) = List.find (\<lambda>q. pe_edge (pedge_mem s q) = x) (peer_edges (peer_mem s p))"
    by (intro find_cong) (auto simp: with_pedge_fields)
  then show ?thesis by (auto simp: peer_info_find_edge_def with_pedge_def)
qed

lemma find_with_pcap:
  assumes "pc \<notin> set (pcaps_of s pe)"
  shows "peer_info_find_capability (with_pcap s pe cap pc) q x = (if q = pe \<and> x = cap then Some pc
    else List.find (\<lambda>y. pc_cap (pcap_mem (with_pcap s pe cap pc) y) = x) (pcaps_of s q))"
  by (auto simp: peer_info_find_capability_def with_pcap_def pcaps_of_def)

lemma owned_same: "\<lbrakk>owned m n E cs used; x \<in> E; y \<in> E; z \<in> set (cs x); z \<in> set (cs y)\<rbrakk> \<Longrightarrow> x = y"
  unfolding owned_def by blast

text \<open>A record for an edge: the maps after \<open>find or allocate\<close>.\<close>

lemma allocated_edge:
  assumes "contiki_ok CT" "peer_info_ok s" "p \<in> set (peers s)" "peer_info_find_edge_or_allocate CT s p e = (Some pe, t)"
  shows "peer_info_ok t \<and> peers t = peers s \<and> peer_info_find_edge t p e = Some pe \<and> (\<forall>x. x \<noteq> e \<longrightarrow> peer_info_find_edge t p x = peer_info_find_edge s p x) \<and>
    cap_trust t p = cap_trust s p \<and> (\<forall>q. q \<noteq> pe \<longrightarrow> pedge_mem t q = pedge_mem s q) \<and> (e \<in> dom (edge_trust s p) \<longrightarrow> t = s)"
  using assms(1-3)
proof (cases rule: find_edge_or_allocate_cases [where edge = e, consumes 3])
  case refused
  then show ?thesis using assms(4) by simp
next
  case (got q u)
  then have u: "q = pe" "u = t" using assms(4) by simp_all
  show ?thesis
    using got(6)
  proof (elim disjE conjE)
    assume "u = s"
    then show ?thesis using got u assms(2) by simp
  next
    assume w: "u = with_pedge s p e q" "peer_info_find_edge s p e = None" "q \<notin> peer_edges_memb s"
    have f: "peer_info_find_edge t p x = (if x = e then Some pe else peer_info_find_edge s p x)" for x
      using find_with_pedge [OF assms(2,3) w(3)] w(1) u by simp
    have "cap_trust t p x c = cap_trust s p x c" for x c
    proof (cases "x = e")
      case True
      then show ?thesis using f [of x] w u by (simp add: cap_trust_def peer_info_find_capability_def with_pedge_def)
    next
      case False
      show ?thesis
      proof (cases "peer_info_find_edge s p x")
        case (Some r)
        then have "r \<in> peer_edges_memb s" using find_edge_iff [OF assms(2,3)] peer_blocks(3) [OF assms(2,3)] by blast
        then have "r \<noteq> q" using w(3) by blast
        then show ?thesis using f [of x] False Some w(1) u by (simp add: cap_trust_def peer_info_find_capability_def with_pedge_def)
      qed (use f [of x] False in \<open>simp add: cap_trust_def\<close>)
    qed
    moreover have "e \<notin> dom (edge_trust s p)" using w(2) by (simp add: edge_trust_def domIff)
    ultimately show ?thesis using got f w(1) u by (auto simp: with_pedge_def fun_eq_iff)
  qed
qed

lemma allocate_refused:
  assumes "contiki_ok CT" "peer_info_ok s" "p \<in> set (peers s)" "peer_info_find_edge_or_allocate CT s p e = (r, t)"
  shows "r = None \<longleftrightarrow> e \<notin> dom (edge_trust s p) \<and> card (dom (edge_trust s p)) = NUM_EDGE_RESOURCES" "r = None \<Longrightarrow> t = s"
proof -
  have "(r = None \<longleftrightarrow> e \<notin> dom (edge_trust s p) \<and> card (dom (edge_trust s p)) = NUM_EDGE_RESOURCES) \<and> (r = None \<longrightarrow> t = s)"
  proof (cases "peer_info_find_edge s p e")
    case None
    then have d: "e \<notin> dom (edge_trust s p)" by (simp add: edge_trust_def domIff)
    have "length (edges_of s p) \<le> NUM_EDGE_RESOURCES" using assms(2,3) by (auto simp: peer_info_ok_def pedges_ok_def owned_def)
    then show ?thesis
      using d find_edge_or_allocate_full [OF None, of CT] find_edge_or_allocate_room [OF assms(1-3) None] assms(4)
      by (cases "length (edges_of s p) < NUM_EDGE_RESOURCES") (auto simp: card_edge_trust [OF assms(2,3)])
  next
    case (Some pe)
    then show ?thesis using assms(4) by (auto simp: peer_info_find_edge_or_allocate_def edge_trust_def domIff)
  qed
  then show "r = None \<longleftrightarrow> e \<notin> dom (edge_trust s p) \<and> card (dom (edge_trust s p)) = NUM_EDGE_RESOURCES" "r = None \<Longrightarrow> t = s" by blast+
qed

text \<open>\<open>peer_info_update_edge\<close> updates the map of edges, unless the edge is new and the share of the peer used up.\<close>

lemma update_edge_map:
  assumes "contiki_ok CT" "peer_info_ok s" "p \<in> set (peers s)" "peer_info_update_edge CT s p e tm = (b, s')"
  shows "peer_info_ok s' \<and> peers s' = peers s \<and> (b \<longleftrightarrow> e \<in> dom (edge_trust s p) \<or> card (dom (edge_trust s p)) \<noteq> NUM_EDGE_RESOURCES) \<and>
    edge_trust s' p = (if b then (edge_trust s p)(e \<mapsto> tm) else edge_trust s p) \<and> cap_trust s' p = cap_trust s p"
proof -
  obtain r t where r: "peer_info_find_edge_or_allocate CT s p e = (r, t)" by fastforce
  note ref = allocate_refused [OF assms(1-3) r]
  show ?thesis
  proof (cases r)
    case None
    then show ?thesis using r ref assms(2,4) by (auto simp: peer_info_update_edge_def)
  next
    case (Some pe)
    then have s': "b" "s' = upd_pedge pe (\<lambda>r. r\<lparr>pe_tm := tm\<rparr>) t" using r assms(4) by (simp_all add: peer_info_update_edge_def)
    note a = allocated_edge [OF assms(1-3) r [unfolded Some]]
    have f: "peer_info_find_edge s' p x = peer_info_find_edge t p x" for x by (rule find_edge_cong) (simp_all add: s'(2))
    have p: "p \<in> set (peers t)" using a assms(3) by simp
    have ne: "q \<noteq> pe" if "peer_info_find_edge t p x = Some q" "x \<noteq> e" for x q
      using that a find_edge_iff [OF conjunct1 [OF a] p] by auto
    have "edge_trust s' p x = ((edge_trust s p)(e \<mapsto> tm)) x" for x
    proof (cases "x = e")
      case True
      then show ?thesis using a by (simp add: edge_trust_def f) (simp add: s'(2))
    next
      case False
      have m: "pe_tm (pedge_mem s' q) = pe_tm (pedge_mem s q)" if "peer_info_find_edge t p x = Some q" for q
      proof -
        have "q \<noteq> pe" "\<forall>q. q \<noteq> pe \<longrightarrow> pedge_mem t q = pedge_mem s q" using ne [OF that False] a by blast+
        then show ?thesis by (simp add: s'(2))
      qed
      have "peer_info_find_edge t p x = peer_info_find_edge s p x" using a False by blast
      then show ?thesis using m False by (cases "peer_info_find_edge s p x") (simp_all add: edge_trust_def f)
    qed
    then have et: "edge_trust s' p = (edge_trust s p)(e \<mapsto> tm)" by (intro ext)
    have "peer_info_find_capability s' q c = peer_info_find_capability t q c" for q c
      by (simp add: s'(2) peer_info_find_capability_def)
    moreover have "pcap_mem s' = pcap_mem t" by (simp add: s'(2))
    ultimately have "cap_trust s' p x c = cap_trust t p x c" for x c by (simp add: cap_trust_def f split: option.split)
    then have "cap_trust s' p = cap_trust t p" by (intro ext)
    then have "cap_trust s' p = cap_trust s p" using a by simp
    moreover have "peer_info_ok s' \<and> peers s' = peers s" using a by (simp add: s'(2) ok_pe_tm)
    ultimately show ?thesis using ref(1) Some s'(1) et by auto
  qed
qed

text \<open>\<open>peer_info_update_capability\<close> for an edge that has a record updates the map of its capabilities, unless the capability is new and the share of the edge used up.\<close>

lemma update_cap_map:
  assumes "contiki_ok CT" "peer_info_ok s" "p \<in> set (peers s)" "e \<in> dom (edge_trust s p)" "peer_info_update_capability CT s p e c tm = (b, s')"
  shows "peer_info_ok s' \<and> peers s' = peers s \<and> (b \<longleftrightarrow> c \<in> dom (cap_trust s p e) \<or> card (dom (cap_trust s p e)) \<noteq> NUM_EDGE_CAPABILITIES) \<and>
    edge_trust s' p = edge_trust s p \<and> cap_trust s' p = (if b then (cap_trust s p)(e := (cap_trust s p e)(c \<mapsto> tm)) else cap_trust s p)"
proof -
  obtain pe where pe: "peer_info_find_edge s p e = Some pe" using assms(4) by (auto simp: edge_trust_def)
  then have al: "peer_info_find_edge_or_allocate CT s p e = (Some pe, s)" by (simp add: peer_info_find_edge_or_allocate_def)
  have mem: "pe \<in> peer_edges_memb s" using find_edge_iff [OF assms(2,3)] pe peer_blocks(3) [OF assms(2,3)] by blast
  have own: "owned NUM_EDGE_CAPABILITIES (NUM_PEERS * NUM_EDGE_RESOURCES * NUM_EDGE_CAPABILITIES) (peer_edges_memb s) (pcaps_of s) (peer_capabilities_memb s)"
    using assms(2) by (simp add: peer_info_ok_def pcaps_ok_def)
  have d: "c \<in> dom (cap_trust s p e) \<longleftrightarrow> peer_info_find_capability s pe c \<noteq> None" by (auto simp: cap_trust_def pe)
  show ?thesis using assms(1,2) mem
  proof (cases rule: find_capability_or_allocate_cases [where cap = c, consumes 3])
    case refused
    then show ?thesis using al assms(2,5) d card_cap_trust [OF assms(2,3) pe] by (auto simp: peer_info_update_capability_def)
  next
    case (got pc t)
    have s': "b" "s' = upd_pcap pc (\<lambda>r. r\<lparr>pc_tm := tm\<rparr>) t" using al got(1) assms(5) by (simp_all add: peer_info_update_capability_def)
    have fe: "peer_info_find_edge s' p x = peer_info_find_edge s p x" for x by (rule find_edge_cong) (simp_all add: s'(2) got(5,6))
    have tm: "pe_tm (pedge_mem s' x) = pe_tm (pedge_mem s x)" for x using got(7) by (auto simp: s'(2) with_pcap_def)
    have fc: "peer_info_find_capability s' q x = peer_info_find_capability t q x" for q x
      unfolding peer_info_find_capability_def by (intro find_cong) (auto simp: s'(2))
    have room: "b \<longleftrightarrow> c \<in> dom (cap_trust s p e) \<or> card (dom (cap_trust s p e)) \<noteq> NUM_EDGE_CAPABILITIES"
    proof (cases "peer_info_find_capability s pe c")
      case None
      have "\<not> NUM_EDGE_CAPABILITIES \<le> length (pcaps_of s pe)" using find_capability_or_allocate_full [OF None, of CT] got(1) by auto
      then show ?thesis using s'(1) card_cap_trust [OF assms(2,3) pe] by simp
    qed (use d s'(1) in simp)
    have other: "peer_info_find_capability t q x = peer_info_find_capability s q x \<and> (\<forall>y. peer_info_find_capability s q x = Some y \<longrightarrow> pc_tm (pcap_mem s' y) = pc_tm (pcap_mem s y))"
      if q: "q \<in> peer_edges_memb s" "q \<noteq> pe \<or> x \<noteq> c" for q x
    proof -
      have sub: "set (pcaps_of s q) \<subseteq> peer_capabilities_memb s" using own q(1) by (auto simp: owned_def)
      have eq: "peer_info_find_capability t q x = peer_info_find_capability s q x"
        using got(7)
      proof (elim disjE conjE)
        assume w: "t = with_pcap s pe c pc" "pc \<notin> peer_capabilities_memb s"
        have "List.find (\<lambda>y. pc_cap (pcap_mem t y) = x) (pcaps_of s q) = List.find (\<lambda>y. pc_cap (pcap_mem s y) = x) (pcaps_of s q)"
          using w sub by (intro find_cong) (auto simp: with_pcap_fields)
        moreover have "pc \<notin> set (pcaps_of s pe)" using w(2) owned_in [OF own mem] by blast
        from find_with_pcap [OF this, of c q x]
        have "peer_info_find_capability t q x = List.find (\<lambda>y. pc_cap (pcap_mem t y) = x) (pcaps_of s q)" unfolding w(1) using q(2) by (subst (asm) if_not_P) blast+
        ultimately show ?thesis by (simp only: peer_info_find_capability_def pcaps_of_def)
      qed simp
      moreover have "y \<noteq> pc" if y: "peer_info_find_capability s q x = Some y" for y
      proof
        assume "y = pc"
        have ty: "peer_info_find_capability t q x = Some pc" using eq y \<open>y = pc\<close> by simp
        have mq: "pc \<in> set (pcaps_of t q)" "pc_cap (pcap_mem t pc) = x" using find_SomeD [OF ty [unfolded peer_info_find_capability_def]] by (auto simp: pcaps_of_def)
        have mp: "pc \<in> set (pcaps_of t pe)" "pc_cap (pcap_mem t pc) = c" using find_SomeD [OF got(3) [unfolded peer_info_find_capability_def]] by (auto simp: pcaps_of_def)
        have "peer_edges_memb t = peer_edges_memb s" using got(7) by (auto simp: with_pcap_fields)
        then have "owned NUM_EDGE_CAPABILITIES (NUM_PEERS * NUM_EDGE_RESOURCES * NUM_EDGE_CAPABILITIES) (peer_edges_memb s) (pcaps_of t) (peer_capabilities_memb t)"
          using got(2) by (simp add: peer_info_ok_def pcaps_ok_def)
        from owned_same [OF this q(1) mem mq(1) mp(1)] have "q = pe" .
        then show False using q(2) mq(2) mp(2) by simp
      qed
      moreover have "pc_tm (pcap_mem s' y) = pc_tm (pcap_mem s y)" if "y \<noteq> pc" for y using got(7) that by (auto simp: s'(2) with_pcap_def)
      ultimately show ?thesis by blast
    qed
    have "cap_trust s' p x y = ((cap_trust s p)(e := (cap_trust s p e)(c \<mapsto> tm))) x y" for x y
    proof (cases "peer_info_find_edge s p x")
      case None
      then show ?thesis using pe by (auto simp: cap_trust_def fe)
    next
      case (Some q)
      have q: "q \<in> peer_edges_memb s" "pe_edge (pedge_mem s q) = x" using find_edge_iff [OF assms(2,3)] Some peer_blocks(3) [OF assms(2,3)] by blast+
      show ?thesis
      proof (cases "x = e \<and> y = c")
        case True
        then show ?thesis using pe got(3) by (simp add: cap_trust_def fe fc) (simp add: s'(2))
      next
        case False
        have "pe_edge (pedge_mem s pe) = e" using find_edge_iff [OF assms(2,3)] pe by blast
        then have "q \<noteq> pe \<or> y \<noteq> c" using False q(2) by auto
        from other [OF q(1) this] show ?thesis
          using False Some by (cases "peer_info_find_capability s q y") (auto simp: cap_trust_def fe fc)
      qed
    qed
    then have "cap_trust s' p = (cap_trust s p)(e := (cap_trust s p e)(c \<mapsto> tm))" by (intro ext)
    moreover have "edge_trust s' p = edge_trust s p" by (rule ext) (simp add: edge_trust_def fe tm)
    ultimately show ?thesis using room s'(1) got(2,4) by (simp add: s'(2) ok_pc_tm)
  qed
qed

text \<open>Without a record for the edge and with the share used up, nothing is stored.\<close>

lemma update_cap_refused:
  assumes "contiki_ok CT" "peer_info_ok s" "p \<in> set (peers s)" "e \<notin> dom (edge_trust s p)" "card (dom (edge_trust s p)) = NUM_EDGE_RESOURCES"
  shows "peer_info_update_capability CT s p e c tm = (False, s)"
proof -
  obtain r t where r: "peer_info_find_edge_or_allocate CT s p e = (r, t)" by fastforce
  then have "r = None" "t = s" using allocate_refused [OF assms(1-3) r] assms(4,5) by simp_all
  then show ?thesis using r by (simp add: peer_info_update_capability_def)
qed

end
