(* ===== verification/Trust_Exchange.thy ===== *)
theory Trust_Exchange
  imports Trust_Common Tm_Basic Peer_Reports
begin

text \<open>
  \<open>src/wsn/common/trust/trust-common.c\<close>, the part that exchanges trust with peers: a node sends what it thinks of the edges it knows, and
  merges what a peer sends into its records on peers.  The functions of the trust model that encode its structures are the record \<open>tm_codec\<close>; \<open>edge_tm0\<close> and
  \<open>cap_tm0\<close> are what the uninitialised structures hold before decoding.  The decoding loops are \<open>partial_function\<close>s, whose result
  \<open>None\<close> is a loop that does not end.
\<close>

record ('p, 'e, 'c, 'en, 'de) tm_codec =
  xct :: contiki
  xnc :: "('en, 'de) nanocbor"
  ser_edge :: "'e \<Rightarrow> 'en \<Rightarrow> int \<times> 'en"
  ser_cap :: "'c \<Rightarrow> 'en \<Rightarrow> int \<times> 'en"
  deser_edge :: "'de \<times> 'e \<Rightarrow> int \<times> 'de \<times> 'e"
  deser_cap :: "'de \<times> 'c \<Rightarrow> int \<times> 'de \<times> 'c"
  ptm_init :: "'p \<Rightarrow> 'p"
  edge_tm0 :: 'e
  cap_tm0 :: 'c

definition serialise_trust_edge_and_capabilities ::
  "('p, 'e, 'c, 'en, 'de) tm_codec \<Rightarrow> ('e, 'c) edge_info \<Rightarrow> addr \<Rightarrow> 'en \<Rightarrow> int \<times> 'en" where
  "serialise_trust_edge_and_capabilities X es e =
     (let caps = capabilities (edge_mem es e) in
      checks ([\<lambda>en. fmt_array (xnc X) en 2, ser_edge X (edge_tm (edge_mem es e)), \<lambda>en. fmt_map (xnc X) en (length caps)] @
        concat (map (\<lambda>c. [\<lambda>en. put_tstr (xnc X) en (cstr (cap_name (cap_mem es c))), ser_cap X (cap_tm (cap_mem es c))]) caps)))"

definition edge_report :: "('p, 'e, 'c, 'en, 'de) tm_codec \<Rightarrow> ('e, 'c) edge_info \<Rightarrow> addr \<Rightarrow> ('en \<Rightarrow> int \<times> 'en) list" where
  "edge_report X es e =
     [\<lambda>en. nanocbor_fmt_ipaddr (xnc X) en (ipaddr (ep (edge_mem es e))), serialise_trust_edge_and_capabilities X es e]"

definition report_header :: "('p, 'e, 'c, 'en, 'de) tm_codec \<Rightarrow> u32 \<Rightarrow> nat \<Rightarrow> ('en \<Rightarrow> int \<times> 'en) list" where
  "report_header X time_secs num_edges =
     [\<lambda>en. fmt_array (xnc X) en 2, \<lambda>en. fmt_uint (xnc X) en (unat time_secs), \<lambda>en. fmt_map (xnc X) en num_edges]"

text \<open>The outer \<open>None\<close> is a failed assertion.\<close>

definition serialise_trust ::
  "('p, 'e, 'c, 'en, 'de) tm_codec \<Rightarrow> ('e, 'c) edge_info \<Rightarrow> u32 \<Rightarrow> ipaddr option \<Rightarrow> nat \<Rightarrow> (int \<times> 'en) option" where
  "serialise_trust X es time_secs addr buffer_len =
     (let num_edges = (if addr = None then edge_info_count es else 1);
          (r, enc) = checks (report_header X time_secs num_edges) (encoder_init (xnc X) buffer_len)
      in if r < 0 then Some (r, enc)
         else case (case addr of
                      None \<Rightarrow> Some (checks (concat (map (edge_report X es) (edge_resources es))) enc)
                    | Some a \<Rightarrow> (case edge_info_find_addr es a of
                        None \<Rightarrow> None | Some e \<Rightarrow> Some (checks (edge_report X es e) enc))) of
           None \<Rightarrow> Some (- 1, enc)
         | Some (r, enc) \<Rightarrow>
             if r < 0 then Some (r, enc)
             else if buffer_len < encoded_len (xnc X) enc then None
             else Some (int (encoded_len (xnc X) enc), enc))"

partial_function (option) capability_loop ::
  "('p, 'e, 'c, 'en, 'de) tm_codec \<Rightarrow> ('e, 'c) edge_info \<Rightarrow> addr \<Rightarrow> addr \<Rightarrow> 'de \<Rightarrow> ('p, 'e, 'c) peer_info \<Rightarrow>
    (int \<times> 'de \<times> ('p, 'e, 'c) peer_info) option" where
  "capability_loop X es peer edge m ps =
     (if at_end (xnc X) m then Some (0, m, ps)
      else let (r, cap_name, m) = get_tstr (xnc X) m in
      if r < 0 then Some (r, m, ps)
      else case (if EDGE_CAPABILITY_NAME_LEN < length cap_name then None else edge_info_capability_find es (Some edge) cap_name) of
        None \<Rightarrow> let (r, m) = skip (xnc X) m in if r < 0 then Some (r, m, ps) else capability_loop X es peer edge m ps
      | Some cap \<Rightarrow>
          let (r, m, tm) = deser_cap X (m, cap_tm0 X) in
          if r < 0 then Some (r, m, ps)
          else capability_loop X es peer edge m (snd (peer_info_update_capability (xct X) ps peer edge cap tm)))"

definition deserialise_trust_edge_and_capabilities ::
  "('p, 'e, 'c, 'en, 'de) tm_codec \<Rightarrow> ('e, 'c) edge_info \<Rightarrow> addr \<Rightarrow> addr \<Rightarrow> 'de \<Rightarrow> ('p, 'e, 'c) peer_info \<Rightarrow>
    (int \<times> 'de \<times> ('p, 'e, 'c) peer_info) option" where
  "deserialise_trust_edge_and_capabilities X es peer edge dec ps =
     (let (r, arr) = enter_array (xnc X) dec in
      if r < 0 then Some (r, dec, ps)
      else let (r, arr, tm) = deser_edge X (arr, edge_tm0 X) in
      if r < 0 then Some (r, dec, ps)
      else let ps = snd (peer_info_update_edge (xct X) ps peer edge tm);
               (r, m) = enter_map (xnc X) arr in
      if r < 0 then Some (r, dec, ps)
      else case capability_loop X es peer edge m ps of
        None \<Rightarrow> None
      | Some (r, m, ps) \<Rightarrow>
          if r < 0 then Some (r, dec, ps)
          else let arr = leave_container (xnc X) arr m in
            if \<not> at_end (xnc X) arr then Some (- 1, dec, ps)
            else Some (0, leave_container (xnc X) dec arr, ps))"

partial_function (option) edge_loop ::
  "('p, 'e, 'c, 'en, 'de) tm_codec \<Rightarrow> ('e, 'c) edge_info \<Rightarrow> addr \<Rightarrow> 'de \<Rightarrow> ('p, 'e, 'c) peer_info \<Rightarrow>
    (int \<times> 'de \<times> ('p, 'e, 'c) peer_info) option" where
  "edge_loop X es peer m ps =
     (if at_end (xnc X) m then Some (0, m, ps)
      else let (r, a, m) = nanocbor_get_ipaddr (xnc X) m in
      if r < 0 then Some (r, m, ps)
      else case edge_info_find_addr es a of
        None \<Rightarrow> let (r, m) = skip (xnc X) m in if r < 0 then Some (r, m, ps) else edge_loop X es peer m ps
      | Some edge \<Rightarrow>
          (case deserialise_trust_edge_and_capabilities X es peer edge m ps of
             None \<Rightarrow> None
           | Some (r, m, ps) \<Rightarrow> if r < 0 then Some (r, m, ps) else edge_loop X es peer m ps))"

definition process_received_trust ::
  "('p, 'e, 'c, 'en, 'de) tm_codec \<Rightarrow> ('e, 'c) edge_info \<Rightarrow> ipaddr \<Rightarrow> u8 list \<Rightarrow> ('p, 'e, 'c) peer_info \<Rightarrow> (int \<times> ('p, 'e, 'c) peer_info) option" where
  "process_received_trust X es src buffer ps =
     (case peer_info_add (xct X) (ptm_init X) ps src of
        (None, ps) \<Rightarrow> Some (- 1, ps)
      | (Some peer, ps) \<Rightarrow>
          let (r, arr) = enter_array (xnc X) (decoder_init (xnc X) buffer) in
          if r < 0 then Some (r, ps)
          else let (r, secs, arr) = get_uint32 (xnc X) arr in
          if r < 0 then Some (r, ps)
          else let ps = upd_peer peer (\<lambda>p. p\<lparr>last_seen := secs\<rparr>) ps;
                   (r, m) = enter_map (xnc X) arr in
          if r < 0 then Some (r, ps)
          else case edge_loop X es peer m ps of
            None \<Rightarrow> None
          | Some (r, m, ps) \<Rightarrow>
              if r < 0 then Some (r, ps)
              else if \<not> at_end (xnc X) m then Some (- 1, ps)
              else if \<not> at_end (xnc X) (leave_container (xnc X) arr m) then Some (- 1, ps)
              else Some (0, ps))"

subsection \<open>A report changes only the records of its sender\<close>

definition peer_reports :: "('p, 'e, 'c) peer_info \<Rightarrow> addr \<Rightarrow> 'p peer \<times> ('e peer_edge \<times> 'c peer_edge_capability list) list" where
  "peer_reports s q = (peer_mem s q, map (\<lambda>pe. (pedge_mem s pe, map (pcap_mem s) (pcaps_of s pe))) (edges_of s q))"

definition only_peer :: "addr \<Rightarrow> ('p, 'e, 'c) peer_info \<Rightarrow> ('p, 'e, 'c) peer_info \<Rightarrow> bool" where
  "only_peer p s s' \<longleftrightarrow> peer_info_ok s' \<and> peers s' = peers s \<and> (\<forall>q\<in>set (peers s) - {p}. peer_reports s' q = peer_reports s q)"

lemma only_peer_refl: "peer_info_ok s \<Longrightarrow> only_peer p s s"
  by (simp add: only_peer_def)

lemma only_peer_trans: "\<lbrakk>only_peer p s t; only_peer p t u\<rbrakk> \<Longrightarrow> only_peer p s u"
  by (simp add: only_peer_def)

lemma only_peer_mem:
  assumes "peer_info_ok s" "peer_info_ok s'" "p \<in> set (peers s)" "peers s' = peers s" "\<And>q. q \<noteq> p \<Longrightarrow> peer_mem s' q = peer_mem s q"
    "\<And>x. \<lbrakk>x \<in> peer_edges_memb s; x \<notin> set (edges_of s p)\<rbrakk> \<Longrightarrow> pedge_mem s' x = pedge_mem s x"
    "\<And>x y. \<lbrakk>x \<in> peer_edges_memb s; x \<notin> set (edges_of s p); y \<in> set (pcaps_of s x)\<rbrakk> \<Longrightarrow> pcap_mem s' y = pcap_mem s y"
  shows "only_peer p s s'"
proof -
  have "peer_reports s' q = peer_reports s q" if q: "q \<in> set (peers s)" "q \<noteq> p" for q
  proof -
    have m: "peer_mem s' q = peer_mem s q" by (rule assms(5) [OF q(2)])
    have "x \<in> peer_edges_memb s" "x \<notin> set (edges_of s p)" if "x \<in> set (edges_of s q)" for x
    proof -
      show "x \<in> peer_edges_memb s" using peer_blocks(3) [OF assms(1) q(1)] that by blast
      show "x \<notin> set (edges_of s p)" using assms(1,3) q that unfolding peer_info_ok_def pedges_ok_def owned_def by blast
    qed
    note x = this
    have "(pedge_mem s' x, map (pcap_mem s') (pcaps_of s' x)) = (pedge_mem s x, map (pcap_mem s) (pcaps_of s x))" if "x \<in> set (edges_of s q)" for x
      using assms(6) [OF x [OF that]] assms(7) [OF x [OF that]] by (simp add: pcaps_of_def)
    then show ?thesis by (simp add: peer_reports_def m edges_of_def)
  qed
  then show ?thesis using assms(2,4) by (simp add: only_peer_def)
qed

lemma find_edge_or_allocate_only:
  assumes "contiki_ok CT" "peer_info_ok s" "p \<in> set (peers s)" "peer_info_find_edge_or_allocate CT s p edge = (r, t)"
  shows "only_peer p s t" "r = Some pe \<Longrightarrow> pe \<in> set (edges_of t p)"
proof -
  have "only_peer p s t \<and> (r = Some pe \<longrightarrow> pe \<in> set (edges_of t p))"
    using assms(1-3)
  proof (cases rule: find_edge_or_allocate_cases [where edge = edge, consumes 3])
    case refused
    then show ?thesis using assms(2,4) by (auto simp: only_peer_def)
  next
    case (got x u)
    then have t: "t = u" "r = Some x" using assms(4) by simp_all
    have "only_peer p s u"
      using got(6)
    proof (elim disjE conjE)
      assume "u = with_pedge s p edge x" "x \<notin> peer_edges_memb s"
      then show ?thesis using got(2,4) assms(2,3) by (intro only_peer_mem) (auto simp: with_pedge_def)
    qed (use assms(2) in \<open>simp add: only_peer_def\<close>)
    then show ?thesis using find_edge_iff [OF got(2), of p edge x] got(3,4) assms(3) t by auto
  qed
  then show "only_peer p s t" "r = Some pe \<Longrightarrow> pe \<in> set (edges_of t p)" by simp_all
qed

lemma peer_tm_only:
  assumes "peer_info_ok t" "p \<in> set (peers t)" "pe \<in> set (edges_of t p)"
  shows "only_peer p t (upd_pedge pe (\<lambda>r. r\<lparr>pe_tm := tm\<rparr>) t)"
  by (rule only_peer_mem [OF assms(1) _ assms(2)]) (use assms in \<open>auto simp: ok_pe_tm\<close>)

lemma update_edge_only:
  assumes "contiki_ok CT" "peer_info_ok s" "p \<in> set (peers s)"
  shows "only_peer p s (snd (peer_info_update_edge CT s p edge tm))"
proof -
  obtain r t where r: "peer_info_find_edge_or_allocate CT s p edge = (r, t)" by fastforce
  note o = find_edge_or_allocate_only [OF assms r]
  then have t: "peer_info_ok t" "p \<in> set (peers t)" using assms(3) by (simp_all add: only_peer_def)
  show ?thesis
  proof (cases r)
    case None
    then show ?thesis using r o(1) by (simp add: peer_info_update_edge_def)
  next
    case (Some pe)
    then show ?thesis using r only_peer_trans [OF o(1) peer_tm_only [OF t o(2)]] by (simp add: peer_info_update_edge_def)
  qed
qed

lemma capability_only:
  assumes "contiki_ok CT" "peer_info_ok t" "p \<in> set (peers t)" "pe \<in> set (edges_of t p)"
    "peer_info_find_capability_or_allocate CT t pe cap = (r, u)"
  shows "only_peer p t u" "r = Some pc \<Longrightarrow> only_peer p u (upd_pcap pc (\<lambda>r. r\<lparr>pc_tm := tm\<rparr>) u)"
proof -
  have mem: "pe \<in> peer_edges_memb t" using peer_blocks(3) [OF assms(2,3)] assms(4) by blast
  have own: "y \<noteq> z" if "peer_info_ok v" "y \<in> set (pcaps_of v x)" "z \<in> set (pcaps_of v pe)" "x \<in> peer_edges_memb v" "x \<noteq> pe" "pe \<in> peer_edges_memb v" for v x y z
    using that unfolding peer_info_ok_def pcaps_ok_def owned_def by blast
  have caps: "set (pcaps_of t x) \<subseteq> peer_capabilities_memb t" if "x \<in> peer_edges_memb t" for x
    using assms(2) that unfolding peer_info_ok_def pcaps_ok_def owned_def by blast
  have "only_peer p t u \<and> (r = Some pc \<longrightarrow> only_peer p u (upd_pcap pc (\<lambda>r. r\<lparr>pc_tm := tm\<rparr>) u))"
    using assms(1,2) mem
  proof (cases rule: find_capability_or_allocate_cases [where cap = cap, consumes 3])
    case refused
    then show ?thesis using assms(2,5) by (auto simp: only_peer_def)
  next
    case (got z v)
    then have u: "u = v" "r = Some z" using assms(5) by simp_all
    have one: "only_peer p t v"
      using got(7)
    proof (elim disjE conjE)
      assume "v = with_pcap t pe cap z" "z \<notin> peer_capabilities_memb t"
      then show ?thesis
        using got(2,4) assms(2-4) caps by (intro only_peer_mem) (auto simp: with_pcap_def)
    qed (use assms(2) in \<open>simp add: only_peer_def\<close>)
    have edges: "edges_of v p = edges_of t p" "peer_edges_memb v = peer_edges_memb t"
      using got(7) by (auto simp: with_pcap_lists with_pcap_fields)
    have z: "z \<in> set (pcaps_of v pe)" using got(3) find_SomeD unfolding peer_info_find_capability_def pcaps_of_def by fast
    have "only_peer p v (upd_pcap z (\<lambda>r. r\<lparr>pc_tm := tm\<rparr>) v)"
    proof (rule only_peer_mem [OF got(2)])
      show "pcap_mem (upd_pcap z (\<lambda>r. r\<lparr>pc_tm := tm\<rparr>) v) y = pcap_mem v y"
        if "x \<in> peer_edges_memb v" "x \<notin> set (edges_of v p)" "y \<in> set (pcaps_of v x)" for x y
        using own [OF got(2) that(3) z that(1)] that(2) mem assms(4) edges by auto
    qed (use got(2,4) assms(3) in \<open>simp_all add: ok_pc_tm\<close>)
    then show ?thesis using one u by auto
  qed
  then show "only_peer p t u" "r = Some pc \<Longrightarrow> only_peer p u (upd_pcap pc (\<lambda>r. r\<lparr>pc_tm := tm\<rparr>) u)" by simp_all
qed

lemma update_capability_only:
  assumes "contiki_ok CT" "peer_info_ok s" "p \<in> set (peers s)"
  shows "only_peer p s (snd (peer_info_update_capability CT s p edge cap tm))"
proof -
  obtain r t where r: "peer_info_find_edge_or_allocate CT s p edge = (r, t)" by fastforce
  note o = find_edge_or_allocate_only [OF assms r]
  then have t: "peer_info_ok t" "p \<in> set (peers t)" using assms(3) by (simp_all add: only_peer_def)
  show ?thesis
  proof (cases r)
    case None
    then show ?thesis using r o(1) by (simp add: peer_info_update_capability_def)
  next
    case (Some pe)
    obtain q u where q: "peer_info_find_capability_or_allocate CT t pe cap = (q, u)" by fastforce
    note c = capability_only [OF assms(1) t o(2) [OF Some] q]
    show ?thesis using r q Some only_peer_trans [OF o(1) c(1)] only_peer_trans [OF only_peer_trans [OF o(1) c(1)] c(2)]
      by (cases q) (simp_all add: peer_info_update_capability_def)
  qed
qed

subsection \<open>Reading a report ends and keeps the records in order\<close>

text \<open>A reader that succeeds has not moved back.\<close>

definition consumes :: "'de view \<Rightarrow> ('de \<times> 'x \<Rightarrow> int \<times> 'de \<times> 'x) \<Rightarrow> bool" where
  "consumes view f \<longleftrightarrow> (\<forall>de x r de' x'. f (de, x) = (r, de', x') \<longrightarrow> 0 \<le> r \<longrightarrow> length (fst (view de')) \<le> length (fst (view de)))"

lemma get_law_consumes:
  assumes "get_law view get val" "get de = (r, v, de')" "0 \<le> r"
  shows "length (fst (view de')) < length (fst (view de))"
proof -
  obtain ts left where v: "view de = (ts, left)" by fastforce
  show ?thesis
  proof (cases ts)
    case Nil
    then show ?thesis using assms v unfolding get_law_def by (auto dest!: spec [of _ de])
  next
    case (Cons t us)
    then have "view de' = (us, pass left)" using assms v unfolding get_law_def by (auto dest!: spec [of _ de] split: if_splits)
    then show ?thesis using v Cons by simp
  qed
qed

lemma consumes_into:
  assumes "get_law view get val"
  shows "consumes view (into get put)"
  unfolding consumes_def into_def
proof (intro allI impI)
  fix de x r de' x'
  assume i: "(case (de, x) of (de, x) \<Rightarrow> let (r, v, de') = get de in (r, de', if r < 0 then x else put v x)) = (r, de', x')" "0 \<le> r"
  obtain q v d where g: "get de = (q, v, d)" by (metis prod.collapse)
  then show "length (fst (view de')) \<le> length (fst (view de))"
    using i get_law_consumes [OF assms g] by simp
qed

lemma consumes_Nil: "consumes view (checks [])"
  by (simp add: consumes_def)

lemma consumes_Cons:
  assumes "consumes view f" "consumes view (checks fs)"
  shows "consumes view (checks (f # fs))"
  unfolding consumes_def
proof (intro allI impI)
  fix de x r de' x'
  assume c: "checks (f # fs) (de, x) = (r, de', x')" "0 \<le> r"
  obtain q d y where q: "f (de, x) = (q, d, y)" by (metis prod.collapse)
  then have "0 \<le> q" "checks fs (d, y) = (r, de', x')" using c by (auto split: if_splits)
  then show "length (fst (view de')) \<le> length (fst (view de))"
    using q c(2) assms unfolding consumes_def by (meson le_trans)
qed

lemma consumes_on_field: "consumes view f \<Longrightarrow> consumes view (on_field get put f)"
  unfolding consumes_def on_field_def by (fastforce split: prod.splits)

lemma enter_law:
  assumes "nanocbor_ok written view NC"
  shows "\<lbrakk>enter_array NC de = (r, a); 0 \<le> r\<rbrakk> \<Longrightarrow> length (fst (view a)) < length (fst (view de))"
    "\<lbrakk>enter_map NC de = (r, a); 0 \<le> r\<rbrakk> \<Longrightarrow> length (fst (view a)) < length (fst (view de))"
    "\<lbrakk>skip NC de = (r, a); 0 \<le> r\<rbrakk> \<Longrightarrow> length (fst (view a)) < length (fst (view de))"
    "fst (view (leave_container NC de a)) = fst (view a)"
proof -
  obtain ts left where v: "view de = (ts, left)" by fastforce
  have ok: "array_law view NC" "map_law view NC" using assms by (simp_all add: nanocbor_ok_def)
  show "\<lbrakk>enter_array NC de = (r, a); 0 \<le> r\<rbrakk> \<Longrightarrow> length (fst (view a)) < length (fst (view de))"
    using ok(1) [unfolded array_law_def, THEN conjunct1, rule_format, of de] v
    by (cases ts; cases "hd ts") (auto split: if_splits)
  show "\<lbrakk>enter_map NC de = (r, a); 0 \<le> r\<rbrakk> \<Longrightarrow> length (fst (view a)) < length (fst (view de))"
    using ok(2) [unfolded map_law_def, THEN conjunct1, rule_format, of de] v
    by (cases ts; cases "hd ts") (auto split: if_splits)
  have skip_shorter: "skip_items k us = Some ws \<Longrightarrow> length ws \<le> length us \<and> (0 < k \<longrightarrow> length ws < length us)" for k us ws
    by (induction k us rule: skip_items.induct) fastforce+
  show "\<lbrakk>skip NC de = (r, a); 0 \<le> r\<rbrakk> \<Longrightarrow> length (fst (view a)) < length (fst (view de))"
    using ok(2) skip_shorter [of 1 ts] v unfolding map_law_def by (auto dest!: spec [of _ de])
  show "fst (view (leave_container NC de a)) = fst (view a)" using ok(1) by (simp add: array_law_def)
qed

lemma consumes_in_array:
  assumes "nanocbor_ok written view NC" "consumes view body"
  shows "consumes view (in_array NC body)"
  unfolding consumes_def
proof (intro allI impI)
  fix de x r de' x'
  assume i: "in_array NC body (de, x) = (r, de', x')" "0 \<le> r"
  obtain q a where e: "enter_array NC de = (q, a)" by fastforce
  obtain w b y where b: "body (a, x) = (w, b, y)" by (metis prod.collapse)
  have neg: "err_end NC < 0" using assms(1) by (simp add: nanocbor_ok_def)
  have "0 \<le> q" "0 \<le> w" "de' = leave_container NC de b"
    using i e b neg by (auto simp: in_array_def split: if_splits)
  then show "length (fst (view de')) \<le> length (fst (view de))"
    using enter_law(1) [OF assms(1) e] enter_law(4) [OF assms(1), of de b] b assms(2) unfolding consumes_def by fastforce
qed

lemma ok_last_seen: "peer_info_ok (upd_peer p (\<lambda>r. r\<lparr>last_seen := w\<rparr>) s) = peer_info_ok s"
proof -
  let ?s = "upd_peer p (\<lambda>r. r\<lparr>last_seen := w\<rparr>) s"
  have "edges_of ?s = edges_of s" "pcaps_of ?s = pcaps_of s" by (auto simp: edges_of_def pcaps_of_def)
  moreover have "(\<lambda>q. peer_addr (peer_mem ?s q)) = (\<lambda>q. peer_addr (peer_mem s q))" by auto
  ultimately show ?thesis by (simp add: peer_info_ok_def peers_ok_def pedges_ok_def pcaps_ok_def)
qed

text \<open>What the exchange relies on: the platform, the encoder and decoder, and a trust model that reads back what it writes.\<close>

locale trust_codec =
  fixes written :: "'en \<Rightarrow> token list" and view :: "'de view" and X :: "('p, 'e, 'c, 'en, 'de) tm_codec"
    and edge_tokens :: "'e \<Rightarrow> token list" and cap_tokens :: "'c \<Rightarrow> token list"
  assumes contiki: "contiki_ok (xct X)" and nc: "nanocbor_ok written view (xnc X)"
    and emits_edge: "emits written (ser_edge X tm) (edge_tokens tm)" and emits_cap: "emits written (ser_cap X ctm) (cap_tokens ctm)"
    and reads_edge: "reads view (deser_edge X) (edge_tokens tm) 1 tm0 tm" and reads_cap: "reads view (deser_cap X) (cap_tokens ctm) 1 ctm0 ctm"
    and consumes_edge: "consumes view (deser_edge X)" and consumes_cap: "consumes view (deser_cap X)"
begin

definition tokens_left :: "'de \<Rightarrow> nat" where
  "tokens_left de = length (fst (view de))"

lemma get_shorter:
  "\<lbrakk>get_tstr (xnc X) m = (r, nm, m'); 0 \<le> r\<rbrakk> \<Longrightarrow> tokens_left m' < tokens_left m"
  "\<lbrakk>nanocbor_get_ipaddr (xnc X) m = (r, a, m'); 0 \<le> r\<rbrakk> \<Longrightarrow> tokens_left m' < tokens_left m"
  "\<lbrakk>get_uint32 (xnc X) m = (r, w, m'); 0 \<le> r\<rbrakk> \<Longrightarrow> tokens_left m' < tokens_left m"
proof -
  have g: "get_law view (get_tstr (xnc X)) tstr_val" "get_law view (get_bstr (xnc X)) bstr_val" "get_law view (get_uint32 (xnc X)) uint_val"
    using nc by (simp_all add: nanocbor_ok_def)
  show "\<lbrakk>get_tstr (xnc X) m = (r, nm, m'); 0 \<le> r\<rbrakk> \<Longrightarrow> tokens_left m' < tokens_left m"
    unfolding tokens_left_def by (rule get_law_consumes [OF g(1)])
  show "\<lbrakk>get_uint32 (xnc X) m = (r, w, m'); 0 \<le> r\<rbrakk> \<Longrightarrow> tokens_left m' < tokens_left m"
    unfolding tokens_left_def by (rule get_law_consumes [OF g(3)])
  obtain q b d where b: "get_bstr (xnc X) m = (q, b, d)" by (metis prod.collapse)
  show "\<lbrakk>nanocbor_get_ipaddr (xnc X) m = (r, a, m'); 0 \<le> r\<rbrakk> \<Longrightarrow> tokens_left m' < tokens_left m"
    using get_law_consumes [OF g(2) b]
    by (auto simp: tokens_left_def nanocbor_get_ipaddr_def NANOCBOR_GET_OBJECT_def b split: if_splits)
qed

lemma container_shorter:
  "\<lbrakk>enter_array (xnc X) de = (r, a); 0 \<le> r\<rbrakk> \<Longrightarrow> tokens_left a < tokens_left de"
  "\<lbrakk>enter_map (xnc X) de = (r, a); 0 \<le> r\<rbrakk> \<Longrightarrow> tokens_left a < tokens_left de"
  "\<lbrakk>skip (xnc X) de = (r, a); 0 \<le> r\<rbrakk> \<Longrightarrow> tokens_left a < tokens_left de"
  "tokens_left (leave_container (xnc X) de a) = tokens_left a"
  unfolding tokens_left_def using enter_law [OF nc] by simp_all

lemma deser_shorter:
  "\<lbrakk>deser_edge X (de, x) = (r, de', x'); 0 \<le> r\<rbrakk> \<Longrightarrow> tokens_left de' \<le> tokens_left de"
  "\<lbrakk>deser_cap X (de, y) = (r, de', y'); 0 \<le> r\<rbrakk> \<Longrightarrow> tokens_left de' \<le> tokens_left de"
  unfolding tokens_left_def using consumes_edge consumes_cap unfolding consumes_def by blast+

text \<open>A loop or function that returns, changes only the records of \<open>p\<close> and does not move back when it succeeds.\<close>

definition returns_for :: "addr \<Rightarrow> ('p, 'e, 'c) peer_info \<Rightarrow> nat \<Rightarrow> (int \<times> 'de \<times> ('p, 'e, 'c) peer_info) option \<Rightarrow> bool" where
  "returns_for p ps n res \<longleftrightarrow> (\<exists>r m ps'. res = Some (r, m, ps') \<and> only_peer p ps ps' \<and> (0 \<le> r \<longrightarrow> tokens_left m \<le> n))"

lemma returns_forI: "\<lbrakk>only_peer p ps ps'; 0 \<le> r \<Longrightarrow> tokens_left m \<le> n\<rbrakk> \<Longrightarrow> returns_for p ps n (Some (r, m, ps'))"
  by (simp add: returns_for_def)

lemma returns_for_trans: "\<lbrakk>returns_for p ps' k res; only_peer p ps ps'; k \<le> n\<rbrakk> \<Longrightarrow> returns_for p ps n res"
  unfolding returns_for_def by (auto intro: only_peer_trans)

lemma capability_loop_returns:
  "\<lbrakk>peer_info_ok ps; p \<in> set (peers ps)\<rbrakk> \<Longrightarrow> returns_for p ps (tokens_left m) (capability_loop X es p e m ps)"
proof (induction "tokens_left m" arbitrary: m ps rule: less_induct)
  case less
  note refl = only_peer_refl [OF less.prems(1), of p]
  obtain r nm m1 where g: "get_tstr (xnc X) m = (r, nm, m1)" by (metis prod.collapse)
  obtain r2 m2 where k: "skip (xnc X) m1 = (r2, m2)" by fastforce
  obtain r3 m3 tm where d: "deser_cap X (m1, cap_tm0 X) = (r3, m3, tm)" by (metis prod.collapse)
  show ?case
  proof (cases "at_end (xnc X) m \<or> r < 0")
    case True
    then show ?thesis using refl by (subst capability_loop.simps) (auto simp: g intro: returns_forI)
  next
    case False
    then have m1: "tokens_left m1 < tokens_left m" using get_shorter(1) [OF g] by simp
    define f where "f = (if EDGE_CAPABILITY_NAME_LEN < length nm then None else edge_info_capability_find es (Some e) nm)"
    show ?thesis
    proof (cases f)
      case None
      have "returns_for p ps (tokens_left m) (capability_loop X es p e m2 ps)" if "0 \<le> r2"
        using container_shorter(3) [OF k that] m1 less.prems
        by (intro returns_for_trans [OF less.hyps refl]) simp_all
      then show ?thesis
        using False None refl by (subst capability_loop.simps) (auto simp: g k f_def [symmetric] Let_def intro: returns_forI)
    next
      case (Some c)
      let ?ps = "snd (peer_info_update_capability (xct X) ps p e c tm)"
      have u: "only_peer p ps ?ps" by (rule update_capability_only [OF contiki less.prems])
      have "returns_for p ps (tokens_left m) (capability_loop X es p e m3 ?ps)" if "0 \<le> r3"
        using deser_shorter(2) [OF d that] m1 less.prems u
        by (intro returns_for_trans [OF less.hyps u]) (simp_all add: only_peer_def)
      then show ?thesis
        using False Some refl by (subst capability_loop.simps) (auto simp: g d f_def [symmetric] Let_def intro: returns_forI)
    qed
  qed
qed

lemma deserialise_trust_returns:
  assumes "peer_info_ok ps" "p \<in> set (peers ps)"
  shows "returns_for p ps (tokens_left de) (deserialise_trust_edge_and_capabilities X es p e de ps)"
proof -
  note refl = only_peer_refl [OF assms(1), of p]
  obtain r a where a: "enter_array (xnc X) de = (r, a)" by fastforce
  obtain r1 a1 tm where d: "deser_edge X (a, edge_tm0 X) = (r1, a1, tm)" by (metis prod.collapse)
  obtain r2 m where m: "enter_map (xnc X) a1 = (r2, m)" by fastforce
  let ?ps = "snd (peer_info_update_edge (xct X) ps p e tm)"
  have u: "only_peer p ps ?ps" by (rule update_edge_only [OF contiki assms])
  then have "returns_for p ?ps (tokens_left m) (capability_loop X es p e m ?ps)"
    using assms(2) by (intro capability_loop_returns) (simp_all add: only_peer_def)
  then obtain r3 m3 ps3 where c: "capability_loop X es p e m ?ps = Some (r3, m3, ps3)" "only_peer p ?ps ps3" "0 \<le> r3 \<longrightarrow> tokens_left m3 \<le> tokens_left m"
    by (auto simp: returns_for_def)
  have only: "only_peer p ps ps3" by (rule only_peer_trans [OF u c(2)])
  have "0 \<le> r \<Longrightarrow> 0 \<le> r1 \<Longrightarrow> 0 \<le> r2 \<Longrightarrow> 0 \<le> r3 \<Longrightarrow> tokens_left m3 \<le> tokens_left de"
    using container_shorter(1) [OF a] deser_shorter(1) [OF d] container_shorter(2) [OF m] c(3) by linarith
  then show ?thesis
    using refl u only by (auto simp: deserialise_trust_edge_and_capabilities_def a d m c(1) Let_def container_shorter(4) intro!: returns_forI)
qed

lemma edge_loop_returns:
  "\<lbrakk>peer_info_ok ps; p \<in> set (peers ps)\<rbrakk> \<Longrightarrow> returns_for p ps (tokens_left m) (edge_loop X es p m ps)"
proof (induction "tokens_left m" arbitrary: m ps rule: less_induct)
  case less
  note refl = only_peer_refl [OF less.prems(1), of p]
  obtain r a m1 where g: "nanocbor_get_ipaddr (xnc X) m = (r, a, m1)" by (metis prod.collapse)
  obtain r2 m2 where k: "skip (xnc X) m1 = (r2, m2)" by fastforce
  show ?case
  proof (cases "at_end (xnc X) m \<or> r < 0")
    case True
    then show ?thesis using refl by (subst edge_loop.simps) (auto simp: g intro: returns_forI)
  next
    case False
    then have m1: "tokens_left m1 < tokens_left m" using get_shorter(2) [OF g] by simp
    show ?thesis
    proof (cases "edge_info_find_addr es a")
      case None
      have "returns_for p ps (tokens_left m) (edge_loop X es p m2 ps)" if "0 \<le> r2"
        using container_shorter(3) [OF k that] m1 less.prems by (intro returns_for_trans [OF less.hyps refl]) simp_all
      then show ?thesis using False None refl by (subst edge_loop.simps) (auto simp: g k Let_def intro: returns_forI)
    next
      case (Some e)
      obtain r3 m3 ps3 where d: "deserialise_trust_edge_and_capabilities X es p e m1 ps = Some (r3, m3, ps3)" "only_peer p ps ps3"
          "0 \<le> r3 \<longrightarrow> tokens_left m3 \<le> tokens_left m1"
        using deserialise_trust_returns [OF less.prems, of m1 es e] by (auto simp: returns_for_def)
      have "returns_for p ps (tokens_left m) (edge_loop X es p m3 ps3)" if "0 \<le> r3"
        using d(2,3) that m1 less.prems by (intro returns_for_trans [OF less.hyps d(2)]) (simp_all add: only_peer_def)
      then show ?thesis using False Some d(2) by (subst edge_loop.simps) (auto simp: g d(1) Let_def intro: returns_forI)
    qed
  qed
qed

text \<open>Whatever a peer sends, reading it ends, keeps the records well formed and changes no record of another peer.\<close>

lemma process_received_trust_returns:
  assumes "peer_info_ok ps"
  shows "\<exists>r ps'. process_received_trust X es src buf ps = Some (r, ps') \<and> peer_info_ok ps' \<and>
    (\<forall>q\<in>set (peers ps). peer_addr (peer_mem ps q) \<noteq> src \<longrightarrow> q \<in> set (peers ps') \<and> peer_reports ps' q = peer_reports ps q)"
proof -
  obtain ro ps1 where add: "peer_info_add (xct X) (ptm_init X) ps src = (ro, ps1)" by fastforce
  have ok1: "peer_info_ok ps1" using peer_info_add_ok [OF contiki assms, of "ptm_init X" src] add by simp
  have kept: "q \<in> set (peers ps1) \<and> peer_reports ps1 q = peer_reports ps q" if "q \<in> set (peers ps)" for q
    using contiki assms
  proof (cases rule: peer_info_add_cases [where a = src and ini = "ptm_init X", consumes 2])
    case (new p)
    then have "ps1 = with_peer (ptm_init X) ps src p" using add by simp
    then show ?thesis using that new(3) by (auto simp: with_peer_def peer_reports_def edges_of_def pcaps_of_def)
  qed (use add that in simp_all)
  show ?thesis
  proof (cases ro)
    case None
    then show ?thesis using add ok1 kept by (simp add: process_received_trust_def)
  next
    case (Some p)
    have p: "p \<in> set (peers ps1)" "peer_addr (peer_mem ps1 p) = src"
      using peer_info_add_find [OF contiki assms add [unfolded Some]] peer_find_iff [OF ok1, of src p] by simp_all
    obtain r a where a: "enter_array (xnc X) (decoder_init (xnc X) buf) = (r, a)" by fastforce
    obtain r1 secs a1 where g: "get_uint32 (xnc X) a = (r1, secs, a1)" by (metis prod.collapse)
    let ?ps = "upd_peer p (\<lambda>p. p\<lparr>last_seen := secs\<rparr>) ps1"
    have ok2: "peer_info_ok ?ps" using ok1 by (simp add: ok_last_seen)
    have u: "only_peer p ps1 ?ps" using p(1) by (intro only_peer_mem [OF ok1 ok2]) simp_all
    obtain r2 m where m: "enter_map (xnc X) a1 = (r2, m)" by fastforce
    have "returns_for p ?ps (tokens_left m) (edge_loop X es p m ?ps)" using p(1) by (intro edge_loop_returns [OF ok2]) simp
    then obtain r3 m3 ps3 where l: "edge_loop X es p m ?ps = Some (r3, m3, ps3)" "only_peer p ps1 ps3"
      using only_peer_trans [OF u] by (auto simp: returns_for_def)
    have "\<exists>r ps'. process_received_trust X es src buf ps = Some (r, ps') \<and> only_peer p ps1 ps'"
      unfolding process_received_trust_def add Some prod.case option.case a g m Let_def l(1)
      using only_peer_refl [OF ok1, of p] u l(2) by (auto split: if_splits)
    then obtain r ps' where res: "process_received_trust X es src buf ps = Some (r, ps')" "only_peer p ps1 ps'" by blast
    have "q \<in> set (peers ps') \<and> peer_reports ps' q = peer_reports ps q" if "q \<in> set (peers ps)" "peer_addr (peer_mem ps q) \<noteq> src" for q
    proof -
      have "peer_mem ps1 q = peer_mem ps q" using kept [OF that(1)] by (simp add: peer_reports_def)
      then have "q \<noteq> p" using p(2) that(2) by auto
      then show ?thesis using res(2) kept [OF that(1)] by (simp add: only_peer_def)
    qed
    then show ?thesis using res by (auto simp: only_peer_def)
  qed
qed

end

subsection \<open>What is sent is what is merged\<close>

text \<open>A report: for every edge its address, its trust record, and the names and trust records of its capabilities.\<close>

type_synonym ('e, 'c) report = "(ipaddr \<times> 'e \<times> (string \<times> 'c) list) list"

definition report_of :: "('e, 'c) edge_info \<Rightarrow> addr list \<Rightarrow> ('e, 'c) report" where
  "report_of es edges = map (\<lambda>e. (ipaddr (ep (edge_mem es e)), edge_tm (edge_mem es e),
     map (\<lambda>c. (cstr (cap_name (cap_mem es c)), cap_tm (cap_mem es c))) (capabilities (edge_mem es e)))) edges"

text \<open>How a node merges a report: what it knows nothing of is left out.\<close>

definition merge_caps ::
  "contiki \<Rightarrow> ('e, 'c) edge_info \<Rightarrow> addr \<Rightarrow> addr \<Rightarrow> (string \<times> 'c) list \<Rightarrow> ('p, 'e, 'c) peer_info \<Rightarrow> ('p, 'e, 'c) peer_info" where
  "merge_caps CT es p e = fold (\<lambda>(name, tm) ps.
     case edge_info_capability_find es (Some e) name of None \<Rightarrow> ps | Some c \<Rightarrow> snd (peer_info_update_capability CT ps p e c tm))"

definition merge_report ::
  "contiki \<Rightarrow> ('e, 'c) edge_info \<Rightarrow> addr \<Rightarrow> ('e, 'c) report \<Rightarrow> ('p, 'e, 'c) peer_info \<Rightarrow> ('p, 'e, 'c) peer_info" where
  "merge_report CT es p = fold (\<lambda>(a, tm, caps) ps.
     case edge_info_find_addr es a of None \<Rightarrow> ps | Some e \<Rightarrow> merge_caps CT es p e caps (snd (peer_info_update_edge CT ps p e tm)))"

subsection \<open>What a merged report teaches\<close>

text \<open>
  The records after a report has been merged, as maps: for every edge of the report that the node knows, and each of its capabilities that the node knows, the trust that was reported, unless the
  record is new and the peer's share is used up; everything else is as before.  A name that occurs twice counts with its last record.
\<close>

definition learned ::
  "('e, 'c) edge_info \<Rightarrow> addr \<Rightarrow> ('e, 'c) report \<Rightarrow> ('p, 'e, 'c) peer_info \<Rightarrow> ('p, 'e, 'c) peer_info \<Rightarrow> bool" where
  "learned es p rep ps ps' \<longleftrightarrow>
     (\<forall>a tm caps e. (a, tm, caps) \<in> set rep \<longrightarrow> edge_info_find_addr es a = Some e \<longrightarrow>
        (if e \<in> dom (edge_trust ps' p)
         then edge_trust ps' p e = Some tm \<and>
           (\<forall>nm c ctm. edge_info_capability_find es (Some e) nm = Some c \<longrightarrow> map_of (rev caps) nm = Some ctm \<longrightarrow>
              (if c \<in> dom (cap_trust ps' p e) then cap_trust ps' p e c = Some ctm else card (dom (cap_trust ps' p e)) = NUM_EDGE_CAPABILITIES))
         else card (dom (edge_trust ps' p)) = NUM_EDGE_RESOURCES) \<and>
        (\<forall>c. (\<forall>nm\<in>fst ` set caps. edge_info_capability_find es (Some e) nm \<noteq> Some c) \<longrightarrow> cap_trust ps' p e c = cap_trust ps p e c)) \<and>
     (\<forall>e. (\<forall>(a, _)\<in>set rep. edge_info_find_addr es a \<noteq> Some e) \<longrightarrow> edge_trust ps' p e = edge_trust ps p e \<and> cap_trust ps' p e = cap_trust ps p e)"

text \<open>The records of a peer are about edges and capabilities the node still has; then none is refused.\<close>

definition records_current :: "('e, 'c) edge_info \<Rightarrow> addr \<Rightarrow> ('p, 'e, 'c) peer_info \<Rightarrow> bool" where
  "records_current es p ps \<longleftrightarrow> dom (edge_trust ps p) \<subseteq> set (edge_resources es) \<and> (\<forall>e. dom (cap_trust ps p e) \<subseteq> set (capabilities (edge_mem es e)))"

definition all_stored :: "('e, 'c) edge_info \<Rightarrow> addr \<Rightarrow> ('e, 'c) report \<Rightarrow> ('p, 'e, 'c) peer_info \<Rightarrow> bool" where
  "all_stored es p rep ps' \<longleftrightarrow>
     (\<forall>a tm caps e. (a, tm, caps) \<in> set rep \<longrightarrow> edge_info_find_addr es a = Some e \<longrightarrow> edge_trust ps' p e = Some tm \<and>
        (\<forall>nm c ctm. edge_info_capability_find es (Some e) nm = Some c \<longrightarrow> map_of (rev caps) nm = Some ctm \<longrightarrow> cap_trust ps' p e c = Some ctm))"

lemma find_addrD: "edge_info_find_addr es a = Some e \<Longrightarrow> e \<in> set (edge_resources es) \<and> ipaddr (ep (edge_mem es e)) = a"
  unfolding edge_info_find_addr_def using find_SomeD by fast

lemma find_capD: "edge_info_capability_find es (Some e) nm = Some c \<Longrightarrow> c \<in> set (capabilities (edge_mem es e)) \<and> cstr (cap_name (cap_mem es c)) = cstr nm"
  unfolding edge_info_capability_find_def option.case using find_SomeD by fast

lemma merge_caps_snoc: "merge_caps CT es p e (caps @ [(nm, tm)]) ps =
    (case edge_info_capability_find es (Some e) nm of None \<Rightarrow> merge_caps CT es p e caps ps
     | Some c \<Rightarrow> snd (peer_info_update_capability CT (merge_caps CT es p e caps ps) p e c tm))"
  by (simp add: merge_caps_def split: option.split)

lemma merge_caps_refused:
  assumes "contiki_ok CT" "peer_info_ok ps" "p \<in> set (peers ps)" "e \<notin> dom (edge_trust ps p)" "card (dom (edge_trust ps p)) = NUM_EDGE_RESOURCES"
  shows "merge_caps CT es p e caps ps = ps"
proof (induction caps rule: rev_induct)
  case (snoc x caps)
  then show ?case using update_cap_refused [OF assms] by (cases x) (simp add: merge_caps_snoc split: option.split)
qed (simp add: merge_caps_def)

lemma merge_caps_map:
  assumes "contiki_ok CT" "peer_info_ok ps" "p \<in> set (peers ps)" "e \<in> dom (edge_trust ps p)" "\<forall>nm\<in>fst ` set caps. cstr nm = nm"
  shows "let ps' = merge_caps CT es p e caps ps in peer_info_ok ps' \<and> peers ps' = peers ps \<and> edge_trust ps' p = edge_trust ps p \<and> (\<forall>x. x \<noteq> e \<longrightarrow> cap_trust ps' p x = cap_trust ps p x) \<and>
    (\<forall>c. (\<forall>nm\<in>fst ` set caps. edge_info_capability_find es (Some e) nm \<noteq> Some c) \<longrightarrow> cap_trust ps' p e c = cap_trust ps p e c) \<and>
    (\<forall>nm c ctm. edge_info_capability_find es (Some e) nm = Some c \<longrightarrow> map_of (rev caps) nm = Some ctm \<longrightarrow>
      (if c \<in> dom (cap_trust ps' p e) then cap_trust ps' p e c = Some ctm else card (dom (cap_trust ps' p e)) = NUM_EDGE_CAPABILITIES))"
  using assms(5)
proof (induction caps rule: rev_induct)
  case Nil
  then show ?case using assms by (simp add: merge_caps_def)
next
  case (snoc x caps)
  obtain nm tm where x: "x = (nm, tm)" by fastforce
  define u where "u = merge_caps CT es p e caps ps"
  have nms: "cstr nm = nm" "\<forall>nm\<in>fst ` set caps. cstr nm = nm" using snoc.prems by (auto simp: x)
  note IH = snoc.IH [OF nms(2), unfolded Let_def, folded u_def]
  have ok: "peer_info_ok u" "p \<in> set (peers u)" "e \<in> dom (edge_trust u p)" using IH assms(3,4) by simp_all
  show ?case
  proof (cases "edge_info_capability_find es (Some e) nm")
    case None
    then have m: "merge_caps CT es p e (caps @ [x]) ps = u" by (simp add: x merge_caps_snoc u_def)
    show ?thesis unfolding m Let_def using IH None by (auto simp: x)
  next
    case (Some c)
    obtain b v where q: "peer_info_update_capability CT u p e c tm = (b, v)" by fastforce
    have m: "merge_caps CT es p e (caps @ [x]) ps = v" using Some q by (simp add: x merge_caps_snoc u_def [symmetric])
    note k = update_cap_map [OF assms(1) ok q]
    have ne: "n \<noteq> nm \<Longrightarrow> d \<noteq> c" if "edge_info_capability_find es (Some e) n = Some d" "map_of (rev caps) n = Some t" for n d t
    proof -
      assume "n \<noteq> nm"
      have "n \<in> fst ` set caps" using that(2) by (force dest: map_of_SomeD)
      then show "d \<noteq> c" using nms find_capD [OF that(1)] find_capD [OF Some] \<open>n \<noteq> nm\<close> by auto
    qed
    have new: "if d \<in> dom (cap_trust v p e) then cap_trust v p e d = Some t else card (dom (cap_trust v p e)) = NUM_EDGE_CAPABILITIES"
      if d: "edge_info_capability_find es (Some e) n = Some d" "map_of (rev (caps @ [x])) n = Some t" for n d t
    proof (cases "n = nm")
      case True
      then have "d = c" "t = tm" using d Some by (simp_all add: x)
      then show ?thesis using k by (cases b) auto
    next
      case False
      then have t: "map_of (rev caps) n = Some t" using d(2) by (simp add: x)
      from ne [OF d(1) t False] have "d \<noteq> c" .
      moreover have "if d \<in> dom (cap_trust u p e) then cap_trust u p e d = Some t else card (dom (cap_trust u p e)) = NUM_EDGE_CAPABILITIES" using IH d(1) t by blast
      ultimately show ?thesis using k by (cases b) (auto simp: insert_absorb split: if_splits)
    qed
    have old: "cap_trust v p e d = cap_trust ps p e d" if d: "\<forall>nm\<in>fst ` set (caps @ [x]). edge_info_capability_find es (Some e) nm \<noteq> Some d" for d
    proof -
      have "d \<noteq> c" "cap_trust u p e d = cap_trust ps p e d" using d Some IH by (auto simp: x)
      then show ?thesis using k by (cases b) simp_all
    qed
    have "peer_info_ok v" "peers v = peers ps" "edge_trust v p = edge_trust ps p" "\<forall>x. x \<noteq> e \<longrightarrow> cap_trust v p x = cap_trust ps p x"
      using k IH by (auto split: if_splits)
    then show ?thesis unfolding m Let_def using new old by blast
  qed
qed

lemma merge_report_snoc: "merge_report CT es p (rep @ [(a, tm, caps)]) ps =
    (case edge_info_find_addr es a of None \<Rightarrow> merge_report CT es p rep ps
     | Some e \<Rightarrow> merge_caps CT es p e caps (snd (peer_info_update_edge CT (merge_report CT es p rep ps) p e tm)))"
  by (simp add: merge_report_def split: option.split)

lemma update_addr:
  "peer_addr (peer_mem (snd (peer_info_update_edge CT ps p e tm)) q) = peer_addr (peer_mem ps q)"
  "peer_addr (peer_mem (snd (peer_info_update_capability CT ps p e c ctm)) q) = peer_addr (peer_mem ps q)"
  by (simp_all add: peer_info_update_edge_def peer_info_update_capability_def peer_info_find_edge_or_allocate_def peer_info_find_capability_or_allocate_def Let_def
      split_def split: option.split)

lemma merge_report_addr: "peer_addr (peer_mem (merge_report CT es p rep ps) q) = peer_addr (peer_mem ps q)"
proof -
  have caps: "peer_addr (peer_mem (merge_caps CT es p e caps u) q) = peer_addr (peer_mem u q)" for e caps u
    by (induction caps rule: rev_induct) (auto simp: merge_caps_def update_addr split: option.split)
  show ?thesis
  proof (induction rep rule: rev_induct)
    case (snoc x rep)
    then show ?case by (cases x) (simp add: merge_report_snoc caps update_addr split: option.split)
  qed (simp add: merge_report_def)
qed

lemma merge_report_learned:
  assumes "contiki_ok CT" "peer_info_ok ps" "p \<in> set (peers ps)" "distinct (map fst rep)" "\<forall>(a, tm, caps)\<in>set rep. \<forall>nm\<in>fst ` set caps. cstr nm = nm"
  shows "peer_info_ok (merge_report CT es p rep ps) \<and> peers (merge_report CT es p rep ps) = peers ps \<and> learned es p rep ps (merge_report CT es p rep ps)"
  using assms(4,5)
proof (induction rep rule: rev_induct)
  case Nil
  then show ?case using assms by (simp add: merge_report_def learned_def)
next
  case (snoc x rep)
  obtain a tm caps where x: "x = (a, tm, caps)" by (cases x)
  define u where "u = merge_report CT es p rep ps"
  have IH: "peer_info_ok u" "peers u = peers ps" "learned es p rep ps u" using snoc by (simp_all add: u_def)
  have p: "p \<in> set (peers u)" using IH(2) assms(3) by simp
  have a: "a \<notin> fst ` set rep" using snoc.prems(1) by (auto simp: x)
  show ?case
  proof (cases "edge_info_find_addr es a")
    case None
    then have m: "merge_report CT es p (rep @ [x]) ps = u" by (simp add: x merge_report_snoc u_def)
    show ?thesis unfolding m using IH None by (auto simp: x learned_def)
  next
    case (Some e)
    obtain b v where q: "peer_info_update_edge CT u p e tm = (b, v)" by fastforce
    define w where "w = merge_caps CT es p e caps v"
    have m: "merge_report CT es p (rep @ [x]) ps = w" using Some q by (simp add: x merge_report_snoc u_def [symmetric] w_def)
    note k = update_edge_map [OF assms(1) IH(1) p q]
    have other: "f \<noteq> e" if "edge_info_find_addr es a' = Some f" "a' \<in> fst ` set rep" for a' f
      using that a find_addrD [OF that(1)] find_addrD [OF Some] by auto
    have nrep: "\<forall>(a', _)\<in>set rep. edge_info_find_addr es a' \<noteq> Some e" using other by force
    have old: "edge_trust u p e = edge_trust ps p e" "cap_trust u p e = cap_trust ps p e" using IH(3) nrep unfolding learned_def by blast+
    have nms: "\<forall>nm\<in>fst ` set caps. cstr nm = nm" using snoc.prems(2) by (simp add: x)
    have w: "peer_info_ok w \<and> peers w = peers ps \<and> edge_trust w p = edge_trust v p \<and> (\<forall>x. x \<noteq> e \<longrightarrow> cap_trust w p x = cap_trust u p x) \<and>
      (\<forall>c. (\<forall>nm\<in>fst ` set caps. edge_info_capability_find es (Some e) nm \<noteq> Some c) \<longrightarrow> cap_trust w p e c = cap_trust ps p e c) \<and>
      (b \<longrightarrow> (\<forall>nm c ctm. edge_info_capability_find es (Some e) nm = Some c \<longrightarrow> map_of (rev caps) nm = Some ctm \<longrightarrow>
        (if c \<in> dom (cap_trust w p e) then cap_trust w p e c = Some ctm else card (dom (cap_trust w p e)) = NUM_EDGE_CAPABILITIES)))"
    proof (cases b)
      case True
      then have "e \<in> dom (edge_trust v p)" "p \<in> set (peers v)" "peer_info_ok v" using k p by simp_all
      from merge_caps_map [OF assms(1) this(3,2,1) nms, of es, unfolded Let_def, folded w_def] show ?thesis using k IH(2) old(2) by simp
    next
      case False
      then have "e \<notin> dom (edge_trust v p)" "card (dom (edge_trust v p)) = NUM_EDGE_RESOURCES" "p \<in> set (peers v)" "peer_info_ok v" using k p by auto
      from merge_caps_refused [OF assms(1) this(4,3,1,2)] have "w = v" by (simp add: w_def)
      then show ?thesis using k IH(2) old(2) False by simp
    qed
    have entry: "if e \<in> dom (edge_trust w p) then edge_trust w p e = Some tm \<and> b else card (dom (edge_trust w p)) = NUM_EDGE_RESOURCES"
      using k w by (cases b) (auto simp: domIff)
    have dom: "card (dom (edge_trust w p)) = NUM_EDGE_RESOURCES" if "card (dom (edge_trust u p)) = NUM_EDGE_RESOURCES"
      using k w that by (cases b) (auto simp: insert_absorb)
    have frame: "edge_trust w p f = edge_trust u p f \<and> cap_trust w p f = cap_trust u p f" if "f \<noteq> e" for f
      using k w that by (cases b) auto
    have "learned es p (rep @ [x]) ps w"
      unfolding learned_def
    proof (intro conjI allI impI)
      fix a' tm' caps' f
      assume r: "(a', tm', caps') \<in> set (rep @ [x])" "edge_info_find_addr es a' = Some f"
      consider (here) "a' = a" "tm' = tm" "caps' = caps" "f = e" | (there) "(a', tm', caps') \<in> set rep" "f \<noteq> e"
        using r Some other by (force simp: x)
      then show "if f \<in> dom (edge_trust w p) then edge_trust w p f = Some tm' \<and>
           (\<forall>nm c ctm. edge_info_capability_find es (Some f) nm = Some c \<longrightarrow> map_of (rev caps') nm = Some ctm \<longrightarrow>
              (if c \<in> dom (cap_trust w p f) then cap_trust w p f c = Some ctm else card (dom (cap_trust w p f)) = NUM_EDGE_CAPABILITIES))
         else card (dom (edge_trust w p)) = NUM_EDGE_RESOURCES"
      proof cases
        case here
        then show ?thesis using entry w by (cases "e \<in> dom (edge_trust w p)") simp_all
      next
        case there
        let ?caps = "\<lambda>u. \<forall>nm c ctm. edge_info_capability_find es (Some f) nm = Some c \<longrightarrow> map_of (rev caps') nm = Some ctm \<longrightarrow>
              (if c \<in> dom (cap_trust u p f) then cap_trust u p f c = Some ctm else card (dom (cap_trust u p f)) = NUM_EDGE_CAPABILITIES)"
        have l: "if f \<in> dom (edge_trust u p) then edge_trust u p f = Some tm' \<and> ?caps u else card (dom (edge_trust u p)) = NUM_EDGE_RESOURCES"
          using IH(3) there(1) r(2) unfolding learned_def by blast
        have fr: "edge_trust w p f = edge_trust u p f" "?caps w = ?caps u" "f \<in> dom (edge_trust w p) \<longleftrightarrow> f \<in> dom (edge_trust u p)"
          using frame [OF there(2)] by (simp_all add: domIff)
        show ?thesis
        proof (cases "f \<in> dom (edge_trust u p)")
          case True
          then show ?thesis using l fr unfolding if_P [OF True] by (simp only: if_True) simp
        next
          case False
          then show ?thesis using l fr dom by (simp only: if_False)
        qed
      qed
      fix c
      assume n: "\<forall>nm\<in>fst ` set caps'. edge_info_capability_find es (Some f) nm \<noteq> Some c"
      consider (here) "caps' = caps" "f = e" | (there) "(a', tm', caps') \<in> set rep" "f \<noteq> e"
        using r Some other by (force simp: x)
      then show "cap_trust w p f c = cap_trust ps p f c"
      proof cases
        case here
        then show ?thesis using w n by blast
      next
        case there
        have "cap_trust u p f c = cap_trust ps p f c" using IH(3) there(1) r(2) n unfolding learned_def by blast
        then show ?thesis using frame [OF there(2)] by simp
      qed
    next
      fix f
      assume n: "\<forall>(a, _)\<in>set (rep @ [x]). edge_info_find_addr es a \<noteq> Some f"
      then have "f \<noteq> e" using Some by (auto simp: x)
      moreover have "edge_trust u p f = edge_trust ps p f" "cap_trust u p f = cap_trust ps p f" using IH(3) n unfolding learned_def by (auto simp: x)
      ultimately show "edge_trust w p f = edge_trust ps p f" "cap_trust w p f = cap_trust ps p f" using frame by simp_all
    qed
    then show ?thesis unfolding m using w by blast
  qed
qed

text \<open>With current records the shares suffice: a peer can have at most as many records as the node has edges.\<close>

lemma learned_current:
  assumes "edge_info_ok es" "learned es p rep ps ps'" "records_current es p ps"
  shows "records_current es p ps'"
proof -
  have "e \<in> set (edge_resources es)" if e: "e \<in> dom (edge_trust ps' p)" for e
  proof (cases "\<forall>(a, _)\<in>set rep. edge_info_find_addr es a \<noteq> Some e")
    case True
    then have "edge_trust ps' p e = edge_trust ps p e" using assms(2) unfolding learned_def by blast
    then show ?thesis using e assms(3) by (auto simp: records_current_def domIff)
  next
    case False
    then obtain a where "edge_info_find_addr es a = Some e" by auto
    from find_addrD [OF this] show ?thesis by simp
  qed
  moreover have "c \<in> set (capabilities (edge_mem es e))" if c: "c \<in> dom (cap_trust ps' p e)" for e c
  proof (cases "cap_trust ps' p e c = cap_trust ps p e c")
    case True
    then have "c \<in> dom (cap_trust ps p e)" using c by (simp add: domIff)
    then show ?thesis using assms(3) unfolding records_current_def by blast
  next
    case False
    have "\<not> (\<forall>(a, _)\<in>set rep. edge_info_find_addr es a \<noteq> Some e)"
    proof
      assume "\<forall>(a, _)\<in>set rep. edge_info_find_addr es a \<noteq> Some e"
      with assms(2) have "cap_trust ps' p e = cap_trust ps p e" unfolding learned_def by blast
      then show False using False by simp
    qed
    then obtain a tm caps where r: "(a, tm, caps) \<in> set rep" "edge_info_find_addr es a = Some e" by auto
    have "(\<forall>nm\<in>fst ` set caps. edge_info_capability_find es (Some e) nm \<noteq> Some c) \<longrightarrow> cap_trust ps' p e c = cap_trust ps p e c"
      using assms(2) r unfolding learned_def by blast
    then obtain nm where "edge_info_capability_find es (Some e) nm = Some c" using False by blast
    then show ?thesis using find_capD by blast
  qed
  ultimately show ?thesis unfolding records_current_def by blast
qed

lemma learned_all:
  assumes "edge_info_ok es" "learned es p rep ps ps'" "records_current es p ps"
  shows "all_stored es p rep ps'"
proof -
  have cur: "records_current es p ps'" by (rule learned_current [OF assms])
  have full: "x \<in> dom m" if "dom m \<subseteq> set xs" "x \<in> set xs" "distinct xs" "length xs \<le> n" "card (dom m) = n" for m :: "addr \<rightharpoonup> 'z" and xs x n
  proof -
    have "card (set xs) \<le> card (dom m)" using that(3-5) by (simp add: distinct_card)
    from card_seteq [OF _ that(1) this] show ?thesis using that(2) by simp
  qed
  have es: "distinct (edge_resources es)" "length (edge_resources es) \<le> NUM_EDGE_RESOURCES" using assms(1) distinct_card_le [of "edge_resources es" NUM_EDGE_RESOURCES] by (auto simp: edge_info_ok_def edges_ok_def)
  have cs: "distinct (capabilities (edge_mem es e))" "length (capabilities (edge_mem es e)) \<le> NUM_EDGE_CAPABILITIES" if "e \<in> set (edge_resources es)" for e
    using assms(1) that by (auto simp: edge_info_ok_def edges_ok_def caps_ok_def owned_def caps_of_def)
  show ?thesis
    unfolding all_stored_def
  proof (intro allI impI)
    fix a tm caps e
    assume r: "(a, tm, caps) \<in> set rep" "edge_info_find_addr es a = Some e"
    have e: "e \<in> set (edge_resources es)" using find_addrD [OF r(2)] by blast
    have l: "if e \<in> dom (edge_trust ps' p) then edge_trust ps' p e = Some tm \<and>
           (\<forall>nm c ctm. edge_info_capability_find es (Some e) nm = Some c \<longrightarrow> map_of (rev caps) nm = Some ctm \<longrightarrow>
              (if c \<in> dom (cap_trust ps' p e) then cap_trust ps' p e c = Some ctm else card (dom (cap_trust ps' p e)) = NUM_EDGE_CAPABILITIES))
         else card (dom (edge_trust ps' p)) = NUM_EDGE_RESOURCES" using assms(2) r unfolding learned_def by blast
    have "e \<in> dom (edge_trust ps' p)"
      using l full [OF conjunct1 [OF cur [unfolded records_current_def]] e es] by metis
    then have l': "edge_trust ps' p e = Some tm" "\<And>nm c ctm. \<lbrakk>edge_info_capability_find es (Some e) nm = Some c; map_of (rev caps) nm = Some ctm\<rbrakk> \<Longrightarrow>
        if c \<in> dom (cap_trust ps' p e) then cap_trust ps' p e c = Some ctm else card (dom (cap_trust ps' p e)) = NUM_EDGE_CAPABILITIES"
      using l by simp_all
    have sub: "dom (cap_trust ps' p e) \<subseteq> set (capabilities (edge_mem es e))" using cur by (simp add: records_current_def)
    have "cap_trust ps' p e c = Some ctm" if c: "edge_info_capability_find es (Some e) nm = Some c" "map_of (rev caps) nm = Some ctm" for nm c ctm
      using l'(2) [OF c] full [OF sub conjunct1 [OF find_capD [OF c(1)]] cs [OF e]] by metis
    then show "edge_trust ps' p e = Some tm \<and> (\<forall>nm c ctm. edge_info_capability_find es (Some e) nm = Some c \<longrightarrow> map_of (rev caps) nm = Some ctm \<longrightarrow> cap_trust ps' p e c = Some ctm)"
      using l'(1) by blast
  qed
qed

lemma emitsD: "\<lbrakk>emits written f ts; f en = (r, en'); 0 \<le> r\<rbrakk> \<Longrightarrow> written en' = written en @ ts"
  unfolding emits_def by (drule spec [of _ en]) simp

lemma emitsI: "(\<And>en r en'. f en = (r, en') \<Longrightarrow> 0 \<le> r \<Longrightarrow> written en' = written en @ ts) \<Longrightarrow> emits written f ts"
  unfolding emits_def by (auto split: prod.splits)

lemma emits_append:
  assumes "emits written (checks gs) us" "emits written (checks fs) ts"
  shows "emits written (checks (fs @ gs)) (ts @ us)"
proof (rule emitsI)
  fix en r en'
  assume c: "checks (fs @ gs) en = (r, en')" "0 \<le> r"
  have app: "checks (fs @ gs) en = (let (r, en') = checks fs en in if r < 0 then (r, en') else checks gs en')" for en
    by (induction fs arbitrary: en) (auto simp: Let_def split: prod.splits)
  obtain q en1 where q: "checks fs en = (q, en1)" by fastforce
  have "0 \<le> q" "checks gs en1 = (r, en')" using c app [of en] q by (auto split: if_splits)
  then show "written en' = written en @ ts @ us" using emitsD [OF assms(2) q] emitsD [OF assms(1) _ c(2)] by simp
qed

lemma emits_concat:
  assumes "\<And>x. x \<in> set xs \<Longrightarrow> emits written (checks (f x)) (ts x)"
  shows "emits written (checks (concat (map f xs))) (concat (map ts xs))"
  using assms by (induction xs) (simp_all add: emits_append emits_Nil)

lemma skip_items_append: "skip_items k ts = Some us \<Longrightarrow> skip_items k (ts @ rest) = Some (us @ rest)"
  by (induction k ts rule: skip_items.induct) simp_all

lemma skip_items_add: "skip_items j ts = Some [] \<Longrightarrow> skip_items (j + k) (ts @ us) = skip_items k us"
proof (induction j ts rule: skip_items.induct)
  case (3 j t ts)
  then show ?case by (simp add: add.assoc)
qed simp_all

text \<open>The decoder also passes over any complete item, and the structures of the trust model are complete items.\<close>

locale trust_codec_skip = trust_codec written view X edge_tokens cap_tokens
  for written :: "'en \<Rightarrow> token list" and view :: "'de view" and X :: "('p, 'e, 'c, 'en, 'de) tm_codec"
    and edge_tokens :: "'e \<Rightarrow> token list" and cap_tokens :: "'c \<Rightarrow> token list" +
  assumes skip_accepts: "\<lbrakk>has_more (snd (view de)); skip_items 1 (fst (view de)) = Some rest\<rbrakk> \<Longrightarrow> 0 \<le> fst (skip (xnc X) de)"
    and edge_item: "skip_items 1 (edge_tokens tm) = Some []" and cap_item: "skip_items 1 (cap_tokens ctm) = Some []"
begin

definition cap_report_tokens :: "string \<times> 'c \<Rightarrow> token list" where
  "cap_report_tokens = (\<lambda>(name, tm). TTstr name # cap_tokens tm)"

definition value_tokens :: "'e \<times> (string \<times> 'c) list \<Rightarrow> token list" where
  "value_tokens = (\<lambda>(tm, caps). TArray 2 # edge_tokens tm @ TMap (length caps) # concat (map cap_report_tokens caps))"

definition edge_report_tokens :: "ipaddr \<times> 'e \<times> (string \<times> 'c) list \<Rightarrow> token list" where
  "edge_report_tokens = (\<lambda>(a, v). TBstr a # value_tokens v)"

definition report_tokens :: "u32 \<Rightarrow> ('e, 'c) report \<Rightarrow> token list" where
  "report_tokens secs rep = TArray 2 # TUint (unat secs) # TMap (length rep) # concat (map edge_report_tokens rep)"

lemma serialise_edge_emits:
  "emits written (serialise_trust_edge_and_capabilities X es e)
    (value_tokens (edge_tm (edge_mem es e), map (\<lambda>c. (cstr (cap_name (cap_mem es c)), cap_tm (cap_mem es c))) (capabilities (edge_mem es e))))"
proof -
  have "emits written (checks [\<lambda>en. put_tstr (xnc X) en nm, ser_cap X tm]) (TTstr nm # cap_tokens tm)" for nm tm
    using emits_sub [OF emits_fmt(8) [OF nc] emits_sub [OF emits_cap emits_Nil]] by simp
  then have "emits written (checks (concat (map (\<lambda>c. [\<lambda>en. put_tstr (xnc X) en (cstr (cap_name (cap_mem es c))), ser_cap X (cap_tm (cap_mem es c))]) cs)))
      (concat (map (\<lambda>c. TTstr (cstr (cap_name (cap_mem es c))) # cap_tokens (cap_tm (cap_mem es c))) cs))" for cs
    by (rule emits_concat)
  from emits_sub [OF emits_fmt(1) [OF nc] emits_sub [OF emits_edge emits_sub [OF emits_fmt(7) [OF nc] this]]]
  show ?thesis by (simp add: serialise_trust_edge_and_capabilities_def value_tokens_def cap_report_tokens_def o_def Let_def)
qed

lemma serialise_trust_emits:
  assumes "serialise_trust X es secs None n = Some (r, enc)" "0 \<le> r"
  shows "written enc = written (encoder_init (xnc X) n) @ report_tokens secs (report_of es (edge_resources es))"
proof -
  have "emits written (checks (edge_report X es e)) (edge_report_tokens (ipaddr (ep (edge_mem es e)), edge_tm (edge_mem es e),
      map (\<lambda>c. (cstr (cap_name (cap_mem es c)), cap_tm (cap_mem es c))) (capabilities (edge_mem es e))))" for e
    unfolding edge_report_def edge_report_tokens_def prod.case nanocbor_fmt_ipaddr_def
    using emits_sub [OF emits_fmt(6) [OF nc] emits_sub [OF serialise_edge_emits emits_Nil]] by simp
  then have b: "emits written (checks (concat (map (edge_report X es) (edge_resources es)))) (concat (map edge_report_tokens (report_of es (edge_resources es))))"
    unfolding report_of_def map_map o_def by (rule emits_concat)
  have h: "emits written (checks (report_header X secs k)) [TArray 2, TUint (unat secs), TMap k]" for k
    unfolding report_header_def using emits_tok(1) [OF nc emits_tok(2) [OF nc emits_sub [OF emits_fmt(7) [OF nc] emits_Nil]]] by simp
  obtain q en1 where q: "checks (report_header X secs (edge_info_count es)) (encoder_init (xnc X) n) = (q, en1)" by fastforce
  obtain w en2 where w: "checks (concat (map (edge_report X es) (edge_resources es))) en1 = (w, en2)" by fastforce
  have "0 \<le> q" "0 \<le> w" "enc = en2" using assms by (auto simp: serialise_trust_def q w split: if_splits)
  then show ?thesis
    using emitsD [OF h q] emitsD [OF b w] by (simp add: report_tokens_def report_of_def edge_info_count_def)
qed

end

context trust_codec_skip begin

lemma get_lawD:
  assumes "get_law view get val" "view de = (t # ts, left)" "has_more left" "val t = Some v"
  obtains r de' where "get de = (r, v, de')" "0 \<le> r" "view de' = (ts, pass left)"
proof -
  obtain r w de' where g: "get de = (r, w, de')" by (metis prod.collapse)
  have "0 \<le> r \<and> val t = Some w \<and> view de' = (ts, pass left)"
    using assms(1) [unfolded get_law_def, rule_format, of de] assms(2-4) g by simp
  then show thesis using that g assms(4) by simp
qed

lemma readsD:
  assumes "reads view f ts 1 x x'" "view de = (ts @ rest, left)" "has_more left"
  obtains r de' where "f (de, x) = (r, de', x')" "0 \<le> r" "view de' = (rest, pass left)"
proof -
  have "\<forall>n. left = Some n \<longrightarrow> 1 \<le> n" using assms(3) by (auto simp: has_more_def)
  then show thesis using assms(1) [unfolded reads_def, rule_format, of de rest left] assms(2) that unfolding pass_def by auto
qed

lemma skipD:
  assumes "view de = (ts @ rest, left)" "has_more left" "skip_items 1 ts = Some []"
  obtains r de' where "skip (xnc X) de = (r, de')" "0 \<le> r" "view de' = (rest, pass left)"
proof -
  obtain r de' where k: "skip (xnc X) de = (r, de')" by fastforce
  have s: "skip_items 1 (ts @ rest) = Some rest" using skip_items_append [OF assms(3)] by simp
  then have "0 \<le> r" using skip_accepts [of de rest] assms(1,2) k by simp
  moreover from this have "skip_items 1 (fst (view de)) = Some (fst (view de')) \<and> snd (view de') = pass (snd (view de))"
    using nc k unfolding nanocbor_ok_def map_law_def by (auto dest!: spec [of _ de])
  then have "view de' = (rest, pass left)" using s assms(1) by (cases "view de'") simp
  ultimately show thesis using that k by blast
qed

lemma at_endD: "view de = (ts, Some n) \<Longrightarrow> ts \<noteq> [] \<or> n = 0 \<Longrightarrow> at_end (xnc X) de = (n = 0)"
  using nc unfolding nanocbor_ok_def array_law_def by blast

lemma enterD:
  "\<lbrakk>view de = (TArray n # ts, left); has_more left\<rbrakk> \<Longrightarrow> \<exists>r a. enter_array (xnc X) de = (r, a) \<and> 0 \<le> r \<and> view a = (ts, Some n)"
  "\<lbrakk>view de = (TMap n # ts, left); has_more left\<rbrakk> \<Longrightarrow> \<exists>r a. enter_map (xnc X) de = (r, a) \<and> 0 \<le> r \<and> view a = (ts, Some (2 * n))"
  "view (leave_container (xnc X) de a) = (fst (view a), pass (snd (view de)))"
proof -
  have ok: "array_law view (xnc X)" "map_law view (xnc X)" using nc by (simp_all add: nanocbor_ok_def)
  show "\<lbrakk>view de = (TArray n # ts, left); has_more left\<rbrakk> \<Longrightarrow> \<exists>r a. enter_array (xnc X) de = (r, a) \<and> 0 \<le> r \<and> view a = (ts, Some n)"
    using ok(1) [unfolded array_law_def, THEN conjunct1, rule_format, of de] by (cases "enter_array (xnc X) de") simp
  show "\<lbrakk>view de = (TMap n # ts, left); has_more left\<rbrakk> \<Longrightarrow> \<exists>r a. enter_map (xnc X) de = (r, a) \<and> 0 \<le> r \<and> view a = (ts, Some (2 * n))"
    using ok(2) [unfolded map_law_def, THEN conjunct1, rule_format, of de] by (cases "enter_map (xnc X) de") simp
  show "view (leave_container (xnc X) de a) = (fst (view a), pass (snd (view de)))" using ok(1) by (simp add: array_law_def)
qed

lemma caps_complete: "skip_items (2 * length caps) (concat (map cap_report_tokens caps)) = Some []"
proof (induction caps)
  case (Cons c caps)
  obtain nm tm where c: "c = (nm, tm)" by fastforce
  have "skip_items (1 + 2 * length caps) (cap_tokens tm @ concat (map cap_report_tokens caps)) = Some []"
    using skip_items_add [OF cap_item] Cons by simp
  then show ?case by (simp add: c cap_report_tokens_def)
qed simp

lemma value_complete: "skip_items 1 (value_tokens v) = Some []"
proof -
  obtain tm caps where v: "v = (tm, caps)" by fastforce
  have "skip_items (1 + 1) (edge_tokens tm @ TMap (length caps) # concat (map cap_report_tokens caps)) = Some []"
    unfolding skip_items_add [OF edge_item] using caps_complete [of caps] by simp
  then show ?thesis by (simp add: v value_tokens_def numeral_2_eq_2)
qed

lemma capability_loop_merges:
  assumes "view m = (concat (map cap_report_tokens caps) @ rest, Some (2 * length caps))"
    "\<forall>(nm, tm)\<in>set caps. length nm \<le> EDGE_CAPABILITY_NAME_LEN"
  shows "\<exists>m'. capability_loop X es p e m ps = Some (0, m', merge_caps (xct X) es p e caps ps) \<and> view m' = (rest, Some 0)"
  using assms
proof (induction caps arbitrary: m ps)
  case Nil
  then have "at_end (xnc X) m" using at_endD [of m rest 0] by simp
  then show ?case using Nil by (subst capability_loop.simps) (simp add: merge_caps_def)
next
  case (Cons c caps)
  obtain nm tm where c: "c = (nm, tm)" by fastforce
  have v: "view m = (TTstr nm # cap_tokens tm @ concat (map cap_report_tokens caps) @ rest, Some (2 + 2 * length caps))"
    using Cons.prems(1) by (simp add: c cap_report_tokens_def)
  have end1: "\<not> at_end (xnc X) m" using at_endD [OF v] by simp
  have "get_law view (get_tstr (xnc X)) tstr_val" using nc by (simp add: nanocbor_ok_def)
  then obtain r m1 where g: "get_tstr (xnc X) m = (r, nm, m1)" "0 \<le> r"
      "view m1 = (cap_tokens tm @ concat (map cap_report_tokens caps) @ rest, pass (Some (2 + 2 * length caps)))"
    by (rule get_lawD [OF _ v]) (simp_all add: has_more_def)
  have more: "has_more (pass (Some (2 + 2 * length caps)))" "pass (pass (Some (2 + 2 * length caps))) = Some (2 * length caps)"
    by (simp_all add: has_more_def pass_def)
  have len: "\<not> EDGE_CAPABILITY_NAME_LEN < length nm" using Cons.prems(2) c by simp
  have names: "\<forall>(nm, tm)\<in>set caps. length nm \<le> EDGE_CAPABILITY_NAME_LEN" using Cons.prems(2) by simp
  show ?case
  proof (cases "edge_info_capability_find es (Some e) nm")
    case None
    obtain r2 m2 where k: "skip (xnc X) m1 = (r2, m2)" "0 \<le> r2" "view m2 = (concat (map cap_report_tokens caps) @ rest, Some (2 * length caps))"
      using skipD [OF g(3) more(1) cap_item] more(2) by metis
    from Cons.IH [OF k(3) names, of ps] show ?thesis
      using None end1 g(1,2) k(1,2) len by (subst capability_loop.simps) (simp add: merge_caps_def c)
  next
    case (Some d)
    obtain r2 m2 where k: "deser_cap X (m1, cap_tm0 X) = (r2, m2, tm)" "0 \<le> r2" "view m2 = (concat (map cap_report_tokens caps) @ rest, Some (2 * length caps))"
      using readsD [OF reads_cap g(3) more(1)] more(2) by metis
    from Cons.IH [OF k(3) names, of "snd (peer_info_update_capability (xct X) ps p e d tm)"] show ?thesis
      using Some end1 g(1,2) k(1,2) len by (subst capability_loop.simps) (simp add: merge_caps_def c)
  qed
qed

lemma deserialise_trust_merges:
  assumes "view dec = (value_tokens (tm, caps) @ rest, left)" "has_more left" "\<forall>(nm, tm)\<in>set caps. length nm \<le> EDGE_CAPABILITY_NAME_LEN"
  shows "\<exists>dec'. deserialise_trust_edge_and_capabilities X es p e dec ps =
      Some (0, dec', merge_caps (xct X) es p e caps (snd (peer_info_update_edge (xct X) ps p e tm))) \<and> view dec' = (rest, pass left)"
proof -
  have v: "view dec = (TArray 2 # edge_tokens tm @ TMap (length caps) # concat (map cap_report_tokens caps) @ rest, left)"
    using assms(1) by (simp add: value_tokens_def)
  obtain r a where a: "enter_array (xnc X) dec = (r, a)" "0 \<le> r" "view a = (edge_tokens tm @ TMap (length caps) # concat (map cap_report_tokens caps) @ rest, Some 2)"
    using enterD(1) [OF v assms(2)] by blast
  obtain r1 a1 where d: "deser_edge X (a, edge_tm0 X) = (r1, a1, tm)" "0 \<le> r1" "view a1 = (TMap (length caps) # concat (map cap_report_tokens caps) @ rest, Some 1)"
    using readsD [OF reads_edge a(3)] by (auto simp: has_more_def pass_def)
  obtain r2 m where m: "enter_map (xnc X) a1 = (r2, m)" "0 \<le> r2" "view m = (concat (map cap_report_tokens caps) @ rest, Some (2 * length caps))"
    using enterD(2) [OF d(3)] by (auto simp: has_more_def)
  obtain m' where l: "capability_loop X es p e m (snd (peer_info_update_edge (xct X) ps p e tm)) =
      Some (0, m', merge_caps (xct X) es p e caps (snd (peer_info_update_edge (xct X) ps p e tm)))" "view m' = (rest, Some 0)"
    using capability_loop_merges [OF m(3) assms(3)] by blast
  have arr: "view (leave_container (xnc X) a1 m') = (rest, Some 0)" using enterD(3) [of a1 m'] l(2) d(3) by (simp add: pass_def)
  have fin: "at_end (xnc X) (leave_container (xnc X) a1 m')" using at_endD [OF arr] by simp
  have out: "view (leave_container (xnc X) dec (leave_container (xnc X) a1 m')) = (rest, pass left)"
    using enterD(3) [of dec "leave_container (xnc X) a1 m'"] arr v by simp
  show ?thesis using a(1,2) d(1,2) m(1,2) l(1) fin out by (simp add: deserialise_trust_edge_and_capabilities_def)
qed

definition report_fits :: "('e, 'c) report \<Rightarrow> bool" where
  "report_fits rep \<longleftrightarrow> (\<forall>(a, tm, caps)\<in>set rep. length a = 16 \<and> (\<forall>(nm, ctm)\<in>set caps. length nm \<le> EDGE_CAPABILITY_NAME_LEN))"

lemma edge_loop_merges:
  assumes "view m = (concat (map edge_report_tokens rep) @ rest, Some (2 * length rep))" "report_fits rep"
  shows "\<exists>m'. edge_loop X es p m ps = Some (0, m', merge_report (xct X) es p rep ps) \<and> view m' = (rest, Some 0)"
  using assms
proof (induction rep arbitrary: m ps)
  case Nil
  then have "at_end (xnc X) m" using at_endD [of m rest 0] by simp
  then show ?case using Nil by (subst edge_loop.simps) (simp add: merge_report_def)
next
  case (Cons x rep)
  obtain a tm caps where x: "x = (a, tm, caps)" by (metis prod.collapse)
  have fits: "length a = 16" "\<forall>(nm, ctm)\<in>set caps. length nm \<le> EDGE_CAPABILITY_NAME_LEN" "report_fits rep"
    using Cons.prems(2) by (auto simp: x report_fits_def)
  have v: "view m = (TBstr a # value_tokens (tm, caps) @ concat (map edge_report_tokens rep) @ rest, Some (2 + 2 * length rep))"
    using Cons.prems(1) by (simp add: x edge_report_tokens_def)
  have end1: "\<not> at_end (xnc X) m" using at_endD [OF v] by simp
  have "get_law view (get_bstr (xnc X)) bstr_val" using nc by (simp add: nanocbor_ok_def)
  then obtain r m1 where b: "get_bstr (xnc X) m = (r, a, m1)" "0 \<le> r"
      "view m1 = (value_tokens (tm, caps) @ concat (map edge_report_tokens rep) @ rest, pass (Some (2 + 2 * length rep)))"
    by (rule get_lawD [OF _ v]) (simp_all add: has_more_def)
  have g: "nanocbor_get_ipaddr (xnc X) m = (0, a, m1)" using b(1,2) fits(1) by (simp add: nanocbor_get_ipaddr_def NANOCBOR_GET_OBJECT_def)
  have more: "has_more (pass (Some (2 + 2 * length rep)))" "pass (pass (Some (2 + 2 * length rep))) = Some (2 * length rep)"
    by (simp_all add: has_more_def pass_def)
  show ?case
  proof (cases "edge_info_find_addr es a")
    case None
    obtain r2 m2 where k: "skip (xnc X) m1 = (r2, m2)" "0 \<le> r2" "view m2 = (concat (map edge_report_tokens rep) @ rest, Some (2 * length rep))"
      using skipD [OF b(3) more(1) value_complete] more(2) by metis
    from Cons.IH [OF k(3) fits(3), of ps] show ?thesis
      using None end1 g k(1,2) by (subst edge_loop.simps) (simp add: merge_report_def x)
  next
    case (Some e)
    obtain m2 where k: "deserialise_trust_edge_and_capabilities X es p e m1 ps =
        Some (0, m2, merge_caps (xct X) es p e caps (snd (peer_info_update_edge (xct X) ps p e tm)))"
        "view m2 = (concat (map edge_report_tokens rep) @ rest, Some (2 * length rep))"
      using deserialise_trust_merges [OF b(3) more(1) fits(2)] more(2) by metis
    from Cons.IH [OF k(2) fits(3), of "merge_caps (xct X) es p e caps (snd (peer_info_update_edge (xct X) ps p e tm))"] show ?thesis
      using Some end1 g k(1) by (subst edge_loop.simps) (simp add: merge_report_def x)
  qed
qed

lemma process_received_trust_merges:
  assumes "view (decoder_init (xnc X) buf) = (report_tokens secs rep @ rest, None)" "report_fits rep"
    "peer_info_add (xct X) (ptm_init X) ps src = (Some p, ps1)"
  shows "process_received_trust X es src buf ps =
    Some (0, merge_report (xct X) es p rep (upd_peer p (\<lambda>p. p\<lparr>last_seen := secs\<rparr>) ps1))"
proof -
  let ?ps = "upd_peer p (\<lambda>p. p\<lparr>last_seen := secs\<rparr>) ps1"
  have v: "view (decoder_init (xnc X) buf) = (TArray 2 # TUint (unat secs) # TMap (length rep) # concat (map edge_report_tokens rep) @ rest, None)"
    using assms(1) by (simp add: report_tokens_def)
  obtain r a where a: "enter_array (xnc X) (decoder_init (xnc X) buf) = (r, a)" "0 \<le> r"
      "view a = (TUint (unat secs) # TMap (length rep) # concat (map edge_report_tokens rep) @ rest, Some 2)"
    using enterD(1) [OF v] by (auto simp: has_more_def)
  have "get_law view (get_uint32 (xnc X)) uint_val" using nc by (simp add: nanocbor_ok_def)
  then obtain r1 a1 where g: "get_uint32 (xnc X) a = (r1, secs, a1)" "0 \<le> r1"
      "view a1 = (TMap (length rep) # concat (map edge_report_tokens rep) @ rest, pass (Some 2))"
    using get_lawD [OF _ a(3), of "get_uint32 (xnc X)" uint_val secs] uint_val_unat [of secs] by (metis has_more_def option.inject zero_neq_numeral)
  obtain r2 m where m: "enter_map (xnc X) a1 = (r2, m)" "0 \<le> r2" "view m = (concat (map edge_report_tokens rep) @ rest, Some (2 * length rep))"
    using enterD(2) [OF g(3)] by (auto simp: has_more_def pass_def)
  obtain m' where l: "edge_loop X es p m ?ps = Some (0, m', merge_report (xct X) es p rep ?ps)" "view m' = (rest, Some 0)"
    using edge_loop_merges [OF m(3) assms(2)] by blast
  have "view (leave_container (xnc X) a1 m') = (rest, Some 0)" using enterD(3) [of a1 m'] l(2) g(3) by (simp add: pass_def)
  from at_endD [OF this] at_endD [OF l(2)] show ?thesis
    using a(1,2) g(1,2) m(1,2) l(1) by (simp add: process_received_trust_def assms(3))
qed

end

subsection \<open>The exchange with the basic trust model\<close>

definition basic_codec ::
  "contiki \<Rightarrow> ('en, 'de) nanocbor \<Rightarrow> ('p \<Rightarrow> 'p) \<Rightarrow> edge_resource_tm_basic \<Rightarrow> edge_capability_tm_basic \<Rightarrow>
    ('p, edge_resource_tm_basic, edge_capability_tm_basic, 'en, 'de) tm_codec" where
  "basic_codec CT NC ini tm0 ctm0 = \<lparr>xct = CT, xnc = NC, ser_edge = serialise_trust_edge_resource_basic NC, ser_cap = serialise_trust_edge_capability_basic NC,
     deser_edge = deserialise_trust_edge_resource_basic NC, deser_cap = deserialise_trust_edge_capability_basic NC, ptm_init = ini, edge_tm0 = tm0, cap_tm0 = ctm0\<rparr>"

definition cap_tm_tokens :: "edge_capability_tm_basic \<Rightarrow> token list" where
  "cap_tm_tokens tm = TArray 1 # beta_tokens (result_quality tm)"

lemma basic_codec_sel [simp]:
  "xct (basic_codec CT NC ini tm0 ctm0) = CT" "xnc (basic_codec CT NC ini tm0 ctm0) = NC" "ptm_init (basic_codec CT NC ini tm0 ctm0) = ini"
  "ser_edge (basic_codec CT NC ini tm0 ctm0) = serialise_trust_edge_resource_basic NC" "ser_cap (basic_codec CT NC ini tm0 ctm0) = serialise_trust_edge_capability_basic NC"
  "deser_edge (basic_codec CT NC ini tm0 ctm0) = deserialise_trust_edge_resource_basic NC"
  "deser_cap (basic_codec CT NC ini tm0 ctm0) = deserialise_trust_edge_capability_basic NC"
  by (simp_all add: basic_codec_def)

lemma consumes_basic:
  assumes "nanocbor_ok written view NC"
  shows "consumes view (deserialise_trust_edge_resource_basic NC)" "consumes view (deserialise_trust_edge_capability_basic NC)"
proof -
  have "get_law view (get_uint32 NC) uint_val" using assms by (simp add: nanocbor_ok_def)
  then have "consumes view (beta_dist_deserialise NC)"
    unfolding beta_dist_deserialise_def by (intro consumes_in_array [OF assms] consumes_Cons consumes_Nil consumes_into)
  then show "consumes view (deserialise_trust_edge_resource_basic NC)" "consumes view (deserialise_trust_edge_capability_basic NC)"
    unfolding deserialise_trust_edge_resource_basic_def deserialise_trust_edge_capability_basic_def
    by (intro consumes_in_array [OF assms] consumes_Cons consumes_Nil consumes_on_field; assumption)+
qed

lemma trust_codec_basic:
  assumes "contiki_ok CT" "nanocbor_ok written view NC"
  shows "trust_codec written view (basic_codec CT NC ini tm0 ctm0) edge_tm_tokens cap_tm_tokens"
  by unfold_locales
    (use assms emits_edge_tm [OF assms(2)] emits_cap_tm [OF assms(2)] reads_edge_tm [OF assms(2)] reads_cap_tm [OF assms(2)] consumes_basic [OF assms(2)]
      in \<open>simp_all add: cap_tm_tokens_def\<close>)

text \<open>The library passes over any complete item; its limit on nesting is far above what reports need.\<close>

definition skips_items :: "'de view \<Rightarrow> ('en, 'de) nanocbor \<Rightarrow> bool" where
  "skips_items view NC \<longleftrightarrow> (\<forall>de rest. has_more (snd (view de)) \<longrightarrow> skip_items 1 (fst (view de)) = Some rest \<longrightarrow> 0 \<le> fst (skip NC de))"

lemma trust_codec_skip_basic:
  assumes "contiki_ok CT" "nanocbor_ok written view NC" "skips_items view NC"
  shows "trust_codec_skip written view (basic_codec CT NC ini tm0 ctm0) edge_tm_tokens cap_tm_tokens"
proof -
  show ?thesis
    using trust_codec_basic [OF assms(1,2), of ini tm0 ctm0] assms(3)
    unfolding trust_codec_skip_def trust_codec_skip_axioms_def
    by (auto simp: skips_items_def edge_tm_tokens_def cap_tm_tokens_def beta_tokens_def numeral_eq_Suc)
qed

lemma ref_skips: "skips_items (\<lambda>de. de) ref_nanocbor"
  by (auto simp: skips_items_def ref_nanocbor_def split: option.splits)

interpretation basic_exchange: trust_codec_skip "\<lambda>en. en" "\<lambda>de. de" "basic_codec ref_contiki ref_nanocbor ini tm0 ctm0" edge_tm_tokens cap_tm_tokens for ini tm0 ctm0
  by (rule trust_codec_skip_basic [OF ref_contiki_ok ref_nanocbor_ok ref_skips])

subsection \<open>Properties\<close>

text \<open>
  C16: whatever a peer sends as its trust report, the node's reading of it ends, keeps the records on peers well formed, and adds or changes records of that peer only.
\<close>

theorem process_received_trust_safe:
  assumes "contiki_ok CT" "nanocbor_ok written view NC" "peer_info_ok ps"
  shows "\<exists>r ps'. process_received_trust (basic_codec CT NC ini tm0 ctm0) es src buf ps = Some (r, ps') \<and> peer_info_ok ps' \<and>
    (\<forall>q\<in>set (peers ps). peer_addr (peer_mem ps q) \<noteq> src \<longrightarrow> q \<in> set (peers ps') \<and> peer_reports ps' q = peer_reports ps q)"
  by (rule trust_codec.process_received_trust_returns [OF trust_codec_basic [OF assms(1,2)] assms(3)])

text \<open>Sender and receiver know the same edge.\<close>

definition fresh_trust :: edge_resource_tm_basic where
  "fresh_trust = \<lparr>task_submission = fresh_beta, task_result = fresh_beta\<rparr>"

definition fresh_cap_trust :: edge_capability_tm_basic where
  "fresh_cap_trust = \<lparr>result_quality = fresh_beta\<rparr>"

definition example_edges :: "(edge_resource_tm_basic, edge_capability_tm_basic) edge_info" where
  "example_edges = one_edge_info fresh_trust fresh_cap_trust"

definition basic_peer0 :: "(unit, edge_resource_tm_basic, edge_capability_tm_basic) peer_info" where
  "basic_peer0 = \<lparr>peers_memb = {3}, peer_edges_memb = {}, peer_capabilities_memb = {}, peers = [3],
     peer_mem = (\<lambda>_. \<lparr>peer_addr = [253, 3], last_seen = 0, peer_tm = (), peer_edges = []\<rparr>),
     pedge_mem = (\<lambda>_. \<lparr>pe_edge = 0, pe_tm = \<lparr>task_submission = fresh_beta, task_result = fresh_beta\<rparr>, pe_capabilities = []\<rparr>),
     pcap_mem = (\<lambda>_. \<lparr>pc_cap = 0, pc_tm = \<lparr>result_quality = fresh_beta\<rparr>\<rparr>)\<rparr>"

lemma basic_peer0_ok: "peer_info_ok basic_peer0"
  by (simp add: peer_info_ok_def peers_ok_def pedges_ok_def pcaps_ok_def owned_def basic_peer0_def NUM_PEERS_def edges_of_def)

theorem process_received_trust_safe_witness:
  "\<exists>r ps'. process_received_trust (basic_codec ref_contiki ref_nanocbor (\<lambda>_. ()) fresh_trust fresh_cap_trust) example_edges [1] [0, 1] basic_peer0 = Some (r, ps') \<and> peer_info_ok ps' \<and>
    peer_reports ps' 3 = peer_reports basic_peer0 3"
proof -
  have "3 \<in> set (peers basic_peer0)" "peer_addr (peer_mem basic_peer0 3) \<noteq> [1]" by (simp_all add: basic_peer0_def)
  then show ?thesis
    using process_received_trust_safe [OF ref_contiki_ok ref_nanocbor_ok basic_peer0_ok, of "\<lambda>_. ()" fresh_trust fresh_cap_trust example_edges "[1]" "[0, 1]"] by blast
qed

lemma cstr_buffer:
  assumes "names_ok es"
  shows "length (cstr (cap_name (cap_mem es c))) \<le> EDGE_CAPABILITY_NAME_LEN"
proof (rule ccontr)
  let ?s = "cap_name (cap_mem es c)"
  assume "\<not> length (cstr ?s) \<le> EDGE_CAPABILITY_NAME_LEN"
  then have long: "EDGE_CAPABILITY_NAME_LEN < length (takeWhile (\<lambda>c. c \<noteq> NUL) ?s)" by (simp add: cstr_def)
  have "?s ! EDGE_CAPABILITY_NAME_LEN = takeWhile (\<lambda>c. c \<noteq> NUL) ?s ! EDGE_CAPABILITY_NAME_LEN"
    using takeWhile_nth [OF long] by simp
  then have "?s ! EDGE_CAPABILITY_NAME_LEN \<noteq> NUL" using nth_mem [OF long] by (auto dest: set_takeWhileD)
  then show False using assms by (simp add: names_ok_def)
qed

definition addresses_ok :: "('e, 'c) edge_info \<Rightarrow> bool" where
  "addresses_ok es \<longleftrightarrow> (\<forall>e\<in>set (edge_resources es). length (ipaddr (ep (edge_mem es e))) = 16)"

lemma report_of_fits:
  assumes "edge_info_ok es" "addresses_ok es"
  shows "\<forall>(a, tm, caps)\<in>set (report_of es (edge_resources es)). length a = 16 \<and> (\<forall>(nm, ctm)\<in>set caps. length nm \<le> EDGE_CAPABILITY_NAME_LEN)"
proof -
  have "names_ok es" using assms(1) by (simp add: edge_info_ok_def)
  from cstr_buffer [OF this] show ?thesis using assms(2) by (auto simp: report_of_def addresses_ok_def)
qed

lemma exchange_merges:
  assumes "contiki_ok CT" "nanocbor_ok written view NC" "skips_items view NC" "edge_info_ok es" "addresses_ok es"
    "serialise_trust (basic_codec CT NC ini tm0 ctm0) es secs None n = Some (r, enc)" "0 \<le> r"
    "written (encoder_init NC n) = []" "view (decoder_init NC buf) = (written enc, None)"
    "peer_info_add CT ini ps src = (Some p, ps1)"
  shows "process_received_trust (basic_codec CT NC ini tm0 ctm0) es' src buf ps =
    Some (0, merge_report CT es' p (report_of es (edge_resources es)) (upd_peer p (\<lambda>p. p\<lparr>last_seen := secs\<rparr>) ps1))"
proof -
  note codec = trust_codec_skip_basic [OF assms(1-3), of ini tm0 ctm0]
  have v: "view (decoder_init (xnc (basic_codec CT NC ini tm0 ctm0)) buf) =
      (trust_codec_skip.report_tokens edge_tm_tokens cap_tm_tokens secs (report_of es (edge_resources es)) @ [], None)"
    using trust_codec_skip.serialise_trust_emits [OF codec assms(6,7)] assms(8,9) by simp
  have "trust_codec_skip.report_fits (report_of es (edge_resources es))"
    using report_of_fits [OF assms(4,5)] trust_codec_skip.report_fits_def [OF codec] by simp
  from trust_codec_skip.process_received_trust_merges [OF codec v this, of ps src p ps1 es']
  show ?thesis using assms(10) by simp
qed

lemma report_of_distinct:
  assumes "edge_info_ok es"
  shows "distinct (map fst (report_of es (edge_resources es)))" "\<forall>(a, tm, caps)\<in>set (report_of es edges). \<forall>nm\<in>fst ` set caps. cstr nm = nm"
proof -
  have "map fst (report_of es (edge_resources es)) = map (\<lambda>e. ipaddr (ep (edge_mem es e))) (edge_resources es)" by (simp add: report_of_def)
  then show "distinct (map fst (report_of es (edge_resources es)))" using assms by (simp add: distinct_map edge_info_ok_def edges_ok_def)
  have "cstr (cstr x) = cstr x" for x by (auto simp: cstr_def takeWhile_eq_all_conv dest: set_takeWhileD)
  then show "\<forall>(a, tm, caps)\<in>set (report_of es edges). \<forall>nm\<in>fst ` set caps. cstr nm = nm" by (auto simp: report_of_def)
qed

text \<open>The time of a report is no part of the maps.\<close>

lemma maps_last_seen [simp]:
  "edge_trust (upd_peer q (\<lambda>r. r\<lparr>last_seen := w\<rparr>) ps) p = edge_trust ps p" "cap_trust (upd_peer q (\<lambda>r. r\<lparr>last_seen := w\<rparr>) ps) p = cap_trust ps p"
proof -
  have "peer_info_find_edge (upd_peer q (\<lambda>r. r\<lparr>last_seen := w\<rparr>) ps) p e = peer_info_find_edge ps p e" for e by (simp add: peer_info_find_edge_def)
  moreover have "peer_info_find_capability (upd_peer q (\<lambda>r. r\<lparr>last_seen := w\<rparr>) ps) pe c = peer_info_find_capability ps pe c" for pe c
    by (simp add: peer_info_find_capability_def)
  ultimately show "edge_trust (upd_peer q (\<lambda>r. r\<lparr>last_seen := w\<rparr>) ps) p = edge_trust ps p" "cap_trust (upd_peer q (\<lambda>r. r\<lparr>last_seen := w\<rparr>) ps) p = cap_trust ps p"
    by (simp_all add: edge_trust_def cap_trust_def fun_eq_iff split: option.split)
qed

lemma merged_report_learned:
  assumes "contiki_ok CT" "edge_info_ok es" "edge_info_ok es'" "peer_info_ok ps" "peer_info_add CT ini ps src = (Some p, ps1)"
    "ps' = merge_report CT es' p (report_of es (edge_resources es)) (upd_peer p (\<lambda>p. p\<lparr>last_seen := secs\<rparr>) ps1)"
  shows "peer_info_find ps' src = Some p \<and> learned es' p (report_of es (edge_resources es)) ps1 ps' \<and> (records_current es' p ps1 \<longrightarrow> all_stored es' p (report_of es (edge_resources es)) ps')"
proof -
  let ?ps = "upd_peer p (\<lambda>p. p\<lparr>last_seen := secs\<rparr>) ps1" and ?rep = "report_of es (edge_resources es)"
  have ok: "peer_info_ok ps1" using peer_info_add_ok [OF assms(1,4), of ini src] assms(5) by simp
  have f: "peer_info_find ps1 src = Some p" by (rule peer_info_add_find [OF assms(1,4,5)])
  then have p: "p \<in> set (peers ps1)" "peer_addr (peer_mem ps1 p) = src" using peer_find_iff [OF ok] by simp_all
  have "peer_info_ok ?ps" "p \<in> set (peers ?ps)" using ok p by (simp_all add: ok_last_seen)
  from merge_report_learned [OF assms(1) this report_of_distinct [OF assms(2)], of es'] have l: "peer_info_ok ps'" "peers ps' = peers ps1" "learned es' p ?rep ?ps ps'"
    by (simp_all add: assms(6))
  have l1: "learned es' p ?rep ps1 ps'" using l(3) by (simp add: learned_def)
  have "peer_addr (peer_mem ps' p) = src" using merge_report_addr [of CT es' p ?rep ?ps p] p(2) by (simp add: assms(6))
  then have "peer_info_find ps' src = Some p" using peer_find_iff [OF l(1)] l(2) p(1) by simp
  then show ?thesis using l1 learned_all [OF assms(3) l1] by blast
qed

text \<open>
  C15: what a node broadcasts is what its neighbours learn.  When a node encodes its trust in all its edges and a neighbour that has room for the sender decodes these bytes, its records on the
  sender, read as maps from the edges and capabilities it knows itself, hold the trust that was sent, and all other entries are as before.  An entry is missing only when the sender's share is
  used up, which happens only when the neighbour still has records on edges or capabilities it no longer knows.
\<close>

theorem trust_exchange_roundtrip:
  assumes "contiki_ok CT" "nanocbor_ok written view NC" "skips_items view NC" "edge_info_ok es" "addresses_ok es"
    "serialise_trust (basic_codec CT NC ini tm0 ctm0) es secs None n = Some (r, enc)" "0 \<le> r"
    "written (encoder_init NC n) = []" "view (decoder_init NC buf) = (written enc, None)"
    "edge_info_ok es'" "peer_info_ok ps" "peer_info_add CT ini ps src = (Some p, ps1)"
  shows "\<exists>ps'. process_received_trust (basic_codec CT NC ini tm0 ctm0) es' src buf ps = Some (0, ps') \<and> peer_info_find ps' src = Some p \<and>
    learned es' p (report_of es (edge_resources es)) ps1 ps' \<and> (records_current es' p ps1 \<longrightarrow> all_stored es' p (report_of es (edge_resources es)) ps')"
  using exchange_merges [OF assms(1-9,12), of es'] merged_report_learned [OF assms(1,4,10,11,12) refl, of secs] by blast

definition example_message :: "token list" where
  "example_message = [TArray 2, TUint 9, TMap 1, TBstr (replicate 16 1), TArray 2] @ edge_tm_tokens fresh_trust @ [TMap 1, TTstr ''envmon''] @ cap_tm_tokens fresh_cap_trust"

definition example_nc :: "(token list, token list \<times> nat option) nanocbor" where
  "example_nc = ref_nanocbor\<lparr>decoder_init := \<lambda>_. (example_message, None), encoded_len := \<lambda>_. 20\<rparr>"

lemma example_nc_buffer: "nanocbor_ok (\<lambda>en. en) (\<lambda>de. de) (example_nc\<lparr>enc_buffer := b\<rparr>)" "skips_items (\<lambda>de. de) (example_nc\<lparr>enc_buffer := b\<rparr>)"
  using ref_nanocbor_ok ref_skips
  unfolding nanocbor_ok_def skips_items_def array_law_def map_law_def by (simp_all add: example_nc_def)

lemma example_nc_ok: "nanocbor_ok (\<lambda>en. en) (\<lambda>de. de) example_nc" "skips_items (\<lambda>de. de) example_nc"
  using example_nc_buffer [of "enc_buffer example_nc"] by simp_all

lemma example_serialise_buffer:
  assumes "20 \<le> n"
  shows "serialise_trust (basic_codec ref_contiki (example_nc\<lparr>enc_buffer := b\<rparr>) ini tm0 ctm0) example_edges 9 None n = Some (20, example_message)"
proof -
  let ?nc = "example_nc\<lparr>enc_buffer := b\<rparr>"
  have nc: "fmt_array ?nc = (\<lambda>en n. (1, en @ [TArray n]))" "fmt_uint ?nc = (\<lambda>en n. (1, en @ [TUint n]))"
    "fmt_map ?nc = (\<lambda>en n. (1, en @ [TMap n]))" "put_tstr ?nc = (\<lambda>en b. (1, en @ [TTstr b]))" "put_bstr ?nc = (\<lambda>en b. (1, en @ [TBstr b]))"
    "encoder_init ?nc = (\<lambda>_. [])" "encoded_len ?nc = (\<lambda>_. 20)"
    by (simp_all add: example_nc_def ref_nanocbor_def)
  have es: "edge_resources example_edges = [0]" "ipaddr (ep (edge_mem example_edges 0)) = replicate 16 1" "edge_tm (edge_mem example_edges 0) = fresh_trust"
    "capabilities (edge_mem example_edges 0) = [0]" "cstr (cap_name (cap_mem example_edges 0)) = ''envmon''" "cap_tm (cap_mem example_edges 0) = fresh_cap_trust"
    by (simp_all add: example_edges_def one_edge_info_def cstr_def NUL_def)
  show ?thesis
    using assms by (simp add: serialise_trust_def report_header_def edge_report_def serialise_trust_edge_and_capabilities_def nanocbor_fmt_ipaddr_def
        serialise_trust_edge_resource_basic_def serialise_trust_edge_capability_basic_def beta_dist_serialise_def edge_info_count_def Let_def nc es
        example_message_def edge_tm_tokens_def cap_tm_tokens_def beta_tokens_def)
qed

lemma example_serialise:
  "serialise_trust (basic_codec ref_contiki example_nc (\<lambda>_. ()) tm0 ctm0) example_edges 9 None 100 = Some (20, example_message)"
  using example_serialise_buffer [of 100 "enc_buffer example_nc"] by simp

theorem trust_exchange_roundtrip_witness:
  "\<exists>ps'. process_received_trust (basic_codec ref_contiki example_nc (\<lambda>_. ()) fresh_trust fresh_cap_trust) example_edges [253, 3] [] basic_peer0 = Some (0, ps') \<and>
    edge_trust ps' 3 0 = Some fresh_trust \<and> cap_trust ps' 3 0 0 = Some fresh_cap_trust"
proof -
  have es: "edge_info_ok example_edges" "addresses_ok example_edges"
    by (simp_all add: example_edges_def one_edge_info_ok addresses_ok_def) (simp add: one_edge_info_def)
  have rep: "report_of example_edges (edge_resources example_edges) = [(replicate 16 1, fresh_trust, [(''envmon'', fresh_cap_trust)])]"
    by (simp add: report_of_def example_edges_def one_edge_info_def cstr_def NUL_def)
  have peer: "peer_info_add ref_contiki (\<lambda>_. ()) basic_peer0 [253, 3] = (Some 3, basic_peer0)"
    by (rule peer_info_add_known) (simp add: peer_info_find_def basic_peer0_def)
  have nc: "encoder_init example_nc 100 = []" "decoder_init example_nc [] = (example_message, None)" by (simp_all add: example_nc_def ref_nanocbor_def)
  have "dom (edge_trust basic_peer0 3) = {}" "dom (cap_trust basic_peer0 3 e) = {}" for e
    by (simp_all add: dom_def edge_trust_def cap_trust_def peer_info_find_edge_def basic_peer0_def)
  then have cur: "records_current example_edges 3 basic_peer0" by (simp add: records_current_def)
  have find: "edge_info_find_addr example_edges (replicate 16 1) = Some 0" "edge_info_capability_find example_edges (Some 0) ''envmon'' = Some 0"
    by (simp_all add: example_edges_def one_edge_info_def edge_info_find_addr_def edge_info_capability_find_def cstr_def NUL_def)
  obtain ps' where ps': "process_received_trust (basic_codec ref_contiki example_nc (\<lambda>_. ()) fresh_trust fresh_cap_trust) example_edges [253, 3] [] basic_peer0 = Some (0, ps')"
      "all_stored example_edges 3 (report_of example_edges (edge_resources example_edges)) ps'"
    using trust_exchange_roundtrip [OF ref_contiki_ok example_nc_ok es example_serialise _ nc(1) _ es(1) basic_peer0_ok peer, of "[]"] nc cur by auto
  have "edge_trust ps' 3 0 = Some fresh_trust \<and> cap_trust ps' 3 0 0 = Some fresh_cap_trust"
    using ps'(2) [unfolded all_stored_def rep] find by auto
  then show ?thesis using ps'(1) by blast
qed

end
