(* ===== verification/Mqtt_Over_Coap.thy ===== *)
theory Mqtt_Over_Coap
  imports Trust_Common Timed_Unlock
begin

text \<open>
  \<open>src/wsn/common/mqtt-over-coap/mqtt-over-coap.{h,c}\<close>: publishing on topics and subscribing to them with CoAP requests to the root.  There is one request at
  a time, guarded by a self-opening lock.  The answers of CoAP and the network are inputs: whether there is connectivity, whether the root is connected, whether a request could
  be sent.  \<open>pending\<close> says which request's callback CoAP holds, \<open>machine_posted\<close> counts the events posted to the client's own process, the two timers are
  flags.  Log output and the protection by OSCORE are left out.
\<close>

datatype topic_subscribe_status = TOPIC_STATE_NOT_SUBSCRIBED | TOPIC_STATE_SUBSCRIBING | TOPIC_STATE_SUBSCRIBED

datatype mqtt_request = Publish | Subscribe

datatype coap_put_get = CoapPut string "u8 list" | CoapGet string

datatype coap_request_status = COAP_REQUEST_STATUS_RESPONSE nat | COAP_REQUEST_STATUS_FINISHED | COAP_REQUEST_STATUS_FAILED

record mqtt_client =
  topic_subscribe_status :: "topic_subscribe_status list"
  coap_callback_in_use :: timed_unlock
  coap_callback_i :: nat
  pending :: "mqtt_request option"
  publish_periodic_timer :: bool
  echo_request_timer :: bool
  machine_posted :: nat
  sent_requests :: "coap_put_get list"
  root_connects :: nat
  pings :: nat

record mqtt_env =
  topics :: "string list"
  have_connectivity :: bool
  root_connected :: bool
  send_request :: int
  mq_now :: nat
  max_coap_payload :: nat
  created_code :: nat

definition MQTT_TOPIC_QUERY_NAME :: string where "MQTT_TOPIC_QUERY_NAME = ''t''"

definition MAX_QUERY_LEN :: nat where "MAX_QUERY_LEN = 128"

text \<open>The topics of the trust component.\<close>

definition topics_to_suscribe :: "string list" where
  "topics_to_suscribe =
     [MQTT_EDGE_NAMESPACE @ ''/+/'' @ MQTT_EDGE_ACTION_ANNOUNCE,
      MQTT_EDGE_NAMESPACE @ ''/+/'' @ MQTT_EDGE_ACTION_UNANNOUNCE,
      MQTT_EDGE_NAMESPACE @ ''/+/'' @ MQTT_EDGE_ACTION_CAPABILITY @ ''/+/'' @ MQTT_EDGE_ACTION_CAPABILITY_ADD,
      MQTT_EDGE_NAMESPACE @ ''/+/'' @ MQTT_EDGE_ACTION_CAPABILITY @ ''/+/'' @ MQTT_EDGE_ACTION_CAPABILITY_REMOVE]"

text \<open>\<open>snprintf\<close> into the buffer for the query: the length it would need, and what fits.\<close>

definition uri_query :: "string \<Rightarrow> nat \<times> string" where
  "uri_query topic = (let q = MQTT_TOPIC_QUERY_NAME @ ''='' @ cstr topic in (length q, take (MAX_QUERY_LEN - 1) q))"

definition topic_init :: "mqtt_env \<Rightarrow> mqtt_client \<Rightarrow> mqtt_client" where
  "topic_init E m = m\<lparr>topic_subscribe_status := replicate (length (topics E)) TOPIC_STATE_NOT_SUBSCRIBED\<rparr>"

definition set_lock :: "(timed_unlock \<Rightarrow> timed_unlock) \<Rightarrow> mqtt_client \<Rightarrow> mqtt_client" where
  "set_lock f m = m\<lparr>coap_callback_in_use := f (coap_callback_in_use m)\<rparr>"

text \<open>\<open>coap_send_request\<close>: when it returns 0 nothing was sent.\<close>

definition coap_send :: "mqtt_env \<Rightarrow> coap_put_get \<Rightarrow> mqtt_request \<Rightarrow> mqtt_client \<Rightarrow> mqtt_client" where
  "coap_send E req kind m =
     (if send_request E \<noteq> 0 then m\<lparr>sent_requests := sent_requests m @ [req], pending := Some kind\<rparr> else m)"

text \<open>\<open>None\<close> is a payload that does not fit the buffer it is copied to.\<close>

definition mqtt_over_coap_publish :: "mqtt_env \<Rightarrow> string \<Rightarrow> u8 list \<Rightarrow> mqtt_client \<Rightarrow> (bool \<times> mqtt_client) option" where
  "mqtt_over_coap_publish E topic payload m =
     (if timed_unlock_is_locked (coap_callback_in_use m) then Some (False, m)
      else if \<not> root_connected E then Some (False, m)
      else let m = set_lock (timed_unlock_lock (mq_now E)) m;
               (ret, query) = uri_query topic
      in if ret = 0 \<or> MAX_QUERY_LEN \<le> ret then Some (False, set_lock timed_unlock_unlock m)
         else if max_coap_payload E < length payload then None
         else let m = coap_send E (CoapPut query payload) Publish m
           in Some (send_request E \<noteq> 0, if send_request E \<noteq> 0 then m else set_lock timed_unlock_unlock m))"

definition publish_callback :: "coap_request_status \<Rightarrow> mqtt_client \<Rightarrow> mqtt_client" where
  "publish_callback status m =
     (case status of
        COAP_REQUEST_STATUS_RESPONSE _ \<Rightarrow> m
      | COAP_REQUEST_STATUS_FINISHED \<Rightarrow> set_lock timed_unlock_unlock m
      | COAP_REQUEST_STATUS_FAILED \<Rightarrow> set_lock timed_unlock_unlock m)"

definition mqtt_over_coap_subscribe :: "mqtt_env \<Rightarrow> string \<Rightarrow> nat \<Rightarrow> mqtt_client \<Rightarrow> int \<times> mqtt_client" where
  "mqtt_over_coap_subscribe E topic msg_id m =
     (if timed_unlock_is_locked (coap_callback_in_use m) then (- 1, m)
      else let m = set_lock (timed_unlock_lock (mq_now E)) m;
               (ret, query) = uri_query topic
      in if ret = 0 \<or> MAX_QUERY_LEN \<le> ret then (- 1, m)
         else let m = coap_send E (CoapGet query) Subscribe m
           in (send_request E, if send_request E \<noteq> 0 then m\<lparr>coap_callback_i := msg_id\<rparr> else set_lock timed_unlock_unlock m))"

fun subscribe_loop :: "mqtt_env \<Rightarrow> nat list \<Rightarrow> mqtt_client \<Rightarrow> mqtt_client" where
  "subscribe_loop E [] m = m"
| "subscribe_loop E (i # is) m =
     (if topic_subscribe_status m ! i \<noteq> TOPIC_STATE_NOT_SUBSCRIBED then subscribe_loop E is m
      else let (ret, m) = mqtt_over_coap_subscribe E (topics E ! i) i m in
        if ret \<noteq> 0 then m\<lparr>topic_subscribe_status := (topic_subscribe_status m)[i := TOPIC_STATE_SUBSCRIBING]\<rparr>
        else subscribe_loop E is (m\<lparr>publish_periodic_timer := True\<rparr>))"

definition subscribe :: "mqtt_env \<Rightarrow> mqtt_client \<Rightarrow> mqtt_client" where
  "subscribe E m = subscribe_loop E [0..<length (topics E)] m"

definition subscribe_callback_end :: "mqtt_client \<Rightarrow> mqtt_client" where
  "subscribe_callback_end m = (set_lock timed_unlock_unlock m)\<lparr>machine_posted := machine_posted m + 1\<rparr>"

definition subscribe_callback :: "mqtt_env \<Rightarrow> coap_request_status \<Rightarrow> mqtt_client \<Rightarrow> mqtt_client" where
  "subscribe_callback E status m =
     (let i = coap_callback_i m; set_status = (\<lambda>st m. m\<lparr>topic_subscribe_status := (topic_subscribe_status m)[i := st]\<rparr>) in
      case status of
        COAP_REQUEST_STATUS_RESPONSE code \<Rightarrow>
          set_status (if code = created_code E then TOPIC_STATE_SUBSCRIBED else TOPIC_STATE_NOT_SUBSCRIBED) m
      | COAP_REQUEST_STATUS_FINISHED \<Rightarrow> subscribe_callback_end m
      | COAP_REQUEST_STATUS_FAILED \<Rightarrow> subscribe_callback_end (set_status TOPIC_STATE_NOT_SUBSCRIBED m))"

text \<open>A notification without topic is refused; \<open>query\<close> is the pointer to the topic, as the memory from there on, and its length.\<close>

definition res_coap_mqtt_post_handler ::
  "('e, 'c, 'k, 'en, 'de) node_env \<Rightarrow> (string \<times> int) option \<Rightarrow> u8 list \<Rightarrow> ('e, 'c, 'k) node \<Rightarrow> (bool \<times> ('e, 'c, 'k) node) option" where
  "res_coap_mqtt_post_handler N query payload s =
     (case query of
        None \<Rightarrow> Some (False, s)
      | Some (mem, topic_len) \<Rightarrow>
          if topic_len \<le> 0 then Some (False, s)
          else map_option (\<lambda>s. (True, s)) (mqtt_publish_handler N mem (nat topic_len) payload s))"

definition ping_parent :: "mqtt_env \<Rightarrow> mqtt_client \<Rightarrow> mqtt_client" where
  "ping_parent E m = (if have_connectivity E then m\<lparr>pings := pings m + 1\<rparr> else m)\<lparr>echo_request_timer := True\<rparr>"

definition echo_reply_handler :: "bool \<Rightarrow> mqtt_client \<Rightarrow> mqtt_client" where
  "echo_reply_handler from_router m =
     (if from_router then m\<lparr>machine_posted := machine_posted m + 1, echo_request_timer := False\<rparr> else m)"

definition state_machine :: "mqtt_env \<Rightarrow> mqtt_client \<Rightarrow> mqtt_client" where
  "state_machine E m =
     (if have_connectivity E
      then if \<not> root_connected E then m\<lparr>root_connects := root_connects m + 1, publish_periodic_timer := True\<rparr>
           else subscribe E m
      else ping_parent E m)"

definition mqtt_init :: "mqtt_env \<Rightarrow> nat \<Rightarrow> nat \<Rightarrow> mqtt_client \<Rightarrow> mqtt_client" where
  "mqtt_init E CLOCK_SECOND current m =
     (set_lock (\<lambda>l. timed_unlock_init l ''mqtt-over-coap'' (60 * CLOCK_SECOND) current) (topic_init E m))\<lparr>echo_request_timer := True\<rparr>"

text \<open>The events the client's process waits for; an expired timer is off until it is set again.\<close>

datatype mqtt_event = Machine_Event | Publish_Timer | Echo_Timer

definition mqtt_client_process :: "mqtt_env \<Rightarrow> mqtt_event \<Rightarrow> mqtt_client \<Rightarrow> mqtt_client" where
  "mqtt_client_process E ev m =
     (case ev of
        Machine_Event \<Rightarrow> state_machine E (m\<lparr>machine_posted := machine_posted m - 1\<rparr>)
      | Publish_Timer \<Rightarrow> state_machine E (m\<lparr>publish_periodic_timer := False\<rparr>)
      | Echo_Timer \<Rightarrow> ping_parent E (m\<lparr>echo_request_timer := False\<rparr>))"

definition event_ready :: "mqtt_event \<Rightarrow> mqtt_client \<Rightarrow> bool" where
  "event_ready ev m = (case ev of Machine_Event \<Rightarrow> 0 < machine_posted m | Publish_Timer \<Rightarrow> publish_periodic_timer m | Echo_Timer \<Rightarrow> echo_request_timer m)"

text \<open>CoAP calls the callback of the request it holds; after the last call it holds it no more.\<close>

definition coap_callback :: "mqtt_env \<Rightarrow> coap_request_status \<Rightarrow> mqtt_client \<Rightarrow> mqtt_client" where
  "coap_callback E status m =
     (case pending m of
        None \<Rightarrow> m
      | Some kind \<Rightarrow>
          let m = (case kind of Publish \<Rightarrow> publish_callback status m | Subscribe \<Rightarrow> subscribe_callback E status m)
          in case status of COAP_REQUEST_STATUS_RESPONSE _ \<Rightarrow> m | _ \<Rightarrow> m\<lparr>pending := None\<rparr>)"

subsection \<open>Subscribing to all topics\<close>

lemma set_lock_simps [simp]:
  "topic_subscribe_status (set_lock f m) = topic_subscribe_status m" "coap_callback_in_use (set_lock f m) = f (coap_callback_in_use m)"
  "coap_callback_i (set_lock f m) = coap_callback_i m" "pending (set_lock f m) = pending m" "sent_requests (set_lock f m) = sent_requests m"
  "machine_posted (set_lock f m) = machine_posted m"
  by (simp_all add: set_lock_def)

lemma subscribe_loop_skip:
  "\<forall>j\<in>set is. topic_subscribe_status m ! j \<noteq> TOPIC_STATE_NOT_SUBSCRIBED \<Longrightarrow> subscribe_loop E (is @ js) m = subscribe_loop E js m"
  by (induction "is") simp_all

lemma subscribe_first:
  assumes "i < length (topics E)" "topic_subscribe_status m ! i = TOPIC_STATE_NOT_SUBSCRIBED"
    "\<forall>j<i. topic_subscribe_status m ! j \<noteq> TOPIC_STATE_NOT_SUBSCRIBED"
  shows "subscribe E m = subscribe_loop E (i # [Suc i..<length (topics E)]) m"
proof -
  have "[0..<length (topics E)] = [0..<i] @ i # [Suc i..<length (topics E)]"
    using assms(1) by (metis less_imp_le_nat upt_conv_Cons upt_add_eq_append le_add_diff_inverse zero_le)
  then show ?thesis unfolding subscribe_def using subscribe_loop_skip [of "[0..<i]" m E] assms(3) by simp
qed

text \<open>CoAP sends, the root answers, and the topics fit the query buffer.\<close>

definition good_env :: "mqtt_env \<Rightarrow> bool" where
  "good_env E \<longleftrightarrow> have_connectivity E \<and> root_connected E \<and> send_request E \<noteq> 0 \<and> (\<forall>t\<in>set (topics E). length (cstr t) + 2 < MAX_QUERY_LEN)"

lemma uri_query_good: "\<lbrakk>good_env E; i < length (topics E)\<rbrakk> \<Longrightarrow> fst (uri_query (topics E ! i)) \<noteq> 0 \<and> fst (uri_query (topics E ! i)) < MAX_QUERY_LEN"
  by (auto simp: good_env_def uri_query_def MQTT_TOPIC_QUERY_NAME_def Let_def)

text \<open>The client runs its state machine, and its request is answered and ends.\<close>

definition exchange :: "mqtt_env \<Rightarrow> mqtt_client \<Rightarrow> mqtt_client" where
  "exchange E m = coap_callback E COAP_REQUEST_STATUS_FINISHED (coap_callback E (COAP_REQUEST_STATUS_RESPONSE (created_code E)) (state_machine E m))"

definition idle :: "mqtt_client \<Rightarrow> bool" where
  "idle m \<longleftrightarrow> \<not> timed_unlock_is_locked (coap_callback_in_use m) \<and> pending m = None"

lemma exchange_subscribes:
  assumes "good_env E" "idle m" "length (topic_subscribe_status m) = length (topics E)" "i < length (topics E)"
    "topic_subscribe_status m ! i = TOPIC_STATE_NOT_SUBSCRIBED" "\<forall>j<i. topic_subscribe_status m ! j \<noteq> TOPIC_STATE_NOT_SUBSCRIBED"
  shows "topic_subscribe_status (exchange E m) = (topic_subscribe_status m)[i := TOPIC_STATE_SUBSCRIBED]" "idle (exchange E m)"
    "0 < machine_posted (exchange E m)"
proof -
  have q: "fst (uri_query (topics E ! i)) \<noteq> 0 \<and> fst (uri_query (topics E ! i)) < MAX_QUERY_LEN" by (rule uri_query_good [OF assms(1,4)])
  define m1 where "m1 = (coap_send E (CoapGet (snd (uri_query (topics E ! i)))) Subscribe (set_lock (timed_unlock_lock (mq_now E)) m))\<lparr>coap_callback_i := i\<rparr>"
  have "mqtt_over_coap_subscribe E (topics E ! i) i m = (send_request E, m1)"
    using q assms(1,2) by (auto simp: mqtt_over_coap_subscribe_def idle_def good_env_def m1_def split_def Let_def)
  then have s: "state_machine E m = m1\<lparr>topic_subscribe_status := (topic_subscribe_status m1)[i := TOPIC_STATE_SUBSCRIBING]\<rparr>"
    using assms(1,5) subscribe_first [OF assms(4-6)] by (simp add: state_machine_def good_env_def)
  have m1: "topic_subscribe_status m1 = topic_subscribe_status m" "pending m1 = Some Subscribe" "coap_callback_i m1 = i"
    using assms(1) by (simp_all add: m1_def coap_send_def good_env_def)
  show "topic_subscribe_status (exchange E m) = (topic_subscribe_status m)[i := TOPIC_STATE_SUBSCRIBED]" "idle (exchange E m)"
      "0 < machine_posted (exchange E m)"
    by (simp_all add: exchange_def s m1 coap_callback_def subscribe_callback_def subscribe_callback_end_def idle_def
        timed_unlock_is_locked_def timed_unlock_unlock_def set_lock_def)
qed

lemma exchanges_subscribe:
  assumes "good_env E" "idle m" "topic_subscribe_status m = replicate (length (topics E)) TOPIC_STATE_NOT_SUBSCRIBED" "k \<le> length (topics E)"
  shows "topic_subscribe_status ((exchange E ^^ k) m) = replicate k TOPIC_STATE_SUBSCRIBED @ replicate (length (topics E) - k) TOPIC_STATE_NOT_SUBSCRIBED \<and>
    idle ((exchange E ^^ k) m) \<and> (0 < k \<longrightarrow> 0 < machine_posted ((exchange E ^^ k) m))"
  using assms(4)
proof (induction k)
  case 0
  then show ?case using assms(2,3) by simp
next
  case (Suc k)
  let ?m = "(exchange E ^^ k) m"
  have IH: "topic_subscribe_status ?m = replicate k TOPIC_STATE_SUBSCRIBED @ replicate (length (topics E) - k) TOPIC_STATE_NOT_SUBSCRIBED" "idle ?m"
    using Suc by simp_all
  have replicate_snoc: "replicate (Suc k) TOPIC_STATE_SUBSCRIBED = replicate k TOPIC_STATE_SUBSCRIBED @ [TOPIC_STATE_SUBSCRIBED]"
    by (simp add: replicate_append_same)
  have split: "replicate (length (topics E) - k) TOPIC_STATE_NOT_SUBSCRIBED = TOPIC_STATE_NOT_SUBSCRIBED # replicate (length (topics E) - Suc k) TOPIC_STATE_NOT_SUBSCRIBED"
    using Suc.prems by (metis Suc_diff_Suc Suc_le_eq replicate_Suc)
  have "k < length (topics E)" using Suc.prems by simp
  moreover have "topic_subscribe_status ?m ! k = TOPIC_STATE_NOT_SUBSCRIBED" "\<forall>j<k. topic_subscribe_status ?m ! j \<noteq> TOPIC_STATE_NOT_SUBSCRIBED"
      "length (topic_subscribe_status ?m) = length (topics E)"
    using Suc.prems unfolding IH(1) split by (simp_all add: nth_append)
  moreover have "(topic_subscribe_status ?m)[k := TOPIC_STATE_SUBSCRIBED] =
      replicate (Suc k) TOPIC_STATE_SUBSCRIBED @ replicate (length (topics E) - Suc k) TOPIC_STATE_NOT_SUBSCRIBED"
    unfolding IH(1) split replicate_snoc by (simp only: list_update_append length_replicate less_irrefl if_False diff_self_eq_0 list_update.simps append_assoc append_Cons append_Nil nat.case)
  ultimately show ?case using exchange_subscribes [OF assms(1) IH(2)] by simp
qed

subsection \<open>Runs with publishing\<close>

text \<open>
  Everything that can happen to the client: an event it waits for, a callback of CoAP, an echo reply, the node publishing something, and the lock opening by itself.
\<close>

inductive mqtt_run :: "string list \<Rightarrow> mqtt_client \<Rightarrow> mqtt_client \<Rightarrow> bool" for ts where
  start: "mqtt_run ts m m"
| event: "\<lbrakk>mqtt_run ts m m1; topics E = ts; event_ready ev m1\<rbrakk> \<Longrightarrow> mqtt_run ts m (mqtt_client_process E ev m1)"
| callback: "\<lbrakk>mqtt_run ts m m1; topics E = ts\<rbrakk> \<Longrightarrow> mqtt_run ts m (coap_callback E status m1)"
| echo: "mqtt_run ts m m1 \<Longrightarrow> mqtt_run ts m (echo_reply_handler b m1)"
| publish: "\<lbrakk>mqtt_run ts m m1; topics E = ts; mqtt_over_coap_publish E topic payload m1 = Some (b, m2)\<rbrakk> \<Longrightarrow> mqtt_run ts m m2"
| expire: "mqtt_run ts m m1 \<Longrightarrow> mqtt_run ts m (set_lock timed_unlock_unlock m1)"

text \<open>A topic that counts as being subscribed to although the request CoAP holds, if any, is not for it.\<close>

definition orphaned :: "nat \<Rightarrow> mqtt_client \<Rightarrow> bool" where
  "orphaned i m \<longleftrightarrow> i < length (topic_subscribe_status m) \<and> topic_subscribe_status m ! i = TOPIC_STATE_SUBSCRIBING \<and>
     \<not> (pending m = Some Subscribe \<and> coap_callback_i m = i)"

lemma orphaned_cong:
  "\<lbrakk>orphaned i m; topic_subscribe_status m' = topic_subscribe_status m; pending m' = pending m; coap_callback_i m' = coap_callback_i m\<rbrakk> \<Longrightarrow> orphaned i m'"
  by (simp add: orphaned_def)

lemma orphaned_subscribe:
  assumes "mqtt_over_coap_subscribe E t j m = (r, m')" "j \<noteq> i" "orphaned i m"
  shows "orphaned i m' \<and> topic_subscribe_status m' = topic_subscribe_status m"
  using assms by (auto simp: mqtt_over_coap_subscribe_def split_def Let_def coap_send_def orphaned_def split: if_splits)

lemma orphaned_loop: "orphaned i m \<Longrightarrow> orphaned i (subscribe_loop E is m)"
proof (induction "is" arbitrary: m)
  case (Cons j "is")
  show ?case
  proof (cases "topic_subscribe_status m ! j = TOPIC_STATE_NOT_SUBSCRIBED")
    case True
    then have ji: "j \<noteq> i" using Cons.prems by (auto simp: orphaned_def)
    obtain r m' where s: "mqtt_over_coap_subscribe E (topics E ! j) j m = (r, m')" by fastforce
    note o = orphaned_subscribe [OF s ji Cons.prems]
    have "orphaned i (m'\<lparr>publish_periodic_timer := True\<rparr>)" by (rule orphaned_cong [OF conjunct1 [OF o]]) simp_all
    moreover have "orphaned i (m'\<lparr>topic_subscribe_status := (topic_subscribe_status m')[j := TOPIC_STATE_SUBSCRIBING]\<rparr>)"
      using o ji by (auto simp: orphaned_def)
    ultimately show ?thesis using True s Cons.IH by simp
  qed (use Cons in simp)
qed simp

lemma orphaned_machine: "orphaned i m \<Longrightarrow> orphaned i (state_machine E m)"
  using orphaned_loop [of i m E "[0..<length (topics E)]"]
  by (auto simp: state_machine_def subscribe_def ping_parent_def intro: orphaned_cong)

lemma orphaned_run: "\<lbrakk>mqtt_run ts m m'; orphaned i m\<rbrakk> \<Longrightarrow> orphaned i m'"
proof (induction rule: mqtt_run.induct)
  case (event m m1 E ev)
  show ?case
  proof (cases ev)
    case Machine_Event
    then show ?thesis using orphaned_machine [OF orphaned_cong [OF event.IH [OF event.prems]]] by (simp add: mqtt_client_process_def)
  next
    case Publish_Timer
    then show ?thesis using orphaned_machine [OF orphaned_cong [OF event.IH [OF event.prems]]] by (simp add: mqtt_client_process_def)
  next
    case Echo_Timer
    then show ?thesis using orphaned_cong [OF event.IH [OF event.prems]] by (simp add: mqtt_client_process_def ping_parent_def)
  qed
next
  case (callback m m1 E status)
  then have o: "orphaned i m1" by blast
  show ?case
  proof (cases "pending m1")
    case (Some kind)
    then show ?thesis
      using o by (cases kind; cases status) (auto simp: coap_callback_def publish_callback_def subscribe_callback_def subscribe_callback_end_def orphaned_def)
  qed (use o in \<open>simp add: coap_callback_def\<close>)
next
  case (echo m m1 b)
  then show ?case using orphaned_cong [of i m1] by (simp add: echo_reply_handler_def)
next
  case (publish m m1 E topic payload b m2)
  then have "orphaned i m1" by blast
  then show ?case
    using publish.hyps(3) by (auto simp: mqtt_over_coap_publish_def split_def Let_def coap_send_def orphaned_def split: if_splits)
next
  case (expire m m1)
  then show ?case using orphaned_cong [of i m1] by simp
qed

subsection \<open>Properties\<close>

text \<open>
  C28: a client that starts with connectivity subscribes to all its topics, one exchange with the root after the other; after each exchange an event is waiting that starts the next.
\<close>

theorem mqtt_subscribes_all:
  assumes "good_env E" "pending m = None"
  shows "topic_subscribe_status ((exchange E ^^ length (topics E)) (mqtt_init E CLOCK_SECOND cur m)) = replicate (length (topics E)) TOPIC_STATE_SUBSCRIBED \<and>
    (\<forall>k. 0 < k \<and> k \<le> length (topics E) \<longrightarrow> event_ready Machine_Event ((exchange E ^^ k) (mqtt_init E CLOCK_SECOND cur m)))"
proof -
  let ?m = "mqtt_init E CLOCK_SECOND cur m"
  have i: "idle ?m" "topic_subscribe_status ?m = replicate (length (topics E)) TOPIC_STATE_NOT_SUBSCRIBED"
    using assms(2) by (simp_all add: idle_def mqtt_init_def topic_init_def set_lock_def timed_unlock_init_def timed_unlock_is_locked_def)
  show ?thesis using exchanges_subscribe [OF assms(1) i] by (auto simp: event_ready_def)
qed

definition example_mqtt :: mqtt_client where
  "example_mqtt = \<lparr>topic_subscribe_status = [], coap_callback_in_use = \<lparr>locked = False, lname = [], timer = None, duration = 0, owner = 0\<rparr>,
     coap_callback_i = 0, pending = None, publish_periodic_timer = False, echo_request_timer = False, machine_posted = 0, sent_requests = [],
     root_connects = 0, pings = 0\<rparr>"

definition example_mqtt_env :: mqtt_env where
  "example_mqtt_env = \<lparr>topics = topics_to_suscribe, have_connectivity = True, root_connected = True, send_request = 1, mq_now = 5, max_coap_payload = 256, created_code = 65\<rparr>"

lemma example_mqtt_good: "good_env example_mqtt_env"
  by (simp add: good_env_def example_mqtt_env_def topics_to_suscribe_def MQTT_EDGE_NAMESPACE_def MQTT_EDGE_ACTION_ANNOUNCE_def MQTT_EDGE_ACTION_UNANNOUNCE_def
      MQTT_EDGE_ACTION_CAPABILITY_def MQTT_EDGE_ACTION_CAPABILITY_ADD_def MQTT_EDGE_ACTION_CAPABILITY_REMOVE_def MAX_QUERY_LEN_def cstr_def NUL_def)

theorem mqtt_subscribes_all_witness:
  "topic_subscribe_status ((exchange example_mqtt_env ^^ 4) (mqtt_init example_mqtt_env 128 0 example_mqtt)) = replicate 4 TOPIC_STATE_SUBSCRIBED"
proof -
  have "pending example_mqtt = None" "length (topics example_mqtt_env) = 4" by (simp_all add: example_mqtt_def example_mqtt_env_def topics_to_suscribe_def)
  then show ?thesis using mqtt_subscribes_all [OF example_mqtt_good, of example_mqtt 128 0] by simp
qed

text \<open>
  C27: when the state machine runs while another request holds the lock, the next topic is marked as being subscribed to although nothing was sent, and whatever happens
  afterwards it is never subscribed to.
\<close>

theorem mqtt_subscribe_lost:
  assumes "have_connectivity E" "root_connected E" "timed_unlock_is_locked (coap_callback_in_use m)" "pending m = Some Subscribe \<longrightarrow> coap_callback_i m \<noteq> i"
    "length (topic_subscribe_status m) = length (topics E)" "i < length (topics E)" "topic_subscribe_status m ! i = TOPIC_STATE_NOT_SUBSCRIBED"
    "\<forall>j<i. topic_subscribe_status m ! j \<noteq> TOPIC_STATE_NOT_SUBSCRIBED" "mqtt_run (topics E) (state_machine E m) m'"
  shows "sent_requests (state_machine E m) = sent_requests m \<and> topic_subscribe_status m' ! i = TOPIC_STATE_SUBSCRIBING"
proof -
  have s: "state_machine E m = m\<lparr>topic_subscribe_status := (topic_subscribe_status m)[i := TOPIC_STATE_SUBSCRIBING]\<rparr>"
    using assms(1-3,7) subscribe_first [OF assms(6-8)] by (simp add: state_machine_def mqtt_over_coap_subscribe_def)
  then have "orphaned i (state_machine E m)" using assms(4-6) by (simp add: orphaned_def)
  from orphaned_run [OF assms(9) this] show ?thesis using s by (simp add: orphaned_def)
qed

definition publishing_mqtt :: mqtt_client where
  "publishing_mqtt = snd (the (mqtt_over_coap_publish example_mqtt_env ''edge/1/announce'' [1, 2] (mqtt_init example_mqtt_env 128 0 example_mqtt)))"

theorem mqtt_subscribe_lost_witness:
  "topic_subscribe_status (coap_callback example_mqtt_env COAP_REQUEST_STATUS_FINISHED (state_machine example_mqtt_env publishing_mqtt)) ! 0 = TOPIC_STATE_SUBSCRIBING"
proof -
  have p: "timed_unlock_is_locked (coap_callback_in_use publishing_mqtt)" "pending publishing_mqtt = Some Publish"
    "topic_subscribe_status publishing_mqtt = replicate (length topics_to_suscribe) TOPIC_STATE_NOT_SUBSCRIBED"
    by (simp_all add: publishing_mqtt_def mqtt_over_coap_publish_def mqtt_init_def topic_init_def set_lock_def coap_send_def uri_query_def Let_def
        timed_unlock_init_def timed_unlock_is_locked_def timed_unlock_lock_def MQTT_TOPIC_QUERY_NAME_def MAX_QUERY_LEN_def cstr_def NUL_def
        example_mqtt_def example_mqtt_env_def)
  have e: "have_connectivity example_mqtt_env" "root_connected example_mqtt_env" "topics example_mqtt_env = topics_to_suscribe" "length topics_to_suscribe = 4"
    by (simp_all add: example_mqtt_env_def topics_to_suscribe_def)
  have "mqtt_run (topics example_mqtt_env) (state_machine example_mqtt_env publishing_mqtt)
      (coap_callback example_mqtt_env COAP_REQUEST_STATUS_FINISHED (state_machine example_mqtt_env publishing_mqtt))"
    by (rule mqtt_run.callback [OF mqtt_run.start refl])
  from mqtt_subscribe_lost [OF e(1,2) p(1) _ _ _ _ _ this, of 0] show ?thesis using p e(3,4) by simp
qed

end
