(* ===== verification/Edge_Capability.thy ===== *)
theory Edge_Capability
  imports Mqtt_Over_Coap
begin

text \<open>
  \<open>src/wsn/edge/capability/capability.c\<close>, \<open>src/wsn/edge/edge.c\<close> and \<open>src/wsn/common/serial-helpers.c\<close>: a resource-rich node.  It learns over its serial line which applications
  run, and publishes that it is there and what it offers, repeatedly and in turn.  The names of the applications, fixed by the build, are \<open>app_names\<close>.  An event timer is its interval and whether it is
  set; the time remaining on the announce timer is an input of \<open>trigger_faster_publish\<close>.  The buffer \<open>pub_topic\<close> is its text.  A result \<open>None\<close> is a failed assertion or
  an access out of bounds.  Log output is left out; \<open>app_data\<close> holds what was passed on to the applications and
  \<open>serial_out\<close> the acknowledgements.
\<close>

definition MQTT_EDGE_NAMESPACE_LEN :: nat where "MQTT_EDGE_NAMESPACE_LEN = 4"

definition BASE_PUBLISH_TOPIC_LEN :: nat where "BASE_PUBLISH_TOPIC_LEN = MQTT_EDGE_NAMESPACE_LEN + 1 + MQTT_IDENTITY_LEN + 1"

definition MAX_PUBLISH_TOPIC_LEN :: nat where "MAX_PUBLISH_TOPIC_LEN = BASE_PUBLISH_TOPIC_LEN + 64"

definition PUBLISH_ANNOUNCE_SHORT_TO_LONG :: u8 where "PUBLISH_ANNOUNCE_SHORT_TO_LONG = 3"

definition CERTIFICATE_CBOR_LENGTH :: nat where
  "CERTIFICATE_CBOR_LENGTH = 1 + TBS_CERTIFICATE_CBOR_LENGTH + (1 + 1 + DTLS_EC_SIG_SIZE)"

definition IPV6ADDR_CBOR_MAX_LEN :: nat where "IPV6ADDR_CBOR_MAX_LEN = 1 + 16"

definition APPLICATION_NAME_MAX_LEN :: nat where "APPLICATION_NAME_MAX_LEN = 8"

record etimer =
  interval :: nat
  armed :: bool

record ('en, 'de) edge_env =
  ee_nc :: "('en, 'de) nanocbor"
  ee_mqtt :: mqtt_env
  ee_cert :: certificate
  app_names :: "string list"
  CLOCK_SECOND :: nat
  linkaddr_node_addr :: "u8 list"
  uip_ds6_if :: "ds6_addr list"
  ADDR_TENTATIVE :: nat
  ADDR_PREFERRED :: nat
  app_processes :: "string set"

record edge_node =
  pub_topic :: string
  publish_announce_timer :: etimer
  publish_capability_timer :: etimer
  announce_short_count :: u8
  application_capability_publish_idx :: u8
  applications_available :: "bool list"
  resource_rich_edge_started :: bool
  mqtt :: mqtt_client
  app_data :: "(string \<times> string) list"
  serial_out :: "string list"

abbreviation APPLICATION_NUM :: "('en, 'de) edge_env \<Rightarrow> nat" where
  "APPLICATION_NUM E \<equiv> length (app_names E)"

definition PUBLISH_ANNOUNCE_PERIOD_SHORT :: "('en, 'de) edge_env \<Rightarrow> nat" where
  "PUBLISH_ANNOUNCE_PERIOD_SHORT E = CLOCK_SECOND E * 30"

definition PUBLISH_ANNOUNCE_PERIOD_LONG :: "('en, 'de) edge_env \<Rightarrow> nat" where
  "PUBLISH_ANNOUNCE_PERIOD_LONG E = PUBLISH_ANNOUNCE_PERIOD_SHORT E * 2 * 15"

definition PUBLISH_CAPABILITY_PERIOD_SHORT :: "('en, 'de) edge_env \<Rightarrow> nat" where
  "PUBLISH_CAPABILITY_PERIOD_SHORT E = CLOCK_SECOND E * 5"

definition PUBLISH_CAPABILITY_PERIOD_LONG :: "('en, 'de) edge_env \<Rightarrow> nat" where
  "PUBLISH_CAPABILITY_PERIOD_LONG E = PUBLISH_CAPABILITY_PERIOD_SHORT E * (APPLICATION_NUM E + 20)"

subsection \<open>Publishing\<close>

fun get_global_address :: "('en, 'de) edge_env \<Rightarrow> ds6_addr list \<Rightarrow> ipaddr option" where
  "get_global_address E [] = None"
| "get_global_address E (d # ds) =
     (if isused d \<and> (ds6_state d = ADDR_TENTATIVE E \<or> ds6_state d = ADDR_PREFERRED E) then Some (ds6_ipaddr d) else get_global_address E ds)"

text \<open>\<open>snprintf\<close> of an action behind the base of the topic: false when it does not fit; the text is cut off then.\<close>

definition set_action :: "string \<Rightarrow> edge_node \<Rightarrow> bool \<times> edge_node" where
  "set_action action s =
     (let room = MAX_PUBLISH_TOPIC_LEN - BASE_PUBLISH_TOPIC_LEN
      in (0 < length action \<and> length action < room, s\<lparr>pub_topic := take BASE_PUBLISH_TOPIC_LEN (pub_topic s) @ take (room - 1) action\<rparr>))"

definition publish_encoded :: "('en, 'de) edge_env \<Rightarrow> 'en \<Rightarrow> edge_node \<Rightarrow> (bool \<times> edge_node) option" where
  "publish_encoded E en s =
     (case mqtt_over_coap_publish (ee_mqtt E) (pub_topic s) (take (encoded_len (ee_nc E) en) (enc_buffer (ee_nc E) en)) (mqtt s) of
        None \<Rightarrow> None
      | Some (b, m) \<Rightarrow> Some (b, s\<lparr>mqtt := m\<rparr>))"

text \<open>\<open>NANOCBOR_CHECK\<close> returns the negative error from a function of type \<open>bool\<close>, which makes it true.\<close>

definition announce_encoding :: "('en, 'de) edge_env \<Rightarrow> int \<times> 'en" where
  "announce_encoding E = certificate_encode (ee_nc E) (ee_cert E) (encoder_init (ee_nc E) CERTIFICATE_CBOR_LENGTH)"

definition publish_announce :: "('en, 'de) edge_env \<Rightarrow> edge_node \<Rightarrow> (bool \<times> edge_node) option" where
  "publish_announce E s =
     (case set_action MQTT_EDGE_ACTION_ANNOUNCE s of
        (False, s) \<Rightarrow> Some (False, s)
      | (True, s) \<Rightarrow>
          let (r, en) = announce_encoding E in
          if r < 0 then Some (r \<noteq> 0, s)
          else if CERTIFICATE_CBOR_LENGTH < encoded_len (ee_nc E) en then None
          else publish_encoded E en s)"

definition unannounce_encoding :: "('en, 'de) edge_env \<Rightarrow> ipaddr \<Rightarrow> int \<times> 'en" where
  "unannounce_encoding E a = checks [\<lambda>en. fmt_array (ee_nc E) en 1, \<lambda>en. nanocbor_fmt_ipaddr (ee_nc E) en a]
     (encoder_init (ee_nc E) (1 + IPV6ADDR_CBOR_MAX_LEN))"

definition publish_unannounce :: "('en, 'de) edge_env \<Rightarrow> edge_node \<Rightarrow> (bool \<times> edge_node) option" where
  "publish_unannounce E s =
     (case set_action MQTT_EDGE_ACTION_UNANNOUNCE s of
        (False, s) \<Rightarrow> Some (False, s)
      | (True, s) \<Rightarrow>
          (case get_global_address E (uip_ds6_if E) of
             None \<Rightarrow> Some (False, s)
           | Some a \<Rightarrow>
               let (r, en) = unannounce_encoding E a in
               if r < 0 then Some (r \<noteq> 0, s)
               else if encoded_len (ee_nc E) en \<noteq> 1 + IPV6ADDR_CBOR_MAX_LEN then None
               else publish_encoded E en s))"

text \<open>The two functions that differ only in the last part of the topic.\<close>

definition capability_action :: "string \<Rightarrow> string \<Rightarrow> string" where
  "capability_action name what = MQTT_EDGE_ACTION_CAPABILITY @ ''/'' @ cstr name @ ''/'' @ what"

definition capability_encoding :: "('en, 'de) edge_env \<Rightarrow> bool \<Rightarrow> int \<times> 'en" where
  "capability_encoding E include_certificate = checks
     [\<lambda>en. fmt_array (ee_nc E) en 2, \<lambda>en. fmt_bool (ee_nc E) en include_certificate,
      if include_certificate then certificate_encode (ee_nc E) (ee_cert E) else fmt_null (ee_nc E)]
     (encoder_init (ee_nc E) (1 + 1 + CERTIFICATE_CBOR_LENGTH))"

definition publish_capability :: "('en, 'de) edge_env \<Rightarrow> string \<Rightarrow> string \<Rightarrow> bool \<Rightarrow> edge_node \<Rightarrow> (bool \<times> edge_node) option" where
  "publish_capability E what name include_certificate s =
     (case set_action (capability_action name what) s of
        (False, s) \<Rightarrow> Some (False, s)
      | (True, s) \<Rightarrow>
          let (r, en) = capability_encoding E include_certificate in
          if r < 0 then Some (r \<noteq> 0, s)
          else if 1 + 1 + CERTIFICATE_CBOR_LENGTH < encoded_len (ee_nc E) en then None
          else publish_encoded E en s)"

definition publish_add_capability :: "('en, 'de) edge_env \<Rightarrow> string \<Rightarrow> bool \<Rightarrow> edge_node \<Rightarrow> (bool \<times> edge_node) option" where
  "publish_add_capability E = publish_capability E MQTT_EDGE_ACTION_CAPABILITY_ADD"

definition publish_remove_capability :: "('en, 'de) edge_env \<Rightarrow> string \<Rightarrow> bool \<Rightarrow> edge_node \<Rightarrow> (bool \<times> edge_node) option" where
  "publish_remove_capability E = publish_capability E MQTT_EDGE_ACTION_CAPABILITY_REMOVE"

subsection \<open>When to publish\<close>

definition trigger_faster_publish :: "('en, 'de) edge_env \<Rightarrow> nat \<Rightarrow> edge_node \<Rightarrow> edge_node" where
  "trigger_faster_publish E remaining s =
     (let s = (if PUBLISH_ANNOUNCE_PERIOD_SHORT E < remaining
               then s\<lparr>publish_announce_timer := \<lparr>interval = PUBLISH_ANNOUNCE_PERIOD_SHORT E, armed = True\<rparr>\<rparr> else s)
      in s\<lparr>announce_short_count := 0, application_capability_publish_idx := 0,
           publish_capability_timer := (publish_capability_timer s)\<lparr>armed := False\<rparr>\<rparr>)"

text \<open>The second half of \<open>periodic_publish_announce\<close>: the next interval.\<close>

definition next_announce :: "('en, 'de) edge_env \<Rightarrow> bool \<Rightarrow> edge_node \<Rightarrow> edge_node" where
  "next_announce E ret s =
     (if interval (publish_announce_timer s) \<le> PUBLISH_ANNOUNCE_PERIOD_SHORT E
      then let s = (if ret then s\<lparr>announce_short_count := announce_short_count s + 1\<rparr> else s)
           in if PUBLISH_ANNOUNCE_SHORT_TO_LONG \<le> announce_short_count s
              then s\<lparr>publish_announce_timer := \<lparr>interval = PUBLISH_ANNOUNCE_PERIOD_LONG E, armed = True\<rparr>\<rparr>
              else s\<lparr>publish_announce_timer := (publish_announce_timer s)\<lparr>armed := True\<rparr>\<rparr>
      else s\<lparr>publish_announce_timer := (publish_announce_timer s)\<lparr>armed := True\<rparr>\<rparr>)"

definition periodic_publish_announce :: "('en, 'de) edge_env \<Rightarrow> edge_node \<Rightarrow> edge_node option" where
  "periodic_publish_announce E s =
     (case (if resource_rich_edge_started s then publish_announce E s else publish_unannounce E s) of
        None \<Rightarrow> None
      | Some (ret, s) \<Rightarrow>
          let s = (if \<not> ret then s
                   else if resource_rich_edge_started s
                   then s\<lparr>publish_capability_timer := \<lparr>interval = PUBLISH_CAPABILITY_PERIOD_SHORT E, armed = True\<rparr>\<rparr>
                   else s\<lparr>publish_capability_timer := (publish_capability_timer s)\<lparr>armed := False\<rparr>\<rparr>)
          in Some (next_announce E ret s))"

text \<open>Publishing one application, whichever way.\<close>

definition publish_application :: "('en, 'de) edge_env \<Rightarrow> nat \<Rightarrow> edge_node \<Rightarrow> (bool \<times> edge_node) option" where
  "publish_application E i s =
     (if applications_available s ! i then publish_add_capability E (app_names E ! i) False s else publish_remove_capability E (app_names E ! i) False s)"

text \<open>After an attempt: the next application, or the long pause when all have had their turn.\<close>

definition next_capability :: "('en, 'de) edge_env \<Rightarrow> bool \<Rightarrow> edge_node \<Rightarrow> edge_node" where
  "next_capability E ret s =
     (let s = (if ret then s\<lparr>application_capability_publish_idx := application_capability_publish_idx s + 1\<rparr> else s)
      in if unat (application_capability_publish_idx s) = APPLICATION_NUM E
         then s\<lparr>publish_capability_timer := \<lparr>interval = PUBLISH_CAPABILITY_PERIOD_LONG E, armed = True\<rparr>, application_capability_publish_idx := 0\<rparr>
         else s\<lparr>publish_capability_timer := \<lparr>interval = PUBLISH_CAPABILITY_PERIOD_SHORT E, armed = True\<rparr>\<rparr>)"

definition periodic_publish_capability :: "('en, 'de) edge_env \<Rightarrow> edge_node \<Rightarrow> edge_node option" where
  "periodic_publish_capability E s =
     (let i = unat (application_capability_publish_idx s) in
      if APPLICATION_NUM E \<le> i \<or> length (applications_available s) \<le> i then None
      else case publish_application E i s of None \<Rightarrow> None | Some (ret, s) \<Rightarrow> Some (next_capability E ret s))"

text \<open>What \<open>snprintf\<close> prints for the base of the topics.\<close>

definition base_topic :: "('en, 'de) edge_env \<Rightarrow> string" where
  "base_topic E = MQTT_EDGE_NAMESPACE @ ''/'' @ concat (map hex_byte (linkaddr_node_addr E)) @ ''/''"

definition capability_init :: "('en, 'de) edge_env \<Rightarrow> edge_node \<Rightarrow> bool \<times> edge_node" where
  "capability_init E s =
     (let topic = base_topic E;
          s = s\<lparr>pub_topic := take BASE_PUBLISH_TOPIC_LEN topic\<rparr>
      in if length topic \<noteq> BASE_PUBLISH_TOPIC_LEN then (False, s)
         else (True, s\<lparr>announce_short_count := 0, application_capability_publish_idx := 0,
                 publish_announce_timer := \<lparr>interval = PUBLISH_ANNOUNCE_PERIOD_SHORT E, armed = True\<rparr>\<rparr>))"

subsection \<open>The serial line\<close>

definition match_action :: "string \<Rightarrow> string \<Rightarrow> bool" where
  "match_action data action \<longleftrightarrow> length action \<le> length data \<and> take (length action) data = action"

definition index_of_application :: "('en, 'de) edge_env \<Rightarrow> string \<Rightarrow> int" where
  "index_of_application E name =
     (case List.find (\<lambda>i. name = app_names E ! i) [0..<APPLICATION_NUM E] of None \<Rightarrow> - 1 | Some i \<Rightarrow> sint (word_of_nat i :: 8 word))"

definition application_available :: "('en, 'de) edge_env \<Rightarrow> string \<Rightarrow> edge_node \<Rightarrow> bool" where
  "application_available E name s = (let idx = index_of_application E name in if idx < 0 then False else applications_available s ! nat idx)"

definition set_all_applications_unavailable :: "('en, 'de) edge_env \<Rightarrow> edge_node \<Rightarrow> edge_node" where
  "set_all_applications_unavailable E s = s\<lparr>applications_available := replicate (APPLICATION_NUM E) False\<rparr>"

text \<open>The message is a C string; \<open>data\<close> is its text from the pointer on.\<close>

definition process_application_serial_message :: "('en, 'de) edge_env \<Rightarrow> string \<Rightarrow> edge_node \<Rightarrow> edge_node option" where
  "process_application_serial_message E data s =
     (let application_name = takeWhile (\<lambda>c. c \<noteq> CHR ''|'') data in
      if application_name = data \<or> application_name = [] \<or> APPLICATION_NAME_MAX_LEN < length application_name then Some s
      else let data = drop (Suc (length application_name)) data; idx = index_of_application E application_name in
        if idx < 0 then Some s
        else if match_action data ''start'' then
          map_option snd (publish_add_capability E application_name True (s\<lparr>applications_available := (applications_available s)[nat idx := True]\<rparr>))
        else if match_action data ''stop'' then
          map_option snd (publish_remove_capability E application_name True (s\<lparr>applications_available := (applications_available s)[nat idx := False]\<rparr>))
        else if match_action data ''app'' then
          Some (if application_name \<in> app_processes E then s\<lparr>app_data := app_data s @ [(application_name, drop 3 data)]\<rparr> else s)
        else Some s)"

definition process_edge_serial_message :: "('en, 'de) edge_env \<Rightarrow> nat \<Rightarrow> string \<Rightarrow> edge_node \<Rightarrow> edge_node" where
  "process_edge_serial_message E remaining data s =
     (if match_action data ''start''
      then let s = (if resource_rich_edge_started s then s else trigger_faster_publish E remaining (s\<lparr>resource_rich_edge_started := True\<rparr>))
           in s\<lparr>serial_out := serial_out s @ [''!start|ack'']\<rparr>
      else if match_action data ''stop''
      then let s = set_all_applications_unavailable E s;
               s = (if resource_rich_edge_started s then trigger_faster_publish E remaining (s\<lparr>resource_rich_edge_started := False\<rparr>) else s)
           in s\<lparr>serial_out := serial_out s @ [''!stop|ack'']\<rparr>
      else s)"

definition process_serial_message :: "('en, 'de) edge_env \<Rightarrow> nat \<Rightarrow> string \<Rightarrow> edge_node \<Rightarrow> edge_node option" where
  "process_serial_message E remaining data s =
     (if match_action data ''@'' then process_application_serial_message E (drop 1 data) s
      else if match_action data ''!'' then Some (process_edge_serial_message E remaining (drop 1 data) s)
      else Some s)"

text \<open>The events of the two processes.\<close>

datatype edge_event = Announce_Timer | Capability_Timer | Serial_Line nat string

definition edge_process :: "('en, 'de) edge_env \<Rightarrow> edge_event \<Rightarrow> edge_node \<Rightarrow> edge_node option" where
  "edge_process E ev s =
     (case ev of
        Announce_Timer \<Rightarrow> periodic_publish_announce E s
      | Capability_Timer \<Rightarrow> periodic_publish_capability E s
      | Serial_Line remaining data \<Rightarrow> process_serial_message E remaining data s)"

definition edge_start :: "('en, 'de) edge_env \<Rightarrow> edge_node \<Rightarrow> edge_node" where
  "edge_start E s = (set_all_applications_unavailable E s)\<lparr>resource_rich_edge_started := False\<rparr>"

subsection \<open>The edge over time\<close>

text \<open>
  A timer that expires is no longer set, and its event waits in the queue of the process; stopping or setting the timer again does not take the event back.  Lines from the serial port
  are handled at any time, the MQTT client makes progress on its own, and what it and the network do with a request may differ every time.  \<open>None\<close> outcomes end
  the run.  The flag tells whether every stop so far arrived while no event of the capability timer was waiting.
\<close>

definition stops :: "edge_event \<Rightarrow> bool" where
  "stops ev = (case ev of Serial_Line _ data \<Rightarrow> match_action data ''!stop'' | _ \<Rightarrow> False)"

definition with_client :: "('en, 'de) edge_env \<Rightarrow> mqtt_env \<Rightarrow> ('en, 'de) edge_env" where
  "with_client E q = E\<lparr>ee_mqtt := q\<lparr>max_coap_payload := max_coap_payload (ee_mqtt E)\<rparr>\<rparr>"

inductive edge_run :: "('en, 'de) edge_env \<Rightarrow> edge_node \<Rightarrow> bool \<Rightarrow> edge_event list \<Rightarrow> edge_node \<Rightarrow> bool" for E where
  start: "edge_run E s True [] s"
| announce_expires: "\<lbrakk>edge_run E s clean q s'; armed (publish_announce_timer s')\<rbrakk> \<Longrightarrow>
    edge_run E s clean (q @ [Announce_Timer]) (s'\<lparr>publish_announce_timer := (publish_announce_timer s')\<lparr>armed := False\<rparr>\<rparr>)"
| capability_expires: "\<lbrakk>edge_run E s clean q s'; armed (publish_capability_timer s')\<rbrakk> \<Longrightarrow>
    edge_run E s clean (q @ [Capability_Timer]) (s'\<lparr>publish_capability_timer := (publish_capability_timer s')\<lparr>armed := False\<rparr>\<rparr>)"
| timer_event: "\<lbrakk>edge_run E s clean (ev # q) s'; edge_process (with_client E c) ev s' = Some s''\<rbrakk> \<Longrightarrow> edge_run E s clean q s''"
| serial: "\<lbrakk>edge_run E s clean q s'; ev = Serial_Line remaining data; edge_process (with_client E c) ev s' = Some s''\<rbrakk> \<Longrightarrow>
    edge_run E s (clean \<and> (stops ev \<longrightarrow> Capability_Timer \<notin> set q)) q s''"
| client: "edge_run E s clean q s' \<Longrightarrow> edge_run E s clean q (s'\<lparr>mqtt := m\<rparr>)"

subsection \<open>The sizes of the encodings\<close>

text \<open>
  What RFC 8949 says of the size of each item, and what the encoder documents: a call that succeeds has written its item, one that fails no more than that.  The node's certificate has
  fields of the fixed sizes, its addresses have 16 bytes, and the payload buffer of the client is \<open>COAP_MAX_CHUNK_SIZE\<close>.
\<close>

definition cbor_head :: "nat \<Rightarrow> nat" where
  "cbor_head n = (if n < 24 then 1 else if n < 2 ^ 8 then 2 else if n < 2 ^ 16 then 3 else if n < 2 ^ 32 then 5 else 9)"

fun token_size :: "token \<Rightarrow> nat" where
  "token_size (TArray n) = cbor_head n"
| "token_size (TMap n) = cbor_head n"
| "token_size (TUint n) = cbor_head n"
| "token_size (TFloat x) = 5"
| "token_size (TBool b) = 1"
| "token_size TNull = 1"
| "token_size (TBstr b) = cbor_head (length b) + length b"
| "token_size (TTstr b) = cbor_head (length b) + length b"

definition sized :: "('en \<Rightarrow> nat) \<Rightarrow> ('en \<Rightarrow> int \<times> 'en) \<Rightarrow> nat \<Rightarrow> bool" where
  "sized len f n \<longleftrightarrow> (\<forall>en. case f en of (r, en') \<Rightarrow> len en' \<le> len en + n \<and> (0 \<le> r \<longrightarrow> len en' = len en + n))"

definition encoder_sizes :: "('en, 'de) nanocbor \<Rightarrow> bool" where
  "encoder_sizes NC \<longleftrightarrow> (\<forall>n. encoded_len NC (encoder_init NC n) = 0) \<and>
     (\<forall>n. sized (encoded_len NC) (\<lambda>en. fmt_array NC en n) (token_size (TArray n))) \<and>
     (\<forall>n. sized (encoded_len NC) (\<lambda>en. fmt_uint NC en n) (token_size (TUint n))) \<and>
     (\<forall>b. sized (encoded_len NC) (\<lambda>en. fmt_bool NC en b) (token_size (TBool b))) \<and>
     sized (encoded_len NC) (fmt_null NC) (token_size TNull) \<and>
     (\<forall>b. sized (encoded_len NC) (\<lambda>en. put_bstr NC en b) (token_size (TBstr b)))"

definition COAP_MAX_CHUNK_SIZE :: nat where "COAP_MAX_CHUNK_SIZE = 256"

definition edge_env_ok :: "('en, 'de) edge_env \<Rightarrow> bool" where
  "edge_env_ok E \<longleftrightarrow> encoder_sizes (ee_nc E) \<and> cert_ok (ee_cert E) \<and> (\<forall>d\<in>set (uip_ds6_if E). length (ds6_ipaddr d) = 16) \<and>
     max_coap_payload (ee_mqtt E) = COAP_MAX_CHUNK_SIZE \<and> length (linkaddr_node_addr E) = EUI64_LENGTH \<and>
     0 < APPLICATION_NUM E \<and> APPLICATION_NUM E < 128 \<and> 0 < CLOCK_SECOND E"

text \<open>A call that adds at most so many bytes.\<close>

definition adds :: "('en \<Rightarrow> nat) \<Rightarrow> ('en \<Rightarrow> int \<times> 'en) \<Rightarrow> nat \<Rightarrow> bool" where
  "adds len f n \<longleftrightarrow> (\<forall>en. len (snd (f en)) \<le> len en + n)"

lemma adds_sized: "\<lbrakk>sized len f m; m \<le> n\<rbrakk> \<Longrightarrow> adds len f n"
  unfolding adds_def sized_def by (metis (no_types, lifting) case_prod_beta le_trans nat_add_left_cancel_le)

lemma adds_ignored: "adds len f n \<Longrightarrow> adds len (ignored f) n"
  by (simp add: adds_def ignored_def)

lemma adds_Nil: "adds len (checks []) 0"
  by (simp add: adds_def)

lemma adds_Cons:
  assumes "adds len f m" "adds len (checks fs) k"
  shows "adds len (checks (f # fs)) (m + k)"
  unfolding adds_def
proof
  fix en
  obtain r en' where f: "f en = (r, en')" by fastforce
  have "len en' \<le> len en + m" using assms(1) f unfolding adds_def by (metis snd_conv)
  moreover have "len (snd (checks fs en')) \<le> len en' + k" using assms(2) by (simp add: adds_def)
  ultimately show "len (snd (checks (f # fs) en)) \<le> len en + (m + k)" by (simp add: f Let_def)
qed

lemma adds_items:
  assumes "encoder_sizes NC"
  shows "cbor_head k \<le> n \<Longrightarrow> adds (encoded_len NC) (\<lambda>en. fmt_array NC en k) n"
    "cbor_head k \<le> n \<Longrightarrow> adds (encoded_len NC) (\<lambda>en. fmt_uint NC en k) n"
    "1 \<le> n \<Longrightarrow> adds (encoded_len NC) (\<lambda>en. fmt_bool NC en b) n"
    "1 \<le> n \<Longrightarrow> adds (encoded_len NC) (fmt_null NC) n"
    "cbor_head (length bs) + length bs \<le> n \<Longrightarrow> adds (encoded_len NC) (\<lambda>en. put_bstr NC en bs) n"
  by (rule adds_sized [of _ _ "token_size (TArray k)"] adds_sized [of _ _ "token_size (TUint k)"] adds_sized [of _ _ "token_size (TBool b)"]
      adds_sized [of _ _ "token_size TNull"] adds_sized [of _ _ "token_size (TBstr bs)"]; use assms in \<open>simp add: encoder_sizes_def\<close>)+

lemma word_head: "cbor_head (unat (w :: u32)) \<le> 5"
  using unsigned_less [of w, where 'a = nat] by (simp add: cbor_head_def)

lemma adds_tags:
  assumes "encoder_sizes NC" "device_class t \<le> DEVICE_CLASS_MAXIMUM"
  shows "adds (encoded_len NC) (serialise_stereotype_tags NC t) 2"
proof -
  have "unat (device_class t) < 24" using assms(2) by (simp add: DEVICE_CLASS_MAXIMUM_def word_le_nat_alt)
  then have "adds (encoded_len NC) (serialise_stereotype_tags NC t) (1 + (1 + 0))"
    unfolding serialise_stereotype_tags_def
    by (intro adds_Cons adds_Nil adds_items(1,2) [OF assms(1)]) (simp_all add: cbor_head_def)
  then show ?thesis by (simp add: numeral_eq_Suc)
qed

lemma adds_certificate:
  assumes "encoder_sizes NC" "cert_ok c"
  shows "adds (encoded_len NC) (certificate_encode NC c) CERTIFICATE_CBOR_LENGTH"
proof -
  have len: "length (issuer c) = 8" "length (subject c) = 8" "length (public_key c) = 64" "length (signature c) = 64"
    "device_class (tags c) \<le> DEVICE_CLASS_MAXIMUM"
    using assms(2) by (simp_all add: cert_ok_def EUI64_LENGTH_def DTLS_EC_SIG_SIZE_def DTLS_EC_KEY_SIZE_def)
  note items = adds_ignored [OF adds_items(1) [OF assms(1)]] adds_ignored [OF adds_items(2) [OF assms(1)]] adds_ignored [OF adds_items(5) [OF assms(1)]]
  have "adds (encoded_len NC) (certificate_encode_tbs NC c) (1 + (5 + (9 + (1 + (5 + (5 + (9 + (2 + (66 + 0)))))))))"
    unfolding certificate_encode_tbs_def
    by (intro adds_Cons adds_Nil items adds_tags [OF assms(1) len(5)]) (simp_all only: len word_head, simp_all add: cbor_head_def)
  from adds_ignored [OF this]
  have "adds (encoded_len NC) (certificate_encode NC c) (1 + (1 + (5 + (9 + (1 + (5 + (5 + (9 + (2 + (66 + 0)))))))) + (66 + 0)))"
    unfolding certificate_encode_def by (intro adds_Cons adds_Nil items) (simp_all only: len, simp_all add: cbor_head_def)
  then show ?thesis by (simp add: CERTIFICATE_CBOR_LENGTH_def TBS_CERTIFICATE_CBOR_LENGTH_def EUI64_LENGTH_def DTLS_EC_SIG_SIZE_def DTLS_EC_KEY_SIZE_def)
qed

lemma adds_init: "\<lbrakk>encoder_sizes NC; adds (encoded_len NC) f n\<rbrakk> \<Longrightarrow> encoded_len NC (snd (f (encoder_init NC k))) \<le> n"
  by (auto simp: encoder_sizes_def adds_def dest!: spec [of _ "encoder_init NC k"])

text \<open>The lengths that are asserted.\<close>

lemma announce_length: "edge_env_ok E \<Longrightarrow> encoded_len (ee_nc E) (snd (announce_encoding E)) \<le> CERTIFICATE_CBOR_LENGTH"
  unfolding announce_encoding_def by (intro adds_init adds_certificate) (simp_all add: edge_env_ok_def)

lemma capability_length:
  assumes "edge_env_ok E"
  shows "encoded_len (ee_nc E) (snd (capability_encoding E incl)) \<le> 1 + 1 + CERTIFICATE_CBOR_LENGTH"
proof -
  have nc: "encoder_sizes (ee_nc E)" "cert_ok (ee_cert E)" using assms by (simp_all add: edge_env_ok_def)
  have last: "adds (encoded_len (ee_nc E)) (if incl then certificate_encode (ee_nc E) (ee_cert E) else fmt_null (ee_nc E)) CERTIFICATE_CBOR_LENGTH"
    using adds_certificate [OF nc] adds_items(4) [OF nc(1), of CERTIFICATE_CBOR_LENGTH] by (simp add: CERTIFICATE_CBOR_LENGTH_def)
  have "adds (encoded_len (ee_nc E)) (checks [\<lambda>en. fmt_array (ee_nc E) en 2, \<lambda>en. fmt_bool (ee_nc E) en incl,
      if incl then certificate_encode (ee_nc E) (ee_cert E) else fmt_null (ee_nc E)]) (1 + (1 + (CERTIFICATE_CBOR_LENGTH + 0)))"
    by (intro adds_Cons adds_Nil last adds_items(1,3) [OF nc(1)]) (simp_all add: cbor_head_def)
  from adds_init [OF nc(1) this] show ?thesis by (simp add: capability_encoding_def)
qed

lemma unannounce_length:
  assumes "edge_env_ok E" "length a = 16" "unannounce_encoding E a = (r, en)" "0 \<le> r"
  shows "encoded_len (ee_nc E) en = 1 + IPV6ADDR_CBOR_MAX_LEN"
proof -
  have nc: "encoder_sizes (ee_nc E)" using assms(1) by (simp add: edge_env_ok_def)
  obtain r1 en1 where 1: "fmt_array (ee_nc E) (encoder_init (ee_nc E) (1 + IPV6ADDR_CBOR_MAX_LEN)) 1 = (r1, en1)" by fastforce
  obtain r2 en2 where 2: "put_bstr (ee_nc E) en1 a = (r2, en2)" by fastforce
  have "\<not> r1 < 0 \<and> \<not> r2 < 0 \<and> en = en2"
    using assms(3,4) 1 2 by (auto simp: unannounce_encoding_def nanocbor_fmt_ipaddr_def Let_def split: if_splits)
  moreover have "0 \<le> r1 \<longrightarrow> encoded_len (ee_nc E) en1 = 0 + token_size (TArray 1)" "0 \<le> r2 \<longrightarrow> encoded_len (ee_nc E) en2 = encoded_len (ee_nc E) en1 + token_size (TBstr a)"
    using nc 1 2 unfolding encoder_sizes_def sized_def by (metis (mono_tags, lifting) case_prod_conv)+
  ultimately show ?thesis using assms(2) by (simp add: cbor_head_def IPV6ADDR_CBOR_MAX_LEN_def)
qed

lemma global_address_length: "\<lbrakk>\<forall>d\<in>set ds. length (ds6_ipaddr d) = 16; get_global_address E ds = Some a\<rbrakk> \<Longrightarrow> length a = 16"
  by (induction ds) (auto split: if_splits)

definition topic_ok :: "('en, 'de) edge_env \<Rightarrow> edge_node \<Rightarrow> bool" where
  "topic_ok E s \<longleftrightarrow> take BASE_PUBLISH_TOPIC_LEN (pub_topic s) = base_topic E"

definition schedule_ok :: "('en, 'de) edge_env \<Rightarrow> edge_node \<Rightarrow> bool" where
  "schedule_ok E s \<longleftrightarrow> length (applications_available s) = APPLICATION_NUM E \<and>
     unat (application_capability_publish_idx s) < APPLICATION_NUM E \<and> announce_short_count s \<le> PUBLISH_ANNOUNCE_SHORT_TO_LONG \<and>
     (interval (publish_announce_timer s) = PUBLISH_ANNOUNCE_PERIOD_SHORT E \<and> announce_short_count s < PUBLISH_ANNOUNCE_SHORT_TO_LONG \<or>
      interval (publish_announce_timer s) = PUBLISH_ANNOUNCE_PERIOD_LONG E)"

definition edge_ok :: "('en, 'de) edge_env \<Rightarrow> edge_node \<Rightarrow> bool" where
  "edge_ok E s \<longleftrightarrow> topic_ok E s \<and> schedule_ok E s"

lemma with_client_simps [simp]:
  "edge_env_ok (with_client E c) = edge_env_ok E" "topic_ok (with_client E c) = topic_ok E" "schedule_ok (with_client E c) = schedule_ok E"
  "edge_ok (with_client E c) = edge_ok E"
  by (simp_all add: fun_eq_iff with_client_def edge_env_ok_def topic_ok_def schedule_ok_def edge_ok_def base_topic_def PUBLISH_ANNOUNCE_PERIOD_SHORT_def PUBLISH_ANNOUNCE_PERIOD_LONG_def)

lemma payload_room:
  assumes "edge_env_ok E"
  shows "CERTIFICATE_CBOR_LENGTH \<le> max_coap_payload (ee_mqtt E)" "1 + 1 + CERTIFICATE_CBOR_LENGTH \<le> max_coap_payload (ee_mqtt E)"
    "1 + IPV6ADDR_CBOR_MAX_LEN \<le> max_coap_payload (ee_mqtt E)"
  using assms by (simp_all add: edge_env_ok_def COAP_MAX_CHUNK_SIZE_def CERTIFICATE_CBOR_LENGTH_def TBS_CERTIFICATE_CBOR_LENGTH_def EUI64_LENGTH_def
      DTLS_EC_SIG_SIZE_def DTLS_EC_KEY_SIZE_def IPV6ADDR_CBOR_MAX_LEN_def)

lemma base_topic_length: "edge_env_ok E \<Longrightarrow> length (base_topic E) = BASE_PUBLISH_TOPIC_LEN"
  by (simp add: edge_env_ok_def base_topic_def BASE_PUBLISH_TOPIC_LEN_def MQTT_EDGE_NAMESPACE_LEN_def MQTT_EDGE_NAMESPACE_def MQTT_IDENTITY_LEN_def
      length_concat_hex_bytes EUI64_LENGTH_def del: length_concat)

text \<open>What publishing may change: the text behind the base of the topic and the client.\<close>

definition published :: "edge_node \<Rightarrow> edge_node \<Rightarrow> bool" where
  "published s s' \<longleftrightarrow> (\<exists>t m. s' = s\<lparr>pub_topic := take BASE_PUBLISH_TOPIC_LEN (pub_topic s) @ t, mqtt := m\<rparr>)"

lemma published_set_action: "set_action a s = (b, s') \<Longrightarrow> published s s'"
  unfolding published_def set_action_def Let_def
  by (intro exI [of _ "take (MAX_PUBLISH_TOPIC_LEN - BASE_PUBLISH_TOPIC_LEN - 1) a"] exI [of _ "mqtt s"]) auto

lemma published_mqtt:
  assumes "published s s1"
  shows "published s (s1\<lparr>mqtt := m\<rparr>)"
proof -
  obtain t c where "s1 = s\<lparr>pub_topic := take BASE_PUBLISH_TOPIC_LEN (pub_topic s) @ t, mqtt := c\<rparr>" using assms by (auto simp: published_def)
  then show ?thesis unfolding published_def by (intro exI [of _ t] exI [of _ m]) simp
qed

lemma mqtt_publish_returns:
  assumes "length data \<le> max_coap_payload E"
  shows "\<exists>b m. mqtt_over_coap_publish E topic data s = Some (b, m)"
proof -
  have "mqtt_over_coap_publish E topic data s \<noteq> None" using assms by (simp add: mqtt_over_coap_publish_def Let_def split_def del: not_None_eq)
  then show ?thesis by auto
qed

lemma publish_encoded_returns:
  assumes "encoded_len (ee_nc E) en \<le> max_coap_payload (ee_mqtt E)" "published s s1"
  shows "\<exists>b s'. publish_encoded E en s1 = Some (b, s') \<and> published s s'"
proof -
  have "length (take (encoded_len (ee_nc E) en) (enc_buffer (ee_nc E) en)) \<le> max_coap_payload (ee_mqtt E)" using assms(1) by simp
  then obtain b m where "mqtt_over_coap_publish (ee_mqtt E) (pub_topic s1) (take (encoded_len (ee_nc E) en) (enc_buffer (ee_nc E) en)) (mqtt s1) = Some (b, m)"
    using mqtt_publish_returns by blast
  then show ?thesis using published_mqtt [OF assms(2)] by (auto simp: publish_encoded_def)
qed

text \<open>The three functions in one shape: an action, and then what was encoded.\<close>

lemma publish_returns:
  assumes "set_action a s = (b, s1)" "encoded_len (ee_nc E) (snd en) \<le> n" "n \<le> max_coap_payload (ee_mqtt E)"
  shows "\<exists>b' s'. (case b of True \<Rightarrow> if fst en < 0 then Some (fst en \<noteq> 0, s1) else if n < encoded_len (ee_nc E) (snd en) then None else publish_encoded E (snd en) s1
      | False \<Rightarrow> Some (False, s1)) = Some (b', s') \<and> published s s'"
proof -
  have "encoded_len (ee_nc E) (snd en) \<le> max_coap_payload (ee_mqtt E)" using assms(2,3) by simp
  from publish_encoded_returns [OF this published_set_action [OF assms(1)]] show ?thesis
    using published_set_action [OF assms(1)] assms(2) by (auto split: bool.split)
qed

lemma publish_announce_returns:
  assumes "edge_env_ok E"
  shows "\<exists>b s'. publish_announce E s = Some (b, s') \<and> published s s'"
proof -
  obtain b s1 where a: "set_action MQTT_EDGE_ACTION_ANNOUNCE s = (b, s1)" by fastforce
  from publish_returns [OF a announce_length [OF assms] payload_room(1) [OF assms]]
  show ?thesis unfolding publish_announce_def a split_def Let_def fst_conv snd_conv .
qed

lemma publish_unannounce_returns:
  assumes "edge_env_ok E"
  shows "\<exists>b s'. publish_unannounce E s = Some (b, s') \<and> published s s'"
proof -
  obtain b s1 where a: "set_action MQTT_EDGE_ACTION_UNANNOUNCE s = (b, s1)" by fastforce
  note p = published_set_action [OF a]
  show ?thesis
  proof (cases "b \<and> get_global_address E (uip_ds6_if E) \<noteq> None")
    case True
    then obtain x where b: "b = True" and x: "get_global_address E (uip_ds6_if E) = Some x" by auto
    have x16: "length x = 16" using global_address_length [OF _ x] assms by (simp add: edge_env_ok_def)
    obtain e en where e: "unannounce_encoding E x = (e, en)" by fastforce
    show ?thesis
    proof (cases "e < 0")
      case True
      then show ?thesis using a b x e p by (auto simp: publish_unannounce_def Let_def)
    next
      case False
      then have len: "encoded_len (ee_nc E) en = 1 + IPV6ADDR_CBOR_MAX_LEN" using unannounce_length [OF assms x16 e] by simp
      then have "encoded_len (ee_nc E) en \<le> max_coap_payload (ee_mqtt E)" using payload_room(3) [OF assms] by simp
      from publish_encoded_returns [OF this p] show ?thesis using a b x e False len by (simp add: publish_unannounce_def Let_def)
    qed
  next
    case False
    then have "publish_unannounce E s = Some (False, s1)" using a by (cases b) (simp_all add: publish_unannounce_def)
    then show ?thesis using p by blast
  qed
qed

lemma publish_capability_returns:
  assumes "edge_env_ok E"
  shows "\<exists>b s'. publish_capability E what name incl s = Some (b, s') \<and> published s s'"
proof -
  obtain b s1 where a: "set_action (capability_action name what) s = (b, s1)" by fastforce
  from publish_returns [OF a capability_length [OF assms] payload_room(2) [OF assms]]
  show ?thesis unfolding publish_capability_def a split_def Let_def fst_conv snd_conv .
qed

text \<open>Publishing leaves everything but the topic and the client alone.\<close>

lemma published_fields:
  "published s s' \<Longrightarrow> publish_announce_timer s' = publish_announce_timer s \<and> publish_capability_timer s' = publish_capability_timer s \<and>
     announce_short_count s' = announce_short_count s \<and> application_capability_publish_idx s' = application_capability_publish_idx s \<and>
     applications_available s' = applications_available s \<and> resource_rich_edge_started s' = resource_rich_edge_started s \<and> app_data s' = app_data s \<and> serial_out s' = serial_out s"
  by (auto simp: published_def)

lemma published_schedule: "\<lbrakk>published s s'; schedule_ok E s\<rbrakk> \<Longrightarrow> schedule_ok E s'"
  using published_fields [of s s'] by (simp add: schedule_ok_def)

lemma published_topic:
  assumes "published s s'" "edge_env_ok E" "topic_ok E s"
  shows "topic_ok E s'"
proof -
  obtain t m where s': "s' = s\<lparr>pub_topic := base_topic E @ t, mqtt := m\<rparr>" using assms(1,3) by (auto simp: published_def topic_ok_def)
  show ?thesis by (simp add: s' topic_ok_def base_topic_length [OF assms(2)])
qed

lemma published_edge_ok: "\<lbrakk>published s s'; edge_env_ok E; edge_ok E s\<rbrakk> \<Longrightarrow> edge_ok E s'"
  using published_fields [of s s'] by (simp add: edge_ok_def published_topic published_schedule)

lemma periods: "edge_env_ok E \<Longrightarrow> PUBLISH_ANNOUNCE_PERIOD_SHORT E < PUBLISH_ANNOUNCE_PERIOD_LONG E"
  by (simp add: edge_env_ok_def PUBLISH_ANNOUNCE_PERIOD_SHORT_def PUBLISH_ANNOUNCE_PERIOD_LONG_def)

lemma short_count_step: "c < PUBLISH_ANNOUNCE_SHORT_TO_LONG \<Longrightarrow> c + 1 \<le> PUBLISH_ANNOUNCE_SHORT_TO_LONG"
  unfolding PUBLISH_ANNOUNCE_SHORT_TO_LONG_def by unat_arith

lemma next_announce_ok:
  assumes "edge_env_ok E" "edge_ok E s"
  shows "edge_ok E (next_announce E ret s)" "armed (publish_announce_timer (next_announce E ret s))"
    "publish_capability_timer (next_announce E ret s) = publish_capability_timer s" "resource_rich_edge_started (next_announce E ret s) = resource_rich_edge_started s"
  using assms periods [OF assms(1)] short_count_step [of "announce_short_count s"]
  by (auto simp: next_announce_def edge_ok_def topic_ok_def schedule_ok_def Let_def not_le)

text \<open>What the events do to the timers.\<close>

lemma announce_timer_ok:
  assumes "edge_env_ok E" "edge_ok E s"
  shows "\<exists>s'. edge_process E Announce_Timer s = Some s' \<and> edge_ok E s' \<and> armed (publish_announce_timer s') \<and>
    resource_rich_edge_started s' = resource_rich_edge_started s \<and>
    (armed (publish_capability_timer s') \<longrightarrow> armed (publish_capability_timer s) \<or> resource_rich_edge_started s)"
proof -
  obtain r s1 where r: "(if resource_rich_edge_started s then publish_announce E s else publish_unannounce E s) = Some (r, s1)" "published s s1"
    using publish_announce_returns [OF assms(1)] publish_unannounce_returns [OF assms(1)] by (cases "resource_rich_edge_started s") fastforce+
  have s1: "edge_ok E s1" using r(2) assms by (auto simp: edge_ok_def intro: published_topic published_schedule)
  have f: "publish_capability_timer s1 = publish_capability_timer s" "resource_rich_edge_started s1 = resource_rich_edge_started s"
    using published_fields [OF r(2)] by simp_all
  define s2 where "s2 = (if \<not> r then s1 else if resource_rich_edge_started s1
     then s1\<lparr>publish_capability_timer := \<lparr>interval = PUBLISH_CAPABILITY_PERIOD_SHORT E, armed = True\<rparr>\<rparr>
     else s1\<lparr>publish_capability_timer := (publish_capability_timer s1)\<lparr>armed := False\<rparr>\<rparr>)"
  have s2: "edge_ok E s2" "resource_rich_edge_started s2 = resource_rich_edge_started s"
    "armed (publish_capability_timer s2) \<longrightarrow> armed (publish_capability_timer s) \<or> resource_rich_edge_started s"
    using s1 f by (simp_all add: s2_def edge_ok_def topic_ok_def schedule_ok_def)
  have "edge_process E Announce_Timer s = Some (next_announce E r s2)"
    unfolding edge_process_def edge_event.case periodic_publish_announce_def r(1) by (simp add: s2_def Let_def)
  then show ?thesis using next_announce_ok [OF assms(1) s2(1), of r] s2 by simp
qed

lemma publish_application_returns:
  "edge_env_ok E \<Longrightarrow> \<exists>b s'. publish_application E i s = Some (b, s') \<and> published s s'"
  unfolding publish_application_def publish_add_capability_def publish_remove_capability_def
  by (cases "applications_available s ! i") (simp_all add: publish_capability_returns)

lemma index_step:
  assumes "unat (i :: u8) < n" "n < 128"
  shows "unat (i + 1) = unat i + 1"
proof -
  have "unat i + 1 < 2 ^ LENGTH(8)" using assms by simp
  then show ?thesis by (simp add: unat_word_ariths)
qed

lemma next_capability_ok:
  assumes "edge_env_ok E" "edge_ok E s"
  shows "edge_ok E (next_capability E ret s)"
proof -
  have "unat (application_capability_publish_idx s + 1) = unat (application_capability_publish_idx s) + 1"
    using index_step [of "application_capability_publish_idx s" "APPLICATION_NUM E"] assms(1,2) by (simp add: edge_env_ok_def edge_ok_def schedule_ok_def)
  then show ?thesis
    using assms by (cases ret) (auto simp: next_capability_def edge_env_ok_def edge_ok_def topic_ok_def schedule_ok_def Let_def)
qed

lemma next_capability_fields:
  "armed (publish_capability_timer (next_capability E ret s))" "publish_announce_timer (next_capability E ret s) = publish_announce_timer s"
  "resource_rich_edge_started (next_capability E ret s) = resource_rich_edge_started s" "mqtt (next_capability E ret s) = mqtt s"
  "applications_available (next_capability E ret s) = applications_available s"
  by (simp_all add: next_capability_def Let_def)

lemma capability_timer_step:
  assumes "edge_env_ok E" "edge_ok E s"
  obtains b s1 where "publish_application E (unat (application_capability_publish_idx s)) s = Some (b, s1)" "published s s1"
    "edge_process E Capability_Timer s = Some (next_capability E b s1)" "edge_ok E s1"
proof -
  obtain b s1 where p: "publish_application E (unat (application_capability_publish_idx s)) s = Some (b, s1)" "published s s1"
    using publish_application_returns [OF assms(1)] by blast
  have "edge_process E Capability_Timer s = Some (next_capability E b s1)"
    using p(1) assms(2) by (simp add: edge_process_def periodic_publish_capability_def edge_ok_def schedule_ok_def Let_def)
  then show thesis using that p published_edge_ok [OF p(2) assms] by blast
qed

lemma capability_timer_ok:
  assumes "edge_env_ok E" "edge_ok E s"
  shows "\<exists>s'. edge_process E Capability_Timer s = Some s' \<and> edge_ok E s' \<and> publish_announce_timer s' = publish_announce_timer s \<and>
    resource_rich_edge_started s' = resource_rich_edge_started s"
proof -
  obtain b s1 where s1: "published s s1" "edge_process E Capability_Timer s = Some (next_capability E b s1)" "edge_ok E s1"
    using capability_timer_step [OF assms] by blast
  then show ?thesis using next_capability_ok [OF assms(1) s1(3), of b] published_fields [OF s1(1)] by (simp add: next_capability_fields)
qed

lemma index_of_application_range:
  assumes "APPLICATION_NUM E < 128" "0 \<le> index_of_application E name"
  shows "nat (index_of_application E name) < APPLICATION_NUM E" "app_names E ! nat (index_of_application E name) = name"
proof -
  obtain i where i: "List.find (\<lambda>i. name = app_names E ! i) [0..<APPLICATION_NUM E] = Some i"
    using assms(2) by (auto simp: index_of_application_def split: option.splits)
  then have r: "i < APPLICATION_NUM E" "app_names E ! i = name" by (auto simp: find_Some_iff)
  have "index_of_application E name = int i"
    using i r(1) assms(1) by (simp add: index_of_application_def signed_of_nat signed_take_bit_int_eq_self)
  then show "nat (index_of_application E name) < APPLICATION_NUM E" "app_names E ! nat (index_of_application E name) = name" using r by simp_all
qed

lemma trigger_faster_publish_ok:
  assumes "edge_env_ok E" "topic_ok E s" "length (applications_available s) = APPLICATION_NUM E"
    "interval (publish_announce_timer s) = PUBLISH_ANNOUNCE_PERIOD_SHORT E \<or> interval (publish_announce_timer s) = PUBLISH_ANNOUNCE_PERIOD_LONG E"
  shows "edge_ok E (trigger_faster_publish E remaining s)"
  using assms by (auto simp: trigger_faster_publish_def edge_ok_def topic_ok_def schedule_ok_def edge_env_ok_def PUBLISH_ANNOUNCE_SHORT_TO_LONG_def Let_def)

lemma trigger_faster_publish_timers:
  "armed (publish_announce_timer s) \<Longrightarrow> armed (publish_announce_timer (trigger_faster_publish E remaining s))"
  "\<not> armed (publish_capability_timer (trigger_faster_publish E remaining s))"
  "resource_rich_edge_started (trigger_faster_publish E remaining s) = resource_rich_edge_started s"
  by (simp_all add: trigger_faster_publish_def Let_def)

lemma edge_ok_serial_out [simp]: "edge_ok E (s\<lparr>serial_out := x\<rparr>) = edge_ok E s"
  by (simp add: edge_ok_def topic_ok_def schedule_ok_def)

lemma edge_message_ok:
  assumes "edge_env_ok E" "edge_ok E s"
  shows "edge_ok E (process_edge_serial_message E remaining data s)"
proof -
  have ok: "edge_ok E (trigger_faster_publish E remaining (s\<lparr>resource_rich_edge_started := x, applications_available := a\<rparr>))"
    if "length a = APPLICATION_NUM E" for x a
    using assms that by (intro trigger_faster_publish_ok) (auto simp: edge_ok_def topic_ok_def schedule_ok_def)
  have ok1: "edge_ok E (trigger_faster_publish E remaining (s\<lparr>resource_rich_edge_started := x\<rparr>))" for x
    using assms by (intro trigger_faster_publish_ok) (auto simp: edge_ok_def topic_ok_def schedule_ok_def)
  have ok2: "edge_ok E (trigger_faster_publish E remaining (s\<lparr>applications_available := a, resource_rich_edge_started := x\<rparr>))"
    if "length a = APPLICATION_NUM E" for x a
    using assms that by (intro trigger_faster_publish_ok) (auto simp: edge_ok_def topic_ok_def schedule_ok_def)
  have "edge_ok E (s\<lparr>applications_available := replicate (APPLICATION_NUM E) False\<rparr>)"
    using assms(2) by (simp add: edge_ok_def topic_ok_def schedule_ok_def)
  then show ?thesis
    using assms(2) ok1 ok2 by (simp add: process_edge_serial_message_def set_all_applications_unavailable_def Let_def)
qed

lemma edge_message_timers:
  assumes "s' = process_edge_serial_message E remaining data s"
  shows "armed (publish_announce_timer s) \<Longrightarrow> armed (publish_announce_timer s')"
    "armed (publish_capability_timer s') \<Longrightarrow> armed (publish_capability_timer s)"
    "resource_rich_edge_started s \<Longrightarrow> match_action data ''stop'' \<or> resource_rich_edge_started s'"
    "\<lbrakk>match_action data ''stop''; armed (publish_capability_timer s')\<rbrakk> \<Longrightarrow> \<not> resource_rich_edge_started s"
proof -
  have excl: "\<not> (match_action data ''start'' \<and> match_action data ''stop'')"
  proof
    assume m: "match_action data ''start'' \<and> match_action data ''stop''"
    then have "take (length ''start'') data = ''start''" "take (length ''stop'') data = ''stop''" by (simp_all only: match_action_def)
    then have "take (length ''stop'') (take (length ''start'') data) = take (length ''stop'') ''start''" "take (length ''stop'') data = ''stop''" by simp_all
    then show False by simp
  qed
  show "armed (publish_announce_timer s) \<Longrightarrow> armed (publish_announce_timer s')"
    "armed (publish_capability_timer s') \<Longrightarrow> armed (publish_capability_timer s)"
    "resource_rich_edge_started s \<Longrightarrow> match_action data ''stop'' \<or> resource_rich_edge_started s'"
    "\<lbrakk>match_action data ''stop''; armed (publish_capability_timer s')\<rbrakk> \<Longrightarrow> \<not> resource_rich_edge_started s"
    unfolding assms using excl
    by (auto simp: process_edge_serial_message_def set_all_applications_unavailable_def Let_def trigger_faster_publish_timers split: if_splits)
qed

lemma application_message_ok:
  assumes "edge_env_ok E" "edge_ok E s"
  shows "\<exists>s'. process_application_serial_message E data s = Some s' \<and> edge_ok E s' \<and> publish_announce_timer s' = publish_announce_timer s \<and>
    publish_capability_timer s' = publish_capability_timer s \<and> resource_rich_edge_started s' = resource_rich_edge_started s"
proof -
  have pub: "\<exists>s'. map_option snd (publish_capability E what name True (s\<lparr>applications_available := (applications_available s)[i := x]\<rparr>)) = Some s' \<and> edge_ok E s' \<and>
      publish_announce_timer s' = publish_announce_timer s \<and> publish_capability_timer s' = publish_capability_timer s \<and> resource_rich_edge_started s' = resource_rich_edge_started s"
    for what name i x
  proof -
    obtain b s' where p: "publish_capability E what name True (s\<lparr>applications_available := (applications_available s)[i := x]\<rparr>) = Some (b, s')"
      "published (s\<lparr>applications_available := (applications_available s)[i := x]\<rparr>) s'"
      using publish_capability_returns [OF assms(1)] by fastforce
    have "edge_ok E (s\<lparr>applications_available := (applications_available s)[i := x]\<rparr>)"
      using assms(2) by (simp add: edge_ok_def topic_ok_def schedule_ok_def)
    from published_edge_ok [OF p(2) assms(1) this] show ?thesis using published_fields [OF p(2)] by (simp add: p(1))
  qed
  have app: "edge_ok E (s\<lparr>app_data := d\<rparr>)" for d using assms(2) by (simp add: edge_ok_def topic_ok_def schedule_ok_def)
  show ?thesis
    unfolding process_application_serial_message_def Let_def publish_add_capability_def publish_remove_capability_def
    using pub app assms(2) by (simp split: if_split)
qed

lemma stops_message: "stops (Serial_Line remaining (CHR ''!'' # data)) = match_action data ''stop''"
  by (simp add: stops_def match_action_def)

lemma serial_ok:
  assumes "edge_env_ok E" "edge_ok E s"
  shows "\<exists>s'. edge_process E (Serial_Line remaining data) s = Some s' \<and> edge_ok E s' \<and>
    (armed (publish_announce_timer s) \<longrightarrow> armed (publish_announce_timer s')) \<and>
    (armed (publish_capability_timer s') \<longrightarrow> armed (publish_capability_timer s)) \<and>
    (resource_rich_edge_started s \<longrightarrow> stops (Serial_Line remaining data) \<or> resource_rich_edge_started s') \<and>
    (stops (Serial_Line remaining data) \<longrightarrow> armed (publish_capability_timer s') \<longrightarrow> \<not> resource_rich_edge_started s)"
proof -
  consider "match_action data ''@''" | d where "\<not> match_action data ''@''" "data = CHR ''!'' # d" | "\<not> match_action data ''@''" "\<not> match_action data ''!''"
    by (cases data) (auto simp: match_action_def)
  then show ?thesis
  proof cases
    case 1
    then have "\<not> stops (Serial_Line remaining data)" by (cases data) (auto simp: stops_def match_action_def)
    then show ?thesis using 1 application_message_ok [OF assms, of "drop 1 data"] by (auto simp: edge_process_def process_serial_message_def)
  next
    case (2 d)
    define s' where "s' = process_edge_serial_message E remaining d s"
    have "edge_process E (Serial_Line remaining data) s = Some s'"
      using 2 by (simp add: edge_process_def process_serial_message_def s'_def match_action_def)
    moreover have "edge_ok E s'" unfolding s'_def by (rule edge_message_ok [OF assms])
    ultimately show ?thesis using edge_message_timers [OF s'_def] 2(2) stops_message [of remaining d] by blast
  next
    case 3
    then have "\<not> stops (Serial_Line remaining data)" by (cases data) (auto simp: stops_def match_action_def)
    then show ?thesis using 3 assms(2) by (simp add: edge_process_def process_serial_message_def)
  qed
qed

lemma edge_event_ok:
  assumes "edge_env_ok E" "edge_ok E s"
  shows "\<exists>s'. edge_process E ev s = Some s' \<and> edge_ok E s'"
  using announce_timer_ok [OF assms] capability_timer_ok [OF assms] serial_ok [OF assms] by (cases ev) blast+

text \<open>
  The announce timer is set or its event waits.  Between stops that found no event waiting, the capability timer is set, or its event waits, only while the edge is started.
\<close>

definition run_ok :: "('en, 'de) edge_env \<Rightarrow> bool \<Rightarrow> edge_event list \<Rightarrow> edge_node \<Rightarrow> bool" where
  "run_ok E clean q s \<longleftrightarrow> edge_ok E s \<and> (armed (publish_announce_timer s) \<or> Announce_Timer \<in> set q) \<and>
     (\<forall>ev\<in>set q. ev = Announce_Timer \<or> ev = Capability_Timer) \<and>
     (clean \<longrightarrow> armed (publish_capability_timer s) \<or> Capability_Timer \<in> set q \<longrightarrow> resource_rich_edge_started s)"

lemma edge_run_ok:
  assumes "edge_run E s clean q s'" "edge_env_ok E" "run_ok E True [] s"
  shows "run_ok E clean q s'"
  using assms
proof (induction rule: edge_run.induct)
  case (announce_expires s clean q s')
  then show ?case by (auto simp: run_ok_def edge_ok_def topic_ok_def schedule_ok_def)
next
  case (capability_expires s clean q s')
  then show ?case by (auto simp: run_ok_def edge_ok_def topic_ok_def schedule_ok_def)
next
  case (timer_event s clean ev q s' c s'')
  then have ih: "run_ok E clean (ev # q) s'" by blast
  then have ok: "edge_env_ok (with_client E c)" "edge_ok (with_client E c) s'" using timer_event.prems by (simp_all add: run_ok_def)
  from ih consider "ev = Announce_Timer" | "ev = Capability_Timer" by (auto simp: run_ok_def)
  then show ?case
  proof cases
    case 1
    then show ?thesis using announce_timer_ok [OF ok] timer_event.hyps(2) ih by (auto simp: run_ok_def)
  next
    case 2
    then show ?thesis using capability_timer_ok [OF ok] timer_event.hyps(2) ih by (auto simp: run_ok_def)
  qed
next
  case (serial s clean q s' ev remaining data c s'')
  then have ih: "run_ok E clean q s'" by blast
  then have ok: "edge_env_ok (with_client E c)" "edge_ok (with_client E c) s'" using serial.prems by (simp_all add: run_ok_def)
  from serial_ok [OF ok, of remaining data] serial.hyps(2,3)
  have r: "edge_ok E s''" "armed (publish_announce_timer s') \<longrightarrow> armed (publish_announce_timer s'')"
    "armed (publish_capability_timer s'') \<longrightarrow> armed (publish_capability_timer s')"
    "resource_rich_edge_started s' \<longrightarrow> stops ev \<or> resource_rich_edge_started s''"
    "stops ev \<longrightarrow> armed (publish_capability_timer s'') \<longrightarrow> \<not> resource_rich_edge_started s'" by auto
  then show ?case using ih unfolding run_ok_def by blast
next
  case (client s clean q s' m)
  then show ?case by (simp add: run_ok_def edge_ok_def topic_ok_def schedule_ok_def)
qed simp

text \<open>
  A stop that does find an event waiting does not take it back: the edge publishes a capability although it is stopped, and the timer is set again for the next one.
\<close>

lemma stop_with_event_waiting:
  assumes "edge_env_ok E" "edge_ok E s" "resource_rich_edge_started s"
  shows "\<exists>s1 s2. edge_process E (Serial_Line remaining ''!stop'') s = Some s1 \<and> \<not> resource_rich_edge_started s1 \<and> \<not> armed (publish_capability_timer s1) \<and>
    edge_process E Capability_Timer s1 = Some s2 \<and> \<not> resource_rich_edge_started s2 \<and> armed (publish_capability_timer s2)"
proof -
  define s1 where "s1 = process_edge_serial_message E remaining ''stop'' s"
  have 1: "edge_process E (Serial_Line remaining ''!stop'') s = Some s1"
    by (simp add: edge_process_def process_serial_message_def match_action_def s1_def)
  have f: "\<not> resource_rich_edge_started s1" "\<not> armed (publish_capability_timer s1)"
    using assms(3) by (simp_all add: s1_def process_edge_serial_message_def match_action_def set_all_applications_unavailable_def Let_def trigger_faster_publish_timers)
  have ok1: "edge_ok E s1" unfolding s1_def by (rule edge_message_ok [OF assms(1,2)])
  obtain b s2 where s2: "published s1 s2" "edge_process E Capability_Timer s1 = Some (next_capability E b s2)"
    using capability_timer_step [OF assms(1) ok1] by blast
  have "\<not> resource_rich_edge_started (next_capability E b s2)" "armed (publish_capability_timer (next_capability E b s2))"
    using f published_fields [OF s2(1)] by (simp_all add: next_capability_fields)
  then show ?thesis using 1 f s2(2) by blast
qed

subsection \<open>What a subscriber makes of what is published\<close>

lemma starts_with_append: "starts_with p (p @ mem) = Some True"
  by (induction p) simp_all

lemma xdigits_hex_bytes: "xdigits (2 * length bs) (concat (map hex_byte bs) @ mem) = Some True"
proof (induction bs)
  case (Cons b bs)
  have digit: "is_xdigit (hex_digit n)" if "n < 16" for n
  proof -
    have "\<forall>n\<in>{..<16}. is_xdigit (hex_digit n)" by code_simp
    then show ?thesis using that by simp
  qed
  have "2 * length (b # bs) = Suc (Suc (2 * length bs))" by simp
  then show ?case using Cons digit [OF unat_drop_bit4 [of b]] digit [OF unat_and_F [of b]] by (simp only: hex_byte_def) simp
qed simp

lemma handler_on_topic:
  assumes "length (linkaddr_node_addr E) = EUI64_LENGTH" "\<not> is_our_eui64 N (linkaddr_node_addr E)"
  shows "mqtt_publish_handler N (base_topic E @ mem) (length (base_topic E) + k) chunk n = publish_action N mem chunk (linkaddr_node_addr E) n"
proof -
  define hex where "hex = concat (map hex_byte (linkaddr_node_addr E))"
  have hex: "length hex = MQTT_IDENTITY_LEN" "xdigits MQTT_IDENTITY_LEN (hex @ m) = Some True"
    "eui64_from_strn (hex @ m) MQTT_IDENTITY_LEN (replicate EUI64_LENGTH 0) = (True, linkaddr_node_addr E)" for m
    using xdigits_hex_bytes [of "linkaddr_node_addr E" m] eui64_from_strn_hex_bytes [OF assms(1), of m] assms(1)
    by (simp_all add: hex_def length_concat_hex_bytes EUI64_LENGTH_def MQTT_IDENTITY_LEN_def del: length_concat)
  have "base_topic E = MQTT_EDGE_NAMESPACE @ ''/'' @ hex @ ''/''" by (simp add: base_topic_def hex_def)
  then show ?thesis
    using assms(2) by (simp add: mqtt_publish_handler_def starts_with_append hex del: starts_with.simps)
      (simp add: MQTT_EDGE_NAMESPACE_def hex)
qed

lemma action_announce: "publish_action N (MQTT_EDGE_ACTION_ANNOUNCE @ mem) chunk eui n = map_option snd (mqtt_publish_announce_handler N chunk eui n)"
  by (simp add: publish_action_def starts_with_append)

lemma action_unannounce: "publish_action N (MQTT_EDGE_ACTION_UNANNOUNCE @ mem) chunk eui n = map_option snd (mqtt_publish_unannounce_handler N chunk eui n)"
proof -
  have "starts_with MQTT_EDGE_ACTION_ANNOUNCE (MQTT_EDGE_ACTION_UNANNOUNCE @ mem) = Some False"
    by (simp add: MQTT_EDGE_ACTION_ANNOUNCE_def MQTT_EDGE_ACTION_UNANNOUNCE_def)
  then show ?thesis by (simp add: publish_action_def starts_with_append)
qed

lemma strchr_append: "c \<notin> set name \<Longrightarrow> NUL \<notin> set name \<Longrightarrow> strchr (name @ c # mem) c k = Some (Some (k + length name))"
  by (induction name arbitrary: k) auto

definition name_ok :: "string \<Rightarrow> bool" where
  "name_ok name \<longleftrightarrow> name \<noteq> [] \<and> length name \<le> EDGE_CAPABILITY_NAME_LEN \<and> CHR ''/'' \<notin> set name \<and> NUL \<notin> set name"

lemma name_cstr: "name_ok name \<Longrightarrow> cstr name = name"
  by (auto simp: name_ok_def cstr_def takeWhile_eq_all_conv)

lemma action_capability:
  assumes "name_ok name" "what = MQTT_EDGE_ACTION_CAPABILITY_ADD \<and> H = mqtt_publish_capability_add_handler \<or>
    what = MQTT_EDGE_ACTION_CAPABILITY_REMOVE \<and> H = mqtt_publish_capability_remove_handler"
  shows "publish_action N (capability_action name what @ mem) chunk eui n = map_option snd (H N eui name chunk n)"
proof -
  have no: "starts_with MQTT_EDGE_ACTION_ANNOUNCE (MQTT_EDGE_ACTION_CAPABILITY @ m) = Some False"
    "starts_with MQTT_EDGE_ACTION_UNANNOUNCE (MQTT_EDGE_ACTION_CAPABILITY @ m) = Some False"
    "starts_with MQTT_EDGE_ACTION_CAPABILITY_ADD (MQTT_EDGE_ACTION_CAPABILITY_REMOVE @ m) = Some False" for m
    by (simp_all add: MQTT_EDGE_ACTION_ANNOUNCE_def MQTT_EDGE_ACTION_UNANNOUNCE_def MQTT_EDGE_ACTION_CAPABILITY_def
        MQTT_EDGE_ACTION_CAPABILITY_ADD_def MQTT_EDGE_ACTION_CAPABILITY_REMOVE_def)
  have chr: "strchr (name @ CHR ''/'' # m) (CHR ''/'') 0 = Some (Some (length name))" for m
    using strchr_append [of "CHR ''/''" name m 0] assms(1) by (simp add: name_ok_def)
  show ?thesis
    using assms by (auto simp: publish_action_def capability_action_def name_cstr no starts_with_append mqtt_publish_capability_handler_def chr name_ok_def)
qed

text \<open>A request that carries a topic, and what every node does with it but the one that has the identity in the topic.\<close>

definition understood ::
  "('en, 'de) edge_env \<Rightarrow> edge_node \<Rightarrow> edge_node \<Rightarrow> (('e, 'c, 'k, 'en2, 'de2) node_env \<Rightarrow> u8 list \<Rightarrow> ('e, 'c, 'k) node \<Rightarrow> (int \<times> ('e, 'c, 'k) node) option) \<Rightarrow> bool" where
  "understood E s s' handle \<longleftrightarrow>
     (\<exists>topic payload. sent_requests (mqtt s') = sent_requests (mqtt s) @ [CoapPut (''t='' @ topic) payload] \<and>
        (\<forall>N rest n. \<not> is_our_eui64 N (linkaddr_node_addr E) \<longrightarrow>
           mqtt_publish_handler N (topic @ rest) (length topic) payload n = map_option snd (handle N payload n)))"

lemma publish_sends:
  assumes "mqtt_over_coap_publish E topic payload m = Some (True, m')"
  shows "sent_requests m' = sent_requests m @ [CoapPut (''t='' @ cstr topic) payload]"
  using assms by (auto simp: mqtt_over_coap_publish_def uri_query_def MQTT_TOPIC_QUERY_NAME_def coap_send_def set_lock_def Let_def split: if_splits)

lemma set_action_topic:
  assumes "topic_ok E s" "set_action action s = (True, s1)"
  shows "pub_topic s1 = base_topic E @ action" "mqtt s1 = mqtt s"
  using assms by (auto simp: set_action_def topic_ok_def Let_def)

lemma action_no_nul: "NUL \<notin> set MQTT_EDGE_ACTION_ANNOUNCE" "NUL \<notin> set MQTT_EDGE_ACTION_UNANNOUNCE"
    "NUL \<notin> set MQTT_EDGE_ACTION_CAPABILITY" "NUL \<notin> set MQTT_EDGE_ACTION_CAPABILITY_ADD" "NUL \<notin> set MQTT_EDGE_ACTION_CAPABILITY_REMOVE"
    "NUL \<notin> set MQTT_EDGE_NAMESPACE" "NUL \<notin> set ''/''"
  by code_simp+

lemma base_topic_no_nul: "NUL \<notin> set (base_topic E)"
proof -
  have "NUL \<noteq> hex_digit n" if "n < 16" for n
  proof -
    have "\<forall>n\<in>{..<16}. NUL \<noteq> hex_digit n" by code_simp
    then show ?thesis using that by simp
  qed
  then have "NUL \<notin> set (hex_byte b)" for b using unat_drop_bit4 [of b] unat_and_F [of b] by (auto simp: hex_byte_def)
  then show ?thesis using action_no_nul by (auto simp: base_topic_def)
qed

lemma publication_understood:
  assumes "length (linkaddr_node_addr E) = EUI64_LENGTH" "topic_ok E s" "set_action action s = (True, s1)" "publish_encoded E en s1 = Some (True, s')" "NUL \<notin> set action"
    "\<And>N mem chunk n. publish_action N (action @ mem) chunk (linkaddr_node_addr E) n = map_option snd (handle N chunk n)"
  shows "understood E s s' handle"
proof -
  note t = set_action_topic [OF assms(2,3)]
  have c: "cstr (base_topic E @ action) = base_topic E @ action"
    using base_topic_no_nul [of E] assms(5) by (auto simp: cstr_def takeWhile_eq_all_conv)
  obtain m where m: "mqtt_over_coap_publish (ee_mqtt E) (base_topic E @ action) (take (encoded_len (ee_nc E) en) (enc_buffer (ee_nc E) en)) (mqtt s) = Some (True, m)"
    "s' = s1\<lparr>mqtt := m\<rparr>"
    using assms(4) t by (auto simp: publish_encoded_def split: option.splits)
  show ?thesis
    unfolding understood_def
    using publish_sends [OF m(1)]
    by (intro exI [of _ "base_topic E @ action"]) (auto simp: m(2) c handler_on_topic [OF assms(1), where k = "length action"] assms(6))
qed

text \<open>\<open>certificate_encode\<close> ignores what the encoder reports.\<close>

lemma announce_encoding_zero: "fst (announce_encoding E) = 0"
  by (simp add: announce_encoding_def certificate_encode_def ignored_def)

lemma announce_understood:
  assumes "length (linkaddr_node_addr E) = EUI64_LENGTH" "topic_ok E s" "publish_announce E s = Some (True, s')"
  shows "understood E s s' (\<lambda>N p. mqtt_publish_announce_handler N p (linkaddr_node_addr E))"
proof -
  obtain b s1 where a: "set_action MQTT_EDGE_ACTION_ANNOUNCE s = (b, s1)" by fastforce
  then have "b" "publish_encoded E (snd (announce_encoding E)) s1 = Some (True, s')"
    using assms(3) announce_encoding_zero [of E] by (cases b; auto simp: publish_announce_def split_def Let_def split: if_splits)+
  then show ?thesis using a
    by (intro publication_understood [OF assms(1,2)]) (auto simp: action_announce action_no_nul)
qed

lemma unannounce_understood:
  assumes "length (linkaddr_node_addr E) = EUI64_LENGTH" "topic_ok E s" "publish_unannounce E s = Some (True, s')" "\<And>a. 0 \<le> fst (unannounce_encoding E a)"
  shows "understood E s s' (\<lambda>N p. mqtt_publish_unannounce_handler N p (linkaddr_node_addr E))"
proof -
  obtain b s1 where a: "set_action MQTT_EDGE_ACTION_UNANNOUNCE s = (b, s1)" by fastforce
  obtain x where "b" "publish_encoded E (snd (unannounce_encoding E x)) s1 = Some (True, s')"
    using assms(3) a assms(4)
    by (cases b) (auto simp: publish_unannounce_def split_def Let_def not_less [symmetric] split: if_splits option.splits)
  then show ?thesis using a
    by (intro publication_understood [OF assms(1,2)]) (auto simp: action_unannounce action_no_nul)
qed

lemma capability_understood:
  assumes "length (linkaddr_node_addr E) = EUI64_LENGTH" "topic_ok E s" "publish_capability E what name incl s = Some (True, s')" "0 \<le> fst (capability_encoding E incl)" "name_ok name"
    "what = MQTT_EDGE_ACTION_CAPABILITY_ADD \<and> H = mqtt_publish_capability_add_handler \<or>
     what = MQTT_EDGE_ACTION_CAPABILITY_REMOVE \<and> H = mqtt_publish_capability_remove_handler"
  shows "understood E s s' (\<lambda>N p. H N (linkaddr_node_addr E) name p)"
proof -
  obtain b s1 where a: "set_action (capability_action name what) s = (b, s1)" by fastforce
  then have b: "b" "publish_encoded E (snd (capability_encoding E incl)) s1 = Some (True, s')"
    using assms(3,4) by (cases b; auto simp: publish_capability_def split_def Let_def split: if_splits)+
  have "NUL \<notin> set (capability_action name what)"
    unfolding capability_action_def using assms(5,6) action_no_nul by (auto simp: name_cstr name_ok_def)
  then show ?thesis using a b
    by (intro publication_understood [OF assms(1,2)]) (auto simp: action_capability [OF assms(5,6)])
qed

subsection \<open>Progress of the capabilities\<close>

text \<open>
  Events of the capability timer one after the other, the client and the network in whatever state they are by then; the result has the requests that were sent.
\<close>

fun capability_events :: "('en, 'de) edge_env \<Rightarrow> (mqtt_env \<times> mqtt_client) list \<Rightarrow> edge_node \<Rightarrow> (coap_put_get list \<times> edge_node) option" where
  "capability_events E [] s = Some ([], s)"
| "capability_events E ((c, m) # ms) s =
     (case edge_process (with_client E c) Capability_Timer (s\<lparr>mqtt := m\<rparr>) of
        None \<Rightarrow> None
      | Some s1 \<Rightarrow> map_option (map_prod (append (drop (length (sent_requests m)) (sent_requests (mqtt s1)))) id) (capability_events E ms s1))"

text \<open>When the client can send, and the request for one application.\<close>

definition can_send :: "mqtt_env \<Rightarrow> mqtt_client \<Rightarrow> bool" where
  "can_send c m \<longleftrightarrow> \<not> timed_unlock_is_locked (coap_callback_in_use m) \<and> root_connected c \<and> send_request c \<noteq> 0"

definition what_of :: "bool \<Rightarrow> string" where
  "what_of available = (if available then MQTT_EDGE_ACTION_CAPABILITY_ADD else MQTT_EDGE_ACTION_CAPABILITY_REMOVE)"

definition capability_request :: "('en, 'de) edge_env \<Rightarrow> bool list \<Rightarrow> nat \<Rightarrow> coap_put_get" where
  "capability_request E available j =
     (let en = snd (capability_encoding E False)
      in CoapPut (''t='' @ base_topic E @ capability_action (app_names E ! j) (what_of (available ! j))) (take (encoded_len (ee_nc E) en) (enc_buffer (ee_nc E) en)))"

lemma with_client_fields [simp]:
  "ee_nc (with_client E c) = ee_nc E" "ee_cert (with_client E c) = ee_cert E" "app_names (with_client E c) = app_names E" "base_topic (with_client E c) = base_topic E"
  by (simp_all add: with_client_def base_topic_def)

lemma with_client_encoding [simp]: "capability_encoding (with_client E c) incl = capability_encoding E incl"
  by (simp only: capability_encoding_def with_client_fields)

lemma can_send_with_client [simp]: "can_send (ee_mqtt (with_client E c)) m = can_send c m"
  by (simp add: can_send_def with_client_def)

lemma capability_action_size:
  assumes "name_ok name" "length what \<le> 6"
  shows "0 < length (capability_action name what) \<and> length (capability_action name what) < 64"
  using assms by (simp add: capability_action_def name_cstr name_ok_def EDGE_CAPABILITY_NAME_LEN_def MQTT_EDGE_ACTION_CAPABILITY_def)

text \<open>A publication is one request when the client can send and none otherwise.\<close>

lemma encoded_published:
  assumes "edge_env_ok E" "topic_ok E s" "set_action action s = (True, s1)" "length action < 64" "NUL \<notin> set action"
    "encoded_len (ee_nc E) en \<le> max_coap_payload (ee_mqtt E)"
  shows "\<exists>m. publish_encoded E en s1 = Some (can_send (ee_mqtt E) (mqtt s), s1\<lparr>mqtt := m\<rparr>) \<and>
    sent_requests m = sent_requests (mqtt s) @
      (if can_send (ee_mqtt E) (mqtt s) then [CoapPut (''t='' @ base_topic E @ action) (take (encoded_len (ee_nc E) en) (enc_buffer (ee_nc E) en))] else [])"
proof -
  note t = set_action_topic [OF assms(2,3)]
  have "cstr (base_topic E @ action) = base_topic E @ action"
    using base_topic_no_nul assms(5) by (auto simp: cstr_def takeWhile_eq_all_conv)
  then have q: "uri_query (base_topic E @ action) = (2 + length (base_topic E) + length action, ''t='' @ base_topic E @ action)"
    "2 + length (base_topic E) + length action < MAX_QUERY_LEN"
    using base_topic_length [OF assms(1)] assms(4)
    by (simp_all add: uri_query_def MAX_QUERY_LEN_def MQTT_TOPIC_QUERY_NAME_def BASE_PUBLISH_TOPIC_LEN_def MQTT_EDGE_NAMESPACE_LEN_def MQTT_IDENTITY_LEN_def)
  have "length (take (encoded_len (ee_nc E) en) (enc_buffer (ee_nc E) en)) \<le> max_coap_payload (ee_mqtt E)" using assms(6) by simp
  then show ?thesis
    using q by (auto simp: publish_encoded_def t mqtt_over_coap_publish_def can_send_def set_lock_def coap_send_def Let_def)
qed

lemma capability_published:
  assumes "edge_env_ok E" "topic_ok E s" "name_ok name" "what = what_of b" "0 \<le> fst (capability_encoding E incl)"
  defines "en \<equiv> snd (capability_encoding E incl)"
  shows "\<exists>s'. publish_capability E what name incl s = Some (can_send (ee_mqtt E) (mqtt s), s') \<and>
    sent_requests (mqtt s') = sent_requests (mqtt s) @ (if can_send (ee_mqtt E) (mqtt s)
      then [CoapPut (''t='' @ base_topic E @ capability_action name what) (take (encoded_len (ee_nc E) en) (enc_buffer (ee_nc E) en))] else [])"
proof -
  have what: "length what \<le> 6" "NUL \<notin> set what"
    using assms(4) action_no_nul by (auto simp: what_of_def MQTT_EDGE_ACTION_CAPABILITY_ADD_def MQTT_EDGE_ACTION_CAPABILITY_REMOVE_def)
  note size = capability_action_size [OF assms(3) what(1)]
  have nul: "NUL \<notin> set (capability_action name what)"
    using assms(3) what(2) action_no_nul by (auto simp: capability_action_def name_cstr name_ok_def)
  obtain s1 where a: "set_action (capability_action name what) s = (True, s1)" using size by (auto simp: set_action_def MAX_PUBLISH_TOPIC_LEN_def Let_def)
  have len: "encoded_len (ee_nc E) en \<le> 1 + 1 + CERTIFICATE_CBOR_LENGTH" unfolding en_def by (rule capability_length [OF assms(1)])
  then have "encoded_len (ee_nc E) en \<le> max_coap_payload (ee_mqtt E)" using payload_room(2) [OF assms(1)] by simp
  from encoded_published [OF assms(1,2) a _ nul this] size obtain m where
    m: "publish_encoded E en s1 = Some (can_send (ee_mqtt E) (mqtt s), s1\<lparr>mqtt := m\<rparr>)"
      "sent_requests m = sent_requests (mqtt s) @ (if can_send (ee_mqtt E) (mqtt s)
        then [CoapPut (''t='' @ base_topic E @ capability_action name what) (take (encoded_len (ee_nc E) en) (enc_buffer (ee_nc E) en))] else [])" by blast
  have "publish_capability E what name incl s = publish_encoded E en s1"
    using a assms(5) len by (simp add: publish_capability_def en_def split_def Let_def)
  then show ?thesis using m by auto
qed

lemma application_published:
  assumes "edge_env_ok E" "topic_ok E s" "name_ok (app_names E ! i)" "0 \<le> fst (capability_encoding E False)"
  shows "\<exists>s'. publish_application E i s = Some (can_send (ee_mqtt E) (mqtt s), s') \<and>
    sent_requests (mqtt s') = sent_requests (mqtt s) @ (if can_send (ee_mqtt E) (mqtt s) then [capability_request E (applications_available s) i] else [])"
proof -
  have "publish_application E i s = publish_capability E (what_of (applications_available s ! i)) (app_names E ! i) False s"
    by (simp add: publish_application_def publish_add_capability_def publish_remove_capability_def what_of_def)
  then show ?thesis
    using capability_published [OF assms(1-3) refl assms(4), of "applications_available s ! i"] by (simp only: capability_request_def Let_def)
qed

lemma next_capability_index:
  assumes "edge_env_ok E" "edge_ok E s"
  shows "unat (application_capability_publish_idx (next_capability E ret s)) =
      (unat (application_capability_publish_idx s) + (if ret then 1 else 0)) mod APPLICATION_NUM E"
proof -
  have i: "unat (application_capability_publish_idx s) < APPLICATION_NUM E" "APPLICATION_NUM E < 128"
    using assms by (simp_all add: edge_env_ok_def edge_ok_def schedule_ok_def)
  then show ?thesis using index_step [OF i] by (cases ret) (auto simp: next_capability_def Let_def mod_if)
qed

lemma capability_event:
  assumes "edge_env_ok E" "edge_ok E s" "\<forall>name\<in>set (app_names E). name_ok name" "0 \<le> fst (capability_encoding E False)"
  defines "i \<equiv> unat (application_capability_publish_idx s)"
  shows "\<exists>s'. edge_process (with_client E c) Capability_Timer (s\<lparr>mqtt := m\<rparr>) = Some s' \<and> edge_ok E s' \<and> armed (publish_capability_timer s') \<and>
    applications_available s' = applications_available s \<and>
    sent_requests (mqtt s') = sent_requests m @ (if can_send c m then [capability_request E (applications_available s) i] else []) \<and>
    unat (application_capability_publish_idx s') = (i + (if can_send c m then 1 else 0)) mod APPLICATION_NUM E"
proof -
  define s0 where "s0 = s\<lparr>mqtt := m\<rparr>"
  have E: "edge_env_ok (with_client E c)" "edge_ok (with_client E c) s0"
    using assms(1,2) by (simp_all add: s0_def edge_ok_def topic_ok_def schedule_ok_def)
  have s0: "unat (application_capability_publish_idx s0) = i" "mqtt s0 = m" "applications_available s0 = applications_available s" by (simp_all add: s0_def i_def)
  have "i < APPLICATION_NUM E" using assms(2) by (simp add: i_def edge_ok_def schedule_ok_def)
  then have nm: "name_ok (app_names (with_client E c) ! i)" using assms(3) by simp
  from capability_timer_step [OF E] obtain b s1 where p: "publish_application (with_client E c) i s0 = Some (b, s1)" "published s0 s1"
    "edge_process (with_client E c) Capability_Timer s0 = Some (next_capability (with_client E c) b s1)" "edge_ok (with_client E c) s1"
    unfolding s0(1) by metis
  have "topic_ok (with_client E c) s0" using E(2) by (simp add: edge_ok_def)
  from application_published [OF E(1) this nm] assms(4) p(1)
  have q: "b = can_send c m" "sent_requests (mqtt s1) = sent_requests m @ (if can_send c m then [capability_request E (applications_available s) i] else [])"
    by (simp_all add: s0(2,3) capability_request_def)
  have f: "unat (application_capability_publish_idx s1) = i" "applications_available s1 = applications_available s"
    using published_fields [OF p(2)] s0 by simp_all
  show ?thesis
    using p(3) next_capability_ok [OF E(1) p(4), of b] next_capability_index [OF E(1) p(4), of b] next_capability_fields [of "with_client E c" b s1] q f
    unfolding s0_def [symmetric] by simp
qed

lemma capability_events_rotate:
  assumes "edge_env_ok E" "edge_ok E s" "\<forall>name\<in>set (app_names E). name_ok name" "0 \<le> fst (capability_encoding E False)"
  shows "\<exists>reqs s'. capability_events E ms s = Some (reqs, s') \<and> (ms \<noteq> [] \<longrightarrow> armed (publish_capability_timer s')) \<and>
    length reqs = length (filter (\<lambda>(c, m). can_send c m) ms) \<and>
    reqs = map (\<lambda>k. capability_request E (applications_available s) ((unat (application_capability_publish_idx s) + k) mod APPLICATION_NUM E)) [0..<length reqs]"
  using assms(2)
proof (induction ms arbitrary: s)
  case (Cons x ms)
  obtain c m where x: "x = (c, m)" by fastforce
  define i where "i = unat (application_capability_publish_idx s)"
  have i: "i < APPLICATION_NUM E" using Cons.prems by (simp add: i_def edge_ok_def schedule_ok_def)
  obtain s1 where p: "edge_process (with_client E c) Capability_Timer (s\<lparr>mqtt := m\<rparr>) = Some s1" "edge_ok E s1" "armed (publish_capability_timer s1)"
    "applications_available s1 = applications_available s"
    "sent_requests (mqtt s1) = sent_requests m @ (if can_send c m then [capability_request E (applications_available s) i] else [])"
    "unat (application_capability_publish_idx s1) = (i + (if can_send c m then 1 else 0)) mod APPLICATION_NUM E"
    using capability_event [OF assms(1) Cons.prems assms(3,4), of c m] by (auto simp: i_def)
  from Cons.IH [OF p(2)] obtain reqs s' where r: "capability_events E ms s1 = Some (reqs, s')" "ms \<noteq> [] \<longrightarrow> armed (publish_capability_timer s')"
    "length reqs = length (filter (\<lambda>(c, m). can_send c m) ms)"
    "reqs = map (\<lambda>k. capability_request E (applications_available s) (((i + (if can_send c m then 1 else 0)) mod APPLICATION_NUM E + k) mod APPLICATION_NUM E)) [0..<length reqs]"
    unfolding p(4,6) by blast
  have armed: "armed (publish_capability_timer s')" using r(1,2) p(3) by (cases ms) auto
  let ?reqs = "(if can_send c m then [capability_request E (applications_available s) i] else []) @ reqs"
  have e: "capability_events E (x # ms) s = Some (?reqs, s')" using p(1,5) r(1) by (simp add: x)
  have "?reqs = map (\<lambda>k. capability_request E (applications_available s) ((i + k) mod APPLICATION_NUM E)) [0..<length ?reqs]"
  proof (cases "can_send c m")
    case True
    then have "reqs = map (\<lambda>k. capability_request E (applications_available s) (Suc (i + k) mod APPLICATION_NUM E)) [0..<length reqs]"
      using r(4) by (simp add: mod_add_left_eq mod_Suc_eq)
    then show ?thesis using True i by (simp add: upt_conv_Cons map_Suc_upt [symmetric] comp_def del: upt_Suc)
  next
    case False
    then show ?thesis using r(4) i by simp
  qed
  then show ?case using e armed r(3) by (intro exI [of _ ?reqs] exI [of _ s']) (simp add: x i_def)
qed simp

subsection \<open>Properties\<close>

lemma init_edge_ok:
  assumes "edge_env_ok E" "\<not> armed (publish_capability_timer s)"
  shows "fst (capability_init E (edge_start E s))" "edge_ok E (snd (capability_init E (edge_start E s)))"
    "run_ok E True [] (snd (capability_init E (edge_start E s)))"
  using assms base_topic_length [OF assms(1)]
  by (simp_all add: capability_init_def edge_start_def set_all_applications_unavailable_def edge_ok_def topic_ok_def schedule_ok_def run_ok_def
      edge_env_ok_def PUBLISH_ANNOUNCE_SHORT_TO_LONG_def Let_def)

text \<open>
  C30: whatever arrives over the serial line, however the requests of its client fare and whenever the events of expired timers are delivered, an edge node goes on: after every run from
  its start-up the announce timer is set or its event waits, the next application is one of the applications, the topic keeps the identity of the node, and every
  event is handled without a failed assertion or an access out of bounds: what is encoded has the asserted length and fits its buffers.  As long as each stop found no event of the capability
  timer waiting, that timer is set only while the edge is started.  (With an event waiting this fails: see \<open>stop_with_event_waiting\<close>.)
\<close>

theorem edge_run_safe:
  assumes "edge_env_ok E" "\<not> armed (publish_capability_timer s0)" "edge_run E (snd (capability_init E (edge_start E s0))) clean q s"
  shows "(armed (publish_announce_timer s) \<or> Announce_Timer \<in> set q) \<and> (clean \<longrightarrow> armed (publish_capability_timer s) \<longrightarrow> resource_rich_edge_started s) \<and>
    unat (application_capability_publish_idx s) < APPLICATION_NUM E \<and> take BASE_PUBLISH_TOPIC_LEN (pub_topic s) = base_topic E \<and>
    (\<forall>c ev. \<exists>s'. edge_process (with_client E c) ev s = Some s')"
proof -
  have ok: "run_ok E clean q s" using edge_run_ok [OF assms(3,1) init_edge_ok(3) [OF assms(1,2)]] .
  then have "edge_ok (with_client E c) s" "edge_env_ok (with_client E c)" for c using assms(1) by (simp_all add: run_ok_def)
  from edge_event_ok [OF this(2,1)] have "\<exists>s'. edge_process (with_client E c) ev s = Some s'" for c ev by blast
  then show ?thesis using ok by (simp add: run_ok_def edge_ok_def topic_ok_def schedule_ok_def)
qed

text \<open>
  C29: what an edge node publishes is what the subscribers hear.  When publishing reports success and the encoder reported no error, one request went to the broker, and
  every other node that receives its topic and payload, whatever follows them in the buffer, runs the handler of the announcement or of the capability that was meant, with the
  identity of the edge node that published it.
\<close>

theorem edge_publications_understood:
  assumes "length (linkaddr_node_addr E) = EUI64_LENGTH" "topic_ok E s"
  shows "(publish_announce E s = Some (True, s') \<longrightarrow>
      understood E s s' (\<lambda>N p. mqtt_publish_announce_handler N p (linkaddr_node_addr E))) \<and>
    (publish_unannounce E s = Some (True, s') \<and> (\<forall>a. 0 \<le> fst (unannounce_encoding E a)) \<longrightarrow>
      understood E s s' (\<lambda>N p. mqtt_publish_unannounce_handler N p (linkaddr_node_addr E))) \<and>
    (publish_add_capability E name incl s = Some (True, s') \<and> 0 \<le> fst (capability_encoding E incl) \<and> name_ok name \<longrightarrow>
      understood E s s' (\<lambda>N p. mqtt_publish_capability_add_handler N (linkaddr_node_addr E) name p)) \<and>
    (publish_remove_capability E name incl s = Some (True, s') \<and> 0 \<le> fst (capability_encoding E incl) \<and> name_ok name \<longrightarrow>
      understood E s s' (\<lambda>N p. mqtt_publish_capability_remove_handler N (linkaddr_node_addr E) name p))"
  unfolding publish_add_capability_def publish_remove_capability_def
  using announce_understood [OF assms] unannounce_understood [OF assms]
    capability_understood [OF assms _ _ _ disjI1 [OF conjI [OF refl refl]]] capability_understood [OF assms _ _ _ disjI2 [OF conjI [OF refl refl]]]
  by blast

text \<open>
  C31: the applications take turns.  Over any number of consecutive events of the capability timer, with no message from the serial line in between, exactly one request is sent for each event
  at which the client can send (it is idle, the broker is connected and the request is accepted), and none at the others.  The requests are those of consecutive
  applications, from the next one on and around, each with the topic of that application and the action that fits whether it runs: a failed one is tried again, none is skipped and none
  comes twice in a round; and the timer for the next attempt is set.  The names have to fit a topic, and the encoder has to accept the short message.
\<close>

theorem capability_rotation:
  assumes "edge_env_ok E" "edge_ok E s" "\<forall>name\<in>set (app_names E). name_ok name" "0 \<le> fst (capability_encoding E False)"
  shows "\<exists>reqs s'. capability_events E ms s = Some (reqs, s') \<and> (ms \<noteq> [] \<longrightarrow> armed (publish_capability_timer s')) \<and>
    length reqs = length (filter (\<lambda>(c, m). can_send c m) ms) \<and>
    reqs = map (\<lambda>k. capability_request E (applications_available s) ((unat (application_capability_publish_idx s) + k) mod APPLICATION_NUM E)) [0..<length reqs]"
  by (rule capability_events_rotate [OF assms])

text \<open>
  An edge that is started when the announce timer, set to its long interval, has little time left is announced once and then not again before the long interval has passed:
  the interval is not reset, and \<open>announce_short_count\<close> is ignored.
\<close>

theorem late_start_stays_slow:
  assumes "edge_env_ok E" "\<not> resource_rich_edge_started s" "match_action data ''start''"
    "interval (publish_announce_timer s) = PUBLISH_ANNOUNCE_PERIOD_LONG E" "remaining \<le> PUBLISH_ANNOUNCE_PERIOD_SHORT E"
  shows "\<exists>s1. edge_process E (Serial_Line remaining (CHR ''!'' # data)) s = Some s1 \<and> resource_rich_edge_started s1 \<and>
    interval (publish_announce_timer (next_announce E ret s1)) = PUBLISH_ANNOUNCE_PERIOD_LONG E"
  using assms periods [OF assms(1)]
  by (auto simp: edge_process_def process_serial_message_def process_edge_serial_message_def trigger_faster_publish_def next_announce_def match_action_def Let_def)

text \<open>An encoder that keeps the items and counts the bytes they take.\<close>

definition example_encoder :: "(token list, token list \<times> nat option) nanocbor" where
  "example_encoder = ref_nanocbor\<lparr>encoded_len := \<lambda>en. sum_list (map token_size en), enc_buffer := \<lambda>en. replicate (sum_list (map token_size en)) 0\<rparr>"

lemma example_encoder_sizes: "encoder_sizes example_encoder"
  by (simp add: encoder_sizes_def sized_def example_encoder_def ref_nanocbor_def)

definition example_edge_env :: "(token list, token list \<times> nat option) edge_env" where
  "example_edge_env = \<lparr>ee_nc = example_encoder, ee_mqtt = example_mqtt_env, ee_cert = example_cert, app_names = [''envmon'', ''routing''],
     CLOCK_SECOND = 128, linkaddr_node_addr = [0, 18, 75, 0, 20, 213, 44, 171], uip_ds6_if = [\<lparr>isused = True, ds6_state = 1, ds6_ipaddr = replicate 16 1\<rparr>],
     ADDR_TENTATIVE = 0, ADDR_PREFERRED = 1, app_processes = {''envmon''}\<rparr>"

definition blank_edge :: edge_node where
  "blank_edge = \<lparr>pub_topic = [], publish_announce_timer = \<lparr>interval = 0, armed = False\<rparr>, publish_capability_timer = \<lparr>interval = 0, armed = False\<rparr>,
     announce_short_count = 0, application_capability_publish_idx = 0, applications_available = [], resource_rich_edge_started = False,
     mqtt = mqtt_init example_mqtt_env 128 0 example_mqtt, app_data = [], serial_out = []\<rparr>"

abbreviation example_edge0 :: edge_node where
  "example_edge0 \<equiv> snd (capability_init example_edge_env (edge_start example_edge_env blank_edge))"

lemma example_edge_env_ok: "edge_env_ok example_edge_env"
  using example_encoder_sizes example_cert_ok by (simp add: edge_env_ok_def example_edge_env_def COAP_MAX_CHUNK_SIZE_def EUI64_LENGTH_def example_mqtt_env_def)

lemma blank_unarmed: "\<not> armed (publish_capability_timer blank_edge)"
  by (simp add: blank_edge_def)

lemmas example_edge_ok = init_edge_ok(2) [OF example_edge_env_ok blank_unarmed]

text \<open>The edge after it was started over the serial line.\<close>

definition started_edge :: edge_node where
  "started_edge = process_edge_serial_message example_edge_env 3840 ''start'' example_edge0"

lemma started_edge_step: "edge_process example_edge_env (Serial_Line 3840 ''!start'') example_edge0 = Some started_edge"
  by (simp add: edge_process_def process_serial_message_def started_edge_def match_action_def)

lemma started_edge_ok: "edge_ok example_edge_env started_edge"
  unfolding started_edge_def by (rule edge_message_ok [OF example_edge_env_ok example_edge_ok])

lemma started_edge_fields: "resource_rich_edge_started started_edge" "mqtt started_edge = mqtt blank_edge"
  "publish_announce_timer started_edge = \<lparr>interval = PUBLISH_ANNOUNCE_PERIOD_SHORT example_edge_env, armed = True\<rparr>"
  using base_topic_length [OF example_edge_env_ok]
  by (simp_all add: started_edge_def process_edge_serial_message_def match_action_def capability_init_def edge_start_def set_all_applications_unavailable_def
      trigger_faster_publish_def blank_edge_def example_edge_env_def Let_def PUBLISH_ANNOUNCE_PERIOD_SHORT_def)

lemma same_client: "with_client example_edge_env (ee_mqtt example_edge_env) = example_edge_env"
  by (simp add: with_client_def)

text \<open>The announce timer expires, the edge is started, and then the event of the timer is delivered.\<close>

theorem edge_run_safe_witness:
  "\<exists>s. edge_run example_edge_env example_edge0 True [Announce_Timer] s \<and> resource_rich_edge_started s \<and>
    (\<exists>s'. edge_process example_edge_env Announce_Timer s = Some s')"
proof -
  let ?s0 = "example_edge0\<lparr>publish_announce_timer := (publish_announce_timer example_edge0)\<lparr>armed := False\<rparr>\<rparr>"
  have a: "armed (publish_announce_timer example_edge0)"
    using init_edge_ok(3) [OF example_edge_env_ok blank_unarmed] by (simp add: run_ok_def)
  have e: "edge_run example_edge_env example_edge0 True ([] @ [Announce_Timer]) ?s0" by (rule edge_run.announce_expires [OF edge_run.start a])
  define s where "s = process_edge_serial_message example_edge_env 3840 ''start'' ?s0"
  have p: "edge_process (with_client example_edge_env (ee_mqtt example_edge_env)) (Serial_Line 3840 ''!start'') ?s0 = Some s"
    unfolding same_client by (simp add: edge_process_def process_serial_message_def s_def match_action_def)
  have "edge_run example_edge_env example_edge0 (True \<and> (stops (Serial_Line 3840 ''!start'') \<longrightarrow> Capability_Timer \<notin> set ([] @ [Announce_Timer]))) ([] @ [Announce_Timer]) s"
    by (rule edge_run.serial [OF e refl p])
  then have run: "edge_run example_edge_env example_edge0 True [Announce_Timer] s" by simp
  have "resource_rich_edge_started s"
    by (simp add: s_def process_edge_serial_message_def match_action_def capability_init_def edge_start_def set_all_applications_unavailable_def trigger_faster_publish_def Let_def)
  moreover have "\<exists>s'. edge_process (with_client example_edge_env (ee_mqtt example_edge_env)) Announce_Timer s = Some s'"
    using edge_run_safe [OF example_edge_env_ok blank_unarmed run] by blast
  ultimately show ?thesis using run unfolding same_client by blast
qed

lemma blank_can_send: "can_send (ee_mqtt example_edge_env) (mqtt blank_edge)"
  by code_simp

theorem edge_publications_understood_witness:
  "\<exists>s. edge_process example_edge_env Announce_Timer started_edge \<noteq> None \<and> publish_announce example_edge_env started_edge = Some (True, s) \<and>
     understood example_edge_env started_edge s (\<lambda>N p. mqtt_publish_announce_handler N p (linkaddr_node_addr example_edge_env))"
proof -
  have t: "topic_ok example_edge_env started_edge" using started_edge_ok by (simp add: edge_ok_def)
  obtain b s1 where a: "set_action MQTT_EDGE_ACTION_ANNOUNCE started_edge = (b, s1)" by fastforce
  then have b: "b" by (simp add: set_action_def MQTT_EDGE_ACTION_ANNOUNCE_def MAX_PUBLISH_TOPIC_LEN_def Let_def)
  have len: "length MQTT_EDGE_ACTION_ANNOUNCE < 64" by (simp add: MQTT_EDGE_ACTION_ANNOUNCE_def)
  have "encoded_len (ee_nc example_edge_env) (snd (announce_encoding example_edge_env)) \<le> max_coap_payload (ee_mqtt example_edge_env)"
    using announce_length [OF example_edge_env_ok] payload_room(1) [OF example_edge_env_ok] by (rule le_trans)
  from encoded_published [OF example_edge_env_ok t _ len action_no_nul(1) this, of s1] a b
  obtain s where s: "publish_encoded example_edge_env (snd (announce_encoding example_edge_env)) s1 = Some (True, s)"
    using blank_can_send started_edge_fields(2) by auto
  have "\<not> CERTIFICATE_CBOR_LENGTH < encoded_len (ee_nc example_edge_env) (snd (announce_encoding example_edge_env))"
    using announce_length [OF example_edge_env_ok] by simp
  then have "publish_announce example_edge_env started_edge = Some (True, s)"
    using a b s announce_encoding_zero [of example_edge_env] by (simp add: publish_announce_def split_def Let_def)
  moreover have "edge_process example_edge_env Announce_Timer started_edge \<noteq> None"
    using announce_timer_ok [OF example_edge_env_ok started_edge_ok] by auto
  moreover have "length (linkaddr_node_addr example_edge_env) = EUI64_LENGTH" using example_edge_env_ok by (simp add: edge_env_ok_def)
  ultimately show ?thesis using edge_publications_understood [OF _ t] by blast
qed

text \<open>The started edge with its capability timer set, as it is after the announcement.\<close>

definition announced_edge :: edge_node where
  "announced_edge = started_edge\<lparr>publish_capability_timer := \<lparr>interval = PUBLISH_CAPABILITY_PERIOD_SHORT example_edge_env, armed = True\<rparr>\<rparr>"

text \<open>The client is busy at the second of three events: the two applications are published, each once.\<close>

theorem capability_rotation_witness:
  "\<exists>s'. capability_events example_edge_env [(example_mqtt_env, mqtt blank_edge), (example_mqtt_env, publishing_mqtt), (example_mqtt_env, mqtt blank_edge)] announced_edge =
      Some ([capability_request example_edge_env [False, False] 0, capability_request example_edge_env [False, False] 1], s') \<and> armed (publish_capability_timer s')"
proof -
  let ?ms = "[(example_mqtt_env, mqtt blank_edge), (example_mqtt_env, publishing_mqtt), (example_mqtt_env, mqtt blank_edge)]"
  have ok: "edge_ok example_edge_env announced_edge"
    using started_edge_ok by (simp add: announced_edge_def edge_ok_def topic_ok_def schedule_ok_def)
  have names: "\<forall>name\<in>set (app_names example_edge_env). name_ok name" "0 \<le> fst (capability_encoding example_edge_env False)"
    by code_simp+
  have f: "applications_available announced_edge = [False, False]" "application_capability_publish_idx announced_edge = 0" "APPLICATION_NUM example_edge_env = 2"
    using base_topic_length [OF example_edge_env_ok]
    by (simp_all add: announced_edge_def started_edge_def process_edge_serial_message_def match_action_def capability_init_def edge_start_def
        set_all_applications_unavailable_def trigger_faster_publish_def blank_edge_def example_edge_env_def Let_def numeral_eq_Suc)
  have send: "can_send example_mqtt_env (mqtt blank_edge)" "\<not> can_send example_mqtt_env publishing_mqtt"
    by code_simp+
  have two: "length (filter (\<lambda>(c, m). can_send c m) ?ms) = 2" using send by simp
  from capability_rotation [OF example_edge_env_ok ok names, of ?ms]
  obtain reqs s' where r0: "capability_events example_edge_env ?ms announced_edge = Some (reqs, s')" "?ms \<noteq> [] \<longrightarrow> armed (publish_capability_timer s')"
    "length reqs = length (filter (\<lambda>(c, m). can_send c m) ?ms)"
    "reqs = map (\<lambda>k. capability_request example_edge_env (applications_available announced_edge)
       ((unat (application_capability_publish_idx announced_edge) + k) mod APPLICATION_NUM example_edge_env)) [0..<length reqs]" by blast
  have r: "capability_events example_edge_env ?ms announced_edge = Some (reqs, s')" "armed (publish_capability_timer s')" "length reqs = 2"
    "reqs = map (\<lambda>k. capability_request example_edge_env [False, False] ((unat (0 :: u8) + k) mod 2)) [0..<length reqs]"
    using r0(1,2) r0(3) [unfolded two] r0(4) [unfolded f] by blast+
  have "[0..<2] = [0, 1 :: nat]" by code_simp
  then have "reqs = [capability_request example_edge_env [False, False] 0, capability_request example_edge_env [False, False] 1]" using r(4) unfolding r(3) by simp
  then show ?thesis using r(1,2) by blast
qed

theorem late_start_stays_slow_witness:
  "\<exists>s. edge_process example_edge_env (Serial_Line 100 ''!start'') (example_edge0\<lparr>publish_announce_timer := \<lparr>interval = PUBLISH_ANNOUNCE_PERIOD_LONG example_edge_env, armed = True\<rparr>\<rparr>) = Some s \<and>
     interval (publish_announce_timer (next_announce example_edge_env True s)) = 115200"
proof -
  let ?s = "example_edge0\<lparr>publish_announce_timer := \<lparr>interval = PUBLISH_ANNOUNCE_PERIOD_LONG example_edge_env, armed = True\<rparr>\<rparr>"
  have "\<not> resource_rich_edge_started ?s" by (simp add: capability_init_def edge_start_def set_all_applications_unavailable_def Let_def)
  moreover have "(100 :: nat) \<le> PUBLISH_ANNOUNCE_PERIOD_SHORT example_edge_env" "PUBLISH_ANNOUNCE_PERIOD_LONG example_edge_env = 115200"
    by (simp_all add: PUBLISH_ANNOUNCE_PERIOD_SHORT_def PUBLISH_ANNOUNCE_PERIOD_LONG_def example_edge_env_def)
  ultimately show ?thesis
    using late_start_stays_slow [OF example_edge_env_ok, of ?s "''start''" 100 True] by (auto simp: match_action_def)
qed

end
