(* ===== verification/Challenge_Response.thy ===== *)
theory Challenge_Response
  imports Trust_Exchange
begin

text \<open>
  \<open>src/wsn/applications/challenge-response\<close>: the application with which a node tests an edge.  Each edge that offers the capability has a challenger; the application challenges them in
  turn, expects an answer in time and tells the trust model what came of it.  The trust model and SHA-256 are arguments: \<open>tm_update\<close>, and a record of the platform's hash functions
  with the law \<open>sha_ok\<close>.  A timer is the interval it is set to, or \<open>None\<close>.  The successor of an item is read off the list; a block that is not on the list has none, as the only block
  \<open>next_challenge\<close> ever keeps after its removal was alone on the list.  Results of radio requests, random bytes and the time are inputs.  The result \<open>None\<close> is a failed assertion or a
  NULL pointer.  Log output is left out.
\<close>

definition CHALLENGE_DIFFICULTY :: u8 where "CHALLENGE_DIFFICULTY = 2"

definition CHALLENGE_DURATION :: u32 where "CHALLENGE_DURATION = 40"

definition CHALLENGE_PERIOD :: "u32 \<Rightarrow> u32" where "CHALLENGE_PERIOD CLOCK_SECOND = 2 * 60 * CLOCK_SECOND"

definition SHA256_DIGEST_LEN_BYTES :: nat where "SHA256_DIGEST_LEN_BYTES = 32"

text \<open>\<open>sizeof\<close> of the pointer \<open>data_prefix\<close> on both platforms.\<close>

definition SIZEOF_DATA_PREFIX :: nat where "SIZEOF_DATA_PREFIX = 4"

record challenge =
  ch_data :: "u8 list"
  difficulty :: u8
  max_duration_secs :: u32

record challenge_response =
  data_prefix :: "u8 list"
  data_length :: u8
  duration_secs :: u32

record edge_challenger =
  c_edge :: addr
  ch :: challenge
  generated :: u32
  received :: u32

record 'x sha256 =
  sha256_init :: "int \<times> 'x"
  sha256_update :: "'x \<Rightarrow> u8 list \<Rightarrow> int \<times> 'x"
  sha256_finalise :: "'x \<Rightarrow> int \<times> u8 list"
  platform_crypto_success :: "int \<Rightarrow> bool"

record ('e, 'c, 'k, 'en, 'de, 'x) cr_env =
  cr_ct :: contiki
  cr_nc :: "('en, 'de) nanocbor"
  cr_kc :: "'k ks_config"
  cr_sha :: "'x sha256"
  tm_update :: "addr \<Rightarrow> tm_challenge_response_info \<Rightarrow> ('e, 'c) edge_info \<Rightarrow> ('e, 'c) edge_info"
  clock_second :: u32

record ('e, 'c, 'k) cr_node =
  cr_app :: app_state
  challengers_memb :: "addr set"
  challengers :: "addr list"
  chal_mem :: "addr \<Rightarrow> edge_challenger"
  next_challenge :: "addr option"
  challenge_timer :: "u32 option"
  challenge_response_timer :: "u32 option"
  cr_lock :: timed_unlock
  cr_ep :: coap_endpoint
  cr_edges :: "('e, 'c) edge_info"
  cr_keystore :: "'k keystore"
  cr_sent :: "(coap_endpoint \<times> u8 list) list"
  cr_connects :: "coap_endpoint list"

subsection \<open>Messages\<close>

definition nanocbor_fmt_challenge :: "('en, 'de) nanocbor \<Rightarrow> nat \<Rightarrow> challenge \<Rightarrow> int \<times> u8 list" where
  "nanocbor_fmt_challenge NC buf_len c =
     (let (r, enc) = checks
            [\<lambda>en. fmt_array NC en 3, \<lambda>en. fmt_uint NC en (unat (difficulty c)), \<lambda>en. put_bstr NC en (ch_data c),
             \<lambda>en. fmt_uint NC en (unat (max_duration_secs c))] (encoder_init NC buf_len)
      in (if r < 0 then r else int (encoded_len NC enc), enc_buffer NC enc))"

text \<open>The response is read only when the result is \<open>NANOCBOR_OK\<close>, which is 0; \<open>cr0\<close> is what the local variable holds before.\<close>

definition nanocbor_get_challenge_response ::
  "('en, 'de) nanocbor \<Rightarrow> u8 list \<Rightarrow> challenge_response \<Rightarrow> int \<times> challenge_response" where
  "nanocbor_get_challenge_response NC buf cr =
     (let dec = decoder_init NC buf; (r, arr) = enter_array NC dec in
      if r < 0 then (r, cr)
      else let (r, data, arr) = get_bstr NC arr in
      if r < 0 then (r, cr)
      else if SIZEOF_DATA_PREFIX < length data then (err_overflow NC, cr)
      else let cr = cr\<lparr>data_length := word_of_nat (length data), data_prefix := data\<rparr>; (r, secs, arr) = get_uint32 NC arr in
      if r < 0 then (r, cr)
      else let cr = cr\<lparr>duration_secs := secs\<rparr> in
      if \<not> at_end NC arr then (- 1, cr)
      else if \<not> at_end NC (leave_container NC dec arr) then (- 1, cr)
      else (0, cr))"

subsection \<open>Challengers\<close>

definition upd_chal :: "addr \<Rightarrow> (edge_challenger \<Rightarrow> edge_challenger) \<Rightarrow> ('e, 'c, 'k) cr_node \<Rightarrow> ('e, 'c, 'k) cr_node" where
  "upd_chal c f s = s\<lparr>chal_mem := (chal_mem s)(c := f (chal_mem s c))\<rparr>"

definition find_edge_challenger :: "('e, 'c, 'k) cr_node \<Rightarrow> addr \<Rightarrow> addr option" where
  "find_edge_challenger s edge = List.find (\<lambda>c. c_edge (chal_mem s c) = edge) (challengers s)"

definition item_next :: "addr list \<Rightarrow> addr \<Rightarrow> addr option" where
  "item_next xs c = (case dropWhile (\<lambda>x. x \<noteq> c) xs of _ # n # _ \<Rightarrow> Some n | _ \<Rightarrow> None)"

definition list_head :: "addr list \<Rightarrow> addr option" where
  "list_head xs = (case xs of [] \<Rightarrow> None | x # _ \<Rightarrow> Some x)"

definition move_to_next_challenge :: "('e, 'c, 'k) cr_node \<Rightarrow> ('e, 'c, 'k) cr_node" where
  "move_to_next_challenge s =
     (let n = (case next_challenge s of None \<Rightarrow> None | Some c \<Rightarrow> item_next (challengers s) c);
          n = (case n of None \<Rightarrow> list_head (challengers s) | Some c \<Rightarrow> Some c)
      in s\<lparr>next_challenge := n, challenge_response_timer := None\<rparr>)"

text \<open>The random bytes come with the result of \<open>crypto_fill_random\<close>, which is asserted.\<close>

definition generate_challenge :: "bool \<times> u8 list \<Rightarrow> u8 \<Rightarrow> u32 \<Rightarrow> challenge \<Rightarrow> challenge option" where
  "generate_challenge random diff max_duration c =
     (if fst random then Some (c\<lparr>ch_data := snd random, difficulty := diff, max_duration_secs := max_duration\<rparr>) else None)"

definition CR_MSG_BUF_LEN :: nat where "CR_MSG_BUF_LEN = 1 + (1 + 4) + (1 + 32)"

text \<open>The callback of the request, with the status and for a response its code.\<close>

definition cr_send_callback ::
  "('e, 'c, 'k, 'en, 'de, 'x) cr_env \<Rightarrow> nat \<Rightarrow> nat \<Rightarrow> ('e, 'c, 'k) cr_node \<Rightarrow> ('e, 'c, 'k) cr_node option" where
  "cr_send_callback E status code s =
     (case (if status = req_response (cr_ct E)
            then if code = coap_content (cr_ct E)
              then map_option (\<lambda>c. s\<lparr>challenge_response_timer := Some (max_duration_secs (ch (chal_mem s c)) * clock_second E)\<rparr>) (next_challenge s)
              else Some s
            else Some (s\<lparr>cr_lock := timed_unlock_unlock (cr_lock s)\<rparr>)) of
        None \<Rightarrow> None
      | Some s \<Rightarrow>
          let info = TM_CHALLENGE_RESPONSE_ACK (if status = req_response (cr_ct E) then code else 0) status
          in case edge_info_find_addr (cr_edges s) (ipaddr (cr_ep s)) of
               None \<Rightarrow> Some s
             | Some edge \<Rightarrow> Some (s\<lparr>cr_edges := tm_update E edge info (cr_edges s)\<rparr>))"

definition challenge_response_timed_out ::
  "('e, 'c, 'k, 'en, 'de, 'x) cr_env \<Rightarrow> ('e, 'c, 'k) cr_node \<Rightarrow> ('e, 'c, 'k) cr_node" where
  "challenge_response_timed_out E s =
     (case next_challenge s of
        None \<Rightarrow> s
      | Some c \<Rightarrow>
          let m = chal_mem s c;
              duration = max_duration_secs (ch m) * clock_second E;
              never_received = received m \<le> generated m;
              received_late = generated m + duration < received m
          in if generated m \<noteq> 0 \<and> (never_received \<or> received_late)
             then upd_chal c (\<lambda>m. m\<lparr>generated := 0, received := 0\<rparr>)
                    (s\<lparr>cr_edges := tm_update E (c_edge m) (TM_CHALLENGE_RESPONSE_TIMEOUT never_received received_late) (cr_edges s)\<rparr>)
             else s)"

text \<open>
  \<open>periodic_action\<close>.  Its inputs: the time, for the lock and as \<open>clock_time\<close>, the random bytes, whether there is a connection to the edge, and the result of
  \<open>coap_send_request\<close>.
\<close>

definition cr_periodic_action ::
  "('e, 'c, 'k, 'en, 'de, 'x) cr_env \<Rightarrow> nat \<Rightarrow> bool \<times> u8 list \<Rightarrow> bool \<Rightarrow> int \<Rightarrow> ('e, 'c, 'k) cr_node \<Rightarrow> ('e, 'c, 'k) cr_node option" where
  "cr_periodic_action E now random linked sent s =
     (if timed_unlock_is_locked (cr_lock s) then Some s
      else let s = move_to_next_challenge s in
      case next_challenge s of
        None \<Rightarrow> Some s
      | Some c \<Rightarrow>
          (case generate_challenge random CHALLENGE_DIFFICULTY CHALLENGE_DURATION (ch (chal_mem s c)) of
             None \<Rightarrow> None
           | Some chal \<Rightarrow>
               let s = upd_chal c (\<lambda>m. m\<lparr>ch := chal\<rparr>) s;
                   (len, msg_buf) = nanocbor_fmt_challenge (cr_nc E) CR_MSG_BUF_LEN chal
               in if len \<le> 0 \<or> int CR_MSG_BUF_LEN < len then Some s
                  else let p = ep (edge_mem (cr_edges s) (c_edge (chal_mem s c)));
                           s = s\<lparr>cr_ep := p\<rparr>;
                           s = (if linked then s else s\<lparr>cr_connects := cr_connects s @ [p]\<rparr>);
                           s = upd_chal c (\<lambda>m. m\<lparr>generated := word_of_nat now\<rparr>) s
                    in Some (if sent \<noteq> 0
                             then s\<lparr>cr_sent := cr_sent s @ [(p, take (nat len) msg_buf)], cr_lock := timed_unlock_lock now (cr_lock s)\<rparr>
                             else s)))"

subsection \<open>Answers\<close>

definition sha256_hash_challenge_response :: "'x sha256 \<Rightarrow> challenge \<Rightarrow> challenge_response \<Rightarrow> int \<times> u8 list" where
  "sha256_hash_challenge_response S c cr =
     (let (ret, ctx) = sha256_init S in
      if \<not> platform_crypto_success S ret then (ret, [])
      else let (ret, ctx) = sha256_update S ctx (take (unat (data_length cr)) (data_prefix cr)) in
      if \<not> platform_crypto_success S ret then (ret, [])
      else let (ret, ctx) = sha256_update S ctx (ch_data c) in
      if \<not> platform_crypto_success S ret then (ret, [])
      else sha256_finalise S ctx)"

definition check_first_n_zeros :: "u8 list \<Rightarrow> nat \<Rightarrow> bool" where
  "check_first_n_zeros data n \<longleftrightarrow> n \<le> length data \<and> list_all (\<lambda>b. b = 0) (take n data)"

definition res_coap_cr_post_handler ::
  "('e, 'c, 'k, 'en, 'de, 'x) cr_env \<Rightarrow> u32 \<Rightarrow> ipaddr \<Rightarrow> u8 list \<Rightarrow> challenge_response \<Rightarrow> ('e, 'c, 'k) cr_node \<Rightarrow> ('e, 'c, 'k) cr_node" where
  "res_coap_cr_post_handler E now src payload cr0 s =
     (case edge_info_find_addr (cr_edges s) src of
        None \<Rightarrow> s
      | Some edge \<Rightarrow>
          let tell = (\<lambda>successful late s. s\<lparr>cr_edges := tm_update E edge (TM_CHALLENGE_RESPONSE_RESP successful late) (cr_edges s)\<rparr>) in
          case find_edge_challenger s edge of
            None \<Rightarrow> tell False False s
          | Some c \<Rightarrow>
              let s = upd_chal c (\<lambda>m. m\<lparr>received := now\<rparr>) (s\<lparr>challenge_response_timer := None\<rparr>);
                  (ret, cr) = nanocbor_get_challenge_response (cr_nc E) payload cr0
              in if ret \<noteq> 0 then tell False False s
                 else let m = chal_mem s c; (crret, digest) = sha256_hash_challenge_response (cr_sha E) (ch m) cr
                   in if \<not> platform_crypto_success (cr_sha E) crret then tell False False s
                      else tell (check_first_n_zeros digest (unat (difficulty (ch m))))
                             (max_duration_secs (ch m) * clock_second E < received m - generated m) s)"

subsection \<open>Edges that come and go\<close>

text \<open>The second halves of the two handlers, on the challengers.\<close>

definition add_challenger :: "('e, 'c, 'k, 'en, 'de, 'x) cr_env \<Rightarrow> addr \<Rightarrow> ('e, 'c, 'k) cr_node \<Rightarrow> ('e, 'c, 'k) cr_node" where
  "add_challenger E edge s =
     (case find_edge_challenger s edge of
        Some _ \<Rightarrow> s
      | None \<Rightarrow>
          (case memb_alloc (cr_ct E) NUM_EDGE_RESOURCES (challengers_memb s) of
             (None, used) \<Rightarrow> s\<lparr>challengers_memb := used\<rparr>
           | (Some c, used) \<Rightarrow>
               let s = upd_chal c (\<lambda>m. m\<lparr>c_edge := edge, generated := 0, received := 0\<rparr>) (s\<lparr>challengers_memb := used\<rparr>);
                   s = s\<lparr>challengers := list_push (cr_ct E) (challengers s) c\<rparr>
               in if next_challenge s = None then move_to_next_challenge s else s))"

definition remove_challenger :: "('e, 'c, 'k, 'en, 'de, 'x) cr_env \<Rightarrow> addr \<Rightarrow> ('e, 'c, 'k) cr_node \<Rightarrow> ('e, 'c, 'k) cr_node" where
  "remove_challenger E edge s =
     (case find_edge_challenger s edge of
        None \<Rightarrow> s
      | Some c \<Rightarrow>
          let s = (if next_challenge s = Some c then move_to_next_challenge s else s);
              s = s\<lparr>challengers := snd (list_remove (cr_ct E) (challengers s) c)\<rparr>
          in s\<lparr>challengers_memb := snd (memb_free (cr_ct E) NUM_EDGE_RESOURCES (challengers_memb s) c)\<rparr>)"

definition cr_edge_capability_add ::
  "('e, 'c, 'k, 'en, 'de, 'x) cr_env \<Rightarrow> nat \<Rightarrow> bool \<Rightarrow> addr \<Rightarrow> ('e, 'c, 'k) cr_node \<Rightarrow> ('e, 'c, 'k) cr_node" where
  "cr_edge_capability_add E now sent edge s =
     (let (started, st, ks) = app_state_edge_capability_add (cr_kc E) now sent (cr_edges s) edge (cr_app s, cr_keystore s);
          s = s\<lparr>cr_app := st, cr_keystore := ks\<rparr>;
          s = (if started then s\<lparr>challenge_timer := Some (CHALLENGE_PERIOD (clock_second E))\<rparr> else s)
      in add_challenger E edge s)"

definition cr_edge_capability_remove ::
  "('e, 'c, 'k, 'en, 'de, 'x) cr_env \<Rightarrow> addr \<Rightarrow> ('e, 'c, 'k) cr_node \<Rightarrow> ('e, 'c, 'k) cr_node" where
  "cr_edge_capability_remove E edge s =
     (let (stopped, st) = app_state_edge_capability_remove (cr_edges s) edge (cr_app s);
          s = s\<lparr>cr_app := st\<rparr>;
          s = (if stopped then s\<lparr>challenge_timer := None\<rparr> else s)
      in remove_challenger E edge s)"

definition cr_init :: "('e, 'c, 'k, 'en, 'de, 'x) cr_env \<Rightarrow> nat \<Rightarrow> ('e, 'c, 'k) cr_node \<Rightarrow> ('e, 'c, 'k) cr_node" where
  "cr_init E current s =
     s\<lparr>cr_app := app_state_init CHALLENGE_RESPONSE_APPLICATION_NAME ''cr'' (cr_app s),
       cr_lock := timed_unlock_init (cr_lock s) ''challenge-response'' (1 * 60 * unat (clock_second E)) current,
       challengers_memb := {}, challengers := [], next_challenge := None\<rparr>"

text \<open>The events of the process and of its callbacks.  A timer that has expired is not set; \<open>etimer_reset\<close> sets the periodic one again.\<close>

datatype cr_event =
    Challenge_Timer nat "bool \<times> u8 list" bool int
  | Response_Timer
  | Capability_Add nat bool addr
  | Capability_Remove addr
  | Send_Callback nat nat
  | Answer u32 ipaddr "u8 list" challenge_response

definition challenge_response_process ::
  "('e, 'c, 'k, 'en, 'de, 'x) cr_env \<Rightarrow> cr_event \<Rightarrow> ('e, 'c, 'k) cr_node \<Rightarrow> ('e, 'c, 'k) cr_node option" where
  "challenge_response_process E ev s =
     (case ev of
        Challenge_Timer now random linked sent \<Rightarrow>
          map_option (\<lambda>s. s\<lparr>challenge_timer := Some (CHALLENGE_PERIOD (clock_second E))\<rparr>)
            (cr_periodic_action E now random linked sent (s\<lparr>challenge_timer := None\<rparr>))
      | Response_Timer \<Rightarrow> Some (challenge_response_timed_out E (s\<lparr>challenge_response_timer := None\<rparr>))
      | Capability_Add now sent edge \<Rightarrow> Some (cr_edge_capability_add E now sent edge s)
      | Capability_Remove edge \<Rightarrow> Some (cr_edge_capability_remove E edge s)
      | Send_Callback status code \<Rightarrow> cr_send_callback E status code s
      | Answer now src payload cr0 \<Rightarrow> Some (res_coap_cr_post_handler E now src payload cr0 s))"


subsection \<open>The challengers\<close>

lemma item_next_nth:
  "\<lbrakk>distinct xs; i < length xs\<rbrakk> \<Longrightarrow> item_next xs (xs ! i) = (if Suc i < length xs then Some (xs ! Suc i) else None)"
proof (induction xs arbitrary: i)
  case (Cons x xs)
  show ?case
  proof (cases i)
    case 0
    then show ?thesis by (cases xs) (simp_all add: item_next_def)
  next
    case (Suc j)
    then have "x \<noteq> xs ! j" using Cons.prems by auto
    then have "item_next (x # xs) ((x # xs) ! i) = item_next xs (xs ! j)" using Suc by (simp add: item_next_def)
    then show ?thesis using Cons Suc by simp
  qed
qed simp

lemma item_next_notin: "c \<notin> set xs \<Longrightarrow> item_next xs c = None"
proof -
  assume "c \<notin> set xs"
  then have "dropWhile (\<lambda>x. x \<noteq> c) xs = []" by (auto simp: dropWhile_eq_Nil_conv)
  then show ?thesis by (simp only: item_next_def list.case)
qed

lemma item_next_in: "item_next xs c = Some d \<Longrightarrow> d \<in> set xs"
proof -
  assume "item_next xs c = Some d"
  then obtain x ys where "dropWhile (\<lambda>x. x \<noteq> c) xs = x # d # ys" by (auto simp: item_next_def split: list.splits)
  then have "d \<in> set (dropWhile (\<lambda>x. x \<noteq> c) xs)" by simp
  then show ?thesis by (rule set_dropWhileD)
qed

text \<open>
  The blocks in use are those on the list, there is one for each edge, and there is a next one unless the list is empty.
\<close>

definition cr_ok :: "('e, 'c, 'k) cr_node \<Rightarrow> bool" where
  "cr_ok s \<longleftrightarrow> distinct (challengers s) \<and> challengers_memb s = set (challengers s) \<and> set (challengers s) \<subseteq> {..<NUM_EDGE_RESOURCES} \<and>
     inj_on (\<lambda>c. c_edge (chal_mem s c)) (set (challengers s)) \<and> (next_challenge s = None \<longrightarrow> challengers s = [])"

text \<open>The part of the state the invariant is about, and writes that do not touch it.\<close>

lemma cr_ok_cong:
  assumes "challengers s' = challengers s" "challengers_memb s' = challengers_memb s" "next_challenge s' = next_challenge s"
    "\<And>c. c_edge (chal_mem s' c) = c_edge (chal_mem s c)"
  shows "cr_ok s' = cr_ok s"
  by (simp add: cr_ok_def assms)

lemma list_head_None [simp]: "list_head xs = None \<longleftrightarrow> xs = []"
  by (simp add: list_head_def split: list.split)

lemma list_head_in: "list_head xs = Some c \<Longrightarrow> c \<in> set xs"
  by (auto simp: list_head_def split: list.splits)

lemma move_to_next_fields [simp]:
  "challengers (move_to_next_challenge s) = challengers s" "challengers_memb (move_to_next_challenge s) = challengers_memb s"
  "chal_mem (move_to_next_challenge s) = chal_mem s" "cr_edges (move_to_next_challenge s) = cr_edges s"
  "challenge_response_timer (move_to_next_challenge s) = None" "cr_app (move_to_next_challenge s) = cr_app s"
  "cr_lock (move_to_next_challenge s) = cr_lock s" "cr_ep (move_to_next_challenge s) = cr_ep s"
  by (simp_all add: move_to_next_challenge_def Let_def)

lemma move_to_next_in: "challengers s \<noteq> [] \<Longrightarrow> \<exists>c\<in>set (challengers s). next_challenge (move_to_next_challenge s) = Some c"
proof -
  assume ne: "challengers s \<noteq> []"
  then obtain h where h: "list_head (challengers s) = Some h" by (cases "list_head (challengers s)") auto
  show ?thesis
  proof (cases "case next_challenge s of None \<Rightarrow> None | Some c \<Rightarrow> item_next (challengers s) c")
    case None
    then show ?thesis using h list_head_in [OF h] by (simp add: move_to_next_challenge_def Let_def)
  next
    case (Some d)
    then have "d \<in> set (challengers s)" by (auto split: option.splits dest: item_next_in)
    then show ?thesis using Some by (simp add: move_to_next_challenge_def Let_def)
  qed
qed

lemma move_to_next_empty: "challengers s = [] \<Longrightarrow> next_challenge (move_to_next_challenge s) = None"
  by (cases "next_challenge s") (simp_all add: move_to_next_challenge_def item_next_def list_head_def)

lemma move_to_next_ok: "cr_ok s \<Longrightarrow> cr_ok (move_to_next_challenge s)"
  using move_to_next_in [of s] by (cases "challengers s = []") (auto simp: cr_ok_def)

lemma find_edge_challenger_Some: "find_edge_challenger s edge = Some c \<Longrightarrow> c \<in> set (challengers s) \<and> c_edge (chal_mem s c) = edge"
  by (auto simp: find_edge_challenger_def find_Some_iff)

lemma find_edge_challenger_None: "find_edge_challenger s edge = None \<longleftrightarrow> (\<forall>c\<in>set (challengers s). c_edge (chal_mem s c) \<noteq> edge)"
  by (auto simp: find_edge_challenger_def find_None_iff)

lemma find_edge_challenger_known:
  assumes "cr_ok s" "c \<in> set (challengers s)"
  shows "find_edge_challenger s (c_edge (chal_mem s c)) = Some c"
proof -
  obtain d where d: "find_edge_challenger s (c_edge (chal_mem s c)) = Some d"
    using assms(2) find_edge_challenger_None [of s "c_edge (chal_mem s c)"] by (cases "find_edge_challenger s (c_edge (chal_mem s c))") auto
  from find_edge_challenger_Some [OF d] assms have "d = c" by (auto simp: cr_ok_def inj_on_def)
  then show ?thesis using d by simp
qed

lemma add_challenger_ok:
  assumes "contiki_ok (cr_ct E)" "cr_ok s"
  shows "cr_ok (add_challenger E edge s)"
proof (cases "find_edge_challenger s edge")
  case (Some c)
  then show ?thesis using assms(2) by (simp add: add_challenger_def)
next
  case None
  note none = None
  then have new: "\<forall>c\<in>set (challengers s). c_edge (chal_mem s c) \<noteq> edge" by (simp add: find_edge_challenger_None)
  have used: "challengers_memb s \<subseteq> {..<NUM_EDGE_RESOURCES}" using assms(2) by (simp add: cr_ok_def)
  obtain r used' where m: "memb_alloc (cr_ct E) NUM_EDGE_RESOURCES (challengers_memb s) = (r, used')" by fastforce
  show ?thesis
  proof (cases r)
    case None
    then have "used' = challengers_memb s" using memb_alloc_None [OF assms(1) used] m by blast
    then show ?thesis using assms(2) none m None by (simp add: add_challenger_def cr_ok_def)
  next
    case (Some c)
    then have c: "c < NUM_EDGE_RESOURCES" "c \<notin> challengers_memb s" "used' = insert c (challengers_memb s)"
      using memb_alloc_Some [OF assms(1) used] m by auto
    define s2 where "s2 = (upd_chal c (\<lambda>m. m\<lparr>c_edge := edge, generated := 0, received := 0\<rparr>) (s\<lparr>challengers_memb := used'\<rparr>))\<lparr>challengers := c # challengers s\<rparr>"
    have notin: "c \<notin> set (challengers s)" using c(2) assms(2) by (simp add: cr_ok_def)
    then have eq: "add_challenger E edge s = (if next_challenge s2 = None then move_to_next_challenge s2 else s2)"
      using none m Some by (simp add: add_challenger_def s2_def upd_chal_def Let_def list_push_new [OF assms(1)])
    have "inj_on (\<lambda>d. c_edge (chal_mem s2 d)) (set (challengers s2))"
      using new assms(2) notin by (auto simp: s2_def upd_chal_def cr_ok_def inj_on_def)
    moreover have "distinct (challengers s2)" "challengers_memb s2 = set (challengers s2)" "set (challengers s2) \<subseteq> {..<NUM_EDGE_RESOURCES}"
      using assms(2) c notin by (auto simp: s2_def upd_chal_def cr_ok_def)
    moreover have "next_challenge (move_to_next_challenge s2) \<noteq> None"
      using move_to_next_in [of s2] by (auto simp: s2_def)
    ultimately show ?thesis unfolding eq by (cases "next_challenge s2") (auto simp: cr_ok_def)
  qed
qed

lemma remove_challenger_ok:
  assumes "contiki_ok (cr_ct E)" "cr_ok s"
  shows "cr_ok (remove_challenger E edge s)"
proof (cases "find_edge_challenger s edge")
  case None
  then show ?thesis using assms(2) by (simp add: remove_challenger_def)
next
  case (Some c)
  define s2 where "s2 = (if next_challenge s = Some c then move_to_next_challenge s else s)"
  have s2: "cr_ok s2" "challengers s2 = challengers s" using assms(2) move_to_next_ok [OF assms(2)] by (simp_all add: s2_def)
  have c: "c \<in> set (challengers s2)" using find_edge_challenger_Some [OF Some] by (simp add: s2)
  then have u: "c \<in> challengers_memb s2" "c < NUM_EDGE_RESOURCES" using s2(1) by (auto simp: cr_ok_def)
  have nx: "next_challenge s2 \<noteq> None" using c s2(1) by (auto simp: cr_ok_def)
  have "remove_challenger E edge s = s2\<lparr>challengers := remove1 c (challengers s2), challengers_memb := challengers_memb s2 - {c}\<rparr>"
    using Some memb_free_used [OF assms(1) u] by (simp add: remove_challenger_def s2_def [symmetric] list_remove_ok [OF assms(1)])
  then show ?thesis using s2(1) nx by (auto simp: cr_ok_def inj_on_def)
qed

lemma capability_events_ok:
  assumes "contiki_ok (cr_ct E)" "cr_ok s"
  shows "cr_ok (cr_edge_capability_add E now sent edge s)" "cr_ok (cr_edge_capability_remove E edge s)"
  unfolding cr_edge_capability_add_def cr_edge_capability_remove_def split_def Let_def
  by (intro add_challenger_ok remove_challenger_ok assms(1); use assms(2) in \<open>simp add: cr_ok_def\<close>)+

lemma periodic_action_fields:
  assumes "cr_periodic_action E now random linked sent s = Some s'"
  shows "challengers s' = challengers s" "challengers_memb s' = challengers_memb s" "c_edge (chal_mem s' c) = c_edge (chal_mem s c)"
    "next_challenge s' = (if timed_unlock_is_locked (cr_lock s) then next_challenge s else next_challenge (move_to_next_challenge s))"
    "cr_edges s' = cr_edges s" "cr_app s' = cr_app s"
  using assms by (auto simp: cr_periodic_action_def generate_challenge_def upd_chal_def Let_def split_def split: if_splits option.splits)

lemma periodic_action_ok:
  assumes "cr_ok s" "cr_periodic_action E now random linked sent s = Some s'"
  shows "cr_ok s'"
proof -
  have "cr_ok (if timed_unlock_is_locked (cr_lock s) then s else move_to_next_challenge s)" using assms(1) move_to_next_ok [OF assms(1)] by simp
  moreover have "cr_ok s' = cr_ok (if timed_unlock_is_locked (cr_lock s) then s else move_to_next_challenge s)"
    using periodic_action_fields [OF assms(2)] by (intro cr_ok_cong) simp_all
  ultimately show ?thesis by simp
qed

lemma periodic_action_returns:
  assumes "fst random"
  shows "\<exists>s'. cr_periodic_action E now random linked sent s = Some s'"
  using assms by (simp add: cr_periodic_action_def generate_challenge_def Let_def split_def split: option.split)

inductive cr_run :: "('e, 'c, 'k, 'en, 'de, 'x) cr_env \<Rightarrow> ('e, 'c, 'k) cr_node \<Rightarrow> ('e, 'c, 'k) cr_node \<Rightarrow> bool" for E where
  start: "cr_run E s s"
| event: "\<lbrakk>cr_run E s s'; challenge_response_process E ev s' = Some s''\<rbrakk> \<Longrightarrow> cr_run E s s''"
| others: "cr_run E s s' \<Longrightarrow> cr_run E s (s'\<lparr>cr_edges := es, cr_keystore := ks\<rparr>)"
| lock_opens: "cr_run E s s' \<Longrightarrow> cr_run E s (s'\<lparr>cr_lock := timed_unlock_unlock (cr_lock s')\<rparr>)"

lemma callback_ok:
  "\<lbrakk>cr_ok s; cr_send_callback E status code s = Some s'\<rbrakk> \<Longrightarrow> cr_ok s'"
  by (auto simp: cr_send_callback_def cr_ok_def Let_def split: if_splits option.splits)

lemma timed_out_ok: "cr_ok s \<Longrightarrow> cr_ok (challenge_response_timed_out E s)"
  by (subst cr_ok_cong [of _ s]) (auto simp: challenge_response_timed_out_def upd_chal_def Let_def split: option.split)

lemma answer_ok: "cr_ok s \<Longrightarrow> cr_ok (res_coap_cr_post_handler E now src payload cr0 s)"
  by (subst cr_ok_cong [of _ s]) (auto simp: res_coap_cr_post_handler_def upd_chal_def Let_def split_def split: option.split)

lemma cr_event_ok:
  assumes "contiki_ok (cr_ct E)" "cr_ok s" "challenge_response_process E ev s = Some s'"
  shows "cr_ok s'"
proof (cases ev)
  case (Challenge_Timer now random linked sent)
  then obtain s1 where "cr_periodic_action E now random linked sent (s\<lparr>challenge_timer := None\<rparr>) = Some s1"
    "s' = s1\<lparr>challenge_timer := Some (CHALLENGE_PERIOD (clock_second E))\<rparr>" using assms(3) by (auto simp: challenge_response_process_def)
  then show ?thesis using periodic_action_ok [of "s\<lparr>challenge_timer := None\<rparr>"] assms(2) by (simp add: cr_ok_def)
next
  case Response_Timer
  then show ?thesis using assms(2,3) timed_out_ok [of "s\<lparr>challenge_response_timer := None\<rparr>" E] by (auto simp: challenge_response_process_def cr_ok_def)
next
  case (Send_Callback status code)
  then show ?thesis using assms(2,3) callback_ok by (auto simp: challenge_response_process_def)
qed (use assms capability_events_ok [OF assms(1,2)] answer_ok [OF assms(2)] in \<open>auto simp: challenge_response_process_def\<close>)

lemma cr_run_ok: "\<lbrakk>cr_run E s s'; contiki_ok (cr_ct E); cr_ok s\<rbrakk> \<Longrightarrow> cr_ok s'"
proof (induction rule: cr_run.induct)
  case (event s s' ev s'')
  then show ?case using cr_event_ok [of E s' ev s''] by blast
qed (simp_all add: cr_ok_def)

subsection \<open>Challenges in turn\<close>

text \<open>
  The challenge timer firing again and again.  The inputs of each period: whether the lock has opened since the last one (by its timer or the end of the request), and
  those of \<open>periodic_action\<close>.
\<close>

type_synonym period = "bool \<times> nat \<times> (bool \<times> u8 list) \<times> bool \<times> int"

fun cr_rounds ::
  "('e, 'c, 'k, 'en, 'de, 'x) cr_env \<Rightarrow> period list \<Rightarrow> ('e, 'c, 'k) cr_node \<Rightarrow> ('e, 'c, 'k) cr_node option" where
  "cr_rounds E [] s = Some s"
| "cr_rounds E ((opened, now, random, linked, sent) # xs) s =
     (case challenge_response_process E (Challenge_Timer now random linked sent) (if opened then s\<lparr>cr_lock := timed_unlock_unlock (cr_lock s)\<rparr> else s) of
        None \<Rightarrow> None
      | Some s \<Rightarrow> cr_rounds E xs s)"

text \<open>
  Whose turn it is.  Of \<open>n\<close> challengers, the last turn having been that of number \<open>i\<close>, a period in which the lock is still closed is left out; otherwise it is the turn of
  the next one, who is sent fresh data unless the request cannot be sent.
\<close>

fun turns :: "nat \<Rightarrow> bool \<Rightarrow> nat \<Rightarrow> period list \<Rightarrow> (nat \<times> u8 list) list" where
  "turns n shut i [] = []"
| "turns n shut i ((opened, now, random, linked, sent) # xs) =
     (if shut \<and> \<not> opened then turns n shut i xs
      else let j = Suc i mod n in (if sent \<noteq> 0 then [(j, snd random)] else []) @ turns n (sent \<noteq> 0) j xs)"

text \<open>The challenge with the given data, and the message with it for the edge of a challenger.\<close>

definition new_challenge :: "u8 list \<Rightarrow> challenge" where
  "new_challenge data = \<lparr>ch_data = data, difficulty = CHALLENGE_DIFFICULTY, max_duration_secs = CHALLENGE_DURATION\<rparr>"

definition challenge_sent :: "('e, 'c, 'k, 'en, 'de, 'x) cr_env \<Rightarrow> ('e, 'c, 'k) cr_node \<Rightarrow> nat \<times> u8 list \<Rightarrow> coap_endpoint \<times> u8 list" where
  "challenge_sent E s = (\<lambda>(j, data). let (len, buf) = nanocbor_fmt_challenge (cr_nc E) CR_MSG_BUF_LEN (new_challenge data)
     in (ep (edge_mem (cr_edges s) (c_edge (chal_mem s (challengers s ! j)))), take (nat len) buf))"

definition challenge_fits :: "('e, 'c, 'k, 'en, 'de, 'x) cr_env \<Rightarrow> u8 list \<Rightarrow> bool" where
  "challenge_fits E data \<longleftrightarrow> (case nanocbor_fmt_challenge (cr_nc E) CR_MSG_BUF_LEN (new_challenge data) of (len, _) \<Rightarrow> 0 < len \<and> len \<le> int CR_MSG_BUF_LEN)"

lemma move_to_next_nth:
  assumes "distinct (challengers s)" "next_challenge s = Some (challengers s ! i)" "i < length (challengers s)"
  shows "next_challenge (move_to_next_challenge s) = Some (challengers s ! (Suc i mod length (challengers s)))"
proof (cases "Suc i < length (challengers s)")
  case True
  then show ?thesis using item_next_nth [OF assms(1,3)] assms(2) by (simp add: move_to_next_challenge_def Let_def)
next
  case False
  then have "Suc i = length (challengers s)" using assms(3) by simp
  then show ?thesis
    using item_next_nth [OF assms(1,3)] assms(2) by (cases "challengers s") (auto simp: move_to_next_challenge_def Let_def list_head_def)
qed

lemma generate_new: "fst random \<Longrightarrow> generate_challenge random CHALLENGE_DIFFICULTY CHALLENGE_DURATION c = Some (new_challenge (snd random))"
  by (cases c) (simp add: generate_challenge_def new_challenge_def)

lemma periodic_action_sends:
  assumes "\<not> timed_unlock_is_locked (cr_lock s)" "next_challenge (move_to_next_challenge s) = Some c" "fst random"
    "nanocbor_fmt_challenge (cr_nc E) CR_MSG_BUF_LEN (new_challenge (snd random)) = (len, buf)" "0 < len" "len \<le> int CR_MSG_BUF_LEN"
    "cr_periodic_action E now random linked sent s = Some s'"
  shows "cr_lock s' = (if sent \<noteq> 0 then timed_unlock_lock now (cr_lock s) else cr_lock s)"
    "cr_sent s' = cr_sent s @ (if sent \<noteq> 0 then [(ep (edge_mem (cr_edges s) (c_edge (chal_mem s c))), take (nat len) buf)] else [])"
proof -
  have same: "cr_sent (move_to_next_challenge s) = cr_sent s" by (simp add: move_to_next_challenge_def Let_def)
  have "Some s' = cr_periodic_action E now random linked sent s" by (rule assms(7) [symmetric])
  then have "s' = (let t = upd_chal c (\<lambda>m. m\<lparr>ch := new_challenge (snd random)\<rparr>) (move_to_next_challenge s);
        p = ep (edge_mem (cr_edges t) (c_edge (chal_mem t c))); t = t\<lparr>cr_ep := p\<rparr>;
        t = (if linked then t else t\<lparr>cr_connects := cr_connects t @ [p]\<rparr>); t = upd_chal c (\<lambda>m. m\<lparr>generated := word_of_nat now\<rparr>) t
      in if sent \<noteq> 0 then t\<lparr>cr_sent := cr_sent t @ [(p, take (nat len) buf)], cr_lock := timed_unlock_lock now (cr_lock t)\<rparr> else t)"
    using assms(1,2,4-6) unfolding cr_periodic_action_def by (simp add: generate_new [OF assms(3)] Let_def)
  then show "cr_lock s' = (if sent \<noteq> 0 then timed_unlock_lock now (cr_lock s) else cr_lock s)"
    "cr_sent s' = cr_sent s @ (if sent \<noteq> 0 then [(ep (edge_mem (cr_edges s) (c_edge (chal_mem s c))), take (nat len) buf)] else [])"
    by (cases linked; simp add: Let_def upd_chal_def same)+
qed

text \<open>One period, with the lock closed and open.\<close>

lemma period_closed:
  assumes "timed_unlock_is_locked (cr_lock s)"
  shows "challenge_response_process E (Challenge_Timer now random linked sent) s = Some (s\<lparr>challenge_timer := Some (CHALLENGE_PERIOD (clock_second E))\<rparr>)"
  using assms by (simp add: challenge_response_process_def cr_periodic_action_def)

lemma period_open:
  assumes "\<not> timed_unlock_is_locked (cr_lock s)" "fst random" "challenge_fits E (snd random)"
    "distinct (challengers s)" "next_challenge s = Some (challengers s ! i)" "i < length (challengers s)"
  defines "j \<equiv> Suc i mod length (challengers s)"
  shows "\<exists>s'. challenge_response_process E (Challenge_Timer now random linked sent) s = Some s' \<and>
    challengers s' = challengers s \<and> next_challenge s' = Some (challengers s ! j) \<and> cr_edges s' = cr_edges s \<and>
    (\<forall>c. c_edge (chal_mem s' c) = c_edge (chal_mem s c)) \<and> timed_unlock_is_locked (cr_lock s') = (sent \<noteq> 0) \<and>
    cr_sent s' = cr_sent s @ (if sent \<noteq> 0 then [challenge_sent E s (j, snd random)] else [])"
proof -
  obtain len buf where f: "nanocbor_fmt_challenge (cr_nc E) CR_MSG_BUF_LEN (new_challenge (snd random)) = (len, buf)" by fastforce
  then have len: "0 < len" "len \<le> int CR_MSG_BUF_LEN" using assms(3) by (simp_all add: challenge_fits_def)
  define s0 where "s0 = s\<lparr>challenge_timer := None\<rparr>"
  have n: "next_challenge (move_to_next_challenge s0) = Some (challengers s ! j)"
    using move_to_next_nth [of s0 i] assms(4-6) by (simp add: s0_def j_def)
  have sent: "cr_sent (move_to_next_challenge s0) = cr_sent s" by (simp add: move_to_next_challenge_def s0_def Let_def)
  have shut: "timed_unlock_is_locked (cr_lock s0) = False" using assms(1) by (simp add: s0_def)
  obtain s1 where s1: "cr_periodic_action E now random linked sent s0 = Some s1" using periodic_action_returns [OF assms(2)] by blast
  note p = periodic_action_fields [OF s1]
  have l: "timed_unlock_is_locked (cr_lock s1) = (sent \<noteq> 0)"
    "cr_sent s1 = cr_sent s @ (if sent \<noteq> 0 then [challenge_sent E s (j, snd random)] else [])"
    using periodic_action_sends [OF _ n assms(2) f len s1] shut
    by (simp_all add: challenge_sent_def f s0_def timed_unlock_lock_def timed_unlock_is_locked_def)
  define s2 where "s2 = s1\<lparr>challenge_timer := Some (CHALLENGE_PERIOD (clock_second E))\<rparr>"
  have "challenge_response_process E (Challenge_Timer now random linked sent) s = Some s2"
    using s1 by (simp add: challenge_response_process_def s0_def s2_def)
  then show ?thesis using p l n shut by (auto simp: s2_def s0_def)
qed

lemma challenge_sent_cong:
  "\<lbrakk>challengers s' = challengers s; cr_edges s' = cr_edges s; \<forall>c. c_edge (chal_mem s' c) = c_edge (chal_mem s c)\<rbrakk> \<Longrightarrow> challenge_sent E s' = challenge_sent E s"
  by (simp add: challenge_sent_def fun_eq_iff)

lemma cr_rounds_rotate:
  assumes "distinct (challengers s)" "next_challenge s = Some (challengers s ! i)" "i < length (challengers s)"
    "\<forall>(opened, now, random, linked, sent)\<in>set xs. fst random \<and> challenge_fits E (snd random)"
  shows "\<exists>s'. cr_rounds E xs s = Some s' \<and> challengers s' = challengers s \<and>
    cr_sent s' = cr_sent s @ map (challenge_sent E s) (turns (length (challengers s)) (timed_unlock_is_locked (cr_lock s)) i xs)"
  using assms
proof (induction xs arbitrary: s i)
  case (Cons x xs)
  obtain opened now random linked sent where x: "x = (opened, now, random, linked, sent)" by (metis prod_cases5)
  have rnd: "fst random" "challenge_fits E (snd random)" "\<forall>(opened, now, random, linked, sent)\<in>set xs. fst random \<and> challenge_fits E (snd random)"
    using Cons.prems(4) by (simp_all add: x)
  define s0 where "s0 = (if opened then s\<lparr>cr_lock := timed_unlock_unlock (cr_lock s)\<rparr> else s)"
  have s0: "challengers s0 = challengers s" "next_challenge s0 = next_challenge s" "cr_edges s0 = cr_edges s" "chal_mem s0 = chal_mem s" "cr_sent s0 = cr_sent s"
    "timed_unlock_is_locked (cr_lock s0) = (timed_unlock_is_locked (cr_lock s) \<and> \<not> opened)"
    by (simp_all add: s0_def timed_unlock_is_locked_def timed_unlock_unlock_def)
  have step: "cr_rounds E (x # xs) s = (case challenge_response_process E (Challenge_Timer now random linked sent) s0 of None \<Rightarrow> None | Some s \<Rightarrow> cr_rounds E xs s)"
    by (simp add: x s0_def)
  have d: "distinct (challengers s0)" "next_challenge s0 = Some (challengers s0 ! i)" "i < length (challengers s0)" using Cons.prems(1-3) by (simp_all add: s0)
  show ?case
  proof (cases "timed_unlock_is_locked (cr_lock s0)")
    case True
    note p = period_closed [OF True, of E now random linked sent]
    define s1 where "s1 = s0\<lparr>challenge_timer := Some (CHALLENGE_PERIOD (clock_second E))\<rparr>"
    obtain s' where "cr_rounds E xs s1 = Some s'" "challengers s' = challengers s1"
      "cr_sent s' = cr_sent s1 @ map (challenge_sent E s1) (turns (length (challengers s1)) (timed_unlock_is_locked (cr_lock s1)) i xs)"
      using Cons.IH [of s1 i] d rnd(3) by (auto simp: s1_def)
    moreover have "challenge_sent E s1 = challenge_sent E s" by (rule challenge_sent_cong) (simp_all add: s1_def s0)
    ultimately show ?thesis using p True s0 unfolding step by (simp add: x s1_def)
  next
    case False
    define j where "j = Suc i mod length (challengers s0)"
    obtain s1 where s1: "challenge_response_process E (Challenge_Timer now random linked sent) s0 = Some s1" "challengers s1 = challengers s0"
      "next_challenge s1 = Some (challengers s0 ! j)" "cr_edges s1 = cr_edges s0" "\<forall>c. c_edge (chal_mem s1 c) = c_edge (chal_mem s0 c)"
      "timed_unlock_is_locked (cr_lock s1) = (sent \<noteq> 0)" "cr_sent s1 = cr_sent s0 @ (if sent \<noteq> 0 then [challenge_sent E s0 (j, snd random)] else [])"
      using period_open [OF False rnd(1,2) d, of now linked sent] unfolding j_def by blast
    have j: "j < length (challengers s1)" using d(3) unfolding s1(2) j_def by (intro mod_less_divisor) auto
    obtain s' where "cr_rounds E xs s1 = Some s'" "challengers s' = challengers s1"
      "cr_sent s' = cr_sent s1 @ map (challenge_sent E s1) (turns (length (challengers s1)) (timed_unlock_is_locked (cr_lock s1)) j xs)"
      using Cons.IH [of s1 j] d(1) rnd(3) j s1(2,3) by auto
    moreover have "challenge_sent E s1 = challenge_sent E s" "challenge_sent E s0 = challenge_sent E s"
      by (rule challenge_sent_cong; use s1 s0 in simp)+
    ultimately show ?thesis using s1 False s0 unfolding step by (auto simp: x j_def Let_def)
  qed
qed simp

lemma turns_all:
  assumes "\<forall>(opened, now, random, linked, sent)\<in>set xs. opened \<and> sent \<noteq> 0" "i < n"
  shows "map fst (turns n shut i xs) = map (\<lambda>k. (i + Suc k) mod n) [0..<length xs]"
  using assms
proof (induction xs arbitrary: i shut)
  case (Cons x xs)
  obtain opened now random linked sent where x: "x = (opened, now, random, linked, sent)" by (metis prod_cases5)
  let ?j = "Suc i mod n"
  have m: "Suc (?j + k) mod n = Suc (Suc (i + k)) mod n" for k
    using mod_add_left_eq [of "Suc i" n "Suc k"] by simp
  have j: "?j < n" using Cons.prems(2) by (intro mod_less_divisor) auto
  have xs: "\<forall>(opened, now, random, linked, sent)\<in>set xs. opened \<and> sent \<noteq> 0" "opened" "sent \<noteq> 0" using Cons.prems(1) by (simp_all add: x)
  have "map (\<lambda>k. (i + Suc k) mod n) [0..<length (x # xs)] = ?j # map (\<lambda>k. (?j + Suc k) mod n) [0..<length xs]"
    by (simp add: upt_conv_Cons map_Suc_upt [symmetric] comp_def m del: upt_Suc)
  then show ?case using Cons.IH [OF xs(1) j] xs(2,3) by (simp add: x Let_def)
qed simp

subsection \<open>Answers\<close>

text \<open>What the platform documents: the functions succeed and the digest is that of the bytes passed in, in order.\<close>

definition absorbs :: "'x sha256 \<Rightarrow> (u8 list \<Rightarrow> u8 list) \<Rightarrow> ('x \<Rightarrow> u8 list) \<Rightarrow> bool" where
  "absorbs S H absorbed \<longleftrightarrow>
     (case sha256_init S of (r, ctx) \<Rightarrow> platform_crypto_success S r \<and> absorbed ctx = []) \<and>
     (\<forall>ctx bs. case sha256_update S ctx bs of (r, ctx') \<Rightarrow> platform_crypto_success S r \<and> absorbed ctx' = absorbed ctx @ bs) \<and>
     (\<forall>ctx. case sha256_finalise S ctx of (r, digest) \<Rightarrow> platform_crypto_success S r \<and> digest = H (absorbed ctx))"

definition sha_ok :: "'x sha256 \<Rightarrow> (u8 list \<Rightarrow> u8 list) \<Rightarrow> bool" where
  "sha_ok S H \<longleftrightarrow> (\<exists>absorbed. absorbs S H absorbed) \<and> (\<forall>bs. length (H bs) = SHA256_DIGEST_LEN_BYTES)"

lemma hash_of_response:
  assumes "sha_ok S H"
  shows "\<exists>r. sha256_hash_challenge_response S c cr = (r, H (take (unat (data_length cr)) (data_prefix cr) @ ch_data c)) \<and> platform_crypto_success S r"
proof -
  obtain absorbed where a: "absorbs S H absorbed" using assms by (auto simp: sha_ok_def)
  obtain r0 x0 where i: "sha256_init S = (r0, x0)" by fastforce
  obtain r1 x1 where u1: "sha256_update S x0 (take (unat (data_length cr)) (data_prefix cr)) = (r1, x1)" by fastforce
  obtain r2 x2 where u2: "sha256_update S x1 (ch_data c) = (r2, x2)" by fastforce
  obtain r3 d where f: "sha256_finalise S x2 = (r3, d)" by fastforce
  have "platform_crypto_success S r0" "absorbed x0 = []" using a by (auto simp: absorbs_def i)
  moreover have "platform_crypto_success S r1" "absorbed x1 = absorbed x0 @ take (unat (data_length cr)) (data_prefix cr)"
    "platform_crypto_success S r2" "absorbed x2 = absorbed x1 @ ch_data c"
    using a u1 u2 unfolding absorbs_def by (metis (mono_tags, lifting) case_prod_conv)+
  moreover have "platform_crypto_success S r3" "d = H (absorbed x2)"
    using a f unfolding absorbs_def by (metis (mono_tags, lifting) case_prod_conv)+
  ultimately show ?thesis by (simp add: i u1 u2 f sha256_hash_challenge_response_def)
qed

text \<open>At the top level the reader is at the end when nothing is left.\<close>

definition top_end_law :: "'de view \<Rightarrow> ('en, 'de) nanocbor \<Rightarrow> bool" where
  "top_end_law view NC \<longleftrightarrow> (\<forall>de. view de = ([], None) \<longrightarrow> at_end NC de)"

lemma response_parsed:
  assumes "nanocbor_ok written view NC" "top_end_law view NC" "view (decoder_init NC buf) = ([TArray 2, TBstr p, TUint (unat secs)], None)"
    "length p \<le> SIZEOF_DATA_PREFIX"
  shows "nanocbor_get_challenge_response NC buf cr0 = (0, \<lparr>data_prefix = p, data_length = word_of_nat (length p), duration_secs = secs\<rparr>)"
proof -
  have laws: "array_law view NC" "get_law view (get_bstr NC) bstr_val" "get_law view (get_uint32 NC) uint_val"
    using assms(1) by (simp_all add: nanocbor_ok_def)
  define de where "de = decoder_init NC buf"
  have v: "view de = (TArray 2 # [TBstr p, TUint (unat secs)], None)" using assms(3) by (simp add: de_def)
  obtain r a where e: "enter_array NC de = (r, a)" by fastforce
  have a: "0 \<le> r" "view a = (TBstr p # [TUint (unat secs)], Some 2)"
    using laws(1) v e unfolding array_law_def by (auto simp: has_more_def dest!: spec [of _ de])
  obtain r1 a1 where b: "get_bstr NC a = (r1, p, a1)" "0 \<le> r1" "view a1 = (TUint (unat secs) # [], Some 1)"
    using get_tok [OF laws(2) a(2)] by (auto simp: has_more_def pass_def)
  obtain r2 a2 where u: "get_uint32 NC a1 = (r2, secs, a2)" "0 \<le> r2" "view a2 = ([], Some 0)"
    using get_tok [OF laws(3) b(3) _ uint_val_unat [of secs]] by (auto simp: has_more_def pass_def)
  have end1: "at_end NC a2" using laws(1) u(3) by (auto simp: array_law_def)
  have "view (leave_container NC de a2) = ([], None)" using laws(1) u(3) v by (simp add: array_law_def pass_def)
  then have "at_end NC (leave_container NC de a2)" using assms(2) by (simp add: top_end_law_def)
  then show ?thesis
    using e a(1) b(1,2) u(1,2) end1 assms(4) by (simp add: nanocbor_get_challenge_response_def Let_def de_def [symmetric])
qed

lemma response_prefix:
  assumes "nanocbor_get_challenge_response NC buf cr0 = (0, cr)" "nanocbor_ok written view NC"
  shows "length (data_prefix cr) \<le> SIZEOF_DATA_PREFIX" "take (unat (data_length cr)) (data_prefix cr) = data_prefix cr"
proof -
  have "err_overflow NC \<noteq> 0" using assms(2) by (simp add: nanocbor_ok_def)
  then have d: "length (data_prefix cr) \<le> SIZEOF_DATA_PREFIX \<and> data_length cr = word_of_nat (length (data_prefix cr))"
    using assms(1) by (auto simp: nanocbor_get_challenge_response_def Let_def split_def split: if_splits)
  then have "length (data_prefix cr) < 2 ^ LENGTH(8)" by (simp add: SIZEOF_DATA_PREFIX_def)
  then have "unat (data_length cr) = length (data_prefix cr)" using d by (simp add: unsigned_of_nat take_bit_nat_eq_self_iff)
  then show "length (data_prefix cr) \<le> SIZEOF_DATA_PREFIX" "take (unat (data_length cr)) (data_prefix cr) = data_prefix cr" using d by simp_all
qed

text \<open>A solution of a challenge: a short prefix that makes enough leading bytes of the digest zero.\<close>

definition solves :: "(u8 list \<Rightarrow> u8 list) \<Rightarrow> challenge \<Rightarrow> u8 list \<Rightarrow> bool" where
  "solves H c p \<longleftrightarrow> length p \<le> SIZEOF_DATA_PREFIX \<and> unat (difficulty c) \<le> SHA256_DIGEST_LEN_BYTES \<and>
     (\<forall>i<unat (difficulty c). H (p @ ch_data c) ! i = 0)"

lemma zeros_iff:
  "length bs = SHA256_DIGEST_LEN_BYTES \<Longrightarrow>
    check_first_n_zeros bs n \<longleftrightarrow> n \<le> SHA256_DIGEST_LEN_BYTES \<and> list_all (\<lambda>i. bs ! i = 0) [0..<n]"
  by (auto simp: check_first_n_zeros_def list_all_length)

text \<open>What the handler tells the trust model about an answer, if anything.\<close>

definition answer_counts :: "(u8 list \<Rightarrow> u8 list) \<Rightarrow> ('e, 'c, 'k, 'en, 'de, 'x) cr_env \<Rightarrow> u32 \<Rightarrow> edge_challenger \<Rightarrow> u8 list \<Rightarrow> tm_challenge_response_info" where
  "answer_counts H E now m p =
     TM_CHALLENGE_RESPONSE_RESP
       (unat (difficulty (ch m)) \<le> SHA256_DIGEST_LEN_BYTES \<and> list_all (\<lambda>i. H (p @ ch_data (ch m)) ! i = 0) [0..<unat (difficulty (ch m))])
       (max_duration_secs (ch m) * clock_second E < now - generated m)"

lemma answer_counts_solves:
  assumes "length p \<le> SIZEOF_DATA_PREFIX"
  shows "answer_counts H E now m p = TM_CHALLENGE_RESPONSE_RESP (solves H (ch m) p) (max_duration_secs (ch m) * clock_second E < now - generated m)"
  using assms by (auto simp: answer_counts_def solves_def list_all_iff)

lemma answer_handled:
  assumes "sha_ok (cr_sha E) H" "nanocbor_ok written view (cr_nc E)"
    "edge_info_find_addr (cr_edges s) src = Some edge" "find_edge_challenger s edge = Some c"
    "nanocbor_get_challenge_response (cr_nc E) payload cr0 = (0, cr)"
  shows "res_coap_cr_post_handler E now src payload cr0 s =
    upd_chal c (\<lambda>m. m\<lparr>received := now\<rparr>) (s\<lparr>challenge_response_timer := None,
      cr_edges := tm_update E edge (answer_counts H E now (chal_mem s c) (data_prefix cr)) (cr_edges s)\<rparr>)"
proof -
  note p = response_prefix [OF assms(5,2)]
  obtain r where r: "sha256_hash_challenge_response (cr_sha E) (ch (chal_mem s c)) cr = (r, H (data_prefix cr @ ch_data (ch (chal_mem s c))))"
    "platform_crypto_success (cr_sha E) r"
    using hash_of_response [OF assms(1), of "ch (chal_mem s c)" cr] p(2) by auto
  have len: "length (H bs) = SHA256_DIGEST_LEN_BYTES" for bs using assms(1) by (simp add: sha_ok_def)
  show ?thesis
    using r by (simp add: res_coap_cr_post_handler_def assms(3-5) upd_chal_def Let_def zeros_iff [OF len] answer_counts_def)
qed

text \<open>The four outcomes of an answer.\<close>

lemma answer_cases:
  assumes "sha_ok (cr_sha E) H" "nanocbor_ok written view (cr_nc E)"
  shows "cr_edges (res_coap_cr_post_handler E now src payload cr0 s) = cr_edges s \<or>
    (\<exists>edge. edge_info_find_addr (cr_edges s) src = Some edge \<and>
       (cr_edges (res_coap_cr_post_handler E now src payload cr0 s) = tm_update E edge (TM_CHALLENGE_RESPONSE_RESP False False) (cr_edges s) \<or>
        (\<exists>c p. find_edge_challenger s edge = Some c \<and> length p \<le> SIZEOF_DATA_PREFIX \<and>
           cr_edges (res_coap_cr_post_handler E now src payload cr0 s) = tm_update E edge (answer_counts H E now (chal_mem s c) p) (cr_edges s))))"
proof (cases "edge_info_find_addr (cr_edges s) src")
  case None
  then show ?thesis by (simp add: res_coap_cr_post_handler_def)
next
  case (Some edge)
  note edge = Some
  show ?thesis
  proof (cases "find_edge_challenger s edge")
    case None
    then show ?thesis using edge by (simp add: res_coap_cr_post_handler_def)
  next
    case (Some c)
    obtain ret cr where g: "nanocbor_get_challenge_response (cr_nc E) payload cr0 = (ret, cr)" by fastforce
    show ?thesis
    proof (cases "ret = 0")
      case True
      note h = answer_handled [OF assms edge Some g [unfolded True], of now]
      show ?thesis using edge Some response_prefix(1) [OF g [unfolded True] assms(2)] by (auto simp: h upd_chal_def)
    next
      case False
      then show ?thesis using edge Some g by (simp add: res_coap_cr_post_handler_def upd_chal_def Let_def)
    qed
  qed
qed

subsection \<open>Properties\<close>

lemma cr_init_ok: "cr_ok (cr_init E p s)"
  by (simp add: cr_init_def cr_ok_def)

text \<open>The only two ways in which an event fails: no random bytes, and a response for which there is no challenge.\<close>

definition fails_on :: "('e, 'c, 'k, 'en, 'de, 'x) cr_env \<Rightarrow> ('e, 'c, 'k) cr_node \<Rightarrow> cr_event \<Rightarrow> bool" where
  "fails_on E s ev =
     (case ev of
        Challenge_Timer now random linked sent \<Rightarrow> \<not> timed_unlock_is_locked (cr_lock s) \<and> challengers s \<noteq> [] \<and> \<not> fst random
      | Send_Callback status code \<Rightarrow> status = req_response (cr_ct E) \<and> code = coap_content (cr_ct E) \<and> next_challenge s = None
      | _ \<Rightarrow> False)"

lemma periodic_action_fails:
  "cr_periodic_action E now random linked sent s = None \<longleftrightarrow> \<not> timed_unlock_is_locked (cr_lock s) \<and> challengers s \<noteq> [] \<and> \<not> fst random"
proof (cases "challengers s = []")
  case True
  then show ?thesis using move_to_next_empty [OF True] by (simp add: cr_periodic_action_def Let_def)
next
  case False
  then obtain c where "next_challenge (move_to_next_challenge s) = Some c" using move_to_next_in [OF False] by blast
  then show ?thesis using False by (simp add: cr_periodic_action_def generate_challenge_def Let_def split_def)
qed

lemma event_fails: "challenge_response_process E ev s = None \<longleftrightarrow> fails_on E s ev"
  by (cases ev) (auto simp: challenge_response_process_def fails_on_def periodic_action_fails cr_send_callback_def Let_def split: option.splits)

text \<open>
  The second can happen in a run: the last edge withdraws its capability while its challenge is under way, a period passes (its event was already in the queue, or another edge still
  offers the capability), and then the response arrives.
\<close>

lemma late_response_fails:
  assumes "contiki_ok (cr_ct E)" "challengers s = [c]" "next_challenge s = Some c" "c \<in> challengers_memb s" "c < NUM_EDGE_RESOURCES"
    "\<not> timed_unlock_is_locked (cr_lock s)"
  shows "\<exists>s1 s2. challenge_response_process E (Capability_Remove (c_edge (chal_mem s c))) s = Some s1 \<and>
    challenge_response_process E (Challenge_Timer now random linked sent) s1 = Some s2 \<and>
    challenge_response_process E (Send_Callback (req_response (cr_ct E)) (coap_content (cr_ct E))) s2 = None"
proof -
  obtain stopped st where a: "app_state_edge_capability_remove (cr_edges s) (c_edge (chal_mem s c)) (cr_app s) = (stopped, st)" by fastforce
  define t where "t = (if stopped then s\<lparr>cr_app := st, challenge_timer := None\<rparr> else s\<lparr>cr_app := st\<rparr>)"
  have t: "challengers t = [c]" "next_challenge t = Some c" "challengers_memb t = challengers_memb s" "chal_mem t = chal_mem s" "cr_lock t = cr_lock s"
    using assms(2,3) by (simp_all add: t_def)
  define s1 where "s1 = remove_challenger E (c_edge (chal_mem s c)) t"
  have s1: "challenge_response_process E (Capability_Remove (c_edge (chal_mem s c))) s = Some s1"
    by (simp add: challenge_response_process_def cr_edge_capability_remove_def a t_def s1_def)
  have f: "find_edge_challenger t (c_edge (chal_mem s c)) = Some c" by (simp add: find_edge_challenger_def t)
  have m: "next_challenge (move_to_next_challenge t) = Some c" by (simp add: move_to_next_challenge_def t item_next_def list_head_def)
  have e: "challengers s1 = []" "cr_lock s1 = cr_lock s"
    by (simp_all add: s1_def remove_challenger_def f t m list_remove_ok [OF assms(1)])
  then have none: "next_challenge (move_to_next_challenge (s1\<lparr>challenge_timer := None\<rparr>)) = None" by (intro move_to_next_empty) simp
  obtain s2 where s2: "challenge_response_process E (Challenge_Timer now random linked sent) s1 = Some s2" "next_challenge s2 = None"
    using none assms(6) e by (simp add: challenge_response_process_def cr_periodic_action_def Let_def)
  then have "challenge_response_process E (Send_Callback (req_response (cr_ct E)) (coap_content (cr_ct E))) s2 = None"
    by (simp add: event_fails fails_on_def)
  then show ?thesis using s1 s2(1) by blast
qed


text \<open>
  C24: the edges are challenged in turn.  While the list of challengers and the edges stay as they are, with random bytes and a buffer that suffices for the challenge, the messages sent
  by consecutive periods are challenges with the periods' random bytes for the edges of consecutive challengers, from the one after the last and around: a period in which the lock has
  not opened since the last request is left out, and one whose request cannot be sent loses that challenger's turn.  When the lock opens before every period and every request is
  sent, each of \<open>n\<close> challengers is sent one challenge in \<open>n\<close> periods.
\<close>

theorem challenges_in_turn:
  assumes "distinct (challengers s)" "next_challenge s = Some (challengers s ! i)" "i < length (challengers s)"
    "\<forall>(opened, now, random, linked, sent)\<in>set xs. fst random \<and> challenge_fits E (snd random)"
    "ts = turns (length (challengers s)) (timed_unlock_is_locked (cr_lock s)) i xs"
  shows "(\<exists>s'. cr_rounds E xs s = Some s' \<and> challengers s' = challengers s \<and> cr_sent s' = cr_sent s @ map (challenge_sent E s) ts) \<and>
    ((\<forall>(opened, now, random, linked, sent)\<in>set xs. opened \<and> sent \<noteq> 0) \<longrightarrow>
      map fst ts = map (\<lambda>k. (i + Suc k) mod length (challengers s)) [0..<length xs])"
  using cr_rounds_rotate [OF assms(1-4)] turns_all [OF _ assms(3), of xs] unfolding assms(5) by blast

text \<open>
  C22: nothing an edge sends makes the trust model count a success without a solution.  Whatever the payload, the trust model is told nothing, or that the edge the message came from failed, or
  whether some prefix solves the current challenge of that very edge, and whether it came late.
\<close>

theorem challenge_answer_sound:
  assumes "sha_ok (cr_sha E) H" "nanocbor_ok written view (cr_nc E)"
  shows "cr_edges (res_coap_cr_post_handler E now src payload cr0 s) = cr_edges s \<or>
    (\<exists>edge info. edge_info_find_addr (cr_edges s) src = Some edge \<and> cr_edges (res_coap_cr_post_handler E now src payload cr0 s) = tm_update E edge info (cr_edges s) \<and>
       (info = TM_CHALLENGE_RESPONSE_RESP False False \<or>
        (\<exists>c p. find_edge_challenger s edge = Some c \<and>
           info = TM_CHALLENGE_RESPONSE_RESP (solves H (ch (chal_mem s c)) p) (max_duration_secs (ch (chal_mem s c)) * clock_second E < now - generated (chal_mem s c)))))"
  using answer_cases [OF assms, of now src payload cr0 s] answer_counts_solves [of _ H E now] by metis

lemma answer_of_edge:
  assumes "sha_ok (cr_sha E) H" "nanocbor_ok written view (cr_nc E)" "top_end_law view (cr_nc E)"
    "edge_info_find_addr (cr_edges s) src = Some edge" "find_edge_challenger s edge = Some c" "length p \<le> SIZEOF_DATA_PREFIX"
    "view (decoder_init (cr_nc E) payload) = ([TArray 2, TBstr p, TUint (unat (secs :: u32))], None)"
  shows "res_coap_cr_post_handler E now src payload cr0 s =
    upd_chal c (\<lambda>m. m\<lparr>received := now\<rparr>) (s\<lparr>challenge_response_timer := None, cr_edges := tm_update E edge
      (TM_CHALLENGE_RESPONSE_RESP (solves H (ch (chal_mem s c)) p) (max_duration_secs (ch (chal_mem s c)) * clock_second E < now - generated (chal_mem s c))) (cr_edges s)\<rparr>)"
  by (simp add: answer_handled [OF assms(1,2,4,5) response_parsed [OF assms(2,3,7,6)]] answer_counts_solves [OF assms(6)])

text \<open>
  C23: an honest answer is counted as one.  When an edge that has a challenger answers with a prefix of at most four bytes, the trust model is told that it succeeded exactly when the prefix
  solves the challenge the edge was sent, the answer is recorded and no timeout will follow.
\<close>

theorem challenge_answer_accepted:
  assumes "sha_ok (cr_sha E) H" "nanocbor_ok written view (cr_nc E)" "top_end_law view (cr_nc E)"
    "edge_info_find_addr (cr_edges s) src = Some edge" "find_edge_challenger s edge = Some c" "length p \<le> SIZEOF_DATA_PREFIX"
    "view (decoder_init (cr_nc E) payload) = ([TArray 2, TBstr p, TUint (unat (secs :: u32))], None)"
  shows "cr_edges (res_coap_cr_post_handler E now src payload cr0 s) = tm_update E edge
      (TM_CHALLENGE_RESPONSE_RESP (solves H (ch (chal_mem s c)) p) (max_duration_secs (ch (chal_mem s c)) * clock_second E < now - generated (chal_mem s c))) (cr_edges s) \<and>
    received (chal_mem (res_coap_cr_post_handler E now src payload cr0 s) c) = now \<and> challenge_response_timer (res_coap_cr_post_handler E now src payload cr0 s) = None"
  by (simp add: answer_of_edge [OF assms] upd_chal_def)

text \<open>
  An answer is counted as often as it is sent.  A solution received in time counts as a success, and the same message received again, as long as it is still in time, counts as
  another: the challenge is not marked as answered.
\<close>

theorem challenge_answer_counted_again:
  assumes "sha_ok (cr_sha E) H" "nanocbor_ok written view (cr_nc E)" "top_end_law view (cr_nc E)"
    "edge_info_find_addr (cr_edges s) src = Some edge" "find_edge_challenger s edge = Some c" "solves H (ch (chal_mem s c)) p"
    "view (decoder_init (cr_nc E) payload) = ([TArray 2, TBstr p, TUint (unat (secs :: u32))], None)"
    "now1 - generated (chal_mem s c) \<le> max_duration_secs (ch (chal_mem s c)) * clock_second E" "now2 - generated (chal_mem s c) \<le> max_duration_secs (ch (chal_mem s c)) * clock_second E"
    "edge_info_find_addr (tm_update E edge (TM_CHALLENGE_RESPONSE_RESP True False) (cr_edges s)) src = Some edge"
  shows "cr_edges (res_coap_cr_post_handler E now2 src payload cr0 (res_coap_cr_post_handler E now1 src payload cr0 s)) =
    tm_update E edge (TM_CHALLENGE_RESPONSE_RESP True False) (tm_update E edge (TM_CHALLENGE_RESPONSE_RESP True False) (cr_edges s))"
proof -
  have p: "length p \<le> SIZEOF_DATA_PREFIX" using assms(6) by (simp add: solves_def)
  have intime: "(max_duration_secs (ch (chal_mem s c)) * clock_second E < now1 - generated (chal_mem s c)) = False"
    "(max_duration_secs (ch (chal_mem s c)) * clock_second E < now2 - generated (chal_mem s c)) = False"
    using assms(8,9) by (simp_all only: not_less simp_thms)
  define s1 where "s1 = res_coap_cr_post_handler E now1 src payload cr0 s"
  have s1: "s1 = upd_chal c (\<lambda>m. m\<lparr>received := now1\<rparr>) (s\<lparr>challenge_response_timer := None,
      cr_edges := tm_update E edge (TM_CHALLENGE_RESPONSE_RESP True False) (cr_edges s)\<rparr>)"
    using assms(6) by (simp add: s1_def answer_of_edge [OF assms(1-5) p assms(7)] intime)
  have same: "ch (chal_mem s1 c) = ch (chal_mem s c)" "generated (chal_mem s1 c) = generated (chal_mem s c)"
    "cr_edges s1 = tm_update E edge (TM_CHALLENGE_RESPONSE_RESP True False) (cr_edges s)" by (simp_all add: s1 upd_chal_def)
  have "find_edge_challenger s1 edge = find_edge_challenger s edge"
    by (simp add: find_edge_challenger_def s1 upd_chal_def) (metis (mono_tags, lifting))
  then have f: "find_edge_challenger s1 edge = Some c" using assms(5) by simp
  have e: "edge_info_find_addr (cr_edges s1) src = Some edge" using assms(10) by (simp add: same)
  show ?thesis
    unfolding s1_def [symmetric] using assms(6) by (simp add: answer_of_edge [OF assms(1-3) e f p assms(7)] same upd_chal_def intime)
qed

text \<open>
  C26: an edge that withdrew its capability is still blamed.  When the last challenger is removed while its challenge is under way, \<open>next_challenge\<close> keeps pointing to its freed block; the
  acknowledgement then sets the timer, and when it fires the trust model is told of a timeout of the block the removed edge had, whatever edge is there by then.
\<close>

theorem removed_edge_blamed:
  assumes "contiki_ok (cr_ct E)" "challengers s = [c]" "next_challenge s = Some c" "c \<in> challengers_memb s" "c < NUM_EDGE_RESOURCES"
    "generated (chal_mem s c) \<noteq> 0" "received (chal_mem s c) \<le> generated (chal_mem s c)" "edge_info_find_addr es (ipaddr (cr_ep s)) = None"
    "s1 = (cr_edge_capability_remove E (c_edge (chal_mem s c)) s)\<lparr>cr_edges := es\<rparr>"
  shows "challengers s1 = [] \<and> challengers_memb s1 = challengers_memb s - {c} \<and>
    (\<exists>s2 late. challenge_response_process E (Send_Callback (req_response (cr_ct E)) (coap_content (cr_ct E))) s1 = Some s2 \<and>
       map_option cr_edges (challenge_response_process E Response_Timer s2) =
         Some (tm_update E (c_edge (chal_mem s c)) (TM_CHALLENGE_RESPONSE_TIMEOUT True late) es))"
proof -
  obtain stopped st where a: "app_state_edge_capability_remove (cr_edges s) (c_edge (chal_mem s c)) (cr_app s) = (stopped, st)" by fastforce
  define t where "t = (if stopped then s\<lparr>cr_app := st, challenge_timer := None\<rparr> else s\<lparr>cr_app := st\<rparr>)"
  have t: "challengers t = [c]" "next_challenge t = Some c" "challengers_memb t = challengers_memb s" "chal_mem t = chal_mem s" "cr_ep t = cr_ep s"
    using assms(2,3) by (simp_all add: t_def)
  have r: "cr_edge_capability_remove E (c_edge (chal_mem s c)) s = remove_challenger E (c_edge (chal_mem s c)) t"
    by (simp add: cr_edge_capability_remove_def a t_def)
  have f: "find_edge_challenger t (c_edge (chal_mem s c)) = Some c" by (simp add: find_edge_challenger_def t)
  have m: "next_challenge (move_to_next_challenge t) = Some c" by (simp add: move_to_next_challenge_def t item_next_def list_head_def)
  have s1: "challengers s1 = []" "challengers_memb s1 = challengers_memb s - {c}" "next_challenge s1 = Some c" "chal_mem s1 = chal_mem s" "cr_edges s1 = es" "cr_ep s1 = cr_ep s"
    by (simp_all add: assms(9) r remove_challenger_def f t m list_remove_ok [OF assms(1)] memb_free_used [OF assms(1,4,5)])
  then show ?thesis
    using assms(6-8) by (auto simp: challenge_response_process_def cr_send_callback_def challenge_response_timed_out_def upd_chal_def Let_def)
qed

text \<open>The answer of another edge stops the timer for the challenge under way, which then is never reported as unanswered.\<close>

lemma other_answer_stops_timer:
  assumes "edge_info_find_addr (cr_edges s) src = Some edge" "find_edge_challenger s edge = Some d" "next_challenge s = Some c" "c \<noteq> d"
  shows "challenge_response_timer (res_coap_cr_post_handler E now src payload cr0 s) = None \<and>
    next_challenge (res_coap_cr_post_handler E now src payload cr0 s) = Some c \<and> chal_mem (res_coap_cr_post_handler E now src payload cr0 s) c = chal_mem s c"
  using assms by (simp add: res_coap_cr_post_handler_def upd_chal_def Let_def split_def)

subsection \<open>Examples\<close>

text \<open>A hash that accepts the prefix 7, and a reader that finds this prefix in every message.\<close>

definition example_hash :: "u8 list \<Rightarrow> u8 list" where
  "example_hash bs = replicate 32 (if take 1 bs = [7] then 0 else 1)"

definition example_sha :: "u8 list sha256" where
  "example_sha = \<lparr>sha256_init = (0, []), sha256_update = (\<lambda>ctx bs. (0, ctx @ bs)), sha256_finalise = (\<lambda>ctx. (0, example_hash ctx)), platform_crypto_success = (\<lambda>r. r = 0)\<rparr>"

lemma example_sha_ok: "sha_ok example_sha example_hash"
  unfolding sha_ok_def absorbs_def by (auto simp: example_sha_def example_hash_def SHA256_DIGEST_LEN_BYTES_def intro!: exI [of _ "\<lambda>ctx. ctx"])

definition answer_nc :: "(token list, token list \<times> nat option) nanocbor" where
  "answer_nc = ref_nanocbor\<lparr>decoder_init := \<lambda>_. ([TArray 2, TBstr [7], TUint 3], None)\<rparr>"

lemma answer_nc_ok: "nanocbor_ok (\<lambda>en. en) (\<lambda>de. de) answer_nc" "top_end_law (\<lambda>de. de) answer_nc"
  using ref_nanocbor_ok unfolding nanocbor_ok_def array_law_def map_law_def
  by (simp_all add: answer_nc_def top_end_law_def) (simp add: ref_nanocbor_def)

definition example_cr_env ::
  "(edge_resource_tm_basic, edge_capability_tm_basic, unit, token list, token list \<times> nat option, u8 list) cr_env" where
  "example_cr_env = \<lparr>cr_ct = ref_contiki, cr_nc = answer_nc, cr_kc = example_config, cr_sha = example_sha,
     tm_update = tm_update_challenge_response_basic ref_contiki, clock_second = 128\<rparr>"

definition cr_edges0 :: "(edge_resource_tm_basic, edge_capability_tm_basic) edge_info" where
  "cr_edges0 = upd_cap 0 (\<lambda>r. r\<lparr>cap_name := ''cr''\<rparr>) example_edges"

definition no_answer :: challenge_response where
  "no_answer = \<lparr>data_prefix = [], data_length = 0, duration_secs = 0\<rparr>"

definition example_challenger :: edge_challenger where
  "example_challenger = \<lparr>c_edge = 0, ch = \<lparr>ch_data = replicate 32 5, difficulty = 2, max_duration_secs = 40\<rparr>, generated = 100, received = 0\<rparr>"

definition example_cr :: "(edge_resource_tm_basic, edge_capability_tm_basic, unit) cr_node" where
  "example_cr = \<lparr>cr_app = \<lparr>app_name = ''cr'', app_uri = ''cr'', running = True, out_time = 0, out_len = 0, in_time = 0, in_len = 0\<rparr>,
     challengers_memb = {0}, challengers = [0], chal_mem = (\<lambda>c. example_challenger\<lparr>c_edge := c\<rparr>), next_challenge = Some 0, challenge_timer = Some 15360,
     challenge_response_timer = None, cr_lock = \<lparr>locked = False, lname = [], timer = None, duration = 0, owner = 0\<rparr>,
     cr_ep = \<lparr>ipaddr = [9], secure = 0, port = 5683\<rparr>, cr_edges = cr_edges0, cr_keystore = example_store, cr_sent = [], cr_connects = []\<rparr>"

lemma example_cr_find: "edge_info_find_addr (cr_edges example_cr) (replicate 16 1) = Some 0" "find_edge_challenger example_cr 0 = Some 0"
    "solves example_hash (ch (chal_mem example_cr 0)) [7]"
  by (simp_all add: example_cr_def cr_edges0_def upd_cap_def example_edges_def one_edge_info_def edge_info_find_addr_def find_edge_challenger_def
      solves_def SIZEOF_DATA_PREFIX_def SHA256_DIGEST_LEN_BYTES_def example_challenger_def example_hash_def)


definition three_periods :: "period list" where
  "three_periods = [(True, 7, (True, replicate 32 1), True, 1), (False, 8, (True, replicate 32 2), True, 1), (True, 9, (True, replicate 32 3), False, 1)]"

text \<open>The lock stays closed before the second of three periods: the challenge of the third is for the second challenger.\<close>

theorem challenges_in_turn_witness:
  "\<exists>s'. cr_rounds example_cr_env three_periods (example_cr\<lparr>challengers := [1, 0]\<rparr>) = Some s' \<and>
    cr_sent s' = map (challenge_sent example_cr_env (example_cr\<lparr>challengers := [1, 0]\<rparr>)) [(0, replicate 32 1), (1, replicate 32 3)]"
proof -
  define s where "s = example_cr\<lparr>challengers := [1, 0]\<rparr>"
  have s: "challengers s = [1, 0]" "next_challenge s = Some (challengers s ! 1)" "\<not> timed_unlock_is_locked (cr_lock s)" "cr_sent s = []"
    by (simp_all add: s_def example_cr_def timed_unlock_is_locked_def)
  have xs: "\<forall>(opened, now, random, linked, sent)\<in>set three_periods. fst random \<and> challenge_fits example_cr_env (snd random)"
    by code_simp
  have i: "1 < length (challengers s)" "distinct (challengers s)" by (simp_all add: s(1))
  have "turns (length (challengers s)) (timed_unlock_is_locked (cr_lock s)) 1 three_periods = [(0, replicate 32 1), (1, replicate 32 3)]"
    by (simp add: s(1,3) three_periods_def Let_def del: replicate.simps)
  from challenges_in_turn [OF i(2) s(2) i(1) xs this [symmetric]] show ?thesis unfolding s_def [symmetric] s(4) by auto
qed

text \<open>A solution in time, one that comes too late, and a message from an unknown address.\<close>

theorem challenge_answer_sound_witness:
  "cr_edges (res_coap_cr_post_handler example_cr_env 500 (replicate 16 1) [1] no_answer example_cr) = cr_edges0 \<or>
    (\<exists>late p. cr_edges (res_coap_cr_post_handler example_cr_env 500 (replicate 16 1) [1] no_answer example_cr) =
       tm_update_challenge_response_basic ref_contiki 0 (TM_CHALLENGE_RESPONSE_RESP (solves example_hash (ch example_challenger) p) late) cr_edges0) \<or>
    cr_edges (res_coap_cr_post_handler example_cr_env 500 (replicate 16 1) [1] no_answer example_cr) =
       tm_update_challenge_response_basic ref_contiki 0 (TM_CHALLENGE_RESPONSE_RESP False False) cr_edges0"
proof -
  have e: "sha_ok (cr_sha example_cr_env) example_hash" "nanocbor_ok (\<lambda>en. en) (\<lambda>de. de) (cr_nc example_cr_env)"
    using example_sha_ok answer_nc_ok by (simp_all add: example_cr_env_def)
  have f: "tm_update example_cr_env = tm_update_challenge_response_basic ref_contiki" "cr_edges example_cr = cr_edges0" "ch (chal_mem example_cr 0) = ch example_challenger"
    by (simp_all add: example_cr_env_def example_cr_def)
  show ?thesis
    using challenge_answer_sound [OF e, of 500 "replicate 16 1" "[1]" no_answer example_cr] example_cr_find
    by (auto simp only: f option.inject) blast
qed

theorem challenge_answer_accepted_witness:
  "cr_edges (res_coap_cr_post_handler example_cr_env 500 (replicate 16 1) [1] no_answer example_cr) =
     tm_update_challenge_response_basic ref_contiki 0 (TM_CHALLENGE_RESPONSE_RESP True False) cr_edges0"
proof -
  have e: "sha_ok (cr_sha example_cr_env) example_hash" "nanocbor_ok (\<lambda>en. en) (\<lambda>de. de) (cr_nc example_cr_env)" "top_end_law (\<lambda>de. de) (cr_nc example_cr_env)"
    using example_sha_ok answer_nc_ok by (simp_all add: example_cr_env_def)
  have f: "tm_update example_cr_env = tm_update_challenge_response_basic ref_contiki" "cr_edges example_cr = cr_edges0" "clock_second example_cr_env = 128"
    "generated (chal_mem example_cr 0) = 100" "max_duration_secs (ch (chal_mem example_cr 0)) = 40"
    by (simp_all add: example_cr_env_def example_cr_def example_challenger_def)
  have d: "decoder_init (cr_nc example_cr_env) [1] = ([TArray 2, TBstr [7], TUint (unat (3 :: u32))], None)" by (simp add: example_cr_env_def answer_nc_def)
  have "length [7 :: u8] \<le> SIZEOF_DATA_PREFIX" by (simp add: SIZEOF_DATA_PREFIX_def)
  from challenge_answer_accepted [OF e example_cr_find(1,2) this d, of 500 no_answer] show ?thesis by (simp add: f example_cr_find(3))
qed

text \<open>The trust model leaves the addresses alone.\<close>

lemma basic_update_address: "edge_info_find_addr (tm_update_challenge_response_basic CT edge info es) src = edge_info_find_addr es src"
  by (simp add: tm_update_challenge_response_basic_def tm_update_result_quality_basic_def upd_cap_tm_def upd_cap_def edge_info_find_addr_def split_def Let_def split: option.split)

theorem challenge_answer_counted_again_witness:
  "cr_edges (res_coap_cr_post_handler example_cr_env 600 (replicate 16 1) [1] no_answer (res_coap_cr_post_handler example_cr_env 500 (replicate 16 1) [1] no_answer example_cr)) =
     tm_update_challenge_response_basic ref_contiki 0 (TM_CHALLENGE_RESPONSE_RESP True False)
       (tm_update_challenge_response_basic ref_contiki 0 (TM_CHALLENGE_RESPONSE_RESP True False) cr_edges0)"
proof -
  have e: "sha_ok (cr_sha example_cr_env) example_hash" "nanocbor_ok (\<lambda>en. en) (\<lambda>de. de) (cr_nc example_cr_env)" "top_end_law (\<lambda>de. de) (cr_nc example_cr_env)"
    using example_sha_ok answer_nc_ok by (simp_all add: example_cr_env_def)
  have f: "tm_update example_cr_env = tm_update_challenge_response_basic ref_contiki" "cr_edges example_cr = cr_edges0" "clock_second example_cr_env = 128"
    "generated (chal_mem example_cr 0) = 100" "max_duration_secs (ch (chal_mem example_cr 0)) = 40"
    by (simp_all add: example_cr_env_def example_cr_def example_challenger_def)
  have d: "decoder_init (cr_nc example_cr_env) [1] = ([TArray 2, TBstr [7], TUint (unat (3 :: u32))], None)" by (simp add: example_cr_env_def answer_nc_def)
  have a: "edge_info_find_addr (tm_update example_cr_env 0 (TM_CHALLENGE_RESPONSE_RESP True False) (cr_edges example_cr)) (replicate 16 1) = Some 0"
    using example_cr_find(1) by (simp add: f basic_update_address)
  have t: "500 - generated (chal_mem example_cr 0) \<le> max_duration_secs (ch (chal_mem example_cr 0)) * clock_second example_cr_env"
    "600 - generated (chal_mem example_cr 0) \<le> max_duration_secs (ch (chal_mem example_cr 0)) * clock_second example_cr_env"
    by (simp_all add: f)
  from challenge_answer_counted_again [OF e example_cr_find d t a, of no_answer] show ?thesis by (simp only: f)
qed

theorem removed_edge_blamed_witness:
  "\<exists>s1 s2 late. challengers s1 = [] \<and> challenge_response_process example_cr_env (Send_Callback 0 69) s1 = Some s2 \<and>
     map_option cr_edges (challenge_response_process example_cr_env Response_Timer s2) =
       Some (tm_update_challenge_response_basic ref_contiki 0 (TM_CHALLENGE_RESPONSE_TIMEOUT True late) cr_edges0)"
proof -
  have c: "contiki_ok (cr_ct example_cr_env)" "req_response (cr_ct example_cr_env) = 0" "coap_content (cr_ct example_cr_env) = 69"
    "tm_update example_cr_env = tm_update_challenge_response_basic ref_contiki" by (simp_all add: example_cr_env_def) (simp_all add: ref_contiki_def)
  have ne: "replicate 16 (1 :: u8) \<noteq> [9]" by (simp add: numeral_eq_Suc)
  have s: "challengers example_cr = [0]" "next_challenge example_cr = Some 0" "0 \<in> challengers_memb example_cr" "0 < NUM_EDGE_RESOURCES"
    "generated (chal_mem example_cr 0) \<noteq> 0" "received (chal_mem example_cr 0) \<le> generated (chal_mem example_cr 0)"
    "edge_info_find_addr cr_edges0 (ipaddr (cr_ep example_cr)) = None" "c_edge (chal_mem example_cr 0) = 0"
    by (simp_all add: example_cr_def example_challenger_def NUM_EDGE_RESOURCES_def cr_edges0_def upd_cap_def example_edges_def one_edge_info_def edge_info_find_addr_def ne)
  from removed_edge_blamed [OF c(1) s(1-7) refl] show ?thesis unfolding c(2-4) s(8) by blast
qed

end
