(* ===== verification/Routing.thy ===== *)
theory Routing
  imports Edge_Capability Trust_Exchange
begin

text \<open>
  \<open>src/wsn/applications/routing/node/routing.c\<close>: the application that has routes computed by an edge.  A task is entered on the serial line, sent to the edge the chooser names, acknowledged, answered
  first by a status and then by the route in blocks, of which the node checks the first and the last point.  The chooser and the functions of the trust model are arguments, and so are the functions of the
  C library and of Contiki-NG that read numbers: \<open>strtof\<close> gives the value and the rest of the text, \<open>remaining\<close> reads the field of that name of a reader of NanoCBOR.  The time, the results of radio
  requests and the options of a request are inputs.  \<open>coord0\<close> of a request is what the uninitialised local variables of the handler hold.  The result \<open>None\<close> is a float that does not fit its conversion.
  Log output is left out.
\<close>

definition ROUTING_APPLICATION_NAME :: string where "ROUTING_APPLICATION_NAME = ''routing''"

definition ROUTING_SUBMIT_TASK :: string where "ROUTING_SUBMIT_TASK = ''submit-task:route-req:''"

definition ROUTING_SUCCESS :: u32 where "ROUTING_SUCCESS = 0"

definition ROUTING_PARSING_ERROR :: u32 where "ROUTING_PARSING_ERROR = 4"

definition RT_MSG_BUF_LEN :: nat where "RT_MSG_BUF_LEN = 1 + (1 + 4) + (1 + (1 + 4) * 2) * 2"

record coordinate =
  latitude :: cfloat
  longitude :: cfloat

record ('e, 'c, 'k, 'en, 'de) rt_env =
  rt_ct :: contiki
  rt_nc :: "('en, 'de) nanocbor"
  rt_fmt :: ffmt
  rt_kc :: "'k ks_config"
  remaining :: "'de \<Rightarrow> u32"
  strtof :: "string \<Rightarrow> cfloat \<times> string"
  choose_edge :: "('e, 'c) edge_info \<Rightarrow> string \<Rightarrow> addr option"
  tm_update_task_submission :: "addr \<Rightarrow> addr \<Rightarrow> tm_task_submission_info \<Rightarrow> ('e, 'c) edge_info \<Rightarrow> ('e, 'c) edge_info"
  tm_update_task_result :: "addr \<Rightarrow> addr \<Rightarrow> tm_task_result_info \<Rightarrow> ('e, 'c) edge_info \<Rightarrow> ('e, 'c) edge_info"
  tm_update_result_quality :: "addr \<Rightarrow> addr \<Rightarrow> tm_result_quality_info \<Rightarrow> ('e, 'c) edge_info \<Rightarrow> ('e, 'c) edge_info"
  tm_update_throughput :: "addr \<Rightarrow> addr \<Rightarrow> tm_throughput_info \<Rightarrow> ('e, 'c) edge_info \<Rightarrow> ('e, 'c) edge_info"
  APPLICATIONS_MONITOR_THROUGHPUT :: bool
  rt_clock_second :: u32

record ('e, 'c, 'k) rt_node =
  rt_app :: app_state
  rt_ep :: coap_endpoint
  rt_coap_in_use :: timed_unlock
  task_in_use :: timed_unlock
  task_src :: coordinate
  task_dest :: coordinate
  first_src_isclose :: bool
  rt_edges :: "('e, 'c) edge_info"
  rt_keystore :: "'k keystore"
  rt_sent :: "(coap_endpoint \<times> u8 list) list"
  rt_connects :: "coap_endpoint list"

text \<open>A request: its sender, payload, the number and the more flag of its block option, and the results of the two functions of Contiki-NG on that option.\<close>

record rt_request =
  src_addr :: ipaddr
  rt_payload :: "u8 list"
  block1 :: "(u32 \<times> bool) option"
  block1_header :: bool
  block1_handler :: int
  coord0 :: coordinate

subsection \<open>Messages\<close>

definition generate_routing_request :: "('en, 'de) nanocbor \<Rightarrow> u32 \<Rightarrow> nat \<Rightarrow> coordinate \<Rightarrow> coordinate \<Rightarrow> int \<times> u8 list" where
  "generate_routing_request NC time_secs buf_len source destination =
     (let (r, enc) = checks
            [\<lambda>en. fmt_array NC en 3, \<lambda>en. fmt_uint NC en (unat time_secs),
             \<lambda>en. fmt_array NC en 2, \<lambda>en. fmt_float NC en (latitude source), \<lambda>en. fmt_float NC en (longitude source),
             \<lambda>en. fmt_array NC en 2, \<lambda>en. fmt_float NC en (latitude destination), \<lambda>en. fmt_float NC en (longitude destination)]
            (encoder_init NC buf_len)
      in (if r < 0 then r else int (encoded_len NC enc), enc_buffer NC enc))"

definition nanocbor_get_coordinate :: "('en, 'de) nanocbor \<Rightarrow> 'de \<times> coordinate \<Rightarrow> int \<times> 'de \<times> coordinate" where
  "nanocbor_get_coordinate NC = (\<lambda>(dec, coord).
     let (r, arr) = enter_array NC dec in
     if r < 0 then (r, dec, coord)
     else let (r, arr, coord) = checks
            [into (get_float NC) (\<lambda>x c. c\<lparr>latitude := x\<rparr>), into (get_float NC) (\<lambda>x c. c\<lparr>longitude := x\<rparr>)] (arr, coord) in
       if r < 0 then (r, dec, coord)
       else if \<not> at_end NC arr then (- 1, dec, coord)
       else (0, leave_container NC dec arr, coord))"

fun skip_times :: "('en, 'de) nanocbor \<Rightarrow> nat \<Rightarrow> 'de \<Rightarrow> int \<times> 'de" where
  "skip_times NC 0 arr = (0, arr)"
| "skip_times NC (Suc n) arr = (let (r, arr) = skip NC arr in if r < 0 then (r, arr) else skip_times NC n arr)"

text \<open>The first point (\<open>pos = 1\<close>) or the last one of a block; the code ignores the result.\<close>

definition nanocbor_get_coordinate_from_payload ::
  "('en, 'de) nanocbor \<Rightarrow> ('de \<Rightarrow> u32) \<Rightarrow> 'de \<Rightarrow> coordinate \<Rightarrow> bool \<Rightarrow> int \<times> coordinate" where
  "nanocbor_get_coordinate_from_payload NC rem dec coord first =
     (let (r, arr) = enter_array NC dec in
      if r < 0 then (r, coord)
      else if at_end NC arr then (- 1, coord)
      else let (r, arr) = (if first then (0, arr) else skip_times NC (unat (rem arr - 1)) arr) in
        if r < 0 then (r, coord)
        else let (r, _, coord) = nanocbor_get_coordinate NC (arr, coord) in (min 0 r, coord))"

subsection \<open>Submitting a task\<close>

text \<open>\<open>parse_input\<close> writes the coordinates it has read even when it fails; the result has all that is written.\<close>

definition parse_number :: "('e, 'c, 'k, 'en, 'de) rt_env \<Rightarrow> char \<Rightarrow> string \<Rightarrow> cfloat \<times> string option" where
  "parse_number E sep data =
     (let (x, rest) = strtof E data
      in (x, if rest \<noteq> [] \<and> hd rest = sep \<and> 1 < length rest then Some (tl rest) else None))"

definition parse_input ::
  "('e, 'c, 'k, 'en, 'de) rt_env \<Rightarrow> string \<Rightarrow> coordinate \<times> coordinate \<Rightarrow> bool \<times> coordinate \<times> coordinate" where
  "parse_input E data = (\<lambda>(source, destination).
     if \<not> match_action data ''@'' then (False, source, destination)
     else let data = drop 1 data in
     if \<not> match_action data ROUTING_SUBMIT_TASK then (False, source, destination)
     else let data = drop (length ROUTING_SUBMIT_TASK) data; (x, rest) = parse_number E (CHR '','') data; source = source\<lparr>latitude := x\<rparr> in
     case rest of None \<Rightarrow> (False, source, destination)
     | Some data \<Rightarrow> let (x, rest) = parse_number E (CHR '':'') data; source = source\<lparr>longitude := x\<rparr> in
     case rest of None \<Rightarrow> (False, source, destination)
     | Some data \<Rightarrow> let (x, rest) = parse_number E (CHR '','') data; destination = destination\<lparr>latitude := x\<rparr> in
     case rest of None \<Rightarrow> (False, source, destination)
     | Some data \<Rightarrow> let (x, rest) = strtof E data; destination = destination\<lparr>longitude := x\<rparr> in
       (rest = [] \<and> data \<noteq> [], source, destination))"

definition event_triggered_action ::
  "('e, 'c, 'k, 'en, 'de) rt_env \<Rightarrow> nat \<Rightarrow> u32 \<Rightarrow> bool \<Rightarrow> int \<Rightarrow> string \<Rightarrow> ('e, 'c, 'k) rt_node \<Rightarrow> ('e, 'c, 'k) rt_node" where
  "event_triggered_action E now secs linked sent data s =
     (if timed_unlock_is_locked (rt_coap_in_use s) then s
      else if timed_unlock_is_locked (task_in_use s) then s
      else let (ok, source, destination) = parse_input E data (task_src s, task_dest s);
               s = s\<lparr>task_src := source, task_dest := destination\<rparr>
      in if \<not> ok then s
         else if \<not> running (rt_app s) then s
         else let (len, msg_buf) = generate_routing_request (rt_nc E) secs RT_MSG_BUF_LEN (task_src s) (task_dest s)
           in if len \<le> 0 \<or> int RT_MSG_BUF_LEN < len then s
              else case choose_edge E (rt_edges s) ROUTING_APPLICATION_NAME of
                None \<Rightarrow> s
              | Some edge \<Rightarrow>
                  let p = ep (edge_mem (rt_edges s) edge);
                      s = s\<lparr>rt_ep := p\<rparr>;
                      s = (if linked then s else s\<lparr>rt_connects := rt_connects s @ [p]\<rparr>)
                  in if sent \<noteq> 0
                     then s\<lparr>rt_sent := rt_sent s @ [(p, take (nat len) msg_buf)], task_in_use := timed_unlock_lock now (task_in_use s),
                            rt_coap_in_use := timed_unlock_lock now (rt_coap_in_use s),
                            rt_app := app_state_throughput_start_out (word_of_nat now) (word_of_int len) (rt_app s)\<rparr>
                     else s)"

text \<open>The edge with an address and its capability, if both are still there.\<close>

definition edge_and_capability :: "('e, 'c, 'k) rt_node \<Rightarrow> ipaddr \<Rightarrow> (addr \<times> addr) option" where
  "edge_and_capability s a =
     (case edge_info_find_addr (rt_edges s) a of
        None \<Rightarrow> None
      | Some edge \<Rightarrow> map_option (Pair edge) (edge_info_capability_find (rt_edges s) (Some edge) ROUTING_APPLICATION_NAME))"

definition tell_throughput ::
  "('e, 'c, 'k, 'en, 'de) rt_env \<Rightarrow> addr \<times> addr \<Rightarrow> tm_throughput_direction \<Rightarrow> u32 option \<Rightarrow> ('e, 'c, 'k) rt_node \<Rightarrow> ('e, 'c, 'k) rt_node option" where
  "tell_throughput E ec dir bytes s =
     (if \<not> APPLICATIONS_MONITOR_THROUGHPUT E then Some s
      else case bytes of
        None \<Rightarrow> None
      | Some v \<Rightarrow> Some (s\<lparr>rt_edges := tm_update_throughput E (fst ec) (snd ec) \<lparr>direction = dir, throughput = v\<rparr> (rt_edges s)\<rparr>))"

definition rt_send_callback ::
  "('e, 'c, 'k, 'en, 'de) rt_env \<Rightarrow> nat \<Rightarrow> nat \<Rightarrow> nat \<Rightarrow> ('e, 'c, 'k) rt_node \<Rightarrow> ('e, 'c, 'k) rt_node option" where
  "rt_send_callback E now status code s =
     (let s = (if status = req_response (rt_ct E)
               then (if code = coap_content (rt_ct E) then s else s\<lparr>task_in_use := timed_unlock_unlock (task_in_use s)\<rparr>)
               else if status = req_finished (rt_ct E) then s\<lparr>rt_coap_in_use := timed_unlock_unlock (rt_coap_in_use s)\<rparr>
               else s\<lparr>rt_coap_in_use := timed_unlock_unlock (rt_coap_in_use s), task_in_use := timed_unlock_unlock (task_in_use s)\<rparr>);
          info = \<lparr>coap_status = (if status = req_response (rt_ct E) then code else 0), coap_request_status = status\<rparr>
      in case edge_and_capability s (ipaddr (rt_ep s)) of
           None \<Rightarrow> Some s
         | Some (edge, cap) \<Rightarrow>
             tell_throughput E (edge, cap) TM_THROUGHPUT_OUT (app_state_throughput_end_out (rt_fmt E) (rt_clock_second E) (word_of_nat now) (rt_app s))
               (s\<lparr>rt_edges := tm_update_task_submission E edge cap info (rt_edges s)\<rparr>))"

subsection \<open>The answer\<close>

definition routing_response_process_status ::
  "('e, 'c, 'k, 'en, 'de) rt_env \<Rightarrow> nat \<Rightarrow> rt_request \<Rightarrow> ('e, 'c, 'k) rt_node \<Rightarrow> ('e, 'c, 'k) rt_node" where
  "routing_response_process_status E now req s =
     (let (r, status, _) = get_uint32 (rt_nc E) (decoder_init (rt_nc E) (rt_payload req));
          status = (if r < 0 then ROUTING_PARSING_ERROR else status)
      in case edge_and_capability s (src_addr req) of
           None \<Rightarrow> s
         | Some (edge, cap) \<Rightarrow>
             let s = s\<lparr>rt_edges := tm_update_task_result E edge cap
                        (if status = ROUTING_SUCCESS then TM_TASK_RESULT_INFO_SUCCESS else TM_TASK_RESULT_INFO_FAIL) (rt_edges s)\<rparr>
             in if APPLICATIONS_MONITOR_THROUGHPUT E
                then s\<lparr>rt_app := app_state_throughput_start_in (word_of_nat now) (word_of_nat (length (rt_payload req))) (rt_app s)\<rparr>
                else s)"

definition routing_process_task_timeout ::
  "('e, 'c, 'k, 'en, 'de) rt_env \<Rightarrow> ('e, 'c, 'k) rt_node \<Rightarrow> ('e, 'c, 'k) rt_node" where
  "routing_process_task_timeout E s =
     (case edge_and_capability s (ipaddr (rt_ep s)) of
        None \<Rightarrow> s
      | Some (edge, cap) \<Rightarrow> s\<lparr>rt_edges := tm_update_task_result E edge cap TM_TASK_RESULT_INFO_TIMEOUT (rt_edges s)\<rparr>)"

definition routing_process_task_result ::
  "('e, 'c, 'k, 'en, 'de) rt_env \<Rightarrow> nat \<Rightarrow> rt_request \<Rightarrow> bool \<Rightarrow> ('e, 'c, 'k) rt_node \<Rightarrow> ('e, 'c, 'k) rt_node option" where
  "routing_process_task_result E now req good s =
     (case edge_and_capability s (src_addr req) of
        None \<Rightarrow> Some s
      | Some (edge, cap) \<Rightarrow>
          tell_throughput E (edge, cap) TM_THROUGHPUT_IN (app_state_throughput_end_in (rt_fmt E) (rt_clock_second E) (word_of_nat now) (rt_app s))
            (s\<lparr>rt_edges := tm_update_result_quality E edge cap \<lparr>quality_good = good\<rparr> (rt_edges s)\<rparr>))"

definition close_to :: "('e, 'c, 'k, 'en, 'de) rt_env \<Rightarrow> coordinate \<Rightarrow> coordinate \<Rightarrow> bool" where
  "close_to E a b \<longleftrightarrow> isclose (rt_fmt E) (latitude a) (latitude b) \<and> isclose (rt_fmt E) (longitude a) (longitude b)"

definition point_of :: "('e, 'c, 'k, 'en, 'de) rt_env \<Rightarrow> rt_request \<Rightarrow> bool \<Rightarrow> coordinate" where
  "point_of E req first = snd (nanocbor_get_coordinate_from_payload (rt_nc E) (remaining E) (decoder_init (rt_nc E) (rt_payload req)) (coord0 req) first)"

text \<open>The result says whether the sender is told that the message was not wanted.\<close>

definition res_coap_routing_post_handler ::
  "('e, 'c, 'k, 'en, 'de) rt_env \<Rightarrow> nat \<Rightarrow> rt_request \<Rightarrow> ('e, 'c, 'k) rt_node \<Rightarrow> (bool \<times> ('e, 'c, 'k) rt_node) option" where
  "res_coap_routing_post_handler E now req s =
     (if \<not> timed_unlock_is_locked (task_in_use s) then Some (True, s)
      else let s = s\<lparr>task_in_use := timed_unlock_restart_timer now (task_in_use s)\<rparr> in
      case block1 req of
        None \<Rightarrow> Some (False, routing_response_process_status E now req s)
      | Some (num, more_blocks) \<Rightarrow>
          if \<not> block1_header req then Some (False, s)
          else if block1_handler req < 0 then Some (False, s)
          else let s = (if APPLICATIONS_MONITOR_THROUGHPUT E then s\<lparr>rt_app := app_state_throughput_update_in (word_of_nat (length (rt_payload req))) (rt_app s)\<rparr> else s);
                   s = (if num = 0 then s\<lparr>first_src_isclose := close_to E (point_of E req True) (task_src s)\<rparr> else s)
            in if more_blocks then Some (False, s)
               else case routing_process_task_result E now req (first_src_isclose s \<and> close_to E (point_of E req False) (task_dest s)) s of
                 None \<Rightarrow> None
               | Some s \<Rightarrow> Some (False, s\<lparr>task_in_use := timed_unlock_unlock (task_in_use s)\<rparr>))"

subsection \<open>The process\<close>

definition rt_init :: "('e, 'c, 'k, 'en, 'de) rt_env \<Rightarrow> nat \<Rightarrow> ('e, 'c, 'k) rt_node \<Rightarrow> ('e, 'c, 'k) rt_node" where
  "rt_init E current s =
     s\<lparr>rt_app := app_state_init ROUTING_APPLICATION_NAME ''routing'' (rt_app s),
       rt_coap_in_use := timed_unlock_init (rt_coap_in_use s) ''routing-coap'' (1 * 60 * unat (rt_clock_second E)) current,
       task_in_use := timed_unlock_init (task_in_use s) ''routing-task'' (2 * 60 * unat (rt_clock_second E)) current\<rparr>"

text \<open>
  The events of the process and of its callbacks.  When the timer of the lock on the task fires, the lock opens at once and an event for the process is queued, which it gets as
  \<open>Task_Timeout\<close>; other events may come in between.
\<close>

datatype rt_event =
    Submit nat u32 bool int string
  | Rt_Capability_Add nat bool addr
  | Rt_Capability_Remove addr
  | Rt_Callback nat nat nat
  | Rt_Answer nat rt_request
  | Task_Timer
  | Coap_Timer
  | Task_Timeout

definition routing_process ::
  "('e, 'c, 'k, 'en, 'de) rt_env \<Rightarrow> rt_event \<Rightarrow> ('e, 'c, 'k) rt_node \<Rightarrow> ('e, 'c, 'k) rt_node option" where
  "routing_process E ev s =
     (case ev of
        Submit now secs linked sent data \<Rightarrow> Some (event_triggered_action E now secs linked sent data s)
      | Rt_Capability_Add now sent edge \<Rightarrow>
          let (_, st, ks) = app_state_edge_capability_add (rt_kc E) now sent (rt_edges s) edge (rt_app s, rt_keystore s)
          in Some (s\<lparr>rt_app := st, rt_keystore := ks\<rparr>)
      | Rt_Capability_Remove edge \<Rightarrow> Some (s\<lparr>rt_app := snd (app_state_edge_capability_remove (rt_edges s) edge (rt_app s))\<rparr>)
      | Rt_Callback now status code \<Rightarrow> rt_send_callback E now status code s
      | Rt_Answer now req \<Rightarrow> map_option snd (res_coap_routing_post_handler E now req s)
      | Task_Timer \<Rightarrow> Some (s\<lparr>task_in_use := fst (timed_unlock_callack (task_in_use s))\<rparr>)
      | Coap_Timer \<Rightarrow> Some (s\<lparr>rt_coap_in_use := fst (timed_unlock_callack (rt_coap_in_use s))\<rparr>)
      | Task_Timeout \<Rightarrow> Some (routing_process_task_timeout E s))"


subsection \<open>The points of a route\<close>

text \<open>What NanoCBOR documents of the field: the number of items left in a container of known length.\<close>

definition remaining_law :: "'de view \<Rightarrow> ('de \<Rightarrow> u32) \<Rightarrow> bool" where
  "remaining_law view rem \<longleftrightarrow> (\<forall>de ts n. view de = (ts, Some n) \<longrightarrow> n < 2 ^ 32 \<longrightarrow> unat (rem de) = n)"

text \<open>A skip does not fail on an item that is there, unless it is nested too deeply; a point is not.\<close>

definition skips_points :: "'de view \<Rightarrow> ('en, 'de) nanocbor \<Rightarrow> bool" where
  "skips_points view NC \<longleftrightarrow>
     (\<forall>de x y ts n. view de = (TArray 2 # TFloat x # TFloat y # ts, Some (Suc n)) \<longrightarrow> 0 \<le> fst (skip NC de))"

definition point_tokens :: "coordinate \<Rightarrow> token list" where
  "point_tokens c = [TArray 2, TFloat (latitude c), TFloat (longitude c)]"

definition route_tokens :: "coordinate list \<Rightarrow> token list" where
  "route_tokens cs = TArray (length cs) # concat (map point_tokens cs)"

lemma skip_point:
  assumes "nanocbor_ok written view NC" "skips_points view NC" "view de = (point_tokens c @ ts, Some (Suc n))"
  shows "\<exists>r de'. skip NC de = (r, de') \<and> 0 \<le> r \<and> view de' = (ts, Some n)"
proof -
  obtain r de' where s: "skip NC de = (r, de')" by fastforce
  have r: "0 \<le> r" using assms(2,3) s unfolding skips_points_def point_tokens_def by fastforce
  have map: "map_law view NC" using assms(1) by (simp add: nanocbor_ok_def)
  have "\<forall>de. case skip NC de of (r, de') \<Rightarrow> 0 \<le> r \<longrightarrow>
      has_more (snd (view de)) \<and> skip_items 1 (fst (view de)) = Some (fst (view de')) \<and> snd (view de') = pass (snd (view de))"
    using map [unfolded map_law_def] by (rule conjunct2)
  then have "skip_items 1 (fst (view de)) = Some (fst (view de')) \<and> snd (view de') = pass (snd (view de))"
    using s r by (auto dest!: spec [of _ de])
  then have "view de' = (ts, Some n)" using assms(3) by (cases "view de'") (simp add: point_tokens_def pass_def numeral_eq_Suc)
  then show ?thesis using s r by blast
qed

lemma skip_points:
  assumes "nanocbor_ok written view NC" "skips_points view NC" "view de = (concat (map point_tokens cs) @ ts, Some (length cs + n))"
  shows "\<exists>r de'. skip_times NC (length cs) de = (r, de') \<and> 0 \<le> r \<and> view de' = (ts, Some n)"
  using assms(3)
proof (induction cs arbitrary: de)
  case (Cons c cs)
  then have "view de = (point_tokens c @ (concat (map point_tokens cs) @ ts), Some (Suc (length cs + n)))" by simp
  from skip_point [OF assms(1,2) this] obtain r de' where s: "skip NC de = (r, de')" "0 \<le> r" "view de' = (concat (map point_tokens cs) @ ts, Some (length cs + n))"
    by blast
  from Cons.IH [OF s(3)] show ?case using s by simp
qed simp

lemma get_point:
  assumes "nanocbor_ok written view NC" "view de = (point_tokens c @ ts, left)" "has_more left"
  shows "\<exists>de'. nanocbor_get_coordinate NC (de, coord) = (0, de', c)"
proof -
  have laws: "array_law view NC" "get_law view (get_float NC) float_val" using assms(1) by (simp_all add: nanocbor_ok_def)
  obtain r a where e: "enter_array NC de = (r, a)" by fastforce
  have a: "0 \<le> r" "view a = (TFloat (latitude c) # TFloat (longitude c) # ts, Some 2)"
    using laws(1) assms(2,3) e unfolding array_law_def by (auto simp: point_tokens_def dest!: spec [of _ de])
  obtain r1 a1 where f1: "get_float NC a = (r1, latitude c, a1)" "0 \<le> r1" "view a1 = (TFloat (longitude c) # ts, Some 1)"
    using get_tok [OF laws(2) a(2)] by (auto simp: has_more_def pass_def)
  obtain r2 a2 where f2: "get_float NC a1 = (r2, longitude c, a2)" "0 \<le> r2" "view a2 = (ts, Some 0)"
    using get_tok [OF laws(2) f1(3)] by (auto simp: has_more_def pass_def)
  have "at_end NC a2" using laws(1) f2(3) by (auto simp: array_law_def)
  then show ?thesis
    using e a(1) f1(1,2) f2(1,2) by (simp add: nanocbor_get_coordinate_def into_def)
qed

lemma point_of_route:
  assumes "nanocbor_ok written view NC" "skips_points view NC" "remaining_law view rem" "view de = (route_tokens cs @ ts, None)" "cs \<noteq> []" "length cs < 2 ^ 32"
  shows "nanocbor_get_coordinate_from_payload NC rem de coord True = (0, hd cs) \<and> nanocbor_get_coordinate_from_payload NC rem de coord False = (0, last cs)"
proof -
  have arr: "array_law view NC" using assms(1) by (simp add: nanocbor_ok_def)
  obtain c cs' where cs: "cs = c # cs'" using assms(5) by (cases cs) auto
  obtain r a where e: "enter_array NC de = (r, a)" by fastforce
  have a: "0 \<le> r" "view a = (concat (map point_tokens cs) @ ts, Some (length cs))"
    using arr assms(4) e unfolding array_law_def by (auto simp: route_tokens_def has_more_def dest!: spec [of _ de])
  have ne: "\<not> at_end NC a" using arr a(2) cs by (auto simp: array_law_def point_tokens_def)
  have "has_more (Some (length cs))" using assms(5) by (simp add: has_more_def)
  then obtain d1 where first: "nanocbor_get_coordinate NC (a, coord) = (0, d1, c)"
    using get_point [OF assms(1), of a c "concat (map point_tokens cs') @ ts" "Some (length cs)"] a(2) cs by auto
  define l where "l = last cs"
  have split: "cs = butlast cs @ [l]" using assms(5) by (simp add: l_def)
  have len: "length cs = length (butlast cs) + 1" using assms(5) by simp
  have "unat (rem a) = length cs" using assms(3) [unfolded remaining_law_def] a(2) assms(6) by blast
  moreover have "rem a \<noteq> 0" using calculation assms(5) by auto
  ultimately have rem: "unat (rem a - 1) = length (butlast cs)" by (simp add: unat_minus_one)
  have "view a = (concat (map point_tokens (butlast cs)) @ (point_tokens l @ ts), Some (length (butlast cs) + 1))"
    unfolding len [symmetric] using a(2) arg_cong [OF split, of "\<lambda>x. concat (map point_tokens x)"] by simp
  from skip_points [OF assms(1,2) this] obtain r2 a2 where s: "skip_times NC (length (butlast cs)) a = (r2, a2)" "0 \<le> r2" "view a2 = (point_tokens l @ ts, Some 1)"
    by blast
  then obtain d2 where lst: "nanocbor_get_coordinate NC (a2, coord) = (0, d2, l)"
    using get_point [OF assms(1) s(3)] by (auto simp: has_more_def)
  show ?thesis
    using e a(1) ne first s(1,2) lst by (simp add: nanocbor_get_coordinate_from_payload_def rem l_def [symmetric] cs [symmetric]) (simp add: cs)
qed

subsection \<open>One task at a time\<close>

text \<open>The runs from a state with a task under way, as long as it is.  Other modules change the edges and the keystore.\<close>

inductive rt_waiting :: "('e, 'c, 'k, 'en, 'de) rt_env \<Rightarrow> ('e, 'c, 'k) rt_node \<Rightarrow> ('e, 'c, 'k) rt_node \<Rightarrow> bool" for E where
  start: "timed_unlock_is_locked (task_in_use s) \<Longrightarrow> rt_waiting E s s"
| event: "\<lbrakk>rt_waiting E s s'; routing_process E ev s' = Some s''; timed_unlock_is_locked (task_in_use s'')\<rbrakk> \<Longrightarrow> rt_waiting E s s''"
| others: "rt_waiting E s s' \<Longrightarrow> rt_waiting E s (s'\<lparr>rt_edges := es, rt_keystore := ks\<rparr>)"

definition same_task :: "('e, 'c, 'k) rt_node \<Rightarrow> ('e, 'c, 'k) rt_node \<Rightarrow> bool" where
  "same_task s s' \<longleftrightarrow> task_src s' = task_src s \<and> task_dest s' = task_dest s \<and> rt_ep s' = rt_ep s \<and> rt_sent s' = rt_sent s"

lemma tell_throughput_task: "tell_throughput E ec dir b s = Some s' \<Longrightarrow> same_task s s' \<and> task_in_use s' = task_in_use s \<and> first_src_isclose s' = first_src_isclose s"
  by (auto simp: tell_throughput_def same_task_def split: if_splits option.splits)

lemma callback_task: "rt_send_callback E now status code s = Some s' \<Longrightarrow> same_task s s'"
  by (auto simp: rt_send_callback_def Let_def same_task_def split: if_splits option.splits dest!: tell_throughput_task [unfolded same_task_def])

lemma result_task: "routing_process_task_result E now req good s = Some s' \<Longrightarrow> same_task s s'"
  by (auto simp: routing_process_task_result_def same_task_def split: option.splits dest!: tell_throughput_task [unfolded same_task_def])

lemma status_task: "same_task s (routing_response_process_status E now req s) \<and> task_in_use (routing_response_process_status E now req s) = task_in_use s"
  by (simp add: routing_response_process_status_def same_task_def Let_def split_def split: option.split)

lemma answer_task: "res_coap_routing_post_handler E now req s = Some (b, s') \<Longrightarrow> same_task s s'"
  using status_task [of "s\<lparr>task_in_use := timed_unlock_restart_timer now (task_in_use s)\<rparr>" E now req]
  by (auto simp: res_coap_routing_post_handler_def Let_def same_task_def split: if_splits option.splits dest!: result_task [unfolded same_task_def])

lemma locked_event_task:
  assumes "timed_unlock_is_locked (task_in_use s)" "routing_process E ev s = Some s'"
  shows "same_task s s'"
proof (cases ev)
  case (Submit now secs linked sent data)
  then have "s' = s" using assms by (auto simp: routing_process_def event_triggered_action_def split: if_splits)
  then show ?thesis by (simp add: same_task_def)
next
  case (Rt_Answer now req)
  then show ?thesis using assms(2) answer_task by (fastforce simp: routing_process_def)
next
  case (Rt_Callback now status code)
  then show ?thesis using assms(2) callback_task by (simp add: routing_process_def)
qed (use assms in \<open>auto simp: routing_process_def same_task_def routing_process_task_timeout_def split_def Let_def split: option.splits\<close>)

lemma rt_waiting_locked: "rt_waiting E s s' \<Longrightarrow> timed_unlock_is_locked (task_in_use s')"
  by (induction rule: rt_waiting.induct) simp_all

lemma rt_waiting_task: "rt_waiting E s s' \<Longrightarrow> same_task s s'"
proof (induction rule: rt_waiting.induct)
  case (event s s' ev s'')
  then show ?case using locked_event_task [OF rt_waiting_locked [OF event.hyps(1)] event.hyps(2)] by (simp add: same_task_def)
qed (simp_all add: same_task_def)

subsection \<open>The blocks of an answer\<close>

fun answer_blocks :: "('e, 'c, 'k, 'en, 'de) rt_env \<Rightarrow> nat \<Rightarrow> rt_request list \<Rightarrow> ('e, 'c, 'k) rt_node \<Rightarrow> ('e, 'c, 'k) rt_node option" where
  "answer_blocks E now [] s = Some s"
| "answer_blocks E now (req # reqs) s =
     (case res_coap_routing_post_handler E now req s of None \<Rightarrow> None | Some (_, s) \<Rightarrow> answer_blocks E now reqs s)"

lemma answer_blocks_append:
  "answer_blocks E now (xs @ ys) s = (case answer_blocks E now xs s of None \<Rightarrow> None | Some s \<Rightarrow> answer_blocks E now ys s)"
  by (induction xs arbitrary: s) (auto split: option.split)

text \<open>A request that Contiki-NG accepts as the block \<open>num\<close>.\<close>

definition accepted_block :: "rt_request \<Rightarrow> u32 \<Rightarrow> bool \<Rightarrow> bool" where
  "accepted_block req num more_blocks \<longleftrightarrow> block1 req = Some (num, more_blocks) \<and> block1_header req \<and> 0 \<le> block1_handler req"

lemma restart_locked [simp]: "timed_unlock_is_locked (timed_unlock_restart_timer now l) = timed_unlock_is_locked l"
  by (simp add: timed_unlock_is_locked_def timed_unlock_restart_timer_def)

lemma unlock_open [simp]: "\<not> timed_unlock_is_locked (timed_unlock_unlock l)"
  by (simp add: timed_unlock_is_locked_def timed_unlock_unlock_def)

text \<open>The edge of a last block, if it still offers the capability, gets the quality of the result.\<close>

definition told_quality :: "('e, 'c, 'k, 'en, 'de) rt_env \<Rightarrow> (addr \<times> addr) option \<Rightarrow> bool \<Rightarrow> ('e, 'c) edge_info \<Rightarrow> ('e, 'c) edge_info" where
  "told_quality E ec good es = (case ec of None \<Rightarrow> es | Some (edge, cap) \<Rightarrow> tm_update_result_quality E edge cap \<lparr>quality_good = good\<rparr> es)"

lemma block_handled:
  assumes "timed_unlock_is_locked (task_in_use s)" "accepted_block req num more_blocks" "\<not> APPLICATIONS_MONITOR_THROUGHPUT E"
  shows "res_coap_routing_post_handler E now req s =
    (let f = (if num = 0 then close_to E (point_of E req True) (task_src s) else first_src_isclose s) in
     if more_blocks then Some (False, s\<lparr>task_in_use := timed_unlock_restart_timer now (task_in_use s), first_src_isclose := f\<rparr>)
     else Some (False, s\<lparr>task_in_use := timed_unlock_unlock (timed_unlock_restart_timer now (task_in_use s)), first_src_isclose := f,
       rt_edges := told_quality E (edge_and_capability s (src_addr req)) (f \<and> close_to E (point_of E req False) (task_dest s)) (rt_edges s)\<rparr>))"
proof -
  have ec: "edge_and_capability (s\<lparr>task_in_use := l, first_src_isclose := f\<rparr>) a = edge_and_capability s a"
    "edge_and_capability (s\<lparr>task_in_use := l\<rparr>) a = edge_and_capability s a" for l f a
    by (simp_all add: edge_and_capability_def split: option.split)
  show ?thesis
    using assms
    by (cases "edge_and_capability s (src_addr req)")
      (auto simp: res_coap_routing_post_handler_def accepted_block_def routing_process_task_result_def tell_throughput_def told_quality_def ec Let_def not_less)
qed

lemma blocks_rest:
  assumes "\<forall>req\<in>set mids. \<exists>num. num \<noteq> 0 \<and> accepted_block req num True" "timed_unlock_is_locked (task_in_use s)" "\<not> APPLICATIONS_MONITOR_THROUGHPUT E"
  shows "\<exists>l. answer_blocks E now mids s = Some (s\<lparr>task_in_use := l\<rparr>) \<and> timed_unlock_is_locked l"
  using assms(1,2)
proof (induction mids arbitrary: s)
  case Nil
  then show ?case by (intro exI [of _ "task_in_use s"]) simp
next
  case (Cons req mids)
  then obtain num where n: "num \<noteq> 0" "accepted_block req num True" by auto
  define s1 where "s1 = s\<lparr>task_in_use := timed_unlock_restart_timer now (task_in_use s)\<rparr>"
  have "res_coap_routing_post_handler E now req s = Some (False, s1)"
    using block_handled [OF Cons.prems(2) n(2) assms(3), of now] n(1) by (simp add: s1_def Let_def)
  moreover have "timed_unlock_is_locked (task_in_use s1)" using Cons.prems(2) by (simp add: s1_def)
  then obtain l where "answer_blocks E now mids s1 = Some (s1\<lparr>task_in_use := l\<rparr>)" "timed_unlock_is_locked l"
    using Cons.IH [of s1] Cons.prems(1) by auto
  ultimately show ?case by (intro exI [of _ l]) (simp add: s1_def)
qed

text \<open>The blocks of a whole answer, numbered from 0, the last one without the more flag.\<close>

definition whole_answer :: "rt_request list \<Rightarrow> bool" where
  "whole_answer reqs \<longleftrightarrow> reqs \<noteq> [] \<and> length reqs < 2 ^ 32 \<and> (\<forall>i<length reqs. accepted_block (reqs ! i) (word_of_nat i) (Suc i < length reqs))"

lemma whole_answer_blocks:
  assumes "whole_answer reqs" "timed_unlock_is_locked (task_in_use s)" "\<not> APPLICATIONS_MONITOR_THROUGHPUT E"
  shows "\<exists>l. answer_blocks E now reqs s = Some (s\<lparr>task_in_use := timed_unlock_unlock l, first_src_isclose := close_to E (point_of E (hd reqs) True) (task_src s),
       rt_edges := told_quality E (edge_and_capability s (src_addr (last reqs))) (close_to E (point_of E (hd reqs) True) (task_src s) \<and> close_to E (point_of E (last reqs) False) (task_dest s)) (rt_edges s)\<rparr>)"
proof -
  define f where "f = close_to E (point_of E (hd reqs) True) (task_src s)"
  have b: "accepted_block (reqs ! i) (word_of_nat i) (Suc i < length reqs)" if "i < length reqs" for i using assms(1) that by (simp add: whole_answer_def)
  have ne: "reqs \<noteq> []" using assms(1) by (simp add: whole_answer_def)
  have ec: "edge_and_capability (s\<lparr>first_src_isclose := x, task_in_use := l\<rparr>) a = edge_and_capability s a" for l x a
    by (simp add: edge_and_capability_def split: option.split)
  show ?thesis
  proof (cases "length reqs = 1")
    case True
    then obtain req where r: "reqs = [req]" by (cases reqs) auto
    have a: "accepted_block req 0 False" using b [of 0] by (simp add: r)
    have l: "last reqs = req" "hd reqs = req" by (simp_all add: r)
    show ?thesis
      using block_handled [OF assms(2) a assms(3), of now] unfolding l
      by (intro exI [of _ "timed_unlock_restart_timer now (task_in_use s)"]) (simp add: r Let_def)
  next
    case False
    then obtain req mids req' where r: "reqs = req # mids @ [req']" using ne by (cases reqs rule: list.exhaust; cases "tl reqs" rule: rev_cases) auto
    have a: "accepted_block req 0 True" using b [of 0] by (simp add: r)
    have nz: "word_of_nat i \<noteq> (0 :: u32)" if "0 < i" "i < length reqs" for i
      using that assms(1) by (auto simp: whole_answer_def word_of_nat_eq_0_iff dest: nat_dvd_not_less)
    have "\<exists>num. num \<noteq> 0 \<and> accepted_block x num True" if x: "x \<in> set mids" for x
    proof -
      obtain i where i: "i < length mids" "x = mids ! i" using x by (auto simp: in_set_conv_nth)
      have "accepted_block x (word_of_nat (Suc i)) True" using b [of "Suc i"] i by (simp add: r nth_append)
      moreover have "word_of_nat (Suc i) \<noteq> (0 :: u32)" using nz [of "Suc i"] i by (simp add: r)
      ultimately show ?thesis by blast
    qed
    then have mids: "\<forall>x\<in>set mids. \<exists>num. num \<noteq> 0 \<and> accepted_block x num True" by blast
    have last: "accepted_block req' (word_of_nat (Suc (length mids))) False" using b [of "Suc (length mids)"] by (simp add: r nth_append)
    have lastnz: "word_of_nat (Suc (length mids)) \<noteq> (0 :: u32)" using nz [of "Suc (length mids)"] by (simp add: r)
    define s1 where "s1 = s\<lparr>task_in_use := timed_unlock_restart_timer now (task_in_use s), first_src_isclose := f\<rparr>"
    have s1: "res_coap_routing_post_handler E now req s = Some (False, s1)"
      using block_handled [OF assms(2) a assms(3), of now] by (simp add: s1_def f_def r)
    have "timed_unlock_is_locked (task_in_use s1)" using assms(2) by (simp add: s1_def)
    from blocks_rest [OF mids this assms(3)] obtain l where l: "answer_blocks E now mids s1 = Some (s1\<lparr>task_in_use := l\<rparr>)" "timed_unlock_is_locked l"
      by blast
    have "timed_unlock_is_locked (task_in_use (s1\<lparr>task_in_use := l\<rparr>))" using l(2) by simp
    from block_handled [OF this last assms(3), of now] lastnz
    have s2: "res_coap_routing_post_handler E now req' (s1\<lparr>task_in_use := l\<rparr>) =
      Some (False, s\<lparr>task_in_use := timed_unlock_unlock (timed_unlock_restart_timer now l), first_src_isclose := f,
       rt_edges := told_quality E (edge_and_capability s (src_addr req')) (f \<and> close_to E (point_of E req' False) (task_dest s)) (rt_edges s)\<rparr>)"
      by (simp add: s1_def ec Let_def)
    have "answer_blocks E now reqs s =
      Some (s\<lparr>task_in_use := timed_unlock_unlock (timed_unlock_restart_timer now l), first_src_isclose := f,
       rt_edges := told_quality E (edge_and_capability s (src_addr req')) (f \<and> close_to E (point_of E req' False) (task_dest s)) (rt_edges s)\<rparr>)"
      using s1 l(1) s2 by (simp add: r answer_blocks_append)
    moreover have "last reqs = req'" "hd reqs = req" by (simp_all add: r)
    ultimately show ?thesis by (intro exI [of _ "timed_unlock_restart_timer now l"]) (simp add: f_def)
  qed
qed

subsection \<open>What the chosen edge is judged by\<close>

lemma ec_edges: "rt_edges s' = rt_edges s \<Longrightarrow> edge_and_capability s' a = edge_and_capability s a"
  by (simp add: edge_and_capability_def cong: option.case_cong)

lemma answer_judged:
  assumes "nanocbor_ok written view (rt_nc E)" "skips_points view (rt_nc E)" "remaining_law view (remaining E)" "\<not> APPLICATIONS_MONITOR_THROUGHPUT E"
    and "whole_answer reqs" "timed_unlock_is_locked (task_in_use s)" "edge_and_capability s (src_addr (last reqs)) = Some (edge, cap)"
    and "view (decoder_init (rt_nc E) (rt_payload (hd reqs))) = (route_tokens cs @ ts, None)" "cs \<noteq> []" "length cs < 2 ^ 32"
    and "view (decoder_init (rt_nc E) (rt_payload (last reqs))) = (route_tokens ds @ us, None)" "ds \<noteq> []" "length ds < 2 ^ 32"
  shows "\<exists>s'. answer_blocks E now reqs s = Some s' \<and> \<not> timed_unlock_is_locked (task_in_use s') \<and> same_task s s' \<and>
    rt_edges s' = tm_update_result_quality E edge cap \<lparr>quality_good = close_to E (hd cs) (task_src s) \<and> close_to E (last ds) (task_dest s)\<rparr> (rt_edges s)"
proof -
  have f: "point_of E (hd reqs) True = hd cs" using point_of_route [OF assms(1-3,8-10)] by (simp add: point_of_def)
  have l: "point_of E (last reqs) False = last ds" using point_of_route [OF assms(1-3,11-13)] by (simp add: point_of_def)
  show ?thesis using whole_answer_blocks [OF assms(5,6,4), of now] by (auto simp: f l assms(7) same_task_def told_quality_def)
qed

text \<open>The last block of an answer, from whoever it is.\<close>

lemma last_block:
  assumes "timed_unlock_is_locked (task_in_use s)" "accepted_block req num False" "num \<noteq> 0" "\<not> APPLICATIONS_MONITOR_THROUGHPUT E"
  shows "\<exists>s'. routing_process E (Rt_Answer now req) s = Some s' \<and> \<not> timed_unlock_is_locked (task_in_use s') \<and>
    rt_edges s' = told_quality E (edge_and_capability s (src_addr req)) (first_src_isclose s \<and> close_to E (point_of E req False) (task_dest s)) (rt_edges s)"
  using block_handled [OF assms(1,2,4), of now] assms(3) by (simp add: routing_process_def Let_def)

lemma submit_keeps: "rt_edges (event_triggered_action E now secs linked sent data s) = rt_edges s \<and>
    first_src_isclose (event_triggered_action E now secs linked sent data s) = first_src_isclose s"
  by (simp add: event_triggered_action_def Let_def split_def split: option.split)

lemma submit_chosen:
  assumes "event_triggered_action E now secs linked sent data s = s'" "rt_sent s' \<noteq> rt_sent s" "sent \<noteq> 0"
  shows "\<exists>edge. choose_edge E (rt_edges s) ROUTING_APPLICATION_NAME = Some edge \<and> rt_ep s' = ep (edge_mem (rt_edges s) edge) \<and> timed_unlock_is_locked (task_in_use s')"
  using assms by (auto simp: event_triggered_action_def Let_def split_def timed_unlock_is_locked_def timed_unlock_lock_def split: if_splits option.splits)

lemma submit_refused:
  "timed_unlock_is_locked (task_in_use s) \<Longrightarrow> event_triggered_action E now secs linked sent data s = s"
  by (simp add: event_triggered_action_def)

lemma unexpected_answer:
  "\<not> timed_unlock_is_locked (task_in_use s) \<Longrightarrow> res_coap_routing_post_handler E now req s = Some (True, s)"
  by (simp add: res_coap_routing_post_handler_def)

lemma callack_unlocks: "fst (timed_unlock_callack l) = timed_unlock_unlock l"
  by (simp add: timed_unlock_callack_def)

lemma failed_then_timed_out:
  assumes "timed_unlock_is_locked (task_in_use s)" "block1 req = None" "src_addr req = ipaddr (rt_ep s)" "edge_and_capability s (src_addr req) = Some (edge, cap)"
    and "get_uint32 (rt_nc E) (decoder_init (rt_nc E) (rt_payload req)) = (r, status, de)" "r < 0 \<or> status \<noteq> ROUTING_SUCCESS"
    and "edge_and_capability (s\<lparr>rt_edges := tm_update_task_result E edge cap TM_TASK_RESULT_INFO_FAIL (rt_edges s)\<rparr>) (src_addr req) = Some (edge, cap)"
  shows "\<exists>s1 s2 s3. routing_process E (Rt_Answer now req) s = Some s1 \<and> timed_unlock_is_locked (task_in_use s1) \<and>
    routing_process E Task_Timer s1 = Some s2 \<and> routing_process E Task_Timeout s2 = Some s3 \<and>
    rt_edges s3 = tm_update_task_result E edge cap TM_TASK_RESULT_INFO_TIMEOUT (tm_update_task_result E edge cap TM_TASK_RESULT_INFO_FAIL (rt_edges s))"
proof -
  define t where "t = s\<lparr>task_in_use := timed_unlock_restart_timer now (task_in_use s)\<rparr>"
  define s1 where "s1 = routing_response_process_status E now req t"
  have t: "edge_and_capability t (src_addr req) = Some (edge, cap)" "rt_edges t = rt_edges s"
    using assms(4) ec_edges [of t s] by (simp_all add: t_def)
  have st: "(if r < 0 then ROUTING_PARSING_ERROR else status) \<noteq> ROUTING_SUCCESS" using assms(6) by (auto simp: ROUTING_SUCCESS_def ROUTING_PARSING_ERROR_def)
  have e: "rt_edges s1 = tm_update_task_result E edge cap TM_TASK_RESULT_INFO_FAIL (rt_edges s)"
    using st by (simp add: s1_def routing_response_process_status_def t assms(5) Let_def)
  have k: "same_task t s1" "task_in_use s1 = task_in_use t" using status_task [of t E now req] by (simp_all add: s1_def)
  have p: "rt_ep s1 = rt_ep s" "timed_unlock_is_locked (task_in_use s1)" using k assms(1) by (simp_all add: same_task_def t_def)
  have "edge_and_capability (s1\<lparr>task_in_use := timed_unlock_unlock (task_in_use s1)\<rparr>) (ipaddr (rt_ep s)) = Some (edge, cap)"
    using assms(7) ec_edges [of "s1\<lparr>task_in_use := timed_unlock_unlock (task_in_use s1)\<rparr>" "s\<lparr>rt_edges := tm_update_task_result E edge cap TM_TASK_RESULT_INFO_FAIL (rt_edges s)\<rparr>"]
    by (simp add: e assms(3))
  moreover have "routing_process E (Rt_Answer now req) s = Some s1"
    using assms(1,2) by (simp add: routing_process_def res_coap_routing_post_handler_def s1_def t_def)
  ultimately show ?thesis
    using p e by - (rule exI [of _ s1], simp add: routing_process_def routing_process_task_timeout_def callack_unlocks)
qed

subsection \<open>What the application promises\<close>

text \<open>
  C18: one task at a time.  While the lock on the task is closed, whatever arrives, from the user, the network or the other modules, the task the answer will be judged by is
  the one that was sent: its coordinates, the edge it went to and the messages sent stay as they are.
\<close>

theorem routing_task_kept:
  assumes "rt_waiting E s s'"
  shows "task_src s' = task_src s \<and> task_dest s' = task_dest s \<and> rt_ep s' = rt_ep s \<and> rt_sent s' = rt_sent s"
  using rt_waiting_task [OF assms] by (simp add: same_task_def)

text \<open>
  C17: a route is judged by its ends.  When the blocks of an answer arrive, from number 0 to the last one, whatever happened since the task was sent, the edge that sent the last one gets a good quality
  exactly when the first point of the first block is close to the task's source and the last point of the last block close to its destination; the blocks between are not looked at.  The node is
  then free for the next task.
\<close>

theorem routing_answer_judged:
  assumes "nanocbor_ok written view (rt_nc E)" "skips_points view (rt_nc E)" "remaining_law view (remaining E)" "\<not> APPLICATIONS_MONITOR_THROUGHPUT E"
    and "rt_waiting E s0 s" "whole_answer reqs" "edge_and_capability s (src_addr (last reqs)) = Some (edge, cap)"
    and "view (decoder_init (rt_nc E) (rt_payload (hd reqs))) = (route_tokens cs @ ts, None)" "cs \<noteq> []" "length cs < 2 ^ 32"
    and "view (decoder_init (rt_nc E) (rt_payload (last reqs))) = (route_tokens ds @ us, None)" "ds \<noteq> []" "length ds < 2 ^ 32"
  shows "\<exists>s'. answer_blocks E now reqs s = Some s' \<and> \<not> timed_unlock_is_locked (task_in_use s') \<and>
    rt_edges s' = tm_update_result_quality E edge cap \<lparr>quality_good = close_to E (hd cs) (task_src s0) \<and> close_to E (last ds) (task_dest s0)\<rparr> (rt_edges s)"
  using answer_judged [OF assms(1-4,6) rt_waiting_locked [OF assms(5)] assms(7-13), of now] rt_waiting_task [OF assms(5)]
  by (auto simp: same_task_def)

text \<open>
  C21: the verdict on a first block outlives its task.  When an edge answers a new task without the block of number 0, with a last block that ends at the destination, the quality it gets is
  what the first block of an earlier task was worth; no point of the source was received.
\<close>

theorem routing_first_block_omitted:
  assumes "routing_process E (Submit t secs linked sent data) s0 = Some s" "timed_unlock_is_locked (task_in_use s)" "\<not> APPLICATIONS_MONITOR_THROUGHPUT E"
    and "accepted_block req num False" "num \<noteq> 0" "edge_and_capability s (src_addr req) = Some (edge, cap)" "close_to E (point_of E req False) (task_dest s)"
  shows "map_option rt_edges (routing_process E (Rt_Answer now req) s) =
    Some (tm_update_result_quality E edge cap \<lparr>quality_good = first_src_isclose s0\<rparr> (rt_edges s0))"
  using last_block [OF assms(2,4,5,3), of now] assms(1,6,7) submit_keeps [of E t secs linked sent data s0]
  by (auto simp: told_quality_def routing_process_def)

text \<open>
  C20: a failed task is counted as failed twice.  When the edge reports a failure, the trust model is told, but the lock stays closed: every task the user submits is refused, and when the lock's timer
  has opened it the same task counts as overdue as well.
\<close>

theorem routing_failure_counted_twice:
  assumes "timed_unlock_is_locked (task_in_use s)" "block1 req = None" "src_addr req = ipaddr (rt_ep s)" "edge_and_capability s (src_addr req) = Some (edge, cap)"
    and "get_uint32 (rt_nc E) (decoder_init (rt_nc E) (rt_payload req)) = (r, status, de)" "r < 0 \<or> status \<noteq> ROUTING_SUCCESS"
    and "edge_and_capability (s\<lparr>rt_edges := tm_update_task_result E edge cap TM_TASK_RESULT_INFO_FAIL (rt_edges s)\<rparr>) (src_addr req) = Some (edge, cap)"
  shows "\<exists>s1 s2 s3. routing_process E (Rt_Answer now req) s = Some s1 \<and>
    (\<forall>t secs linked sent data. routing_process E (Submit t secs linked sent data) s1 = Some s1) \<and>
    routing_process E Task_Timer s1 = Some s2 \<and> routing_process E Task_Timeout s2 = Some s3 \<and>
    rt_edges s3 = tm_update_task_result E edge cap TM_TASK_RESULT_INFO_TIMEOUT (tm_update_task_result E edge cap TM_TASK_RESULT_INFO_FAIL (rt_edges s))"
proof -
  obtain s1 s2 s3 where s: "routing_process E (Rt_Answer now req) s = Some s1" "timed_unlock_is_locked (task_in_use s1)"
    "routing_process E Task_Timer s1 = Some s2" "routing_process E Task_Timeout s2 = Some s3"
    "rt_edges s3 = tm_update_task_result E edge cap TM_TASK_RESULT_INFO_TIMEOUT (tm_update_task_result E edge cap TM_TASK_RESULT_INFO_FAIL (rt_edges s))"
    using failed_then_timed_out [OF assms, of now] by blast
  have "routing_process E (Submit t secs linked sent data) s1 = Some s1" for t secs linked sent data
    using submit_refused [OF s(2)] by (simp add: routing_process_def)
  then show ?thesis using s by blast
qed

text \<open>
  C19: the timeout of one task is blamed on the next.  The lock opens as soon as its timer fires, and the process learns of it by an event; when the user's next task is sent before that event is
  handled, the edge chosen for the new task is reported to the trust model as overdue, at once, and the edge that did not answer is not.
\<close>

theorem routing_timeout_misattributed:
  assumes "routing_process E Task_Timer s0 = Some s1" "routing_process E (Submit now secs linked sent data) s1 = Some s2" "sent \<noteq> 0" "rt_sent s2 \<noteq> rt_sent s1"
    and "choose_edge E (rt_edges s0) ROUTING_APPLICATION_NAME = Some edge" "edge_and_capability s0 (ipaddr (ep (edge_mem (rt_edges s0) edge))) = Some (edge, cap)"
  shows "\<exists>s3. routing_process E Task_Timeout s2 = Some s3 \<and> timed_unlock_is_locked (task_in_use s3) \<and>
    rt_edges s3 = tm_update_task_result E edge cap TM_TASK_RESULT_INFO_TIMEOUT (rt_edges s0)"
proof -
  have s1: "rt_edges s1 = rt_edges s0" using assms(1) by (auto simp: routing_process_def)
  have s2: "event_triggered_action E now secs linked sent data s1 = s2" using assms(2) by (simp add: routing_process_def)
  have e: "rt_ep s2 = ep (edge_mem (rt_edges s0) edge)" "timed_unlock_is_locked (task_in_use s2)" "rt_edges s2 = rt_edges s0"
    using submit_chosen [OF s2 assms(4,3)] submit_keeps [of E now secs linked sent data s1] assms(5) s2 by (auto simp: s1)
  have "edge_and_capability s2 (ipaddr (rt_ep s2)) = Some (edge, cap)" using assms(6) ec_edges [of s2 s0] e by simp
  then show ?thesis using e by (simp add: routing_process_def routing_process_task_timeout_def)
qed

text \<open>Any node can end a task: the last block of an answer is taken from whoever sends it, and the answer of the edge that was asked is then refused.\<close>

lemma routing_stranger_ends_task:
  assumes "timed_unlock_is_locked (task_in_use s)" "accepted_block req num False" "num \<noteq> 0" "\<not> APPLICATIONS_MONITOR_THROUGHPUT E"
    and "edge_info_find_addr (rt_edges s) (src_addr req) = None"
  shows "\<exists>s'. routing_process E (Rt_Answer now req) s = Some s' \<and> rt_edges s' = rt_edges s \<and> (\<forall>now' req'. res_coap_routing_post_handler E now' req' s' = Some (True, s'))"
proof -
  have "edge_and_capability s (src_addr req) = None" using assms(5) by (simp add: edge_and_capability_def)
  then show ?thesis using last_block [OF assms(1-4), of now] by (auto simp: told_quality_def intro: unexpected_answer)
qed


subsection \<open>Examples\<close>

definition origin :: coordinate where "origin = \<lparr>latitude = Fin 1, longitude = Fin 0\<rparr>"

definition goal :: coordinate where "goal = \<lparr>latitude = Fin 1, longitude = Fin 1\<rparr>"

text \<open>An empty message reads as a failure, all others as a route from \<open>origin\<close> to \<open>goal\<close>.\<close>

definition route_nc :: "(token list, token list \<times> nat option) nanocbor" where
  "route_nc = ref_nanocbor\<lparr>decoder_init := \<lambda>p. (if p = [] then [TUint 1] else route_tokens [origin, goal], None)\<rparr>"

lemma route_nc_ok: "nanocbor_ok (\<lambda>en. en) (\<lambda>de. de) route_nc" "skips_points (\<lambda>de. de) route_nc"
proof -
  show "nanocbor_ok (\<lambda>en. en) (\<lambda>de. de) route_nc"
    using ref_nanocbor_ok unfolding nanocbor_ok_def array_law_def map_law_def by (simp add: route_nc_def)
  show "skips_points (\<lambda>de. de) route_nc"
    by (auto simp: skips_points_def route_nc_def ref_nanocbor_def has_more_def numeral_eq_Suc)
qed

text \<open>The serial line always has the number 1, up to the next separator.\<close>

definition example_rt_env ::
  "(edge_resource_tm_basic, edge_capability_tm_basic, unit, token list, token list \<times> nat option) rt_env" where
  "example_rt_env = \<lparr>rt_ct = ref_contiki, rt_nc = route_nc, rt_fmt = exact_fmt, rt_kc = example_config,
     remaining = (\<lambda>(_, left). case left of None \<Rightarrow> 0 | Some n \<Rightarrow> word_of_nat n),
     strtof = (\<lambda>data. (Fin 1, dropWhile (\<lambda>c. c \<noteq> CHR '','' \<and> c \<noteq> CHR '':'') data)),
     choose_edge = (\<lambda>_ _. Some 0), tm_update_task_submission = tm_update_task_submission_basic ref_contiki,
     tm_update_task_result = tm_update_task_result_basic, tm_update_result_quality = tm_update_result_quality_basic, tm_update_throughput = (\<lambda>_ _ _ es. es),
     APPLICATIONS_MONITOR_THROUGHPUT = False, rt_clock_second = 128\<rparr>"

lemma remaining_ok: "remaining_law (\<lambda>de. de) (remaining example_rt_env)"
  by (simp add: remaining_law_def example_rt_env_def unsigned_of_nat take_bit_nat_eq_self_iff)

definition rt_edges0 :: "(edge_resource_tm_basic, edge_capability_tm_basic) edge_info" where
  "rt_edges0 = upd_cap 0 (\<lambda>r. r\<lparr>cap_name := ''routing'' @ [NUL]\<rparr>) example_edges"

definition example_rt :: "(edge_resource_tm_basic, edge_capability_tm_basic, unit) rt_node" where
  "example_rt = \<lparr>rt_app = \<lparr>app_name = ''routing'', app_uri = ''routing'', running = True, out_time = 0, out_len = 0, in_time = 0, in_len = 0\<rparr>,
     rt_ep = \<lparr>ipaddr = replicate 16 1, secure = 0, port = 5683\<rparr>, rt_coap_in_use = \<lparr>locked = False, lname = [], timer = None, duration = 0, owner = 0\<rparr>,
     task_in_use = \<lparr>locked = True, lname = [], timer = Some 300, duration = 200, owner = 0\<rparr>, task_src = origin, task_dest = goal, first_src_isclose = False,
     rt_edges = rt_edges0, rt_keystore = example_store, rt_sent = [], rt_connects = []\<rparr>"

definition example_block :: "(u32 \<times> bool) option \<Rightarrow> u8 list \<Rightarrow> rt_request" where
  "example_block b p = \<lparr>src_addr = replicate 16 1, rt_payload = p, block1 = b, block1_header = True, block1_handler = 0, coord0 = origin\<rparr>"

lemma rt_edges0_find: "edge_info_find_addr rt_edges0 (replicate 16 1) = Some 0" "edge_info_capability_find rt_edges0 (Some 0) ROUTING_APPLICATION_NAME = Some 0"
  by (simp_all add: rt_edges0_def upd_cap_def example_edges_def one_edge_info_def edge_info_find_addr_def edge_info_capability_find_def ROUTING_APPLICATION_NAME_def cstr_def NUL_def)

lemma example_rt_edge: "rt_edges s = rt_edges0 \<Longrightarrow> edge_and_capability s (replicate 16 1) = Some (0, 0)"
  by (simp add: edge_and_capability_def rt_edges0_find)

lemma example_rt_locked: "timed_unlock_is_locked (task_in_use example_rt)"
  by (simp add: example_rt_def timed_unlock_is_locked_def)

theorem routing_task_kept_witness:
  "\<exists>s'. routing_process example_rt_env (Submit 5 1 True 1 ''@submit-task:route-req:1,1:1,1'') example_rt = Some s' \<and> task_dest s' = goal \<and> rt_sent s' = []"
proof -
  have p: "routing_process example_rt_env (Submit 5 1 True 1 ''@submit-task:route-req:1,1:1,1'') example_rt = Some example_rt"
    using submit_refused [OF example_rt_locked] by (simp add: routing_process_def)
  have "rt_waiting example_rt_env example_rt example_rt"
    by (rule rt_waiting.event [OF rt_waiting.start [OF example_rt_locked] p example_rt_locked])
  from routing_task_kept [OF this] show ?thesis using p by (simp add: example_rt_def)
qed

lemma example_env_simps: "rt_nc example_rt_env = route_nc" "\<not> APPLICATIONS_MONITOR_THROUGHPUT example_rt_env" "rt_fmt example_rt_env = exact_fmt"
    "tm_update_result_quality example_rt_env = tm_update_result_quality_basic" "tm_update_task_result example_rt_env = tm_update_task_result_basic"
    "rt_edges example_rt = rt_edges0" "task_src example_rt = origin" "task_dest example_rt = goal"
  by (simp_all add: example_rt_env_def example_rt_def)

lemma route_view: "p \<noteq> [] \<Longrightarrow> decoder_init route_nc p = (route_tokens [origin, goal] @ [], None)"
  by (simp add: route_nc_def)

lemma close_self: "close_to example_rt_env origin origin" "close_to example_rt_env goal goal"
  by (simp_all add: close_to_def example_env_simps origin_def goal_def isclose_refl_exact)

theorem routing_answer_judged_witness:
  "\<exists>s'. answer_blocks example_rt_env 9 [example_block (Some (0, True)) [1], example_block (Some (1, False)) [2]] example_rt = Some s' \<and>
    \<not> timed_unlock_is_locked (task_in_use s') \<and> rt_edges s' = tm_update_result_quality_basic 0 0 \<lparr>quality_good = True\<rparr> rt_edges0"
proof -
  define reqs where "reqs = [example_block (Some (0, True)) [1], example_block (Some (1, False)) [2]]"
  have "\<forall>i<2. accepted_block (reqs ! i) (word_of_nat i) (Suc i < 2)"
    by (auto simp: reqs_def accepted_block_def example_block_def less_2_cases_iff)
  moreover have "reqs \<noteq> []" "length reqs = 2" by (simp_all add: reqs_def)
  ultimately have w: "whole_answer reqs" by (simp only: whole_answer_def) simp
  have nc: "nanocbor_ok (\<lambda>en. en) (\<lambda>de. de) (rt_nc example_rt_env)" "skips_points (\<lambda>de. de) (rt_nc example_rt_env)"
    using route_nc_ok by (simp_all add: example_env_simps)
  have a: "edge_and_capability example_rt (src_addr (last reqs)) = Some (0, 0)"
    using example_rt_edge [of example_rt] by (simp add: example_env_simps reqs_def example_block_def)
  have v: "decoder_init (rt_nc example_rt_env) (rt_payload (hd reqs)) = (route_tokens [origin, goal] @ [], None)"
    "decoder_init (rt_nc example_rt_env) (rt_payload (last reqs)) = (route_tokens [origin, goal] @ [], None)"
    by (simp_all add: example_env_simps reqs_def example_block_def route_nc_def)
  have l: "[origin, goal] \<noteq> []" "length [origin, goal] < 2 ^ 32" by simp_all
  from routing_answer_judged [OF nc remaining_ok example_env_simps(2) rt_waiting.start [OF example_rt_locked] w a v(1) l v(2) l, of 9]
  show ?thesis by (simp add: example_env_simps close_self flip: reqs_def)
qed

lemma task_result_find: "edge_info_find_addr (tm_update_task_result_basic e c i es) a = edge_info_find_addr es a"
    "edge_info_capability_find (tm_update_task_result_basic e c i es) d n = edge_info_capability_find es d n"
proof -
  have e: "ep (edge_mem (tm_update_task_result_basic e c i es) x) = ep (edge_mem es x)" "edge_resources (tm_update_task_result_basic e c i es) = edge_resources es"
    "capabilities (edge_mem (tm_update_task_result_basic e c i es) x) = capabilities (edge_mem es x)" "cap_mem (tm_update_task_result_basic e c i es) = cap_mem es" for x
    by (simp_all add: tm_update_task_result_basic_def upd_edge_tm_def upd_edge_def)
  show "edge_info_find_addr (tm_update_task_result_basic e c i es) a = edge_info_find_addr es a" by (simp add: edge_info_find_addr_def e)
  show "edge_info_capability_find (tm_update_task_result_basic e c i es) d n = edge_info_capability_find es d n"
    by (simp add: edge_info_capability_find_def e split: option.split)
qed

theorem routing_failure_counted_twice_witness:
  "\<exists>s1 s2 s3. routing_process example_rt_env (Rt_Answer 9 (example_block None [])) example_rt = Some s1 \<and> routing_process example_rt_env Task_Timer s1 = Some s2 \<and>
    routing_process example_rt_env Task_Timeout s2 = Some s3 \<and>
    rt_edges s3 = tm_update_task_result_basic 0 0 TM_TASK_RESULT_INFO_TIMEOUT (tm_update_task_result_basic 0 0 TM_TASK_RESULT_INFO_FAIL rt_edges0)"
proof -
  let ?s = "example_rt\<lparr>rt_edges := tm_update_task_result example_rt_env 0 0 TM_TASK_RESULT_INFO_FAIL (rt_edges example_rt)\<rparr>"
  have b: "block1 (example_block None []) = None" "src_addr (example_block None []) = ipaddr (rt_ep example_rt)" "src_addr (example_block None []) = replicate 16 1"
    by (simp_all add: example_block_def example_rt_def)
  have a: "edge_and_capability example_rt (src_addr (example_block None [])) = Some (0, 0)"
    using example_rt_edge [of example_rt] by (simp add: b(3) example_env_simps)
  have g: "get_uint32 (rt_nc example_rt_env) (decoder_init (rt_nc example_rt_env) (rt_payload (example_block None []))) = (1, 1, [], None)"
    by (simp add: example_env_simps example_block_def route_nc_def) (simp add: ref_nanocbor_def ref_get_def has_more_def pass_def)
  have f: "(1 :: int) < 0 \<or> (1 :: u32) \<noteq> ROUTING_SUCCESS" by (simp add: ROUTING_SUCCESS_def)
  have "edge_and_capability ?s (src_addr (example_block None [])) = Some (0, 0)"
    by (simp add: b(3) edge_and_capability_def example_env_simps task_result_find rt_edges0_find)
  from routing_failure_counted_twice [OF example_rt_locked b(1,2) a g f this, of 9] show ?thesis unfolding example_env_simps by blast
qed


text \<open>A task that the user submits is sent.\<close>

definition example_task :: string where "example_task = ''@submit-task:route-req:1,1:1,1''"

lemma example_parse: "parse_input example_rt_env example_task (src, dst) = (True, \<lparr>latitude = Fin 1, longitude = Fin 1\<rparr>, \<lparr>latitude = Fin 1, longitude = Fin 1\<rparr>)"
  by (cases src; cases dst) (simp add: parse_input_def parse_number_def match_action_def example_task_def ROUTING_SUBMIT_TASK_def example_rt_env_def Let_def)

lemma example_request: "0 < fst (generate_routing_request route_nc secs RT_MSG_BUF_LEN a b) \<and> fst (generate_routing_request route_nc secs RT_MSG_BUF_LEN a b) \<le> int RT_MSG_BUF_LEN"
  by (simp add: generate_routing_request_def route_nc_def ref_nanocbor_def RT_MSG_BUF_LEN_def)

lemma example_submit:
  assumes "\<not> timed_unlock_is_locked (task_in_use s)" "\<not> timed_unlock_is_locked (rt_coap_in_use s)" "running (rt_app s)"
  shows "rt_sent (event_triggered_action example_rt_env now secs linked 1 example_task s) \<noteq> rt_sent s \<and>
    timed_unlock_is_locked (task_in_use (event_triggered_action example_rt_env now secs linked 1 example_task s)) \<and>
    task_dest (event_triggered_action example_rt_env now secs linked 1 example_task s) = \<lparr>latitude = Fin 1, longitude = Fin 1\<rparr>"
proof -
  have c: "choose_edge example_rt_env es n = Some 0" for es n by (simp add: example_rt_env_def)
  show ?thesis
    using assms example_request [of secs "\<lparr>latitude = Fin 1, longitude = Fin 1\<rparr>" "\<lparr>latitude = Fin 1, longitude = Fin 1\<rparr>"]
    by (simp add: event_triggered_action_def example_parse example_env_simps c split_def Let_def) (simp add: timed_unlock_is_locked_def timed_unlock_lock_def)
qed

definition example_open :: "(edge_resource_tm_basic, edge_capability_tm_basic, unit) rt_node" where
  "example_open = example_rt\<lparr>task_in_use := timed_unlock_unlock (task_in_use example_rt), first_src_isclose := True\<rparr>"

lemma example_open_simps: "\<not> timed_unlock_is_locked (task_in_use example_open)" "\<not> timed_unlock_is_locked (rt_coap_in_use example_open)" "running (rt_app example_open)"
    "rt_edges example_open = rt_edges0" "first_src_isclose example_open" "\<not> timed_unlock_is_locked (rt_coap_in_use example_rt)" "running (rt_app example_rt)"
  by (simp_all add: example_open_def timed_unlock_is_locked_def timed_unlock_unlock_def example_rt_def)

lemma example_submit_goal: "task_dest (event_triggered_action example_rt_env now secs linked 1 example_task example_open) = goal"
  using example_submit [OF example_open_simps(1-3)] by (simp add: goal_def)

theorem routing_first_block_omitted_witness:
  "\<exists>s. routing_process example_rt_env (Submit 5 1 True 1 example_task) example_open = Some s \<and>
    map_option rt_edges (routing_process example_rt_env (Rt_Answer 9 (example_block (Some (1, False)) [1])) s) =
      Some (tm_update_result_quality_basic 0 0 \<lparr>quality_good = True\<rparr> rt_edges0)"
proof -
  define s where "s = event_triggered_action example_rt_env 5 1 True 1 example_task example_open"
  let ?req = "example_block (Some (1, False)) [1]"
  have p: "routing_process example_rt_env (Submit 5 1 True 1 example_task) example_open = Some s" by (simp add: routing_process_def s_def)
  have l: "timed_unlock_is_locked (task_in_use s)" using example_submit [OF example_open_simps(1-3)] by (simp add: s_def)
  have "edge_and_capability s (src_addr ?req) = Some (0, 0)"
    using example_rt_edge [of s] submit_keeps [of example_rt_env 5 1 True 1 example_task example_open] by (simp add: s_def example_open_simps example_block_def)
  moreover have "accepted_block ?req 1 False" by (simp add: accepted_block_def example_block_def)
  moreover have "close_to example_rt_env (point_of example_rt_env ?req False) (task_dest s)"
  proof -
    have "decoder_init (rt_nc example_rt_env) (rt_payload ?req) = (route_tokens [origin, goal] @ [], None)"
      by (simp add: example_env_simps example_block_def route_nc_def)
    with point_of_route [OF route_nc_ok remaining_ok, of _ "[origin, goal]" "[]"] have "point_of example_rt_env ?req False = goal"
      by (simp add: point_of_def example_env_simps)
    then show ?thesis by (simp add: s_def example_submit_goal close_self)
  qed
  ultimately show ?thesis
    using routing_first_block_omitted [OF p l example_env_simps(2), of ?req 1 0 0 9] p by (auto simp: example_env_simps example_open_simps)
qed

theorem routing_timeout_misattributed_witness:
  "\<exists>s1 s2 s3. routing_process example_rt_env Task_Timer example_rt = Some s1 \<and> routing_process example_rt_env (Submit 300 1 True 1 example_task) s1 = Some s2 \<and>
    routing_process example_rt_env Task_Timeout s2 = Some s3 \<and> timed_unlock_is_locked (task_in_use s3) \<and>
    rt_edges s3 = tm_update_task_result_basic 0 0 TM_TASK_RESULT_INFO_TIMEOUT rt_edges0"
proof -
  define s1 where "s1 = example_rt\<lparr>task_in_use := timed_unlock_unlock (task_in_use example_rt)\<rparr>"
  define s2 where "s2 = event_triggered_action example_rt_env 300 1 True 1 example_task s1"
  have p1: "routing_process example_rt_env Task_Timer example_rt = Some s1" by (simp add: routing_process_def s1_def callack_unlocks)
  have p2: "routing_process example_rt_env (Submit 300 1 True 1 example_task) s1 = Some s2" by (simp add: routing_process_def s2_def)
  have "rt_sent s2 \<noteq> rt_sent s1" using example_submit [of s1 300 1 True] example_open_simps(6,7) by (simp add: s1_def s2_def)
  moreover have "choose_edge example_rt_env (rt_edges example_rt) ROUTING_APPLICATION_NAME = Some 0" by (simp add: example_rt_env_def)
  moreover have "ipaddr (ep (edge_mem (rt_edges example_rt) 0)) = replicate 16 1"
    by (simp add: example_env_simps rt_edges0_def upd_cap_def example_edges_def one_edge_info_def)
  then have "edge_and_capability example_rt (ipaddr (ep (edge_mem (rt_edges example_rt) 0))) = Some (0, 0)"
    using example_rt_edge [of example_rt] by (simp add: example_env_simps)
  ultimately obtain s3 where "routing_process example_rt_env Task_Timeout s2 = Some s3" "timed_unlock_is_locked (task_in_use s3)"
      "rt_edges s3 = tm_update_task_result_basic 0 0 TM_TASK_RESULT_INFO_TIMEOUT rt_edges0"
    using routing_timeout_misattributed [OF p1 p2] by (auto simp: example_env_simps)
  then show ?thesis using p1 p2 by blast
qed

end
