(* ===== verification/Keystore_Pins.thy ===== *)
theory Keystore_Pins
  imports Keystore
begin

text \<open>
  What another client of \<open>src/wsn/common/crypto/keystore.c\<close> and \<open>crypto-support.c\<close> can rely on while the store goes about its own work: the keys it
  has pinned stay where they are and as they are, and the jobs it has queued stay untouched.  The count of pins of a key is the
  number of its clients' pins and the store's own.
\<close>

text \<open>The steps of the store's process, of the callers that add and remove certificates, and of the verifier.\<close>

inductive store_step :: "contiki \<Rightarrow> ('en, 'de) nanocbor \<Rightarrow> 'c ks_config \<Rightarrow> 'c keystore \<Rightarrow> 'c keystore \<Rightarrow> bool"
  for CT NC K where
  add: "keystore_add CT K c s = (b, s') \<Longrightarrow> store_step CT NC K s s'"
| remove: "keystore_remove CT K i s = (b, s') \<Longrightarrow> store_step CT NC K s s'"
| request: "request_public_key K now sent a s = (b, s', p) \<Longrightarrow> store_step CT NC K s s'"
| answer: "store_step CT NC K s (request_public_key_callback CT NC K c0 status code payload s)"
| poll: "pkitem s = None \<Longrightarrow> store_step CT NC K s (on_poll CT NC K s)"
| verified: "\<lbrakk>pkitem s = None; job_posted (vjobs s) = (keystore_add_verifier, e) # ps\<rbrakk> \<Longrightarrow>
    store_step CT NC K s (on_message_verified CT K e (s\<lparr>vjobs := (vjobs s)\<lparr>job_posted := ps\<rparr>\<rparr>))"
| secret: "on_shared_secret K sec s = Some s' \<Longrightarrow> store_step CT NC K s s'"
| take: "take_job CT (vjobs s) = Some js \<Longrightarrow> store_step CT NC K s (s\<lparr>vjobs := js\<rparr>)"
| finish: "\<lbrakk>job_current (vjobs s) = Some e;
      verifier_finish (ecc_verify K (v_pubkey (job_mem (vjobs s) e)) (v_message (job_mem (vjobs s) e))) told (vjobs s) = Some js\<rbrakk> \<Longrightarrow>
    store_step CT NC K s (s\<lparr>vjobs := js\<rparr>)"

lemma store_step_ks: "store_step CT NC K s s' \<Longrightarrow> ks_step CT NC K s s'"
  by (induction rule: store_step.induct) (rule ks_step.intros; assumption)+

subsection \<open>The jobs of a client\<close>

definition client_jobs :: "nat \<Rightarrow> messages_to_verify_entry jobs \<Rightarrow> addr set" where
  "client_jobs p js = {e \<in> set (job_entries js). v_process (job_mem js e) = p}"

definition same_entry :: "messages_to_verify_entry \<Rightarrow> messages_to_verify_entry \<Rightarrow> bool" where
  "same_entry m m' \<longleftrightarrow> same_job m m' \<and> v_message_len m' = v_message_len m"

definition jobs_kept :: "nat \<Rightarrow> messages_to_verify_entry jobs \<Rightarrow> messages_to_verify_entry jobs \<Rightarrow> bool" where
  "jobs_kept p js js' \<longleftrightarrow> client_jobs p js' = client_jobs p js \<and> (\<forall>e\<in>client_jobs p js. same_entry (job_mem js e) (job_mem js' e))"

lemma same_entry_refl [simp]: "same_entry m m"
  by (simp add: same_entry_def same_job_def)

lemma jobs_kept_refl [simp]: "jobs_kept p js js"
  by (simp add: jobs_kept_def)

lemma jobs_kept_trans: "\<lbrakk>jobs_kept p js js'; jobs_kept p js' js''\<rbrakk> \<Longrightarrow> jobs_kept p js js''"
  by (simp add: jobs_kept_def same_entry_def same_job_def)

lemma jobs_kept_submit:
  assumes "contiki_ok CT" "jobs_ok MESSAGES_TO_VERIFY_SIZE js" "q \<noteq> p" "queue_message_to_verify CT q dat msg len pk js = (b, js')"
  shows "jobs_kept p js js'"
proof -
  let ?f = "\<lambda>e. e\<lparr>v_process := q, v_data := dat, v_message := msg, v_message_len := len, v_pubkey := pk\<rparr>"
  have q: "queue_job CT MESSAGES_TO_VERIFY_SIZE ?f js = (b, js')" using assms(4) by (simp add: queue_message_to_verify_def)
  show ?thesis using assms(1,2)
  proof (cases rule: queue_job_cases [where fill = ?f, consumes 2])
    case refused
    then show ?thesis using q by simp
  next
    case (queued i)
    then have js': "js' = js\<lparr>jobs_memb := insert i (jobs_memb js), job_mem := (job_mem js)(i := ?f (job_mem js i)), jobs_queue := jobs_queue js @ [i]\<rparr>"
      using q by simp
    have "set (job_entries js') = insert i (set (job_entries js))" by (auto simp: job_entries_def js')
    then show ?thesis using queued(3) assms(3) unfolding jobs_kept_def client_jobs_def by (auto simp: js')
  qed
qed

lemma jobs_kept_done:
  assumes "jobs_ok n js" "job_posted js = (q, e) # ps" "v_process (job_mem js e) \<noteq> p"
  shows "jobs_kept p js (queue_message_to_verify_done CT e (js\<lparr>job_posted := ps\<rparr>))"
proof -
  let ?js = "queue_message_to_verify_done CT e (js\<lparr>job_posted := ps\<rparr>)"
  have "set (job_entries js) = insert e (set (job_entries ?js))" "job_mem ?js = job_mem js"
    using assms(2) by (auto simp: job_entries_def queue_message_to_verify_done_def job_done_def)
  then show ?thesis using assms(3) unfolding jobs_kept_def client_jobs_def by auto
qed

lemma jobs_kept_take:
  assumes "contiki_ok CT" "take_job CT js = Some js'"
  shows "jobs_kept p js js'"
proof -
  obtain i q where "job_current js = None" "jobs_queue js = i # q" "js' = js\<lparr>jobs_queue := q, job_current := Some i\<rparr>"
    using assms by (cases "jobs_queue js") (auto simp: take_job_def contiki_simps split: if_splits)
  then have "set (job_entries js') = set (job_entries js)" "job_mem js' = job_mem js" by (auto simp: job_entries_def)
  then show ?thesis by (simp add: jobs_kept_def client_jobs_def)
qed

lemma jobs_kept_finish:
  assumes "verifier_finish r told js = Some js'"
  shows "jobs_kept p js js'"
proof -
  obtain i where i: "job_current js = Some i" using assms by (auto simp: verifier_finish_def finish_job_def split: option.splits)
  then have js': "js' = js\<lparr>job_mem := (job_mem js)(i := (job_mem js i)\<lparr>v_result := r\<rparr>), job_current := None,
      job_posted := job_posted js @ (if told then [(v_process (job_mem js i), i)] else []), jobs_lost := jobs_lost js @ (if told then [] else [i])\<rparr>"
    using assms by (cases told) (auto simp: verifier_finish_def finish_job_eq)
  then have "set (job_entries js') = set (job_entries js)" using i by (auto simp: job_entries_def)
  then show ?thesis unfolding jobs_kept_def client_jobs_def by (auto simp: js' same_entry_def same_job_def)
qed

subsection \<open>Pins\<close>

text \<open>\<open>h k\<close> is how often the clients hold the key \<open>k\<close>.\<close>

definition pins_ok :: "(addr \<Rightarrow> nat) \<Rightarrow> 'c keystore \<Rightarrow> bool" where
  "pins_ok h s \<longleftrightarrow>
     (\<forall>k\<in>set (public_keys s). unat (pin_count (key_mem s k)) = h k + of_bool (pkitem s = Some k)) \<and>
     (\<forall>k\<in>set (public_keys_to_verify s). pin_count (key_mem s k) = 0) \<and>
     (\<forall>k. 0 < h k \<or> pkitem s = Some k \<longrightarrow> k \<in> set (public_keys s))"

definition held_kept :: "(addr \<Rightarrow> nat) \<Rightarrow> 'c keystore \<Rightarrow> 'c keystore \<Rightarrow> bool" where
  "held_kept h s s' \<longleftrightarrow> (\<forall>k. 0 < h k \<longrightarrow> cert (key_mem s' k) = cert (key_mem s k))"

lemma pins_ok_cong:
  assumes "pins_ok h s" "public_keys s' = public_keys s" "public_keys_to_verify s' = public_keys_to_verify s" "key_mem s' = key_mem s" "pkitem s' = pkitem s"
  shows "pins_ok h s'"
  using assms(1) by (simp add: pins_ok_def assms(2-))

lemma held_kept_mem: "key_mem s' = key_mem s \<Longrightarrow> held_kept h s s'"
  by (simp add: held_kept_def)

lemma pins_held: "\<lbrakk>pins_ok h s; 0 < h k\<rbrakk> \<Longrightarrow> k \<in> set (public_keys s) \<and> keystore_is_pinned (key_mem s k)"
  unfolding pins_ok_def keystore_is_pinned_def word_less_nat_alt by (metis add_gr_0 unat_0)

lemma pins_item: "\<lbrakk>pins_ok h s; pkitem s = Some k\<rbrakk> \<Longrightarrow> k \<in> set (public_keys s) \<and> keystore_is_pinned (key_mem s k)"
  unfolding pins_ok_def keystore_is_pinned_def word_less_nat_alt by (metis add_gr_0 of_bool_eq(2) unat_0 zero_less_one)

lemma pins_evict:
  assumes "pins_ok h s" "E \<subseteq> evictable K s"
  shows "pins_ok h (evict E s)"
proof -
  have "k \<notin> E" if "0 < h k \<or> pkitem s = Some k" for k
    using that assms(2) pins_held [OF assms(1)] pins_item [OF assms(1)] by (auto simp: evictable_def key_kept_def)
  then show ?thesis using assms(1) by (auto simp: pins_ok_def evict_def)
qed

lemma pins_add:
  assumes "contiki_ok CT" "keys_ok s" "pins_ok h s"
  shows "pins_ok h (snd (keystore_add CT K c s)) \<and> held_kept h s (snd (keystore_add CT K c s)) \<and> vjobs (snd (keystore_add CT K c s)) = vjobs s"
  using assms(1,2)
proof (cases rule: keystore_add_cases [where K = K and c = c, consumes 2])
  case known
  then show ?thesis using assms(3) by (simp add: held_kept_def)
next
  case (queued i)
  have i: "i \<notin> set (public_keys s)" "i \<notin> set (public_keys_to_verify s)" using queued(3) assms(2) by (auto simp: keys_ok_def)
  then have "\<not> 0 < h i" "pkitem s \<noteq> Some i" using assms(3) by (auto simp: pins_ok_def)
  then show ?thesis
    using assms(3) i by (auto simp: queued(1) pins_ok_def keystore_queue_def held_kept_def list_add_new [OF assms(1)])
next
  case (full E)
  then show ?thesis using pins_evict [OF assms(3) full(3)] by (simp add: held_kept_def)
qed

lemma pins_remove:
  assumes "contiki_ok CT" "keys_ok s" "pins_ok h s" "keystore_remove CT K i s = (b, s')"
  shows "pins_ok h s' \<and> held_kept h s s' \<and> vjobs s' = vjobs s"
proof -
  have "s' = (if i \<in> set (public_keys s) \<and> \<not> key_kept K s i then evict {i} s else s)"
    using assms(4) by (simp add: keystore_remove_result [OF assms(1,2)])
  then show ?thesis using pins_evict [OF assms(3), of "{i}" K] assms(3) by (auto simp: held_kept_def evictable_def)
qed

lemma pins_request:
  assumes "pins_ok h s" "request_public_key K now sent a s = (b, s', p)"
  shows "pins_ok h s' \<and> held_kept h s s' \<and> vjobs s' = vjobs s"
proof -
  have "s' \<in> {s, s\<lparr>verifier_polled := True\<rparr>, s\<lparr>key_req_payload := a\<rparr>, s\<lparr>key_req_payload := a, key_in_use := timed_unlock_lock now (key_in_use s)\<rparr>}"
    using assms(2) by (simp add: request_public_key_def Let_def split: if_splits)
  then show ?thesis using assms(1) by (elim insertE) (simp_all add: held_kept_def pins_ok_def)
qed

lemma pins_answer:
  assumes "contiki_ok CT" "keys_ok s" "pins_ok h s"
  shows "pins_ok h (request_public_key_callback CT NC K c0 status code payload s) \<and>
    held_kept h s (request_public_key_callback CT NC K c0 status code payload s) \<and> vjobs (request_public_key_callback CT NC K c0 status code payload s) = vjobs s"
proof -
  have "request_public_key_callback CT NC K c0 status code payload s \<in>
      insert s (insert (s\<lparr>key_in_use := timed_unlock_unlock (key_in_use s)\<rparr>) (range (\<lambda>c. snd (keystore_add CT K c s))))"
    by (simp add: request_public_key_callback_def split_def Let_def)
  then show ?thesis
  proof (elim insertE imageE)
    assume "request_public_key_callback CT NC K c0 status code payload s = s\<lparr>key_in_use := timed_unlock_unlock (key_in_use s)\<rparr>"
    then show ?thesis using pins_ok_cong [OF assms(3), of "s\<lparr>key_in_use := timed_unlock_unlock (key_in_use s)\<rparr>"] by (simp add: held_kept_def)
  qed (use pins_add [OF assms] assms(3) in \<open>auto simp: held_kept_def\<close>)
qed

lemma pins_unpin:
  assumes "pins_ok h s" "h' = h(k := h k - 1)" "0 < h k" "keystore_unpin k s = r"
  shows "\<exists>s'. r = Some s' \<and> pins_ok h' s' \<and> public_keys s' = public_keys s \<and> (\<forall>j. cert (key_mem s' j) = cert (key_mem s j)) \<and> vjobs s' = vjobs s"
proof -
  have k: "k \<in> set (public_keys s)" "0 < pin_count (key_mem s k)" using pins_held [OF assms(1,3)] by (auto simp: keystore_is_pinned_def)
  then have "unat (pin_count (key_mem s k) - 1) = unat (pin_count (key_mem s k)) - 1"
    by (intro unat_minus_one) auto
  moreover have "unat (pin_count (key_mem s k)) = h k + of_bool (pkitem s = Some k)" using assms(1) k(1) by (simp add: pins_ok_def)
  ultimately have n: "unat (pin_count (key_mem s k) - 1) = h' k + of_bool (pkitem s = Some k)" using assms(2,3) by simp
  define t where "t = s\<lparr>key_mem := (key_mem s)(k := (key_mem s k)\<lparr>pin_count := pin_count (key_mem s k) - 1\<rparr>)\<rparr>"
  have "r = Some t" using assms(4) k(2) by (simp add: keystore_unpin_def t_def)
  moreover have "pins_ok h' t" using assms(1,2) n k by (auto simp: pins_ok_def t_def)
  ultimately show ?thesis by (simp add: t_def)
qed

lemma pins_pin:
  assumes "pins_ok h s" "k \<in> set (public_keys s)" "h k < 2 ^ 16 - 2" "keys_ok s"
  shows "pins_ok (h(k := h k + 1)) (keystore_pin k s)"
proof -
  have "k \<notin> set (public_keys_to_verify s)" using assms(2,4) by (auto simp: keys_ok_def)
  moreover have "unat (pin_count (key_mem s k)) = h k + of_bool (pkitem s = Some k)" using assms(1,2) by (simp add: pins_ok_def)
  then have "unat (pin_count (key_mem s k)) + 1 < 2 ^ 16" using assms(3) by simp
  then have "unat (pin_count (key_mem s k) + 1) = unat (pin_count (key_mem s k)) + 1" by (simp add: unat_word_ariths)
  ultimately show ?thesis using assms(1,2) by (auto simp: pins_ok_def keystore_pin_def)
qed


text \<open>A step of the store, as its clients see it.\<close>

definition store_keeps :: "nat \<Rightarrow> (addr \<Rightarrow> nat) \<Rightarrow> 'c keystore \<Rightarrow> 'c keystore \<Rightarrow> bool" where
  "store_keeps p h s s' \<longleftrightarrow> pins_ok h s' \<and> held_kept h s s' \<and> jobs_kept p (vjobs s) (vjobs s')"

lemma keeps_drop:
  assumes "contiki_ok CT" "pins_ok h s"
  shows "store_keeps p h s (drop_unverified CT i s)"
  using assms(2) set_remove1_subset [of i "public_keys_to_verify s"]
  by (auto simp: store_keeps_def pins_ok_def held_kept_def drop_unverified_def list_remove_ok [OF assms(1)])

lemma keeps_poll:
  assumes "contiki_ok CT" "jobs_ok MESSAGES_TO_VERIFY_SIZE (vjobs s)" "pins_ok h s" "p \<noteq> keystore_add_verifier"
  shows "store_keeps p h s (on_poll CT NC K s)"
proof -
  let ?s = "s\<lparr>verifier_polled := False\<rparr>"
  have same: "store_keeps p h s t \<longleftrightarrow> store_keeps p h ?s t" for t by (simp add: store_keeps_def held_kept_def)
  have pins: "pins_ok h ?s" by (rule pins_ok_cong [OF assms(3)]) simp_all
  have refl: "store_keeps p h ?s ?s" using pins by (simp add: store_keeps_def held_kept_def)
  show ?thesis
  proof (cases "add_buffer_in_use s \<or> public_keys_to_verify s = []")
    case True
    then have "on_poll CT NC K s = ?s" by (auto simp: on_poll_def keystore_add_start_def)
    then show ?thesis using refl same by simp
  next
    case False
    then obtain i rest where l: "public_keys_to_verify s = i # rest" by (cases "public_keys_to_verify s") auto
    let ?en = "certificate_encode_tbs NC (cert (key_mem s i)) (encoder_init NC TBS_CERTIFICATE_CBOR_LENGTH)"
    let ?q = "queue_message_to_verify CT keystore_add_verifier i (tbs_message NC (cert (key_mem s i)))
      (word_of_nat (encoded_len NC (snd ?en) + DTLS_EC_SIG_SIZE)) (public_key (root_cert K)) (vjobs s)"
    obtain b js where q: "?q = (b, js)" by (rule prod.exhaust)
    have "on_poll CT NC K s = drop_unverified CT i ?s \<or> on_poll CT NC K s = drop_unverified CT i (?s\<lparr>vjobs := js\<rparr>) \<or>
        on_poll CT NC K s = ?s\<lparr>vjobs := js, add_buffer_in_use := True\<rparr>"
      using False l q by (simp add: on_poll_def keystore_add_start_def split_def Let_def)
    moreover have js: "jobs_kept p (vjobs s) js"
      by (rule jobs_kept_submit [OF assms(1,2) _ q]) (use assms(4) in simp)
    moreover have "pins_ok h (?s\<lparr>vjobs := js\<rparr>)" "pins_ok h (?s\<lparr>vjobs := js, add_buffer_in_use := True\<rparr>)"
      by (rule pins_ok_cong [OF assms(3)]; simp)+
    ultimately show ?thesis
      using keeps_drop [OF assms(1) pins, of p i] keeps_drop [OF assms(1), of h "?s\<lparr>vjobs := js\<rparr>" p i]
      by (elim disjE) (auto simp: store_keeps_def held_kept_def elim: jobs_kept_trans)
  qed
qed

lemma keeps_secret:
  assumes "pins_ok h s" "on_shared_secret K sec s = Some s'"
  shows "store_keeps p h s s'"
proof -
  obtain i where i: "pkitem s = Some i" using assms(2) by (auto simp: on_shared_secret_def split: option.splits)
  define t where "t = (case sec of None \<Rightarrow> s | Some k \<Rightarrow> generate_shared_secret K i k s)"
  have t: "public_keys t = public_keys s" "public_keys_to_verify t = public_keys_to_verify s" "pkitem t = pkitem s" "vjobs t = vjobs s"
      "\<And>k. cert (key_mem t k) = cert (key_mem s k)" "\<And>k. pin_count (key_mem t k) = pin_count (key_mem s k)"
    by (cases sec; simp add: t_def generate_shared_secret_def Let_def)+
  have n: "unat (pin_count (key_mem s i)) = h i + 1" "i \<in> set (public_keys s)" using assms(1) i by (auto simp: pins_ok_def)
  then have pos: "0 < pin_count (key_mem s i)" by (auto simp: word_less_nat_alt)
  then have u: "s' = t\<lparr>key_mem := (key_mem t)(i := (key_mem t i)\<lparr>pin_count := pin_count (key_mem s i) - 1\<rparr>), pkitem := None, verifier_polled := True\<rparr>"
    using assms(2) i by (simp add: on_shared_secret_def t_def [symmetric] Let_def keystore_unpin_def t(6))
  have "unat (pin_count (key_mem s i) - 1) = h i" using n(1) pos by (subst unat_minus_one) auto
  moreover have "i \<notin> set (public_keys_to_verify s)" using assms(1) pos by (auto simp: pins_ok_def)
  ultimately have "pins_ok h s'" using assms(1) i by (auto simp: pins_ok_def u t)
  then show ?thesis by (simp add: store_keeps_def held_kept_def u t)
qed

lemma keeps_verified:
  assumes "contiki_ok CT" "ks_inv NC K s" "pins_ok h s" "p \<noteq> keystore_add_verifier" "pkitem s = None"
    "job_posted (vjobs s) = (keystore_add_verifier, e) # ps"
  shows "store_keeps p h s (on_message_verified CT K e (s\<lparr>vjobs := (vjobs s)\<lparr>job_posted := ps\<rparr>\<rparr>))"
proof -
  let ?m = "job_mem (vjobs s) e" and ?js = "queue_message_to_verify_done CT e ((vjobs s)\<lparr>job_posted := ps\<rparr>)"
  let ?i = "v_data ?m"
  have post: "v_process ?m = keystore_add_verifier" using assms(2,6) by (auto simp: ks_inv_def posted_ok_def)
  then have "ks_job NC K s ?m" using assms(2,6) by (auto simp: ks_inv_def own_jobs_def job_entries_def)
  then have i: "?i \<in> set (public_keys_to_verify s)" by (simp add: ks_job_def)
  have k: "keys_ok s" using assms(2) by (simp add: ks_inv_def)
  then have ni: "?i \<notin> set (public_keys s)" using i by (auto simp: keys_ok_def)
  then have h: "h ?i = 0" using assms(3) by (auto simp: pins_ok_def)
  have js: "jobs_kept p (vjobs s) ?js"
    by (rule jobs_kept_done [OF jobs_ok_of_inv [OF assms(2)] assms(6)]) (use post assms(4) in simp)
  have rest: "set (remove1 ?i (public_keys_to_verify s)) \<subseteq> set (public_keys_to_verify s) - {?i}"
    using k by (auto simp: keys_ok_def)
  have pin: "pin_count (key_mem s ?i) = 0" using assms(3) i by (simp add: pins_ok_def)
  let ?r = "keystore_add_continued CT K e (s\<lparr>vjobs := (vjobs s)\<lparr>job_posted := ps\<rparr>\<rparr>)"
  show ?thesis
  proof (cases "crypto_success K (v_result ?m)")
    case True
    then have "on_message_verified CT K e (s\<lparr>vjobs := (vjobs s)\<lparr>job_posted := ps\<rparr>\<rparr>) =
        keystore_pin ?i (s\<lparr>public_keys_to_verify := remove1 ?i (public_keys_to_verify s), public_keys := ?i # public_keys s, vjobs := ?js,
          add_buffer_in_use := False, pkitem := Some ?i\<rparr>)"
      by (simp add: on_message_verified_def keystore_add_continued_def list_remove_ok [OF assms(1)] list_push_new [OF assms(1) ni] Let_def)
    moreover have "pins_ok h \<dots>"
      using assms(3,5) rest ni h pin by (auto simp: pins_ok_def keystore_pin_def)
    ultimately show ?thesis using js by (simp add: store_keeps_def held_kept_def keystore_pin_def)
  next
    case False
    then have "on_message_verified CT K e (s\<lparr>vjobs := (vjobs s)\<lparr>job_posted := ps\<rparr>\<rparr>) =
        (drop_unverified CT ?i (s\<lparr>vjobs := ?js\<rparr>))\<lparr>add_buffer_in_use := False, verifier_polled := True\<rparr>"
      by (simp add: on_message_verified_def keystore_add_continued_def drop_unverified_def Let_def)
    moreover have "pins_ok h \<dots>"
      using assms(3) rest by (auto simp: pins_ok_def drop_unverified_def list_remove_ok [OF assms(1)])
    ultimately show ?thesis using js by (simp add: store_keeps_def held_kept_def drop_unverified_def)
  qed
qed

lemma store_step_keeps:
  assumes "store_step CT NC K s s'" "contiki_ok CT" "ks_inv NC K s" "pins_ok h s" "p \<noteq> keystore_add_verifier"
  shows "store_keeps p h s s'"
  using assms(1)
proof cases
  case (add c b)
  then show ?thesis using pins_add [OF assms(2) _ assms(4), of K c] assms(3) by (simp add: store_keeps_def ks_inv_def)
next
  case (remove i b)
  then show ?thesis using pins_remove [OF assms(2) _ assms(4)] assms(3) by (auto simp: store_keeps_def ks_inv_def)
next
  case (request now sent a b p)
  then show ?thesis using pins_request [OF assms(4)] by (auto simp: store_keeps_def)
next
  case (answer c0 status code payload)
  then show ?thesis using pins_answer [OF assms(2) _ assms(4), of NC K c0 status code payload] assms(3) by (simp add: store_keeps_def ks_inv_def)
next
  case poll
  then show ?thesis using keeps_poll [OF assms(2) jobs_ok_of_inv [OF assms(3)] assms(4,5)] by simp
next
  case (verified e ps)
  then show ?thesis using keeps_verified [OF assms(2-5)] by simp
next
  case (secret sec)
  then show ?thesis using keeps_secret [OF assms(4)] by simp
next
  case (take js)
  then show ?thesis
    using jobs_kept_take [OF assms(2)] pins_ok_cong [OF assms(4), of "s\<lparr>vjobs := js\<rparr>"] by (simp add: store_keeps_def held_kept_def)
next
  case (finish e told js)
  then show ?thesis
    using jobs_kept_finish pins_ok_cong [OF assms(4), of "s\<lparr>vjobs := js\<rparr>"] by (auto simp: store_keeps_def held_kept_def)
qed


subsection \<open>The client's own operations\<close>

lemma client_submit:
  assumes "contiki_ok CT" "jobs_ok MESSAGES_TO_VERIFY_SIZE js" "queue_message_to_verify CT p dat msg len pk js = (b, js')"
  obtains (refused) "\<not> b" "js' = js" "length (job_entries js) = MESSAGES_TO_VERIFY_SIZE"
  | (queued) e where "b" "e \<notin> set (job_entries js)" "client_jobs p js' = insert e (client_jobs p js)"
      "\<And>f. f \<noteq> e \<Longrightarrow> job_mem js' f = job_mem js f" "v_data (job_mem js' e) = dat" "v_message (job_mem js' e) = msg"
      "v_message_len (job_mem js' e) = len" "v_pubkey (job_mem js' e) = pk" "length (job_entries js) < MESSAGES_TO_VERIFY_SIZE"
proof -
  let ?f = "\<lambda>e. e\<lparr>v_process := p, v_data := dat, v_message := msg, v_message_len := len, v_pubkey := pk\<rparr>"
  have q: "queue_job CT MESSAGES_TO_VERIFY_SIZE ?f js = (b, js')" using assms(3) by (simp add: queue_message_to_verify_def)
  show ?thesis using assms(1,2)
  proof (cases rule: queue_job_cases [where fill = ?f, consumes 2])
    case r: refused
    show ?thesis by (rule refused) (use q r in simp_all)
  next
    case (queued i)
    then have js': "b" "js' = js\<lparr>jobs_memb := insert i (jobs_memb js), job_mem := (job_mem js)(i := ?f (job_mem js i)), jobs_queue := jobs_queue js @ [i]\<rparr>"
      using q by simp_all
    have "set (job_entries js') = insert i (set (job_entries js))" by (auto simp: job_entries_def js')
    then have "client_jobs p js' = insert i (client_jobs p js)" using queued(3) by (auto simp: client_jobs_def js')
    moreover have "distinct (i # job_entries js)" "set (i # job_entries js) \<subseteq> {..<MESSAGES_TO_VERIFY_SIZE}"
      using queued(2,3) assms(2) by (auto simp: jobs_ok_def)
    from distinct_card_le [OF this] have "length (job_entries js) < MESSAGES_TO_VERIFY_SIZE" by simp
    ultimately show ?thesis by (intro that(2) [OF js'(1) queued(3)]) (simp_all add: js')
  qed
qed

lemma client_done:
  assumes "jobs_ok n js" "job_posted js = (q, e) # ps"
  shows "client_jobs p (queue_message_to_verify_done CT e (js\<lparr>job_posted := ps\<rparr>)) = client_jobs p js - {e}"
    "job_mem (queue_message_to_verify_done CT e (js\<lparr>job_posted := ps\<rparr>)) = job_mem js"
proof -
  let ?js = "queue_message_to_verify_done CT e (js\<lparr>job_posted := ps\<rparr>)"
  show m: "job_mem ?js = job_mem js" by (simp add: queue_message_to_verify_done_def job_done_def)
  have "distinct (job_entries js)" using assms(1) by (simp add: jobs_ok_def)
  then have "set (job_entries ?js) = set (job_entries js) - {e}"
    using assms(2) by (auto simp: job_entries_def queue_message_to_verify_done_def job_done_def)
  then show "client_jobs p ?js = client_jobs p js - {e}" by (auto simp: client_jobs_def m)
qed

lemma client_posted:
  assumes "ks_inv NC K s" "job_posted (vjobs s) = (p, e) # ps"
  shows "e \<in> client_jobs p (vjobs s)" "v_result (job_mem (vjobs s) e) = ecc_verify K (v_pubkey (job_mem (vjobs s) e)) (v_message (job_mem (vjobs s) e))"
  using assms by (auto simp: ks_inv_def posted_ok_def client_jobs_def job_entries_def)

lemma pins_ok_init:
  assumes "contiki_ok CT" "pkitem s = None"
  shows "pins_ok (\<lambda>_. 0) (snd (keystore_init CT K clk cur s))"
proof -
  let ?s = "s\<lparr>vjobs := crypto_support_init (vjobs s), public_keys_memb := {}, public_keys := [], public_keys_to_verify := [],
       key_in_use := timed_unlock_init (key_in_use s) ''keystore'' (1 * 60 * clk) cur, add_buffer_in_use := False\<rparr>"
  have "pins_ok (\<lambda>_. 0) ?s" "keys_ok ?s" using assms(2) by (simp_all add: pins_ok_def keys_ok_def)
  from pins_add [OF assms(1) this(2,1), of K "root_cert K"] show ?thesis by (simp add: keystore_init_def)
qed

lemma vjobs_keystore_init:
  assumes "contiki_ok CT"
  shows "vjobs (snd (keystore_init CT K clk cur s)) = crypto_support_init (vjobs s)"
proof -
  let ?s = "s\<lparr>vjobs := crypto_support_init (vjobs s), public_keys_memb := {}, public_keys := [], public_keys_to_verify := [],
       key_in_use := timed_unlock_init (key_in_use s) ''keystore'' (1 * 60 * clk) cur, add_buffer_in_use := False\<rparr>"
  have "keys_ok ?s" by (simp add: keys_ok_def)
  with assms have "vjobs (snd (keystore_add CT K (root_cert K) ?s)) = vjobs ?s"
    by (cases rule: keystore_add_cases [where K = K and c = "root_cert K", consumes 2]) (simp_all add: keystore_queue_def)
  then show ?thesis by (simp add: keystore_init_def)
qed


end
