(* ===== verification/Trust_Process.thy ===== *)
theory Trust_Process
  imports Keystore_Pins Trust_Exchange
begin

text \<open>
  \<open>src/wsn/node/trust/trust.c\<close>: the process of a node that sends its trust reports signed and merges those of others once their signature
  is verified.  Reports wait in two pools while \<open>Crypto_Support\<close> works on them.  A message is a pointer into the item's buffer; the job keeps the bytes it had when it was
  queued, and the signature is written behind the message in the buffer.  The build with periodic broadcasts and without OSCORE is modelled; \<open>outbox\<close> holds the requests
  handed to CoAP, all non-confirmable POSTs.
\<close>

definition TRUST_TX_SIZE :: nat where "TRUST_TX_SIZE = 2"

definition TRUST_RX_SIZE :: nat where "TRUST_RX_SIZE = 2"

definition ASK_RETRY_AFTER_CERTIFICATE_REQUEST :: nat where "ASK_RETRY_AFTER_CERTIFICATE_REQUEST = 5 * 60"

definition ASK_RETRY_AFTER_MEMORY_ALLOCATION_FAIL :: nat where "ASK_RETRY_AFTER_MEMORY_ALLOCATION_FAIL = 2 * 60"

definition ASK_RETRY_AFTER_QUEUE_FAIL :: nat where "ASK_RETRY_AFTER_QUEUE_FAIL = 2 * 60"

definition COAP_MAX_CHUNK_SIZE :: nat where "COAP_MAX_CHUNK_SIZE = 256"

definition MAX_TRUST_PAYLOAD :: nat where "MAX_TRUST_PAYLOAD = COAP_MAX_CHUNK_SIZE - DTLS_EC_SIG_SIZE"

definition TRUST_COAP_URI :: string where "TRUST_COAP_URI = ''trust''"

text \<open>The number of the process \<open>trust_model\<close>.\<close>

definition trust_model_process :: nat where "trust_model_process = 1"

datatype coap_status = CREATED_2_01 | BAD_REQUEST_4_00 | INTERNAL_SERVER_ERROR_5_00 | SERVICE_UNAVAILABLE_5_03

record coap_post =
  uri_path :: string
  content_format :: "nat option"
  random_token :: bool
  coap_payload :: "u8 list"

record trust_tx_item =
  tx_ep :: coap_endpoint
  tx_msg :: coap_post
  tx_buf :: "u8 list"

record trust_rx_item =
  rx_key :: addr
  rx_buf :: "u8 list"

record ('p, 'e, 'c, 'k) trust_node =
  tx_memb :: "addr set"
  tx_mem :: "addr \<Rightarrow> trust_tx_item"
  rx_memb :: "addr set"
  rx_mem :: "addr \<Rightarrow> trust_rx_item"
  sjobs :: "messages_to_sign_entry jobs"
  store :: "'k keystore"
  node_edges :: "('e, 'c) edge_info"
  node_peers :: "('p, 'e, 'c) peer_info"
  outbox :: "(coap_endpoint \<times> coap_post) list"

text \<open>
  What the process uses and does not change: the codec of the trust model, the key store's configuration, the address functions, the
  platform's signing (result and signature) and \<open>coap_set_payload\<close>.  \<open>ip_stack\<close> is what the local variable \<open>ipaddr\<close> holds before it is written.
\<close>

record ('p, 'e, 'c, 'k, 'en, 'de) trust_env =
  codec :: "('p, 'e, 'c, 'en, 'de) tm_codec"
  ksc :: "'k ks_config"
  set_addr_iid :: "ipaddr \<Rightarrow> u8 list \<Rightarrow> ipaddr"
  ip_stack :: ipaddr
  allnodes_mcast :: ipaddr
  ecc_sign :: "u8 list \<Rightarrow> u8 \<times> u8 list"
  set_payload :: "u8 list \<Rightarrow> u8 list"

abbreviation ect :: "('p, 'e, 'c, 'k, 'en, 'de) trust_env \<Rightarrow> contiki" where
  "ect E \<equiv> xct (codec E)"

definition coap_init_post :: coap_post where
  "coap_init_post = \<lparr>uri_path = TRUST_COAP_URI, content_format = None, random_token = False, coap_payload = []\<rparr>"

definition upd_tx :: "addr \<Rightarrow> (trust_tx_item \<Rightarrow> trust_tx_item) \<Rightarrow> ('p, 'e, 'c, 'k) trust_node \<Rightarrow> ('p, 'e, 'c, 'k) trust_node" where
  "upd_tx i f n = n\<lparr>tx_mem := (tx_mem n)(i := f (tx_mem n i))\<rparr>"

definition free_tx :: "('p, 'e, 'c, 'k, 'en, 'de) trust_env \<Rightarrow> addr \<Rightarrow> ('p, 'e, 'c, 'k) trust_node \<Rightarrow> ('p, 'e, 'c, 'k) trust_node" where
  "free_tx E i n = n\<lparr>tx_memb := snd (memb_free (ect E) TRUST_TX_SIZE (tx_memb n) i)\<rparr>"

definition free_rx :: "('p, 'e, 'c, 'k, 'en, 'de) trust_env \<Rightarrow> addr \<Rightarrow> ('p, 'e, 'c, 'k) trust_node \<Rightarrow> ('p, 'e, 'c, 'k) trust_node" where
  "free_rx E i n = n\<lparr>rx_memb := snd (memb_free (ect E) TRUST_RX_SIZE (rx_memb n) i)\<rparr>"

definition queue_tx :: "('p, 'e, 'c, 'k, 'en, 'de) trust_env \<Rightarrow> addr \<Rightarrow> nat \<Rightarrow> ('p, 'e, 'c, 'k) trust_node \<Rightarrow> bool \<times> ('p, 'e, 'c, 'k) trust_node" where
  "queue_tx E i len n =
     (case queue_message_to_sign (ect E) trust_model_process i (take len (tx_buf (tx_mem n i)))
         (word_of_nat (MAX_TRUST_PAYLOAD + DTLS_EC_SIG_SIZE)) (word_of_nat len) (sjobs n) of (ok, js) \<Rightarrow> (ok, n\<lparr>sjobs := js\<rparr>))"

text \<open>\<open>ep\<close> is the sender of the request, \<open>secs\<close> the clock.  The outer \<open>None\<close> is a failed assertion, the second component the \<open>Max-Age\<close> option.\<close>

definition res_trust_get_handler ::
  "('p, 'e, 'c, 'k, 'en, 'de) trust_env \<Rightarrow> u32 \<Rightarrow> coap_endpoint \<Rightarrow> u8 list \<Rightarrow> ('p, 'e, 'c, 'k) trust_node \<Rightarrow>
    ((coap_status option \<times> nat option) \<times> ('p, 'e, 'c, 'k) trust_node) option" where
  "res_trust_get_handler E secs src_ep payload n =
     (case memb_alloc (ect E) TRUST_TX_SIZE (tx_memb n) of
        (None, used) \<Rightarrow> Some ((Some SERVICE_UNAVAILABLE_5_03, Some ASK_RETRY_AFTER_MEMORY_ALLOCATION_FAIL), n\<lparr>tx_memb := used\<rparr>)
      | (Some i, used) \<Rightarrow>
          let n = upd_tx i (\<lambda>t. t\<lparr>tx_msg := coap_init_post\<rparr>) (n\<lparr>tx_memb := used\<rparr>);
              a = (if length payload = 16 then Some payload else None) in
          case serialise_trust (codec E) (node_edges n) secs a MAX_TRUST_PAYLOAD of
            None \<Rightarrow> None
          | Some (len, enc) \<Rightarrow>
              let n = upd_tx i (\<lambda>t. t\<lparr>tx_buf := enc_buffer (xnc (codec E)) enc\<rparr>) n in
              if len \<le> 0 \<or> int MAX_TRUST_PAYLOAD < len then Some ((Some INTERNAL_SERVER_ERROR_5_00, None), free_tx E i n)
              else let n = upd_tx i (\<lambda>t. t\<lparr>tx_msg := (tx_msg t)\<lparr>content_format := Some (application_cbor (ect E))\<rparr>, tx_ep := src_ep\<rparr>) n in
              case queue_tx E i (nat len) n of
                (True, n) \<Rightarrow> Some ((Some CREATED_2_01, None), n)
              | (False, n) \<Rightarrow> Some ((Some SERVICE_UNAVAILABLE_5_03, Some ASK_RETRY_AFTER_QUEUE_FAIL), free_tx E i n))"

definition res_trust_post_handler ::
  "('p, 'e, 'c, 'k, 'en, 'de) trust_env \<Rightarrow> nat \<Rightarrow> bool \<Rightarrow> coap_endpoint \<Rightarrow> u8 list \<Rightarrow> ('p, 'e, 'c, 'k) trust_node \<Rightarrow>
    ((coap_status option \<times> nat option) \<times> ('p, 'e, 'c, 'k) trust_node) option" where
  "res_trust_post_handler E now req_sent src_ep payload n =
     (if payload = [] \<or> MAX_TRUST_PAYLOAD + DTLS_EC_SIG_SIZE < length payload then Some ((Some BAD_REQUEST_4_00, None), n)
      else case keystore_find_addr (ksc E) (store n) (ipaddr src_ep) of
        None \<Rightarrow> Some ((Some SERVICE_UNAVAILABLE_5_03, Some ASK_RETRY_AFTER_CERTIFICATE_REQUEST),
          n\<lparr>store := fst (snd (request_public_key (ksc E) now req_sent (ipaddr src_ep) (store n)))\<rparr>)
      | Some key \<Rightarrow>
          (case memb_alloc (ect E) TRUST_RX_SIZE (rx_memb n) of
             (None, used) \<Rightarrow> Some ((Some SERVICE_UNAVAILABLE_5_03, Some ASK_RETRY_AFTER_MEMORY_ALLOCATION_FAIL), n\<lparr>rx_memb := used\<rparr>)
           | (Some i, used) \<Rightarrow>
               let item = \<lparr>rx_key = key, rx_buf = payload @ drop (length payload) (rx_buf (rx_mem n i))\<rparr>;
                   n = n\<lparr>rx_memb := used, rx_mem := (rx_mem n)(i := item), store := keystore_pin key (store n)\<rparr> in
               case queue_message_to_verify (ect E) trust_model_process i (take (length payload) (rx_buf item)) (word_of_nat (length payload))
                   (public_key (cert (key_mem (store n) key))) (vjobs (store n)) of
                 (True, js) \<Rightarrow> Some ((None, None), n\<lparr>store := (store n)\<lparr>vjobs := js\<rparr>\<rparr>)
               | (False, js) \<Rightarrow>
                   (case keystore_unpin key ((store n)\<lparr>vjobs := js\<rparr>) of
                      None \<Rightarrow> None
                    | Some s \<Rightarrow> Some ((Some SERVICE_UNAVAILABLE_5_03, Some ASK_RETRY_AFTER_QUEUE_FAIL), free_rx E i (n\<lparr>store := s\<rparr>)))))"

text \<open>\<open>None\<close> is a failed assertion, a report that is read past its end (a negative length) or a decoding loop that does not end.\<close>

definition merge_verified ::
  "('p, 'e, 'c, 'k, 'en, 'de) trust_env \<Rightarrow> trust_rx_item \<Rightarrow> nat \<Rightarrow> ('p, 'e, 'c, 'k) trust_node \<Rightarrow> ('p, 'e, 'c, 'k) trust_node option" where
  "merge_verified E item len n =
     (let src = eui64_to_ipaddr (set_addr_iid E) (root_ipaddr (ksc E)) (subject (cert (key_mem (store n) (rx_key item)))) (ip_stack E) in
      if len < DTLS_EC_SIG_SIZE then None
      else case process_received_trust (codec E) (node_edges n) src (take (len - DTLS_EC_SIG_SIZE) (rx_buf item)) (node_peers n) of
        None \<Rightarrow> None
      | Some (_, ps) \<Rightarrow> Some (n\<lparr>node_peers := ps\<rparr>))"

definition trust_rx_continue ::
  "('p, 'e, 'c, 'k, 'en, 'de) trust_env \<Rightarrow> addr \<Rightarrow> ('p, 'e, 'c, 'k) trust_node \<Rightarrow> ('p, 'e, 'c, 'k) trust_node option" where
  "trust_rx_continue E e n =
     (let entry = job_mem (vjobs (store n)) e; i = v_data entry; item = rx_mem n i in
      case (if crypto_success (ksc E) (v_result entry) then merge_verified E item (unat (v_message_len entry)) n else Some n) of
        None \<Rightarrow> None
      | Some n \<Rightarrow>
          (case keystore_unpin (rx_key item) (store n) of
             None \<Rightarrow> None
           | Some s \<Rightarrow> Some (free_rx E i (n\<lparr>store := s\<lparr>vjobs := queue_message_to_verify_done (ect E) e (vjobs s)\<rparr>\<rparr>))))"

definition periodic_action ::
  "('p, 'e, 'c, 'k, 'en, 'de) trust_env \<Rightarrow> u32 \<Rightarrow> ('p, 'e, 'c, 'k) trust_node \<Rightarrow> (bool \<times> ('p, 'e, 'c, 'k) trust_node) option" where
  "periodic_action E secs n =
     (case memb_alloc (ect E) TRUST_TX_SIZE (tx_memb n) of
        (None, used) \<Rightarrow> Some (False, n\<lparr>tx_memb := used\<rparr>)
      | (Some i, used) \<Rightarrow>
          let n = upd_tx i (\<lambda>t. t\<lparr>tx_ep := (tx_ep t)\<lparr>ipaddr := allnodes_mcast E, secure := 0, port := coap_default_port (ect E)\<rparr>,
                tx_msg := coap_init_post\<lparr>content_format := Some (application_cbor (ect E)), random_token := True\<rparr>\<rparr>) (n\<lparr>tx_memb := used\<rparr>) in
          case serialise_trust (codec E) (node_edges n) secs None MAX_TRUST_PAYLOAD of
            None \<Rightarrow> None
          | Some (len, enc) \<Rightarrow>
              let n = upd_tx i (\<lambda>t. t\<lparr>tx_buf := enc_buffer (xnc (codec E)) enc\<rparr>) n in
              if len \<le> 0 \<or> int MAX_TRUST_PAYLOAD < len then Some (False, free_tx E i n)
              else case queue_tx E i (nat len) n of
                (True, n) \<Rightarrow> Some (True, n)
              | (False, n) \<Rightarrow> Some (False, free_tx E i n))"

text \<open>\<open>sent\<close> says whether \<open>coap_send_request\<close> accepts the request.\<close>

definition trust_tx_continue ::
  "('p, 'e, 'c, 'k, 'en, 'de) trust_env \<Rightarrow> bool \<Rightarrow> addr \<Rightarrow> ('p, 'e, 'c, 'k) trust_node \<Rightarrow> ('p, 'e, 'c, 'k) trust_node" where
  "trust_tx_continue E sent e n =
     (let entry = job_mem (sjobs n) e; i = s_data entry;
          n = (if crypto_success (ksc E) (s_result entry)
               then let len = unat (s_message_len entry) + DTLS_EC_SIG_SIZE;
                        n = upd_tx i (\<lambda>t. t\<lparr>tx_msg := (tx_msg t)\<lparr>coap_payload := set_payload E (take len (tx_buf t))\<rparr>\<rparr>) n
                    in if sent then n\<lparr>outbox := outbox n @ [(tx_ep (tx_mem n i), tx_msg (tx_mem n i))]\<rparr> else n
               else n)
      in free_tx E i (n\<lparr>sjobs := queue_message_to_sign_done (ect E) e (sjobs n)\<rparr>))"

subsection \<open>The node over time\<close>

definition trust_process_init ::
  "('p, 'e, 'c, 'k, 'en, 'de) trust_env \<Rightarrow> nat \<Rightarrow> nat \<Rightarrow> ('p, 'e, 'c, 'k) trust_node \<Rightarrow> ('p, 'e, 'c, 'k) trust_node" where
  "trust_process_init E clk now n =
     n\<lparr>tx_memb := {}, rx_memb := {}, sjobs := crypto_support_init (sjobs n), store := snd (keystore_init (ect E) (ksc E) clk now (store n)),
       node_edges := edge_info_init (node_edges n), node_peers := peer_info_init (node_peers n)\<rparr>"

text \<open>The signer finishes the job \<open>e\<close> and writes the signature behind the message; \<open>told\<close> says whether its event can be posted.\<close>

definition sign_current :: "('p, 'e, 'c, 'k, 'en, 'de) trust_env \<Rightarrow> bool \<Rightarrow> addr \<Rightarrow> ('p, 'e, 'c, 'k) trust_node \<Rightarrow> ('p, 'e, 'c, 'k) trust_node option" where
  "sign_current E told e n =
     (let m = job_mem (sjobs n) e; (r, sig) = ecc_sign E (s_message m); len = length (s_message m) in
      case signer_finish r told (sjobs n) of
        None \<Rightarrow> None
      | Some js \<Rightarrow> Some (upd_tx (s_data m) (\<lambda>t. t\<lparr>tx_buf := take len (tx_buf t) @ sig @ drop (len + length sig) (tx_buf t)\<rparr>) (n\<lparr>sjobs := js\<rparr>)))"

text \<open>
  The process \<open>trust_model\<close> handles its timer, the two events of \<open>crypto-support.c\<close> and, on behalf of CoAP, the requests; the store, the signer and the verifier work in
  between, and the edges change with the messages published about them.
\<close>

inductive trust_step :: "('p, 'e, 'c, 'k, 'en, 'de) trust_env \<Rightarrow> ('p, 'e, 'c, 'k) trust_node \<Rightarrow> ('p, 'e, 'c, 'k) trust_node \<Rightarrow> bool"
  for E where
  get: "res_trust_get_handler E secs src_ep payload n = Some (r, n') \<Longrightarrow> trust_step E n n'"
| post: "res_trust_post_handler E now req_sent src_ep payload n = Some (r, n') \<Longrightarrow> trust_step E n n'"
| timer: "periodic_action E secs n = Some (b, n') \<Longrightarrow> trust_step E n n'"
| signed: "job_posted (sjobs n) = (trust_model_process, e) # ps \<Longrightarrow>
    trust_step E n (trust_tx_continue E sent e (n\<lparr>sjobs := (sjobs n)\<lparr>job_posted := ps\<rparr>\<rparr>))"
| verified: "\<lbrakk>job_posted (vjobs (store n)) = (trust_model_process, e) # ps;
      trust_rx_continue E e (n\<lparr>store := (store n)\<lparr>vjobs := (vjobs (store n))\<lparr>job_posted := ps\<rparr>\<rparr>\<rparr>) = Some n'\<rbrakk> \<Longrightarrow> trust_step E n n'"
| sign_take: "take_job (ect E) (sjobs n) = Some js \<Longrightarrow> trust_step E n (n\<lparr>sjobs := js\<rparr>)"
| sign_finish: "\<lbrakk>job_current (sjobs n) = Some e; sign_current E told e n = Some n'\<rbrakk> \<Longrightarrow> trust_step E n n'"
| keys: "store_step (ect E) (xnc (codec E)) (ksc E) (store n) s' \<Longrightarrow> trust_step E n (n\<lparr>store := s'\<rparr>)"
| edges: "trust_step E n (n\<lparr>node_edges := es\<rparr>)"

inductive trust_run :: "('p, 'e, 'c, 'k, 'en, 'de) trust_env \<Rightarrow> ('p, 'e, 'c, 'k) trust_node \<Rightarrow> ('p, 'e, 'c, 'k) trust_node \<Rightarrow> bool"
  for E where
  start: "trust_run E n n"
| step: "\<lbrakk>trust_run E n n'; trust_step E n' n''\<rbrakk> \<Longrightarrow> trust_run E n n''"

subsection \<open>Reports that wait to be verified\<close>

abbreviation report_jobs :: "('p, 'e, 'c, 'k) trust_node \<Rightarrow> addr set" where
  "report_jobs n \<equiv> client_jobs trust_model_process (vjobs (store n))"

abbreviation report_job :: "('p, 'e, 'c, 'k) trust_node \<Rightarrow> addr \<Rightarrow> messages_to_verify_entry" where
  "report_job n \<equiv> job_mem (vjobs (store n))"

text \<open>How many reports are waiting that were sent under a key.\<close>

definition held :: "('p, 'e, 'c, 'k) trust_node \<Rightarrow> addr \<Rightarrow> nat" where
  "held n k = card {i \<in> rx_memb n. rx_key (rx_mem n i) = k}"

text \<open>A job's message is what its item's buffer starts with, and it is verified under the key the item holds.\<close>

definition report_ok :: "trust_rx_item \<Rightarrow> 'k keystore \<Rightarrow> messages_to_verify_entry \<Rightarrow> bool" where
  "report_ok item s m \<longleftrightarrow> v_message m = take (length (v_message m)) (rx_buf item) \<and> unat (v_message_len m) = length (v_message m) \<and>
     v_pubkey m = public_key (cert (key_mem s (rx_key item)))"

definition rx_ok :: "('p, 'e, 'c, 'k) trust_node \<Rightarrow> bool" where
  "rx_ok n \<longleftrightarrow> rx_memb n \<subseteq> {..<TRUST_RX_SIZE} \<and> bij_betw (\<lambda>e. v_data (report_job n e)) (report_jobs n) (rx_memb n) \<and>
     (\<forall>e\<in>report_jobs n. report_ok (rx_mem n (v_data (report_job n e))) (store n) (report_job n e)) \<and> pins_ok (held n) (store n)"

lemma held_le: "rx_memb n \<subseteq> {..<TRUST_RX_SIZE} \<Longrightarrow> held n k \<le> 2"
proof -
  assume "rx_memb n \<subseteq> {..<TRUST_RX_SIZE}"
  then have "{i \<in> rx_memb n. rx_key (rx_mem n i) = k} \<subseteq> {..<2}" by (auto simp: TRUST_RX_SIZE_def)
  from card_mono [OF _ this] show ?thesis by (simp add: held_def)
qed

lemma held_pos: "\<lbrakk>rx_memb n \<subseteq> {..<TRUST_RX_SIZE}; i \<in> rx_memb n\<rbrakk> \<Longrightarrow> 0 < held n (rx_key (rx_mem n i))"
  unfolding held_def by (rule card_gt_0_iff [THEN iffD2]) (auto intro: finite_subset)

lemma held_cong: "\<lbrakk>rx_memb n' = rx_memb n; rx_mem n' = rx_mem n\<rbrakk> \<Longrightarrow> held n' = held n"
  by (simp add: held_def fun_eq_iff)

lemma held_insert:
  assumes "rx_memb n \<subseteq> {..<TRUST_RX_SIZE}" "i \<notin> rx_memb n" "rx_memb n' = insert i (rx_memb n)" "rx_mem n' = (rx_mem n)(i := item)"
  shows "held n' = (held n)(rx_key item := held n (rx_key item) + 1)"
proof
  fix k
  have "{j \<in> rx_memb n'. rx_key (rx_mem n' j) = k} = (if k = rx_key item then insert i {j \<in> rx_memb n. rx_key (rx_mem n j) = k} else {j \<in> rx_memb n. rx_key (rx_mem n j) = k})"
    using assms(2) by (auto simp: assms(3,4))
  moreover have "finite {j \<in> rx_memb n. rx_key (rx_mem n j) = k}" using assms(1) by (auto intro: finite_subset)
  ultimately show "held n' k = ((held n)(rx_key item := held n (rx_key item) + 1)) k" using assms(2) by (auto simp: held_def)
qed

lemma held_remove:
  assumes "rx_memb n \<subseteq> {..<TRUST_RX_SIZE}" "i \<in> rx_memb n" "rx_memb n' = rx_memb n - {i}" "rx_mem n' = rx_mem n"
  shows "held n' = (held n)(rx_key (rx_mem n i) := held n (rx_key (rx_mem n i)) - 1)"
proof
  fix k
  have "{j \<in> rx_memb n'. rx_key (rx_mem n' j) = k} = (if k = rx_key (rx_mem n i) then {j \<in> rx_memb n. rx_key (rx_mem n j) = k} - {i} else {j \<in> rx_memb n. rx_key (rx_mem n j) = k})"
    using assms(2) by (auto simp: assms(3,4))
  then show "held n' k = ((held n)(rx_key (rx_mem n i) := held n (rx_key (rx_mem n i)) - 1)) k" using assms(2) by (simp add: held_def)
qed

lemma rx_ok_cong:
  "\<lbrakk>rx_ok n; rx_memb n' = rx_memb n; rx_mem n' = rx_mem n; store n' = store n\<rbrakk> \<Longrightarrow> rx_ok n'"
  using held_cong [of n' n] by (simp add: rx_ok_def)

lemma rx_ok_keys:
  assumes "rx_ok n" "store_keeps trust_model_process (held n) (store n) s'"
  shows "rx_ok (n\<lparr>store := s'\<rparr>)"
proof -
  have j: "client_jobs trust_model_process (vjobs s') = report_jobs n" "\<And>e. e \<in> report_jobs n \<Longrightarrow> same_entry (report_job n e) (job_mem (vjobs s') e)"
    using assms(2) by (simp_all add: store_keeps_def jobs_kept_def)
  have b: "bij_betw (\<lambda>e. v_data (report_job n e)) (report_jobs n) (rx_memb n)" using assms(1) by (simp add: rx_ok_def)
  have "bij_betw (\<lambda>e. v_data (job_mem (vjobs s') e)) (report_jobs n) (rx_memb n)"
    using b j(2) by (subst bij_betw_cong [where g = "\<lambda>e. v_data (report_job n e)"]) (auto simp: same_entry_def same_job_def)
  moreover have "report_ok (rx_mem n (v_data (job_mem (vjobs s') e))) s' (job_mem (vjobs s') e)" if e: "e \<in> report_jobs n" for e
  proof -
    have "v_data (report_job n e) \<in> rx_memb n" using b e by (auto simp: bij_betw_def)
    then have "0 < held n (rx_key (rx_mem n (v_data (report_job n e))))" using assms(1) by (intro held_pos) (simp_all add: rx_ok_def)
    then have "cert (key_mem s' (rx_key (rx_mem n (v_data (report_job n e))))) = cert (key_mem (store n) (rx_key (rx_mem n (v_data (report_job n e)))))"
      using assms(2) by (simp add: store_keeps_def held_kept_def)
    moreover have "report_ok (rx_mem n (v_data (report_job n e))) (store n) (report_job n e)" using assms(1) e by (simp add: rx_ok_def)
    ultimately show ?thesis using j(2) [OF e] by (simp add: report_ok_def same_entry_def same_job_def)
  qed
  moreover have "held (n\<lparr>store := s'\<rparr>) = held n" by (rule held_cong) simp_all
  ultimately show ?thesis using assms by (simp add: rx_ok_def store_keeps_def j(1))
qed


lemma find_addr_public: "keystore_find_addr K s a = Some key \<Longrightarrow> key \<in> set (public_keys s)"
  by (auto simp: keystore_find_addr_def keystore_find_def keystore_find_in_list_def dest!: find_SomeD)

lemma pin_unpin:
  assumes "unat (pin_count (key_mem s key)) + 1 < 2 ^ 16"
  shows "keystore_unpin key (keystore_pin key s) = Some s"
proof -
  have "unat (pin_count (key_mem s key) + 1) = unat (pin_count (key_mem s key)) + 1" using assms by (simp add: unat_word_ariths)
  then have "0 < pin_count (key_mem s key) + 1" by (simp add: word_less_nat_alt)
  then show ?thesis by (simp add: keystore_unpin_def keystore_pin_def)
qed

definition new_report :: "addr \<Rightarrow> u8 list \<Rightarrow> trust_rx_item \<Rightarrow> trust_rx_item" where
  "new_report key payload old = \<lparr>rx_key = key, rx_buf = payload @ drop (length payload) (rx_buf old)\<rparr>"

lemma post_handler_cases:
  assumes "contiki_ok (ect E)" "ks_inv NC (ksc E) (store n)" "rx_ok n"
  obtains (bad) "payload = [] \<or> 256 < length payload" "res_trust_post_handler E now snt src_ep payload n = Some ((Some BAD_REQUEST_4_00, None), n)"
  | (unknown) "payload \<noteq> []" "length payload \<le> 256" "keystore_find_addr (ksc E) (store n) (ipaddr src_ep) = None"
      "res_trust_post_handler E now snt src_ep payload n = Some ((Some SERVICE_UNAVAILABLE_5_03, Some 300),
         n\<lparr>store := fst (snd (request_public_key (ksc E) now snt (ipaddr src_ep) (store n)))\<rparr>)"
  | (full) "payload \<noteq> []" "length payload \<le> 256" "keystore_find_addr (ksc E) (store n) (ipaddr src_ep) \<noteq> None" "rx_memb n = {..<TRUST_RX_SIZE}"
      "res_trust_post_handler E now snt src_ep payload n = Some ((Some SERVICE_UNAVAILABLE_5_03, Some 120), n)"
  | (refused) i item where "payload \<noteq> []" "length payload \<le> 256" "keystore_find_addr (ksc E) (store n) (ipaddr src_ep) \<noteq> None" "i \<notin> rx_memb n"
      "length (job_entries (vjobs (store n))) = MESSAGES_TO_VERIFY_SIZE"
      "res_trust_post_handler E now snt src_ep payload n = Some ((Some SERVICE_UNAVAILABLE_5_03, Some 120), n\<lparr>rx_mem := (rx_mem n)(i := item)\<rparr>)"
  | (queued) i key js where "payload \<noteq> []" "length payload \<le> 256" "keystore_find_addr (ksc E) (store n) (ipaddr src_ep) = Some key" "i < TRUST_RX_SIZE" "i \<notin> rx_memb n"
      "queue_message_to_verify (ect E) trust_model_process i payload (word_of_nat (length payload)) (public_key (cert (key_mem (store n) key))) (vjobs (store n)) = (True, js)"
      "res_trust_post_handler E now snt src_ep payload n = Some ((None, None), n\<lparr>rx_memb := insert i (rx_memb n), rx_mem := (rx_mem n)(i := new_report key payload (rx_mem n i)),
         store := (keystore_pin key (store n))\<lparr>vjobs := js\<rparr>\<rparr>)"
proof -
  have sizes: "MAX_TRUST_PAYLOAD + DTLS_EC_SIG_SIZE = 256" "ASK_RETRY_AFTER_CERTIFICATE_REQUEST = 300" "ASK_RETRY_AFTER_MEMORY_ALLOCATION_FAIL = 120" "ASK_RETRY_AFTER_QUEUE_FAIL = 120"
    by (simp_all add: MAX_TRUST_PAYLOAD_def DTLS_EC_SIG_SIZE_def DTLS_EC_KEY_SIZE_def COAP_MAX_CHUNK_SIZE_def ASK_RETRY_AFTER_CERTIFICATE_REQUEST_def
        ASK_RETRY_AFTER_MEMORY_ALLOCATION_FAIL_def ASK_RETRY_AFTER_QUEUE_FAIL_def)
  show ?thesis
  proof (cases "payload = [] \<or> 256 < length payload")
    case True
    then show ?thesis by (rule bad) (use True in \<open>simp add: res_trust_post_handler_def sizes del: One_nat_def\<close>)
  next
    case False
    then have len: "payload \<noteq> []" "length payload \<le> 256" by auto
    have body: "(payload = [] \<or> 256 < length payload) = False" using False by simp
    show ?thesis
    proof (cases "keystore_find_addr (ksc E) (store n) (ipaddr src_ep)")
      case None
      show ?thesis by (rule unknown [OF len None]) (simp only: res_trust_post_handler_def body None option.case sizes if_False)
    next
      case key: (Some key)
      have sub: "rx_memb n \<subseteq> {..<TRUST_RX_SIZE}" using assms(3) by (simp add: rx_ok_def)
      have pub: "key \<in> set (public_keys (store n))" by (rule find_addr_public [OF key])
      have "unat (pin_count (key_mem (store n) key)) = held n key + of_bool (pkitem (store n) = Some key)"
        using assms(3) pub by (simp add: rx_ok_def pins_ok_def)
      then have "unat (pin_count (key_mem (store n) key)) + 1 < 2 ^ 16" using held_le [OF sub, of key] by (simp add: of_bool_def split: if_splits)
      then have up: "keystore_unpin key (keystore_pin key (store n)) = Some (store n)" by (rule pin_unpin)
      obtain r used where al: "memb_alloc (ect E) TRUST_RX_SIZE (rx_memb n) = (r, used)" by fastforce
      show ?thesis
      proof (cases r)
        case None
        then have eq: "rx_memb n = {..<TRUST_RX_SIZE}" "used = rx_memb n" using memb_alloc_None [OF assms(1) sub] al by simp_all
        then have "n\<lparr>rx_memb := used\<rparr> = n" by simp
        then show ?thesis
          by (intro full [OF len _ eq(1)])
            (simp_all only: res_trust_post_handler_def body key al None sizes option.case prod.case if_False option.simps not_False_eq_True)
      next
        case (Some i)
        then have i: "i < TRUST_RX_SIZE" "i \<notin> rx_memb n" "used = insert i (rx_memb n)" using memb_alloc_Some [OF assms(1) sub] al by auto
        have pk: "public_key (cert (key_mem (keystore_pin key (store n)) key)) = public_key (cert (key_mem (store n) key))"
          "vjobs (keystore_pin key (store n)) = vjobs (store n)" by (simp_all add: keystore_pin_def)
        obtain b js where q: "queue_message_to_verify (ect E) trust_model_process i payload (word_of_nat (length payload)) (public_key (cert (key_mem (store n) key))) (vjobs (store n)) = (b, js)"
          by fastforce
        show ?thesis
          using assms(1) jobs_ok_of_inv [OF assms(2)] q
        proof (cases rule: client_submit)
          case refused
          have same: "(keystore_pin key (store n))\<lparr>vjobs := vjobs (store n)\<rparr> = keystore_pin key (store n)" by (simp add: keystore_pin_def)
          have "memb_free (ect E) TRUST_RX_SIZE (insert i (rx_memb n)) i = (0, rx_memb n)"
            using i by (simp add: memb_free_used [OF assms(1)])
          then show ?thesis
            using q refused key i(2)
            by (intro that(4) [OF len, of i "new_report key payload (rx_mem n i)"])
              (simp_all add: res_trust_post_handler_def body al Some i(3) pk Let_def same up free_rx_def sizes new_report_def del: One_nat_def)
        next
          case (queued e)
          then show ?thesis
            using q key i
            by (intro that(5) [OF len, of key i js])
              (simp_all add: res_trust_post_handler_def sizes body al Some pk Let_def new_report_def)
        qed
      qed
    qed
  qed
qed


lemma rx_ok_queued:
  assumes "contiki_ok CT" "ks_inv NC K (store n)" "rx_ok n" "length payload \<le> 256" "key \<in> set (public_keys (store n))" "i < TRUST_RX_SIZE" "i \<notin> rx_memb n"
    "queue_message_to_verify CT trust_model_process i payload (word_of_nat (length payload)) (public_key (cert (key_mem (store n) key))) (vjobs (store n)) = (True, js)"
  shows "rx_ok (n\<lparr>rx_memb := insert i (rx_memb n), rx_mem := (rx_mem n)(i := new_report key payload old), store := (keystore_pin key (store n))\<lparr>vjobs := js\<rparr>\<rparr>)"
    (is "rx_ok ?n")
proof -
  have sub: "rx_memb n \<subseteq> {..<TRUST_RX_SIZE}" and b: "bij_betw (\<lambda>e. v_data (report_job n e)) (report_jobs n) (rx_memb n)" and pins: "pins_ok (held n) (store n)"
    and rep: "\<And>e. e \<in> report_jobs n \<Longrightarrow> report_ok (rx_mem n (v_data (report_job n e))) (store n) (report_job n e)"
    using assms(3) by (simp_all add: rx_ok_def)
  obtain e where e: "e \<notin> set (job_entries (vjobs (store n)))" "client_jobs trust_model_process js = insert e (report_jobs n)"
      "\<And>f. f \<noteq> e \<Longrightarrow> job_mem js f = report_job n f" "v_data (job_mem js e) = i" "v_message (job_mem js e) = payload"
      "v_message_len (job_mem js e) = word_of_nat (length payload)" "v_pubkey (job_mem js e) = public_key (cert (key_mem (store n) key))"
    using assms(1) jobs_ok_of_inv [OF assms(2)] assms(8) by (cases rule: client_submit) auto
  have "e \<notin> report_jobs n" using e(1) by (simp add: client_jobs_def)
  then have ne: "f \<noteq> e" if "f \<in> report_jobs n" for f using that by blast
  have old: "v_data (report_job n f) \<in> rx_memb n" if "f \<in> report_jobs n" for f using that b by (auto simp: bij_betw_def)
  have c: "cert (key_mem (keystore_pin key (store n)) k) = cert (key_mem (store n) k)" for k by (simp add: keystore_pin_def)
  have "held ?n = (held n)(key := held n key + 1)"
    using held_insert [OF sub assms(7), of ?n "new_report key payload old"] by (simp add: new_report_def)
  moreover have "pins_ok ((held n)(key := held n key + 1)) (keystore_pin key (store n))"
    using held_le [OF sub, of key] assms(2) by (intro pins_pin [OF pins assms(5)]) (simp_all add: ks_inv_def)
  then have "pins_ok ((held n)(key := held n key + 1)) ((keystore_pin key (store n))\<lparr>vjobs := js\<rparr>)" by (rule pins_ok_cong) simp_all
  moreover have "bij_betw (\<lambda>e. v_data (job_mem js e)) (insert e (report_jobs n)) (insert i (rx_memb n))"
  proof -
    have "bij_betw (\<lambda>e. v_data (job_mem js e)) (report_jobs n) (rx_memb n)"
      using b ne e(3) by (subst bij_betw_cong [where g = "\<lambda>e. v_data (report_job n e)"]) auto
    from notIn_Un_bij_betw [OF \<open>e \<notin> report_jobs n\<close> _ this] show ?thesis using assms(7) by (simp add: e(4))
  qed
  moreover have "report_ok (rx_mem ?n (v_data (job_mem js f))) (store ?n) (job_mem js f)" if f: "f \<in> insert e (report_jobs n)" for f
  proof (cases "f = e")
    case True
    have "length payload < 2 ^ 16" using assms(4) by simp
    then have "unat (word_of_nat (length payload) :: u16) = length payload" by (simp add: unat_of_nat)
    then show ?thesis using True e by (simp add: report_ok_def new_report_def c)
  next
    case False
    then have "f \<in> report_jobs n" "v_data (report_job n f) \<noteq> i" using f old assms(7) by auto
    then show ?thesis using rep [of f] False e(3) by (simp add: report_ok_def c)
  qed
  ultimately show ?thesis using sub assms(6) e(2) by (simp add: rx_ok_def)
qed

text \<open>A report leaves: its job and its block are given back and its key is released.\<close>

lemma rx_ok_done:
  assumes "contiki_ok (ect E)" "ks_inv NC K (store n)" "rx_ok n" "job_posted (vjobs (store n)) = (trust_model_process, e) # ps"
    "i = v_data (report_job n e)" "t = n\<lparr>store := (store n)\<lparr>vjobs := (vjobs (store n))\<lparr>job_posted := ps\<rparr>\<rparr>, node_peers := qs\<rparr>"
  shows "\<exists>s. keystore_unpin (rx_key (rx_mem n i)) (store t) = Some s \<and>
    rx_ok (free_rx E i (t\<lparr>store := s\<lparr>vjobs := queue_message_to_verify_done (ect E) e (vjobs s)\<rparr>\<rparr>)) \<and>
    ks_inv NC K (s\<lparr>vjobs := queue_message_to_verify_done (ect E) e (vjobs s)\<rparr>)"
proof -
  let ?key = "rx_key (rx_mem n i)" and ?js = "queue_message_to_verify_done (ect E) e ((vjobs (store n))\<lparr>job_posted := ps\<rparr>)"
  have sub: "rx_memb n \<subseteq> {..<TRUST_RX_SIZE}" and b: "bij_betw (\<lambda>e. v_data (report_job n e)) (report_jobs n) (rx_memb n)" and pins: "pins_ok (held n) (store n)"
    and rep: "\<And>e. e \<in> report_jobs n \<Longrightarrow> report_ok (rx_mem n (v_data (report_job n e))) (store n) (report_job n e)"
    using assms(3) by (simp_all add: rx_ok_def)
  have e: "e \<in> report_jobs n" by (rule client_posted(1) [OF assms(2,4)])
  then have i: "i \<in> rx_memb n" "i < TRUST_RX_SIZE" using b sub by (auto simp: bij_betw_def assms(5))
  have pos: "0 < held n ?key" by (rule held_pos [OF sub i(1)])
  have "pins_ok (held n) (store t)" by (rule pins_ok_cong [OF pins]) (simp_all add: assms(6))
  from pins_unpin [OF this refl pos refl] obtain s where s: "keystore_unpin ?key (store t) = Some s" "pins_ok ((held n)(?key := held n ?key - 1)) s"
      "\<And>j. cert (key_mem s j) = cert (key_mem (store n) j)" "vjobs s = (vjobs (store n))\<lparr>job_posted := ps\<rparr>"
    by (auto simp: assms(6))
  let ?n = "free_rx E i (t\<lparr>store := s\<lparr>vjobs := queue_message_to_verify_done (ect E) e (vjobs s)\<rparr>\<rparr>)"
  have n: "rx_memb ?n = rx_memb n - {i}" "rx_mem ?n = rx_mem n" "store ?n = s\<lparr>vjobs := ?js\<rparr>"
    using i by (simp_all add: free_rx_def memb_free_used [OF assms(1)] assms(6) s(4))
  note gone = client_done [OF jobs_ok_of_inv [OF assms(2)] assms(4), where CT = "ect E"]
  have "held ?n = (held n)(?key := held n ?key - 1)" by (rule held_remove [OF sub i(1) n(1,2)])
  moreover have "pins_ok ((held n)(?key := held n ?key - 1)) (s\<lparr>vjobs := ?js\<rparr>)" by (rule pins_ok_cong [OF s(2)]) simp_all
  moreover have "bij_betw (\<lambda>f. v_data (report_job n f)) (report_jobs n - {e}) (rx_memb n - {i})"
    using bij_betw_DiffI [OF b bij_betw_singletonI [of "\<lambda>f. v_data (report_job n f)" e i]] e assms(5) i(1) by simp
  moreover have "report_ok (rx_mem n (v_data (report_job n f))) (s\<lparr>vjobs := ?js\<rparr>) (report_job n f)" if "f \<in> report_jobs n - {e}" for f
    using rep [of f] that s(3) by (simp add: report_ok_def)
  ultimately have "rx_ok ?n" using sub unfolding rx_ok_def n by (simp add: gone) blast
  moreover have "ks_inv NC K (s\<lparr>vjobs := queue_message_to_verify_done (ect E) e (vjobs s)\<rparr>)"
  proof -
    have u: "keystore_unpin ?key ((store n)\<lparr>vjobs := ?js\<rparr>) = Some (s\<lparr>vjobs := ?js\<rparr>)"
      using s(1) by (auto simp: keystore_unpin_def assms(6) split: if_splits)
    show ?thesis unfolding s(4) by (rule ks_inv_frame(2) [OF ks_inv_done [OF assms(1,2,4)] u])
  qed
  ultimately show ?thesis using s(1) by blast
qed


subsection \<open>Reports that wait to be signed\<close>

definition is_report :: "('p, 'e, 'c, 'k, 'en, 'de) trust_env \<Rightarrow> u8 list \<Rightarrow> bool" where
  "is_report E m \<longleftrightarrow> (\<exists>es secs a enc. serialise_trust (codec E) es secs a MAX_TRUST_PAYLOAD = Some (int (length m), enc) \<and>
     m = take (length m) (enc_buffer (xnc (codec E)) enc))"

abbreviation sign_job :: "('p, 'e, 'c, 'k) trust_node \<Rightarrow> addr \<Rightarrow> messages_to_sign_entry" where
  "sign_job n \<equiv> job_mem (sjobs n)"

definition tx_job_ok :: "('p, 'e, 'c, 'k, 'en, 'de) trust_env \<Rightarrow> trust_tx_item \<Rightarrow> messages_to_sign_entry \<Rightarrow> bool" where
  "tx_job_ok E item m \<longleftrightarrow> s_process m = trust_model_process \<and> is_report E (s_message m) \<and> unat (s_message_len m) = length (s_message m) \<and>
     take (length (s_message m)) (tx_buf item) = s_message m"

definition signed_ok :: "('p, 'e, 'c, 'k, 'en, 'de) trust_env \<Rightarrow> trust_tx_item \<Rightarrow> messages_to_sign_entry \<Rightarrow> bool" where
  "signed_ok E item m \<longleftrightarrow> s_result m = fst (ecc_sign E (s_message m)) \<and>
     take (length (s_message m) + length (snd (ecc_sign E (s_message m)))) (tx_buf item) = s_message m @ snd (ecc_sign E (s_message m))"

definition tx_ok :: "('p, 'e, 'c, 'k, 'en, 'de) trust_env \<Rightarrow> ('p, 'e, 'c, 'k) trust_node \<Rightarrow> bool" where
  "tx_ok E n \<longleftrightarrow> jobs_ok MESSAGES_TO_SIGN_SIZE (sjobs n) \<and> tx_memb n \<subseteq> {..<TRUST_TX_SIZE} \<and>
     bij_betw (\<lambda>e. s_data (sign_job n e)) (set (job_entries (sjobs n))) (tx_memb n) \<and>
     (\<forall>e\<in>set (job_entries (sjobs n)). tx_job_ok E (tx_mem n (s_data (sign_job n e))) (sign_job n e)) \<and>
     (\<forall>(p, e)\<in>set (job_posted (sjobs n)). p = trust_model_process \<and> signed_ok E (tx_mem n (s_data (sign_job n e))) (sign_job n e))"

text \<open>The other fields of a node: nothing that concerns outgoing reports touches them.\<close>

definition same_rx :: "('p, 'e, 'c, 'k) trust_node \<Rightarrow> ('p, 'e, 'c, 'k) trust_node \<Rightarrow> bool" where
  "same_rx n n' \<longleftrightarrow> rx_memb n' = rx_memb n \<and> rx_mem n' = rx_mem n \<and> store n' = store n \<and> node_edges n' = node_edges n \<and> node_peers n' = node_peers n"

lemma tx_posted: "\<lbrakk>tx_ok E n; (p, e) \<in> set (job_posted (sjobs n))\<rbrakk> \<Longrightarrow> e \<in> set (job_entries (sjobs n))"
  by (force simp: job_entries_def)

lemma tx_data: "\<lbrakk>tx_ok E n; e \<in> set (job_entries (sjobs n))\<rbrakk> \<Longrightarrow> s_data (sign_job n e) \<in> tx_memb n"
  by (auto simp: tx_ok_def bij_betw_def)

lemma tx_data_inj:
  "\<lbrakk>tx_ok E n; e \<in> set (job_entries (sjobs n)); f \<in> set (job_entries (sjobs n)); s_data (sign_job n e) = s_data (sign_job n f)\<rbrakk> \<Longrightarrow> e = f"
  by (auto simp: tx_ok_def bij_betw_def inj_on_def)

lemma tx_ok_cong:
  assumes "tx_ok E n" "sjobs n' = sjobs n" "tx_memb n' = tx_memb n" "\<And>i. i \<in> tx_memb n \<Longrightarrow> tx_mem n' i = tx_mem n i"
  shows "tx_ok E n'"
proof -
  have d: "tx_mem n' (s_data (sign_job n e)) = tx_mem n (s_data (sign_job n e))" if "e \<in> set (job_entries (sjobs n))" for e
    using tx_data [OF assms(1) that] assms(4) by simp
  then have "tx_mem n' (s_data (sign_job n e)) = tx_mem n (s_data (sign_job n e))" if "(p, e) \<in> set (job_posted (sjobs n))" for p e
    using tx_posted [OF assms(1) that] by simp
  then show ?thesis using assms(1) d unfolding tx_ok_def assms(2,3) by fastforce
qed

lemma queue_tx_cases:
  assumes "contiki_ok (ect E)" "jobs_ok MESSAGES_TO_SIGN_SIZE (sjobs n)" "queue_tx E i len n = (b, n')"
  obtains (refused) "\<not> b" "n' = n"
  | (queued) e where "b" "e \<notin> set (job_entries (sjobs n))" "n' = n\<lparr>sjobs := sjobs n'\<rparr>" "jobs_ok MESSAGES_TO_SIGN_SIZE (sjobs n')"
      "set (job_entries (sjobs n')) = insert e (set (job_entries (sjobs n)))" "\<And>f. f \<noteq> e \<Longrightarrow> sign_job n' f = sign_job n f" "job_posted (sjobs n') = job_posted (sjobs n)"
      "s_process (sign_job n' e) = trust_model_process" "s_data (sign_job n' e) = i" "s_message (sign_job n' e) = take len (tx_buf (tx_mem n i))"
      "s_message_len (sign_job n' e) = word_of_nat len"
proof -
  let ?f = "\<lambda>e. e\<lparr>s_process := trust_model_process, s_data := i, s_message := take len (tx_buf (tx_mem n i)),
    s_message_buffer_len := word_of_nat (MAX_TRUST_PAYLOAD + DTLS_EC_SIG_SIZE), s_message_len := word_of_nat len\<rparr>"
  obtain js where q: "queue_job (ect E) MESSAGES_TO_SIGN_SIZE ?f (sjobs n) = (b, js)" "n' = n\<lparr>sjobs := js\<rparr>"
    using assms(3) by (auto simp: queue_tx_def queue_message_to_sign_def split: prod.splits)
  show ?thesis using assms(1,2)
  proof (cases rule: queue_job_cases [where fill = ?f, consumes 2])
    case r: refused
    show ?thesis by (rule refused) (use q r in simp_all)
  next
    case (queued e)
    then have js: "b" "js = (sjobs n)\<lparr>jobs_memb := insert e (jobs_memb (sjobs n)), job_mem := (job_mem (sjobs n))(e := ?f (job_mem (sjobs n) e)), jobs_queue := jobs_queue (sjobs n) @ [e]\<rparr>"
      using q by simp_all
    have "jobs_ok MESSAGES_TO_SIGN_SIZE js"
      by (rule job_step_ok [OF job_step.submit [OF q(1), where proc = s_process and store = "\<lambda>r e. e"] assms(1,2)])
    moreover have "set (job_entries js) = insert e (set (job_entries (sjobs n)))" by (auto simp: job_entries_def js(2))
    ultimately show ?thesis by (intro that(2) [OF js(1) queued(3)]) (simp_all add: q(2) js(2))
  qed
qed

lemma tx_ok_queue:
  assumes "contiki_ok (ect E)" "tx_ok E n" "i < TRUST_TX_SIZE" "i \<notin> tx_memb n" "n1 = n\<lparr>tx_memb := insert i (tx_memb n), tx_mem := (tx_mem n)(i := t)\<rparr>"
    "is_report E (take len (tx_buf t))" "length (take len (tx_buf t)) = len" "len < 2 ^ 16" "queue_tx E i len n1 = (b, n')"
  shows "tx_ok E (if b then n' else free_tx E i n') \<and> same_rx n (if b then n' else free_tx E i n')"
proof -
  have ok: "jobs_ok MESSAGES_TO_SIGN_SIZE (sjobs n1)" and sj: "sjobs n1 = sjobs n" using assms(2) by (simp_all add: assms(5) tx_ok_def)
  show ?thesis using assms(1) ok assms(9)
  proof (cases rule: queue_tx_cases)
    case refused
    have f: "memb_free (ect E) TRUST_TX_SIZE (insert i (tx_memb n)) i = (0, tx_memb n)" using assms(3,4) by (simp add: memb_free_used [OF assms(1)])
    have "tx_ok E (free_tx E i n1)" by (rule tx_ok_cong [OF assms(2)]) (use assms(4) f in \<open>auto simp: free_tx_def assms(5)\<close>)
    then show ?thesis using refused by (simp add: same_rx_def free_tx_def assms(5))
  next
    case (queued e)
    have n': "tx_memb n' = insert i (tx_memb n)" "tx_mem n' = (tx_mem n)(i := t)"
      using arg_cong [OF queued(3), of tx_memb] arg_cong [OF queued(3), of tx_mem] by (simp_all add: assms(5))
    have e: "e \<notin> set (job_entries (sjobs n))" using queued(2) by (simp add: sj)
    have old: "sign_job n' f = sign_job n f" "tx_mem n' (s_data (sign_job n f)) = tx_mem n (s_data (sign_job n f))" if "f \<in> set (job_entries (sjobs n))" for f
    proof -
      have "f \<noteq> e" using that e by blast
      then show "sign_job n' f = sign_job n f" using queued(6) [of f] by (simp add: sj)
      show "tx_mem n' (s_data (sign_job n f)) = tx_mem n (s_data (sign_job n f))" using tx_data [OF assms(2) that] assms(4) by (auto simp: n'(2))
    qed
    have "unat (word_of_nat len :: u16) = len" using assms(8) by (simp add: unat_of_nat)
    then have new: "tx_job_ok E (tx_mem n' (s_data (sign_job n' e))) (sign_job n' e)"
      using queued(8-11) assms(6,7) by (simp add: tx_job_ok_def n'(2) assms(5))
    have b0: "bij_betw (\<lambda>e. s_data (sign_job n e)) (set (job_entries (sjobs n))) (tx_memb n)" using assms(2) by (simp add: tx_ok_def)
    have "bij_betw (\<lambda>e. s_data (sign_job n' e)) (set (job_entries (sjobs n))) (tx_memb n)"
      using b0 old(1) by (subst bij_betw_cong [where g = "\<lambda>e. s_data (sign_job n e)"]) auto
    from notIn_Un_bij_betw [OF e _ this] have "bij_betw (\<lambda>e. s_data (sign_job n' e)) (insert e (set (job_entries (sjobs n)))) (insert i (tx_memb n))"
      using assms(4) queued(9) by simp
    moreover have "tx_job_ok E (tx_mem n' (s_data (sign_job n' f))) (sign_job n' f)" if "f \<in> insert e (set (job_entries (sjobs n)))" for f
      using new old [of f] that assms(2) by (cases "f = e") (simp_all add: tx_ok_def)
    moreover have "p = trust_model_process \<and> signed_ok E (tx_mem n' (s_data (sign_job n' f))) (sign_job n' f)" if "(p, f) \<in> set (job_posted (sjobs n))" for p f
      using old [OF tx_posted [OF assms(2) that]] that assms(2) by (auto simp: tx_ok_def)
    moreover have "tx_memb n \<subseteq> {..<TRUST_TX_SIZE}" using assms(2) by (simp add: tx_ok_def)
    ultimately have "tx_ok E n'" using queued(4,5,7) assms(3) by (auto simp: tx_ok_def n'(1) sj)
    moreover have "same_rx n n'" unfolding same_rx_def by (subst (1 2 3 4 5) queued(3)) (simp add: assms(5))
    ultimately show ?thesis using queued(1) by simp
  qed
qed


definition buffer_law :: "('en, 'de) nanocbor \<Rightarrow> bool" where
  "buffer_law NC \<longleftrightarrow> (\<forall>en. encoded_len NC en \<le> length (enc_buffer NC en))"

lemma serialised_report:
  assumes "serialise_trust (codec E) es secs a MAX_TRUST_PAYLOAD = Some (len, enc)" "\<not> (len \<le> 0 \<or> int MAX_TRUST_PAYLOAD < len)" "buffer_law (xnc (codec E))"
  shows "is_report E (take (nat len) (enc_buffer (xnc (codec E)) enc))" "length (take (nat len) (enc_buffer (xnc (codec E)) enc)) = nat len" "nat len < 2 ^ 16"
proof -
  have "len = int (encoded_len (xnc (codec E)) enc)"
    using assms(1,2) by (auto simp: serialise_trust_def Let_def split: prod.splits if_splits option.splits)
  then have "nat len \<le> length (enc_buffer (xnc (codec E)) enc)" using assms(3) by (simp add: buffer_law_def)
  then show l: "length (take (nat len) (enc_buffer (xnc (codec E)) enc)) = nat len" by simp
  show "is_report E (take (nat len) (enc_buffer (xnc (codec E)) enc))"
    using assms(1,2) l unfolding is_report_def by (intro exI [of _ es] exI [of _ secs] exI [of _ a] exI [of _ enc]) simp
  show "nat len < 2 ^ 16" using assms(2) by (auto simp: MAX_TRUST_PAYLOAD_def COAP_MAX_CHUNK_SIZE_def DTLS_EC_SIG_SIZE_def DTLS_EC_KEY_SIZE_def)
qed

lemma memb_alloc_tx:
  assumes "contiki_ok (ect E)" "tx_ok E n"
  obtains (full) "memb_alloc (ect E) TRUST_TX_SIZE (tx_memb n) = (None, tx_memb n)" "tx_memb n = {..<TRUST_TX_SIZE}"
  | (block) i where "memb_alloc (ect E) TRUST_TX_SIZE (tx_memb n) = (Some i, insert i (tx_memb n))" "i < TRUST_TX_SIZE" "i \<notin> tx_memb n"
proof -
  have sub: "tx_memb n \<subseteq> {..<TRUST_TX_SIZE}" using assms(2) by (simp add: tx_ok_def)
  obtain r used where al: "memb_alloc (ect E) TRUST_TX_SIZE (tx_memb n) = (r, used)" by fastforce
  show ?thesis
  proof (cases r)
    case None
    then show ?thesis using memb_alloc_None [OF assms(1) sub] al by (intro full) auto
  next
    case (Some i)
    then show ?thesis using memb_alloc_Some [OF assms(1) sub] al by (intro block [of i]) auto
  qed
qed

lemma tx_freed:
  assumes "contiki_ok (ect E)" "tx_ok E n" "i < TRUST_TX_SIZE" "i \<notin> tx_memb n"
  shows "tx_ok E (free_tx E i (n\<lparr>tx_memb := insert i (tx_memb n), tx_mem := (tx_mem n)(i := t)\<rparr>)) \<and>
    same_rx n (free_tx E i (n\<lparr>tx_memb := insert i (tx_memb n), tx_mem := (tx_mem n)(i := t)\<rparr>))"
proof -
  have f: "memb_free (ect E) TRUST_TX_SIZE (insert i (tx_memb n)) i = (0, tx_memb n)" using assms(3,4) by (simp add: memb_free_used [OF assms(1)])
  then show ?thesis using assms(4) by (auto simp: free_tx_def same_rx_def intro: tx_ok_cong [OF assms(2)])
qed

lemma tx_get:
  assumes "contiki_ok (ect E)" "buffer_law (xnc (codec E))" "tx_ok E n" "res_trust_get_handler E secs src_ep payload n = Some (r, n')"
  shows "tx_ok E n' \<and> same_rx n n'"
  using assms(1,3)
proof (cases rule: memb_alloc_tx)
  case full
  then have "n' = n\<lparr>tx_memb := tx_memb n\<rparr>" using assms(4) by (simp add: res_trust_get_handler_def)
  then show ?thesis using assms(3) by (simp add: same_rx_def)
next
  case (block i)
  let ?a = "if length payload = 16 then Some payload else None"
  obtain len enc where s: "serialise_trust (codec E) (node_edges n) secs ?a MAX_TRUST_PAYLOAD = Some (len, enc)"
    using assms(4) block by (auto simp: res_trust_get_handler_def Let_def upd_tx_def split: option.splits)
  define t0 where "t0 = (tx_mem n i)\<lparr>tx_msg := coap_init_post, tx_buf := enc_buffer (xnc (codec E)) enc\<rparr>"
  define t where "t = t0\<lparr>tx_msg := (tx_msg t0)\<lparr>content_format := Some (application_cbor (ect E))\<rparr>, tx_ep := src_ep\<rparr>"
  show ?thesis
  proof (cases "len \<le> 0 \<or> int MAX_TRUST_PAYLOAD < len")
    case True
    have "n' = free_tx E i (n\<lparr>tx_memb := insert i (tx_memb n), tx_mem := (tx_mem n)(i := t0)\<rparr>)"
      using assms(4) block True s by (simp add: res_trust_get_handler_def Let_def upd_tx_def t0_def)
    then show ?thesis using tx_freed [OF assms(1,3) block(2,3)] by simp
  next
    case False
    let ?n1 = "n\<lparr>tx_memb := insert i (tx_memb n), tx_mem := (tx_mem n)(i := t)\<rparr>"
    obtain b n2 where q: "queue_tx E i (nat len) ?n1 = (b, n2)" by fastforce
    have "n' = (if b then n2 else free_tx E i n2)"
      using assms(4) block False s q by (cases b) (simp_all add: res_trust_get_handler_def Let_def upd_tx_def t0_def t_def)
    moreover have "tx_buf t = enc_buffer (xnc (codec E)) enc" by (simp add: t_def t0_def)
    then have "tx_ok E (if b then n2 else free_tx E i n2) \<and> same_rx n (if b then n2 else free_tx E i n2)"
      using serialised_report [OF s False assms(2)] by (intro tx_ok_queue [OF assms(1,3) block(2,3) refl _ _ _ q]) simp_all
    ultimately show ?thesis by simp
  qed
qed

lemma tx_periodic:
  assumes "contiki_ok (ect E)" "buffer_law (xnc (codec E))" "tx_ok E n" "periodic_action E secs n = Some (r, n')"
  shows "tx_ok E n' \<and> same_rx n n'"
  using assms(1,3)
proof (cases rule: memb_alloc_tx)
  case full
  then have "n' = n\<lparr>tx_memb := tx_memb n\<rparr>" using assms(4) by (simp add: periodic_action_def)
  then show ?thesis using assms(3) by (simp add: same_rx_def)
next
  case (block i)
  obtain len enc where s: "serialise_trust (codec E) (node_edges n) secs None MAX_TRUST_PAYLOAD = Some (len, enc)"
    using assms(4) block by (auto simp: periodic_action_def Let_def upd_tx_def split: option.splits)
  define t where "t = (tx_mem n i)\<lparr>tx_ep := (tx_ep (tx_mem n i))\<lparr>ipaddr := allnodes_mcast E, secure := 0, port := coap_default_port (ect E)\<rparr>,
    tx_msg := coap_init_post\<lparr>content_format := Some (application_cbor (ect E)), random_token := True\<rparr>, tx_buf := enc_buffer (xnc (codec E)) enc\<rparr>"
  let ?n1 = "n\<lparr>tx_memb := insert i (tx_memb n), tx_mem := (tx_mem n)(i := t)\<rparr>"
  show ?thesis
  proof (cases "len \<le> 0 \<or> int MAX_TRUST_PAYLOAD < len")
    case True
    have "n' = free_tx E i ?n1" using assms(4) block True s by (simp add: periodic_action_def Let_def upd_tx_def t_def)
    then show ?thesis using tx_freed [OF assms(1,3) block(2,3)] by simp
  next
    case False
    obtain b n2 where q: "queue_tx E i (nat len) ?n1 = (b, n2)" by fastforce
    have "n' = (if b then n2 else free_tx E i n2)"
      using assms(4) block False s q by (cases b) (simp_all add: periodic_action_def Let_def upd_tx_def t_def)
    moreover have "tx_buf t = enc_buffer (xnc (codec E)) enc" by (simp add: t_def)
    then have "tx_ok E (if b then n2 else free_tx E i n2) \<and> same_rx n (if b then n2 else free_tx E i n2)"
      using serialised_report [OF s False assms(2)] by (intro tx_ok_queue [OF assms(1,3) block(2,3) refl _ _ _ q]) simp_all
    ultimately show ?thesis by simp
  qed
qed

lemma tx_take:
  assumes "contiki_ok (ect E)" "tx_ok E n" "take_job (ect E) (sjobs n) = Some js"
  shows "tx_ok E (n\<lparr>sjobs := js\<rparr>)"
proof -
  have ok: "jobs_ok MESSAGES_TO_SIGN_SIZE js"
    using assms(2) by (intro job_step_ok [OF job_step.take [OF assms(3), where proc = s_process and store = "\<lambda>r e. e"] assms(1)]) (simp add: tx_ok_def)
  obtain i q where "job_current (sjobs n) = None" "jobs_queue (sjobs n) = i # q" "js = (sjobs n)\<lparr>jobs_queue := q, job_current := Some i\<rparr>"
    using assms(1,3) by (cases "jobs_queue (sjobs n)") (auto simp: take_job_def contiki_simps split: if_splits)
  then have "set (job_entries js) = set (job_entries (sjobs n))" "job_mem js = job_mem (sjobs n)" "job_posted js = job_posted (sjobs n)" by (auto simp: job_entries_def)
  then show ?thesis using assms(2) ok by (simp add: tx_ok_def)
qed


lemma tx_finish:
  assumes "contiki_ok (ect E)" "tx_ok E n" "job_current (sjobs n) = Some e" "sign_current E told e n = Some n'"
  shows "tx_ok E n' \<and> same_rx n n'"
proof -
  let ?m = "sign_job n e"
  obtain r sig where rs: "ecc_sign E (s_message ?m) = (r, sig)" by fastforce
  let ?f = "\<lambda>t. t\<lparr>tx_buf := take (length (s_message ?m)) (tx_buf t) @ sig @ drop (length (s_message ?m) + length sig) (tx_buf t)\<rparr>"
  define js where "js = (sjobs n)\<lparr>job_mem := (job_mem (sjobs n))(e := ?m\<lparr>s_result := r\<rparr>), job_current := None, job_posted := job_posted (sjobs n) @ (if told then [(s_process ?m, e)] else []),
    jobs_lost := jobs_lost (sjobs n) @ (if told then [] else [e])\<rparr>"
  have f: "signer_finish r told (sjobs n) = Some js" using assms(3) by (cases told) (simp_all add: signer_finish_def finish_job_eq js_def)
  then have n': "n' = upd_tx (s_data ?m) ?f (n\<lparr>sjobs := js\<rparr>)" using assms(4) rs by (simp add: sign_current_def Let_def)
  have e: "e \<in> set (job_entries (sjobs n))" using assms(3) by (simp add: job_entries_def)
  have fl: "set (job_entries js) = set (job_entries (sjobs n))" using assms(3) by (auto simp: job_entries_def js_def)
  have "jobs_ok MESSAGES_TO_SIGN_SIZE (sjobs n)" using assms(2) by (simp add: tx_ok_def)
  then have ok: "jobs_ok MESSAGES_TO_SIGN_SIZE js"
    by (rule job_step_ok [OF job_step.finish [OF f [unfolded signer_finish_def]] assms(1)])
  have d: "s_data (job_mem js f) = s_data (sign_job n f)" for f by (simp add: js_def)
  have mine: "tx_job_ok E (tx_mem n (s_data ?m)) ?m" using assms(2) e by (simp add: tx_ok_def)
  have other: "tx_mem n' (s_data (sign_job n f)) = tx_mem n (s_data (sign_job n f))" if "f \<in> set (job_entries (sjobs n))" "f \<noteq> e" for f
    using tx_data_inj [OF assms(2) that(1) e] that(2) by (auto simp: n' upd_tx_def)
  have "tx_job_ok E (tx_mem n' (s_data (job_mem js f))) (job_mem js f)" if "f \<in> set (job_entries (sjobs n))" for f
  proof (cases "f = e")
    case True
    then show ?thesis using mine by (simp add: tx_job_ok_def n' upd_tx_def js_def)
  next
    case False
    then show ?thesis using assms(2) that other [OF that False] by (simp add: tx_ok_def js_def)
  qed
  moreover have "p = trust_model_process \<and> signed_ok E (tx_mem n' (s_data (job_mem js f))) (job_mem js f)" if pf: "(p, f) \<in> set (job_posted js)" for p f
  proof (cases "f = e")
    case True
    have "distinct (job_entries (sjobs n))" using assms(2) by (simp add: tx_ok_def jobs_ok_def)
    then have "(q, e) \<notin> set (job_posted (sjobs n))" for q using assms(3) by (force simp: job_entries_def)
    then have "p = s_process ?m" using pf True by (auto simp: js_def split: if_splits)
    then show ?thesis using True mine rs by (simp add: tx_job_ok_def signed_ok_def n' upd_tx_def js_def)
  next
    case False
    then have old: "(p, f) \<in> set (job_posted (sjobs n))" using pf by (auto simp: js_def split: if_splits)
    then show ?thesis using False assms(2) other [OF tx_posted [OF assms(2) old] False] by (auto simp: tx_ok_def js_def)
  qed
  then have "\<forall>(p, f)\<in>set (job_posted js). p = trust_model_process \<and> signed_ok E (tx_mem n' (s_data (job_mem js f))) (job_mem js f)" by blast
  moreover have sj: "sjobs n' = js" "tx_memb n' = tx_memb n" by (simp_all add: n' upd_tx_def)
  moreover have "tx_memb n \<subseteq> {..<TRUST_TX_SIZE}" "bij_betw (\<lambda>e. s_data (sign_job n e)) (set (job_entries (sjobs n))) (tx_memb n)"
    using assms(2) by (simp_all add: tx_ok_def)
  ultimately have "tx_ok E n'" using ok unfolding tx_ok_def sj fl d by blast
  then show ?thesis by (simp add: same_rx_def n' upd_tx_def)
qed

lemma tx_signed:
  assumes "contiki_ok (ect E)" "\<And>m. crypto_success (ksc E) (fst (ecc_sign E m)) \<Longrightarrow> length (snd (ecc_sign E m)) = DTLS_EC_SIG_SIZE"
    "tx_ok E n" "job_posted (sjobs n) = (p, e) # ps" "n' = trust_tx_continue E sent e (n\<lparr>sjobs := (sjobs n)\<lparr>job_posted := ps\<rparr>\<rparr>)"
  shows "tx_ok E n' \<and> same_rx n n'"
    "outbox n' = outbox n \<or> (\<exists>m ep msg. is_report E m \<and> crypto_success (ksc E) (fst (ecc_sign E m)) \<and>
      outbox n' = outbox n @ [(ep, msg\<lparr>coap_payload := set_payload E (m @ snd (ecc_sign E m))\<rparr>)])"
proof -
  let ?m = "sign_job n e" and ?js = "queue_message_to_sign_done (ect E) e ((sjobs n)\<lparr>job_posted := ps\<rparr>)"
  let ?i = "s_data ?m"
  have e: "e \<in> set (job_entries (sjobs n))" using assms(4) by (simp add: job_entries_def)
  have sg: "signed_ok E (tx_mem n ?i) ?m" and jb: "tx_job_ok E (tx_mem n ?i) ?m" using assms(3,4) e by (simp_all add: tx_ok_def)
  have i: "?i \<in> tx_memb n" "?i < TRUST_TX_SIZE" using tx_data [OF assms(3) e] assms(3) by (auto simp: tx_ok_def)
  have "jobs_ok MESSAGES_TO_SIGN_SIZE (job_done (ect E) MESSAGES_TO_SIGN_SIZE e ((sjobs n)\<lparr>job_posted := ps\<rparr>))"
    using assms(3) by (intro job_step_ok [OF job_step.handled [OF assms(4), where proc = s_process and store = "\<lambda>r e. e"] assms(1)]) (simp add: tx_ok_def)
  then have ok: "jobs_ok MESSAGES_TO_SIGN_SIZE ?js" by (simp add: queue_message_to_sign_done_def)
  have "distinct (job_entries (sjobs n))" using assms(3) by (simp add: tx_ok_def jobs_ok_def)
  then have js: "set (job_entries ?js) = set (job_entries (sjobs n)) - {e}" "job_mem ?js = job_mem (sjobs n)" "job_posted ?js = ps"
    using assms(4) by (auto simp: job_entries_def queue_message_to_sign_done_def job_done_def)
  have n': "sjobs n' = ?js" "tx_memb n' = tx_memb n - {?i}" "\<And>j. j \<noteq> ?i \<Longrightarrow> tx_mem n' j = tx_mem n j" "same_rx n n'"
    using i by (auto simp: assms(5) trust_tx_continue_def Let_def free_tx_def upd_tx_def same_rx_def memb_free_used [OF assms(1)])
  have ne: "s_data (sign_job n f) \<noteq> ?i" if "f \<in> set (job_entries (sjobs n)) - {e}" for f
    using tx_data_inj [OF assms(3) _ e, of f] that by blast
  have "bij_betw (\<lambda>e. s_data (sign_job n e)) (set (job_entries (sjobs n))) (tx_memb n)" using assms(3) by (simp add: tx_ok_def)
  from bij_betw_DiffI [OF this bij_betw_singletonI [of "\<lambda>e. s_data (sign_job n e)" e ?i]]
  have "bij_betw (\<lambda>e. s_data (sign_job n e)) (set (job_entries (sjobs n)) - {e}) (tx_memb n - {?i})" using e i(1) by simp
  moreover have "tx_job_ok E (tx_mem n' (s_data (sign_job n f))) (sign_job n f)" if "f \<in> set (job_entries (sjobs n)) - {e}" for f
    using assms(3) that n'(3) [OF ne [OF that]] by (simp add: tx_ok_def)
  moreover have "q = trust_model_process \<and> signed_ok E (tx_mem n' (s_data (sign_job n f))) (sign_job n f)" if qf: "(q, f) \<in> set ps" for q f
  proof -
    have "f \<in> set (job_entries ?js)" using qf js(3) by (force simp: job_entries_def)
    then have "f \<in> set (job_entries (sjobs n)) - {e}" by (simp add: js(1))
    from n'(3) [OF ne [OF this]] show ?thesis using assms(3) qf assms(4) by (auto simp: tx_ok_def)
  qed
  ultimately have "tx_ok E n'" using assms(3) ok by (auto simp: tx_ok_def n'(1,2) js)
  then show "tx_ok E n' \<and> same_rx n n'" using n'(4) by simp
  let ?msg = "s_message ?m"
  show "outbox n' = outbox n \<or> (\<exists>m ep msg. is_report E m \<and> crypto_success (ksc E) (fst (ecc_sign E m)) \<and>
      outbox n' = outbox n @ [(ep, msg\<lparr>coap_payload := set_payload E (m @ snd (ecc_sign E m))\<rparr>)])"
  proof (cases "crypto_success (ksc E) (s_result ?m) \<and> sent")
    case True
    then have s: "crypto_success (ksc E) (fst (ecc_sign E ?msg))" using sg by (simp add: signed_ok_def)
    then have "take (unat (s_message_len ?m) + DTLS_EC_SIG_SIZE) (tx_buf (tx_mem n ?i)) = ?msg @ snd (ecc_sign E ?msg)"
      using sg jb assms(2) [OF s] by (simp add: signed_ok_def tx_job_ok_def)
    then have "outbox n' = outbox n @ [(tx_ep (tx_mem n ?i), (tx_msg (tx_mem n ?i))\<lparr>coap_payload := set_payload E (?msg @ snd (ecc_sign E ?msg))\<rparr>)]"
      using True by (simp add: assms(5) trust_tx_continue_def Let_def free_tx_def upd_tx_def)
    then show ?thesis using s jb unfolding tx_job_ok_def by blast
  next
    case False
    then show ?thesis by (auto simp: assms(5) trust_tx_continue_def Let_def free_tx_def upd_tx_def)
  qed
qed


subsection \<open>Every step keeps the node well formed\<close>

definition trust_node_ok :: "('p, 'e, 'c, 'k, 'en, 'de) trust_env \<Rightarrow> ('p, 'e, 'c, 'k) trust_node \<Rightarrow> bool" where
  "trust_node_ok E n \<longleftrightarrow> ks_inv (xnc (codec E)) (ksc E) (store n) \<and> rx_ok n \<and> tx_ok E n \<and> peer_info_ok (node_peers n)"

text \<open>The records on peers change only by merging the body of a message that the platform accepted under the key of a certificate the root signed, as a report of that certificate's subject.\<close>

definition merges_authentic :: "('p, 'e, 'c, 'k, 'en, 'de) trust_env \<Rightarrow> ('p, 'e, 'c, 'k) trust_node \<Rightarrow> ('p, 'e, 'c, 'k) trust_node \<Rightarrow> bool" where
  "merges_authentic E n n' \<longleftrightarrow> node_peers n' = node_peers n \<or>
     (\<exists>c m r. cert_verified (xnc (codec E)) (ksc E) c \<and> crypto_success (ksc E) (ecc_verify (ksc E) (public_key c) m) \<and> DTLS_EC_SIG_SIZE \<le> length m \<and>
        process_received_trust (codec E) (node_edges n) (eui64_to_ipaddr (set_addr_iid E) (root_ipaddr (ksc E)) (subject c) (ip_stack E))
          (take (length m - DTLS_EC_SIG_SIZE) m) (node_peers n) = Some (r, node_peers n'))"

text \<open>What is sent is a report of the node with the platform's signature behind it.\<close>

definition sends_signed :: "('p, 'e, 'c, 'k, 'en, 'de) trust_env \<Rightarrow> ('p, 'e, 'c, 'k) trust_node \<Rightarrow> ('p, 'e, 'c, 'k) trust_node \<Rightarrow> bool" where
  "sends_signed E n n' \<longleftrightarrow> outbox n' = outbox n \<or>
     (\<exists>m ep msg. is_report E m \<and> crypto_success (ksc E) (fst (ecc_sign E m)) \<and>
        outbox n' = outbox n @ [(ep, msg\<lparr>coap_payload := set_payload E (m @ snd (ecc_sign E m))\<rparr>)])"

lemma trust_node_ok_tx: "\<lbrakk>trust_node_ok E n; tx_ok E n' \<and> same_rx n n'\<rbrakk> \<Longrightarrow> trust_node_ok E n'"
  using rx_ok_cong [of n n'] by (simp add: trust_node_ok_def same_rx_def)

lemma same_rx_merges: "same_rx n n' \<Longrightarrow> merges_authentic E n n'"
  by (simp add: same_rx_def merges_authentic_def)

lemma outbox_frame:
  "res_trust_get_handler E secs src_ep payload n = Some (r, n') \<Longrightarrow> outbox n' = outbox n"
  "periodic_action E secs n = Some (b, n') \<Longrightarrow> outbox n' = outbox n"
  "sign_current E told e n = Some n' \<Longrightarrow> outbox n' = outbox n"
  by (auto simp: res_trust_get_handler_def periodic_action_def sign_current_def Let_def upd_tx_def free_tx_def queue_tx_def
      split: option.splits prod.splits if_splits bool.splits)

lemma post_handler_frame:
  assumes "contiki_ok (ect E)" "trust_node_ok E n" "res_trust_post_handler E now snt src_ep payload n = Some (r, n')"
  shows "trust_node_ok E n' \<and> node_peers n' = node_peers n \<and> outbox n' = outbox n"
proof -
  have ok: "ks_inv (xnc (codec E)) (ksc E) (store n)" "rx_ok n" "tx_ok E n" "peer_info_ok (node_peers n)" using assms(2) by (simp_all add: trust_node_ok_def)
  have tx: "tx_ok E (n\<lparr>rx_memb := a, rx_mem := b, store := s\<rparr>)" "tx_ok E (n\<lparr>rx_mem := b\<rparr>)" "tx_ok E (n\<lparr>store := s\<rparr>)" for a b s
    by (rule tx_ok_cong [OF ok(3)]; simp)+
  show ?thesis
    using assms(1) ok(1,2)
  proof (cases rule: post_handler_cases [where payload = payload and src_ep = src_ep and now = now and snt = snt, consumes 3])
    case bad
    then show ?thesis using assms(2,3) by simp
  next
    case unknown
    let ?s = "fst (snd (request_public_key (ksc E) now snt (ipaddr src_ep) (store n)))"
    obtain b s q where rq: "request_public_key (ksc E) now snt (ipaddr src_ep) (store n) = (b, s, q)" by (rule prod_cases3)
    have "ks_inv (xnc (codec E)) (ksc E) s" by (rule ks_inv_request [OF ok(1) rq])
    moreover have "store_keeps trust_model_process (held n) (store n) s"
      using pins_request [OF _ rq, of "held n"] ok(2) by (simp add: store_keeps_def rx_ok_def)
    then have "rx_ok (n\<lparr>store := s\<rparr>)" by (rule rx_ok_keys [OF ok(2)])
    ultimately show ?thesis using unknown assms(3) rq ok(4) tx(3) by (simp add: trust_node_ok_def)
  next
    case full
    then show ?thesis using assms(2,3) by simp
  next
    case (refused i item)
    have h: "held (n\<lparr>rx_mem := (rx_mem n)(i := item)\<rparr>) = held n"
    proof
      fix k
      have "{j \<in> rx_memb n. rx_key (((rx_mem n)(i := item)) j) = k} = {j \<in> rx_memb n. rx_key (rx_mem n j) = k}" using refused(4) by auto
      then show "held (n\<lparr>rx_mem := (rx_mem n)(i := item)\<rparr>) k = held n k" by (simp add: held_def)
    qed
    have "v_data (report_job n e) \<noteq> i" if "e \<in> report_jobs n" for e using that ok(2) refused(4) by (auto simp: rx_ok_def bij_betw_def)
    then have "rx_ok (n\<lparr>rx_mem := (rx_mem n)(i := item)\<rparr>)" using ok(2) h by (simp add: rx_ok_def)
    then show ?thesis using refused(6) assms(3) ok tx(2) by (simp add: trust_node_ok_def)
  next
    case (queued i key js)
    let ?n = "n\<lparr>rx_memb := insert i (rx_memb n), rx_mem := (rx_mem n)(i := new_report key payload (rx_mem n i)), store := (keystore_pin key (store n))\<lparr>vjobs := js\<rparr>\<rparr>"
    have "rx_ok ?n" by (rule rx_ok_queued [OF assms(1) ok(1,2) queued(2) find_addr_public [OF queued(3)] queued(4,5,6)])
    moreover have "ks_inv (xnc (codec E)) (ksc E) ((keystore_pin key (store n))\<lparr>vjobs := js\<rparr>)"
      by (rule ks_inv_client [OF assms(1) ks_inv_frame(1) [OF ok(1)], where p = trust_model_process and dat = i])
        (use queued(6) in \<open>simp_all add: keystore_pin_def trust_model_process_def keystore_add_verifier_def\<close>)
    ultimately show ?thesis using queued(7) assms(3) ok(4) tx(1) by (simp add: trust_node_ok_def)
  qed
qed

lemma take_prefix:
  assumes "xs = take (length xs) ys" "k \<le> length xs"
  shows "take k ys = take k xs"
proof -
  have "take k xs = take (min k (length xs)) ys" unfolding take_take [symmetric] by (rule arg_cong [OF assms(1)])
  then show ?thesis using assms(2) by (simp add: min_def)
qed

lemma merge_verified_eq:
  "\<lbrakk>DTLS_EC_SIG_SIZE \<le> len;
    process_received_trust (codec E) (node_edges t) (eui64_to_ipaddr (set_addr_iid E) (root_ipaddr (ksc E)) (subject (cert (key_mem (store t) (rx_key item)))) (ip_stack E))
      (take (len - DTLS_EC_SIG_SIZE) (rx_buf item)) (node_peers t) = Some (r, ps)\<rbrakk> \<Longrightarrow> merge_verified E item len t = Some (t\<lparr>node_peers := ps\<rparr>)"
  by (simp add: merge_verified_def)

text \<open>
  What the process needs of the trust model and of the platform: the contract of the codec, a verifier that refuses what is shorter than a signature, signatures of
  the fixed size and encoders that stay within what they wrote.
\<close>

locale report_process = trust_codec written view "codec E" edge_tokens cap_tokens
  for written :: "'en \<Rightarrow> token list" and view :: "'de view" and E :: "('p, 'e, 'c, 'k, 'en, 'de) trust_env"
    and edge_tokens :: "'e \<Rightarrow> token list" and cap_tokens :: "'c \<Rightarrow> token list" +
  assumes short_refused: "length m < DTLS_EC_SIG_SIZE \<Longrightarrow> \<not> crypto_success (ksc E) (ecc_verify (ksc E) pk m)"
    and signature_size: "crypto_success (ksc E) (fst (ecc_sign E m)) \<Longrightarrow> length (snd (ecc_sign E m)) = DTLS_EC_SIG_SIZE"
    and buffer: "buffer_law (xnc (codec E))"
begin

lemma rx_returns:
  assumes "trust_node_ok E n" "job_posted (vjobs (store n)) = (trust_model_process, e) # ps"
  shows "\<exists>n'. trust_rx_continue E e (n\<lparr>store := (store n)\<lparr>vjobs := (vjobs (store n))\<lparr>job_posted := ps\<rparr>\<rparr>\<rparr>) = Some n' \<and>
    trust_node_ok E n' \<and> merges_authentic E n n' \<and> outbox n' = outbox n"
proof -
  let ?t = "n\<lparr>store := (store n)\<lparr>vjobs := (vjobs (store n))\<lparr>job_posted := ps\<rparr>\<rparr>\<rparr>" and ?m = "report_job n e"
  let ?item = "rx_mem n (v_data ?m)"
  let ?c = "cert (key_mem (store n) (rx_key ?item))"
  have ok: "ks_inv (xnc (codec E)) (ksc E) (store n)" "rx_ok n" "tx_ok E n" "peer_info_ok (node_peers n)" using assms(1) by (simp_all add: trust_node_ok_def)
  have e: "e \<in> report_jobs n" "v_result ?m = ecc_verify (ksc E) (v_pubkey ?m) (v_message ?m)" by (rule client_posted [OF ok(1) assms(2)])+
  have rep: "report_ok ?item (store n) ?m" using ok(2) e(1) by (simp add: rx_ok_def)
  have i: "v_data ?m \<in> rx_memb n" using ok(2) e(1) by (auto simp: rx_ok_def bij_betw_def)
  have "rx_key ?item \<in> set (public_keys (store n))"
    using held_pos [OF _ i] pins_held ok(2) unfolding rx_ok_def by blast
  then have cv: "cert_verified (xnc (codec E)) (ksc E) ?c" using ok(1) by (simp add: ks_inv_def)
  have "\<exists>ps'. (if crypto_success (ksc E) (v_result ?m) then merge_verified E ?item (unat (v_message_len ?m)) ?t else Some ?t) = Some (?t\<lparr>node_peers := ps'\<rparr>) \<and>
      peer_info_ok ps' \<and> (\<forall>n'. node_peers n' = ps' \<longrightarrow> merges_authentic E n n')"
  proof (cases "crypto_success (ksc E) (v_result ?m)")
    case False
    then show ?thesis using ok(4) by (intro exI [of _ "node_peers n"]) (simp add: merges_authentic_def)
  next
    case True
    let ?msg = "v_message ?m" and ?src = "eui64_to_ipaddr (set_addr_iid E) (root_ipaddr (ksc E)) (subject ?c) (ip_stack E)"
    have acc: "crypto_success (ksc E) (ecc_verify (ksc E) (public_key ?c) ?msg)" using True e(2) rep by (simp add: report_ok_def)
    then have len: "DTLS_EC_SIG_SIZE \<le> length ?msg" using short_refused by force
    have l: "unat (v_message_len ?m) = length ?msg" using rep by (simp add: report_ok_def)
    have "take (length ?msg - DTLS_EC_SIG_SIZE) (rx_buf ?item) = take (length ?msg - DTLS_EC_SIG_SIZE) ?msg"
      by (rule take_prefix [OF conjunct1 [OF rep [unfolded report_ok_def]] diff_le_self])
    moreover obtain r ps' where p: "process_received_trust (codec E) (node_edges n) ?src (take (length ?msg - DTLS_EC_SIG_SIZE) ?msg) (node_peers n) = Some (r, ps')" "peer_info_ok ps'"
      using process_received_trust_returns [OF ok(4)] by blast
    ultimately have "process_received_trust (codec E) (node_edges n) ?src (take (length ?msg - DTLS_EC_SIG_SIZE) (rx_buf ?item)) (node_peers n) = Some (r, ps')" by simp
    then have "merge_verified E ?item (unat (v_message_len ?m)) ?t = Some (?t\<lparr>node_peers := ps'\<rparr>)"
      unfolding l by (intro merge_verified_eq [OF len]) simp
    moreover have "merges_authentic E n n'" if "node_peers n' = ps'" for n'
      unfolding merges_authentic_def that using cv acc len p(1) by blast
    ultimately show ?thesis using True p(2) by auto
  qed
  then obtain qs where qs: "(if crypto_success (ksc E) (v_result ?m) then merge_verified E ?item (unat (v_message_len ?m)) ?t else Some ?t) = Some (?t\<lparr>node_peers := qs\<rparr>)"
      "peer_info_ok qs" "\<And>n'. node_peers n' = qs \<Longrightarrow> merges_authentic E n n'" by blast
  obtain s where s: "keystore_unpin (rx_key ?item) (store (?t\<lparr>node_peers := qs\<rparr>)) = Some s"
      "rx_ok (free_rx E (v_data ?m) (?t\<lparr>node_peers := qs\<rparr>\<lparr>store := s\<lparr>vjobs := queue_message_to_verify_done (ect E) e (vjobs s)\<rparr>\<rparr>))"
      "ks_inv (xnc (codec E)) (ksc E) (s\<lparr>vjobs := queue_message_to_verify_done (ect E) e (vjobs s)\<rparr>)"
    using rx_ok_done [OF contiki ok(1,2) assms(2) refl refl] by blast
  let ?n = "free_rx E (v_data ?m) (?t\<lparr>node_peers := qs\<rparr>\<lparr>store := s\<lparr>vjobs := queue_message_to_verify_done (ect E) e (vjobs s)\<rparr>\<rparr>)"
  have "trust_rx_continue E e ?t = Some ?n"
    using qs(1) s(1) by (simp add: trust_rx_continue_def Let_def)
  moreover have "tx_ok E ?n" by (rule tx_ok_cong [OF ok(3)]) (simp_all add: free_rx_def)
  then have "trust_node_ok E ?n" using s(2,3) qs(2) by (simp add: trust_node_ok_def free_rx_def)
  moreover have "merges_authentic E n ?n" by (rule qs(3)) (simp add: free_rx_def)
  ultimately show ?thesis by (simp add: free_rx_def)
qed

lemma step_ok:
  assumes "trust_step E n n'" "trust_node_ok E n"
  shows "trust_node_ok E n' \<and> merges_authentic E n n' \<and> sends_signed E n n'"
  using assms(1)
proof cases
  case (get secs src_ep payload r)
  have tx: "tx_ok E n' \<and> same_rx n n'" by (rule tx_get [OF contiki buffer _ get]) (use assms(2) in \<open>simp add: trust_node_ok_def\<close>)
  then show ?thesis using trust_node_ok_tx [OF assms(2) tx] same_rx_merges [OF conjunct2 [OF tx]] outbox_frame(1) [OF get] by (simp add: sends_signed_def)
next
  case (post now req_sent src_ep payload r)
  then show ?thesis using post_handler_frame [OF contiki assms(2)] by (simp add: merges_authentic_def sends_signed_def)
next
  case (timer secs b)
  have tx: "tx_ok E n' \<and> same_rx n n'" by (rule tx_periodic [OF contiki buffer _ timer]) (use assms(2) in \<open>simp add: trust_node_ok_def\<close>)
  then show ?thesis using trust_node_ok_tx [OF assms(2) tx] same_rx_merges [OF conjunct2 [OF tx]] outbox_frame(2) [OF timer] by (simp add: sends_signed_def)
next
  case (signed e ps sent)
  have tx: "tx_ok E n" using assms(2) by (simp add: trust_node_ok_def)
  note done' = tx_signed [OF contiki signature_size tx signed(2,1)]
  have "sends_signed E n n'" unfolding sends_signed_def by (rule done'(2))
  moreover have "tx_ok E n' \<and> same_rx n n'" by (rule done'(1))
  ultimately show ?thesis using trust_node_ok_tx [OF assms(2)] same_rx_merges by blast
next
  case (verified e ps)
  then show ?thesis using rx_returns [OF assms(2) verified(1)] by (auto simp: sends_signed_def)
next
  case (sign_take js)
  have tx: "tx_ok E n' \<and> same_rx n n'" using tx_take [OF contiki _ sign_take(2)] assms(2) sign_take(1) by (simp add: trust_node_ok_def same_rx_def)
  then show ?thesis using trust_node_ok_tx [OF assms(2) tx] same_rx_merges [OF conjunct2 [OF tx]] sign_take(1) by (simp add: sends_signed_def)
next
  case (sign_finish e)
  have tx: "tx_ok E n' \<and> same_rx n n'" by (rule tx_finish [OF contiki _ sign_finish]) (use assms(2) in \<open>simp add: trust_node_ok_def\<close>)
  then show ?thesis using trust_node_ok_tx [OF assms(2) tx] same_rx_merges [OF conjunct2 [OF tx]] outbox_frame(3) [OF sign_finish(2)] by (simp add: sends_signed_def)
next
  case (keys s')
  have ok: "ks_inv (xnc (codec E)) (ksc E) (store n)" "rx_ok n" "tx_ok E n" using assms(2) by (simp_all add: trust_node_ok_def)
  have "store_keeps trust_model_process (held n) (store n) s'"
    by (rule store_step_keeps [OF keys(2) contiki ok(1)]) (use ok(2) in \<open>simp_all add: rx_ok_def trust_model_process_def keystore_add_verifier_def\<close>)
  then have "rx_ok (n\<lparr>store := s'\<rparr>)" by (rule rx_ok_keys [OF ok(2)])
  moreover have "ks_inv (xnc (codec E)) (ksc E) s'" by (rule ks_step_inv [OF store_step_ks [OF keys(2)] contiki ok(1)])
  moreover have "tx_ok E (n\<lparr>store := s'\<rparr>)" by (rule tx_ok_cong [OF ok(3)]) simp_all
  ultimately show ?thesis using assms(2) keys(1) by (simp add: trust_node_ok_def merges_authentic_def sends_signed_def)
next
  case (edges es)
  have "rx_ok (n\<lparr>node_edges := es\<rparr>)" "tx_ok E (n\<lparr>node_edges := es\<rparr>)"
    using assms(2) rx_ok_cong [of n "n\<lparr>node_edges := es\<rparr>"] tx_ok_cong [of E n "n\<lparr>node_edges := es\<rparr>"] by (simp_all add: trust_node_ok_def)
  then show ?thesis using assms(2) edges by (simp add: trust_node_ok_def merges_authentic_def sends_signed_def)
qed

lemma run_ok: "\<lbrakk>trust_run E n n'; trust_node_ok E n\<rbrakk> \<Longrightarrow> trust_node_ok E n'"
  by (induction rule: trust_run.induct) (auto dest: step_ok)

end


subsection \<open>The process on the basic trust model\<close>

definition platform_ok :: "('p, 'e, 'c, 'k, 'en, 'de) trust_env \<Rightarrow> bool" where
  "platform_ok E \<longleftrightarrow> (\<forall>pk m. length m < DTLS_EC_SIG_SIZE \<longrightarrow> \<not> crypto_success (ksc E) (ecc_verify (ksc E) pk m)) \<and>
     (\<forall>m. crypto_success (ksc E) (fst (ecc_sign E m)) \<longrightarrow> length (snd (ecc_sign E m)) = DTLS_EC_SIG_SIZE)"

text \<open>Before the start: no events are pending and the store works on no key.\<close>

definition at_boot :: "('p, 'e, 'c, 'k) trust_node \<Rightarrow> bool" where
  "at_boot n \<longleftrightarrow> job_posted (sjobs n) = [] \<and> job_posted (vjobs (store n)) = [] \<and> pkitem (store n) = None"

lemma report_process_basic:
  assumes "contiki_ok CT" "nanocbor_ok written view NC" "buffer_law NC" "platform_ok E" "codec E = basic_codec CT NC ini tm0 ctm0"
  shows "report_process written view E edge_tm_tokens cap_tm_tokens"
proof -
  have base: "trust_codec written view (codec E) edge_tm_tokens cap_tm_tokens" unfolding assms(5) by (rule trust_codec_basic [OF assms(1,2)])
  show ?thesis
    by (rule report_process.intro, rule base, unfold_locales) (use assms(3,4) in \<open>auto simp: platform_ok_def assms(5)\<close>)
qed

lemma trust_node_ok_init:
  assumes "contiki_ok (ect E)" "at_boot n"
  shows "trust_node_ok E (trust_process_init E clk now n)"
proof -
  let ?n = "trust_process_init E clk now n"
  have v: "vjobs (store ?n) = crypto_support_init (vjobs (store n))" by (simp add: trust_process_init_def vjobs_keystore_init [OF assms(1)])
  have "held ?n = (\<lambda>_. 0)" by (rule ext) (simp add: held_def trust_process_init_def)
  moreover have "pins_ok (\<lambda>_. 0) (store ?n)" using pins_ok_init [OF assms(1), of "store n" "ksc E" clk now] assms(2) by (simp add: trust_process_init_def at_boot_def)
  moreover have "report_jobs ?n = {}" using assms(2) unfolding v by (simp add: client_jobs_def job_entries_def crypto_support_init_def at_boot_def)
  moreover have "rx_memb ?n = {}" by (simp add: trust_process_init_def)
  ultimately have "rx_ok ?n" by (simp add: rx_ok_def bij_betw_def)
  moreover have "tx_ok E ?n"
    using assms(2) by (simp add: tx_ok_def trust_process_init_def jobs_ok_def job_entries_def crypto_support_init_def at_boot_def bij_betw_def)
  moreover have "ks_inv (xnc (codec E)) (ksc E) (store ?n)" using ks_inv_init [OF assms(1), of "store n" "xnc (codec E)" "ksc E" clk now] assms(2) by (simp add: trust_process_init_def at_boot_def)
  moreover have "peer_info_ok (node_peers ?n)" by (simp add: trust_process_init_def peer_info_init_ok)
  ultimately show ?thesis by (simp add: trust_node_ok_def)
qed

lemma reachable_ok:
  assumes "contiki_ok CT" "nanocbor_ok written view NC" "buffer_law NC" "platform_ok E" "codec E = basic_codec CT NC ini tm0 ctm0"
    "at_boot n0" "trust_run E (trust_process_init E clk now n0) n"
  shows "trust_node_ok E n"
  by (rule report_process.run_ok [OF report_process_basic [OF assms(1-5)] assms(7) trust_node_ok_init]) (simp_all add: assms)

text \<open>
  C2: in every run of the node, whatever the network delivers, a step leaves the records on peers as they are or merges the body of a message that the platform
  accepted under the key of a certificate signed by the root, as a report of that certificate's subject; and a step sends nothing or a report of the node with the
  platform's signature behind it.
\<close>

theorem trust_reports_authentic:
  assumes "contiki_ok CT" "nanocbor_ok written view NC" "buffer_law NC" "platform_ok E" "codec E = basic_codec CT NC ini tm0 ctm0"
    "at_boot n0" "trust_run E (trust_process_init E clk now n0) n" "trust_step E n n'"
  shows "merges_authentic E n n' \<and> sends_signed E n n'"
  using report_process.step_ok [OF report_process_basic [OF assms(1-5)] assms(8) reachable_ok [OF assms(1-7)]] by simp


text \<open>
  In every run the handler of received reports returns, and answers as the protocol promises: 4.00 to a payload that is empty or exceeds the buffer, 5.03 with five
  minutes to a sender whose key is missing, 5.03 with two minutes while two reports wait or the verifier's queue is full, and nothing else to a report it has queued.
\<close>

theorem trust_post_answers:
  assumes "contiki_ok CT" "nanocbor_ok written view NC" "buffer_law NC" "platform_ok E" "codec E = basic_codec CT NC ini tm0 ctm0"
    "at_boot n0" "trust_run E (trust_process_init E clk now n0) n"
  shows "map_option fst (res_trust_post_handler E t snt src_ep payload n) = Some
    (if payload = [] \<or> 256 < length payload then (Some BAD_REQUEST_4_00, None)
     else if keystore_find_addr (ksc E) (store n) (ipaddr src_ep) = None then (Some SERVICE_UNAVAILABLE_5_03, Some 300)
     else if card (rx_memb n) = 2 \<or> length (job_entries (vjobs (store n))) = 3 then (Some SERVICE_UNAVAILABLE_5_03, Some 120)
     else (None, None))"
proof -
  have ct: "contiki_ok (ect E)" using assms(1,5) by simp
  have ok: "ks_inv (xnc (codec E)) (ksc E) (store n)" "rx_ok n" using reachable_ok [OF assms] by (simp_all add: trust_node_ok_def)
  have sub: "rx_memb n \<subseteq> {..<2}" using ok(2) by (simp add: rx_ok_def TRUST_RX_SIZE_def)
  show ?thesis
    using ct ok
  proof (cases rule: post_handler_cases [where payload = payload and src_ep = src_ep and now = t and snt = snt, consumes 3])
    case (queued i key js)
    then have "rx_memb n \<noteq> {..<2}" by (auto simp: TRUST_RX_SIZE_def)
    then have "card (rx_memb n) \<noteq> 2" using sub card_subset_eq [OF _ sub] by auto
    moreover have "length (job_entries (vjobs (store n))) \<noteq> 3"
      using ct jobs_ok_of_inv [OF ok(1)] queued(6) by (cases rule: client_submit) (auto simp: MESSAGES_TO_VERIFY_SIZE_def)
    ultimately show ?thesis using queued by simp
  qed (auto simp: TRUST_RX_SIZE_def MESSAGES_TO_VERIFY_SIZE_def)
qed


text \<open>The address under which the report of the job \<open>e\<close> is merged.\<close>

definition sender_ip :: "('p, 'e, 'c, 'k, 'en, 'de) trust_env \<Rightarrow> ('p, 'e, 'c, 'k) trust_node \<Rightarrow> addr \<Rightarrow> ipaddr" where
  "sender_ip E n e = eui64_to_ipaddr (set_addr_iid E) (root_ipaddr (ksc E))
     (subject (cert (key_mem (store n) (rx_key (rx_mem n (v_data (report_job n e))))))) (ip_stack E)"

definition handled :: "('p, 'e, 'c, 'k) trust_node \<Rightarrow> ('p, 'e, 'c, 'k) trust_node" where
  "handled n = n\<lparr>store := (store n)\<lparr>vjobs := (vjobs (store n))\<lparr>job_posted := tl (job_posted (vjobs (store n)))\<rparr>\<rparr>\<rparr>"

lemma rx_merges:
  assumes "trust_rx_continue E e (handled n) = Some n'" "crypto_success (ksc E) (v_result (report_job n e))" "rx_ok n" "e \<in> report_jobs n"
    "v_message (report_job n e) = m @ sig" "length sig = DTLS_EC_SIG_SIZE"
    "process_received_trust (codec E) (node_edges n) (sender_ip E n e) m (node_peers n) = Some (r, qs)"
  shows "node_peers n' = qs"
proof -
  let ?m = "report_job n e" let ?item = "rx_mem n (v_data ?m)"
  have rep: "report_ok ?item (store n) ?m" using assms(3,4) by (simp add: rx_ok_def)
  have l: "unat (v_message_len ?m) = length (m @ sig)" using rep [unfolded report_ok_def assms(5)] by blast
  have "take (length m) (rx_buf ?item) = take (length m) (m @ sig)"
    by (rule take_prefix [OF conjunct1 [OF rep [unfolded report_ok_def assms(5)]]]) simp
  then have t: "take (length (m @ sig) - DTLS_EC_SIG_SIZE) (rx_buf ?item) = m" using assms(6) by simp
  have h: "node_edges (handled n) = node_edges n" "node_peers (handled n) = node_peers n" "key_mem (store (handled n)) = key_mem (store n)"
    by (simp_all add: handled_def)
  have "merge_verified E ?item (unat (v_message_len ?m)) (handled n) = Some ((handled n)\<lparr>node_peers := qs\<rparr>)"
    unfolding l by (rule merge_verified_eq, simp add: assms(6), unfold t h, rule assms(7) [unfolded sender_ip_def])
  moreover have "report_job (handled n) e = ?m" "rx_mem (handled n) = rx_mem n" by (simp_all add: handled_def)
  ultimately show ?thesis using assms(1,2) by (auto simp: trust_rx_continue_def Let_def free_rx_def split: option.splits)
qed

text \<open>
  C3: a report travels.  Once the verifier has accepted a message that another node made of its trust in its edges and a signature, the receiving node, if it has room for the peer, handles it
  without failing, and its records on the owner of the key, read as maps from the edges and capabilities it knows, hold the trust that was sent; all other entries are as before.  An entry is missing
  only when the peer's share is used up, which happens only when the node still has records of that peer on edges or capabilities it no longer knows.
\<close>

theorem trust_report_delivered:
  assumes "contiki_ok CT" "nanocbor_ok written view NC" "skips_items view NC" "buffer_law NC" "platform_ok E" "codec E = basic_codec CT NC ini tm0 ctm0"
    "at_boot n0" "trust_run E (trust_process_init E clk now n0) n" "job_posted (vjobs (store n)) = (trust_model_process, e) # ps"
    "crypto_success (ksc E) (v_result (report_job n e))" "v_message (report_job n e) = m @ sig" "length sig = DTLS_EC_SIG_SIZE"
    "edge_info_ok es" "addresses_ok es" "serialise_trust (codec E) es secs None MAX_TRUST_PAYLOAD = Some (r, enc)" "0 \<le> r"
    "written (encoder_init NC MAX_TRUST_PAYLOAD) = []" "view (decoder_init NC m) = (written enc, None)"
    "edge_info_ok (node_edges n)" "peer_info_add CT ini (node_peers n) (sender_ip E n e) = (Some p, ps1)"
  shows "\<exists>n'. trust_rx_continue E e (handled n) = Some n' \<and> peer_info_find (node_peers n') (sender_ip E n e) = Some p \<and>
    learned (node_edges n) p (report_of es (edge_resources es)) ps1 (node_peers n') \<and>
    (records_current (node_edges n) p ps1 \<longrightarrow> all_stored (node_edges n) p (report_of es (edge_resources es)) (node_peers n'))"
proof -
  have ok: "trust_node_ok E n" by (rule reachable_ok [OF assms(1,2,4-8)])
  then have rx: "rx_ok n" "ks_inv (xnc (codec E)) (ksc E) (store n)" "peer_info_ok (node_peers n)" by (simp_all add: trust_node_ok_def)
  have h: "handled n = n\<lparr>store := (store n)\<lparr>vjobs := (vjobs (store n))\<lparr>job_posted := ps\<rparr>\<rparr>\<rparr>" by (simp add: handled_def assms(9))
  obtain n' where n': "trust_rx_continue E e (handled n) = Some n'"
    using report_process.rx_returns [OF report_process_basic [OF assms(1,2,4-6)] ok assms(9)] unfolding h by blast
  have "process_received_trust (codec E) (node_edges n) (sender_ip E n e) m (node_peers n) =
      Some (0, merge_report CT (node_edges n) p (report_of es (edge_resources es)) (upd_peer p (\<lambda>p. p\<lparr>last_seen := secs\<rparr>) ps1))"
    unfolding assms(6) by (rule exchange_merges [OF assms(1-3,13,14) assms(15) [unfolded assms(6)] assms(16-18,20)])
  from rx_merges [OF n' assms(10) rx(1) client_posted(1) [OF rx(2) assms(9)] assms(11,12) this]
  show ?thesis using n' merged_report_learned [OF assms(1,13,19) rx(3) assms(20)] by blast
qed


subsection \<open>A run\<close>

text \<open>A node boots, verifies the root's certificate, receives a report signed by the root's key and verifies it.\<close>

definition report_nc :: "(token list, token list \<times> nat option) nanocbor" where
  "report_nc = example_nc\<lparr>enc_buffer := \<lambda>_. replicate 20 0\<rparr>"

definition long_cert :: certificate where
  "long_cert = small_cert\<lparr>signature := replicate 64 4\<rparr>"

definition trust_config :: "unit ks_config" where
  "trust_config = example_config\<lparr>root_cert := long_cert, our_cert := long_cert, ecc_verify := \<lambda>pk m. if length m < 64 then 1 else 0\<rparr>"

definition trust_example_env :: "(unit, edge_resource_tm_basic, edge_capability_tm_basic, unit, token list, token list \<times> nat option) trust_env" where
  "trust_example_env = \<lparr>codec = basic_codec ref_contiki report_nc (\<lambda>_. ()) fresh_trust fresh_cap_trust, ksc = trust_config, set_addr_iid = (\<lambda>ip ll. ip @ ll),
     ip_stack = [], allnodes_mcast = [255, 2], ecc_sign = (\<lambda>m. (0, replicate 64 7)), set_payload = (\<lambda>p. p)\<rparr>"

definition trust_store :: "unit keystore" where
  "trust_store = example_store\<lparr>key_mem := \<lambda>_. \<lparr>cert = long_cert, oscore_context = (), pin_count = 0\<rparr>\<rparr>"

definition boot_node :: "(unit, edge_resource_tm_basic, edge_capability_tm_basic, unit) trust_node" where
  "boot_node = \<lparr>tx_memb = {}, tx_mem = (\<lambda>_. \<lparr>tx_ep = \<lparr>ipaddr = [], secure = 0, port = 0\<rparr>, tx_msg = coap_init_post, tx_buf = []\<rparr>), rx_memb = {},
     rx_mem = (\<lambda>_. \<lparr>rx_key = 0, rx_buf = []\<rparr>), sjobs = \<lparr>jobs_memb = {}, jobs_queue = [],
     job_mem = (\<lambda>_. \<lparr>s_process = 0, s_message = [], s_message_buffer_len = 0, s_message_len = 0, s_data = 0, s_result = 0\<rparr>), job_current = None, job_posted = [], jobs_lost = []\<rparr>,
     store = trust_store, node_edges = example_edges, node_peers = basic_peer0, outbox = []\<rparr>"

definition root_message :: "u8 list" where "root_message = replicate 20 0 @ replicate 64 4"

definition report_message :: "u8 list" where "report_message = replicate 20 0 @ replicate 64 7"

definition root_ep :: coap_endpoint where "root_ep = \<lparr>ipaddr = replicate 8 0 @ [2], secure = 0, port = 5683\<rparr>"

definition root_job :: messages_to_verify_entry where
  "root_job = \<lparr>v_process = keystore_add_verifier, v_message = root_message, v_message_len = 84, v_result = 0, v_pubkey = [3], v_data = 0\<rparr>"

definition the_report_job :: messages_to_verify_entry where
  "the_report_job = \<lparr>v_process = trust_model_process, v_message = report_message, v_message_len = 84, v_result = 0, v_pubkey = [3], v_data = 0\<rparr>"

text \<open>The store after its start, with the certificate's job queued, taken, finished, and handled.\<close>

definition ks1 :: "unit keystore" where
  "ks1 = trust_store\<lparr>public_keys_memb := {0}, public_keys_to_verify := [0], verifier_polled := True,
     key_in_use := timed_unlock_init (key_in_use trust_store) ''keystore'' 7680 0\<rparr>"

definition root_jobs :: "messages_to_verify_entry jobs" where
  "root_jobs = example_jobs\<lparr>job_mem := (job_mem example_jobs)(0 := root_job)\<rparr>"

definition ks2 :: "unit keystore" where
  "ks2 = ks1\<lparr>verifier_polled := False, add_buffer_in_use := True, vjobs := root_jobs\<lparr>jobs_memb := {0}, jobs_queue := [0]\<rparr>\<rparr>"

definition ks3 :: "unit keystore" where
  "ks3 = ks2\<lparr>vjobs := root_jobs\<lparr>jobs_memb := {0}, job_current := Some 0\<rparr>\<rparr>"

definition ks4 :: "unit keystore" where
  "ks4 = ks2\<lparr>vjobs := root_jobs\<lparr>jobs_memb := {0}, job_posted := [(keystore_add_verifier, 0)]\<rparr>\<rparr>"

definition ks5 :: "unit keystore" where
  "ks5 = ks1\<lparr>public_keys_to_verify := [], public_keys := [0], key_mem := (\<lambda>_. \<lparr>cert = long_cert, oscore_context = (), pin_count = 0\<rparr>)(0 := \<lparr>cert = long_cert, oscore_context = (), pin_count = 1\<rparr>),
     verifier_polled := False, vjobs := root_jobs, pkitem := Some 0\<rparr>"

lemma root_message_length [simp]: "length root_message = 84" "length report_message = 84"
  by (simp_all add: root_message_def report_message_def)

lemma env_sel [simp]:
  "codec trust_example_env = basic_codec ref_contiki report_nc (\<lambda>_. ()) fresh_trust fresh_cap_trust" "ksc trust_example_env = trust_config"
  by (simp_all add: trust_example_env_def)

lemma config_sel [simp]:
  "root_cert trust_config = long_cert" "subject long_cert = [2]" "public_key long_cert = [3]" "crypto_success trust_config r = (r = 0)"
  "ecc_verify trust_config pk m = (if length m < 64 then 1 else 0)"
  by (simp_all add: trust_config_def long_cert_def small_cert_def example_config_def)

lemma ks1_init: "snd (keystore_init ref_contiki trust_config 128 0 trust_store) = ks1"
  by (rule keystore.equality)
    (simp_all add: ks1_def keystore_init_def keystore_add_def keystore_find_def keystore_find_in_list_def ref_contiki_def
      keystore_queue_def trust_store_def example_store_def crypto_support_init_def example_jobs_def upt_rec PUBLIC_KEYSTORE_SIZE_def fun_eq_iff)

lemma long_tbs: "tbs_message report_nc long_cert = root_message" "fst (certificate_encode_tbs report_nc long_cert (encoder_init report_nc n)) = 0"
proof -
  have nc: "fmt_array report_nc = (\<lambda>en n. (1, en @ [TArray n]))" "fmt_uint report_nc = (\<lambda>en n. (1, en @ [TUint n]))"
    "put_bstr report_nc = (\<lambda>en b. (1, en @ [TBstr b]))" "encoded_len report_nc = (\<lambda>_. 20)" "enc_buffer report_nc = (\<lambda>_. replicate 20 0)"
    by (simp_all add: report_nc_def example_nc_def ref_nanocbor_def)
  show "fst (certificate_encode_tbs report_nc long_cert (encoder_init report_nc n)) = 0"
    by (simp add: certificate_encode_tbs_def ignored_def serialise_stereotype_tags_def nc long_cert_def small_cert_def)
  show "tbs_message report_nc long_cert = root_message"
    by (simp add: tbs_message_def nc root_message_def) (simp add: long_cert_def)
qed

lemma ks1_sel [simp]:
  "add_buffer_in_use ks1 = False" "public_keys_to_verify ks1 = [0]" "vjobs ks1 = example_jobs" "pkitem ks1 = None" "public_keys ks1 = []"
  "key_mem ks1 = (\<lambda>_. \<lparr>cert = long_cert, oscore_context = (), pin_count = 0\<rparr>)"
  by (simp_all add: ks1_def trust_store_def example_store_def)

lemma queue_ref:
  "queue_message_to_verify ref_contiki p d msg len pk (example_jobs\<lparr>job_mem := jm\<rparr>) =
    (True, example_jobs\<lparr>jobs_memb := {0}, jobs_queue := [0],
      job_mem := jm(0 := (jm 0)\<lparr>v_process := p, v_data := d, v_message := msg, v_message_len := len, v_pubkey := pk\<rparr>)\<rparr>)"
  by (simp add: queue_message_to_verify_def queue_job_def ref_contiki_def example_jobs_def MESSAGES_TO_VERIFY_SIZE_def upt_rec)

lemma ks2_poll: "on_poll ref_contiki report_nc trust_config ks1 = ks2"
proof -
  have "encoded_len report_nc en = 20" for en by (simp add: report_nc_def example_nc_def)
  moreover have "\<not> TBS_CERTIFICATE_CBOR_LENGTH < 20" by (simp add: TBS_CERTIFICATE_CBOR_LENGTH_def DTLS_EC_KEY_SIZE_def EUI64_LENGTH_def)
  moreover have "queue_message_to_verify ref_contiki keystore_add_verifier 0 root_message 84 [3] example_jobs = (True, root_jobs\<lparr>jobs_memb := {0}, jobs_queue := [0]\<rparr>)"
    using queue_ref [of keystore_add_verifier 0 root_message 84 "[3]" "job_mem example_jobs"] by (simp add: root_jobs_def root_job_def example_jobs_def)
  ultimately show ?thesis
    by (simp add: on_poll_def keystore_add_start_def ks2_def Let_def split_def long_tbs DTLS_EC_SIG_SIZE_def DTLS_EC_KEY_SIZE_def)
qed

lemma ks3_take: "take_job ref_contiki (vjobs ks2) = Some (vjobs ks3)"
  by (simp add: take_job_def ks2_def ks3_def queue_ok root_jobs_def example_jobs_def)

lemma ks4_finish:
  "job_current (vjobs ks3) = Some 0"
  "verifier_finish (ecc_verify trust_config (v_pubkey (job_mem (vjobs ks3) 0)) (v_message (job_mem (vjobs ks3) 0))) True (vjobs ks3) = Some (vjobs ks4)"
  by (simp_all add: verifier_finish_def finish_job_def ks3_def ks4_def root_jobs_def example_jobs_def root_job_def Let_def)

lemma ks5_verified:
  "on_message_verified ref_contiki trust_config 0 (ks4\<lparr>vjobs := (vjobs ks4)\<lparr>job_posted := []\<rparr>\<rparr>) = ks5"
proof -
  have j: "job_mem root_jobs 0 = root_job" "vjobs ks4 = root_jobs\<lparr>jobs_memb := {0}, job_posted := [(keystore_add_verifier, 0)]\<rparr>"
    by (simp_all add: root_jobs_def ks4_def)
  have d: "queue_message_to_verify_done ref_contiki 0 (root_jobs\<lparr>jobs_memb := {0}, job_posted := []\<rparr>) = root_jobs"
    by (simp add: queue_message_to_verify_done_def job_done_def ref_contiki_def MESSAGES_TO_VERIFY_SIZE_def root_jobs_def example_jobs_def)
  have k: "public_keys ks4 = []" "public_keys_to_verify ks4 = [0]" "key_mem ks4 = key_mem ks1" "public_keys_memb ks4 = public_keys_memb ks1"
    "key_req_payload ks4 = key_req_payload ks1" "key_in_use ks4 = key_in_use ks1" "verifier_polled ks4 = False"
    by (simp_all add: ks4_def ks2_def)
  show ?thesis
    by (rule keystore.equality)
      (simp_all add: on_message_verified_def keystore_add_continued_def Let_def j d k list_remove_ok list_push_new root_job_def keystore_pin_def ks5_def)
qed


text \<open>The node once the root's key is known, and with the report received, taken by the verifier and verified.\<close>

definition report_jobs_mem :: "messages_to_verify_entry jobs" where
  "report_jobs_mem = root_jobs\<lparr>job_mem := (job_mem root_jobs)(0 := the_report_job)\<rparr>"

definition ks6 :: "unit keystore" where
  "ks6 = (keystore_pin 0 ks5)\<lparr>vjobs := report_jobs_mem\<lparr>jobs_memb := {0}, jobs_queue := [0]\<rparr>\<rparr>"

definition ks7 :: "unit keystore" where
  "ks7 = ks6\<lparr>vjobs := report_jobs_mem\<lparr>jobs_memb := {0}, job_current := Some 0\<rparr>\<rparr>"

definition ks8 :: "unit keystore" where
  "ks8 = ks6\<lparr>vjobs := report_jobs_mem\<lparr>jobs_memb := {0}, job_posted := [(trust_model_process, 0)]\<rparr>\<rparr>"

definition tnode :: "unit keystore \<Rightarrow> (unit, edge_resource_tm_basic, edge_capability_tm_basic, unit) trust_node" where
  "tnode s = (trust_process_init trust_example_env 128 0 boot_node)\<lparr>store := s\<rparr>"

definition rnode :: "unit keystore \<Rightarrow> (unit, edge_resource_tm_basic, edge_capability_tm_basic, unit) trust_node" where
  "rnode s = (tnode s)\<lparr>node_edges := example_edges, rx_memb := {0}, rx_mem := (rx_mem boot_node)(0 := \<lparr>rx_key = 0, rx_buf = report_message\<rparr>)\<rparr>"

lemma find_root: "keystore_find_addr trust_config ks5 (ipaddr root_ep) = Some 0"
proof -
  have "ipaddr root_ep = replicate 8 0 @ [2]" "replicate 8 0 @ [2] \<noteq> (replicate 16 9 :: u8 list)" "drop 8 (replicate 8 0 @ [2 :: u8]) = [2]"
    by (simp_all add: root_ep_def numeral_eq_Suc)
  then show ?thesis
    by (simp add: keystore_find_addr_def keystore_find_def keystore_find_in_list_def uip_ip6addr_normalise_def eui64_from_ipaddr_def EUI64_LENGTH_def
        trust_config_def example_config_def ks5_def long_cert_def small_cert_def Let_def)
qed

lemma report_received:
  "res_trust_post_handler trust_example_env 0 True root_ep report_message ((tnode ks5)\<lparr>node_edges := example_edges\<rparr>) = Some ((None, None), rnode ks6)"
proof -
  have len: "report_message \<noteq> []" "MAX_TRUST_PAYLOAD + DTLS_EC_SIG_SIZE = 256"
    by (simp_all add: report_message_def MAX_TRUST_PAYLOAD_def DTLS_EC_SIG_SIZE_def DTLS_EC_KEY_SIZE_def COAP_MAX_CHUNK_SIZE_def)
  have s: "store ((tnode ks5)\<lparr>node_edges := example_edges\<rparr>) = ks5" "rx_memb ((tnode ks5)\<lparr>node_edges := example_edges\<rparr>) = {}"
    "rx_mem ((tnode ks5)\<lparr>node_edges := example_edges\<rparr>) = rx_mem boot_node"
    by (simp_all add: tnode_def trust_process_init_def)
  have al: "memb_alloc ref_contiki TRUST_RX_SIZE {} = (Some 0, {0})" by (simp add: ref_contiki_def TRUST_RX_SIZE_def upt_rec)
  have pin: "vjobs (keystore_pin 0 ks5) = root_jobs" "public_key (cert (key_mem (keystore_pin 0 ks5) 0)) = [3]"
    by (simp_all add: keystore_pin_def ks5_def)
  have q: "queue_message_to_verify ref_contiki trust_model_process 0 report_message 84 [3] root_jobs =
      (True, report_jobs_mem\<lparr>jobs_memb := {0}, jobs_queue := [0]\<rparr>)"
    using queue_ref [of trust_model_process 0 report_message 84 "[3]" "job_mem root_jobs"]
    by (simp add: report_jobs_mem_def root_jobs_def the_report_job_def root_job_def example_jobs_def)
  have b: "rx_buf (rx_mem boot_node 0) = []" by (simp add: boot_node_def)
  show ?thesis
    by (simp add: res_trust_post_handler_def len s find_root al pin q b) (simp add: rnode_def tnode_def ks6_def)
qed

lemma report_taken: "take_job ref_contiki (vjobs ks6) = Some (vjobs ks7)"
  by (simp add: take_job_def ks6_def ks7_def queue_ok report_jobs_mem_def root_jobs_def example_jobs_def)

lemma report_verified:
  "job_current (vjobs ks7) = Some 0"
  "verifier_finish (ecc_verify trust_config (v_pubkey (job_mem (vjobs ks7) 0)) (v_message (job_mem (vjobs ks7) 0))) True (vjobs ks7) = Some (vjobs ks8)"
  by (simp_all add: verifier_finish_def finish_job_def ks7_def ks8_def report_jobs_mem_def root_jobs_def example_jobs_def the_report_job_def Let_def)

lemma xct_env [simp]: "xct (codec trust_example_env) = ref_contiki" "xnc (codec trust_example_env) = report_nc"
  by simp_all

lemma example_run: "trust_run trust_example_env (trust_process_init trust_example_env 128 0 boot_node) (rnode ks8)"
proof -
  let ?E = trust_example_env
  have keys: "trust_step ?E (tnode s) (tnode s')" if "store_step ref_contiki report_nc trust_config s s'" for s s'
    using trust_step.keys [of ?E "tnode s" s'] that by (simp add: tnode_def)
  have rkeys: "trust_step ?E (rnode s) (rnode s')" if "store_step ref_contiki report_nc trust_config s s'" for s s'
  proof -
    have "(rnode s)\<lparr>store := s'\<rparr> = rnode s'" by (rule trust_node.equality) (simp_all add: rnode_def tnode_def)
    moreover have "store (rnode s) = s" by (simp add: rnode_def tnode_def)
    ultimately show ?thesis using trust_step.keys [of ?E "rnode s" s'] that by simp
  qed
  let ?step = "store_step ref_contiki report_nc trust_config"
  have "tnode ks1 = trust_process_init ?E 128 0 boot_node"
    by (simp add: tnode_def trust_process_init_def boot_node_def ks1_init)
  then have r1: "trust_run ?E (trust_process_init ?E 128 0 boot_node) (tnode ks1)" by (simp add: trust_run.start)
  have "?step ks1 ks2" unfolding ks2_poll [symmetric] by (rule store_step.poll) simp
  note r2 = trust_run.step [OF r1 keys [OF this]]
  have "?step ks2 ks3" using store_step.take [OF ks3_take] by (simp add: ks3_def)
  note r3 = trust_run.step [OF r2 keys [OF this]]
  have "?step ks3 ks4" using store_step.finish [OF ks4_finish] by (simp add: ks4_def ks3_def)
  note r4 = trust_run.step [OF r3 keys [OF this]]
  have "pkitem ks4 = None" "job_posted (vjobs ks4) = [(keystore_add_verifier, 0)]" by (simp_all add: ks4_def ks2_def)
  from store_step.verified [OF this, of ref_contiki report_nc trust_config] have "?step ks4 ks5" by (simp only: ks5_verified)
  note r5 = trust_run.step [OF trust_run.step [OF r4 keys [OF this]] trust_step.edges [where es = example_edges]]
  note r6 = trust_run.step [OF r5 trust_step.post [OF report_received]]
  have "?step ks6 ks7" using store_step.take [OF report_taken] by (simp add: ks7_def)
  note r7 = trust_run.step [OF r6 rkeys [OF this]]
  have "?step ks7 ks8" using store_step.finish [OF report_verified] by (simp add: ks8_def ks7_def)
  from trust_run.step [OF r7 rkeys [OF this]] show ?thesis .
qed

lemma example_hyps:
  "nanocbor_ok (\<lambda>en. en) (\<lambda>de. de) report_nc" "skips_items (\<lambda>de. de) report_nc" "buffer_law report_nc" "platform_ok trust_example_env" "at_boot boot_node"
proof -
  show "nanocbor_ok (\<lambda>en. en) (\<lambda>de. de) report_nc" "skips_items (\<lambda>de. de) report_nc" unfolding report_nc_def by (rule example_nc_buffer)+
  show "buffer_law report_nc" by (simp add: buffer_law_def report_nc_def example_nc_def)
  show "platform_ok trust_example_env"
    by (simp add: platform_ok_def DTLS_EC_SIG_SIZE_def DTLS_EC_KEY_SIZE_def) (simp add: trust_example_env_def)
  show "at_boot boot_node" by (simp add: at_boot_def boot_node_def trust_store_def example_store_def example_jobs_def)
qed

lemmas example_reachable = ref_contiki_ok example_hyps(1,3,4) env_sel(1) example_hyps(5) example_run

interpretation example_reports: report_process "\<lambda>en. en" "\<lambda>de. de" trust_example_env edge_tm_tokens cap_tm_tokens
  by (rule report_process_basic [OF ref_contiki_ok example_hyps(1,3,4) env_sel(1)])

lemma posted_report: "job_posted (vjobs (store (rnode ks8))) = [(trust_model_process, 0)]"
  by (simp add: rnode_def tnode_def ks8_def)

theorem trust_reports_authentic_witness:
  "\<exists>n'. trust_step trust_example_env (rnode ks8) n' \<and> merges_authentic trust_example_env (rnode ks8) n' \<and> sends_signed trust_example_env (rnode ks8) n'"
proof -
  obtain n' where "trust_step trust_example_env (rnode ks8) n'"
    using example_reports.rx_returns [OF reachable_ok [OF example_reachable] posted_report] trust_step.verified [OF posted_report] by blast
  with trust_reports_authentic [OF example_reachable this] show ?thesis by blast
qed


theorem trust_post_answers_witness:
  "map_option fst (res_trust_post_handler trust_example_env 0 True root_ep [] (rnode ks8)) = Some (Some BAD_REQUEST_4_00, None)"
  using trust_post_answers [OF example_reachable, of 0 True root_ep "[]"] by simp

theorem trust_report_delivered_witness:
  "\<exists>n' p. trust_rx_continue trust_example_env 0 (handled (rnode ks8)) = Some n' \<and>
    edge_trust (node_peers n') p 0 = Some fresh_trust \<and> cap_trust (node_peers n') p 0 0 = Some fresh_cap_trust"
proof -
  let ?n = "rnode ks8"
  have m: "report_job ?n 0 = the_report_job" "node_edges ?n = example_edges" "node_peers ?n = peer_info_init basic_peer0"
    by (simp_all add: rnode_def tnode_def ks8_def report_jobs_mem_def trust_process_init_def boot_node_def)
  have j: "crypto_success (ksc trust_example_env) (v_result (report_job ?n 0))" "v_message (report_job ?n 0) = replicate 20 0 @ replicate 64 7"
    by (simp_all add: m the_report_job_def report_message_def)
  have es: "edge_info_ok example_edges" "addresses_ok example_edges"
    by (simp_all add: example_edges_def one_edge_info_ok addresses_ok_def) (simp add: one_edge_info_def)
  then have esn: "edge_info_ok (node_edges ?n)" by (simp add: m(2))
  have s: "serialise_trust (codec trust_example_env) example_edges 9 None MAX_TRUST_PAYLOAD = Some (20, example_message)"
    unfolding env_sel report_nc_def
    by (rule example_serialise_buffer) (simp add: MAX_TRUST_PAYLOAD_def COAP_MAX_CHUNK_SIZE_def DTLS_EC_SIG_SIZE_def DTLS_EC_KEY_SIZE_def)
  have nc: "encoder_init report_nc MAX_TRUST_PAYLOAD = []" "decoder_init report_nc (replicate 20 0) = (example_message, None)"
    by (simp_all add: report_nc_def example_nc_def ref_nanocbor_def)
  obtain ps1 where p: "peer_info_add ref_contiki (\<lambda>_. ()) (node_peers ?n) (sender_ip trust_example_env ?n 0) = (Some 0, ps1)" "peer_edges (peer_mem ps1 0) = []"
    unfolding m(3) by (simp add: peer_info_add_def peer_new_def Let_def peer_info_find_def peer_info_init_def ref_contiki_def NUM_PEERS_def upt_rec)
  have cur: "records_current example_edges 0 ps1" using p(2) by (simp add: records_current_def dom_def edge_trust_def cap_trust_def peer_info_find_edge_def)
  have rep: "report_of example_edges (edge_resources example_edges) = [(replicate 16 1, fresh_trust, [(''envmon'', fresh_cap_trust)])]"
    by (simp add: report_of_def example_edges_def one_edge_info_def cstr_def NUL_def)
  have find: "edge_info_find_addr example_edges (replicate 16 1) = Some 0" "edge_info_capability_find example_edges (Some 0) ''envmon'' = Some 0"
    by (simp_all add: example_edges_def one_edge_info_def edge_info_find_addr_def edge_info_capability_find_def cstr_def NUL_def)
  have "length (replicate 64 (7 :: u8)) = DTLS_EC_SIG_SIZE" by (simp add: DTLS_EC_SIG_SIZE_def DTLS_EC_KEY_SIZE_def)
  from trust_report_delivered [OF ref_contiki_ok example_hyps(1-4) env_sel(1) example_hyps(5) example_run posted_report j this es s _ _ _ esn p(1)] nc cur
  obtain n' where n': "trust_rx_continue trust_example_env 0 (handled ?n) = Some n'" "all_stored example_edges 0 (report_of example_edges (edge_resources example_edges)) (node_peers n')"
    unfolding m(2) by auto
  then show ?thesis using n'(2) [unfolded all_stored_def rep] find by (intro exI [of _ n'] exI [of _ 0]) auto
qed


end
