(* ===== verification/Spec2Isabelle.thy ===== *)
theory Spec2Isabelle
  imports Base64 Random_Helpers Interaction_History Distributions Certificate Peer_Info Stereotypes Tm_Reputation Tm_Throughput Node_Invariant Trust_Exchange Edge_Capability Challenge_Response Routing Trust_Process
begin

text \<open>
  A verification of the firmware of the trust-based task allocation system, the C code under \<open>src/wsn\<close>.

  The system.  A wireless network has IoT nodes, resource-rich nodes (edges) that offer capabilities such as routing, and a root with a server behind it.  A
  node hears over MQTT on CoAP which edges there are and what they offer, keeps a table of them, fetches and verifies their certificates, rates them
  by a trust model fed with the outcome of its own tasks, exchanges its ratings with other nodes, and sends each task to an edge it chooses by trust.  What
  follows models that path, from the encodings at the bottom to the messages that drive it.

  Theories, in the order of the code's layers; the opening text of each names its source files.

  \<^item> \<open>Prelude\<close>: widths and addresses, and the facts on lists, words and options the others share.  \<open>Contiki\<close>: the services of Contiki-NG, a record of functions \<open>CT\<close> with
    the laws \<open>contiki_ok\<close>, and the instance \<open>ref_contiki\<close>.  \<open>Registry\<close>: pools whose blocks are owned by lists, and the locale \<open>registry\<close>, the contract of a bounded table.
  \<^item> \<open>Base16\<close>, \<open>Base64\<close>, \<open>Eui64\<close>, \<open>Random_Helpers\<close>, \<open>Timed_Unlock\<close> (directory \<open>common\<close>): text encodings, addresses, unbiased random numbers, and the lock
    that opens by itself.
  \<^item> \<open>Cfloat\<close>, \<open>Distributions\<close>, \<open>Interaction_History\<close> (\<open>common/trust\<close>): IEEE floats over an unknown rounding, the beta, Gaussian and Poisson distributions, the
    ring buffer of observations with the locale \<open>bounded_history\<close>.
  \<^item> \<open>Cbor\<close>, \<open>Certificate\<close>: NanoCBOR as a record \<open>NC\<close> of functions with the laws \<open>nanocbor_ok\<close>, the helpers around it, certificates and tags.
  \<^item> \<open>Crypto_Support\<close>, \<open>Keystore\<close>, \<open>Keystore_Pins\<close> (\<open>common/crypto\<close>): the queues of signing and verifying jobs as a step relation, the store of certificates on top of them,
    and what its other clients may rely on when they pin keys and queue jobs of their own.
  \<^item> \<open>Edge_Info\<close>, \<open>Peer_Info\<close>, \<open>Stereotypes\<close> (\<open>common/trust\<close>): the tables of edges, of the reports of peers, and of the stereotypes of the server.
  \<^item> \<open>Trust_Models\<close>, \<open>Tm_Basic\<close>, \<open>Tm_Reputation\<close>, \<open>Tm_Throughput\<close> (\<open>common/trust/models\<close>) and \<open>Trust_Choose\<close> (\<open>common/trust/choose\<close>): what the trust
    models share, three of them, and the six choosers, which use a model through the locale \<open>trust_model\<close>.
  \<^item> \<open>Applications\<close>, \<open>Trust_Common\<close>, \<open>Node_Invariant\<close>, \<open>Trust_Exchange\<close>, \<open>Mqtt_Over_Coap\<close>: the state of the applications, the handlers of published messages, what
    a node keeps true across them, the exchange of trust reports, and the publish and subscribe client.
  \<^item> \<open>Trust_Process\<close> (\<open>node/trust\<close>): the process that signs and sends the reports and queues, verifies and merges those of others; its locale \<open>report_process\<close> names what
    it needs of the store and of the codec.  \<open>Edge_Capability\<close> (\<open>edge\<close>): the other side of the topics, an edge node that announces itself and its applications.

  How the state corresponds.  A structure is a record with the structure's fields; the blocks of a static pool are a function from addresses (natural
  numbers) to records, a set of the blocks in use, and lists of addresses for the intrusive lists that link them.  Integers are words of their width and wrap; floats are
  \<open>cfloat\<close>.  A C function is a definition of the same name that returns its result and the changed state.  \<open>None\<close> is an outcome the code has no defined value for: a
  failed assertion, an access out of bounds, a conversion out of range, or a call that does not return.  Loops are structural functions over
  the list they walk, and \<open>partial_function\<close>s where their end is not evident: \<open>random_in_range_unbiased\<close>, \<open>pop_free_loop\<close>, the decoding loops of \<open>Trust_Exchange\<close>;
  termination is then a theorem of its own.  No fuel is used.  Processes that wait for events are step relations (\<open>job_step\<close>, \<open>ks_step\<close>, \<open>lock_step\<close>, \<open>node_run\<close>,
  \<open>mqtt_run\<close>, \<open>trust_run\<close>, \<open>edge_run\<close>) whose steps are the handlers of the code.

  What is a parameter.  Contiki-NG (\<open>CT\<close>), NanoCBOR (\<open>NC\<close>), the rounding of the float format (\<open>F\<close>, \<open>D\<close>), and the platform's cryptography, OSCORE, the built-in certificates
  and the address functions of the IP stack (\<open>K\<close>) are not part of the repository.  Each is a record of functions whose documented laws are a named predicate, and each
  predicate is proved of a concrete instance (\<open>ref_contiki_ok\<close>, \<open>ref_nanocbor_ok\<close>, the exact format), on which the witnesses run.  Arrivals of messages, results of radio
  requests and the passing of time are inputs of the operations.

  What the lemmas show.

  \<^item> Encodings: decoding inverts encoding for Base64, certificates and trust reports; the encoder keeps to its buffer.
  \<^item> Tables: the \<open>_ok\<close> predicates say that the blocks in use are those on the lists, none twice, within the bounds; every operation keeps them.  The \<open>_spec\<close>
    and \<open>_cases\<close> lemmas give each operation's result on every branch; \<open>_never_evicts\<close> and \<open>_keeps_pinned\<close> say what no sequence of operations loses.
  \<^item> Security: in every run the store offers only keys whose certificate was accepted under the root's key; the bytes of a report of a peer change that peer's records only.
  \<^item> Trust: each model's value is bounded and the basic model's is monotone in the events, under every rounding; the choosers' results are optimal or in their band.
    The interpretations of \<open>trust_model\<close> carry the choosers' facts over to each model.
  \<^item> Reports: in every run the records on peers change only by merging a report signed under a certified key, a verified report is delivered, and no block or pin is lost.
  \<^item> The edge node: every event is handled, what it publishes is what the handlers of \<open>Trust_Common\<close> parse, and its applications take turns whatever fails.
  \<^item> The node: an application runs exactly when a chooser has a candidate for it (\<open>node_inv\<close>, kept by every message), and the MQTT client subscribes to all topics.
  \<^item> Defects: where the code misses its intent the theorem says what it does; the theorems on lost capabilities, lost subscriptions, a full
    store, NaN trust and the proportional chooser are of this kind.

  Sizes are those of the sources' defaults (four edges, three capabilities each, eight peers, twelve keys, five stereotypes, three jobs per queue, eight observations).

  Not modelled: logging and printing; the programs of the directory \<open>adversary\<close> and the profiler, which attack or measure the system; the drivers of the crypto
  accelerators, which are register accesses; packet capture; the Python programs outside \<open>src/wsn\<close>; the hidden Markov models, whose float iterations have no simple
  contract under an unknown rounding; and of the applications the tasks and transfers beyond the state they share.
\<close>

end
